(* ===== verification/GoPrelude.thy ===== *)
theory GoPrelude
  imports Main "HOL-Library.AList" "HOL-Library.Sublist"
begin

text \<open>
  The prelude: what every component of the model shares.  Go errors as values, Go maps as
  association lists with distinct keys, the functions of the packages \<open>strings\<close> and
  \<open>strconv\<close> the sources call, and the generic lemmas on them.  Go strings are byte
  sequences, which is what \<open>char list\<close> is here.
\<close>

section \<open>Errors as values\<close>

text \<open>
  \<open>Errorf f as\<close> is the error of \<open>errors.New f\<close> and \<open>fmt.Errorf(f, as...)\<close>, kept
  as its format and its arguments; \<open>Wrapf f as e\<close> is \<open>fmt.Errorf\<close> with a \<open>%w\<close>
  for \<open>e\<close>; \<open>ExtErr\<close> is an error made by code outside the repository; \<open>IoEOF\<close>
  is \<open>io.EOF\<close> and \<open>CtxErr\<close> is \<open>ctx.Err()\<close>.
\<close>

datatype goerr =
    Errorf string "string list"
  | Wrapf string "string list" goerr
  | ExtErr string
  | IoEOF
  | CtxErr

type_synonym 'a res = "goerr + 'a"

fun is_ok :: "'a res \<Rightarrow> bool" where
  "is_ok (Inl _) = False"
| "is_ok (Inr _) = True"

section \<open>Go maps\<close>

text \<open>
  A Go map is an association list with distinct keys.  Go iterates over a map in an order
  it does not specify; the model iterates in the list's order, and no property depends on it.
\<close>

type_synonym 'v gomap = "(string \<times> 'v) list"

definition gm_wf :: "'v gomap \<Rightarrow> bool" where
  "gm_wf m \<longleftrightarrow> distinct (map fst m)"

definition gm_get :: "'v gomap \<Rightarrow> string \<Rightarrow> 'v option" where
  "gm_get m k = map_of m k"

definition gm_put :: "string \<Rightarrow> 'v \<Rightarrow> 'v gomap \<Rightarrow> 'v gomap" where
  "gm_put k v m = AList.update k v m"

definition gm_del :: "string \<Rightarrow> 'v gomap \<Rightarrow> 'v gomap" where
  "gm_del k m = AList.delete k m"

definition gm_keys :: "'v gomap \<Rightarrow> string list" where
  "gm_keys m = map fst m"

definition gm_vals :: "'v gomap \<Rightarrow> 'v list" where
  "gm_vals m = map snd m"

named_theorems gm_simps \<open>lookup laws of the Go maps\<close>

lemma gm_get_Nil [simp, gm_simps]: "gm_get [] k = None"
  by (simp add: gm_get_def)

lemma gm_get_put [simp, gm_simps]: "gm_get (gm_put k v m) k' = (if k' = k then Some v else gm_get m k')"
  by (simp add: gm_get_def gm_put_def update_conv')

lemma gm_get_del [simp, gm_simps]: "gm_get (gm_del k m) k' = (if k' = k then None else gm_get m k')"
  by (simp add: gm_get_def gm_del_def delete_conv')

lemma gm_wf_Nil [simp]: "gm_wf []"
  by (simp add: gm_wf_def)

lemma gm_wf_put [simp]: "gm_wf m \<Longrightarrow> gm_wf (gm_put k v m)"
  by (simp add: gm_wf_def gm_put_def distinct_update)

lemma gm_wf_del [simp]: "gm_wf m \<Longrightarrow> gm_wf (gm_del k m)"
  by (simp add: gm_wf_def gm_del_def distinct_delete)

lemma gm_keys_get: "k \<in> set (gm_keys m) \<longleftrightarrow> gm_get m k \<noteq> None"
  by (auto simp: gm_keys_def gm_get_def map_of_eq_None_iff)

lemma gm_mem_get: "gm_wf m \<Longrightarrow> (k, v) \<in> set m \<longleftrightarrow> gm_get m k = Some v"
  by (auto simp: gm_wf_def gm_get_def)

lemma gm_get_mem: "gm_get m k = Some v \<Longrightarrow> (k, v) \<in> set m"
  by (auto simp: gm_get_def dest: map_of_SomeD)

lemma gm_vals_iff: "gm_wf m \<Longrightarrow> v \<in> set (gm_vals m) \<longleftrightarrow> (\<exists>k. gm_get m k = Some v)"
  by (force simp: gm_vals_def gm_mem_get [symmetric])

lemma gm_del_absent: "gm_get m k = None \<Longrightarrow> gm_del k m = m"
  by (auto simp: gm_get_def gm_del_def map_of_eq_None_iff)

lemma gm_del_put_absent: "gm_get m k = None \<Longrightarrow> gm_del k (gm_put k v m) = m"
proof (induction m)
  case Nil
  then show ?case by (simp add: gm_del_def gm_put_def)
next
  case (Cons a m)
  then show ?case
    by (cases a) (auto simp: gm_get_def gm_del_def gm_put_def AList.delete_eq split: if_splits)
qed

section \<open>A registry of named objects\<close>

text \<open>
  Sessions, forwards, shells and docker hosts are all kept the same way: a map from ids to
  objects, an object enters under an id that is free and leaves by its id.  The contract of
  such a registry, from which the clients' lemmas follow once.
\<close>

locale registry =
  fixes look :: "'m \<Rightarrow> string \<Rightarrow> 'o option"
    and key :: "'m \<Rightarrow> 'o \<Rightarrow> string"
    and enter :: "'o \<Rightarrow> 'm \<Rightarrow> 'm res"
    and leave :: "string \<Rightarrow> 'm \<Rightarrow> 'm res"
  assumes enter_taken: "look m (key m v) \<noteq> None \<Longrightarrow> \<not> is_ok (enter v m)"
    and enter_ok: "enter v m = Inr m' \<Longrightarrow> look m' k = (if k = key m v then Some v else look m k)"
    and enter_key: "enter v m = Inr m' \<Longrightarrow> key m' v' = key m v'"
    and leave_absent: "look m k = None \<Longrightarrow> \<not> is_ok (leave k m)"
    and leave_ok: "leave k m = Inr m' \<Longrightarrow> look m' k' = (if k' = k then None else look m k')"
begin

lemma enter_fresh: "enter v m = Inr m' \<Longrightarrow> look m (key m v) = None"
  by (metis enter_taken is_ok.simps(2))

lemma enter_twice: "enter v m = Inr m' \<Longrightarrow> key m v' = key m v \<Longrightarrow> \<not> is_ok (enter v' m')"
  by (simp add: enter_taken enter_ok [of v m m'] enter_key [of v m m'])

lemma leave_present: "leave k m = Inr m' \<Longrightarrow> look m k \<noteq> None"
  by (metis leave_absent is_ok.simps(2))

lemma leave_twice: "leave k m = Inr m' \<Longrightarrow> \<not> is_ok (leave k m')"
  by (simp add: leave_absent leave_ok [of k m m'])

lemma enter_leave:
  assumes "enter v m = Inr m1" and "leave (key m v) m1 = Inr m2"
  shows "look m2 = look m"
proof
  fix k
  show "look m2 k = look m k"
    using enter_ok [OF assms(1)] leave_ok [OF assms(2)] enter_fresh [OF assms(1)] by simp
qed

lemma others_kept:
  assumes "enter v m = Inr m1" and "k \<noteq> key m v"
  shows "look m1 k = look m k"
  using enter_ok [OF assms(1)] assms(2) by simp

end

section \<open>Step systems and their invariants\<close>

text \<open>
  A component whose operations interleave is a step relation from an initial state.  What
  holds initially and is kept by each step holds in every reachable state.
\<close>

inductive steps_to :: "('s \<Rightarrow> 's \<Rightarrow> bool) \<Rightarrow> 's \<Rightarrow> 's \<Rightarrow> bool" for step :: "'s \<Rightarrow> 's \<Rightarrow> bool" where
  steps_refl: "steps_to step s s"
| steps_snoc: "steps_to step s t \<Longrightarrow> step t u \<Longrightarrow> steps_to step s u"

lemma steps_one: "step s t \<Longrightarrow> steps_to step s t"
  by (blast intro: steps_to.intros)

lemma steps_trans:
  assumes "steps_to step s t" and "steps_to step t u"
  shows "steps_to step s u"
  using assms(2,1) by (induction rule: steps_to.induct) (auto intro: steps_to.intros)

lemma steps_cons: "step s t \<Longrightarrow> steps_to step t u \<Longrightarrow> steps_to step s u"
  by (blast intro: steps_trans steps_one)

locale step_system =
  fixes init :: "'s \<Rightarrow> bool"
    and step :: "'s \<Rightarrow> 's \<Rightarrow> bool"
    and inv :: "'s \<Rightarrow> bool"
  assumes inv_init: "init s \<Longrightarrow> inv s"
    and inv_step: "inv s \<Longrightarrow> step s t \<Longrightarrow> inv t"
begin

lemma inv_steps: "steps_to step s t \<Longrightarrow> inv s \<Longrightarrow> inv t"
  by (induction rule: steps_to.induct) (auto intro: inv_step)

lemma inv_reachable: "init s \<Longrightarrow> steps_to step s t \<Longrightarrow> inv t"
  by (blast intro: inv_steps inv_init)

end

end
