(* ===== verification/GoStrings.thy ===== *)
theory GoStrings
  imports GoPrelude
begin

text \<open>
  What the sources use of Go's packages \<open>strings\<close>, \<open>strconv\<close> and of
  \<open>net.SplitHostPort\<close> / \<open>net.JoinHostPort\<close>, as executable functions on byte
  strings, with the laws the components need.
\<close>

section \<open>Package strings\<close>

definition hasPrefix :: "string \<Rightarrow> string \<Rightarrow> bool" where
  "hasPrefix s p \<longleftrightarrow> take (length p) s = p"

definition trimPrefix :: "string \<Rightarrow> string \<Rightarrow> string" where
  "trimPrefix s p = (if hasPrefix s p then drop (length p) s else s)"

definition trimSuffix :: "string \<Rightarrow> string \<Rightarrow> string" where
  "trimSuffix s p = rev (trimPrefix (rev s) (rev p))"

text \<open>
  \<open>strings.TrimSpace\<close> cuts Unicode white space.  A Go string is UTF-8, so a white space
  rune at an end of the string is one of these byte sequences there.
\<close>

definition utf8_spaces :: "string list" where
  "utf8_spaces =
     [[CHR 0x09], [CHR 0x0A], [CHR 0x0B], [CHR 0x0C], [CHR 0x0D], [CHR 0x20],
      [CHR 0xC2, CHR 0x85], [CHR 0xC2, CHR 0xA0], [CHR 0xE1, CHR 0x9A, CHR 0x80],
      [CHR 0xE2, CHR 0x80, CHR 0x80], [CHR 0xE2, CHR 0x80, CHR 0x81],
      [CHR 0xE2, CHR 0x80, CHR 0x82], [CHR 0xE2, CHR 0x80, CHR 0x83],
      [CHR 0xE2, CHR 0x80, CHR 0x84], [CHR 0xE2, CHR 0x80, CHR 0x85],
      [CHR 0xE2, CHR 0x80, CHR 0x86], [CHR 0xE2, CHR 0x80, CHR 0x87],
      [CHR 0xE2, CHR 0x80, CHR 0x88], [CHR 0xE2, CHR 0x80, CHR 0x89],
      [CHR 0xE2, CHR 0x80, CHR 0x8A], [CHR 0xE2, CHR 0x80, CHR 0xA8],
      [CHR 0xE2, CHR 0x80, CHR 0xA9], [CHR 0xE2, CHR 0x80, CHR 0xAF],
      [CHR 0xE2, CHR 0x81, CHR 0x9F], [CHR 0xE3, CHR 0x80, CHR 0x80]]"

fun cut_prefix :: "string list \<Rightarrow> string \<Rightarrow> string option" where
  "cut_prefix [] s = None"
| "cut_prefix (p # ps) s = (if p \<noteq> [] \<and> hasPrefix s p then Some (drop (length p) s) else cut_prefix ps s)"

lemma cut_prefix_shorter: "cut_prefix ps s = Some s' \<Longrightarrow> length s' < length s"
proof (induction ps)
  case (Cons p ps)
  then show ?case
    by (cases s) (auto simp: hasPrefix_def split: if_splits)
qed simp

function cut_all :: "string list \<Rightarrow> string \<Rightarrow> string" where
  "cut_all ps s = (case cut_prefix ps s of None \<Rightarrow> s | Some s' \<Rightarrow> cut_all ps s')"
  by pat_completeness auto
termination
  by (relation "measure (\<lambda>(ps, s). length s)") (auto dest: cut_prefix_shorter)

declare cut_all.simps [simp del]

definition trimSpace :: "string \<Rightarrow> string" where
  "trimSpace s = rev (cut_all (map rev utf8_spaces) (rev (cut_all utf8_spaces s)))"

lemma cut_all_stop: "cut_prefix ps (cut_all ps s) = None"
proof (induction ps s rule: cut_all.induct)
  case (1 ps s)
  show ?case
  proof (cases "cut_prefix ps s")
    case None
    then show ?thesis by (simp add: cut_all.simps [of ps s])
  next
    case (Some s')
    with 1 show ?thesis by (simp add: cut_all.simps [of ps s])
  qed
qed

lemma cut_all_id: "cut_prefix ps s = None \<Longrightarrow> cut_all ps s = s"
  by (subst cut_all.simps) simp

text \<open>\<open>strings.Split\<close> at a one-byte separator, \<open>strings.Join\<close>, \<open>strings.Index\<close>.\<close>

fun splitOn :: "char \<Rightarrow> string \<Rightarrow> string list" where
  "splitOn c [] = [[]]"
| "splitOn c (x # xs) =
     (if x = c then [] # splitOn c xs
      else (case splitOn c xs of [] \<Rightarrow> [[x]] | y # ys \<Rightarrow> (x # y) # ys))"

fun joinWith :: "string \<Rightarrow> string list \<Rightarrow> string" where
  "joinWith sep [] = []"
| "joinWith sep [s] = s"
| "joinWith sep (s # t # ss) = s @ sep @ joinWith sep (t # ss)"

lemma joinWith_snoc: "joinWith sep (ds @ [d]) = (if ds = [] then d else joinWith sep ds @ sep @ d)"
  by (induction ds rule: induct_list012) simp_all

lemma splitOn_nonempty [simp]: "splitOn c s \<noteq> []"
  by (induction s) (auto split: list.splits)

lemma splitOn_absent: "c \<notin> set s \<Longrightarrow> splitOn c s = [s]"
  by (induction s) auto

lemma splitOn_append: "c \<notin> set s \<Longrightarrow> splitOn c (s @ c # t) = s # splitOn c t"
  by (induction s) auto

lemma splitOn_join: "joinWith [c] (splitOn c s) = s"
proof (induction s)
  case (Cons x s)
  then show ?case
    by (cases "splitOn c s"; cases "tl (splitOn c s)") (auto split: list.splits)
qed simp

lemma splitOn_parts: "p \<in> set (splitOn c s) \<Longrightarrow> c \<notin> set p"
proof (induction s arbitrary: p)
  case (Cons x s)
  then show ?case
    by (cases "splitOn c s") (auto split: if_splits)
qed simp

lemma splitOn_join_parts:
  assumes "ps \<noteq> []" and "\<forall>p \<in> set ps. c \<notin> set p"
  shows "splitOn c (joinWith [c] ps) = ps"
  using assms
proof (induction ps rule: induct_list012)
  case (3 x y zs)
  then show ?case by (simp add: splitOn_append)
qed (simp_all add: splitOn_absent)

fun indexByte :: "string \<Rightarrow> char \<Rightarrow> nat option" where
  "indexByte [] c = None"
| "indexByte (x # xs) c = (if x = c then Some 0 else map_option Suc (indexByte xs c))"

definition lastIndexByte :: "string \<Rightarrow> char \<Rightarrow> nat option" where
  "lastIndexByte s c = (case indexByte (rev s) c of None \<Rightarrow> None | Some i \<Rightarrow> Some (length s - Suc i))"

lemma indexByte_None [simp]: "indexByte s c = None \<longleftrightarrow> c \<notin> set s"
  by (induction s) auto

lemma indexByte_append: "c \<notin> set s \<Longrightarrow> indexByte (s @ c # t) c = Some (length s)"
  by (induction s) auto

lemma indexByte_Some:
  "indexByte s c = Some i \<Longrightarrow> i < length s \<and> s ! i = c \<and> c \<notin> set (take i s)"
proof (induction s arbitrary: i)
  case (Cons x s)
  then show ?case by (auto split: if_splits)
qed simp

lemma lastIndexByte_None [simp]: "lastIndexByte s c = None \<longleftrightarrow> c \<notin> set s"
proof -
  have "lastIndexByte s c = None \<longleftrightarrow> indexByte (rev s) c = None"
    by (simp add: lastIndexByte_def split: option.split del: indexByte_None)
  then show ?thesis by simp
qed

lemma lastIndexByte_append:
  assumes "c \<notin> set t"
  shows "lastIndexByte (s @ c # t) c = Some (length s)"
proof -
  have "indexByte (rev t @ c # rev s) c = Some (length t)"
    using assms indexByte_append [of c "rev t" "rev s"] by simp
  then show ?thesis by (simp add: lastIndexByte_def)
qed

lemma lastIndexByte_SomeE:
  assumes "lastIndexByte s c = Some i"
  obtains d t where "s = d @ c # t" "i = length d" "c \<notin> set t"
proof -
  from assms have "c \<in> set s" using lastIndexByte_None [of s c] by (metis option.distinct(1))
  then obtain d t where s: "s = d @ c # t" "c \<notin> set t" by (meson split_list_last)
  with assms have "i = length d" by (simp add: lastIndexByte_append)
  with s show thesis using that by blast
qed

text \<open>ASCII case folding: \<open>strings.ToLower\<close> and \<open>strings.EqualFold\<close> on ASCII text.\<close>

definition lowerByte :: "char \<Rightarrow> char" where
  "lowerByte c = (if 65 \<le> (of_char c :: nat) \<and> (of_char c :: nat) \<le> 90 then char_of ((of_char c :: nat) + 32) else c)"

definition toLower :: "string \<Rightarrow> string" where
  "toLower s = map lowerByte s"

definition equalFold :: "string \<Rightarrow> string \<Rightarrow> bool" where
  "equalFold s t \<longleftrightarrow> toLower s = toLower t"

section \<open>Package strconv\<close>

definition digit_val :: "char \<Rightarrow> nat option" where
  "digit_val c = (let n = (of_char c :: nat) in if 48 \<le> n \<and> n \<le> 57 then Some (n - 48) else None)"

definition digit_char :: "nat \<Rightarrow> char" where
  "digit_char d = char_of (d + 48)"

lemma digit_val_char [simp]: "d < 10 \<Longrightarrow> digit_val (digit_char d) = Some d"
  by (simp add: digit_val_def digit_char_def)

lemma digit_val_less: "digit_val c = Some d \<Longrightarrow> d < 10"
  by (auto simp: digit_val_def Let_def split: if_splits)

fun nat_dec :: "nat \<Rightarrow> string" where
  "nat_dec n = (if n < 10 then [digit_char n] else nat_dec (n div 10) @ [digit_char (n mod 10)])"

declare nat_dec.simps [simp del]

definition itoa :: "int \<Rightarrow> string" where
  "itoa i = (if i < 0 then CHR ''-'' # nat_dec (nat (- i)) else nat_dec (nat i))"

text \<open>The value of a digit string in a base, \<open>None\<close> on a byte that is no digit of it.\<close>

fun digits_val :: "nat \<Rightarrow> nat \<Rightarrow> string \<Rightarrow> nat option" where
  "digits_val b acc [] = Some acc"
| "digits_val b acc (c # cs) =
     (case digit_val c of None \<Rightarrow> None
      | Some d \<Rightarrow> if d < b then digits_val b (acc * b + d) cs else None)"

text \<open>\<open>strconv.ParseUint(s, base, bits)\<close> for a base up to 10: \<open>None\<close> is its error.\<close>

definition parseUint :: "string \<Rightarrow> nat \<Rightarrow> nat \<Rightarrow> nat option" where
  "parseUint s b bits =
     (if s = [] then None
      else (case digits_val b 0 s of None \<Rightarrow> None
            | Some n \<Rightarrow> if n < 2 ^ bits then Some n else None))"

lemma digits_val_append:
  "digits_val b acc (s @ t) = (case digits_val b acc s of None \<Rightarrow> None | Some m \<Rightarrow> digits_val b m t)"
  by (induction s arbitrary: acc) (auto split: option.splits)

lemma nat_dec_nonempty [simp]: "nat_dec n \<noteq> []"
  by (subst nat_dec.simps) simp

lemma digits_val_nat_dec: "digits_val 10 0 (nat_dec n) = Some n"
proof (induction n rule: nat_dec.induct)
  case (1 n)
  then show ?case
    by (subst nat_dec.simps) (auto simp: digits_val_append)
qed

lemma parseUint_nat_dec: "n < 2 ^ bits \<Longrightarrow> parseUint (nat_dec n) 10 bits = Some n"
  by (simp add: parseUint_def digits_val_nat_dec)

lemma parseUint_bound: "parseUint s b bits = Some n \<Longrightarrow> n < 2 ^ bits"
  by (auto simp: parseUint_def split: if_splits option.splits)

definition is_digit :: "char \<Rightarrow> bool" where
  "is_digit c \<longleftrightarrow> digit_val c \<noteq> None"

lemma is_digit_char [simp]: "d < 10 \<Longrightarrow> is_digit (digit_char d)"
  by (simp add: is_digit_def)

lemma nat_dec_digits: "c \<in> set (nat_dec n) \<Longrightarrow> is_digit c"
proof (induction n arbitrary: c rule: nat_dec.induct)
  case (1 n)
  then show ?case
    by (subst (asm) (2) nat_dec.simps) (auto split: if_splits)
qed

lemma nat_dec_no_sep:
  "CHR '':'' \<notin> set (nat_dec n)" "CHR ''['' \<notin> set (nat_dec n)" "CHR '']'' \<notin> set (nat_dec n)"
  "CHR ''/'' \<notin> set (nat_dec n)" "CHR ''-'' \<notin> set (nat_dec n)" "CHR ''.'' \<notin> set (nat_dec n)"
  using nat_dec_digits [of _ n] by (force simp: is_digit_def digit_val_def)+

section \<open>net.SplitHostPort and net.JoinHostPort\<close>

definition joinHostPort :: "string \<Rightarrow> string \<Rightarrow> string" where
  "joinHostPort h p = (if CHR '':'' \<in> set h then ''['' @ h @ '']:'' @ p else h @ '':'' @ p)"

text \<open>The address errors of \<open>net.SplitHostPort\<close> are told apart by their text.\<close>

definition addrErr :: "string \<Rightarrow> string \<Rightarrow> 'a res" where
  "addrErr why a = Inl (Errorf ''address: why'' [a, why])"

definition splitHostPort :: "string \<Rightarrow> (string \<times> string) res" where
  "splitHostPort s =
     (case lastIndexByte s CHR '':'' of
        None \<Rightarrow> addrErr ''missing port in address'' s
      | Some i \<Rightarrow>
        (let finish = (\<lambda>h j k.
               if CHR ''['' \<in> set (drop j s) then addrErr ''unexpected '[' in address'' s
               else if CHR '']'' \<in> set (drop k s) then addrErr ''unexpected ']' in address'' s
               else Inr (h, drop (Suc i) s))
         in if s ! 0 = CHR ''['' then
              (case indexByte s CHR '']'' of
                 None \<Rightarrow> addrErr ''missing ']' in address'' s
               | Some e \<Rightarrow>
                   if Suc e = length s then addrErr ''missing port in address'' s
                   else if Suc e = i then finish (take (e - 1) (drop 1 s)) 1 (Suc e)
                   else if s ! Suc e = CHR '':'' then addrErr ''too many colons in address'' s
                   else addrErr ''missing port in address'' s)
            else if CHR '':'' \<in> set (take i s) then addrErr ''too many colons in address'' s
            else finish (take i s) 0 0))"

definition plain :: "string \<Rightarrow> bool" where
  "plain s \<longleftrightarrow> CHR ''['' \<notin> set s \<and> CHR '']'' \<notin> set s"

lemma split_join_bare:
  assumes "plain h" and "CHR '':'' \<notin> set h" and "plain p" and "CHR '':'' \<notin> set p"
  shows "splitHostPort (h @ CHR '':'' # p) = Inr (h, p)"
proof -
  have l: "lastIndexByte (h @ CHR '':'' # p) CHR '':'' = Some (length h)"
    using assms by (simp add: lastIndexByte_append)
  have "(h @ CHR '':'' # p) ! 0 \<noteq> CHR ''[''"
    using assms by (cases h) (auto simp: plain_def)
  then show ?thesis
    using assms by (simp add: splitHostPort_def l plain_def Let_def)
qed

lemma split_join_bracket:
  assumes "plain h" and "plain p" and "CHR '':'' \<notin> set p"
  shows "splitHostPort (CHR ''['' # h @ CHR '']'' # CHR '':'' # p) = Inr (h, p)" (is "splitHostPort ?s = _")
proof -
  have l: "lastIndexByte ?s CHR '':'' = Some (length h + 2)"
    using lastIndexByte_append [of "CHR '':''" p "CHR ''['' # h @ [CHR '']'']"] assms by simp
  have e: "indexByte (h @ CHR '']'' # CHR '':'' # p) CHR '']'' = Some (length h)"
    using indexByte_append [of "CHR '']''" h] assms by (simp add: plain_def)
  show ?thesis
    using assms by (simp add: splitHostPort_def l e plain_def Let_def)
qed

lemma split_join:
  assumes "plain h" and "plain p" and "CHR '':'' \<notin> set p"
  shows "splitHostPort (joinHostPort h p) = Inr (h, p)"
  using assms split_join_bare [of h p] split_join_bracket [of h p]
  by (auto simp: joinHostPort_def)

lemma nat_dec_plain [simp]: "plain (nat_dec n)" "CHR '':'' \<notin> set (nat_dec n)"
  using nat_dec_no_sep by (auto simp: plain_def)

end
