(* ===== verification/SshSpec.thy ===== *)
theory SshSpec
  imports GoStrings "HOL-Library.Word"
begin

text \<open>
  \<open>internal/sshx/spec.go\<close> and the spec types of \<open>auth.go\<close> and \<open>forward.go\<close>.
  A slice field whose backing array the program writes through another name is generic in its
  type: in a \<open>spec_val\<close> it is the list of its elements, in a \<open>spec_ref\<close> the array the
  slice points to (\<open>SshSession\<close> holds the arrays).
\<close>

type_synonym duration = int  \<comment> \<open>\<open>sshx.Duration\<close>: nanoseconds\<close>

record AuthSpec =
  KeyPath :: string
  KeyPassphrase :: string
  UseAgent :: bool
  AgentSocket :: string
  Password :: string

record JumpHost =
  jh_User :: string
  jh_Addresses :: "string list"
  jh_Auth :: AuthSpec
  jh_KnownHostsPath :: string
  jh_Insecure :: bool
  jh_Timeout :: duration

record ('a, 'j) ConnectSpec =
  User :: string
  Addresses :: 'a
  JumpHosts :: 'j
  Auth :: AuthSpec
  KnownHostsPath :: string
  Insecure :: bool
  Timeout :: duration
  Keepalive :: duration
  AutoReconnect :: bool
  Persistent :: bool
  ForwardAgent :: bool
  DisableSSHConfig :: bool

type_synonym spec_val = "(string list, JumpHost list) ConnectSpec"

record LocalSpec =
  ls_BindAddr :: string
  ls_BindPort :: int
  ls_RemoteHost :: string
  ls_RemotePort :: int

record RemoteSpec =
  rs_BindAddr :: string
  rs_BindPort :: int
  rs_LocalHost :: string
  rs_LocalPort :: int

record DynamicSpec =
  ds_BindAddr :: string
  ds_BindPort :: int

definition emptyAuth :: AuthSpec where
  "emptyAuth = \<lparr>KeyPath = [], KeyPassphrase = [], UseAgent = False, AgentSocket = [], Password = []\<rparr>"

section \<open>Durations in JSON\<close>

text \<open>
  \<open>Duration.UnmarshalJSON\<close>.  The integer form is accumulated in an \<open>int64\<close>: a 64-bit
  word, compared as signed.  \<open>time.ParseDuration\<close> computes fractions in floating point and
  is a parameter.
\<close>

fun unmarshalDigits :: "string \<Rightarrow> 64 word \<Rightarrow> string \<Rightarrow> 64 word res" where
  "unmarshalDigits b ns [] = Inr ns"
| "unmarshalDigits b ns (c # cs) =
     (case digit_val c of
        None \<Rightarrow> Inl (Errorf ''duration %q is not a string or non-negative integer (nanoseconds)'' [b])
      | Some d \<Rightarrow>
         (let next = ns * 10 + of_nat d in
          if next <s ns then Inl (Errorf ''duration %q overflows int64 nanoseconds'' [b])
          else unmarshalDigits b next cs))"

definition unmarshalDuration :: "(string \<Rightarrow> duration res) \<Rightarrow> string \<Rightarrow> duration res" where
  "unmarshalDuration parseDuration b =
     (if 2 \<le> length b \<and> b ! 0 = CHR 0x22 then
        (let s = take (length b - 2) (drop 1 b) in
         case parseDuration s of
           Inl e \<Rightarrow> Inl e
         | Inr v \<Rightarrow> if v < 0 then Inl (Errorf ''duration %q is negative'' [s]) else Inr v)
      else if length b = 0 then Inl (Errorf ''empty duration'' [])
      else if 19 < length b then Inl (Errorf ''duration %q overflows int64 nanoseconds'' [b])
      else (case unmarshalDigits b 0 b of Inl e \<Rightarrow> Inl e | Inr ns \<Rightarrow> Inr (sint ns)))"

definition marshalDuration :: "(duration \<Rightarrow> string) \<Rightarrow> duration \<Rightarrow> string" where
  "marshalDuration durString d = CHR 0x22 # durString d @ [CHR 0x22]"

text \<open>The digit loop computes the value and stops at the first overflow of \<open>int64\<close>.\<close>

lemma digits_val_mono: "digits_val 10 acc cs = Some n \<Longrightarrow> acc \<le> n"
proof (induction cs arbitrary: acc)
  case (Cons c cs)
  then show ?case by (fastforce split: option.splits if_splits)
qed simp

lemma signed_63_high:
  assumes "2 ^ 63 \<le> (x::int)" and "x < 2 ^ 64"
  shows "signed_take_bit 63 x = x - 2 ^ 64"
proof -
  have "(x + 2 ^ 63) mod 2 ^ 64 = (x + 2 ^ 63 - 2 ^ 64) mod 2 ^ 64"
    by (rule minus_mod_self2 [symmetric])
  also have "\<dots> = x + 2 ^ 63 - 2 ^ 64"
    using assms by (intro mod_pos_pos_trivial) auto
  finally show ?thesis
    by (simp add: signed_take_bit_eq_take_bit_shift take_bit_eq_mod)
qed

lemma sint_of_nat_64:
  assumes "n < 2 ^ 64"
  shows "sint (of_nat n :: 64 word) = (if 2 ^ 63 \<le> n then int n - 2 ^ 64 else int n)"
proof -
  have un: "uint (of_nat n :: 64 word) = int n"
    using assms by (simp only: uint_nat unat_of_nat) simp
  show ?thesis
  proof (cases "2 ^ 63 \<le> n")
    case True
    have "signed_take_bit 63 (int n) = int n - 2 ^ 64"
      using True assms by (intro signed_63_high) auto
    then show ?thesis using True un by (simp add: sint_uint)
  next
    case False
    then show ?thesis using un by (simp add: sint_uint signed_take_bit_int_eq_self)
  qed
qed

lemma word_step:
  assumes "acc < 2 ^ 63" and "acc * 10 + d < 2 ^ 64"
  shows "(of_nat acc * 10 + of_nat d <s (of_nat acc :: 64 word)) \<longleftrightarrow> 2 ^ 63 \<le> acc * 10 + d"
proof -
  have e: "(of_nat acc * 10 + of_nat d :: 64 word) = of_nat (acc * 10 + d)" by simp
  show ?thesis
    unfolding e word_sless_alt using assms sint_of_nat_64 [of acc] sint_of_nat_64 [OF assms(2)]
    by (auto simp del: of_nat_add of_nat_mult)
qed

lemma unmarshalDigits_exact:
  assumes "digits_val 10 acc cs = Some n" and "acc < 2 ^ 63" and "n < 2 ^ 64"
  shows "unmarshalDigits b (of_nat acc) cs =
    (if n < 2 ^ 63 then Inr (of_nat n) else Inl (Errorf ''duration %q overflows int64 nanoseconds'' [b]))"
  using assms
proof (induction cs arbitrary: acc)
  case Nil
  then show ?case by simp
next
  case (Cons c cs)
  then obtain d where d: "digit_val c = Some d" "d < 10"
    by (auto dest: digit_val_less split: option.splits)
  let ?next = "acc * 10 + d"
  have rest: "digits_val 10 ?next cs = Some n"
    using Cons.prems(1) d by simp
  have le: "?next \<le> n" using rest by (rule digits_val_mono)
  have lt: "?next < 2 ^ 64" using le Cons.prems(3) by simp
  note step = word_step [OF Cons.prems(2) lt]
  show ?case
  proof (cases "2 ^ 63 \<le> ?next")
    case True
    then show ?thesis using le d step by (simp add: Let_def)
  next
    case False
    have "unmarshalDigits b (of_nat acc) (c # cs) = unmarshalDigits b (of_nat ?next) cs"
      using False d step by (simp add: Let_def)
    also have "\<dots> = (if n < 2 ^ 63 then Inr (of_nat n)
        else Inl (Errorf ''duration %q overflows int64 nanoseconds'' [b]))"
      using False by (intro Cons.IH [OF rest _ Cons.prems(3)]) simp
    finally show ?thesis .
  qed
qed

lemma digits_val_bound: "digits_val 10 acc cs = Some n \<Longrightarrow> n < (acc + 1) * 10 ^ length cs"
proof (induction cs arbitrary: acc)
  case (Cons c cs)
  then obtain d where d: "digit_val c = Some d" "d < 10"
    by (auto dest: digit_val_less split: option.splits)
  with Cons have "n < (acc * 10 + d + 1) * 10 ^ length cs" by simp
  also have "\<dots> \<le> (acc * 10 + 10) * 10 ^ length cs"
    using d by (intro mult_right_mono) auto
  finally show ?case by (simp add: algebra_simps)
qed simp

text \<open>
  A JSON number is accepted as a duration exactly when it fits \<open>int64\<close>, and then it is
  read without wrap-around: for every string of 1 to 19 decimal digits, the value is returned
  when it is below \<open>2^63\<close> and the overflow is reported otherwise.
\<close>

theorem unmarshal_number_exact:
  assumes "b \<noteq> []" and "length b \<le> 19" and "digits_val 10 0 b = Some n"
  shows "unmarshalDuration pd b =
    (if n < 2 ^ 63 then Inr (int n) else Inl (Errorf ''duration %q overflows int64 nanoseconds'' [b]))"
proof -
  have "n < 10 ^ length b" using digits_val_bound [OF assms(3)] by simp
  also have "\<dots> \<le> (10::nat) ^ 19" using assms(2) by (intro power_increasing) auto
  finally have n: "n < 2 ^ 64" by simp
  have "b ! 0 \<noteq> CHR 0x22"
    using assms(1,3) by (cases b) (auto simp: digit_val_def Let_def split: option.splits if_splits)
  then show ?thesis
    using assms unmarshalDigits_exact [of 0 b n b] n sint_of_nat_64 [OF n]
    by (auto simp: unmarshalDuration_def)
qed

theorem unmarshal_number_exact_witness:
  "unmarshalDuration (\<lambda>_. Inr 0) ''9223372036854775807'' = Inr 9223372036854775807 \<and>
   unmarshalDuration (\<lambda>_. Inr 0) ''9223372036854775808'' =
     Inl (Errorf ''duration %q overflows int64 nanoseconds'' [''9223372036854775808''])"
proof -
  have a: "digits_val 10 0 ''9223372036854775807'' = Some 9223372036854775807"
    by (simp add: digit_val_def)
  have b: "digits_val 10 0 ''9223372036854775808'' = Some 9223372036854775808"
    by (simp add: digit_val_def)
  show ?thesis
    using unmarshal_number_exact [OF _ _ a, of "\<lambda>_. Inr 0"]
      unmarshal_number_exact [OF _ _ b, of "\<lambda>_. Inr 0"]
    by simp
qed

end
