(* ===== verification/GoIO.thy ===== *)
theory GoIO
  imports GoPrelude
begin

text \<open>
  The outside world as the program sees it.  What a call to code outside the repository does
  is a function of the world's hidden state \<open>'w\<close>, a parameter; what the program holds open
  of it (connections, listeners, agent sockets, channels) is a set of handles, which is how the
  model says that something is closed or leaked.
\<close>

type_synonym handle = nat

text \<open>What Go holds by pointer is held by number here.\<close>

type_synonym ptr = nat

record 'w io =
  orc :: 'w              \<comment> \<open>the outside world's own state\<close>
  next_h :: handle       \<comment> \<open>the handle the next thing opened gets\<close>
  live :: "handle set"   \<comment> \<open>what has been opened and not closed\<close>

type_synonym 'w query = "'w \<Rightarrow> goerr option \<times> 'w"

definition io_ok :: "'w io \<Rightarrow> bool" where
  "io_ok w \<longleftrightarrow> (\<forall>h \<in> live w. h < next_h w)"

text \<open>A call that opens something: on success the new handle is live.\<close>

definition io_open :: "'w query \<Rightarrow> 'w io \<Rightarrow> handle res \<times> 'w io" where
  "io_open f w =
     (case f (orc w) of
        (Some e, v) \<Rightarrow> (Inl e, w\<lparr>orc := v\<rparr>)
      | (None, v) \<Rightarrow> (Inr (next_h w),
          w\<lparr>orc := v, next_h := Suc (next_h w), live := insert (next_h w) (live w)\<rparr>))"

text \<open>A call that opens nothing.\<close>

definition io_call :: "('w \<Rightarrow> 'a \<times> 'w) \<Rightarrow> 'w io \<Rightarrow> 'a \<times> 'w io" where
  "io_call f w = (case f (orc w) of (a, v) \<Rightarrow> (a, w\<lparr>orc := v\<rparr>))"

definition io_close :: "(handle \<Rightarrow> 'w query) \<Rightarrow> handle \<Rightarrow> 'w io \<Rightarrow> goerr option \<times> 'w io" where
  "io_close cl h w = (case cl h (orc w) of (e, v) \<Rightarrow> (e, w\<lparr>orc := v, live := live w - {h}\<rparr>))"

fun io_close_all :: "(handle \<Rightarrow> 'w query) \<Rightarrow> handle list \<Rightarrow> 'w io \<Rightarrow> 'w io" where
  "io_close_all cl [] w = w"
| "io_close_all cl (h # hs) w = io_close_all cl hs (snd (io_close cl h w))"

section \<open>What a run of calls has acquired\<close>

text \<open>
  \<open>acquired w hs w'\<close>: going from \<open>w\<close> to \<open>w'\<close> the program opened and kept exactly the
  new handles \<open>hs\<close>; whatever else was opened on the way is closed again and nothing that
  was live before was touched.
\<close>

definition acquired :: "'w io \<Rightarrow> handle list \<Rightarrow> 'w io \<Rightarrow> bool" where
  "acquired w hs w' \<longleftrightarrow>
     next_h w \<le> next_h w' \<and> live w' = live w \<union> set hs \<and> distinct hs \<and>
     (\<forall>h \<in> set hs. next_h w \<le> h \<and> h < next_h w')"

lemma acquired_refl [simp, intro]: "acquired w [] w"
  by (simp add: acquired_def)

lemma acquired_ok: "io_ok w \<Longrightarrow> acquired w hs w' \<Longrightarrow> io_ok w'"
  by (auto simp: io_ok_def acquired_def)

lemma acquired_trans:
  assumes "acquired w hs w'" and "acquired w' ks w''"
  shows "acquired w (hs @ ks) w''"
  using assms by (fastforce simp: acquired_def)

lemma acquired_trans0: "acquired w hs w' \<Longrightarrow> acquired w' [] w'' \<Longrightarrow> acquired w hs w''"
  using acquired_trans [of w hs w' "[]" w''] by simp

lemma acquired_0trans: "acquired w [] w' \<Longrightarrow> acquired w' hs w'' \<Longrightarrow> acquired w hs w''"
  using acquired_trans [of w "[]" w' hs w''] by simp

lemma acquired_perm: "acquired w hs w' \<Longrightarrow> set ks = set hs \<Longrightarrow> distinct ks \<Longrightarrow> acquired w ks w'"
  by (simp add: acquired_def)

lemma acquired_snoc: "acquired w hs w' \<Longrightarrow> acquired w' [h] w'' \<Longrightarrow> acquired w (hs @ [h]) w''"
  by (rule acquired_trans)

lemma acquired_closed:
  assumes "io_ok w" and "acquired w [] w'"
  shows "live w' = live w"
  using assms by (simp add: acquired_def)

lemma io_open_cases:
  obtains (failed) e v where "io_open f w = (Inl e, w\<lparr>orc := v\<rparr>)"
  | (opened) h w' where "io_open f w = (Inr h, w')" and "acquired w [h] w'" and "h = next_h w"
proof (cases "f (orc w)")
  case (Pair r v)
  show ?thesis
  proof (cases r)
    case None
    show ?thesis
      by (rule opened [of "next_h w"]) (use Pair None in \<open>auto simp: io_open_def acquired_def\<close>)
  next
    case (Some e)
    show ?thesis
      by (rule failed [of e v]) (use Pair Some in \<open>simp add: io_open_def\<close>)
  qed
qed

lemma acquired_orc [simp, intro]: "acquired w [] (w\<lparr>orc := v\<rparr>)"
  by (simp add: acquired_def)

lemma io_open_ok: "io_open f w = (Inr h, w') \<Longrightarrow> acquired w [h] w'"
  by (cases f w rule: io_open_cases) auto

lemma io_open_err: "io_open f w = (Inl e, w') \<Longrightarrow> acquired w [] w'"
  by (cases f w rule: io_open_cases) auto

lemma io_call_acq: "io_call f w = (a, w') \<Longrightarrow> acquired w [] w'"
  by (auto simp: io_call_def split: prod.splits)

lemma acquired_close:
  assumes "io_ok w" and "acquired w hs w'" and "h \<in> set hs"
  shows "acquired w (removeAll h hs) (snd (io_close cl h w'))"
  using assms
  by (fastforce simp: acquired_def io_close_def io_ok_def distinct_removeAll split: prod.splits)

lemma acquired_close_all:
  assumes "io_ok w" and "acquired w (hs @ ks) w'"
  shows "acquired w ks (io_close_all cl hs w')"
  using assms(2)
proof (induction hs arbitrary: w')
  case (Cons h hs)
  from Cons.prems have "h \<notin> set (hs @ ks)" by (simp add: acquired_def)
  then have "removeAll h (h # hs @ ks) = hs @ ks" by simp
  with acquired_close [OF assms(1) Cons.prems, of h cl]
  have "acquired w (hs @ ks) (snd (io_close cl h w'))" by simp
  then show ?case using Cons.IH by simp
qed simp

lemma acquired_close_one: "io_ok w \<Longrightarrow> acquired w [h] w' \<Longrightarrow> acquired w [] (snd (io_close cl h w'))"
  using acquired_close [of w "[h]" w' h cl] by simp

lemma io_close_live [simp]: "live (snd (io_close cl h w)) = live w - {h}"
  by (simp add: io_close_def split: prod.splits)

lemma io_close_next [simp]: "next_h (snd (io_close cl h w)) = next_h w"
  by (simp add: io_close_def split: prod.splits)

lemma io_close_all_live [simp]: "live (io_close_all cl hs w) = live w - set hs"
  by (induction hs arbitrary: w) auto

lemma io_close_all_next [simp]: "next_h (io_close_all cl hs w) = next_h w"
  by (induction hs arbitrary: w) auto

lemma io_ok_close [intro]: "io_ok w \<Longrightarrow> io_ok (snd (io_close cl h w))"
  by (simp add: io_ok_def)

lemma io_ok_close_all [intro]: "io_ok w \<Longrightarrow> io_ok (io_close_all cl hs w)"
  by (simp add: io_ok_def)

lemma io_call_frame [simp]:
  "live (snd (io_call f w)) = live w" "next_h (snd (io_call f w)) = next_h w"
  by (auto simp: io_call_def split: prod.splits)

lemmas acquired_intros = acquired_trans acquired_trans0 acquired_0trans io_open_ok io_open_err io_call_acq

end
