(* ===== verification/SshAuth.thy ===== *)
theory SshAuth
  imports SshSpec GoIO
begin

text \<open>
  \<open>internal/sshx/auth.go\<close>: building the ssh authentication methods, host-key checking, and
  the record of everything outside the repository that the ssh side calls.
\<close>

section \<open>What the ssh side calls outside the repository\<close>

datatype auth_method =
    AgentSigners handle   \<comment> \<open>\<open>ssh.PublicKeysCallback(agent.NewClient(conn).Signers)\<close>\<close>
  | PublicKeys string     \<comment> \<open>\<open>ssh.PublicKeys(signer)\<close>\<close>
  | PasswordAuth string   \<comment> \<open>\<open>ssh.Password(pw)\<close>\<close>

datatype host_key_cb = InsecureIgnoreHostKey | KnownHosts string

text \<open>How \<open>sess.Run\<close> ends, or that the caller's context was cancelled first.\<close>

datatype run_error = ExitError int | OtherError goerr

datatype run_outcome = RunDone string string "run_error option" | RunCancelled

record ClientConfig =
  cfg_User :: string
  cfg_Auth :: "auth_method list"
  cfg_HostKeyCallback :: host_key_cb
  cfg_Timeout :: duration
  cfg_HostKeyAlgorithms :: "string list"

text \<open>
  The fields are the calls: the operating system (\<open>os\<close>, \<open>net\<close>), \<open>golang.org/x/crypto/ssh\<close>
  and its \<open>agent\<close> and \<open>knownhosts\<close>, and \<open>kevinburke/ssh_config\<close>.  \<open>x_known_host\<close>
  is \<open>ssh.ParseKnownHosts\<close> on the rest of the file: the hosts of the next entry, its key type
  if it has a key, and how many bytes beyond the first it consumed.
\<close>

record 'w ext =
  x_getenv :: "string \<Rightarrow> 'w \<Rightarrow> string"
  x_home :: "'w \<Rightarrow> string res"
  x_readfile :: "string \<Rightarrow> 'w \<Rightarrow> string res"
  x_stat :: "string \<Rightarrow> 'w \<Rightarrow> goerr option"
  x_now :: "'w \<Rightarrow> int"
  x_dial_unix :: "string \<Rightarrow> 'w query"
  x_dial_tcp :: "string \<Rightarrow> 'w query"
  x_close :: "handle \<Rightarrow> 'w query"
  x_parse_key :: "string \<Rightarrow> string res"
  x_parse_key_pass :: "string \<Rightarrow> string \<Rightarrow> string res"
  x_known_host :: "string \<Rightarrow> (string list \<times> string option \<times> nat) option"
  x_knownhosts_new :: "string \<Rightarrow> 'w \<Rightarrow> goerr option"
  x_ssh_config :: "string \<Rightarrow> string \<Rightarrow> 'w \<Rightarrow> string"
  x_ssh_dial :: "string \<Rightarrow> ClientConfig \<Rightarrow> 'w query"
  x_chan_dial :: "handle \<Rightarrow> string \<Rightarrow> 'w query"
  x_handshake :: "handle \<Rightarrow> string \<Rightarrow> ClientConfig \<Rightarrow> 'w query"
  x_forward_agent :: "handle \<Rightarrow> handle \<Rightarrow> 'w query"
  x_listen :: "string \<Rightarrow> 'w query"
  x_remote_listen :: "handle \<Rightarrow> string \<Rightarrow> 'w query"
  x_bound_port :: "handle \<Rightarrow> 'w \<Rightarrow> int option"
  x_new_session :: "handle \<Rightarrow> 'w query"
  x_request_agent :: "handle \<Rightarrow> 'w query"
  x_setenv :: "handle \<Rightarrow> string \<Rightarrow> string \<Rightarrow> 'w query"
  x_run :: "handle \<Rightarrow> string \<Rightarrow> string \<Rightarrow> 'w \<Rightarrow> run_outcome \<times> 'w"
  x_request_pty :: "handle \<Rightarrow> string \<Rightarrow> int \<Rightarrow> int \<Rightarrow> 'w query"
  x_pipes :: "handle \<Rightarrow> 'w query"
  x_start :: "handle \<Rightarrow> string \<Rightarrow> 'w query"
  x_shell :: "handle \<Rightarrow> 'w query"
  x_stdin_close :: "handle \<Rightarrow> 'w query"
  x_stdin_write :: "handle \<Rightarrow> string \<Rightarrow> 'w \<Rightarrow> (int \<times> goerr option) \<times> 'w"
  x_window_change :: "handle \<Rightarrow> int \<Rightarrow> int \<Rightarrow> 'w query"
  x_keepalive :: "handle \<Rightarrow> 'w query"
  x_dial_ctx :: "handle \<Rightarrow> string \<Rightarrow> 'w query"
  x_copy :: "handle \<Rightarrow> handle \<Rightarrow> 'w query"
  x_close_write :: "handle \<Rightarrow> 'w \<Rightarrow> goerr option option \<times> 'w"
  x_write :: "handle \<Rightarrow> string \<Rightarrow> 'w query"

text \<open>
  One concrete outside world, for the worked instances of the theorems: a call counter is its
  state, hosts called \<open>down:22\<close> do not answer, keys parse as themselves, and the ssh config
  sends \<open>inner\<close> through \<open>gate\<close> and, wrongly, \<open>loop\<close> through itself.
\<close>

definition demo_ext :: "nat ext" where
  "demo_ext = \<lparr>
     x_getenv = (\<lambda>k n. if k = ''USER'' then ''me'' else []),
     x_home = (\<lambda>n. Inr ''/home/me''),
     x_readfile = (\<lambda>p n. Inr ''key''),
     x_stat = (\<lambda>p n. None),
     x_now = (\<lambda>n. int n),
     x_dial_unix = (\<lambda>p n. (None, Suc n)),
     x_dial_tcp = (\<lambda>a n. (None, Suc n)),
     x_close = (\<lambda>h n. (None, Suc n)),
     x_parse_key = (\<lambda>d. Inr d),
     x_parse_key_pass = (\<lambda>d p. Inr d),
     x_known_host = (\<lambda>s. None),
     x_knownhosts_new = (\<lambda>p n. None),
     x_ssh_config = (\<lambda>al k n.
        if k = ''ProxyJump'' \<and> al = ''loop'' then ''loop''
        else if k = ''ProxyJump'' \<and> al = ''inner'' then ''gate'' else []),
     x_ssh_dial = (\<lambda>a c n. (if a = ''down:22'' then Some (ExtErr ''refused'') else None, Suc n)),
     x_chan_dial = (\<lambda>h a n. (if a = ''down:22'' then Some (ExtErr ''refused'') else None, Suc n)),
     x_handshake = (\<lambda>h a c n. (None, Suc n)),
     x_forward_agent = (\<lambda>h k n. (None, Suc n)),
     x_listen = (\<lambda>a n. (None, Suc n)),
     x_remote_listen = (\<lambda>h a n. (None, Suc n)),
     x_bound_port = (\<lambda>h n. Some (40000 + int h)),
     x_new_session = (\<lambda>h n. (None, Suc n)),
     x_request_agent = (\<lambda>h n. (None, Suc n)),
     x_setenv = (\<lambda>h k v n. (None, Suc n)),
     x_run = (\<lambda>h c i n. (RunDone c i None, Suc n)),
     x_request_pty = (\<lambda>h t r c n. (None, Suc n)),
     x_pipes = (\<lambda>h n. (None, Suc n)),
     x_start = (\<lambda>h c n. (None, Suc n)),
     x_shell = (\<lambda>h n. (None, Suc n)),
     x_stdin_close = (\<lambda>h n. (None, Suc n)),
     x_stdin_write = (\<lambda>h s n. ((int (length s), None), Suc n)),
     x_window_change = (\<lambda>h r c n. (None, Suc n)),
     x_keepalive = (\<lambda>h n. (None, Suc n)),
     x_dial_ctx = (\<lambda>h a n. (if a = ''down:22'' then Some (ExtErr ''refused'') else None, Suc n)),
     x_copy = (\<lambda>a b n. (None, Suc n)),
     x_close_write = (\<lambda>h n. (Some None, Suc n)),
     x_write = (\<lambda>h s n. (None, Suc n))\<rparr>"

definition demo_io :: "nat io" where
  "demo_io = \<lparr>orc = 0, next_h = 0, live = {}\<rparr>"

section \<open>AuthSpec.Build\<close>

definition expandTilde :: "'w ext \<Rightarrow> 'w io \<Rightarrow> string \<Rightarrow> string" where
  "expandTilde x w s =
     (if hasPrefix s ''~/'' then
        (case x_home x (orc w) of Inr home \<Rightarrow> home @ drop 1 s | Inl _ \<Rightarrow> s)
      else s)"

definition buildAgent :: "'w ext \<Rightarrow> AuthSpec \<Rightarrow> 'w io \<Rightarrow> (auth_method list \<times> handle list) res \<times> 'w io" where
  "buildAgent x a w =
     (if UseAgent a then
        (let sock0 = AgentSocket a;
             sock1 = (if sock0 = [] then x_getenv x ''SSH_AUTH_SOCK'' (orc w) else sock0)
         in if sock1 = [] then
              (Inl (Errorf ''ssh-agent requested but neither agent_socket nor SSH_AUTH_SOCK is set'' []), w)
            else
              (case io_open (x_dial_unix x (expandTilde x w sock1)) w of
                 (Inl e, w) \<Rightarrow> (Inl (Wrapf ''dial ssh-agent: %w'' [] e), w)
               | (Inr conn, w) \<Rightarrow> (Inr ([AgentSigners conn], [conn]), w)))
      else (Inr ([], []), w))"

definition buildKey :: "'w ext \<Rightarrow> AuthSpec \<Rightarrow> 'w io \<Rightarrow> auth_method list res" where
  "buildKey x a w =
     (if KeyPath a \<noteq> [] then
        (case x_readfile x (KeyPath a) (orc w) of
           Inl e \<Rightarrow> Inl (Wrapf ''read private key: %w'' [] e)
         | Inr data \<Rightarrow>
             (case (if KeyPassphrase a \<noteq> [] then x_parse_key_pass x data (KeyPassphrase a)
                    else x_parse_key x data) of
                Inl e \<Rightarrow> Inl (Wrapf ''parse private key: %w'' [] e)
              | Inr signer \<Rightarrow> Inr [PublicKeys signer]))
      else Inr [])"

definition Build :: "'w ext \<Rightarrow> AuthSpec \<Rightarrow> 'w io \<Rightarrow> (auth_method list \<times> handle list) res \<times> 'w io" where
  "Build x a w =
     (case buildAgent x a w of
        (Inl e, w) \<Rightarrow> (Inl e, w)
      | (Inr (methods, closers), w) \<Rightarrow>
          (case buildKey x a w of
             Inl e \<Rightarrow> (Inl e, io_close_all (x_close x) closers w)
           | Inr keys \<Rightarrow>
               (let methods = methods @ keys @ (if Password a \<noteq> [] then [PasswordAuth (Password a)] else [])
                in if methods = [] then
                     (Inl (Errorf ''no authentication method provided (set key_path, use_agent, or password)'' []),
                      io_close_all (x_close x) closers w)
                   else (Inr (methods, closers), w))))"

lemma buildAgent_acq:
  "buildAgent x a w = (Inl e, w') \<Longrightarrow> acquired w [] w'"
  "buildAgent x a w = (Inr (ms, cl), w') \<Longrightarrow> acquired w cl w'"
  by (auto simp: buildAgent_def Let_def split: if_splits prod.splits sum.splits dest: io_open_ok io_open_err)

lemma Build_err_acq:
  assumes "io_ok w" and "Build x a w = (Inl e, w')"
  shows "acquired w [] w'"
  using assms(2)
  by (auto simp: Build_def Let_def split: if_splits prod.splits sum.splits
      dest: buildAgent_acq intro: acquired_close_all [OF assms(1), of _ "[]", simplified])

lemma Build_ok_acq: "Build x a w = (Inr (ms, cl), w') \<Longrightarrow> acquired w cl w'"
  by (auto simp: Build_def Let_def split: if_splits prod.splits sum.splits dest: buildAgent_acq)

lemma Build_ok_methods: "Build x a w = (Inr (ms, cl), w') \<Longrightarrow> ms \<noteq> []"
  by (auto simp: Build_def Let_def split: if_splits prod.splits sum.splits)

lemma Build_none:
  assumes "\<not> UseAgent a" and "KeyPath a = []" and "Password a = []"
  shows "Build x a w = (Inl (Errorf ''no authentication method provided (set key_path, use_agent, or password)'' []), w)"
  using assms by (simp add: Build_def buildAgent_def buildKey_def)

section \<open>Host keys\<close>

definition knownHostsHostMatches :: "string \<Rightarrow> string \<Rightarrow> bool" where
  "knownHostsHostMatches pattern host =
     (if pattern = [] then False
      else if hasPrefix pattern ''|'' then False
      else if hasPrefix pattern ''['' then
        (case indexByte pattern CHR '']'' of
           Some e \<Rightarrow> if 0 < e then take (e - 1) (drop 1 pattern) = host else pattern = host
         | None \<Rightarrow> pattern = host)
      else pattern = host)"

text \<open>
  The loop over the file.  The set \<open>seen\<close> of key types is kept in the order of first sight.
\<close>

function hostKeyLoop :: "'w ext \<Rightarrow> string \<Rightarrow> string \<Rightarrow> string list \<Rightarrow> string list" where
  "hostKeyLoop x host rest seen =
     (if rest = [] then seen
      else (case x_known_host x rest of
              None \<Rightarrow> seen
            | Some (hosts, None, n) \<Rightarrow> hostKeyLoop x host (drop (Suc n) rest) seen
            | Some (hosts, Some t, n) \<Rightarrow>
                hostKeyLoop x host (drop (Suc n) rest)
                  (if (\<exists>h \<in> set hosts. knownHostsHostMatches h host) \<and> t \<notin> set seen
                   then seen @ [t] else seen)))"
  by pat_completeness auto
termination
  by (relation "measure (\<lambda>(x, host, rest, seen). length rest)") auto

declare hostKeyLoop.simps [simp del]

definition knownHostsFile :: "'w ext \<Rightarrow> string \<Rightarrow> 'w io \<Rightarrow> string res" where
  "knownHostsFile x p w =
     (if p \<noteq> [] then Inr p
      else (case x_home x (orc w) of Inl e \<Rightarrow> Inl e | Inr home \<Rightarrow> Inr (home @ ''/.ssh/known_hosts'')))"

definition HostKeyAlgorithmsFor :: "'w ext \<Rightarrow> string \<Rightarrow> string \<Rightarrow> 'w io \<Rightarrow> string list" where
  "HostKeyAlgorithmsFor x knownHostsPath host w =
     (if host = [] then []
      else (case knownHostsFile x knownHostsPath w of
              Inl _ \<Rightarrow> []
            | Inr p \<Rightarrow>
                (case x_readfile x p (orc w) of
                   Inl _ \<Rightarrow> []
                 | Inr data \<Rightarrow> hostKeyLoop x host data [])))"

definition HostKeyCallback :: "'w ext \<Rightarrow> bool \<Rightarrow> string \<Rightarrow> 'w io \<Rightarrow> host_key_cb res" where
  "HostKeyCallback x insecure knownHostsPath w =
     (if insecure then Inr InsecureIgnoreHostKey
      else (case knownHostsFile x knownHostsPath w of
              Inl e \<Rightarrow> Inl (Wrapf ''locate home dir: %w'' [] e)
            | Inr p \<Rightarrow>
                (case x_stat x p (orc w) of
                   Some e \<Rightarrow> Inl (Wrapf ''known_hosts file is not readable: %w (pass insecure=true to skip host key verification)'' [] e)
                 | None \<Rightarrow>
                     (case x_knownhosts_new x p (orc w) of
                        Some e \<Rightarrow> Inl e
                      | None \<Rightarrow> Inr (KnownHosts p)))))"

text \<open>No key type is named twice, and each comes from an entry for the host.\<close>

lemma hostKeyLoop_distinct: "distinct seen \<Longrightarrow> distinct (hostKeyLoop x host rest seen)"
proof (induction x host rest seen rule: hostKeyLoop.induct)
  case (1 x host rest seen)
  show ?case
    using 1 by (subst hostKeyLoop.simps) (auto split: option.splits)
qed

lemma HostKeyAlgorithmsFor_distinct: "distinct (HostKeyAlgorithmsFor x p host w)"
  by (simp add: HostKeyAlgorithmsFor_def hostKeyLoop_distinct split: sum.split)

end
