(* ===== verification/SshConfig.thy ===== *)
theory SshConfig
  imports SshAuth
begin

text \<open>
  \<open>internal/sshx/sshconfig.go\<close>: filling a connect spec from the user's ssh config.  The
  recursion through \<open>ProxyJump\<close> may not end, so it carries fuel: \<open>resolve x w n\<close> resolves
  hops up to depth \<open>n\<close> and is \<open>None\<close> when it needs more.
\<close>

definition nonEmpty :: "string \<Rightarrow> string" where
  "nonEmpty v =
     (let v = trimSpace v in
      if 2 \<le> length v \<and> v ! 0 = CHR 0x22 \<and> v ! (length v - 1) = CHR 0x22
      then take (length v - 2) (drop 1 v) else v)"

definition splitHostPortOr :: "string \<Rightarrow> string \<times> string" where
  "splitHostPortOr s = (case splitHostPort s of Inr hp \<Rightarrow> hp | Inl _ \<Rightarrow> (s, []))"

definition expandHome :: "'w ext \<Rightarrow> 'w io \<Rightarrow> string \<Rightarrow> string" where
  "expandHome x w p = expandTilde x w (trimSpace p)"

definition splitCommaList :: "string \<Rightarrow> string list" where
  "splitCommaList s = filter (\<lambda>p. p \<noteq> []) (map trimSpace (splitOn CHR '','' s))"

definition hopUser :: "string \<Rightarrow> string" where
  "hopUser s = (case indexByte s CHR ''@'' of Some i \<Rightarrow> take i s | None \<Rightarrow> [])"

definition hopAddr :: "string \<Rightarrow> string" where
  "hopAddr s0 =
     (let s = (case indexByte s0 CHR ''@'' of Some i \<Rightarrow> drop (Suc i) s0 | None \<Rightarrow> s0);
          (h, port) = splitHostPortOr s;
          host = (if h = [] then s else h)
      in if port \<noteq> [] then joinHostPort host port else host)"

definition hopSpec :: "string \<Rightarrow> spec_val" where
  "hopSpec s = \<lparr>User = hopUser s, Addresses = [hopAddr s], JumpHosts = [], Auth = emptyAuth,
     KnownHostsPath = [], Insecure = False, Timeout = 0, Keepalive = 0, AutoReconnect = False,
     Persistent = False, ForwardAgent = False, DisableSSHConfig = False\<rparr>"

definition parseJumpHopFromConfig :: "(spec_val \<Rightarrow> spec_val option) \<Rightarrow> string \<Rightarrow> JumpHost option" where
  "parseJumpHopFromConfig res s =
     (case res (hopSpec s) of
        None \<Rightarrow> None
      | Some js \<Rightarrow>
          Some \<lparr>jh_User = User js, jh_Addresses = Addresses js, jh_Auth = Auth js,
                jh_KnownHostsPath = [], jh_Insecure = False, jh_Timeout = 0\<rparr>)"

definition resolveAddr :: "(string \<Rightarrow> string) \<Rightarrow> string \<Rightarrow> string \<Rightarrow> string \<Rightarrow> string" where
  "resolveAddr get alias explicitPort a0 =
     (let hostname = get ''Hostname'' in
      if hostname \<noteq> [] \<and> hostname \<noteq> alias then
        joinHostPort hostname
          (if explicitPort \<noteq> [] then explicitPort
           else if get ''Port'' = [] then ''22'' else get ''Port'')
      else if explicitPort = [] \<and> get ''Port'' \<noteq> [] \<and> get ''Port'' \<noteq> ''22'' then
        joinHostPort alias (get ''Port'')
      else a0)"

definition resolveAuth :: "'w ext \<Rightarrow> 'w io \<Rightarrow> (string \<Rightarrow> string) \<Rightarrow> AuthSpec \<Rightarrow> AuthSpec" where
  "resolveAuth x w get a =
     (if KeyPath a = [] \<and> \<not> UseAgent a \<and> Password a = [] then
        (if get ''IdentityAgent'' \<noteq> [] then
           a\<lparr>UseAgent := True, AgentSocket := expandHome x w (get ''IdentityAgent'')\<rparr>
         else if get ''IdentityFile'' \<noteq> [] then
           a\<lparr>KeyPath := expandHome x w (get ''IdentityFile'')\<rparr>
         else a)
      else a)"

definition configGet :: "'w ext \<Rightarrow> 'w io \<Rightarrow> string \<Rightarrow> string \<Rightarrow> string" where
  "configGet x w alias k = nonEmpty (x_ssh_config x alias k (orc w))"

definition specAlias :: "string \<Rightarrow> string \<times> string" where
  "specAlias a0 = splitHostPortOr (trimSpace a0)"

definition resolveFields :: "'w ext \<Rightarrow> 'w io \<Rightarrow> string \<Rightarrow> string \<Rightarrow> string \<Rightarrow> string list \<Rightarrow> spec_val \<Rightarrow> spec_val" where
  "resolveFields x w alias explicitPort a0 as spec =
     (let get = configGet x w alias in
      spec\<lparr>Addresses := resolveAddr get alias explicitPort a0 # as,
           User := (if User spec = [] \<and> get ''User'' \<noteq> [] then get ''User'' else User spec),
           Auth := resolveAuth x w get (Auth spec)\<rparr>)"

fun resolve :: "'w ext \<Rightarrow> 'w io \<Rightarrow> nat \<Rightarrow> spec_val \<Rightarrow> spec_val option" where
  "resolve x w 0 spec = None"
| "resolve x w (Suc n) spec =
     (if DisableSSHConfig spec then Some spec
      else case Addresses spec of
        [] \<Rightarrow> Some spec
      | a0 # as \<Rightarrow>
          (let (alias, explicitPort) = specAlias a0 in
           if alias = [] then Some spec
           else
             (let spec' = resolveFields x w alias explicitPort a0 as spec;
                  pj = configGet x w alias ''ProxyJump''
              in if JumpHosts spec = [] \<and> pj \<noteq> [] then
                   (case those (map (parseJumpHopFromConfig (resolve x w n)) (splitCommaList pj)) of
                      None \<Rightarrow> None
                    | Some hops \<Rightarrow> Some (spec'\<lparr>JumpHosts := hops\<rparr>))
                 else Some spec')))"

section \<open>What the caller set explicitly is kept\<close>

definition explicitAuth :: "AuthSpec \<Rightarrow> bool" where
  "explicitAuth a \<longleftrightarrow> KeyPath a \<noteq> [] \<or> UseAgent a \<or> Password a \<noteq> []"

lemma resolveAuth_explicit [simp]: "explicitAuth a \<Longrightarrow> resolveAuth x w get a = a"
  by (auto simp: resolveAuth_def explicitAuth_def)

lemma resolveAuth_secrets [simp]:
  "Password (resolveAuth x w get a) = Password a" "KeyPassphrase (resolveAuth x w get a) = KeyPassphrase a"
  by (auto simp: resolveAuth_def)

lemma resolveFields_simps [simp]:
  "User (resolveFields x w al ep a0 as s) =
     (if User s = [] \<and> configGet x w al ''User'' \<noteq> [] then configGet x w al ''User'' else User s)"
  "Addresses (resolveFields x w al ep a0 as s) = resolveAddr (configGet x w al) al ep a0 # as"
  "Auth (resolveFields x w al ep a0 as s) = resolveAuth x w (configGet x w al) (Auth s)"
  "JumpHosts (resolveFields x w al ep a0 as s) = JumpHosts s"
  "KnownHostsPath (resolveFields x w al ep a0 as s) = KnownHostsPath s"
  "Insecure (resolveFields x w al ep a0 as s) = Insecure s"
  "Timeout (resolveFields x w al ep a0 as s) = Timeout s"
  "Keepalive (resolveFields x w al ep a0 as s) = Keepalive s"
  "AutoReconnect (resolveFields x w al ep a0 as s) = AutoReconnect s"
  "Persistent (resolveFields x w al ep a0 as s) = Persistent s"
  "ForwardAgent (resolveFields x w al ep a0 as s) = ForwardAgent s"
  "DisableSSHConfig (resolveFields x w al ep a0 as s) = DisableSSHConfig s"
  by (simp_all add: resolveFields_def Let_def)










text \<open>
  The comment above the function says that what the caller set explicitly is preserved.  A socket of an agent that the caller gives, with the
  method left to the config, is not: where the config has an agent, its socket replaces the caller's.
\<close>

theorem agent_socket_overridden:
  assumes "resolve x w n s = Some t" and "Addresses s = a0 # as" and "specAlias a0 = (al, ep)" and "al \<noteq> []"
    and "\<not> DisableSSHConfig s" and "\<not> explicitAuth (Auth s)" and "configGet x w al ''IdentityAgent'' \<noteq> []"
  shows "AgentSocket (Auth t) = expandHome x w (configGet x w al ''IdentityAgent'')"
proof -
  obtain m where "n = Suc m" using assms(1) by (cases n) auto
  then show ?thesis using assms by (auto simp: Let_def resolveAuth_def explicitAuth_def split: if_splits option.splits)
qed

section \<open>Which ssh configs resolution ends on\<close>

text \<open>The alias whose config is read for a hop of a \<open>ProxyJump\<close> value.\<close>

definition hopAlias :: "string \<Rightarrow> string" where
  "hopAlias hop = fst (specAlias (hopAddr hop))"

definition jumps_of :: "'w ext \<Rightarrow> 'w io \<Rightarrow> string \<Rightarrow> string list" where
  "jumps_of x w alias = splitCommaList (configGet x w alias ''ProxyJump'')"

lemma those_map_Some: "(\<forall>a \<in> set xs. \<exists>b. f a = Some b) \<Longrightarrow> \<exists>bs. those (map f xs) = Some bs"
  by (induction xs) auto

lemma those_map_None: "a \<in> set xs \<Longrightarrow> f a = None \<Longrightarrow> those (map f xs) = None"
  by (induction xs) (auto split: option.splits)

lemma hopSpec_simps [simp]:
  "Addresses (hopSpec s) = [hopAddr s]" "DisableSSHConfig (hopSpec s) = False" "JumpHosts (hopSpec s) = []"
  by (simp_all add: hopSpec_def)

lemma resolve_ranked:
  assumes rank: "\<forall>al. \<forall>hop \<in> set (jumps_of x w al). rank (hopAlias hop) < (rank al :: nat)"
  shows "Addresses s = a0 # as \<Longrightarrow> rank (fst (specAlias a0)) < n \<Longrightarrow> \<exists>t. resolve x w n s = Some t"
proof (induction n arbitrary: s a0 as)
  case (Suc n)
  obtain al ep where al: "specAlias a0 = (al, ep)" by fastforce
  have hops: "\<exists>bs. those (map (parseJumpHopFromConfig (resolve x w n))
      (splitCommaList (configGet x w al ''ProxyJump''))) = Some bs"
  proof (rule those_map_Some, rule ballI)
    fix hop
    assume hop: "hop \<in> set (splitCommaList (configGet x w al ''ProxyJump''))"
    then have "rank (hopAlias hop) < n"
      using rank Suc.prems(2) al by (fastforce simp: jumps_of_def)
    then have "\<exists>t. resolve x w n (hopSpec hop) = Some t"
      by (intro Suc.IH [of _ "hopAddr hop" "[]"]) (simp_all add: hopAlias_def)
    then show "\<exists>j. parseJumpHopFromConfig (resolve x w n) hop = Some j"
      by (auto simp: parseJumpHopFromConfig_def)
  qed
  then show ?case
    using Suc.prems(1) al by (auto simp: Let_def)
qed simp

lemma resolve_cycle:
  assumes loop: "\<exists>hop \<in> set (jumps_of x w al). hopAlias hop = al" and "al \<noteq> []"
    and "configGet x w al ''ProxyJump'' \<noteq> []"
  shows "Addresses s = a0 # as \<Longrightarrow> fst (specAlias a0) = al \<Longrightarrow> JumpHosts s = [] \<Longrightarrow>
    \<not> DisableSSHConfig s \<Longrightarrow> resolve x w n s = None"
proof (induction n arbitrary: s a0 as)
  case (Suc n)
  obtain hop where hop: "hop \<in> set (jumps_of x w al)" "hopAlias hop = al" using loop by blast
  have "resolve x w n (hopSpec hop) = None"
    by (intro Suc.IH [of _ "hopAddr hop" "[]"]) (use hop in \<open>simp_all add: hopAlias_def\<close>)
  then have "those (map (parseJumpHopFromConfig (resolve x w n)) (jumps_of x w al)) = None"
    using hop by (intro those_map_None [of hop]) (auto simp: parseJumpHopFromConfig_def)
  then show ?case
    using Suc.prems assms(2,3) by (auto simp: Let_def jumps_of_def split: prod.splits)
qed simp

text \<open>
  C35. Resolution ends when the \<open>ProxyJump\<close> entries can be ranked: if each hop named for an
  alias ranks below the alias, a spec whose first address ranks \<open>r\<close> is resolved with hop
  depth \<open>r + 1\<close>.
\<close>

theorem resolve_terminates:
  assumes "\<forall>al. \<forall>hop \<in> set (jumps_of x w al). rank (hopAlias hop) < (rank al :: nat)"
    and "Addresses s = a0 # as"
  shows "\<exists>t. resolve x w (Suc (rank (fst (specAlias a0)))) s = Some t"
  by (rule resolve_ranked [OF assms]) simp

text \<open>
  Resolution never ends when an alias is among the hops of its own \<open>ProxyJump\<close> entry, as
  with \<open>Host *\<close> / \<open>ProxyJump bastion\<close>: no depth is enough, and the Go program recurses
  until its stack overflows.
\<close>

theorem resolve_diverges:
  assumes "hop \<in> set (jumps_of x w al)" and "hopAlias hop = al" and "al \<noteq> []"
    and "configGet x w al ''ProxyJump'' \<noteq> []"
    and "Addresses s = a0 # as" and "fst (specAlias a0) = al" and "JumpHosts s = []"
    and "\<not> DisableSSHConfig s"
  shows "resolve x w n s = None"
  using assms by (intro resolve_cycle [of x w al s a0 as n]) auto

section \<open>Worked instances\<close>

definition demo_spec :: "string \<Rightarrow> spec_val" where
  "demo_spec a = (hopSpec a)\<lparr>User := ''root'', Auth := emptyAuth\<lparr>Password := ''pw''\<rparr>\<rparr>"



text \<open>A world whose config names an agent, and a caller who gives a socket.\<close>

definition agent_ext :: "nat ext" where
  "agent_ext = demo_ext\<lparr>x_ssh_config := (\<lambda>al k n. if k = ''IdentityAgent'' then ''/run/cfg'' else [])\<rparr>"

theorem agent_socket_overridden_witness:
  "map_option (\<lambda>t. AgentSocket (Auth t)) (resolve agent_ext demo_io 2 ((hopSpec ''box'')\<lparr>Auth := emptyAuth\<lparr>AgentSocket := ''/run/mine''\<rparr>\<rparr>)) =
     Some ''/run/cfg''"
proof -
  let ?s = "(hopSpec ''box'')\<lparr>Auth := emptyAuth\<lparr>AgentSocket := ''/run/mine''\<rparr>\<rparr>"
  have "map_option (\<lambda>t. ()) (resolve agent_ext demo_io 2 ?s) = Some ()" by code_simp
  then obtain t where t: "resolve agent_ext demo_io 2 ?s = Some t" by auto
  have a: "Addresses ?s = [''box'']" by code_simp
  have al: "specAlias ''box'' = (''box'', [])" by code_simp
  have g: "configGet agent_ext demo_io ''box'' ''IdentityAgent'' = ''/run/cfg''" by code_simp
  have "expandHome agent_ext demo_io ''/run/cfg'' = ''/run/cfg''" by code_simp
  then have "AgentSocket (Auth t) = ''/run/cfg''"
    using agent_socket_overridden [OF t a al] by (simp add: g explicitAuth_def emptyAuth_def)
  then show ?thesis by (simp only: t option.map)
qed

lemma demo_get: "configGet demo_ext demo_io al k =
    (if k = ''ProxyJump'' \<and> al = ''loop'' then ''loop'' else if k = ''ProxyJump'' \<and> al = ''inner'' then ''gate'' else [])"
proof -
  have "nonEmpty ''loop'' = ''loop''" "nonEmpty ''gate'' = ''gate''" "nonEmpty [] = []"
    by code_simp+
  then show ?thesis by (simp add: configGet_def demo_ext_def)
qed

theorem resolve_diverges_witness:
  "resolve demo_ext demo_io 1000 (demo_spec ''loop'') = None"
proof (rule resolve_diverges)
  show "''loop'' \<in> set (jumps_of demo_ext demo_io ''loop'')" by code_simp
  show "hopAlias ''loop'' = ''loop''" by code_simp
  show "configGet demo_ext demo_io ''loop'' ''ProxyJump'' \<noteq> []" by (simp add: demo_get)
  show "Addresses (demo_spec ''loop'') = [''loop'']" by code_simp
  show "fst (specAlias ''loop'') = ''loop''" by code_simp
qed (simp_all add: demo_spec_def)

text \<open>A world whose config has the hop of \<open>inner\<close> only, so that the ranking exists.\<close>

definition tame_ext :: "nat ext" where
  "tame_ext = demo_ext\<lparr>x_ssh_config := (\<lambda>al k n. if k = ''ProxyJump'' \<and> al = ''inner'' then ''gate'' else [])\<rparr>"

theorem resolve_terminates_witness:
  "\<exists>t. resolve tame_ext demo_io 2 (demo_spec ''inner'') = Some t"
proof -
  let ?rank = "\<lambda>al. if al = ''inner'' then Suc 0 else 0"
  have ne: "nonEmpty ''gate'' = ''gate''" "nonEmpty [] = []" by code_simp+
  have hop: "splitCommaList ''gate'' = [''gate'']" "hopAlias ''gate'' = ''gate''" "splitCommaList [] = []" by code_simp+
  have "\<forall>al. \<forall>hop \<in> set (jumps_of tame_ext demo_io al). ?rank (hopAlias hop) < ?rank al"
    by (simp add: jumps_of_def configGet_def tame_ext_def ne hop)
  moreover have "Addresses (demo_spec ''inner'') = [''inner'']" by code_simp
  moreover have "fst (specAlias ''inner'') = ''inner''" by code_simp
  ultimately show ?thesis
    using resolve_terminates [of tame_ext demo_io ?rank "demo_spec ''inner''" "''inner''" "[]"]
    by (simp add: numeral_2_eq_2)
qed

end
