(* ===== verification/SshConnect.thy ===== *)
theory SshConnect
  imports SshConfig
begin

text \<open>
  \<open>internal/sshx/connect.go\<close>: addresses, jump chains and dialing.  A client is the handle of
  the connection under it.  The lemmas say which handles each dialing function leaves open.
\<close>

definition defaultPort :: int where
  "defaultPort = 22"

definition normalizeAddr :: "string \<Rightarrow> string" where
  "normalizeAddr a =
     (case splitHostPort a of Inr _ \<Rightarrow> a | Inl _ \<Rightarrow> joinHostPort a (itoa defaultPort))"

definition normalizeAddrs :: "string list \<Rightarrow> string list res" where
  "normalizeAddrs addrs =
     (if addrs = [] then Inl (Errorf ''at least one address is required'' [])
      else (let out = map normalizeAddr (filter (\<lambda>a. a \<noteq> []) (map trimSpace addrs))
            in if out = [] then Inl (Errorf ''addresses cannot be empty'' []) else Inr out))"

definition dialThrough ::
    "'w ext \<Rightarrow> handle list \<Rightarrow> string \<Rightarrow> ClientConfig \<Rightarrow> 'w io \<Rightarrow> handle res \<times> 'w io" where
  "dialThrough x chain addr cfg w =
     (if chain = [] then io_open (x_ssh_dial x addr cfg) w
      else
        (case io_open (x_chan_dial x (last chain) addr) w of
           (Inl e, w) \<Rightarrow> (Inl e, w)
         | (Inr conn, w) \<Rightarrow>
             (case io_call (x_handshake x conn addr cfg) w of
                (Some e, w) \<Rightarrow> (Inl e, snd (io_close (x_close x) conn w))
              | (None, w) \<Rightarrow> (Inr conn, w))))"

text \<open>The address loop of \<open>dialFinal\<close> and \<open>dialOneJump\<close>; \<open>last\<close> is \<open>lastErr\<close>.\<close>

fun dialLoop ::
    "'w ext \<Rightarrow> handle list \<Rightarrow> ('w io \<Rightarrow> string \<Rightarrow> ClientConfig) \<Rightarrow> string list \<Rightarrow> goerr option \<Rightarrow> 'w io \<Rightarrow>
     (goerr option + (handle \<times> string)) \<times> 'w io" where
  "dialLoop x chain mk [] le w = (Inl le, w)"
| "dialLoop x chain mk (addr # addrs) le w =
     (case dialThrough x chain addr (mk w addr) w of
        (Inr c, w) \<Rightarrow> (Inr (c, addr), w)
      | (Inl e, w) \<Rightarrow> dialLoop x chain mk addrs (Some e) w)"

definition lastErrOf :: "goerr option \<Rightarrow> goerr" where
  "lastErrOf e = (case e of Some e \<Rightarrow> e | None \<Rightarrow> ExtErr ''<nil>'')"

definition dialTimeout :: "duration \<Rightarrow> duration" where
  "dialTimeout t = (if t = 0 then 15 * 1000000000 else t)"

definition dialOneJump :: "'w ext \<Rightarrow> JumpHost \<Rightarrow> handle list \<Rightarrow> 'w io \<Rightarrow> handle res \<times> 'w io" where
  "dialOneJump x j chain w =
     (case normalizeAddrs (jh_Addresses j) of
        Inl e \<Rightarrow> (Inl e, w)
      | Inr addrs \<Rightarrow>
          (case Build x (jh_Auth j) w of
             (Inl e, w) \<Rightarrow> (Inl e, w)
           | (Inr (methods, closers), w) \<Rightarrow>
               (case HostKeyCallback x (jh_Insecure j) (jh_KnownHostsPath j) w of
                  Inl e \<Rightarrow> (Inl e, io_close_all (x_close x) closers w)
                | Inr hostKey \<Rightarrow>
                    (let cfg = \<lparr>cfg_User = jh_User j, cfg_Auth = methods, cfg_HostKeyCallback = hostKey,
                                cfg_Timeout = dialTimeout (jh_Timeout j), cfg_HostKeyAlgorithms = []\<rparr>
                     in case dialLoop x chain (\<lambda>_ _. cfg) addrs None w of
                          (Inr (c, addr), w) \<Rightarrow> (Inr c, io_close_all (x_close x) closers w)
                        | (Inl e, w) \<Rightarrow>
                            (Inl (Wrapf ''dial failed: %w'' [] (lastErrOf e)), io_close_all (x_close x) closers w)))))"

fun dialJumps :: "'w ext \<Rightarrow> JumpHost list \<Rightarrow> handle list \<Rightarrow> 'w io \<Rightarrow> handle list res \<times> 'w io" where
  "dialJumps x [] clients w = (Inr clients, w)"
| "dialJumps x (j # js) clients w =
     (case dialOneJump x j clients w of
        (Inl e, w) \<Rightarrow> (Inl (Wrapf ''jump host %s: %w'' [jh_User j] e), io_close_all (x_close x) clients w)
      | (Inr c, w) \<Rightarrow> dialJumps x js (clients @ [c]) w)"

definition dialJumpChain :: "'w ext \<Rightarrow> JumpHost list \<Rightarrow> 'w io \<Rightarrow> handle list res \<times> 'w io" where
  "dialJumpChain x jumps w = dialJumps x jumps [] w"

text \<open>The client config \<open>dialFinal\<close> makes for one address.\<close>

definition finalConfig :: "'w ext \<Rightarrow> spec_val \<Rightarrow> auth_method list \<Rightarrow> host_key_cb \<Rightarrow> 'w io \<Rightarrow> string \<Rightarrow> ClientConfig" where
  "finalConfig x spec methods hostKey w addr =
     \<lparr>cfg_User = User spec, cfg_Auth = methods, cfg_HostKeyCallback = hostKey,
      cfg_Timeout = dialTimeout (Timeout spec),
      cfg_HostKeyAlgorithms =
        (if Insecure spec then []
         else case splitHostPort addr of
                Inl _ \<Rightarrow> []
              | Inr (host, _) \<Rightarrow> HostKeyAlgorithmsFor x (KnownHostsPath spec) host w)\<rparr>"

definition dialFinal :: "'w ext \<Rightarrow> spec_val \<Rightarrow> 'w io \<Rightarrow> (handle \<times> handle list \<times> string) res \<times> 'w io" where
  "dialFinal x spec w =
     (case normalizeAddrs (Addresses spec) of
        Inl e \<Rightarrow> (Inl e, w)
      | Inr addrs \<Rightarrow>
          (case Build x (Auth spec) w of
             (Inl e, w) \<Rightarrow> (Inl e, w)
           | (Inr (methods, closers), w) \<Rightarrow>
               (case HostKeyCallback x (Insecure spec) (KnownHostsPath spec) w of
                  Inl e \<Rightarrow> (Inl e, io_close_all (x_close x) closers w)
                | Inr hostKey \<Rightarrow>
                    (case dialJumpChain x (JumpHosts spec) w of
                       (Inl e, w) \<Rightarrow> (Inl e, io_close_all (x_close x) closers w)
                     | (Inr jumps, w) \<Rightarrow>
                         (case dialLoop x jumps (finalConfig x spec methods hostKey) addrs None w of
                            (Inr (c, addr), w) \<Rightarrow>
                              (Inr (c, jumps, addr), io_close_all (x_close x) closers w)
                          | (Inl e, w) \<Rightarrow>
                              (Inl (Wrapf ''all addresses failed: %w'' [] (lastErrOf e)),
                               io_close_all (x_close x) closers (io_close_all (x_close x) jumps w)))))))"

section \<open>Addresses\<close>

lemma itoa_22 [simp]: "itoa defaultPort = ''22''"
  by code_simp

lemma normalizeAddr_split:
  assumes "plain a"
  shows "is_ok (splitHostPort (normalizeAddr a))"
proof (cases "splitHostPort a")
  case (Inl e)
  have "splitHostPort (joinHostPort a ''22'') = Inr (a, ''22'')"
    using assms by (intro split_join) (simp_all add: plain_def)
  with Inl show ?thesis by (simp add: normalizeAddr_def)
qed (simp add: normalizeAddr_def)

text \<open>
  What \<open>normalizeAddrs\<close> accepts can be dialed: for addresses without brackets (names,
  IPv4 addresses, bare IPv6 addresses, each with or without a port) every address it returns
  splits into a host and a port, blank addresses are dropped and the order is kept.
\<close>

lemma normalizeAddrs_dialable:
  assumes "normalizeAddrs addrs = Inr out" and "\<forall>a \<in> set addrs. plain (trimSpace a)"
  shows "out \<noteq> [] \<and> (\<forall>a \<in> set out. is_ok (splitHostPort a)) \<and>
    out = map normalizeAddr (filter (\<lambda>a. a \<noteq> []) (map trimSpace addrs))"
  using assms by (auto simp: normalizeAddrs_def Let_def normalizeAddr_split split: if_splits)

text \<open>
  A bracketed IPv6 literal without a port is an accepted address, but what
  \<open>normalizeAddrs\<close> makes of it is not one: the brackets are doubled and the result no longer
  splits into host and port.
\<close>

theorem normalizeAddrs_bracketed:
  "normalizeAddrs [''[::1]''] = Inr [''[[::1]]:22''] \<and> \<not> is_ok (splitHostPort ''[[::1]]:22'')"
  by code_simp

section \<open>What dialing leaves open\<close>

lemma dialThrough_acq:
  assumes "io_ok w" and "dialThrough x chain addr cfg w = (r, w')"
  shows "(case r of Inl _ \<Rightarrow> acquired w [] w' | Inr c \<Rightarrow> acquired w [c] w')"
proof (cases "chain = []")
  case True
  with assms(2) show ?thesis
    by (cases r) (auto simp: dialThrough_def intro: io_open_ok io_open_err)
next
  case False
  show ?thesis
  proof (cases "io_open (x_chan_dial x (last chain) addr) w")
    case (Pair o1 w1)
    show ?thesis
    proof (cases o1)
      case (Inl e)
      with False Pair assms(2) show ?thesis by (auto simp: dialThrough_def dest: io_open_err)
    next
      case (Inr conn)
      then have a1: "acquired w [conn] w1" using Pair by (auto intro: io_open_ok)
      obtain h w2 where h: "io_call (x_handshake x conn addr cfg) w1 = (h, w2)" by fastforce
      then have a2: "acquired w [conn] w2" using a1 by (blast intro: acquired_trans0 io_call_acq)
      show ?thesis
        using False Pair Inr h a2 assms acquired_close_one [OF assms(1) a2]
        by (auto simp: dialThrough_def split: option.splits)
    qed
  qed
qed

lemma dialLoop_acq:
  assumes "io_ok w" and "dialLoop x chain mk addrs le w = (r, w')"
  shows "(case r of Inl _ \<Rightarrow> acquired w [] w' | Inr (c, addr) \<Rightarrow> acquired w [c] w')"
  using assms
proof (induction addrs arbitrary: le w)
  case (Cons a addrs)
  obtain o1 w1 where d: "dialThrough x chain a (mk w a) w = (o1, w1)" by fastforce
  note da = dialThrough_acq [OF Cons.prems(1) d]
  show ?case
  proof (cases o1)
    case (Inl e)
    then have a1: "acquired w [] w1" using da by simp
    have "dialLoop x chain mk addrs (Some e) w1 = (r, w')" using Cons.prems(2) d Inl by simp
    from Cons.IH [OF acquired_ok [OF Cons.prems(1) a1] this] a1 show ?thesis
      by (auto split: sum.splits intro: acquired_0trans)
  next
    case (Inr c)
    with Cons.prems(2) d da show ?thesis by auto
  qed
qed auto

lemma dialOneJump_acq:
  assumes "io_ok w" and "dialOneJump x j chain w = (r, w')"
  shows "(case r of Inl _ \<Rightarrow> acquired w [] w' | Inr c \<Rightarrow> acquired w [c] w')"
proof (cases "normalizeAddrs (jh_Addresses j)")
  case (Inl e)
  with assms(2) show ?thesis by (auto simp: dialOneJump_def)
next
  case (Inr addrs)
  obtain b w1 where b: "Build x (jh_Auth j) w = (b, w1)" by fastforce
  show ?thesis
  proof (cases b)
    case (Inl e)
    with Inr b assms show ?thesis by (auto simp: dialOneJump_def dest: Build_err_acq)
  next
    case b2: (Inr mc)
    obtain ms cl where mc: "mc = (ms, cl)" by fastforce
    have a1: "acquired w cl w1" using b b2 mc by (auto intro: Build_ok_acq)
    note close0 = acquired_close_all [OF assms(1), of cl "[]", simplified]
    show ?thesis
    proof (cases "HostKeyCallback x (jh_Insecure j) (jh_KnownHostsPath j) w1")
      case (Inl e)
      with Inr b b2 mc a1 close0 assms(2) show ?thesis by (auto simp: dialOneJump_def)
    next
      case hk: (Inr hostKey)
      let ?cfg = "\<lparr>cfg_User = jh_User j, cfg_Auth = ms, cfg_HostKeyCallback = hostKey,
          cfg_Timeout = dialTimeout (jh_Timeout j), cfg_HostKeyAlgorithms = []\<rparr>"
      obtain l w2 where l: "dialLoop x chain (\<lambda>_ _. ?cfg) addrs None w1 = (l, w2)" by fastforce
      note la = dialLoop_acq [OF acquired_ok [OF assms(1) a1] l]
      show ?thesis
      proof (cases l)
        case (Inl e)
        then have "acquired w cl w2" using la a1 by (auto intro: acquired_trans0)
        with Inl l hk Inr b b2 mc close0 assms(2) show ?thesis by (auto simp: dialOneJump_def)
      next
        case (Inr ca)
        then have "acquired w (cl @ [fst ca]) w2"
          using la a1 by (cases ca) (auto intro: acquired_trans)
        from acquired_close_all [OF assms(1) this] Inr l hk \<open>normalizeAddrs _ = _\<close> b b2 mc assms(2)
        show ?thesis by (cases ca) (auto simp: dialOneJump_def)
      qed
    qed
  qed
qed

lemma dialJumps_acq:
  assumes "io_ok w0" and "acquired w0 clients w" and "dialJumps x js clients w = (r, w')"
  shows "(case r of Inl _ \<Rightarrow> acquired w0 [] w' | Inr cs \<Rightarrow> acquired w0 cs w')"
  using assms(2,3)
proof (induction js arbitrary: clients w)
  case (Cons j js)
  obtain o1 w1 where d: "dialOneJump x j clients w = (o1, w1)" by fastforce
  note da = dialOneJump_acq [OF acquired_ok [OF assms(1) Cons.prems(1)] d]
  show ?case
  proof (cases o1)
    case (Inl e)
    then have "acquired w0 clients w1" using da Cons.prems(1) by (auto intro: acquired_trans0)
    then show ?thesis
      using acquired_close_all [OF assms(1), of clients "[]"] Cons.prems(2) d Inl by auto
  next
    case (Inr c)
    then have "acquired w0 (clients @ [c]) w1" using da Cons.prems(1) by (auto intro: acquired_trans)
    with Cons.IH Cons.prems(2) d Inr show ?thesis by auto
  qed
qed auto

lemma dialFinal_acq:
  assumes "io_ok w" and "dialFinal x spec w = (r, w')"
  shows "(case r of
            Inl _ \<Rightarrow> acquired w [] w'
          | Inr (c, jumps, addr) \<Rightarrow> acquired w (jumps @ [c]) w')"
proof (cases "normalizeAddrs (Addresses spec)")
  case (Inl e)
  with assms(2) show ?thesis by (auto simp: dialFinal_def)
next
  case na: (Inr addrs)
  obtain b w1 where b: "Build x (Auth spec) w = (b, w1)" by fastforce
  show ?thesis
  proof (cases b)
    case (Inl e)
    with na b assms show ?thesis by (auto simp: dialFinal_def dest: Build_err_acq)
  next
    case b2: (Inr mc)
    obtain ms cl where mc: "mc = (ms, cl)" by fastforce
    have a1: "acquired w cl w1" using b b2 mc by (auto intro: Build_ok_acq)
    note ok1 = acquired_ok [OF assms(1) a1] and close = acquired_close_all [OF assms(1)]
    show ?thesis
    proof (cases "HostKeyCallback x (Insecure spec) (KnownHostsPath spec) w1")
      case (Inl e)
      with na b b2 mc a1 close [of cl "[]"] assms(2) show ?thesis by (auto simp: dialFinal_def)
    next
      case hk: (Inr hostKey)
      obtain jr w2 where j: "dialJumpChain x (JumpHosts spec) w1 = (jr, w2)" by fastforce
      note ja = dialJumps_acq [OF ok1 acquired_refl j [unfolded dialJumpChain_def]]
      show ?thesis
      proof (cases jr)
        case (Inl e)
        then have "acquired w cl w2" using ja a1 by (auto intro: acquired_trans0)
        with Inl na b b2 mc hk j close [of cl "[]"] assms(2) show ?thesis by (auto simp: dialFinal_def)
      next
        case jr: (Inr jumps)
        then have a2: "acquired w (cl @ jumps) w2" using ja a1 by (auto intro: acquired_trans)
        obtain l w3 where l: "dialLoop x jumps (finalConfig x spec ms hostKey) addrs None w2 = (l, w3)"
          by fastforce
        note la = dialLoop_acq [OF acquired_ok [OF assms(1) a2] l]
        show ?thesis
        proof (cases l)
          case (Inl e)
          then have "acquired w (cl @ jumps) w3" using la acquired_trans0 [OF a2, of w3] by simp
          then have "acquired w (jumps @ cl) w3" by (rule acquired_perm) (use a2 in \<open>auto simp: acquired_def\<close>)
          from close [OF this] have "acquired w (cl @ []) (io_close_all (x_close x) jumps w3)" by simp
          from close [OF this] Inl na b b2 mc hk j jr l assms(2)
          show ?thesis by (auto simp: dialFinal_def)
        next
          case (Inr ca)
          then have "acquired w (cl @ jumps @ [fst ca]) w3"
            using la acquired_trans [OF a2, of "[fst ca]" w3] by (cases ca) simp
          from close [OF this] Inr na b b2 mc hk j jr l assms(2)
          show ?thesis by (cases ca) (auto simp: dialFinal_def)
        qed
      qed
    qed
  qed
qed

text \<open>
  C28. Dialing leaks nothing.  When \<open>dialFinal\<close> fails, every connection it opened on the way,
  the ssh-agent sockets and the jump hosts included, is closed again; when it succeeds, exactly
  the client it returns and its jump clients are open, and the agent sockets are closed.
\<close>

theorem dialFinal_no_leak:
  assumes "io_ok w" and "dialFinal x spec w = (r, w')"
  shows "(case r of
            Inl _ \<Rightarrow> acquired w [] w'
          | Inr (c, jumps, addr) \<Rightarrow> acquired w (jumps @ [c]) w')"
  by (rule dialFinal_acq [OF assms])

lemma demo_io_ok [simp]: "io_ok demo_io"
  by (simp add: io_ok_def demo_io_def)

lemma demo_dial: "dialFinal demo_ext (demo_spec ''down''\<lparr>Addresses := [''down'', ''up'']\<rparr>) demo_io =
    (Inr (0, [], ''up:22''), \<lparr>orc = 2, next_h = 1, live = {0}\<rparr>)"
  by code_simp

theorem dialFinal_no_leak_witness:
  "acquired demo_io [0] \<lparr>orc = 2, next_h = 1, live = {0}\<rparr>"
  using dialFinal_no_leak [OF demo_io_ok demo_dial] by simp

end
