(* ===== verification/ShellBuf.thy ===== *)
theory ShellBuf
  imports GoPrelude
begin

text \<open>
  The output buffer of a shell.  \<open>internal/sshx/shell.go\<close> and \<open>internal/dockerx/shell.go\<close>
  have the same fields and the same code for it, so it is one record both shells extend.  The
  methods are functions on it; where goroutines interleave (the pumps that append, a caller in
  \<open>Read\<close>, the goroutine that sees the process end, a caller in \<open>Close\<close>) their atomic pieces
  are the actions of a step system.
\<close>

text \<open>\<open>wakeCh\<close> has capacity one, so it is a flag; \<open>doneCh\<close> is closed or not.\<close>

record Buf =
  b_data :: string
  b_max :: int
  b_wake :: bool
  b_closed :: bool
  b_done :: bool

definition keepLast :: "int \<Rightarrow> string \<Rightarrow> string" where
  "keepLast m s = (if 0 < m \<and> m < int (length s) then drop (length s - nat m) s else s)"

definition appendBuffer :: "string \<Rightarrow> 'a Buf_scheme \<Rightarrow> 'a Buf_scheme" where
  "appendBuffer chunk b = b\<lparr>b_data := keepLast (b_max b) (b_data b @ chunk)\<rparr>"

definition wake :: "'a Buf_scheme \<Rightarrow> 'a Buf_scheme" where
  "wake b = b\<lparr>b_wake := True\<rparr>"

definition drain :: "'a Buf_scheme \<Rightarrow> string \<times> 'a Buf_scheme" where
  "drain b = (b_data b, b\<lparr>b_data := []\<rparr>)"

section \<open>Read, piece by piece\<close>

datatype read_result = RData string | REof | RTimeout

text \<open>Where a caller of \<open>Read\<close> stands in its loop.\<close>

datatype reader = RTop | RClosedCheck | RDeadline | RSelect | RDoneDrain | RRet read_result

text \<open>What the runtime chooses: has the deadline passed, which case of the \<open>select\<close> is taken.\<close>

datatype choice = Expired | NotExpired | SelWake | SelTimer | SelDone

fun readStep :: "choice \<Rightarrow> reader \<Rightarrow> 'a Buf_scheme \<Rightarrow> (reader \<times> 'a Buf_scheme) option" where
  "readStep c RTop b =
     Some (if b_data b \<noteq> [] then (RRet (RData (fst (drain b))), snd (drain b)) else (RClosedCheck, b))"
| "readStep c RClosedCheck b = Some (if b_closed b then RRet REof else RDeadline, b)"
| "readStep Expired RDeadline b = Some (RRet RTimeout, b)"
| "readStep NotExpired RDeadline b = Some (RSelect, b)"
| "readStep SelWake RSelect b = (if b_wake b then Some (RTop, b\<lparr>b_wake := False\<rparr>) else None)"
| "readStep SelTimer RSelect b = Some (RRet RTimeout, b)"
| "readStep SelDone RSelect b = (if b_done b then Some (RDoneDrain, b) else None)"
| "readStep c RDoneDrain b =
     Some (RRet (if b_data b \<noteq> [] then RData (fst (drain b)) else REof), snd (drain b))"
| "readStep c r b = None"

text \<open>A call of \<open>Read\<close> that nothing interleaves with, the choices given.\<close>

fun readRun :: "choice list \<Rightarrow> reader \<Rightarrow> 'a Buf_scheme \<Rightarrow> (read_result \<times> 'a Buf_scheme) option" where
  "readRun cs (RRet r) b = Some (r, b)"
| "readRun [] _ b = None"
| "readRun (c # cs) r b =
     (case readStep c r b of None \<Rightarrow> None | Some (r, b) \<Rightarrow> readRun cs r b)"

section \<open>The goroutines of a shell\<close>

text \<open>
  Where a goroutine that shuts the shell stands: it sets \<open>closed\<close>, looks whether \<open>doneCh\<close> is
  closed, and closes it.  Closing a closed channel panics.
\<close>

datatype shutter = SIdle | SMarked | SSawOpen | SFinished

record sys =
  y_buf :: Buf
  y_reader :: reader
  y_fed :: string      \<comment> \<open>all that was appended\<close>
  y_got :: string      \<comment> \<open>all that \<open>Read\<close> returned\<close>
  y_exit :: shutter    \<comment> \<open>the goroutine that sees the process end\<close>
  y_close :: shutter   \<comment> \<open>a caller of \<open>Close\<close>\<close>
  y_panic :: bool

datatype act =
    Feed string        \<comment> \<open>a pump appends a chunk\<close>
  | Wake               \<comment> \<open>a pump signals \<open>wakeCh\<close>\<close>
  | Reader choice      \<comment> \<open>the reader's next piece\<close>
  | NextRead           \<comment> \<open>\<open>Read\<close> is called again\<close>
  | Exit               \<comment> \<open>the exit goroutine's next piece\<close>
  | Close              \<comment> \<open>the closer's next piece\<close>

definition shutCheck :: "sys \<Rightarrow> shutter" where
  "shutCheck s = (if b_done (y_buf s) then SFinished else SSawOpen)"

definition shutDone :: "sys \<Rightarrow> sys" where
  "shutDone s =
     (if b_done (y_buf s) then s\<lparr>y_panic := True\<rparr> else s\<lparr>y_buf := (y_buf s)\<lparr>b_done := True\<rparr>\<rparr>)"

fun exec_act :: "act \<Rightarrow> sys \<Rightarrow> sys option" where
  "exec_act (Feed c) s = Some (s\<lparr>y_buf := appendBuffer c (y_buf s), y_fed := y_fed s @ c\<rparr>)"
| "exec_act Wake s = Some (s\<lparr>y_buf := wake (y_buf s)\<rparr>)"
| "exec_act (Reader c) s =
     (case readStep c (y_reader s) (y_buf s) of
        None \<Rightarrow> None
      | Some (r, b) \<Rightarrow>
          Some (s\<lparr>y_reader := r, y_buf := b,
                  y_got := y_got s @ (case r of RRet (RData d) \<Rightarrow> d | _ \<Rightarrow> [])\<rparr>))"
| "exec_act NextRead s = (case y_reader s of RRet _ \<Rightarrow> Some (s\<lparr>y_reader := RTop\<rparr>) | _ \<Rightarrow> None)"
| "exec_act Exit s =
     (case y_exit s of
        SIdle \<Rightarrow> Some (s\<lparr>y_buf := (y_buf s)\<lparr>b_closed := True\<rparr>, y_exit := SMarked\<rparr>)
      | SMarked \<Rightarrow> Some (s\<lparr>y_exit := shutCheck s\<rparr>)
      | SSawOpen \<Rightarrow> Some ((shutDone s)\<lparr>y_exit := SFinished\<rparr>)
      | SFinished \<Rightarrow> None)"
| "exec_act Close s =
     (case y_close s of
        SIdle \<Rightarrow>
          Some (if b_closed (y_buf s) then s\<lparr>y_close := SFinished\<rparr>
                else s\<lparr>y_buf := (y_buf s)\<lparr>b_closed := True\<rparr>, y_close := SMarked\<rparr>)
      | SMarked \<Rightarrow> Some (s\<lparr>y_close := shutCheck s\<rparr>)
      | SSawOpen \<Rightarrow> Some ((shutDone s)\<lparr>y_close := SFinished\<rparr>)
      | SFinished \<Rightarrow> None)"

definition shell_step :: "sys \<Rightarrow> sys \<Rightarrow> bool" where
  "shell_step s t \<longleftrightarrow> (\<exists>a. exec_act a s = Some t)"

fun exec_acts :: "act list \<Rightarrow> sys \<Rightarrow> sys option" where
  "exec_acts [] s = Some s"
| "exec_acts (a # as) s = (case exec_act a s of None \<Rightarrow> None | Some t \<Rightarrow> exec_acts as t)"

definition newSys :: "int \<Rightarrow> sys" where
  "newSys m = \<lparr>y_buf = \<lparr>b_data = [], b_max = m, b_wake = False, b_closed = False, b_done = False\<rparr>,
     y_reader = RTop, y_fed = [], y_got = [], y_exit = SIdle, y_close = SIdle, y_panic = False\<rparr>"

section \<open>Bounds and order\<close>

lemma length_keepLast: "0 < m \<Longrightarrow> int (length (keepLast m s)) \<le> m"
  by (auto simp: keepLast_def)

lemma subseq_drop: "subseq (drop n s) s"
  by (metis append_take_drop_id subseq_drop_many subseq_order.order_refl)

lemma subseq_keepLast: "subseq (keepLast m s) s"
  by (simp add: keepLast_def subseq_drop)

definition stream_ok :: "int \<Rightarrow> Buf \<Rightarrow> string \<Rightarrow> string \<Rightarrow> bool" where
  "stream_ok m b got fed \<longleftrightarrow>
     b_max b = m \<and> (0 < m \<longrightarrow> int (length (b_data b)) \<le> m) \<and> subseq (got @ b_data b) fed \<and>
     (m \<le> 0 \<longrightarrow> got @ b_data b = fed)"

definition closed_ok :: "sys \<Rightarrow> bool" where
  "closed_ok s \<longleftrightarrow>
     (y_reader s \<in> {RRet REof, RDoneDrain} \<or> y_exit s \<noteq> SIdle \<or> y_close s \<in> {SMarked, SSawOpen} \<or> b_done (y_buf s) \<longrightarrow>
        b_closed (y_buf s))"

definition sys_inv :: "int \<Rightarrow> sys \<Rightarrow> bool" where
  "sys_inv m s \<longleftrightarrow> stream_ok m (y_buf s) (y_got s) (y_fed s) \<and> closed_ok s"

lemma stream_ok_flags [simp]:
  "stream_ok m (b\<lparr>b_wake := v\<rparr>) got fed = stream_ok m b got fed"
  "stream_ok m (b\<lparr>b_closed := v\<rparr>) got fed = stream_ok m b got fed"
  "stream_ok m (b\<lparr>b_done := v\<rparr>) got fed = stream_ok m b got fed"
  by (simp_all add: stream_ok_def)

lemma sys_inv_feed:
  assumes i: "sys_inv m s" and e: "exec_act (Feed c) s = Some t"
  shows "sys_inv m t"
proof -
  let ?d = "b_data (y_buf s) @ c"
  have t: "t = s\<lparr>y_buf := (y_buf s)\<lparr>b_data := keepLast m ?d\<rparr>, y_fed := y_fed s @ c\<rparr>"
    using i e by (simp add: sys_inv_def stream_ok_def appendBuffer_def)
  have "subseq (y_got s @ keepLast m ?d) (y_got s @ ?d)"
    by (intro list_emb_append_mono subseq_order.order_refl subseq_keepLast)
  moreover have "subseq ((y_got s @ b_data (y_buf s)) @ c) (y_fed s @ c)"
    using i by (intro list_emb_append_mono subseq_order.order_refl) (simp add: sys_inv_def stream_ok_def)
  ultimately have "subseq (y_got s @ keepLast m ?d) (y_fed s @ c)"
    by (metis append.assoc subseq_order.trans)
  moreover have "m \<le> 0 \<Longrightarrow> keepLast m ?d = ?d" by (simp add: keepLast_def)
  ultimately show ?thesis using i length_keepLast [of m ?d] by (auto simp: t sys_inv_def stream_ok_def closed_ok_def)
qed

lemma sys_inv_reader:
  assumes i: "sys_inv m s" and e: "exec_act (Reader c) s = Some t"
  shows "sys_inv m t"
proof -
  obtain r b where r: "readStep c (y_reader s) (y_buf s) = Some (r, b)"
    and t: "t = s\<lparr>y_reader := r, y_buf := b, y_got := y_got s @ (case r of RRet (RData d) \<Rightarrow> d | _ \<Rightarrow> [])\<rparr>"
    using e by (auto split: option.splits)
  have "b_max b = b_max (y_buf s) \<and> b_closed b = b_closed (y_buf s) \<and> b_done b = b_done (y_buf s) \<and>
      (case r of RRet (RData d) \<Rightarrow> d | _ \<Rightarrow> []) @ b_data b = b_data (y_buf s) \<and>
      (r = RRet REof \<longrightarrow> y_reader s = RDoneDrain \<or> b_closed (y_buf s)) \<and> (r = RDoneDrain \<longrightarrow> b_done (y_buf s))"
    using r by (cases "y_reader s"; cases c) (auto simp: drain_def split: if_splits)
  moreover from this have "length (b_data b) \<le> length (b_data (y_buf s))" by (metis length_append le_add2)
  ultimately show ?thesis using i by (auto simp: sys_inv_def stream_ok_def closed_ok_def t)
qed

lemma sys_inv_exit: "sys_inv m s \<Longrightarrow> exec_act Exit s = Some t \<Longrightarrow> sys_inv m t"
  by (cases "y_exit s") (auto simp: sys_inv_def closed_ok_def shutDone_def shutCheck_def split: if_splits)

lemma sys_inv_close: "sys_inv m s \<Longrightarrow> exec_act Close s = Some t \<Longrightarrow> sys_inv m t"
  by (cases "y_close s") (auto simp: sys_inv_def closed_ok_def shutDone_def shutCheck_def split: if_splits)

lemma sys_inv_next: "sys_inv m s \<Longrightarrow> exec_act NextRead s = Some t \<Longrightarrow> sys_inv m t"
  by (cases "y_reader s") (auto simp: sys_inv_def closed_ok_def)

lemma sys_inv_wake: "sys_inv m s \<Longrightarrow> exec_act Wake s = Some t \<Longrightarrow> sys_inv m t"
  by (auto simp: sys_inv_def closed_ok_def wake_def)

lemma sys_inv_step:
  assumes "sys_inv m s" and "shell_step s t"
  shows "sys_inv m t"
proof -
  obtain a where "exec_act a s = Some t" using assms(2) by (auto simp: shell_step_def)
  then show ?thesis
    using assms(1) sys_inv_feed sys_inv_reader sys_inv_exit sys_inv_close sys_inv_next sys_inv_wake
    by (cases a) blast+
qed

interpretation shell_sys: step_system "\<lambda>s. s = newSys m" shell_step "sys_inv m" for m
  by unfold_locales (simp add: sys_inv_def stream_ok_def closed_ok_def newSys_def, rule sys_inv_step)

lemma exec_acts_steps: "exec_acts as s = Some t \<Longrightarrow> steps_to shell_step s t"
proof (induction as arbitrary: s)
  case (Cons a as)
  then show ?case
    by (auto simp: shell_step_def intro: steps_cons split: option.splits)
qed (auto intro: steps_refl)

lemma exec_reach: "map_option f (exec_acts as s) = Some v \<Longrightarrow> \<exists>t. steps_to shell_step s t \<and> f t = v"
  by (auto dest: exec_acts_steps simp del: exec_acts.simps)

text \<open>
  C7. Whatever the pumps, readers and closers do: the buffer never exceeds its bound; what
  \<open>Read\<close> has returned, followed by what is still buffered, is the shell's output in order with
  at most some bytes dropped, and with no bound nothing is dropped; and \<open>Read\<close> reports the end
  only of a closed shell.
\<close>

theorem shell_stream:
  assumes "steps_to shell_step (newSys m) s"
  shows "(0 < m \<longrightarrow> int (length (b_data (y_buf s))) \<le> m) \<and>
    subseq (y_got s @ b_data (y_buf s)) (y_fed s) \<and>
    (m \<le> 0 \<longrightarrow> y_got s @ b_data (y_buf s) = y_fed s) \<and>
    (y_reader s = RRet REof \<longrightarrow> b_closed (y_buf s))"
  using shell_sys.inv_reachable [OF refl assms] by (simp add: sys_inv_def stream_ok_def closed_ok_def)

text \<open>
  Output can be lost at the end: a reader that found the buffer empty and is about to look at
  \<open>closed\<close> reports the end of the shell although the last output has arrived in between.
\<close>

theorem shell_eof_with_output:
  "\<exists>s. steps_to shell_step (newSys 1048576) s \<and> y_reader s = RRet REof \<and>
     b_data (y_buf s) = ''bye'' \<and> y_got s = []"
proof -
  have "map_option (\<lambda>s. (y_reader s, b_data (y_buf s), y_got s))
      (exec_acts [Reader NotExpired, Feed ''bye'', Wake, Exit, Reader NotExpired] (newSys 1048576)) =
      Some (RRet REof, ''bye'', [])" by code_simp
  from exec_reach [OF this] show ?thesis by auto
qed

text \<open>
  A shell whose process ends while a client closes it can crash the daemon: both goroutines
  see \<open>doneCh\<close> open and the second one closes a closed channel.
\<close>

theorem shell_double_close_panics:
  "\<exists>s. steps_to shell_step (newSys 1048576) s \<and> y_panic s"
proof -
  have "map_option y_panic (exec_acts [Close, Exit, Close, Exit, Close, Exit] (newSys 1048576)) = Some True"
    by code_simp
  from exec_reach [OF this] show ?thesis by auto
qed

definition demo_sys :: sys where
  "demo_sys = the (exec_acts [Feed ''hello'', Wake, Reader NotExpired, NextRead, Feed ''!''] (newSys 4))"

theorem shell_stream_witness:
  "subseq (y_got demo_sys @ b_data (y_buf demo_sys)) ''hello!'' \<and> y_got demo_sys = ''ello''"
proof -
  have "exec_acts [Feed ''hello'', Wake, Reader NotExpired, NextRead, Feed ''!''] (newSys 4) = Some demo_sys"
    unfolding demo_sys_def by (simp add: newSys_def appendBuffer_def wake_def drain_def keepLast_def)
  moreover have "y_fed demo_sys = ''hello!''" "y_got demo_sys = ''ello''" by code_simp+
  ultimately show ?thesis using shell_stream [OF exec_acts_steps] by metis
qed

end
