(* ===== verification/SshState.thy ===== *)
theory SshState
  imports SshConnect ShellBuf
begin

text \<open>
  The state of the ssh side: the types of \<open>session.go\<close>, \<open>forward.go\<close> and \<open>shell.go\<close>,
  and the heap they live in.  Sessions, forwards and shells are pointers in Go and numbers here;
  so are the backing arrays of the two slices of a connect spec that are written through.
\<close>

datatype SessionState = StateConnecting | StateConnected | StateReconnecting | StateDisconnected

fun stateName :: "SessionState \<Rightarrow> string" where
  "stateName StateConnecting = ''connecting''"
| "stateName StateConnected = ''connected''"
| "stateName StateReconnecting = ''reconnecting''"
| "stateName StateDisconnected = ''disconnected''"

datatype ForwardKind = ForwardLocal | ForwardRemote | ForwardDynamic

text \<open>\<open>Kind\<close> with the one spec pointer of a \<open>Forward\<close> that is set.\<close>

datatype fwd_spec = FLocal LocalSpec | FRemote RemoteSpec | FDynamic DynamicSpec

fun fwdKind :: "fwd_spec \<Rightarrow> ForwardKind" where
  "fwdKind (FLocal _) = ForwardLocal"
| "fwdKind (FRemote _) = ForwardRemote"
| "fwdKind (FDynamic _) = ForwardDynamic"


record Forward =
  f_ID :: string
  f_SessionID :: string
  f_spec :: fwd_spec
  f_session :: ptr
  f_listener :: "handle option"
  f_bindPort :: int
  f_closed :: bool
  f_conns :: int

text \<open>A shell is a shell buffer (\<open>ShellBuf\<close>) and what belongs to ssh.\<close>

record Shell = Buf +
  sh_ID :: string
  sh_SessionID :: string
  sh_parent :: ptr
  sh_chan :: handle
  sh_OpenedAt :: int

type_synonym spec_ref = "(ptr option, ptr option) ConnectSpec"

record Session =
  s_ID :: string
  s_Spec :: spec_ref
  s_client :: "handle option"
  s_jumps :: "handle list"
  s_addr :: string
  s_state :: SessionState
  s_lastError :: "goerr option"
  s_connectedAt :: int
  s_forwards :: "ptr gomap"
  s_shells :: "ptr gomap"
  s_sftp :: "handle option"
  s_agentOn :: bool
  s_agentConn :: "handle option"
  s_keepalive :: "nat option"  \<comment> \<open>the context \<open>keepaliveCancel\<close> cancels\<close>
  s_reconnecting :: bool       \<comment> \<open>\<open>reconnectMu\<close> is held\<close>
  s_closed :: bool

record 'w st =
  st_io :: "'w io"
  tbl :: "ptr gomap"              \<comment> \<open>\<open>Manager.sessions\<close>\<close>
  sess :: "ptr \<Rightarrow> Session"
  fwd :: "ptr \<Rightarrow> Forward"
  shl :: "ptr \<Rightarrow> Shell"
  arrA :: "ptr \<Rightarrow> string list"
  arrJ :: "ptr \<Rightarrow> JumpHost list"
  nxt :: ptr                      \<comment> \<open>the next pointer or context to be allocated\<close>
  cancelled :: "nat set"          \<comment> \<open>the contexts that have been cancelled\<close>

definition arrayOf :: "(ptr \<Rightarrow> 'x list) \<Rightarrow> ptr option \<Rightarrow> 'x list" where
  "arrayOf h a = (case a of None \<Rightarrow> [] | Some p \<Rightarrow> h p)"

text \<open>The value of a spec, as a callee that reads it sees it.\<close>

definition deref :: "'w st \<Rightarrow> spec_ref \<Rightarrow> spec_val" where
  "deref st s = \<lparr>User = User s, Addresses = arrayOf (arrA st) (Addresses s),
     JumpHosts = arrayOf (arrJ st) (JumpHosts s), Auth = Auth s, KnownHostsPath = KnownHostsPath s,
     Insecure = Insecure s, Timeout = Timeout s, Keepalive = Keepalive s,
     AutoReconnect = AutoReconnect s, Persistent = Persistent s, ForwardAgent = ForwardAgent s,
     DisableSSHConfig = DisableSSHConfig s\<rparr>"

definition updS :: "ptr \<Rightarrow> (Session \<Rightarrow> Session) \<Rightarrow> 'w st \<Rightarrow> 'w st" where
  "updS p f st = st\<lparr>sess := (sess st)(p := f (sess st p))\<rparr>"

definition updF :: "ptr \<Rightarrow> (Forward \<Rightarrow> Forward) \<Rightarrow> 'w st \<Rightarrow> 'w st" where
  "updF p f st = st\<lparr>fwd := (fwd st)(p := f (fwd st p))\<rparr>"

definition updH :: "ptr \<Rightarrow> (Shell \<Rightarrow> Shell) \<Rightarrow> 'w st \<Rightarrow> 'w st" where
  "updH p f st = st\<lparr>shl := (shl st)(p := f (shl st p))\<rparr>"

text \<open>Running a call on the outside world from a state.\<close>

definition st_call :: "('w io \<Rightarrow> 'a \<times> 'w io) \<Rightarrow> 'w st \<Rightarrow> 'a \<times> 'w st" where
  "st_call f st = (case f (st_io st) of (a, w) \<Rightarrow> (a, st\<lparr>st_io := w\<rparr>))"

definition st_close :: "'w ext \<Rightarrow> handle list \<Rightarrow> 'w st \<Rightarrow> 'w st" where
  "st_close x hs st = st\<lparr>st_io := io_close_all (x_close x) hs (st_io st)\<rparr>"

definition opt_list :: "'a option \<Rightarrow> 'a list" where
  "opt_list a = (case a of None \<Rightarrow> [] | Some v \<Rightarrow> [v])"

section \<open>The heap laws\<close>

lemma upd_simps [simp]:
  "sess (updS p f st) = (sess st)(p := f (sess st p))" "fwd (updS p f st) = fwd st" "shl (updS p f st) = shl st"
  "st_io (updS p f st) = st_io st" "tbl (updS p f st) = tbl st" "nxt (updS p f st) = nxt st"
  "arrA (updS p f st) = arrA st" "arrJ (updS p f st) = arrJ st" "cancelled (updS p f st) = cancelled st"
  "fwd (updF p g st) = (fwd st)(p := g (fwd st p))" "sess (updF p g st) = sess st" "shl (updF p g st) = shl st"
  "st_io (updF p g st) = st_io st" "tbl (updF p g st) = tbl st" "nxt (updF p g st) = nxt st"
  "arrA (updF p g st) = arrA st" "arrJ (updF p g st) = arrJ st" "cancelled (updF p g st) = cancelled st"
  "shl (updH p h st) = (shl st)(p := h (shl st p))" "sess (updH p h st) = sess st" "fwd (updH p h st) = fwd st"
  "st_io (updH p h st) = st_io st" "tbl (updH p h st) = tbl st" "nxt (updH p h st) = nxt st"
  "arrA (updH p h st) = arrA st" "arrJ (updH p h st) = arrJ st" "cancelled (updH p h st) = cancelled st"
  by (simp_all add: updS_def updF_def updH_def)

lemma st_close_simps [simp]:
  "sess (st_close x hs st) = sess st" "fwd (st_close x hs st) = fwd st" "shl (st_close x hs st) = shl st"
  "tbl (st_close x hs st) = tbl st" "nxt (st_close x hs st) = nxt st" "arrA (st_close x hs st) = arrA st"
  "arrJ (st_close x hs st) = arrJ st" "cancelled (st_close x hs st) = cancelled st"
  "live (st_io (st_close x hs st)) = live (st_io st) - set hs"
  "next_h (st_io (st_close x hs st)) = next_h (st_io st)"
  by (simp_all add: st_close_def)

lemma set_opt_list [simp]: "set (opt_list a) = set_option a"
  by (cases a) (simp_all add: opt_list_def)

lemma st_callE:
  assumes "st_call f st = (a, st')"
  obtains w where "f (st_io st) = (a, w)" and "st' = st\<lparr>st_io := w\<rparr>"
  using assms by (auto simp: st_call_def split: prod.splits)

end
