(* ===== verification/SshSession.thy ===== *)
theory SshSession
  imports SshState
begin

text \<open>
  \<open>internal/sshx/session.go\<close>: one session's operations, with \<open>Forward.Close\<close> and
  \<open>Shell.Close\<close> which closing a session calls.  A method that locks a mutex for its whole
  body is one function; where the code releases the lock in between, \<open>SshConc\<close> makes the
  pieces separate steps.
\<close>

definition getClient :: "'w st \<Rightarrow> ptr \<Rightarrow> handle res" where
  "getClient st p =
     (case s_client (sess st p) of
        None \<Rightarrow> Inl (Errorf ''session %q is %s'' [s_ID (sess st p), stateName (s_state (sess st p))])
      | Some c \<Rightarrow> Inr c)"

definition setClient ::
    "'w ext \<Rightarrow> ptr \<Rightarrow> handle \<Rightarrow> handle list \<Rightarrow> string \<Rightarrow> 'w st \<Rightarrow> bool \<times> 'w st" where
  "setClient x p c jumps addr st =
     (if s_closed (sess st p) then (False, st_close x (c # jumps) st)
      else (True, updS p (\<lambda>S. S\<lparr>s_client := Some c, s_jumps := jumps, s_addr := addr,
              s_state := StateConnected, s_lastError := None,
              s_connectedAt := x_now x (orc (st_io st))\<rparr>) st))"

definition markState :: "ptr \<Rightarrow> SessionState \<Rightarrow> goerr option \<Rightarrow> 'w st \<Rightarrow> 'w st" where
  "markState p state e st =
     updS p (\<lambda>S. S\<lparr>s_state := state,
                    s_lastError := (case e of None \<Rightarrow> s_lastError S | Some e \<Rightarrow> Some e)\<rparr>) st"

definition clearClient :: "'w ext \<Rightarrow> ptr \<Rightarrow> 'w st \<Rightarrow> 'w st" where
  "clearClient x p st =
     (let S = sess st p in
      st_close x (opt_list (s_sftp S) @ opt_list (s_client S) @ s_jumps S @ opt_list (s_agentConn S))
        (updS p (\<lambda>S. S\<lparr>s_sftp := None, s_client := None, s_jumps := [], s_agentConn := None,
                        s_agentOn := False\<rparr>) st))"

definition agentSocketOf :: "'w ext \<Rightarrow> 'w io \<Rightarrow> string \<Rightarrow> string" where
  "agentSocketOf x w s = (if s = [] then x_getenv x ''SSH_AUTH_SOCK'' (orc w) else s)"

definition enableAgentForwarding :: "'w ext \<Rightarrow> ptr \<Rightarrow> string \<Rightarrow> 'w st \<Rightarrow> goerr option \<times> 'w st" where
  "enableAgentForwarding x p socket0 st =
     (let socket = agentSocketOf x (st_io st) socket0 in
      if socket = [] then
        (Some (Errorf ''agent forwarding requested but no agent socket available (set auth.agent_socket or $SSH_AUTH_SOCK)'' []), st)
      else
        (case st_call (io_open (x_dial_unix x (expandTilde x (st_io st) socket))) st of
           (Inl e, st) \<Rightarrow> (Some (Wrapf ''dial agent for forwarding: %w'' [] e), st)
         | (Inr conn, st) \<Rightarrow>
             (let cli = s_client (sess st p);
                  st = updS p (\<lambda>S. S\<lparr>s_agentConn := Some conn, s_agentOn := True\<rparr>) st
              in case cli of
                   None \<Rightarrow> (Some (Errorf ''session has no active client'' []), st_close x [conn] st)
                 | Some c \<Rightarrow>
                     (case st_call (io_call (x_forward_agent x c conn)) st of
                        (Some e, st) \<Rightarrow>
                          (Some (Wrapf ''ForwardToAgent: %w'' [] e),
                           updS p (\<lambda>S. S\<lparr>s_agentConn := None, s_agentOn := False\<rparr>) (st_close x [conn] st))
                      | (None, st) \<Rightarrow> (None, st)))))"

section \<open>Closing\<close>

definition fwdClose :: "'w ext \<Rightarrow> ptr \<Rightarrow> 'w st \<Rightarrow> goerr option \<times> 'w st" where
  "fwdClose x f st =
     (if f_closed (fwd st f) then (None, st)
      else (let st' = updF f (\<lambda>F. F\<lparr>f_closed := True\<rparr>) st
            in case f_listener (fwd st f) of
                 None \<Rightarrow> (None, st')
               | Some l \<Rightarrow> st_call (io_close (x_close x) l) st'))"

definition shellClose :: "'w ext \<Rightarrow> ptr \<Rightarrow> 'w st \<Rightarrow> goerr option \<times> 'w st" where
  "shellClose x h st =
     (if b_closed (shl st h) then (None, st)
      else (let st1 = updH h (\<lambda>H. H\<lparr>b_closed := True\<rparr>) st;
                st2 = snd (st_call (io_call (x_stdin_close x (sh_chan (shl st h)))) st1);
                (e, st3) = st_call (io_close (x_close x) (sh_chan (shl st h))) st2
            in (e, updH h (\<lambda>H. H\<lparr>b_done := True\<rparr>) st3)))"

fun closeForwards :: "'w ext \<Rightarrow> ptr list \<Rightarrow> 'w st \<Rightarrow> 'w st" where
  "closeForwards x [] st = st"
| "closeForwards x (f # fs) st = closeForwards x fs (snd (fwdClose x f st))"

fun closeShells :: "'w ext \<Rightarrow> ptr list \<Rightarrow> 'w st \<Rightarrow> 'w st" where
  "closeShells x [] st = st"
| "closeShells x (h # hs) st = closeShells x hs (snd (shellClose x h st))"

definition closeBegin :: "ptr \<Rightarrow> 'w st \<Rightarrow> 'w st" where
  "closeBegin p st =
     (let c = s_keepalive (sess st p);
          st = updS p (\<lambda>S. S\<lparr>s_closed := True, s_keepalive := None\<rparr>) st
      in st\<lparr>cancelled := cancelled st \<union> set_option c\<rparr>)"

definition closeFwdMap :: "'w ext \<Rightarrow> ptr \<Rightarrow> 'w st \<Rightarrow> 'w st" where
  "closeFwdMap x p st =
     updS p (\<lambda>S. S\<lparr>s_forwards := []\<rparr>) (closeForwards x (gm_vals (s_forwards (sess st p))) st)"

definition closeShellMap :: "'w ext \<Rightarrow> ptr \<Rightarrow> 'w st \<Rightarrow> 'w st" where
  "closeShellMap x p st =
     updS p (\<lambda>S. S\<lparr>s_shells := []\<rparr>) (closeShells x (gm_vals (s_shells (sess st p))) st)"

definition close :: "'w ext \<Rightarrow> ptr \<Rightarrow> 'w st \<Rightarrow> 'w st" where
  "close x p st =
     (if s_closed (sess st p) then st
      else markState p StateDisconnected None
             (clearClient x p (closeShellMap x p (closeFwdMap x p (closeBegin p st)))))"

section \<open>Reporting\<close>

record SessionInfo =
  si_ID :: string
  si_User :: string
  si_Addresses :: "string list"
  si_ActiveAddress :: string
  si_State :: string
  si_LastError :: "goerr option"
  si_ConnectedAt :: int
  si_Forwards :: "string list"
  si_Shells :: "string list"
  si_Persistent :: bool
  si_AutoReconnect :: bool

definition Info :: "'w st \<Rightarrow> ptr \<Rightarrow> SessionInfo" where
  "Info st p =
     (let S = sess st p; spec = deref st (s_Spec S) in
      \<lparr>si_ID = s_ID S, si_User = User spec, si_Addresses = Addresses spec, si_ActiveAddress = s_addr S,
       si_State = stateName (s_state S), si_LastError = s_lastError S, si_ConnectedAt = s_connectedAt S,
       si_Forwards = gm_keys (s_forwards S), si_Shells = gm_keys (s_shells S),
       si_Persistent = Persistent spec, si_AutoReconnect = AutoReconnect spec\<rparr>)"

record SessionRow =
  sr_ID :: string
  sr_User :: string
  sr_Address :: string
  sr_State :: string
  sr_LastError :: "goerr option"
  sr_Persistent :: bool
  sr_AutoReconnect :: bool
  sr_Forwards :: nat
  sr_Shells :: nat

definition Row :: "SessionInfo \<Rightarrow> SessionRow" where
  "Row i =
     \<lparr>sr_ID = si_ID i, sr_User = si_User i,
      sr_Address = (if si_ActiveAddress i = []
                    then (case si_Addresses i of [] \<Rightarrow> [] | a # _ \<Rightarrow> a) else si_ActiveAddress i),
      sr_State = si_State i, sr_LastError = si_LastError i, sr_Persistent = si_Persistent i,
      sr_AutoReconnect = si_AutoReconnect i, sr_Forwards = length (si_Forwards i),
      sr_Shells = length (si_Shells i)\<rparr>"

section \<open>Exec\<close>

record ExecResult =
  Stdout :: string
  Stderr :: string
  ExitCode :: int

text \<open>\<open>sess.Setenv\<close> for each variable, its error ignored.\<close>

fun setenvs :: "'w ext \<Rightarrow> handle \<Rightarrow> (string \<times> string) list \<Rightarrow> 'w st \<Rightarrow> 'w st" where
  "setenvs x ch [] st = st"
| "setenvs x ch ((k, v) # env) st = setenvs x ch env (snd (st_call (io_call (x_setenv x ch k v)) st))"

definition requestAgent :: "'w ext \<Rightarrow> ptr \<Rightarrow> handle \<Rightarrow> 'w st \<Rightarrow> 'w st" where
  "requestAgent x p ch st =
     (if s_agentOn (sess st p) then snd (st_call (io_call (x_request_agent x ch)) st) else st)"

text \<open>
  The result and the error are both returned, as in Go.  \<open>x_run\<close> is \<open>sess.Run\<close> raced
  against the context, the kill and the grace period included.
\<close>

definition Exec ::
    "'w ext \<Rightarrow> ptr \<Rightarrow> string \<Rightarrow> string gomap \<Rightarrow> string \<Rightarrow> 'w st \<Rightarrow>
     (ExecResult option \<times> goerr option) \<times> 'w st" where
  "Exec x p command env stdin st =
     (case getClient st p of
        Inl e \<Rightarrow> ((None, Some e), st)
      | Inr client \<Rightarrow>
          (case st_call (io_open (x_new_session x client)) st of
             (Inl e, st) \<Rightarrow> ((None, Some (Wrapf ''new ssh channel: %w'' [] e)), st)
           | (Inr ch, st) \<Rightarrow>
               (let st = setenvs x ch env (requestAgent x p ch st);
                    (out, st) = st_call (io_call (x_run x ch command stdin)) st;
                    st = st_close x [ch] st
                in case out of
                     RunCancelled \<Rightarrow> ((None, Some CtxErr), st)
                   | RunDone so se None \<Rightarrow>
                       ((Some \<lparr>Stdout = so, Stderr = se, ExitCode = 0\<rparr>, None), st)
                   | RunDone so se (Some (ExitError c)) \<Rightarrow>
                       ((Some \<lparr>Stdout = so, Stderr = se, ExitCode = c\<rparr>, None), st)
                   | RunDone so se (Some (OtherError e)) \<Rightarrow>
                       ((Some \<lparr>Stdout = so, Stderr = se, ExitCode = 0\<rparr>, Some e), st))))"

section \<open>What a session holds open\<close>

definition fwdOwned :: "'w st \<Rightarrow> ptr \<Rightarrow> handle set" where
  "fwdOwned st f = (if f_closed (fwd st f) then {} else set_option (f_listener (fwd st f)))"

definition shellOwned :: "'w st \<Rightarrow> ptr \<Rightarrow> handle set" where
  "shellOwned st h = (if b_closed (shl st h) then {} else {sh_chan (shl st h)})"

definition transport :: "Session \<Rightarrow> handle set" where
  "transport S = set_option (s_client S) \<union> set (s_jumps S) \<union> set_option (s_sftp S) \<union> set_option (s_agentConn S)"

definition owned :: "'w st \<Rightarrow> ptr \<Rightarrow> handle set" where
  "owned st p = transport (sess st p) \<union> (\<Union>f \<in> set (gm_vals (s_forwards (sess st p))). fwdOwned st f) \<union>
     (\<Union>h \<in> set (gm_vals (s_shells (sess st p))). shellOwned st h)"

lemma fwdClose_frame [simp]:
  "sess (snd (fwdClose x f st)) = sess st" "shl (snd (fwdClose x f st)) = shl st" "tbl (snd (fwdClose x f st)) = tbl st"
  "nxt (snd (fwdClose x f st)) = nxt st" "arrA (snd (fwdClose x f st)) = arrA st" "arrJ (snd (fwdClose x f st)) = arrJ st"
  "cancelled (snd (fwdClose x f st)) = cancelled st" "next_h (st_io (snd (fwdClose x f st))) = next_h (st_io st)"
  by (auto simp: fwdClose_def Let_def st_call_def io_close_def split: option.splits prod.splits)

lemma fwdClose_live [simp]: "live (st_io (snd (fwdClose x f st))) = live (st_io st) - fwdOwned st f"
  by (auto simp: fwdClose_def fwdOwned_def Let_def st_call_def io_close_def split: option.splits prod.splits)

lemma fwdClose_fwd [simp]: "fwd (snd (fwdClose x f st)) = (fwd st)(f := fwd st f\<lparr>f_closed := True\<rparr>)"
  by (auto simp: fwdClose_def Let_def st_call_def io_close_def split: option.splits prod.splits)

lemma shellClose_frame [simp]:
  "sess (snd (shellClose x h st)) = sess st" "fwd (snd (shellClose x h st)) = fwd st" "tbl (snd (shellClose x h st)) = tbl st"
  "nxt (snd (shellClose x h st)) = nxt st" "arrA (snd (shellClose x h st)) = arrA st" "arrJ (snd (shellClose x h st)) = arrJ st"
  "cancelled (snd (shellClose x h st)) = cancelled st" "next_h (st_io (snd (shellClose x h st))) = next_h (st_io st)"
  by (auto simp: shellClose_def Let_def st_call_def io_call_def io_close_def split: option.splits prod.splits)

lemma shellClose_live [simp]: "live (st_io (snd (shellClose x h st))) = live (st_io st) - shellOwned st h"
  by (auto simp: shellClose_def shellOwned_def Let_def st_call_def io_call_def io_close_def split: prod.splits)

lemma shellClose_shl [simp]:
  "shl (snd (shellClose x h st)) = (if b_closed (shl st h) then shl st
     else (shl st)(h := shl st h\<lparr>b_closed := True, b_done := True\<rparr>))"
  by (auto simp: shellClose_def Let_def st_call_def io_call_def io_close_def split: prod.splits)

lemma closeForwards_frame [simp]:
  "sess (closeForwards x fs st) = sess st" "shl (closeForwards x fs st) = shl st" "tbl (closeForwards x fs st) = tbl st"
  "nxt (closeForwards x fs st) = nxt st" "arrA (closeForwards x fs st) = arrA st" "arrJ (closeForwards x fs st) = arrJ st"
  "cancelled (closeForwards x fs st) = cancelled st" "next_h (st_io (closeForwards x fs st)) = next_h (st_io st)"
  by (induction fs arbitrary: st) simp_all

lemma closeForwards_fwd:
  "fwd (closeForwards x fs st) = (\<lambda>f. if f \<in> set fs then fwd st f\<lparr>f_closed := True\<rparr> else fwd st f)"
  by (induction fs arbitrary: st) (auto simp: fun_eq_iff)

lemma closeForwards_live:
  "live (st_io (closeForwards x fs st)) = live (st_io st) - (\<Union>f \<in> set fs. fwdOwned st f)"
proof (induction fs arbitrary: st)
  case (Cons f fs)
  have "fwdOwned (snd (fwdClose x f st)) g = (if g = f then {} else fwdOwned st g)" for g
    by (simp add: fwdOwned_def)
  then show ?case using Cons by auto
qed simp

lemma closeShells_frame [simp]:
  "sess (closeShells x hs st) = sess st" "fwd (closeShells x hs st) = fwd st" "tbl (closeShells x hs st) = tbl st"
  "nxt (closeShells x hs st) = nxt st" "arrA (closeShells x hs st) = arrA st" "arrJ (closeShells x hs st) = arrJ st"
  "cancelled (closeShells x hs st) = cancelled st" "next_h (st_io (closeShells x hs st)) = next_h (st_io st)"
  by (induction hs arbitrary: st) simp_all

lemma closeShells_shl:
  "shl (closeShells x hs st) =
     (\<lambda>h. if h \<in> set hs \<and> \<not> b_closed (shl st h) then shl st h\<lparr>b_closed := True, b_done := True\<rparr> else shl st h)"
  by (induction hs arbitrary: st) (auto simp: fun_eq_iff)

lemma closeShells_live:
  "live (st_io (closeShells x hs st)) = live (st_io st) - (\<Union>h \<in> set hs. shellOwned st h)"
proof (induction hs arbitrary: st)
  case (Cons h hs)
  have "shellOwned (snd (shellClose x h st)) g = (if g = h then {} else shellOwned st g)" for g
    by (auto simp: shellOwned_def)
  then show ?case using Cons by auto
qed simp

text \<open>Closing a session closes exactly what it holds and leaves the rest of the state alone.\<close>

lemma close_frame:
  "tbl (close x p st) = tbl st" "nxt (close x p st) = nxt st" "next_h (st_io (close x p st)) = next_h (st_io st)"
  "arrA (close x p st) = arrA st" "arrJ (close x p st) = arrJ st"
  "q \<noteq> p \<Longrightarrow> sess (close x p st) q = sess st q"
  by (auto simp: close_def closeBegin_def closeFwdMap_def closeShellMap_def clearClient_def markState_def Let_def)

lemma close_sess:
  assumes "\<not> s_closed (sess st p)"
  shows "sess (close x p st) p = (sess st p)\<lparr>s_closed := True, s_keepalive := None, s_forwards := [], s_shells := [],
    s_sftp := None, s_client := None, s_jumps := [], s_agentConn := None, s_agentOn := False,
    s_state := StateDisconnected\<rparr>"
  using assms
  by (simp add: close_def closeBegin_def closeFwdMap_def closeShellMap_def clearClient_def markState_def Let_def)

lemma close_live:
  assumes "\<not> s_closed (sess st p)"
  shows "live (st_io (close x p st)) = live (st_io st) - owned st p"
  using assms
  by (auto simp: close_def closeBegin_def closeFwdMap_def closeShellMap_def clearClient_def markState_def
      Let_def closeForwards_live closeShells_live owned_def transport_def fwdOwned_def shellOwned_def)

lemma close_heaps:
  assumes "\<not> s_closed (sess st p)"
  shows "fwd (close x p st) = (\<lambda>f. if f \<in> set (gm_vals (s_forwards (sess st p))) then fwd st f\<lparr>f_closed := True\<rparr> else fwd st f)"
    and "shl (close x p st) = (\<lambda>h. if h \<in> set (gm_vals (s_shells (sess st p))) \<and> \<not> b_closed (shl st h)
           then shl st h\<lparr>b_closed := True, b_done := True\<rparr> else shl st h)"
  using assms
  by (simp_all add: close_def closeBegin_def closeFwdMap_def closeShellMap_def clearClient_def markState_def
      Let_def closeForwards_fwd closeShells_shl cong: if_cong)

lemma close_cancels:
  assumes "\<not> s_closed (sess st p)"
  shows "cancelled (close x p st) = cancelled st \<union> set_option (s_keepalive (sess st p))"
  using assms
  by (simp add: close_def closeBegin_def closeFwdMap_def closeShellMap_def clearClient_def markState_def Let_def)

lemma close_twice [simp]: "close x p (close x p st) = close x p st"
proof (cases "s_closed (sess st p)")
  case True
  then show ?thesis by (simp add: close_def)
next
  case False
  then have "s_closed (sess (close x p st) p)" by (simp add: close_sess)
  then show ?thesis by (simp add: close_def [of x p "close x p st"])
qed

end
