(* ===== verification/SshHolds.thy ===== *)
theory SshHolds
  imports SshSession "HOL-Library.Multiset"
begin

text \<open>
  The accounting of open handles on the ssh side.  A session's operation takes handles in its
  hands (\<open>G\<close>), moves them into the session or closes them; \<open>sess_step\<close> says that every
  handle is in exactly one place and that nothing outside the session is touched.  Each
  operation's lemma is a composition of the laws here.
\<close>

definition transportL :: "Session \<Rightarrow> handle list" where
  "transportL S = opt_list (s_client S) @ s_jumps S @ opt_list (s_sftp S) @ opt_list (s_agentConn S)"

definition fwdL :: "'w st \<Rightarrow> ptr \<Rightarrow> handle list" where
  "fwdL st f = (if f_closed (fwd st f) then [] else opt_list (f_listener (fwd st f)))"

definition shellL :: "'w st \<Rightarrow> ptr \<Rightarrow> handle list" where
  "shellL st h = (if b_closed (shl st h) then [] else [sh_chan (shl st h)])"

definition ownedL :: "'w st \<Rightarrow> ptr \<Rightarrow> handle list" where
  "ownedL st p = transportL (sess st p) @ concat (map (fwdL st) (gm_vals (s_forwards (sess st p)))) @
     concat (map (shellL st) (gm_vals (s_shells (sess st p))))"

lemma transportL_upd [simp]:
  "transportL (S\<lparr>s_forwards := m\<rparr>) = transportL S" "transportL (S\<lparr>s_shells := m\<rparr>) = transportL S"
  by (simp_all add: transportL_def)

lemma set_ownedL [simp]: "set (ownedL st p) = owned st p"
proof -
  have "set (fwdL st f) = fwdOwned st f" "set (shellL st h) = shellOwned st h" for f h
    by (simp_all add: fwdL_def fwdOwned_def shellL_def shellOwned_def)
  then show ?thesis by (auto simp: ownedL_def owned_def transport_def transportL_def)
qed

text \<open>The objects a session registers are its own and carry their id.\<close>

definition sess_wf :: "'w st \<Rightarrow> ptr \<Rightarrow> bool" where
  "sess_wf st p \<longleftrightarrow>
     gm_wf (s_forwards (sess st p)) \<and> gm_wf (s_shells (sess st p)) \<and>
     (\<forall>k f. gm_get (s_forwards (sess st p)) k = Some f \<longrightarrow>
        f < nxt st \<and> f_ID (fwd st f) = k \<and> f_session (fwd st f) = p) \<and>
     (\<forall>k h. gm_get (s_shells (sess st p)) k = Some h \<longrightarrow>
        h < nxt st \<and> sh_ID (shl st h) = k \<and> sh_parent (shl st h) = p)"

definition held_ok :: "ptr \<Rightarrow> handle list \<Rightarrow> 'w st \<Rightarrow> bool" where
  "held_ok p G st \<longleftrightarrow>
     io_ok (st_io st) \<and> sess_wf st p \<and> p < nxt st \<and> distinct (ownedL st p @ G) \<and>
     owned st p \<union> set G \<subseteq> live (st_io st)"

definition others_same :: "ptr \<Rightarrow> 'w st \<Rightarrow> 'w st \<Rightarrow> bool" where
  "others_same p st st' \<longleftrightarrow>
     tbl st' = tbl st \<and> nxt st \<le> nxt st' \<and> next_h (st_io st) \<le> next_h (st_io st') \<and>
     (\<forall>q. q \<noteq> p \<longrightarrow> sess st' q = sess st q) \<and>
     s_ID (sess st' p) = s_ID (sess st p) \<and> s_closed (sess st' p) = s_closed (sess st p) \<and>
     (\<forall>f. f < nxt st \<longrightarrow> f_session (fwd st f) \<noteq> p \<longrightarrow> fwd st' f = fwd st f) \<and>
     (\<forall>h. h < nxt st \<longrightarrow> sh_parent (shl st h) \<noteq> p \<longrightarrow> shl st' h = shl st h)"

definition sess_step :: "ptr \<Rightarrow> handle list \<Rightarrow> 'w st \<Rightarrow> handle list \<Rightarrow> 'w st \<Rightarrow> bool" where
  "sess_step p G st G' st' \<longleftrightarrow>
     (held_ok p G st \<longrightarrow>
        held_ok p G' st' \<and> others_same p st st' \<and>
        live (st_io st') - (owned st' p \<union> set G') = live (st_io st) - (owned st p \<union> set G) \<and>
        owned st' p \<union> set G' \<subseteq> owned st p \<union> set G \<union> {h. next_h (st_io st) \<le> h})"

lemma others_same_refl [simp]: "others_same p st st"
  by (simp add: others_same_def)

lemma others_same_trans: "others_same p st st' \<Longrightarrow> others_same p st' st'' \<Longrightarrow> others_same p st st''"
  by (auto simp: others_same_def)

lemma sess_step_refl [simp, intro]: "sess_step p G st G st"
  by (simp add: sess_step_def)

lemma sess_step_trans:
  assumes "sess_step p G st G' st'" and "sess_step p G' st' G'' st''"
  shows "sess_step p G st G'' st''"
  unfolding sess_step_def
proof
  assume ok: "held_ok p G st"
  note a = assms(1) [unfolded sess_step_def, rule_format, OF ok]
  note b = assms(2) [unfolded sess_step_def, rule_format, OF conjunct1 [OF a]]
  have "next_h (st_io st) \<le> next_h (st_io st')" using a by (simp add: others_same_def)
  then have "owned st'' p \<union> set G'' \<subseteq> owned st p \<union> set G \<union> {h. next_h (st_io st) \<le> h}"
    using a b by fastforce
  then show "held_ok p G'' st'' \<and> others_same p st st'' \<and>
      live (st_io st'') - (owned st'' p \<union> set G'') = live (st_io st) - (owned st p \<union> set G) \<and>
      owned st'' p \<union> set G'' \<subseteq> owned st p \<union> set G \<union> {h. next_h (st_io st) \<le> h}"
    using a b others_same_trans by metis
qed

section \<open>The laws\<close>

lemma ownedL_io [simp]: "ownedL (st\<lparr>st_io := w\<rparr>) p = ownedL st p"
  by (simp add: ownedL_def fwdL_def [abs_def] shellL_def [abs_def] cong: if_cong)

lemma owned_io [simp]: "owned (st\<lparr>st_io := w\<rparr>) p = owned st p"
  by (simp flip: set_ownedL)

lemma sess_wf_io [simp]: "sess_wf (st\<lparr>st_io := w\<rparr>) p = sess_wf st p"
  by (simp add: sess_wf_def)

text \<open>Whatever a run of outside calls acquired is then in hand.\<close>

lemma sess_step_acquired:
  assumes "acquired (st_io st) hs w'"
  shows "sess_step p G st (G @ hs) (st\<lparr>st_io := w'\<rparr>)"
  unfolding sess_step_def
proof
  assume ok: "held_ok p G st"
  have new: "h \<notin> live (st_io st)" if "h \<in> set hs" for h
    using ok assms that by (fastforce simp: held_ok_def io_ok_def acquired_def)
  have "held_ok p (G @ hs) (st\<lparr>st_io := w'\<rparr>)"
    using ok assms new acquired_ok [OF _ assms] by (auto simp: held_ok_def acquired_def simp flip: set_ownedL)
  then show "held_ok p (G @ hs) (st\<lparr>st_io := w'\<rparr>) \<and> others_same p st (st\<lparr>st_io := w'\<rparr>) \<and>
      live (st_io (st\<lparr>st_io := w'\<rparr>)) - (owned (st\<lparr>st_io := w'\<rparr>) p \<union> set (G @ hs)) =
        live (st_io st) - (owned st p \<union> set G) \<and>
      owned (st\<lparr>st_io := w'\<rparr>) p \<union> set (G @ hs) \<subseteq> owned st p \<union> set G \<union> {h. next_h (st_io st) \<le> h}"
    using assms new by (auto simp: others_same_def acquired_def)
qed

lemma sess_step_nothing: "acquired (st_io st) [] w' \<Longrightarrow> sess_step p G st G (st\<lparr>st_io := w'\<rparr>)"
  using sess_step_acquired [of st "[]" w' p G] by simp

lemma sess_step_open: "st_call (io_open f) st = (Inr h, st') \<Longrightarrow> sess_step p G st (G @ [h]) st'"
  by (erule st_callE) (auto intro: sess_step_acquired io_open_ok)

lemma sess_step_open_err: "st_call (io_open f) st = (Inl e, st') \<Longrightarrow> sess_step p G st G st'"
  by (erule st_callE) (auto intro: sess_step_nothing io_open_err)

lemma sess_step_call: "st_call (io_call f) st = (a, st') \<Longrightarrow> sess_step p G st G st'"
  by (erule st_callE) (auto intro: sess_step_nothing io_call_acq)

lemma sess_step_call_snd: "sess_step p G st G (snd (st_call (io_call f) st))"
  by (cases "st_call (io_call f) st") (auto intro: sess_step_call)

lemma ownedL_close [simp]: "ownedL (st_close x hs st) p = ownedL st p"
  by (simp add: ownedL_def fwdL_def [abs_def] shellL_def [abs_def] cong: if_cong)

lemma owned_close [simp]: "owned (st_close x hs st) p = owned st p"
  by (simp flip: set_ownedL)

lemma sess_wf_close [simp]: "sess_wf (st_close x hs st) p = sess_wf st p"
  by (simp add: sess_wf_def)

lemma sess_step_close: "sess_step p (hs @ G) st G (st_close x hs st)"
  unfolding sess_step_def
proof
  assume ok: "held_ok p (hs @ G) st"
  have "io_ok (st_io (st_close x hs st))" using ok by (auto simp: held_ok_def io_ok_def)
  moreover have "owned st p \<inter> set hs = {}" using ok by (auto simp: held_ok_def simp flip: set_ownedL)
  moreover have "set G \<inter> set hs = {}" using ok by (auto simp: held_ok_def)
  ultimately show "held_ok p G (st_close x hs st) \<and> others_same p st (st_close x hs st) \<and>
      live (st_io (st_close x hs st)) - (owned (st_close x hs st) p \<union> set G) =
        live (st_io st) - (owned st p \<union> set (hs @ G)) \<and>
      owned (st_close x hs st) p \<union> set G \<subseteq> owned st p \<union> set (hs @ G) \<union> {h. next_h (st_io st) \<le> h}"
    using ok by (auto simp: held_ok_def others_same_def)
qed

text \<open>Handles moved between the hands and the session, with no outside call.\<close>

lemma sess_step_move:
  assumes "st_io st' = st_io st" and "held_ok p G st \<Longrightarrow> others_same p st st' \<and> sess_wf st' p"
    and "held_ok p G st \<Longrightarrow> mset (ownedL st' p @ G') = mset (ownedL st p @ G)"
  shows "sess_step p G st G' st'"
  unfolding sess_step_def
proof
  assume ok: "held_ok p G st"
  have m: "mset (ownedL st' p @ G') = mset (ownedL st p @ G)" by (rule assms(3) [OF ok])
  then have s: "owned st' p \<union> set G' = owned st p \<union> set G"
    using mset_eq_setD [OF m] by simp
  have "distinct (ownedL st' p @ G')"
    using ok mset_eq_imp_distinct_iff [OF m] by (simp add: held_ok_def)
  moreover have "p < nxt st'"
    using ok assms(2) [OF ok] by (auto simp: held_ok_def others_same_def)
  ultimately show "held_ok p G' st' \<and> others_same p st st' \<and>
      live (st_io st') - (owned st' p \<union> set G') = live (st_io st) - (owned st p \<union> set G) \<and>
      owned st' p \<union> set G' \<subseteq> owned st p \<union> set G \<union> {h. next_h (st_io st) \<le> h}"
    using ok assms(1) assms(2) [OF ok] s by (auto simp: held_ok_def)
qed

text \<open>A change of the session record that keeps the registered objects.\<close>

lemma sess_step_updS:
  assumes "s_ID (f (sess st p)) = s_ID (sess st p)" and "s_closed (f (sess st p)) = s_closed (sess st p)"
    and "s_forwards (f (sess st p)) = s_forwards (sess st p)" and "s_shells (f (sess st p)) = s_shells (sess st p)"
    and "mset (transportL (f (sess st p)) @ G') = mset (transportL (sess st p) @ G)"
  shows "sess_step p G st G' (updS p f st)"
proof (rule sess_step_move)
  show "others_same p st (updS p f st) \<and> sess_wf (updS p f st) p" if "held_ok p G st"
    using assms that by (auto simp: others_same_def sess_wf_def held_ok_def)
  have "fwdL (updS p f st) = fwdL st" "shellL (updS p f st) = shellL st"
    by (simp_all add: fwdL_def [abs_def] shellL_def [abs_def] cong: if_cong)
  then show "mset (ownedL (updS p f st) p @ G') = mset (ownedL st p @ G)"
    using assms by (simp add: ownedL_def ac_simps)
qed simp

lemma sess_step_markState: "sess_step p G st G (markState p s e st)"
  unfolding markState_def by (rule sess_step_updS) (auto simp: transportL_def)

lemma sess_step_clearClient: "sess_step p G st G (clearClient x p st)"
proof -
  let ?S = "sess st p"
  let ?hs = "opt_list (s_sftp ?S) @ opt_list (s_client ?S) @ s_jumps ?S @ opt_list (s_agentConn ?S)"
  have "sess_step p G st (?hs @ G) (updS p (\<lambda>S. S\<lparr>s_sftp := None, s_client := None, s_jumps := [],
      s_agentConn := None, s_agentOn := False\<rparr>) st)"
    by (rule sess_step_updS) (simp_all add: transportL_def opt_list_def ac_simps split: option.split)
  then show ?thesis
    unfolding clearClient_def Let_def by (rule sess_step_trans) (rule sess_step_close)
qed

lemma sess_step_setClient:
  assumes "s_client (sess st p) = None" and "s_jumps (sess st p) = []"
    and "setClient x p c jumps addr st = (ok, st')"
  shows "sess_step p (c # jumps @ G) st G st'"
proof (cases "s_closed (sess st p)")
  case True
  then show ?thesis
    using assms(3) sess_step_close [of p "c # jumps" G st x] by (auto simp: setClient_def)
next
  case False
  then have "st' = updS p (\<lambda>S. S\<lparr>s_client := Some c, s_jumps := jumps, s_addr := addr,
      s_state := StateConnected, s_lastError := None, s_connectedAt := x_now x (orc (st_io st))\<rparr>) st"
    using assms(3) by (simp add: setClient_def)
  then show ?thesis
    using assms(1,2) by (auto intro!: sess_step_updS simp: transportL_def opt_list_def)
qed

lemma sess_step_enableAgent:
  assumes "s_agentConn (sess st p) = None" and "s_client (sess st p) \<noteq> None"
    and "enableAgentForwarding x p s st = (r, st')"
  shows "sess_step p G st G st'"
proof (cases "agentSocketOf x (st_io st) s = []")
  case True
  then show ?thesis using assms(3) by (simp add: enableAgentForwarding_def)
next
  case False
  obtain o1 st1 where o: "st_call (io_open (x_dial_unix x (expandTilde x (st_io st) (agentSocketOf x (st_io st) s)))) st = (o1, st1)"
    by fastforce
  show ?thesis
  proof (cases o1)
    case (Inl e)
    then show ?thesis
      using assms(3) False o by (auto simp: enableAgentForwarding_def intro: sess_step_open_err)
  next
    case (Inr conn)
    have same: "sess st1 = sess st" using o by (auto simp: st_call_def split: prod.splits)
    obtain c where c: "s_client (sess st1 p) = Some c" using assms(2) same by auto
    let ?st2 = "updS p (\<lambda>S. S\<lparr>s_agentConn := Some conn, s_agentOn := True\<rparr>) st1"
    obtain r2 st3 where f: "st_call (io_call (x_forward_agent x c conn)) ?st2 = (r2, st3)" by fastforce
    have a: "sess_step p G st (G @ [conn]) st1" using o Inr by (auto intro: sess_step_open)
    have b: "sess_step p (G @ [conn]) st1 G ?st2"
      using assms(1) same by (intro sess_step_updS) (simp_all add: transportL_def opt_list_def)
    have d: "sess_step p G ?st2 G st3" using f by (rule sess_step_call)
    note abd = sess_step_trans [OF a sess_step_trans [OF b d]]
    show ?thesis
    proof (cases r2)
      case None
      then show ?thesis
        using assms(3) False o Inr c f abd by (auto simp: enableAgentForwarding_def Let_def)
    next
      case (Some e)
      have "sess st3 p = sess ?st2 p" using f by (auto simp: st_call_def split: prod.splits)
      then have e1: "sess_step p G st3 (conn # G) (updS p (\<lambda>S. S\<lparr>s_agentConn := None, s_agentOn := False\<rparr>) st3)"
        by (intro sess_step_updS) (simp_all add: transportL_def opt_list_def)
      have swap: "updS p g (st_close x [conn] st3) = st_close x [conn] (updS p g st3)" for g
        by (simp add: updS_def st_close_def)
      show ?thesis
        using assms(3) False o Inr c f Some sess_step_trans [OF abd sess_step_trans [OF e1
            sess_step_close [of p "[conn]" G _ x, simplified]]]
        by (auto simp: enableAgentForwarding_def Let_def swap)
    qed
  qed
qed

section \<open>A concrete state\<close>

text \<open>One connected session \<open>a\<close>, whose client is handle 0.\<close>

definition demo_session :: "string \<Rightarrow> Session" where
  "demo_session k = \<lparr>s_ID = k,
     s_Spec = \<lparr>User = ''me'', Addresses = Some 0, JumpHosts = None, Auth = emptyAuth\<lparr>Password := ''pw''\<rparr>,
       KnownHostsPath = [], Insecure = True, Timeout = 0, Keepalive = 0, AutoReconnect = False,
       Persistent = True, ForwardAgent = False, DisableSSHConfig = True\<rparr>,
     s_client = Some 0, s_jumps = [], s_addr = ''lan:22'', s_state = StateConnected, s_lastError = None,
     s_connectedAt = 0, s_forwards = [], s_shells = [], s_sftp = None, s_agentOn = False,
     s_agentConn = None, s_keepalive = None, s_reconnecting = False, s_closed = False\<rparr>"

definition demo_st :: "nat st" where
  "demo_st = \<lparr>st_io = \<lparr>orc = 0, next_h = 1, live = {0}\<rparr>, tbl = [(''a'', 0)], sess = (\<lambda>p. demo_session ''a''),
     fwd = (\<lambda>f. \<lparr>f_ID = [], f_SessionID = [], f_spec = FDynamic \<lparr>ds_BindAddr = [], ds_BindPort = 0\<rparr>, f_session = 0,
       f_listener = None, f_bindPort = 0, f_closed = True, f_conns = 0\<rparr>),
     shl = (\<lambda>h. \<lparr>b_data = [], b_max = 0, b_wake = False, b_closed = True, b_done = True,
       sh_ID = [], sh_SessionID = [], sh_parent = 0, sh_chan = 0, sh_OpenedAt = 0\<rparr>),
     arrA = (\<lambda>a. [''lan'']), arrJ = (\<lambda>a. []), nxt = 1, cancelled = {}\<rparr>"

lemma demo_st_ok: "held_ok 0 [] demo_st"
  by (simp add: held_ok_def demo_st_def io_ok_def sess_wf_def demo_session_def ownedL_def owned_def
      transportL_def transport_def opt_list_def gm_vals_def)

end
