(* ===== verification/SshForward.thy ===== *)
theory SshForward
  imports SshHolds
begin

text \<open>
  \<open>internal/sshx/forward.go\<close> without the SOCKS protocol: opening, registering, listing,
  closing and rebinding forwards, and what each accepted connection does.  \<open>Get\<close> is the
  manager's lookup, which the operations start with.
\<close>

definition Get :: "'w st \<Rightarrow> string \<Rightarrow> ptr res" where
  "Get st sid =
     (case gm_get (tbl st) sid of
        None \<Rightarrow> Inl (Errorf ''ssh session %q not found'' [sid])
      | Some p \<Rightarrow> Inr p)"

record ForwardInfo =
  fi_ID :: string
  fi_SessionID :: string
  fi_Kind :: ForwardKind
  fi_BindAddr :: string
  fi_BindPort :: int
  fi_RemoteAddr :: string
  fi_RemotePort :: int
  fi_Connections :: int
  fi_LocalSpec :: "LocalSpec option"
  fi_RemoteSpec :: "RemoteSpec option"
  fi_DynamicSpec :: "DynamicSpec option"

definition fwdInfo :: "Forward \<Rightarrow> ForwardInfo" where
  "fwdInfo F =
     (let info = \<lparr>fi_ID = f_ID F, fi_SessionID = f_SessionID F, fi_Kind = fwdKind (f_spec F), fi_BindAddr = [],
          fi_BindPort = 0, fi_RemoteAddr = [], fi_RemotePort = 0, fi_Connections = f_conns F,
          fi_LocalSpec = None, fi_RemoteSpec = None, fi_DynamicSpec = None\<rparr>
      in case f_spec F of
           FLocal s \<Rightarrow> info\<lparr>fi_BindAddr := ls_BindAddr s, fi_BindPort := f_bindPort F,
             fi_RemoteAddr := ls_RemoteHost s, fi_RemotePort := ls_RemotePort s, fi_LocalSpec := Some s\<rparr>
         | FRemote s \<Rightarrow> info\<lparr>fi_BindAddr := rs_BindAddr s, fi_BindPort := f_bindPort F,
             fi_RemoteAddr := rs_LocalHost s, fi_RemotePort := rs_LocalPort s, fi_RemoteSpec := Some s\<rparr>
         | FDynamic s \<Rightarrow> info\<lparr>fi_BindAddr := ds_BindAddr s, fi_BindPort := f_bindPort F, fi_DynamicSpec := Some s\<rparr>)"

section \<open>Opening\<close>

definition registerForward :: "ptr \<Rightarrow> ptr \<Rightarrow> 'w st \<Rightarrow> goerr option \<times> 'w st" where
  "registerForward p f st =
     (if s_closed (sess st p) then (Some (Errorf ''session %q is closed'' [s_ID (sess st p)]), st)
      else if gm_get (s_forwards (sess st p)) (f_ID (fwd st f)) \<noteq> None then
        (Some (Errorf ''forward %q already exists on session %q'' [f_ID (fwd st f), s_ID (sess st p)]), st)
      else (None, updS p (\<lambda>S. S\<lparr>s_forwards := gm_put (f_ID (fwd st f)) f (s_forwards S)\<rparr>) st))"

text \<open>The listener's port; a listener of \<open>net.Listen("tcp", ...)\<close> always has one.\<close>

definition boundPort :: "'w ext \<Rightarrow> handle \<Rightarrow> int \<Rightarrow> 'w st \<Rightarrow> int" where
  "boundPort x ln dflt st = (case x_bound_port x ln (orc (st_io st)) of Some p \<Rightarrow> p | None \<Rightarrow> dflt)"

definition newForward :: "Forward \<Rightarrow> 'w st \<Rightarrow> ptr \<times> 'w st" where
  "newForward F st = (nxt st, st\<lparr>fwd := (fwd st)(nxt st := F), nxt := Suc (nxt st)\<rparr>)"

text \<open>The common end of the three openers: the \<open>Forward\<close> is made and registered.\<close>

definition installForward ::
    "'w ext \<Rightarrow> ptr \<Rightarrow> string \<Rightarrow> string \<Rightarrow> fwd_spec \<Rightarrow> handle \<Rightarrow> int \<Rightarrow> 'w st \<Rightarrow> ptr res \<times> 'w st" where
  "installForward x p sessionID forwardID spec ln dflt st =
     (let (f, st) = newForward \<lparr>f_ID = forwardID, f_SessionID = sessionID, f_spec = spec, f_session = p,
            f_listener = Some ln, f_bindPort = boundPort x ln dflt st, f_closed = False, f_conns = 0\<rparr> st
      in case registerForward p f st of
           (Some e, st) \<Rightarrow> (Inl e, st_close x [ln] st)
         | (None, st) \<Rightarrow> (Inr f, st))"

definition loopback :: "string \<Rightarrow> string" where
  "loopback a = (if a = [] then ''127.0.0.1'' else a)"

definition OpenLocalForward ::
    "'w ext \<Rightarrow> string \<Rightarrow> string \<Rightarrow> LocalSpec \<Rightarrow> 'w st \<Rightarrow> ptr res \<times> 'w st" where
  "OpenLocalForward x sessionID forwardID spec0 st =
     (case Get st sessionID of
        Inl e \<Rightarrow> (Inl e, st)
      | Inr p \<Rightarrow>
          (case getClient st p of
             Inl e \<Rightarrow> (Inl e, st)
           | Inr _ \<Rightarrow>
               (let spec = spec0\<lparr>ls_BindAddr := loopback (ls_BindAddr spec0)\<rparr> in
                if ls_RemoteHost spec = [] then (Inl (Errorf ''remote_host is required for local forward'' []), st)
                else (case st_call (io_open (x_listen x (joinHostPort (ls_BindAddr spec) (itoa (ls_BindPort spec))))) st of
                        (Inl e, st) \<Rightarrow> (Inl (Wrapf ''listen %s:%d: %w'' [ls_BindAddr spec, itoa (ls_BindPort spec)] e), st)
                      | (Inr ln, st) \<Rightarrow> installForward x p sessionID forwardID (FLocal spec) ln 0 st))))"

definition OpenRemoteForward ::
    "'w ext \<Rightarrow> string \<Rightarrow> string \<Rightarrow> RemoteSpec \<Rightarrow> 'w st \<Rightarrow> ptr res \<times> 'w st" where
  "OpenRemoteForward x sessionID forwardID spec0 st =
     (case Get st sessionID of
        Inl e \<Rightarrow> (Inl e, st)
      | Inr p \<Rightarrow>
          (case getClient st p of
             Inl e \<Rightarrow> (Inl e, st)
           | Inr client \<Rightarrow>
               (let spec = spec0\<lparr>rs_BindAddr := loopback (rs_BindAddr spec0), rs_LocalHost := loopback (rs_LocalHost spec0)\<rparr> in
                case st_call (io_open (x_remote_listen x client (joinHostPort (rs_BindAddr spec) (itoa (rs_BindPort spec))))) st of
                  (Inl e, st) \<Rightarrow> (Inl (Wrapf ''remote listen %s:%d: %w'' [rs_BindAddr spec, itoa (rs_BindPort spec)] e), st)
                | (Inr ln, st) \<Rightarrow> installForward x p sessionID forwardID (FRemote spec) ln (rs_BindPort spec) st)))"

definition OpenDynamicForward ::
    "'w ext \<Rightarrow> string \<Rightarrow> string \<Rightarrow> DynamicSpec \<Rightarrow> 'w st \<Rightarrow> ptr res \<times> 'w st" where
  "OpenDynamicForward x sessionID forwardID spec0 st =
     (case Get st sessionID of
        Inl e \<Rightarrow> (Inl e, st)
      | Inr p \<Rightarrow>
          (case getClient st p of
             Inl e \<Rightarrow> (Inl e, st)
           | Inr _ \<Rightarrow>
               (let spec = spec0\<lparr>ds_BindAddr := loopback (ds_BindAddr spec0)\<rparr> in
                case st_call (io_open (x_listen x (joinHostPort (ds_BindAddr spec) (itoa (ds_BindPort spec))))) st of
                  (Inl e, st) \<Rightarrow> (Inl (Wrapf ''listen %s:%d: %w'' [ds_BindAddr spec, itoa (ds_BindPort spec)] e), st)
                | (Inr ln, st) \<Rightarrow> installForward x p sessionID forwardID (FDynamic spec) ln 0 st)))"

section \<open>Closing and listing\<close>

definition removeForward :: "'w ext \<Rightarrow> ptr \<Rightarrow> string \<Rightarrow> string \<Rightarrow> 'w st \<Rightarrow> (goerr option \<times> 'w st) res" where
  "removeForward x p sessionID forwardID st =
     (case gm_get (s_forwards (sess st p)) forwardID of
        None \<Rightarrow> Inl (Errorf ''forward %q not found on session %q'' [forwardID, sessionID])
      | Some f \<Rightarrow> Inr (fwdClose x f (updS p (\<lambda>S. S\<lparr>s_forwards := gm_del forwardID (s_forwards S)\<rparr>) st)))"

definition CloseForward :: "'w ext \<Rightarrow> string \<Rightarrow> string \<Rightarrow> 'w st \<Rightarrow> goerr option \<times> 'w st" where
  "CloseForward x sessionID forwardID st =
     (case Get st sessionID of
        Inl e \<Rightarrow> (Some e, st)
      | Inr p \<Rightarrow>
          (case removeForward x p sessionID forwardID st of
             Inl e \<Rightarrow> (Some e, st)
           | Inr r \<Rightarrow> r))"

definition forwardsOf :: "'w st \<Rightarrow> ptr \<Rightarrow> ForwardInfo list" where
  "forwardsOf st p = map (\<lambda>f. fwdInfo (fwd st f)) (gm_vals (s_forwards (sess st p)))"

definition ListForwards :: "'w st \<Rightarrow> string \<Rightarrow> ForwardInfo list res" where
  "ListForwards st sessionID =
     (if sessionID = [] then Inr (concat (map (forwardsOf st) (gm_vals (tbl st))))
      else (case Get st sessionID of
              Inl e \<Rightarrow> Inl e
            | Inr p \<Rightarrow> Inr (forwardsOf st p)))"

section \<open>Rebinding after a reconnect\<close>

text \<open>The part under \<open>bindMu\<close>: the new listener is swapped in unless the forward was closed.\<close>

definition swapListener :: "'w ext \<Rightarrow> ptr \<Rightarrow> handle \<Rightarrow> 'w st \<Rightarrow> 'w st" where
  "swapListener x f ln st =
     (if f_closed (fwd st f) then st_close x [ln] st
      else st_close x (opt_list (f_listener (fwd st f)))
             (updF f (\<lambda>F. F\<lparr>f_listener := Some ln, f_bindPort := boundPort x ln (f_bindPort F) st\<rparr>) st))"

definition rebindOne :: "'w ext \<Rightarrow> ptr \<Rightarrow> ptr \<Rightarrow> 'w st \<Rightarrow> 'w st" where
  "rebindOne x p f st =
     (case f_spec (fwd st f) of
        FRemote spec \<Rightarrow>
          (if f_closed (fwd st f) then st
           else (case getClient st p of
                   Inl _ \<Rightarrow> st
                 | Inr client \<Rightarrow>
                     (case st_call (io_open (x_remote_listen x client (joinHostPort (rs_BindAddr spec) (itoa (rs_BindPort spec))))) st of
                        (Inl _, st) \<Rightarrow> st
                      | (Inr ln, st) \<Rightarrow> swapListener x f ln st)))
      | _ \<Rightarrow> st)"

fun rebindAll :: "'w ext \<Rightarrow> ptr \<Rightarrow> ptr list \<Rightarrow> 'w st \<Rightarrow> 'w st" where
  "rebindAll x p [] st = st"
| "rebindAll x p (f # fs) st = rebindAll x p fs (rebindOne x p f st)"

definition rebindForwards :: "'w ext \<Rightarrow> ptr \<Rightarrow> 'w st \<Rightarrow> 'w st" where
  "rebindForwards x p st = rebindAll x p (gm_vals (s_forwards (sess st p))) st"

section \<open>Accepted connections\<close>

definition halfClose :: "'w ext \<Rightarrow> handle \<Rightarrow> 'w st \<Rightarrow> 'w st" where
  "halfClose x c st =
     (case st_call (io_call (x_close_write x c)) st of
        (Some _, st) \<Rightarrow> st
      | (None, st) \<Rightarrow> st_close x [c] st)"

text \<open>\<open>pipe\<close>: the two copies run in parallel in Go; here one runs after the other.\<close>

definition pipe :: "'w ext \<Rightarrow> handle \<Rightarrow> handle \<Rightarrow> 'w st \<Rightarrow> 'w st" where
  "pipe x a b st =
     (let st = halfClose x a (snd (st_call (io_call (x_copy x a b)) st))
      in halfClose x b (snd (st_call (io_call (x_copy x b a)) st)))"

definition localConn :: "'w ext \<Rightarrow> ptr \<Rightarrow> LocalSpec \<Rightarrow> handle \<Rightarrow> 'w st \<Rightarrow> 'w st" where
  "localConn x f spec c st0 =
     (let st = updF f (\<lambda>F. F\<lparr>f_conns := f_conns F + 1\<rparr>) st0 in
      case getClient st (f_session (fwd st f)) of
        Inl _ \<Rightarrow> st_close x [c] st
      | Inr client \<Rightarrow>
          (case st_call (io_open (x_dial_ctx x client (joinHostPort (ls_RemoteHost spec) (itoa (ls_RemotePort spec))))) st of
             (Inl _, st) \<Rightarrow> st_close x [c] st
           | (Inr remote, st) \<Rightarrow> st_close x [remote, c] (pipe x c remote st)))"

definition remoteConn :: "'w ext \<Rightarrow> ptr \<Rightarrow> RemoteSpec \<Rightarrow> handle \<Rightarrow> 'w st \<Rightarrow> 'w st" where
  "remoteConn x f spec c st0 =
     (let st = updF f (\<lambda>F. F\<lparr>f_conns := f_conns F + 1\<rparr>) st0 in
      case st_call (io_open (x_dial_tcp x (joinHostPort (rs_LocalHost spec) (itoa (rs_LocalPort spec))))) st of
        (Inl _, st) \<Rightarrow> st_close x [c] st
      | (Inr local, st) \<Rightarrow> st_close x [local, c] (pipe x c local st))"

section \<open>Accounting\<close>

lemma sess_wf_fwd_mem:
  assumes "sess_wf st p" and "f \<in> set (gm_vals (s_forwards (sess st p)))"
  shows "f < nxt st" "f_session (fwd st f) = p" "gm_get (s_forwards (sess st p)) (f_ID (fwd st f)) = Some f"
  using assms by (auto simp: sess_wf_def gm_vals_iff)

lemma sess_wf_fwd_distinct: "sess_wf st p \<Longrightarrow> distinct (gm_vals (s_forwards (sess st p)))"
  unfolding gm_vals_def distinct_map sess_wf_def
  by (auto simp: gm_mem_get gm_wf_def distinct_map intro!: inj_onI) metis+

lemma gm_vals_put_new: "gm_get m k = None \<Longrightarrow> gm_vals (gm_put k v m) = gm_vals m @ [v]"
  by (induction m) (auto simp: gm_vals_def gm_put_def gm_get_def split: if_splits)

lemma gm_vals_del: "gm_wf m \<Longrightarrow> gm_get m k = Some v \<Longrightarrow> mset (gm_vals m) = add_mset v (mset (gm_vals (gm_del k m)))"
proof (induction m)
  case (Cons a m)
  obtain k0 v0 where a: "a = (k0, v0)" by fastforce
  show ?case
  proof (cases "k0 = k")
    case True
    then have "gm_get m k = None" using Cons.prems(1) a by (simp add: gm_wf_def gm_get_def map_of_eq_None_iff)
    then have "gm_del k (a # m) = m"
      using gm_del_absent [of m k] True a by (simp add: gm_del_def)
    then show ?thesis using Cons.prems(2) True a by (simp add: gm_vals_def gm_get_def)
  next
    case False
    then show ?thesis
      using Cons a by (simp add: gm_vals_def gm_del_def gm_wf_def gm_get_def)
  qed
qed (simp add: gm_get_def)

lemma concat_map_swap:
  assumes "distinct xs" and "f \<in> set xs" and "\<And>g. g \<in> set xs \<Longrightarrow> g \<noteq> f \<Longrightarrow> h' g = h g"
  shows "mset (concat (map h' xs)) + mset (h f) = mset (concat (map h xs)) + mset (h' f)"
  using assms
proof (induction xs)
  case (Cons a xs)
  show ?case
  proof (cases "a = f")
    case True
    then have e: "concat (map h' xs) = concat (map h xs)"
      using Cons.prems by (intro arg_cong [where f = concat] map_cong) auto
    show ?thesis using True by (simp add: e)
  next
    case False
    then show ?thesis using Cons by (auto simp: ac_simps)
  qed
qed simp

lemma fwdL_upd [simp]: "fwdL (updS p g st) = fwdL st" "shellL (updS p g st) = shellL st" "shellL (updF f k st) = shellL st"
  by (simp_all add: fwdL_def [abs_def] shellL_def [abs_def] cong: if_cong)

lemma sess_step_newForward:
  assumes "newForward F st = (f, st')"
  shows "sess_step p G st G st'"
proof (rule sess_step_move)
  have st': "st' = st\<lparr>fwd := (fwd st)(nxt st := F), nxt := Suc (nxt st)\<rparr>"
    using assms by (auto simp: newForward_def)
  then show "st_io st' = st_io st" by simp
  have e: "f \<in> set (gm_vals (s_forwards (sess st p))) \<Longrightarrow> f \<noteq> nxt st" if "sess_wf st p" for f
    using sess_wf_fwd_mem(1) [OF that] by fastforce
  show "others_same p st st' \<and> sess_wf st' p" if "held_ok p G st"
    using that by (auto simp: st' held_ok_def others_same_def sess_wf_def intro: less_SucI)
  have "concat (map (fwdL st') (gm_vals (s_forwards (sess st p)))) = concat (map (fwdL st) (gm_vals (s_forwards (sess st p))))"
    if "sess_wf st p"
    using e [OF that] by (intro arg_cong [where f = concat] map_cong) (auto simp: st' fwdL_def)
  then show "mset (ownedL st' p @ G) = mset (ownedL st p @ G)" if "held_ok p G st"
    using that by (simp add: ownedL_def held_ok_def) (simp add: st' shellL_def [abs_def] cong: if_cong)
qed

lemma sess_step_register:
  assumes "registerForward p f st = (None, st')" and "f < nxt st" and "f_session (fwd st f) = p"
  shows "sess_step p (G @ fwdL st f) st G st'"
proof (rule sess_step_move)
  have st': "st' = updS p (\<lambda>S. S\<lparr>s_forwards := gm_put (f_ID (fwd st f)) f (s_forwards S)\<rparr>) st"
    and new: "gm_get (s_forwards (sess st p)) (f_ID (fwd st f)) = None"
    using assms(1) by (auto simp: registerForward_def split: if_splits)
  then show "st_io st' = st_io st" by simp
  show "others_same p st st' \<and> sess_wf st' p" if "held_ok p (G @ fwdL st f) st"
    using that assms new by (auto simp: st' held_ok_def others_same_def sess_wf_def)
  show "mset (ownedL st' p @ G) = mset (ownedL st p @ G @ fwdL st f)"
    by (simp add: st' ownedL_def gm_vals_put_new [OF new] ac_simps)
qed

lemma sess_step_installForward:
  assumes "installForward x p sid fid spec ln d st = (r, st')"
  shows "sess_step p (G @ [ln]) st G st'"
proof -
  obtain f st1 where n: "newForward \<lparr>f_ID = fid, f_SessionID = sid, f_spec = spec, f_session = p,
      f_listener = Some ln, f_bindPort = boundPort x ln d st, f_closed = False, f_conns = 0\<rparr> st = (f, st1)"
    by fastforce
  then have f: "f < nxt st1" "f_session (fwd st1 f) = p" "fwdL st1 f = [ln]"
    by (auto simp: newForward_def fwdL_def opt_list_def)
  obtain e st2 where r: "registerForward p f st1 = (e, st2)" by fastforce
  note a = sess_step_newForward [OF n, of p "G @ [ln]"]
  show ?thesis
  proof (cases e)
    case None
    then have "sess_step p (G @ [ln]) st1 G st2" using r f sess_step_register by metis
    with sess_step_trans [OF a this] show ?thesis
      using assms n r None by (simp add: installForward_def)
  next
    case (Some err)
    then have "st2 = st1" using r by (auto simp: registerForward_def split: if_splits)
    moreover have "sess_step p (G @ [ln]) st1 ([ln] @ G) st1"
      by (rule sess_step_move) (auto simp: held_ok_def)
    ultimately show ?thesis
      using assms n r Some sess_step_trans [OF sess_step_trans [OF a] sess_step_close]
      by (auto simp: installForward_def)
  qed
qed

lemma sess_step_fwdClose:
  assumes "f \<notin> set (gm_vals (s_forwards (sess st p)))" and "f_session (fwd st f) = p"
  shows "sess_step p (fwdL st f @ G) st G (snd (fwdClose x f st))"
proof -
  let ?st1 = "updF f (\<lambda>F. F\<lparr>f_closed := True\<rparr>) st"
  have eq: "snd (fwdClose x f st) = (if f_closed (fwd st f) then st else st_close x (fwdL st f) ?st1)"
    by (auto simp: fwdClose_def fwdL_def opt_list_def st_call_def st_close_def io_close_def updF_def
        split: option.split prod.split)
  have "sess_step p (fwdL st f @ G) st (fwdL st f @ G) ?st1"
  proof (rule sess_step_move)
    show "others_same p st ?st1 \<and> sess_wf ?st1 p" if "held_ok p (fwdL st f @ G) st"
      using that assms by (auto simp: held_ok_def others_same_def sess_wf_def)
    have "concat (map (fwdL ?st1) (gm_vals (s_forwards (sess st p)))) = concat (map (fwdL st) (gm_vals (s_forwards (sess st p))))"
      using assms(1) by (intro arg_cong [where f = concat] map_cong) (auto simp: fwdL_def)
    then show "mset (ownedL ?st1 p @ fwdL st f @ G) = mset (ownedL st p @ fwdL st f @ G)"
      by (simp add: ownedL_def)
  qed simp
  from sess_step_trans [OF this sess_step_close] show ?thesis
    by (cases "f_closed (fwd st f)") (simp_all add: eq, simp add: fwdL_def)
qed

lemma sess_step_drop:
  assumes "gm_get (s_forwards (sess st p)) k = Some f"
  shows "sess_step p G st (fwdL st f @ G) (updS p (\<lambda>S. S\<lparr>s_forwards := gm_del k (s_forwards S)\<rparr>) st)"
    (is "sess_step p G st _ ?st1")
proof (rule sess_step_move)
  assume ok: "held_ok p G st"
  then have wf: "gm_wf (s_forwards (sess st p))" by (simp add: held_ok_def sess_wf_def)
  show "others_same p st ?st1 \<and> sess_wf ?st1 p"
    using ok wf by (auto simp: held_ok_def others_same_def sess_wf_def split: if_splits)
  have "mset (concat (map h (gm_vals (s_forwards (sess st p))))) =
      mset (h f) + mset (concat (map h (gm_vals (gm_del k (s_forwards (sess st p))))))" for h :: "ptr \<Rightarrow> handle list"
    using gm_vals_del [OF wf assms] by (simp add: mset_concat flip: sum_mset_sum_list)
  then show "mset (ownedL ?st1 p @ fwdL st f @ G) = mset (ownedL st p @ G)"
    by (simp add: ownedL_def ac_simps)
qed simp

lemma sess_step_CloseForward:
  assumes "Get st sid = Inr p" and "CloseForward x sid k st = (r, st')"
  shows "sess_step p [] st [] st'"
proof (cases "gm_get (s_forwards (sess st p)) k")
  case None
  then show ?thesis using assms by (auto simp: CloseForward_def removeForward_def)
next
  case (Some f)
  let ?st1 = "updS p (\<lambda>S. S\<lparr>s_forwards := gm_del k (s_forwards S)\<rparr>) st"
  have st': "st' = snd (fwdClose x f ?st1)"
    using assms Some by (simp add: CloseForward_def removeForward_def)
  show ?thesis
  proof (cases "sess_wf st p")
    case True
    have p: "f_session (fwd st f) = p" "f_ID (fwd st f) = k"
      using True Some by (auto simp: sess_wf_def)
    have "f \<notin> set (gm_vals (s_forwards (sess ?st1 p)))"
      using True p by (auto simp: sess_wf_def gm_vals_iff split: if_splits)
    then have "sess_step p (fwdL st f @ []) ?st1 [] (snd (fwdClose x f ?st1))"
      using sess_step_fwdClose [of f ?st1 p "[]" x] p by simp
    with sess_step_trans [OF sess_step_drop [OF Some, of "[]"] this] show ?thesis by (simp add: st')
  qed (simp add: sess_step_def held_ok_def)
qed

lemma sess_step_listen:
  assumes "(case st_call (io_open q) st of
      (Inl e, st) \<Rightarrow> (Inl (er e), st) | (Inr ln, st) \<Rightarrow> installForward x p sid fid spec ln d st) = (r, st')"
  shows "sess_step p G st G st'"
proof -
  obtain o1 st1 where o: "st_call (io_open q) st = (o1, st1)" by fastforce
  show ?thesis
  proof (cases o1)
    case (Inl e)
    then show ?thesis using assms o by (auto intro: sess_step_open_err)
  next
    case (Inr ln)
    then have "installForward x p sid fid spec ln d st1 = (r, st')" using assms o by simp
    from sess_step_trans [OF sess_step_open sess_step_installForward [OF this]] o Inr show ?thesis by blast
  qed
qed

lemma sess_step_OpenLocal:
  assumes a: "Get st sid = Inr p" and o: "OpenLocalForward x sid fid ls st = (r, st')"
  shows "sess_step p G st G st'"
proof (cases "getClient st p")
  case (Inl e)
  then show ?thesis using o by (simp add: OpenLocalForward_def a)
next
  case (Inr c)
  show ?thesis
  proof (cases "ls_RemoteHost ls = []")
    case True
    then show ?thesis using o Inr by (simp add: OpenLocalForward_def a)
  next
    case False
    then have h: "(ls_RemoteHost (ls\<lparr>ls_BindAddr := loopback (ls_BindAddr ls)\<rparr>) = []) = False" by simp
    show ?thesis
      by (rule sess_step_listen [OF o [unfolded OpenLocalForward_def a sum.case Inr Let_def h if_False]])
  qed
qed

lemma sess_step_OpenRemote:
  assumes a: "Get st sid = Inr p" and o: "OpenRemoteForward x sid fid rs st = (r, st')"
  shows "sess_step p G st G st'"
proof (cases "getClient st p")
  case (Inl e)
  then show ?thesis using o by (simp add: OpenRemoteForward_def a)
next
  case (Inr c)
  show ?thesis
    by (rule sess_step_listen [OF o [unfolded OpenRemoteForward_def a sum.case Inr Let_def]])
qed

lemma sess_step_OpenDynamic:
  assumes a: "Get st sid = Inr p" and o: "OpenDynamicForward x sid fid ds st = (r, st')"
  shows "sess_step p G st G st'"
proof (cases "getClient st p")
  case (Inl e)
  then show ?thesis using o by (simp add: OpenDynamicForward_def a)
next
  case (Inr c)
  show ?thesis
    by (rule sess_step_listen [OF o [unfolded OpenDynamicForward_def a sum.case Inr Let_def]])
qed

text \<open>A session that is not there is reported and nothing happens.\<close>

lemma openForward_no_session:
  "Get st sid = Inl e \<Longrightarrow> OpenLocalForward x sid fid ls st = (Inl e, st)"
  "Get st sid = Inl e \<Longrightarrow> OpenRemoteForward x sid fid rs st = (Inl e, st)"
  "Get st sid = Inl e \<Longrightarrow> OpenDynamicForward x sid fid ds st = (Inl e, st)"
  by (simp_all add: OpenLocalForward_def OpenRemoteForward_def OpenDynamicForward_def)

lemma sess_wf_updF:
  assumes "f_ID (k (fwd st f)) = f_ID (fwd st f)" and "f_session (k (fwd st f)) = f_session (fwd st f)"
  shows "sess_wf (updF f k st) p = sess_wf st p"
proof -
  have "f_ID (fwd (updF f k st) g) = f_ID (fwd st g)" "f_session (fwd (updF f k st) g) = f_session (fwd st g)" for g
    using assms by simp_all
  then show ?thesis by (simp only: sess_wf_def upd_simps)
qed

lemma sess_step_swap:
  assumes "f \<in> set (gm_vals (s_forwards (sess st p)))"
  shows "sess_step p (G @ [ln]) st G (swapListener x f ln st)"
proof (cases "f_closed (fwd st f)")
  case True
  have "sess_step p (G @ [ln]) st ([ln] @ G) st"
    by (rule sess_step_move) (auto simp: held_ok_def)
  from sess_step_trans [OF this sess_step_close] show ?thesis using True by (simp add: swapListener_def)
next
  case False
  let ?st1 = "updF f (\<lambda>F. F\<lparr>f_listener := Some ln, f_bindPort := boundPort x ln (f_bindPort F) st\<rparr>) st"
  have "sess_step p (G @ [ln]) st (fwdL st f @ G) ?st1"
  proof (rule sess_step_move)
    assume ok: "held_ok p (G @ [ln]) st"
    then have wf: "sess_wf st p" by (simp add: held_ok_def)
    show "others_same p st ?st1 \<and> sess_wf ?st1 p"
      using wf sess_wf_fwd_mem(2) [OF wf assms] by (auto simp: others_same_def sess_wf_updF)
    have "mset (concat (map (fwdL ?st1) (gm_vals (s_forwards (sess st p))))) + mset (fwdL st f) =
        mset (concat (map (fwdL st) (gm_vals (s_forwards (sess st p))))) + mset (fwdL ?st1 f)"
      by (rule concat_map_swap [OF sess_wf_fwd_distinct [OF wf] assms]) (simp add: fwdL_def)
    moreover have "fwdL ?st1 f = [ln]" using False by (simp add: fwdL_def opt_list_def)
    ultimately show "mset (ownedL ?st1 p @ fwdL st f @ G) = mset (ownedL st p @ G @ [ln])"
      by (simp add: ownedL_def ac_simps)
  qed simp
  from sess_step_trans [OF this sess_step_close] False show ?thesis
    by (simp add: swapListener_def fwdL_def)
qed

lemma st_call_frame:
  assumes "st_call f st = (r, st')"
  shows "sess st' = sess st" "fwd st' = fwd st" "shl st' = shl st" "tbl st' = tbl st" "nxt st' = nxt st"
    "arrA st' = arrA st" "arrJ st' = arrJ st" "cancelled st' = cancelled st"
  using assms by (auto elim: st_callE)

lemma swapListener_frame [simp]:
  "sess (swapListener x f ln st) = sess st" "tbl (swapListener x f ln st) = tbl st" "shl (swapListener x f ln st) = shl st"
  by (simp_all add: swapListener_def)

lemma rebindOne_frame [simp]:
  "sess (rebindOne x p f st) = sess st" "tbl (rebindOne x p f st) = tbl st"
  by (auto simp: rebindOne_def split: fwd_spec.splits sum.splits prod.splits dest: st_call_frame)

lemma sess_step_rebindOne:
  assumes "f \<in> set (gm_vals (s_forwards (sess st p)))"
  shows "sess_step p G st G (rebindOne x p f st)"
proof (cases "\<exists>spec c. f_spec (fwd st f) = FRemote spec \<and> \<not> f_closed (fwd st f) \<and> getClient st p = Inr c")
  case False
  then have "rebindOne x p f st = st" by (auto simp: rebindOne_def split: fwd_spec.splits sum.splits)
  then show ?thesis by simp
next
  case True
  then obtain spec c where c: "f_spec (fwd st f) = FRemote spec" "\<not> f_closed (fwd st f)" "getClient st p = Inr c"
    by blast
  obtain o1 st1 where o: "st_call (io_open (x_remote_listen x c (joinHostPort (rs_BindAddr spec) (itoa (rs_BindPort spec))))) st = (o1, st1)"
    by fastforce
  show ?thesis
  proof (cases o1)
    case (Inl e)
    then show ?thesis using c o sess_step_open_err by (simp add: rebindOne_def)
  next
    case (Inr ln)
    have "f \<in> set (gm_vals (s_forwards (sess st1 p)))" using assms st_call_frame(1) [OF o] by simp
    from sess_step_trans [OF sess_step_open sess_step_swap [OF this]] o Inr
    have "sess_step p G st G (swapListener x f ln st1)" by blast
    then show ?thesis using c o Inr by (simp add: rebindOne_def)
  qed
qed

lemma sess_step_rebindAll:
  "set fs \<subseteq> set (gm_vals (s_forwards (sess st p))) \<Longrightarrow> sess_step p G st G (rebindAll x p fs st)"
proof (induction fs arbitrary: st)
  case (Cons f fs)
  then show ?case using sess_step_trans [OF sess_step_rebindOne Cons.IH] by simp
qed simp

lemma sess_step_rebind: "sess_step p G st G (rebindForwards x p st)"
  unfolding rebindForwards_def by (rule sess_step_rebindAll) simp

lemma rebindAll_sess [simp]: "sess (rebindAll x p fs st) = sess st" "tbl (rebindAll x p fs st) = tbl st"
  by (induction fs arbitrary: st) simp_all

section \<open>What the operations do\<close>

lemma OpenLocalE:
  assumes "OpenLocalForward x sid fid spec st = (Inr f, st')"
  obtains p ln st1 st2 where "gm_get (tbl st) sid = Some p" "acquired (st_io st) [ln] (st_io st1)"
    "sess st1 = sess st" "tbl st1 = tbl st"
    "newForward \<lparr>f_ID = fid, f_SessionID = sid,
            f_spec = FLocal (spec\<lparr>ls_BindAddr := loopback (ls_BindAddr spec)\<rparr>), f_session = p,
            f_listener = Some ln, f_bindPort = boundPort x ln 0 st1, f_closed = False, f_conns = 0\<rparr> st1 = (f, st2)"
    "registerForward p f st2 = (None, st')"
proof -
  obtain p c where p: "Get st sid = Inr p" "getClient st p = Inr c" "ls_RemoteHost spec \<noteq> []"
    using assms by (auto simp: OpenLocalForward_def Let_def split: sum.splits if_splits)
  let ?spec = "spec\<lparr>ls_BindAddr := loopback (ls_BindAddr spec)\<rparr>"
  obtain o1 st1 where o: "st_call (io_open (x_listen x (joinHostPort (ls_BindAddr ?spec) (itoa (ls_BindPort spec))))) st = (o1, st1)"
    by fastforce
  then obtain ln where ln: "o1 = Inr ln" using assms p by (cases o1) (auto simp: OpenLocalForward_def)
  have i: "installForward x p sid fid (FLocal ?spec) ln 0 st1 = (Inr f, st')"
    using assms p o ln by (simp add: OpenLocalForward_def)
  obtain f2 st2 where n: "newForward \<lparr>f_ID = fid, f_SessionID = sid, f_spec = FLocal ?spec, f_session = p,
          f_listener = Some ln, f_bindPort = boundPort x ln 0 st1, f_closed = False, f_conns = 0\<rparr> st1 = (f2, st2)"
    by fastforce
  show thesis
  proof (rule that)
    show "gm_get (tbl st) sid = Some p" using p by (auto simp: Get_def split: option.splits)
    show "acquired (st_io st) [ln] (st_io st1)" using o ln by (auto elim!: st_callE intro: io_open_ok)
    show "sess st1 = sess st" "tbl st1 = tbl st" using st_call_frame [OF o] by simp_all
    show "newForward \<lparr>f_ID = fid, f_SessionID = sid, f_spec = FLocal ?spec, f_session = p,
            f_listener = Some ln, f_bindPort = boundPort x ln 0 st1, f_closed = False, f_conns = 0\<rparr> st1 = (f, st2)"
      and "registerForward p f st2 = (None, st')"
      using i n by (auto simp: installForward_def split: prod.splits option.splits)
  qed
qed

lemma registerForward_frame:
  assumes "registerForward p f st = (r, st')"
  shows "fwd st' = fwd st" "st_io st' = st_io st" "tbl st' = tbl st" "shl st' = shl st"
  using assms by (auto simp: registerForward_def split: if_splits)

text \<open>
  A forward is opened completely or not at all.  On success it is registered under an id
  that was free, on an open session, and its listener is held open; whatever fails (no such
  session, not connected, a missing remote host, the listener, an id that is taken) leaves the
  registered forwards of every session as they were and no new listener behind.
\<close>

theorem OpenLocalForward_all_or_nothing:
  assumes "OpenLocalForward x sid fid spec st = (r, st')" and "io_ok (st_io st)"
  shows "case r of
      Inr f \<Rightarrow> (\<exists>p ln. gm_get (tbl st) sid = Some p \<and> \<not> s_closed (sess st p) \<and>
          gm_get (s_forwards (sess st p)) fid = None \<and>
          s_forwards (sess st' p) = gm_put fid f (s_forwards (sess st p)) \<and>
          fwd st' f = \<lparr>f_ID = fid, f_SessionID = sid,
            f_spec = FLocal (spec\<lparr>ls_BindAddr := loopback (ls_BindAddr spec)\<rparr>), f_session = p,
            f_listener = Some ln, f_bindPort = boundPort x ln 0 st', f_closed = False, f_conns = 0\<rparr> \<and>
          live (st_io st') = insert ln (live (st_io st)) \<and> ln \<notin> live (st_io st))
    | Inl e \<Rightarrow> sess st' = sess st \<and> live (st_io st') = live (st_io st)"
proof (cases "\<exists>p c. Get st sid = Inr p \<and> getClient st p = Inr c \<and> ls_RemoteHost spec \<noteq> []")
  case False
  then show ?thesis
    using assms(1) by (auto simp: OpenLocalForward_def Let_def split: sum.splits if_splits)
next
  case True
  then obtain p c where p: "Get st sid = Inr p" "getClient st p = Inr c" "ls_RemoteHost spec \<noteq> []" by blast
  let ?spec = "spec\<lparr>ls_BindAddr := loopback (ls_BindAddr spec)\<rparr>"
  obtain o1 st1 where o: "st_call (io_open (x_listen x (joinHostPort (ls_BindAddr ?spec) (itoa (ls_BindPort spec))))) st = (o1, st1)"
    by fastforce
  note fr = st_call_frame [OF o]
  show ?thesis
  proof (cases o1)
    case (Inl e)
    have "live (st_io st1) = live (st_io st)"
      using o Inl by (auto elim!: st_callE dest!: io_open_err simp: acquired_def)
    then show ?thesis
      using assms(1) p o Inl fr by (auto simp: OpenLocalForward_def)
  next
    case (Inr ln)
    have acq: "acquired (st_io st) [ln] (st_io st1)" using o Inr by (auto elim!: st_callE intro: io_open_ok)
    then have l: "live (st_io st1) = insert ln (live (st_io st))" "ln \<notin> live (st_io st)"
      using assms(2) by (auto simp: acquired_def io_ok_def)
    have eq: "installForward x p sid fid (FLocal ?spec) ln 0 st1 = (r, st')"
      using assms(1) p o Inr by (simp add: OpenLocalForward_def)
    have "gm_get (tbl st) sid = Some p" using p(1) by (auto simp: Get_def split: option.splits)
    then show ?thesis
      using eq fr l
      by (auto simp: installForward_def newForward_def registerForward_def Let_def boundPort_def
          split: if_splits prod.splits option.splits)
  qed
qed

text \<open>The forwards of a session are a registry: entered by \<open>registerForward\<close>, left by \<open>CloseForward\<close>.\<close>

interpretation fwd_reg: registry
  "\<lambda>st. gm_get (s_forwards (sess st p))"
  "\<lambda>st f. f_ID (fwd st f)"
  "\<lambda>f st. case registerForward p f st of (Some e, _) \<Rightarrow> Inl e | (None, st') \<Rightarrow> Inr st'"
  "\<lambda>k st. map_sum id snd (removeForward x p sid k st)"
  for p x sid
  by unfold_locales (auto simp: registerForward_def removeForward_def split: if_splits option.splits)

text \<open>
  Closing a forward undoes opening it: after both, the session's forwards are looked up as
  before, the listener is closed and every other handle is as it was.
\<close>

theorem forward_open_close:
  assumes "OpenLocalForward x sid fid spec st = (Inr f, st1)" and "io_ok (st_io st)"
    and "Get st sid = Inr p" and "CloseForward x sid fid st1 = (r, st2)"
  shows "gm_get (s_forwards (sess st2 p)) = gm_get (s_forwards (sess st p)) \<and>
    live (st_io st2) = live (st_io st) \<and> f_closed (fwd st2 f)"
proof -
  have tbl: "gm_get (tbl st) sid = Some p" using assms(3) by (auto simp: Get_def split: option.splits)
  obtain ln sta st0 where acq: "acquired (st_io st) [ln] (st_io sta)" and fr: "sess sta = sess st" "tbl sta = tbl st"
    and nf: "newForward \<lparr>f_ID = fid, f_SessionID = sid,
            f_spec = FLocal (spec\<lparr>ls_BindAddr := loopback (ls_BindAddr spec)\<rparr>), f_session = p,
            f_listener = Some ln, f_bindPort = boundPort x ln 0 sta, f_closed = False, f_conns = 0\<rparr> sta = (f, st0)"
    and reg: "registerForward p f st0 = (None, st1)"
    using assms(1) tbl by (auto elim: OpenLocalE)
  have id: "f_ID (fwd st0 f) = fid" and same: "sess st0 = sess st" and own0: "fwdOwned st0 f = {ln}"
    using nf fr by (auto simp: newForward_def fwdOwned_def)
  have io0: "st_io st0 = st_io sta" "tbl st0 = tbl st" using nf fr by (auto simp: newForward_def)
  have own: "fwdOwned st1 f = {ln}" and st1: "st_io st1 = st_io sta" "tbl st1 = tbl st"
    using registerForward_frame [OF reg] own0 io0 by (auto simp: fwdOwned_def split: if_splits)
  have o: "live (st_io st1) = insert ln (live (st_io st))" "ln \<notin> live (st_io st)"
    using acq assms(2) st1 by (auto simp: acquired_def io_ok_def)
  have get1: "Get st1 sid = Inr p" using tbl st1 by (simp add: Get_def)
  have in1: "gm_get (s_forwards (sess st1 p)) fid = Some f"
    using reg id by (auto simp: registerForward_def split: if_splits)
  have r: "removeForward x p sid fid st1 = Inr (r, st2)"
    using assms(4) get1 in1 by (simp add: CloseForward_def removeForward_def)
  have "gm_get (s_forwards (sess st2 p)) = gm_get (s_forwards (sess st0 p))"
    by (rule fwd_reg.enter_leave [of p f st0 st1 x sid st2]) (simp_all add: reg id r)
  moreover have st2: "st2 = snd (fwdClose x f (updS p (\<lambda>S. S\<lparr>s_forwards := gm_del fid (s_forwards S)\<rparr>) st1))"
    using r in1 by (auto simp: removeForward_def dest: arg_cong [where f = snd])
  moreover have "fwdOwned (updS p g st1) f = {ln}" for g using own by (auto simp: fwdOwned_def split: if_splits)
  ultimately show ?thesis using o same by (auto simp: st2)
qed

lemma swapListener_other:
  "g \<noteq> f \<or> f_closed (fwd st f) \<Longrightarrow> fwd (swapListener x f ln st) g = fwd st g"
  "f_closed (fwd (swapListener x f ln st) g) = f_closed (fwd st g)"
  "f_spec (fwd (swapListener x f ln st) g) = f_spec (fwd st g)"
  by (auto simp: swapListener_def)

lemma rebindOne_other:
  "f_closed (fwd st g) \<or> fwdKind (f_spec (fwd st g)) \<noteq> ForwardRemote \<Longrightarrow> fwd (rebindOne x p f st) g = fwd st g"
  "f_closed (fwd (rebindOne x p f st) g) = f_closed (fwd st g)"
  "f_spec (fwd (rebindOne x p f st) g) = f_spec (fwd st g)"
proof -
  have "(\<exists>ln st1. rebindOne x p f st = swapListener x f ln st1 \<and> fwd st1 = fwd st \<and>
            fwdKind (f_spec (fwd st f)) = ForwardRemote) \<or> fwd (rebindOne x p f st) = fwd st"
    by (auto simp: rebindOne_def split: fwd_spec.splits sum.splits prod.splits dest: st_call_frame)
  then show "f_closed (fwd st g) \<or> fwdKind (f_spec (fwd st g)) \<noteq> ForwardRemote \<Longrightarrow> fwd (rebindOne x p f st) g = fwd st g"
    and "f_closed (fwd (rebindOne x p f st) g) = f_closed (fwd st g)"
    and "f_spec (fwd (rebindOne x p f st) g) = f_spec (fwd st g)"
    using swapListener_other by metis+
qed

lemma rebindAll_other:
  "f_closed (fwd st g) \<or> fwdKind (f_spec (fwd st g)) \<noteq> ForwardRemote \<Longrightarrow> fwd (rebindAll x p fs st) g = fwd st g"
proof (induction fs arbitrary: st)
  case (Cons f fs)
  from Cons.prems have "fwd (rebindOne x p f st) g = fwd st g" by (rule rebindOne_other)
  with Cons show ?case by simp
qed simp

text \<open>
  Rebinding after a reconnect concerns open remote forwards only: local and dynamic forwards
  and closed ones are left exactly as they were, no forward enters or leaves the session, and of
  the listeners opened every one is held by an open forward of the session or closed again, the
  replaced ones included.
\<close>

theorem rebindForwards_only_remote:
  assumes "held_ok p [] st"
  shows "(\<forall>f. f_closed (fwd st f) \<or> fwdKind (f_spec (fwd st f)) \<noteq> ForwardRemote \<longrightarrow>
        fwd (rebindForwards x p st) f = fwd st f) \<and>
    sess (rebindForwards x p st) = sess st \<and>
    live (st_io (rebindForwards x p st)) =
      (live (st_io st) - owned st p) \<union> owned (rebindForwards x p st) p"
proof (intro conjI allI impI)
  let ?st' = "rebindForwards x p st"
  show "fwd ?st' f = fwd st f" if "f_closed (fwd st f) \<or> fwdKind (f_spec (fwd st f)) \<noteq> ForwardRemote" for f
    using that unfolding rebindForwards_def by (rule rebindAll_other)
  show "sess ?st' = sess st" by (simp add: rebindForwards_def)
  have "held_ok p [] ?st'" "live (st_io ?st') - owned ?st' p = live (st_io st) - owned st p"
    using sess_step_rebind [of p "[]" st x, unfolded sess_step_def] assms by auto
  then show "live (st_io ?st') = (live (st_io st) - owned st p) \<union> owned ?st' p"
    by (auto simp: held_ok_def)
qed

section \<open>Worked instances\<close>

definition demo_local :: LocalSpec where
  "demo_local = \<lparr>ls_BindAddr = [], ls_BindPort = 0, ls_RemoteHost = ''db'', ls_RemotePort = 5432\<rparr>"

definition demo_fwd_st :: "nat st" where
  "demo_fwd_st = snd (OpenLocalForward demo_ext ''a'' ''f'' demo_local demo_st)"

lemma demo_open: "OpenLocalForward demo_ext ''a'' ''f'' demo_local demo_st = (Inr 1, demo_fwd_st)"
proof -
  have "fst (OpenLocalForward demo_ext ''a'' ''f'' demo_local demo_st) = Inr 1" by code_simp
  then show ?thesis by (simp add: demo_fwd_st_def prod_eq_iff)
qed

lemma demo_st_io: "io_ok (st_io demo_st)"
  using demo_st_ok by (simp add: held_ok_def)

theorem OpenLocalForward_all_or_nothing_witness:
  "\<exists>p ln. gm_get (tbl demo_st) ''a'' = Some p \<and> s_forwards (sess demo_fwd_st p) = gm_put ''f'' 1 (s_forwards (sess demo_st p)) \<and>
     live (st_io demo_fwd_st) = insert ln (live (st_io demo_st)) \<and> ln \<notin> live (st_io demo_st)"
  using OpenLocalForward_all_or_nothing [OF demo_open demo_st_io] by auto

theorem forward_open_close_witness:
  "let st2 = snd (CloseForward demo_ext ''a'' ''f'' demo_fwd_st) in
   gm_get (s_forwards (sess st2 0)) = gm_get (s_forwards (sess demo_st 0)) \<and>
   live (st_io st2) = {0} \<and> f_closed (fwd st2 1)"
proof -
  have "Get demo_st ''a'' = Inr 0" by code_simp
  moreover obtain r st2 where c: "CloseForward demo_ext ''a'' ''f'' demo_fwd_st = (r, st2)" by fastforce
  ultimately show ?thesis
    using forward_open_close [OF demo_open demo_st_io _ c] by (simp add: demo_st_def)
qed

definition demo_rem_st :: "nat st" where
  "demo_rem_st = snd (OpenRemoteForward demo_ext ''a'' ''r''
     \<lparr>rs_BindAddr = [], rs_BindPort = 0, rs_LocalHost = [], rs_LocalPort = 80\<rparr> demo_st)"

lemma demo_rem_ok: "held_ok 0 [] demo_rem_st"
proof -
  have "Get demo_st ''a'' = Inr 0" by code_simp
  then have "sess_step 0 [] demo_st [] demo_rem_st"
    unfolding demo_rem_st_def by (rule sess_step_OpenRemote) (rule prod.collapse [symmetric])
  then show ?thesis using demo_st_ok by (simp add: sess_step_def)
qed

theorem rebindForwards_only_remote_witness:
  "live (st_io demo_rem_st) = {0, 1} \<and> live (st_io (rebindForwards demo_ext 0 demo_rem_st)) = {0, 2}"
proof -
  have "live (st_io demo_rem_st) = {0, 1}" by code_simp
  moreover have "(live (st_io demo_rem_st) - owned demo_rem_st 0) \<union> owned (rebindForwards demo_ext 0 demo_rem_st) 0 = {0, 2}"
    by code_simp
  ultimately show ?thesis
    using rebindForwards_only_remote [OF demo_rem_ok, of demo_ext] by simp
qed

end
