(* ===== verification/SshManager.thy ===== *)
theory SshManager
  imports SshForward
begin

text \<open>
  \<open>internal/sshx/manager.go\<close>.  \<open>Connect\<close> is split where the code releases the manager's
  lock or a session's: reserving the id, dialing, installing the client, finishing.  It is
  \<open>None\<close> when the ssh config needs more than \<open>n\<close> hops of recursion.
\<close>

section \<open>Connect\<close>

text \<open>
  \<open>resolveFromSSHConfig(&spec)\<close> on the copy of the spec: the first address is written through
  the slice into the caller's array, a jump chain is built in a new one.
\<close>

definition resolveRef :: "'w ext \<Rightarrow> nat \<Rightarrow> spec_ref \<Rightarrow> 'w st \<Rightarrow> (spec_ref \<times> 'w st) option" where
  "resolveRef x n spec st =
     (case resolve x (st_io st) n (deref st spec) of
        None \<Rightarrow> None
      | Some v \<Rightarrow>
          (let st1 = (case Addresses spec of
                        None \<Rightarrow> st
                      | Some a \<Rightarrow> st\<lparr>arrA := (arrA st)(a := Addresses v)\<rparr>);
               spec1 = spec\<lparr>User := User v, Auth := Auth v\<rparr>
           in if JumpHosts (deref st spec) = [] \<and> JumpHosts v \<noteq> []
              then Some (spec1\<lparr>JumpHosts := Some (nxt st)\<rparr>,
                         st1\<lparr>arrJ := (arrJ st1)(nxt st := JumpHosts v), nxt := Suc (nxt st)\<rparr>)
              else Some (spec1, st1)))"

definition userOf :: "'w ext \<Rightarrow> 'w st \<Rightarrow> spec_ref \<Rightarrow> spec_ref res" where
  "userOf x st spec =
     (if User spec = [] then
        (let u = x_getenv x ''USER'' (orc (st_io st)) in
         if u \<noteq> [] then Inr (spec\<lparr>User := u\<rparr>)
         else Inl (Errorf ''user is required (not in spec, not in ssh_config, not in $USER)'' []))
      else Inr spec)"

definition newSession :: "string \<Rightarrow> spec_ref \<Rightarrow> Session" where
  "newSession k spec = \<lparr>s_ID = k, s_Spec = spec, s_client = None, s_jumps = [], s_addr = [],
     s_state = StateConnecting, s_lastError = None, s_connectedAt = 0, s_forwards = [], s_shells = [],
     s_sftp = None, s_agentOn = False, s_agentConn = None, s_keepalive = None, s_reconnecting = False,
     s_closed = False\<rparr>"

definition connectReserve :: "string \<Rightarrow> spec_ref \<Rightarrow> 'w st \<Rightarrow> ptr res \<times> 'w st" where
  "connectReserve k spec st =
     (if gm_get (tbl st) k \<noteq> None then (Inl (Errorf ''session %q already exists'' [k]), st)
      else (Inr (nxt st), st\<lparr>sess := (sess st)(nxt st := newSession k spec), tbl := gm_put k (nxt st) (tbl st),
              nxt := Suc (nxt st)\<rparr>))"

definition connectFail :: "string \<Rightarrow> 'w st \<Rightarrow> 'w st" where
  "connectFail k st = st\<lparr>tbl := gm_del k (tbl st)\<rparr>"

definition connectInstall ::
    "'w ext \<Rightarrow> string \<Rightarrow> ptr \<Rightarrow> handle \<Rightarrow> handle list \<Rightarrow> string \<Rightarrow> 'w st \<Rightarrow> bool \<times> 'w st" where
  "connectInstall x k p c jumps addr st =
     (case setClient x p c jumps addr st of
        (True, st) \<Rightarrow> (True, st)
      | (False, st) \<Rightarrow> (False, if gm_get (tbl st) k = Some p then connectFail k st else st))"

definition startKeepalive :: "ptr \<Rightarrow> 'w st \<Rightarrow> 'w st" where
  "startKeepalive p st =
     (let ctx = nxt st; st = st\<lparr>nxt := Suc (nxt st)\<rparr> in
      if s_closed (sess st p) then st\<lparr>cancelled := insert ctx (cancelled st)\<rparr>
      else updS p (\<lambda>S. S\<lparr>s_keepalive := Some ctx\<rparr>) st)"

definition connectFinish :: "'w ext \<Rightarrow> ptr \<Rightarrow> spec_ref \<Rightarrow> 'w st \<Rightarrow> 'w st" where
  "connectFinish x p spec st =
     (let st = (if ForwardAgent spec then
                  (case enableAgentForwarding x p (AgentSocket (Auth spec)) st of
                     (Some e, st) \<Rightarrow> markState p StateConnected (Some (Wrapf ''agent forwarding: %w'' [] e)) st
                   | (None, st) \<Rightarrow> st)
                else st)
      in if 0 < Keepalive spec \<or> AutoReconnect spec then startKeepalive p st else st)"

definition Connect :: "'w ext \<Rightarrow> nat \<Rightarrow> string \<Rightarrow> spec_ref \<Rightarrow> 'w st \<Rightarrow> (ptr res \<times> 'w st) option" where
  "Connect x n k spec0 st =
     (if k = [] then Some (Inl (Errorf ''session id is required'' []), st)
      else (case resolveRef x n spec0 st of
              None \<Rightarrow> None
            | Some (spec1, st) \<Rightarrow>
                (case userOf x st spec1 of
                   Inl e \<Rightarrow> Some (Inl e, st)
                 | Inr spec \<Rightarrow>
                     (case connectReserve k spec st of
                        (Inl e, st) \<Rightarrow> Some (Inl e, st)
                      | (Inr p, st) \<Rightarrow>
                          (case st_call (dialFinal x (deref st spec)) st of
                             (Inl e, st) \<Rightarrow> Some (Inl e, connectFail k st)
                           | (Inr (c, jumps, addr), st) \<Rightarrow>
                               (case connectInstall x k p c jumps addr st of
                                  (False, st) \<Rightarrow> Some (Inl (Errorf ''session was disconnected during connect'' []), st)
                                | (True, st) \<Rightarrow> Some (Inr p, connectFinish x p spec st)))))))"

section \<open>The other operations\<close>

definition Disconnect :: "'w ext \<Rightarrow> string \<Rightarrow> 'w st \<Rightarrow> goerr option \<times> 'w st" where
  "Disconnect x k st =
     (case gm_get (tbl st) k of
        None \<Rightarrow> (Some (Errorf ''ssh session %q not found'' [k]), st)
      | Some p \<Rightarrow> (None, close x p (st\<lparr>tbl := gm_del k (tbl st)\<rparr>)))"

definition setReconnecting :: "ptr \<Rightarrow> bool \<Rightarrow> 'w st \<Rightarrow> 'w st" where
  "setReconnecting p b = updS p (\<lambda>S. S\<lparr>s_reconnecting := b\<rparr>)"

text \<open>\<open>Reconnect\<close> once \<open>reconnectMu\<close> is free; the deferred unlock is at its end.\<close>

definition Reconnect :: "'w ext \<Rightarrow> string \<Rightarrow> 'w st \<Rightarrow> ptr res \<times> 'w st" where
  "Reconnect x k st =
     (case Get st k of
        Inl e \<Rightarrow> (Inl e, st)
      | Inr p \<Rightarrow>
          (let st = markState p StateReconnecting None (clearClient x p (setReconnecting p True st)) in
           case st_call (dialFinal x (deref st (s_Spec (sess st p)))) st of
             (Inl e, st) \<Rightarrow> (Inl e, setReconnecting p False (markState p StateDisconnected (Some e) st))
           | (Inr (c, jumps, addr), st) \<Rightarrow>
               (case setClient x p c jumps addr st of
                  (False, st) \<Rightarrow> (Inl (Errorf ''session was closed during reconnect'' []), setReconnecting p False st)
                | (True, st) \<Rightarrow> (Inr p, setReconnecting p False (rebindForwards x p st)))))"

definition CloneSession :: "'w ext \<Rightarrow> nat \<Rightarrow> string \<Rightarrow> string \<Rightarrow> 'w st \<Rightarrow> (ptr res \<times> 'w st) option" where
  "CloneSession x n src new st =
     (case Get st src of
        Inl e \<Rightarrow> Some (Inl e, st)
      | Inr p \<Rightarrow> Connect x n new (s_Spec (sess st p)) st)"

definition ListSessions :: "'w st \<Rightarrow> SessionInfo list" where
  "ListSessions st = map (Info st) (gm_vals (tbl st))"

definition Sessions :: "'w st \<Rightarrow> ptr gomap" where
  "Sessions st = tbl st"

fun closeAllLoop :: "'w ext \<Rightarrow> (string \<times> ptr) list \<Rightarrow> 'w st \<Rightarrow> 'w st" where
  "closeAllLoop x [] st = st"
| "closeAllLoop x ((k, p) # kps) st =
     closeAllLoop x kps ((close x p st)\<lparr>tbl := gm_del k (tbl (close x p st))\<rparr>)"

definition CloseAll :: "'w ext \<Rightarrow> 'w st \<Rightarrow> 'w st" where
  "CloseAll x st = closeAllLoop x (tbl st) st"

section \<open>Keepalive\<close>

definition backoff :: "nat \<Rightarrow> duration" where
  "backoff i =
     (let b = [1 * 1000000000, 2 * 1000000000, 5 * 1000000000, 10 * 1000000000, 30 * 1000000000]
      in if i < length b then b ! i else last b)"

text \<open>
  The retry loop.  \<open>env i\<close> is what the rest of the program does during the \<open>i\<close>-th wait;
  the loop may go on for ever, so it carries fuel.  The result has the waits it made.
\<close>

fun attemptLoop ::
    "'w ext \<Rightarrow> (nat \<Rightarrow> 'w st \<Rightarrow> 'w st) \<Rightarrow> ptr \<Rightarrow> nat \<Rightarrow> nat \<Rightarrow> nat \<Rightarrow> 'w st \<Rightarrow> (duration list \<times> 'w st) option" where
  "attemptLoop x env p ctx i 0 st = None"
| "attemptLoop x env p ctx i (Suc n) st =
     (if ctx \<in> cancelled st then Some ([], st)
      else (case st_call (dialFinal x (deref st (s_Spec (sess st p)))) st of
              (Inr (c, jumps, addr), st) \<Rightarrow>
                (case setClient x p c jumps addr st of
                   (True, st) \<Rightarrow> Some ([], rebindForwards x p st)
                 | (False, st) \<Rightarrow> Some ([], st))
            | (Inl e, st) \<Rightarrow>
                (let st = env i (markState p StateReconnecting (Some e) st) in
                 if ctx \<in> cancelled st then Some ([backoff i], st)
                 else map_option (\<lambda>(ws, st). (backoff i # ws, st)) (attemptLoop x env p ctx (Suc i) n st))))"

definition attemptReconnect ::
    "'w ext \<Rightarrow> (nat \<Rightarrow> 'w st \<Rightarrow> 'w st) \<Rightarrow> ptr \<Rightarrow> nat \<Rightarrow> nat \<Rightarrow> 'w st \<Rightarrow> (duration list \<times> 'w st) option" where
  "attemptReconnect x env p ctx n st =
     (if s_reconnecting (sess st p) then Some ([], st)
      else map_option (\<lambda>(ws, st). (ws, setReconnecting p False st))
        (attemptLoop x env p ctx 0 n
          (markState p StateReconnecting None (clearClient x p (setReconnecting p True st)))))"

text \<open>One tick of \<open>runKeepalive\<close>; the first component says whether the loop goes on.\<close>

definition keepaliveTick ::
    "'w ext \<Rightarrow> (nat \<Rightarrow> 'w st \<Rightarrow> 'w st) \<Rightarrow> ptr \<Rightarrow> nat \<Rightarrow> nat \<Rightarrow> 'w st \<Rightarrow> (bool \<times> 'w st) option" where
  "keepaliveTick x env p ctx n st =
     (if ctx \<in> cancelled st then Some (False, st)
      else (case getClient st p of
              Inl _ \<Rightarrow>
                (if AutoReconnect (s_Spec (sess st p))
                 then map_option (\<lambda>(ws, st). (True, st)) (attemptReconnect x env p ctx n st)
                 else Some (True, st))
            | Inr client \<Rightarrow>
                (case st_call (io_call (x_keepalive x client)) st of
                   (None, st) \<Rightarrow> Some (True, st)
                 | (Some e, st) \<Rightarrow>
                     (if AutoReconnect (s_Spec (sess st p))
                      then map_option (\<lambda>(ws, st). (True, st)) (attemptReconnect x env p ctx n st)
                      else Some (True, markState p StateDisconnected (Some e) st)))))"

definition keepaliveInterval :: "spec_ref \<Rightarrow> duration" where
  "keepaliveInterval spec = (if Keepalive spec = 0 then 30 * 1000000000 else Keepalive spec)"

end
