(* ===== verification/SshManagerInv.thy ===== *)
theory SshManagerInv
  imports SshManager
begin

text \<open>
  The invariant of the ssh manager: every session in the table is open, its objects are its
  own, no handle is held twice, and what is open in the outside world is exactly what the
  sessions of the table hold.  Each operation keeps it.
\<close>

definition mgr_ok :: "'w st \<Rightarrow> bool" where
  "mgr_ok st \<longleftrightarrow>
     gm_wf (tbl st) \<and> io_ok (st_io st) \<and>
     (\<forall>k p. gm_get (tbl st) k = Some p \<longrightarrow>
        p < nxt st \<and> s_ID (sess st p) = k \<and> \<not> s_closed (sess st p) \<and> sess_wf st p \<and> distinct (ownedL st p)) \<and>
     (\<forall>k p k' p'. gm_get (tbl st) k = Some p \<longrightarrow> gm_get (tbl st) k' = Some p' \<longrightarrow> p \<noteq> p' \<longrightarrow>
        owned st p \<inter> owned st p' = {}) \<and>
     live (st_io st) = {h. \<exists>k p. gm_get (tbl st) k = Some p \<and> h \<in> owned st p}"

lemma mgr_live: "mgr_ok st \<Longrightarrow> live (st_io st) = {h. \<exists>k p. gm_get (tbl st) k = Some p \<and> h \<in> owned st p}"
  by (simp add: mgr_ok_def)

lemma mgr_sess:
  assumes "mgr_ok st" and "gm_get (tbl st) k = Some p"
  shows "p < nxt st" "s_ID (sess st p) = k" "\<not> s_closed (sess st p)" "sess_wf st p" "distinct (ownedL st p)"
    "owned st p \<subseteq> live (st_io st)"
  using assms by (auto simp: mgr_ok_def)

lemma mgr_disj:
  assumes "mgr_ok st" and "gm_get (tbl st) k = Some p" and "gm_get (tbl st) k' = Some q" and "p \<noteq> q"
  shows "owned st p \<inter> owned st q = {}"
  using assms unfolding mgr_ok_def by blast

lemma mgr_low: "mgr_ok st \<Longrightarrow> gm_get (tbl st) k = Some p \<Longrightarrow> h \<in> owned st p \<Longrightarrow> h < next_h (st_io st)"
  using mgr_sess(6) by (fastforce simp: mgr_ok_def io_ok_def)

lemma mgr_held:
  assumes "mgr_ok st" and "gm_get (tbl st) k = Some p"
  shows "held_ok p [] st"
  using assms mgr_sess [OF assms] by (simp add: held_ok_def mgr_ok_def)

text \<open>What another session holds is not touched.\<close>

lemma gm_vals_mapE: "v \<in> set (gm_vals m) \<Longrightarrow> gm_wf m \<Longrightarrow> (\<And>k. gm_get m k = Some v \<Longrightarrow> P) \<Longrightarrow> P"
  by (auto simp: gm_vals_iff)

definition untouched :: "ptr \<Rightarrow> 'w st \<Rightarrow> 'w st \<Rightarrow> bool" where
  "untouched p st st' \<longleftrightarrow>
     nxt st \<le> nxt st' \<and> (\<forall>q. q \<noteq> p \<longrightarrow> sess st' q = sess st q) \<and>
     (\<forall>f. f < nxt st \<longrightarrow> f_session (fwd st f) \<noteq> p \<longrightarrow> fwd st' f = fwd st f) \<and>
     (\<forall>h. h < nxt st \<longrightarrow> sh_parent (shl st h) \<noteq> p \<longrightarrow> shl st' h = shl st h)"

lemma others_untouched: "others_same p st st' \<Longrightarrow> untouched p st st'"
  by (simp add: others_same_def untouched_def)

lemma others_owned:
  assumes "untouched p st st'" and "sess_wf st q" and "q \<noteq> p"
  shows "ownedL st' q = ownedL st q" "sess_wf st' q"
proof -
  have s: "sess st' q = sess st q" using assms by (simp add: untouched_def)
  have f: "fwd st' f = fwd st f" if "f \<in> set (gm_vals (s_forwards (sess st q)))" for f
    using assms that by (auto simp: untouched_def sess_wf_def elim!: gm_vals_mapE)
  have h: "shl st' h = shl st h" if "h \<in> set (gm_vals (s_shells (sess st q)))" for h
    using assms that by (auto simp: untouched_def sess_wf_def elim!: gm_vals_mapE)
  have "concat (map (fwdL st') (gm_vals (s_forwards (sess st q)))) = concat (map (fwdL st) (gm_vals (s_forwards (sess st q))))"
    using f by (intro arg_cong [where f = concat] map_cong) (auto simp: fwdL_def)
  moreover have "concat (map (shellL st') (gm_vals (s_shells (sess st q)))) = concat (map (shellL st) (gm_vals (s_shells (sess st q))))"
    using h by (intro arg_cong [where f = concat] map_cong) (auto simp: shellL_def)
  ultimately show "ownedL st' q = ownedL st q" by (simp add: ownedL_def s)
  have n: "nxt st \<le> nxt st'" using assms(1) by (simp add: untouched_def)
  show "sess_wf st' q"
      unfolding sess_wf_def s
  proof (intro conjI allI impI)
    show "gm_wf (s_forwards (sess st q))" "gm_wf (s_shells (sess st q))"
      using assms(2) by (simp_all add: sess_wf_def)
    fix a k
    assume "gm_get (s_forwards (sess st q)) a = Some k"
    then have "k < nxt st" "f_ID (fwd st k) = a" "f_session (fwd st k) = q" "fwd st' k = fwd st k"
      using assms by (auto simp: sess_wf_def untouched_def)
    with n show "k < nxt st'" "f_ID (fwd st' k) = a" "f_session (fwd st' k) = q" by simp_all
  next
    fix a k
    assume "gm_get (s_shells (sess st q)) a = Some k"
    then have "k < nxt st" "sh_ID (shl st k) = a" "sh_parent (shl st k) = q" "shl st' k = shl st k"
      using assms by (auto simp: sess_wf_def untouched_def)
    with n show "k < nxt st'" "sh_ID (shl st' k) = a" "sh_parent (shl st' k) = q" by simp_all
  qed
qed

lemma others_owned_set: "untouched p st st' \<Longrightarrow> sess_wf st q \<Longrightarrow> q \<noteq> p \<Longrightarrow> owned st' q = owned st q"
  using others_owned(1) [of p st st' q] by (metis set_ownedL)

text \<open>An operation on one session of the table keeps the invariant.\<close>

lemma mgr_step:
  assumes ok: "mgr_ok st" and k: "gm_get (tbl st) k = Some p" and step: "sess_step p [] st [] st'"
  shows "mgr_ok st'"
proof -
  note a = step [unfolded sess_step_def, rule_format, OF mgr_held [OF ok k]]
  then have held: "held_ok p [] st'" and os: "others_same p st st'"
    and rest: "live (st_io st') - owned st' p = live (st_io st) - owned st p"
    and new: "owned st' p \<subseteq> owned st p \<union> {h. next_h (st_io st) \<le> h}" by simp_all
  have tbl: "tbl st' = tbl st" using os by (simp add: others_same_def)
  note all = mgr_sess [OF ok] and disj = mgr_disj [OF ok] and low = mgr_low [OF ok]
  note un = others_untouched [OF os]
  have own: "owned st' q = owned st q" if "gm_get (tbl st) j = Some q" "q \<noteq> p" for j q
    using others_owned_set [OF un] all that by blast
  have pd: "owned st' p \<inter> owned st q = {}" if "gm_get (tbl st) j = Some q" "q \<noteq> p" for j q
    using new disj [OF k that(1)] low [OF that(1)] that(2) by fastforce
  show ?thesis
    unfolding mgr_ok_def tbl
  proof (intro conjI allI impI)
    show "gm_wf (tbl st)" using ok by (simp add: mgr_ok_def)
    show "io_ok (st_io st')" using held by (simp add: held_ok_def)
    show "q < nxt st'" "s_ID (sess st' q) = j" "\<not> s_closed (sess st' q)" "sess_wf st' q" "distinct (ownedL st' q)"
      if "gm_get (tbl st) j = Some q" for j q
    proof -
      show "q < nxt st'" using all [OF that] os by (auto simp: others_same_def)
      show "s_ID (sess st' q) = j" "\<not> s_closed (sess st' q)"
        using all(2,3) [OF that] os by (cases "q = p"; simp add: others_same_def)+
      show "sess_wf st' q" "distinct (ownedL st' q)"
        using all [OF that] others_owned [OF un, of q] held by (cases "q = p"; auto simp: held_ok_def)+
    qed
    show "owned st' q \<inter> owned st' q' = {}"
      if "gm_get (tbl st) j = Some q" "gm_get (tbl st) j' = Some q'" "q \<noteq> q'" for j q j' q'
      using that by (metis pd own disj inf_commute)
    have "live (st_io st') = (live (st_io st) - owned st p) \<union> owned st' p"
      using rest held by (auto simp: held_ok_def)
    also have "\<dots> = {h. \<exists>j q. gm_get (tbl st) j = Some q \<and> h \<in> owned st' q}" (is "?A = ?B")
    proof (intro equalityI subsetI)
      fix h assume "h \<in> ?A"
      then consider "h \<in> owned st' p" | j q where "gm_get (tbl st) j = Some q" "h \<in> owned st q" "q \<noteq> p"
        unfolding mgr_live [OF ok] by blast
      then show "h \<in> ?B" by cases (use k own in blast)+
    next
      fix h assume "h \<in> ?B"
      then obtain j q where q: "gm_get (tbl st) j = Some q" "h \<in> owned st' q" by blast
      show "h \<in> ?A"
      proof (cases "q = p")
        case False
        with q have "h \<in> owned st q" "h \<notin> owned st p" using own disj [OF q(1) k] by blast+
        with q show ?thesis using all(6) by blast
      qed (use q in simp)
    qed
    finally show "live (st_io st') = {h. \<exists>j q. gm_get (tbl st) j = Some q \<and> h \<in> owned st' q}" .
  qed
qed

text \<open>A session leaves the table once it holds nothing.\<close>

lemma mgr_del:
  assumes ok: "mgr_ok st" and k: "gm_get (tbl st) k = Some p" and un: "untouched p st st'"
    and tbl: "tbl st' = gm_del k (tbl st)" and io: "next_h (st_io st) \<le> next_h (st_io st')"
    and live: "live (st_io st') = live (st_io st) - owned st p"
  shows "mgr_ok st'"
proof -
  note all = mgr_sess [OF ok] and disj = mgr_disj [OF ok]
  have other: "q \<noteq> p" if "gm_get (tbl st) j = Some q" "j \<noteq> k" for j q
    using all(2) [OF that(1)] all(2) [OF k] that(2) by auto
  have own: "owned st' q = owned st q" if "gm_get (tbl st) j = Some q" "j \<noteq> k" for j q
    using others_owned_set [OF un all(4) [OF that(1)]] other [OF that] by simp
  have io': "io_ok (st_io st')" using ok io live by (fastforce simp: mgr_ok_def io_ok_def)
  show ?thesis
    unfolding mgr_ok_def tbl gm_get_del
  proof (intro conjI allI impI)
    show "gm_wf (gm_del k (tbl st))" using ok by (simp add: mgr_ok_def)
    show "io_ok (st_io st')" by (rule io')
    fix j q
    assume "(if j = k then None else gm_get (tbl st) j) = Some q"
    then have j: "gm_get (tbl st) j = Some q" "j \<noteq> k" by (auto split: if_splits)
    note a = all [OF j(1)] others_owned [OF un all(4) [OF j(1)] other [OF j]]
    show "q < nxt st'" "s_ID (sess st' q) = j" "\<not> s_closed (sess st' q)" "sess_wf st' q" "distinct (ownedL st' q)"
      using a un other [OF j] by (auto simp: untouched_def)
    fix j' q'
    assume "(if j' = k then None else gm_get (tbl st) j') = Some q'" "q \<noteq> q'"
    then show "owned st' q \<inter> owned st' q' = {}"
      using own [OF j] own [of j' q'] disj [OF j(1), of j' q'] by (auto split: if_splits)
  next
    show "live (st_io st') = {h. \<exists>j q. (if j = k then None else gm_get (tbl st) j) = Some q \<and> h \<in> owned st' q}" (is "?A = ?B")
    proof (intro equalityI subsetI)
      fix h assume "h \<in> ?A"
      then obtain j q where q: "gm_get (tbl st) j = Some q" "h \<in> owned st q" and p: "h \<notin> owned st p"
        unfolding live mgr_live [OF ok] by auto
      then have "j \<noteq> k" using k by auto
      then show "h \<in> ?B" using q own by auto
    next
      fix h assume "h \<in> ?B"
      then obtain j q where q: "gm_get (tbl st) j = Some q" "h \<in> owned st' q" "j \<noteq> k" by (auto split: if_splits)
      then have "h \<in> owned st q" using own by simp
      then show "h \<in> ?A" using q disj [OF q(1) k] other [OF q(1,3)] all(6) live by blast
    qed
  qed
qed

lemma mgr_grow:
  assumes "mgr_ok st" and "tbl st' = tbl st" "sess st' = sess st" "fwd st' = fwd st" "shl st' = shl st"
    "st_io st' = st_io st" "nxt st \<le> nxt st'"
  shows "mgr_ok st'"
proof -
  have un: "untouched (Suc q) st st'" for q using assms by (simp add: untouched_def)
  note all = mgr_sess [OF assms(1)]
  have own: "owned st' q = owned st q" "ownedL st' q = ownedL st q" "sess_wf st' q"
    if "gm_get (tbl st) j = Some q" for j q
    using others_owned_set [OF un [of q] all(4) [OF that]] others_owned [OF un [of q] all(4) [OF that]] by simp_all
  show ?thesis
    unfolding mgr_ok_def assms(2,3,6)
  proof (intro conjI allI impI)
    show "q < nxt st'" if "gm_get (tbl st) j = Some q" for j q
      using all(1) [OF that] assms(7) by simp
    show "live (st_io st) = {h. \<exists>j q. gm_get (tbl st) j = Some q \<and> h \<in> owned st' q}"
      unfolding mgr_live [OF assms(1)] using own(1) by (intro Collect_cong) metis
    show "gm_wf (tbl st)" "io_ok (st_io st)" using assms(1) by (simp_all add: mgr_ok_def)
  qed (use all own mgr_disj [OF assms(1)] in \<open>simp_all\<close>)
qed

text \<open>A session enters the table empty-handed.\<close>

lemma mgr_reserve:
  assumes ok: "mgr_ok st" and r: "connectReserve k spec st = (Inr p, st')"
  shows "mgr_ok st'" "gm_get (tbl st') k = Some p" "owned st' p = {}" "sess st' p = newSession k spec"
    "gm_get (tbl st) k = None" "tbl st' = gm_put k p (tbl st)" "st_io st' = st_io st" "untouched p st st'"
proof -
  have k: "gm_get (tbl st) k = None" and p: "p = nxt st"
    and st': "st' = st\<lparr>sess := (sess st)(nxt st := newSession k spec), tbl := gm_put k (nxt st) (tbl st), nxt := Suc (nxt st)\<rparr>"
    using r by (auto simp: connectReserve_def split: if_splits)
  show "gm_get (tbl st') k = Some p" "sess st' p = newSession k spec" "gm_get (tbl st) k = None"
    "tbl st' = gm_put k p (tbl st)" "st_io st' = st_io st"
    using st' p k by simp_all
  show un: "untouched p st st'" using st' p by (simp add: untouched_def)
  have empty: "ownedL st' p = []"
    using st' p by (simp add: ownedL_def transportL_def newSession_def opt_list_def gm_vals_def)
  then show owned: "owned st' p = {}" by (metis set_ownedL list.set(1))
  note all = mgr_sess [OF ok]
  have other: "q \<noteq> p" if "gm_get (tbl st) j = Some q" for j q
    using all(1) [OF that] p by simp
  have own: "owned st' q = owned st q" if "gm_get (tbl st) j = Some q" for j q
    using others_owned_set [OF un all(4) [OF that]] other [OF that] by simp
  have wf: "sess_wf st' p" using st' p by (simp add: sess_wf_def newSession_def)
  show "mgr_ok st'"
    unfolding mgr_ok_def
  proof (intro conjI allI impI)
    show "gm_wf (tbl st')" using ok st' by (simp add: mgr_ok_def)
    show "io_ok (st_io st')" using ok st' by (simp add: mgr_ok_def)
    fix j q
    assume "gm_get (tbl st') j = Some q"
    then have cs: "j = k \<and> q = p \<or> gm_get (tbl st) j = Some q \<and> j \<noteq> k \<and> q \<noteq> p"
      using st' p other by (auto split: if_splits)
    have one: "q < nxt st' \<and> s_ID (sess st' q) = j \<and> \<not> s_closed (sess st' q) \<and> sess_wf st' q \<and> distinct (ownedL st' q)"
    proof (cases "q = p")
      case True
      then show ?thesis using cs wf empty st' p other [of j p] by (auto simp: newSession_def)
    next
      case False
      then have j: "gm_get (tbl st) j = Some q" using cs by simp
      have "sess st' q = sess st q" "q < nxt st'" using un False all(1) [OF j] by (auto simp: untouched_def)
      then show ?thesis using all [OF j] others_owned [OF un all(4) [OF j] False] by simp
    qed
    then show "q < nxt st'" "s_ID (sess st' q) = j" "\<not> s_closed (sess st' q)" "sess_wf st' q" "distinct (ownedL st' q)"
      by simp_all
    fix j' q'
    assume a: "gm_get (tbl st') j' = Some q'" "q \<noteq> q'"
    then have cs': "j' = k \<and> q' = p \<or> gm_get (tbl st) j' = Some q' \<and> q' \<noteq> p"
      using st' p other by (auto split: if_splits)
    show "owned st' q \<inter> owned st' q' = {}"
    proof (cases "q = p \<or> q' = p")
      case True
      then show ?thesis using owned by auto
    next
      case False
      then have "gm_get (tbl st) j = Some q" "gm_get (tbl st) j' = Some q'" using cs cs' by simp_all
      then show ?thesis using own mgr_disj [OF ok] a(2) by simp
    qed
  next
    have "(\<exists>j q. gm_get (tbl st') j = Some q \<and> h \<in> owned st' q) \<longleftrightarrow>
        (\<exists>j q. gm_get (tbl st) j = Some q \<and> h \<in> owned st q)" for h
    proof
      assume "\<exists>j q. gm_get (tbl st') j = Some q \<and> h \<in> owned st' q"
      then obtain j q where q: "gm_get (tbl st') j = Some q" "h \<in> owned st' q" by blast
      then have "q \<noteq> p" using owned by auto
      then have "gm_get (tbl st) j = Some q" using q st' p by (auto split: if_splits)
      then show "\<exists>j q. gm_get (tbl st) j = Some q \<and> h \<in> owned st q" using q own by blast
    next
      assume "\<exists>j q. gm_get (tbl st) j = Some q \<and> h \<in> owned st q"
      then obtain j q where q: "gm_get (tbl st) j = Some q" "h \<in> owned st q" by blast
      then have "gm_get (tbl st') j = Some q" using st' k by auto
      then show "\<exists>j q. gm_get (tbl st') j = Some q \<and> h \<in> owned st' q" using q own by blast
    qed
    then show "live (st_io st') = {h. \<exists>j q. gm_get (tbl st') j = Some q \<and> h \<in> owned st' q}"
      using mgr_live [OF ok] \<open>st_io st' = st_io st\<close> by simp
  qed
qed

section \<open>Each operation\<close>

lemma Get_iff: "Get st k = Inr p \<longleftrightarrow> gm_get (tbl st) k = Some p"
  by (auto simp: Get_def split: option.splits)

lemma close_untouched:
  assumes "sess_wf st p" and nc: "\<not> s_closed (sess st p)"
  shows "untouched p st (close x p st)"
proof -
  have fs: "f \<in> set (gm_vals (s_forwards (sess st p))) \<Longrightarrow> f_session (fwd st f) = p" for f
    using sess_wf_fwd_mem(2) [OF assms(1)] .
  have hs: "h \<in> set (gm_vals (s_shells (sess st p))) \<Longrightarrow> sh_parent (shl st h) = p" for h
    using assms(1) by (auto simp: sess_wf_def gm_vals_iff)
  show ?thesis
    unfolding untouched_def using fs hs close_frame(6) [of _ p x st]
    by (auto simp: close_frame close_heaps [OF nc])
qed

lemma mgr_close:
  assumes ok: "mgr_ok st" and k: "gm_get (tbl st) k = Some p"
  shows "mgr_ok (close x p (st\<lparr>tbl := gm_del k (tbl st)\<rparr>))"
    and "live (st_io (close x p (st\<lparr>tbl := gm_del k (tbl st)\<rparr>))) = live (st_io st) - owned st p"
    and "mgr_ok ((close x p st)\<lparr>tbl := gm_del k (tbl (close x p st))\<rparr>)"
proof -
  let ?st1 = "st\<lparr>tbl := gm_del k (tbl st)\<rparr>"
  have o1: "owned ?st1 p = owned st p" by (simp add: owned_def fwdOwned_def shellOwned_def)
  note sess = mgr_sess [OF ok k]
  have nc: "\<not> s_closed (sess ?st1 p)" using sess by simp
  have wf1: "sess_wf ?st1 p" using sess(4) by (simp add: sess_wf_def)
  show live: "live (st_io (close x p ?st1)) = live (st_io st) - owned st p"
    using close_live [OF nc] o1 by simp
  have "untouched p st (close x p ?st1)"
    using close_untouched [OF wf1 nc, of x] by (simp add: untouched_def)
  then show "mgr_ok (close x p ?st1)"
    by (rule mgr_del [OF ok k]) (simp_all add: close_frame live)
  let ?st2 = "(close x p st)\<lparr>tbl := gm_del k (tbl (close x p st))\<rparr>"
  have "untouched p st ?st2"
    using close_untouched [OF sess(4,3), of x] by (simp add: untouched_def)
  then show "mgr_ok ?st2"
    by (rule mgr_del [OF ok k]) (simp_all add: close_frame close_live [OF sess(3)])
qed

lemma mgr_Disconnect: "mgr_ok st \<Longrightarrow> mgr_ok (snd (Disconnect x k st))"
  by (auto simp: Disconnect_def mgr_close split: option.split)

lemma mgr_drop_empty:
  assumes "mgr_ok st" and "gm_get (tbl st) k = Some p" and "owned st p = {}"
  shows "mgr_ok (connectFail k st)"
  by (rule mgr_del [OF assms(1,2)]) (simp_all add: connectFail_def untouched_def assms(3))

lemma mgr_resolveRef:
  assumes "mgr_ok st" and "resolveRef x n spec st = Some (spec', st')"
  shows "mgr_ok st'" "tbl st' = tbl st" "st_io st' = st_io st" "sess st' = sess st"
proof -
  have f: "tbl st' = tbl st \<and> sess st' = sess st \<and> fwd st' = fwd st \<and> shl st' = shl st \<and> st_io st' = st_io st \<and> nxt st \<le> nxt st'"
    using assms(2) by (auto simp: resolveRef_def Let_def split: option.splits if_splits)
  then show "tbl st' = tbl st" "st_io st' = st_io st" "sess st' = sess st" by simp_all
  show "mgr_ok st'" by (rule mgr_grow [OF assms(1)]) (use f in simp_all)
qed

text \<open>Dialing from a session: on success the new connections are in hand, else nothing is.\<close>

lemma sess_step_dial:
  assumes "st_call (dialFinal x spec) st = (r, st')"
  shows "(case r of Inl _ \<Rightarrow> sess_step p G st G st' | Inr (c, jumps, addr) \<Rightarrow> sess_step p G st (c # jumps @ G) st')"
proof (cases "io_ok (st_io st)")
  case False
  then show ?thesis by (auto simp: sess_step_def held_ok_def split: sum.split)
next
  case io: True
  obtain w where d: "dialFinal x spec (st_io st) = (r, w)" and st': "st' = st\<lparr>st_io := w\<rparr>"
    using assms by (rule st_callE)
  note a = dialFinal_acq [OF io d]
  show ?thesis
  proof (cases r)
    case (Inl e)
    then show ?thesis using a st' by (auto intro: sess_step_nothing)
  next
    case (Inr t)
    then obtain c jumps addr where t: "r = Inr (c, jumps, addr)" by (cases t) auto
    have "sess_step p G st (G @ jumps @ [c]) st'"
      using a st' t by (auto intro: sess_step_acquired)
    moreover have "sess_step p (G @ jumps @ [c]) st' (c # jumps @ G) st'"
      by (rule sess_step_move) (auto simp: held_ok_def ac_simps)
    ultimately show ?thesis using t sess_step_trans by auto
  qed
qed

lemma markState_frame [simp]:
  "tbl (markState p s e st) = tbl st" "st_io (markState p s e st) = st_io st" "nxt (markState p s e st) = nxt st"
  "cancelled (markState p s e st) = cancelled st"
  by (simp_all add: markState_def)

lemma markState_sess [simp]:
  "s_client (sess (markState p s e st) q) = s_client (sess st q)" "s_jumps (sess (markState p s e st) q) = s_jumps (sess st q)"
  "s_agentConn (sess (markState p s e st) q) = s_agentConn (sess st q)" "s_agentOn (sess (markState p s e st) q) = s_agentOn (sess st q)"
  "s_Spec (sess (markState p s e st) q) = s_Spec (sess st q)" "s_closed (sess (markState p s e st) q) = s_closed (sess st q)"
  "s_forwards (sess (markState p s e st) q) = s_forwards (sess st q)"
  by (simp_all add: markState_def)

lemma sess_step_startKeepalive: "sess_step p G st G (startKeepalive p st)"
proof -
  let ?st1 = "st\<lparr>nxt := Suc (nxt st)\<rparr>"
  have a: "sess_step p G st G (st\<lparr>nxt := Suc (nxt st), cancelled := C\<rparr>)" for C
  proof (rule sess_step_move)
    show "others_same p st (st\<lparr>nxt := Suc (nxt st), cancelled := C\<rparr>) \<and> sess_wf (st\<lparr>nxt := Suc (nxt st), cancelled := C\<rparr>) p"
      if "held_ok p G st"
      using that by (auto simp: others_same_def sess_wf_def held_ok_def intro: less_SucI)
  qed (simp_all add: ownedL_def fwdL_def [abs_def] shellL_def [abs_def] cong: if_cong)
  have "sess_step p G ?st1 G (updS p (\<lambda>S. S\<lparr>s_keepalive := Some (nxt st)\<rparr>) ?st1)"
    by (rule sess_step_updS) (simp_all add: transportL_def)
  then show ?thesis
    using sess_step_trans a [of "cancelled st"] a [of "insert (nxt st) (cancelled st)"]
    by (auto simp: startKeepalive_def Let_def)
qed

lemma sess_step_connectFinish:
  assumes "s_agentConn (sess st p) = None" and "s_client (sess st p) \<noteq> None"
  shows "sess_step p G st G (connectFinish x p spec st)"
proof -
  obtain e st1 where en: "enableAgentForwarding x p (AgentSocket (Auth spec)) st = (e, st1)" by fastforce
  have a: "sess_step p G st G st1" by (rule sess_step_enableAgent [OF assms en])
  have b: "sess_step p G st G (markState p s m st1)" for s m
    using a sess_step_markState sess_step_trans by blast
  show ?thesis
    using en a b sess_step_startKeepalive sess_step_trans
    by (auto simp: connectFinish_def Let_def split: option.splits) blast+
qed

lemma st_call_frames:
  "st_call f st = (r, st') \<Longrightarrow> sess st' = sess st \<and> fwd st' = fwd st \<and> shl st' = shl st \<and> tbl st' = tbl st \<and>
     nxt st' = nxt st \<and> arrA st' = arrA st \<and> arrJ st' = arrJ st \<and> cancelled st' = cancelled st"
  by (simp add: st_call_frame)

lemma enableAgent_frame:
  assumes "enableAgentForwarding x p s st = (r, st')"
  shows "s_client (sess st' q) = s_client (sess st q)" "s_state (sess st' q) = s_state (sess st q)" "tbl st' = tbl st"
  using assms
  by (auto simp: enableAgentForwarding_def Let_def dest!: st_call_frames split: if_splits prod.splits sum.splits option.splits)

lemma connectFinish_frame:
  assumes "s_state (sess st p) = StateConnected"
  shows "s_client (sess (connectFinish x p spec st) p) = s_client (sess st p)"
    and "s_state (sess (connectFinish x p spec st) p) = StateConnected"
    and "tbl (connectFinish x p spec st) = tbl st"
proof -
  obtain e st1 where en: "enableAgentForwarding x p (AgentSocket (Auth spec)) st = (e, st1)" by fastforce
  note f = enableAgent_frame [OF en]
  show "s_client (sess (connectFinish x p spec st) p) = s_client (sess st p)"
    and "s_state (sess (connectFinish x p spec st) p) = StateConnected"
    and "tbl (connectFinish x p spec st) = tbl st"
    using en f assms by (auto simp: connectFinish_def startKeepalive_def markState_def Let_def split: option.splits)
qed

text \<open>
  What one \<open>Connect\<close> leaves: on success a connected session under an id that was free, which
  holds everything newly opened; on an error nothing, and the table as it was.
\<close>

definition connect_post :: "string \<Rightarrow> 'w st \<Rightarrow> ptr res \<Rightarrow> 'w st \<Rightarrow> bool" where
  "connect_post k st r st' \<longleftrightarrow>
     (case r of
        Inl e \<Rightarrow> tbl st' = tbl st \<and> live (st_io st') = live (st_io st)
      | Inr p \<Rightarrow> k \<noteq> [] \<and> gm_get (tbl st) k = None \<and> tbl st' = gm_put k p (tbl st) \<and>
          s_client (sess st' p) \<noteq> None \<and> s_state (sess st' p) = StateConnected \<and>
          live (st_io st') = live (st_io st) \<union> owned st' p \<and> owned st' p \<inter> live (st_io st) = {})"

lemma Connect_dialed:
  assumes ok: "mgr_ok st" and r: "connectReserve k spec st = (Inr p, st1)" and k: "k \<noteq> []"
    and d: "st_call (dialFinal x (deref st1 spec)) st1 = (Inr (c, jumps, addr), st2)"
    and i: "connectInstall x k p c jumps addr st2 = (b, st3)"
  shows "b \<and> mgr_ok (connectFinish x p spec st3) \<and> connect_post k st (Inr p) (connectFinish x p spec st3)"
proof -
  note rs = mgr_reserve [OF ok r]
  have io1: "io_ok (st_io st1)" using rs(1) by (simp add: mgr_ok_def)
  have s2: "sess st2 p = newSession k spec" using st_call_frame(1) [OF d] rs(4) by simp
  have set: "setClient x p c jumps addr st2 = (True, st3)" and b
    using i s2 by (auto simp: connectInstall_def setClient_def newSession_def split: bool.splits)
  have st3: "s_client (sess st3 p) = Some c" "s_agentConn (sess st3 p) = None" "s_state (sess st3 p) = StateConnected"
      "tbl st3 = tbl st2"
    using set s2 by (auto simp: setClient_def newSession_def split: if_splits)
  let ?st4 = "connectFinish x p spec st3"
  have "sess_step p [] st1 (c # jumps @ []) st2" using sess_step_dial [OF d, of p "[]"] by simp
  moreover have "sess_step p (c # jumps @ []) st2 [] st3"
    by (rule sess_step_setClient [OF _ _ set]) (simp_all add: s2 newSession_def)
  moreover have "sess_step p [] st3 [] ?st4"
    by (rule sess_step_connectFinish) (simp_all add: st3)
  ultimately have step: "sess_step p [] st1 [] ?st4" using sess_step_trans by blast
  have ok4: "mgr_ok ?st4" by (rule mgr_step [OF rs(1,2) step])
  have held: "held_ok p [] st1" by (rule mgr_held [OF rs(1,2)])
  note a = step [unfolded sess_step_def, rule_format, OF held]
  have io: "io_ok (st_io st)" using ok by (simp add: mgr_ok_def)
  have "owned ?st4 p \<inter> live (st_io st) = {}"
    using a rs(3,7) io by (auto simp: io_ok_def)
  moreover have "live (st_io ?st4) = live (st_io st) \<union> owned ?st4 p"
    using a rs(3,7) by (auto simp: held_ok_def)
  ultimately show ?thesis
    using ok4 rs connectFinish_frame [OF st3(3), of x spec] st3 st_call_frame(4) [OF d] k \<open>b\<close>
    by (simp add: connect_post_def)
qed

lemma Connect_spec:
  assumes ok: "mgr_ok st" and c: "Connect x n k spec0 st = Some (r, st')"
  shows "mgr_ok st' \<and> connect_post k st r st'"
proof (cases "k = []")
  case True
  then show ?thesis using c ok by (auto simp: Connect_def connect_post_def)
next
  case k: False
  then obtain spec1 sta where a: "resolveRef x n spec0 st = Some (spec1, sta)"
    using c by (auto simp: Connect_def split: option.splits)
  note ra = mgr_resolveRef [OF ok a]
  show ?thesis
  proof (cases "userOf x sta spec1")
    case (Inl e)
    then show ?thesis using c k a ra by (auto simp: Connect_def connect_post_def)
  next
    case u: (Inr spec)
    show ?thesis
    proof (cases "connectReserve k spec sta")
      case rv: (Pair v st1)
      show ?thesis
      proof (cases v)
        case (Inl e)
        then have "st1 = sta" using rv by (auto simp: connectReserve_def split: if_splits)
        then show ?thesis using c k a u rv Inl ra by (auto simp: Connect_def connect_post_def)
      next
        case v: (Inr p)
        note r = rv [unfolded v] and rs = mgr_reserve [OF ra(1) rv [unfolded v]]
        obtain dr st2 where d: "st_call (dialFinal x (deref st1 spec)) st1 = (dr, st2)" by fastforce
        show ?thesis
        proof (cases dr)
          case (Inl e)
          have st': "st' = connectFail k st2" "r = Inl e"
            using c k a u rv v d Inl by (auto simp: Connect_def)
          obtain w where w: "st2 = st1\<lparr>st_io := w\<rparr>" "dialFinal x (deref st1 spec) (st_io st1) = (dr, w)"
            using d by (rule st_callE)
          have io1: "io_ok (st_io st1)" using rs(1) by (simp add: mgr_ok_def)
          have "sess_step p [] st1 [] st2" using sess_step_dial [OF d, of p "[]"] Inl by simp
          then have "mgr_ok st2" by (rule mgr_step [OF rs(1,2)])
          moreover have "gm_get (tbl st2) k = Some p" "owned st2 p = {}" using rs w by simp_all
          ultimately have "mgr_ok st'" unfolding st' by (rule mgr_drop_empty)
          moreover have "live w = live (st_io st1)"
            using dialFinal_acq [OF io1 w(2)] Inl by (simp add: acquired_def)
          ultimately show ?thesis
            using st' w rs ra gm_del_put_absent [OF rs(5)] by (simp add: connect_post_def connectFail_def)
        next
          case (Inr t)
          obtain cc jumps addr where t: "t = (cc, jumps, addr)" by (cases t) auto
          obtain b st3 where i: "connectInstall x k p cc jumps addr st2 = (b, st3)" by fastforce
          note dn = Connect_dialed [OF ra(1) r k d [unfolded Inr t] i]
          then have "r = Inr p" "st' = connectFinish x p spec st3"
            using c k a u rv v d Inr t i by (auto simp: Connect_def)
          then show ?thesis using dn ra by (simp add: connect_post_def)
        qed
      qed
    qed
  qed
qed

section \<open>A concrete state\<close>

lemma demo_mgr_ok: "mgr_ok demo_st"
  unfolding mgr_ok_def using demo_st_ok
  by (auto simp: demo_st_def held_ok_def gm_get_def gm_wf_def demo_session_def owned_def transport_def
      gm_vals_def split: if_splits)

end
