(* ===== verification/SshShell.thy ===== *)
theory SshShell
  imports SshManagerInv
begin

text \<open>
  \<open>internal/sshx/shell.go\<close>: opening shells on a session and the session's shell registry.  The
  buffer and its goroutines are in \<open>ShellBuf\<close>.
\<close>

record ShellOptions =
  o_Term :: string
  o_Rows :: int
  o_Cols :: int
  o_Env :: "string gomap"
  o_Command :: string
  o_BufferSize :: int

record ShellInfo =
  hi_ID :: string
  hi_SessionID :: string
  hi_OpenedAt :: int
  hi_BufferSize :: nat
  hi_Closed :: bool

definition shellInfo :: "Shell \<Rightarrow> ShellInfo" where
  "shellInfo H = \<lparr>hi_ID = sh_ID H, hi_SessionID = sh_SessionID H, hi_OpenedAt = sh_OpenedAt H,
     hi_BufferSize = length (b_data H), hi_Closed = b_closed H\<rparr>"

definition shellWrite :: "'w ext \<Rightarrow> ptr \<Rightarrow> string \<Rightarrow> 'w st \<Rightarrow> (int \<times> goerr option) \<times> 'w st" where
  "shellWrite x h p st =
     (if b_closed (shl st h) then ((0, Some (Errorf ''shell closed'' [])), st)
      else st_call (io_call (x_stdin_write x (sh_chan (shl st h)) p)) st)"

definition shellResize :: "'w ext \<Rightarrow> ptr \<Rightarrow> int \<Rightarrow> int \<Rightarrow> 'w st \<Rightarrow> goerr option \<times> 'w st" where
  "shellResize x h rows cols st =
     (if b_closed (shl st h) then (Some (Errorf ''shell closed'' []), st)
      else st_call (io_call (x_window_change x (sh_chan (shl st h)) rows cols)) st)"

text \<open>\<open>Read\<close> with the choices of the runtime given.\<close>

definition shellRead :: "choice list \<Rightarrow> ptr \<Rightarrow> 'w st \<Rightarrow> (read_result \<times> 'w st) option" where
  "shellRead cs h st =
     (case readRun cs RTop (shl st h) of
        None \<Rightarrow> None
      | Some (r, H) \<Rightarrow> Some (r, updH h (\<lambda>_. H) st))"

text \<open>What a pump does with a chunk.\<close>

definition pumpChunk :: "ptr \<Rightarrow> string \<Rightarrow> 'w st \<Rightarrow> 'w st" where
  "pumpChunk h chunk = updH h (\<lambda>H. wake (appendBuffer chunk H))"

section \<open>Opening\<close>

definition registerShell :: "ptr \<Rightarrow> ptr \<Rightarrow> 'w st \<Rightarrow> goerr option \<times> 'w st" where
  "registerShell p h st =
     (if s_closed (sess st p) then (Some (Errorf ''session %q is closed'' [s_ID (sess st p)]), st)
      else if gm_get (s_shells (sess st p)) (sh_ID (shl st h)) \<noteq> None then
        (Some (Errorf ''shell %q already exists on session %q'' [sh_ID (shl st h), s_ID (sess st p)]), st)
      else (None, updS p (\<lambda>S. S\<lparr>s_shells := gm_put (sh_ID (shl st h)) h (s_shells S)\<rparr>) st))"

definition newShell :: "Shell \<Rightarrow> 'w st \<Rightarrow> ptr \<times> 'w st" where
  "newShell H st = (nxt st, st\<lparr>shl := (shl st)(nxt st := H), nxt := Suc (nxt st)\<rparr>)"

definition installShell :: "'w ext \<Rightarrow> ptr \<Rightarrow> string \<Rightarrow> int \<Rightarrow> handle \<Rightarrow> 'w st \<Rightarrow> ptr res \<times> 'w st" where
  "installShell x p shellID bufSize ch st =
     (let (h, st) = newShell \<lparr>b_data = [], b_max = bufSize, b_wake = False, b_closed = False, b_done = False,
            sh_ID = shellID, sh_SessionID = s_ID (sess st p), sh_parent = p, sh_chan = ch,
            sh_OpenedAt = x_now x (orc (st_io st))\<rparr> st
      in case registerShell p h st of
           (Some e, st) \<Rightarrow> (Inl e, snd (shellClose x h st))
         | (None, st) \<Rightarrow> (Inr h, st))"

text \<open>The requests on the new channel up to the started shell; the first error wins.\<close>

definition startShell :: "'w ext \<Rightarrow> handle \<Rightarrow> ShellOptions \<Rightarrow> 'w st \<Rightarrow> goerr option \<times> 'w st" where
  "startShell x ch opts st =
     (let rows = (if o_Rows opts = 0 then 24 else o_Rows opts);
          cols = (if o_Cols opts = 0 then 80 else o_Cols opts);
          tty = (if o_Term opts = [] then ''xterm-256color'' else o_Term opts)
      in case st_call (io_call (x_request_pty x ch tty rows cols)) st of
           (Some e, st) \<Rightarrow> (Some (Wrapf ''request pty: %w'' [] e), st)
         | (None, st) \<Rightarrow>
             (case st_call (io_call (x_pipes x ch)) st of
                (Some e, st) \<Rightarrow> (Some e, st)
              | (None, st) \<Rightarrow>
                  (if o_Command opts \<noteq> [] then
                     (case st_call (io_call (x_start x ch (o_Command opts))) st of
                        (Some e, st) \<Rightarrow> (Some (Wrapf ''start command: %w'' [] e), st)
                      | (None, st) \<Rightarrow> (None, st))
                   else
                     (case st_call (io_call (x_shell x ch)) st of
                        (Some e, st) \<Rightarrow> (Some (Wrapf ''start shell: %w'' [] e), st)
                      | (None, st) \<Rightarrow> (None, st)))))"

definition OpenShell :: "'w ext \<Rightarrow> ptr \<Rightarrow> string \<Rightarrow> ShellOptions \<Rightarrow> 'w st \<Rightarrow> ptr res \<times> 'w st" where
  "OpenShell x p shellID opts st =
     (case getClient st p of
        Inl e \<Rightarrow> (Inl e, st)
      | Inr client \<Rightarrow>
          (case st_call (io_open (x_new_session x client)) st of
             (Inl e, st) \<Rightarrow> (Inl (Wrapf ''new ssh channel: %w'' [] e), st)
           | (Inr ch, st) \<Rightarrow>
               (case startShell x ch opts (requestAgent x p ch (setenvs x ch (o_Env opts) st)) of
                  (Some e, st) \<Rightarrow> (Inl e, st_close x [ch] st)
                | (None, st) \<Rightarrow>
                    installShell x p shellID (if o_BufferSize opts = 0 then 1024 * 1024 else o_BufferSize opts) ch st)))"

section \<open>The registry\<close>

definition GetShell :: "'w st \<Rightarrow> ptr \<Rightarrow> string \<Rightarrow> ptr res" where
  "GetShell st p shellID =
     (case gm_get (s_shells (sess st p)) shellID of
        None \<Rightarrow> Inl (Errorf ''shell %q not found on session %q'' [shellID, s_ID (sess st p)])
      | Some h \<Rightarrow> Inr h)"

definition removeShell :: "ptr \<Rightarrow> string \<Rightarrow> 'w st \<Rightarrow> (ptr \<times> 'w st) res" where
  "removeShell p shellID st =
     (case GetShell st p shellID of
        Inl e \<Rightarrow> Inl e
      | Inr h \<Rightarrow> Inr (h, updS p (\<lambda>S. S\<lparr>s_shells := gm_del shellID (s_shells S)\<rparr>) st))"

definition CloseShell :: "'w ext \<Rightarrow> ptr \<Rightarrow> string \<Rightarrow> 'w st \<Rightarrow> goerr option \<times> 'w st" where
  "CloseShell x p shellID st =
     (case removeShell p shellID st of
        Inl e \<Rightarrow> (Some e, st)
      | Inr (h, st) \<Rightarrow> shellClose x h st)"

definition ListShells :: "'w st \<Rightarrow> ptr \<Rightarrow> ShellInfo list" where
  "ListShells st p = map (\<lambda>h. shellInfo (shl st h)) (gm_vals (s_shells (sess st p)))"

text \<open>
  The goroutine that waits for the remote process: the channel is gone, the shell is shut and
  takes itself out of the registry.
\<close>

definition shellExited :: "ptr \<Rightarrow> 'w st \<Rightarrow> 'w st" where
  "shellExited h st0 =
     (let H = shl st0 h;
          st = st0\<lparr>st_io := (st_io st0)\<lparr>live := live (st_io st0) - shellOwned st0 h\<rparr>\<rparr>;
          st = updH h (\<lambda>H. H\<lparr>b_closed := True, b_done := True\<rparr>) st
      in if gm_get (s_shells (sess st (sh_parent H))) (sh_ID H) = Some h
         then updS (sh_parent H) (\<lambda>S. S\<lparr>s_shells := gm_del (sh_ID H) (s_shells S)\<rparr>) st
         else st)"

interpretation shell_reg: registry
  "\<lambda>st. gm_get (s_shells (sess st p))"
  "\<lambda>st h. sh_ID (shl st h)"
  "\<lambda>h st. case registerShell p h st of (Some e, _) \<Rightarrow> Inl e | (None, st') \<Rightarrow> Inr st'"
  "\<lambda>k st. map_sum id snd (removeShell p k st)"
  for p
  by unfold_locales (auto simp: registerShell_def removeShell_def GetShell_def split: if_splits option.splits)

section \<open>Accounting\<close>

lemma sess_wf_sh_mem:
  assumes "sess_wf st p" and "h \<in> set (gm_vals (s_shells (sess st p)))"
  shows "h < nxt st" "sh_parent (shl st h) = p" "gm_get (s_shells (sess st p)) (sh_ID (shl st h)) = Some h"
  using assms by (auto simp: sess_wf_def gm_vals_iff)

lemma shellL_upd [simp]: "fwdL (updH h g st) = fwdL st"
  by (simp add: fwdL_def [abs_def] cong: if_cong)

lemma sess_wf_updH:
  assumes "sh_ID (k (shl st h)) = sh_ID (shl st h)" and "sh_parent (k (shl st h)) = sh_parent (shl st h)"
  shows "sess_wf (updH h k st) p = sess_wf st p"
proof -
  have "sh_ID (shl (updH h k st) g) = sh_ID (shl st g)" "sh_parent (shl (updH h k st) g) = sh_parent (shl st g)" for g
    using assms by simp_all
  then show ?thesis by (simp only: sess_wf_def upd_simps)
qed

lemma sess_step_newShell:
  assumes "newShell H st = (h, st')"
  shows "sess_step p G st G st'"
proof (rule sess_step_move)
  have st': "st' = st\<lparr>shl := (shl st)(nxt st := H), nxt := Suc (nxt st)\<rparr>"
    using assms by (auto simp: newShell_def)
  then show "st_io st' = st_io st" by simp
  have e: "g \<in> set (gm_vals (s_shells (sess st p))) \<Longrightarrow> g \<noteq> nxt st" if "sess_wf st p" for g
    using sess_wf_sh_mem(1) [OF that] by fastforce
  show "others_same p st st' \<and> sess_wf st' p" if "held_ok p G st"
    using that by (auto simp: st' held_ok_def others_same_def sess_wf_def intro: less_SucI)
  have "concat (map (shellL st') (gm_vals (s_shells (sess st p)))) = concat (map (shellL st) (gm_vals (s_shells (sess st p))))"
    if "sess_wf st p"
    using e [OF that] by (intro arg_cong [where f = concat] map_cong) (auto simp: st' shellL_def)
  then show "mset (ownedL st' p @ G) = mset (ownedL st p @ G)" if "held_ok p G st"
    using that by (simp add: ownedL_def held_ok_def) (simp add: st' fwdL_def [abs_def] cong: if_cong)
qed

lemma sess_step_registerShell:
  assumes "registerShell p h st = (None, st')" and "h < nxt st" and "sh_parent (shl st h) = p"
  shows "sess_step p (shellL st h @ G) st G st'"
proof (rule sess_step_move)
  have st': "st' = updS p (\<lambda>S. S\<lparr>s_shells := gm_put (sh_ID (shl st h)) h (s_shells S)\<rparr>) st"
    and new: "gm_get (s_shells (sess st p)) (sh_ID (shl st h)) = None"
    using assms(1) by (auto simp: registerShell_def split: if_splits)
  then show "st_io st' = st_io st" by simp
  show "others_same p st st' \<and> sess_wf st' p" if "held_ok p (shellL st h @ G) st"
    using that assms new by (auto simp: st' held_ok_def others_same_def sess_wf_def)
  show "mset (ownedL st' p @ G) = mset (ownedL st p @ shellL st h @ G)"
    by (simp add: st' ownedL_def gm_vals_put_new [OF new] ac_simps)
qed

text \<open>A shell of the session that is not registered is closed, by us or by the peer.\<close>

lemma sess_step_markClosed:
  assumes "h \<notin> set (gm_vals (s_shells (sess st p)))" and "sh_parent (shl st h) = p"
    and "\<And>H. sh_ID (g H) = sh_ID H \<and> sh_parent (g H) = sh_parent H"
  shows "sess_step p G st G (updH h g st)"
proof (rule sess_step_move)
  show "others_same p st (updH h g st) \<and> sess_wf (updH h g st) p" if "held_ok p G st"
    using that assms(2,3) by (auto simp: held_ok_def others_same_def sess_wf_updH)
  have "concat (map (shellL (updH h g st)) (gm_vals (s_shells (sess st p)))) = concat (map (shellL st) (gm_vals (s_shells (sess st p))))"
    using assms(1) by (intro arg_cong [where f = concat] map_cong) (auto simp: shellL_def)
  then show "mset (ownedL (updH h g st) p @ G) = mset (ownedL st p @ G)"
    by (simp add: ownedL_def)
qed simp

lemma sess_step_shellClose:
  assumes "h \<notin> set (gm_vals (s_shells (sess st p)))" and "sh_parent (shl st h) = p"
  shows "sess_step p (shellL st h @ G) st G (snd (shellClose x h st))"
proof (cases "b_closed (shl st h)")
  case True
  then show ?thesis by (simp add: shellClose_def shellL_def)
next
  case False
  let ?st1 = "updH h (\<lambda>H. H\<lparr>b_closed := True\<rparr>) st" and ?c = "sh_chan (shl st h)"
  let ?st2 = "snd (st_call (io_call (x_stdin_close x ?c)) ?st1)"
  let ?st3 = "st_close x [?c] ?st2"
  have eq: "snd (shellClose x h st) = updH h (\<lambda>H. H\<lparr>b_done := True\<rparr>) ?st3"
    using False by (simp add: shellClose_def Let_def st_close_def st_call_def io_close_def split: prod.split)
  have same: "sess ?st2 = sess st" "shl ?st2 = shl ?st1"
    by (simp_all add: st_call_def split: prod.split)
  have a: "sess_step p ([?c] @ G) st ([?c] @ G) ?st1"
    by (rule sess_step_markClosed) (use assms in simp_all)
  have b: "sess_step p ([?c] @ G) ?st1 ([?c] @ G) ?st2" by (rule sess_step_call_snd)
  have c: "sess_step p ([?c] @ G) ?st2 G ?st3" by (rule sess_step_close)
  have d: "sess_step p G ?st3 G (updH h (\<lambda>H. H\<lparr>b_done := True\<rparr>) ?st3)"
    by (rule sess_step_markClosed) (use assms same in simp_all)
  show ?thesis
    using sess_step_trans [OF sess_step_trans [OF a b] sess_step_trans [OF c d]] False eq by (simp add: shellL_def)
qed

lemma sess_step_dropShell:
  assumes "gm_get (s_shells (sess st p)) k = Some h"
  shows "sess_step p G st (shellL st h @ G) (updS p (\<lambda>S. S\<lparr>s_shells := gm_del k (s_shells S)\<rparr>) st)"
    (is "sess_step p G st _ ?st1")
proof (rule sess_step_move)
  assume ok: "held_ok p G st"
  then have wf: "gm_wf (s_shells (sess st p))" by (simp add: held_ok_def sess_wf_def)
  show "others_same p st ?st1 \<and> sess_wf ?st1 p"
    using ok wf by (auto simp: held_ok_def others_same_def sess_wf_def split: if_splits)
  have "mset (concat (map g (gm_vals (s_shells (sess st p))))) =
      mset (g h) + mset (concat (map g (gm_vals (gm_del k (s_shells (sess st p))))))" for g :: "ptr \<Rightarrow> handle list"
    using gm_vals_del [OF wf assms] by (simp add: mset_concat flip: sum_mset_sum_list)
  then show "mset (ownedL ?st1 p @ shellL st h @ G) = mset (ownedL st p @ G)"
    by (simp add: ownedL_def ac_simps)
qed simp

lemma sess_step_CloseShell: "CloseShell x p k st = (r, st') \<Longrightarrow> sess_step p G st G st'"
proof (cases "gm_get (s_shells (sess st p)) k")
  case None
  then show "CloseShell x p k st = (r, st') \<Longrightarrow> ?thesis" by (auto simp: CloseShell_def removeShell_def GetShell_def)
next
  case (Some h)
  let ?st1 = "updS p (\<lambda>S. S\<lparr>s_shells := gm_del k (s_shells S)\<rparr>) st"
  assume "CloseShell x p k st = (r, st')"
  then have st': "st' = snd (shellClose x h ?st1)"
    using Some by (simp add: CloseShell_def removeShell_def GetShell_def)
  show ?thesis
  proof (cases "sess_wf st p")
    case True
    have p: "sh_parent (shl st h) = p" "sh_ID (shl st h) = k" using True Some by (auto simp: sess_wf_def)
    have "h \<notin> set (gm_vals (s_shells (sess ?st1 p)))"
      using True p by (auto simp: sess_wf_def gm_vals_iff split: if_splits)
    then have "sess_step p (shellL st h @ G) ?st1 G (snd (shellClose x h ?st1))"
      using sess_step_shellClose [of h ?st1 p G x] p by simp
    with sess_step_trans [OF sess_step_dropShell [OF Some, of G] this] show ?thesis by (simp add: st')
  qed (simp add: sess_step_def held_ok_def)
qed

lemma sess_step_installShell:
  assumes "installShell x p k n ch st = (r, st')"
  shows "sess_step p (ch # G) st G st'"
proof -
  obtain h st1 where nf: "newShell \<lparr>b_data = [], b_max = n, b_wake = False, b_closed = False, b_done = False,
      sh_ID = k, sh_SessionID = s_ID (sess st p), sh_parent = p, sh_chan = ch,
      sh_OpenedAt = x_now x (orc (st_io st))\<rparr> st = (h, st1)"
    by fastforce
  then have h: "h < nxt st1" "sh_parent (shl st1 h) = p" "shellL st1 h = [ch]" "h = nxt st" "sess st1 = sess st"
    by (auto simp: newShell_def shellL_def)
  obtain e st2 where r: "registerShell p h st1 = (e, st2)" by fastforce
  note a = sess_step_newShell [OF nf, of p "ch # G"]
  show ?thesis
  proof (cases e)
    case None
    have "sess_step p (ch # G) st1 G st2"
      using sess_step_registerShell [OF r [unfolded None] h(1,2), of G] h(3) by simp
    with sess_step_trans [OF a this] show ?thesis
      using assms nf r None by (simp add: installShell_def)
  next
    case (Some err)
    then have st2: "st2 = st1" using r by (auto simp: registerShell_def split: if_splits)
    have "sess_step p (ch # G) st G (snd (shellClose x h st1))"
    proof (cases "sess_wf st p")
      case True
      then have "h \<notin> set (gm_vals (s_shells (sess st1 p)))" using sess_wf_sh_mem(1) [OF True, of h] h(4,5) by auto
      then have "sess_step p (ch # G) st1 G (snd (shellClose x h st1))"
        using sess_step_shellClose [of h st1 p G x] h(2,3) by simp
      then show ?thesis by (rule sess_step_trans [OF a])
    qed (simp add: sess_step_def held_ok_def)
    then show ?thesis using assms nf r Some st2 by (auto simp: installShell_def)
  qed
qed

lemma sess_step_setenvs: "sess_step p G st G (setenvs x ch env st)"
proof (induction env arbitrary: st)
  case (Cons kv env)
  obtain k v where kv: "kv = (k, v)" by fastforce
  show ?case using sess_step_trans [OF sess_step_call_snd Cons.IH] by (simp add: kv)
qed simp

lemma sess_step_requestAgent: "sess_step p G st G (requestAgent x p ch st)"
  by (simp add: requestAgent_def sess_step_call_snd)

lemma sess_step_startShell:
  assumes "startShell x ch opts st = (r, st')"
  shows "sess_step p G st G st'"
proof -
  let ?rows = "if o_Rows opts = 0 then 24 else o_Rows opts" and ?cols = "if o_Cols opts = 0 then 80 else o_Cols opts"
    and ?tty = "if o_Term opts = [] then ''xterm-256color'' else o_Term opts"
  obtain e1 st1 where 1: "st_call (io_call (x_request_pty x ch ?tty ?rows ?cols)) st = (e1, st1)" by fastforce
  obtain e2 st2 where 2: "st_call (io_call (x_pipes x ch)) st1 = (e2, st2)" by fastforce
  obtain e3 st3 where 3: "st_call (io_call (x_start x ch (o_Command opts))) st2 = (e3, st3)" by fastforce
  obtain e4 st4 where 4: "st_call (io_call (x_shell x ch)) st2 = (e4, st4)" by fastforce
  note s1 = sess_step_call [OF 1, of p G]
  note s2 = sess_step_trans [OF s1 sess_step_call [OF 2]]
  note s3 = sess_step_trans [OF s2 sess_step_call [OF 3]] and s4 = sess_step_trans [OF s2 sess_step_call [OF 4]]
  have "st' \<in> {st1, st2, st3, st4}"
    using assms 1 2 3 4 by (simp add: startShell_def Let_def split: option.splits if_splits)
  then show ?thesis using s1 s2 s3 s4 by auto
qed

lemma sess_step_OpenShell:
  assumes "OpenShell x p k opts st = (r, st')"
  shows "sess_step p G st G st'"
proof (cases "getClient st p")
  case (Inl e)
  then show ?thesis using assms by (simp add: OpenShell_def)
next
  case c: (Inr client)
  obtain o1 st1 where o: "st_call (io_open (x_new_session x client)) st = (o1, st1)" by fastforce
  show ?thesis
  proof (cases o1)
    case (Inl e)
    then show ?thesis using assms c o by (auto simp: OpenShell_def intro: sess_step_open_err)
  next
    case (Inr ch)
    let ?st2 = "requestAgent x p ch (setenvs x ch (o_Env opts) st1)"
    obtain e st3 where s: "startShell x ch opts ?st2 = (e, st3)" by fastforce
    have a: "sess_step p G st (G @ [ch]) st3"
      by (rule sess_step_trans [OF sess_step_open [OF o [unfolded Inr]]
            sess_step_trans [OF sess_step_setenvs sess_step_trans [OF sess_step_requestAgent sess_step_startShell [OF s]]]])
    have swap: "sess_step p (G @ [ch]) st3 (ch # G) st3"
      by (rule sess_step_move) (auto simp: held_ok_def)
    note b = sess_step_trans [OF a swap]
    show ?thesis
    proof (cases e)
      case None
      then have "installShell x p k (if o_BufferSize opts = 0 then 1024 * 1024 else o_BufferSize opts) ch st3 = (r, st')"
        using assms c o Inr s by (simp add: OpenShell_def)
      from sess_step_trans [OF b sess_step_installShell [OF this]] show ?thesis .
    next
      case (Some err)
      then have "st' = st_close x [ch] st3" using assms c o Inr s by (auto simp: OpenShell_def)
      then show ?thesis using sess_step_trans [OF b sess_step_close [of p "[ch]" G, simplified]] by simp
    qed
  qed
qed

text \<open>Handles closed by the peer.\<close>

lemma sess_step_lost: "sess_step p (hs @ G) st G (st\<lparr>st_io := (st_io st)\<lparr>live := live (st_io st) - set hs\<rparr>\<rparr>)"
  (is "sess_step p _ _ _ ?st'")
  unfolding sess_step_def
proof
  assume ok: "held_ok p (hs @ G) st"
  have "io_ok (st_io ?st')" using ok by (auto simp: held_ok_def io_ok_def)
  moreover have "owned st p \<inter> set hs = {}" using ok by (auto simp: held_ok_def simp flip: set_ownedL)
  moreover have "set G \<inter> set hs = {}" using ok by (auto simp: held_ok_def)
  ultimately show "held_ok p G ?st' \<and> others_same p st ?st' \<and>
      live (st_io ?st') - (owned ?st' p \<union> set G) = live (st_io st) - (owned st p \<union> set (hs @ G)) \<and>
      owned ?st' p \<union> set G \<subseteq> owned st p \<union> set (hs @ G) \<union> {h. next_h (st_io st) \<le> h}"
    using ok by (auto simp: held_ok_def others_same_def)
qed

lemma set_shellL [simp]: "set (shellL st h) = shellOwned st h"
  by (simp add: shellL_def shellOwned_def)

lemma sess_step_shellExited:
  assumes g: "gm_get (s_shells (sess st p)) k = Some h"
  shows "sess_step p G st G (shellExited h st)"
proof (cases "sess_wf st p")
  case True
  then have p: "sh_parent (shl st h) = p" "sh_ID (shl st h) = k" using g by (auto simp: sess_wf_def)
  let ?st1 = "updS p (\<lambda>S. S\<lparr>s_shells := gm_del k (s_shells S)\<rparr>) st"
  let ?st2 = "?st1\<lparr>st_io := (st_io ?st1)\<lparr>live := live (st_io ?st1) - set (shellL st h)\<rparr>\<rparr>"
  let ?st3 = "updH h (\<lambda>H. H\<lparr>b_closed := True, b_done := True\<rparr>) ?st2"
  have "h \<notin> set (gm_vals (s_shells (sess ?st1 p)))"
    using True p by (auto simp: sess_wf_def gm_vals_iff split: if_splits)
  then have c: "sess_step p G ?st2 G ?st3" by (intro sess_step_markClosed) (use p in simp_all)
  have "shellExited h st = ?st3"
    using g p by (simp add: shellExited_def Let_def updS_def updH_def)
  then show ?thesis
    using sess_step_trans [OF sess_step_dropShell [OF g] sess_step_trans [OF sess_step_lost c]] by simp
qed (simp add: sess_step_def held_ok_def)

section \<open>What the operations do\<close>

lemma setenvs_frame [simp]: "sess (setenvs x ch env st) = sess st"
proof (induction env arbitrary: st)
  case (Cons kv env)
  then show ?case by (cases kv) (simp add: st_call_def split: prod.split)
qed simp

lemma startShell_frame: "startShell x ch opts st = (r, st') \<Longrightarrow> sess st' = sess st"
  by (auto simp: startShell_def Let_def dest!: st_call_frames split: prod.splits option.splits if_splits)

lemma requestAgent_frame [simp]: "sess (requestAgent x p ch st) = sess st"
  by (simp add: requestAgent_def st_call_def split: prod.split)

lemma installShell_registry:
  assumes "installShell x p k n ch st = (r, st')"
  shows "case r of
       Inl e \<Rightarrow> sess st' = sess st
     | Inr h \<Rightarrow> gm_get (s_shells (sess st p)) k = None \<and> s_shells (sess st' p) = gm_put k h (s_shells (sess st p))"
  using assms
  by (auto simp: installShell_def newShell_def registerShell_def Let_def split: if_splits option.splits)

lemma OpenShell_registry:
  assumes "OpenShell x p k opts st = (r, st')"
  shows "case r of
       Inl e \<Rightarrow> s_shells (sess st' p) = s_shells (sess st p)
     | Inr h \<Rightarrow> gm_get (s_shells (sess st p)) k = None \<and> s_shells (sess st' p) = gm_put k h (s_shells (sess st p))"
proof (cases "getClient st p")
  case (Inl e)
  then have "r = Inl e \<and> st' = st" using assms by (simp add: OpenShell_def)
  then show ?thesis by simp
next
  case c: (Inr client)
  obtain o1 st1 where o: "st_call (io_open (x_new_session x client)) st = (o1, st1)" by fastforce
  show ?thesis
  proof (cases o1)
    case (Inl e)
    then show ?thesis using assms c o st_call_frames [OF o] by (auto simp: OpenShell_def)
  next
    case (Inr ch)
    let ?st2 = "requestAgent x p ch (setenvs x ch (o_Env opts) st1)"
    obtain e st3 where s: "startShell x ch opts ?st2 = (e, st3)" by fastforce
    have 3: "sess st3 = sess st" using startShell_frame [OF s] st_call_frames [OF o] by simp
    show ?thesis
    proof (cases e)
      case None
      then have "installShell x p k (if o_BufferSize opts = 0 then 1024 * 1024 else o_BufferSize opts) ch st3 = (r, st')"
        using assms c o Inr s by (simp add: OpenShell_def)
      from installShell_registry [OF this] show ?thesis using 3 by (auto split: sum.splits)
    next
      case (Some err)
      then show ?thesis using assms c o Inr s 3 by (auto simp: OpenShell_def)
    qed
  qed
qed

text \<open>
  A shell is opened completely or not at all: with the manager's invariant, after
  \<open>OpenShell\<close> the invariant holds again, so whatever fails (the channel, the pty, the start,
  an id that is taken) the channel opened for it is closed; and on success exactly one new
  channel is open, held by the session.
\<close>

theorem OpenShell_accounted:
  assumes "mgr_ok st" and "gm_get (tbl st) k = Some p" and "OpenShell x p sid opts st = (r, st')"
  shows "mgr_ok st' \<and> live (st_io st') = (live (st_io st) - owned st p) \<union> owned st' p \<and>
    (case r of
       Inl e \<Rightarrow> s_shells (sess st' p) = s_shells (sess st p)
     | Inr h \<Rightarrow> gm_get (s_shells (sess st p)) sid = None \<and>
         s_shells (sess st' p) = gm_put sid h (s_shells (sess st p)))"
proof -
  have step: "sess_step p [] st [] st'" by (rule sess_step_OpenShell [OF assms(3)])
  note a = step [unfolded sess_step_def, rule_format, OF mgr_held [OF assms(1,2)]]
  show ?thesis
    using mgr_step [OF assms(1,2) step] a OpenShell_registry [OF assms(3)] by (auto simp: held_ok_def)
qed

text \<open>
  A shell whose process exits before \<open>OpenShell\<close> registers it stays in the registry: the
  exit goroutine has already looked for it in vain, so the dead shell is listed until it is
  closed by hand.
\<close>

theorem shell_exit_before_register:
  assumes "newShell H st = (h, st1)" and "registerShell p h (shellExited h st1) = (None, st2)"
    and "gm_get (s_shells (sess st (sh_parent H))) (sh_ID H) = None"
  shows "gm_get (s_shells (sess st2 p)) (sh_ID H) = Some h \<and> b_closed (shl st2 h) \<and> b_done (shl st2 h)"
  using assms by (auto simp: newShell_def registerShell_def shellExited_def Let_def split: if_splits)

section \<open>Worked instances\<close>

definition demo_opts :: ShellOptions where
  "demo_opts = \<lparr>o_Term = [], o_Rows = 0, o_Cols = 0, o_Env = [(''A'', ''1'')], o_Command = [], o_BufferSize = 0\<rparr>"

theorem OpenShell_accounted_witness:
  "mgr_ok (snd (OpenShell demo_ext 0 ''s'' demo_opts demo_st)) \<and>
     live (st_io (snd (OpenShell demo_ext 0 ''s'' demo_opts demo_st))) = {0, 1}"
proof -
  obtain r st' where o: "OpenShell demo_ext 0 ''s'' demo_opts demo_st = (r, st')" by fastforce
  have g: "gm_get (tbl demo_st) ''a'' = Some 0" by code_simp
  have "(live (st_io demo_st) - owned demo_st 0) \<union> owned (snd (OpenShell demo_ext 0 ''s'' demo_opts demo_st)) 0 = {0, 1}"
    by code_simp
  then show ?thesis using OpenShell_accounted [OF demo_mgr_ok g o] o by simp
qed

definition demo_shell :: Shell where
  "demo_shell = \<lparr>b_data = [], b_max = 10, b_wake = False, b_closed = False, b_done = False,
     sh_ID = ''s'', sh_SessionID = ''a'', sh_parent = 0, sh_chan = 5, sh_OpenedAt = 0\<rparr>"

theorem shell_exit_before_register_witness:
  "let st1 = snd (newShell demo_shell demo_st); st2 = snd (registerShell 0 1 (shellExited 1 st1)) in
     gm_get (s_shells (sess st2 0)) ''s'' = Some 1 \<and> b_closed (shl st2 1)"
proof -
  let ?st1 = "snd (newShell demo_shell demo_st)"
  have a: "newShell demo_shell demo_st = (1, ?st1)" by (simp add: newShell_def demo_st_def)
  have "fst (registerShell 0 1 (shellExited 1 ?st1)) = None" by code_simp
  then have b: "registerShell 0 1 (shellExited 1 ?st1) = (None, snd (registerShell 0 1 (shellExited 1 ?st1)))"
    by (simp add: prod_eq_iff)
  have "sh_ID demo_shell = ''s''" "gm_get (s_shells (sess demo_st (sh_parent demo_shell))) (sh_ID demo_shell) = None"
    by code_simp+
  then show ?thesis using shell_exit_before_register [OF a b] by (simp add: Let_def)
qed

end
