(* ===== verification/SshManagerProps.thy ===== *)
theory SshManagerProps
  imports SshManagerInv
begin

text \<open>
  What the manager's operations do: reconnecting, the keepalive's retry loop, closing, and the
  properties of \<open>Connect\<close>, \<open>Disconnect\<close>, \<open>Reconnect\<close>, \<open>CloneSession\<close> and \<open>CloseAll\<close>.
\<close>

lemma clearClient_sess [simp]:
  "s_client (sess (clearClient x p st) p) = None" "s_jumps (sess (clearClient x p st) p) = []"
  "s_agentConn (sess (clearClient x p st) p) = None" "s_agentOn (sess (clearClient x p st) p) = False"
  "s_Spec (sess (clearClient x p st) q) = s_Spec (sess st q)" "s_forwards (sess (clearClient x p st) q) = s_forwards (sess st q)"
  "s_closed (sess (clearClient x p st) q) = s_closed (sess st q)" "tbl (clearClient x p st) = tbl st"
  "cancelled (clearClient x p st) = cancelled st"
  by (simp_all add: clearClient_def Let_def)

lemma setReconnecting_frame [simp]:
  "s_client (sess (setReconnecting p b st) q) = s_client (sess st q)" "s_jumps (sess (setReconnecting p b st) q) = s_jumps (sess st q)"
  "s_agentConn (sess (setReconnecting p b st) q) = s_agentConn (sess st q)" "s_agentOn (sess (setReconnecting p b st) q) = s_agentOn (sess st q)"
  "s_Spec (sess (setReconnecting p b st) q) = s_Spec (sess st q)" "s_forwards (sess (setReconnecting p b st) q) = s_forwards (sess st q)"
  "s_closed (sess (setReconnecting p b st) q) = s_closed (sess st q)" "s_state (sess (setReconnecting p b st) q) = s_state (sess st q)"
  "s_lastError (sess (setReconnecting p b st) q) = s_lastError (sess st q)"
  "tbl (setReconnecting p b st) = tbl st" "st_io (setReconnecting p b st) = st_io st"
  "cancelled (setReconnecting p b st) = cancelled st"
  by (simp_all add: setReconnecting_def)

lemma sess_step_setReconnecting: "sess_step p G st G (setReconnecting p b st)"
  unfolding setReconnecting_def by (rule sess_step_updS) (simp_all add: transportL_def)

text \<open>The part \<open>Reconnect\<close> and \<open>attemptReconnect\<close> begin with.\<close>

definition reconnectBegin :: "'w ext \<Rightarrow> ptr \<Rightarrow> 'w st \<Rightarrow> 'w st" where
  "reconnectBegin x p st = markState p StateReconnecting None (clearClient x p (setReconnecting p True st))"

lemma reconnectBegin_sess [simp]:
  "s_client (sess (reconnectBegin x p st) p) = None" "s_jumps (sess (reconnectBegin x p st) p) = []"
  "s_agentConn (sess (reconnectBegin x p st) p) = None" "s_agentOn (sess (reconnectBegin x p st) p) = False"
  "s_Spec (sess (reconnectBegin x p st) q) = s_Spec (sess st q)" "s_forwards (sess (reconnectBegin x p st) q) = s_forwards (sess st q)"
  "s_closed (sess (reconnectBegin x p st) q) = s_closed (sess st q)" "tbl (reconnectBegin x p st) = tbl st"
  "cancelled (reconnectBegin x p st) = cancelled st"
  by (simp_all add: reconnectBegin_def)

lemma sess_step_begin: "sess_step p G st G (reconnectBegin x p st)"
  unfolding reconnectBegin_def
  by (rule sess_step_trans [OF sess_step_trans [OF sess_step_setReconnecting sess_step_clearClient] sess_step_markState])

lemma sess_step_redial:
  assumes d: "st_call (dialFinal x spec) st = (Inr (c, jumps, addr), st1)"
    and s: "setClient x p c jumps addr st1 = (b, st2)"
    and e: "s_client (sess st p) = None" "s_jumps (sess st p) = []"
  shows "sess_step p G st G st2"
proof -
  have "sess_step p G st (c # jumps @ G) st1" using sess_step_dial [OF d] by simp
  moreover have "sess_step p (c # jumps @ G) st1 G st2"
    by (rule sess_step_setClient [OF _ _ s]) (simp_all add: e st_call_frame(1) [OF d])
  ultimately show ?thesis by (rule sess_step_trans)
qed

lemma sess_step_dial_err: "st_call (dialFinal x spec) st = (Inl e, st1) \<Longrightarrow> sess_step p G st G st1"
  using sess_step_dial [of x spec st "Inl e" st1 p G] by simp

text \<open>\<open>Reconnect\<close> on a session that is there, in its three outcomes.\<close>

lemma Reconnect_cases:
  assumes g: "gm_get (tbl st) k = Some p" and r: "Reconnect x k st = (r, st')"
  obtains (failed) e st1 where "st_call (dialFinal x (deref (reconnectBegin x p st) (s_Spec (sess st p)))) (reconnectBegin x p st) = (Inl e, st1)"
      "r = Inl e" "st' = setReconnecting p False (markState p StateDisconnected (Some e) st1)"
  | (dialed) c jumps addr st1 b st2 where
      "st_call (dialFinal x (deref (reconnectBegin x p st) (s_Spec (sess st p)))) (reconnectBegin x p st) = (Inr (c, jumps, addr), st1)"
      "setClient x p c jumps addr st1 = (b, st2)"
      "r = (if b then Inr p else Inl (Errorf ''session was closed during reconnect'' []))"
      "st' = setReconnecting p False (if b then rebindForwards x p st2 else st2)"
proof -
  obtain d st1 where d: "st_call (dialFinal x (deref (reconnectBegin x p st) (s_Spec (sess st p)))) (reconnectBegin x p st) = (d, st1)"
    by fastforce
  have R: "Reconnect x k st = (case (d, st1) of
       (Inl e, st) \<Rightarrow> (Inl e, setReconnecting p False (markState p StateDisconnected (Some e) st))
     | (Inr (c, jumps, addr), st) \<Rightarrow>
         (case setClient x p c jumps addr st of
            (False, st) \<Rightarrow> (Inl (Errorf ''session was closed during reconnect'' []), setReconnecting p False st)
          | (True, st) \<Rightarrow> (Inr p, setReconnecting p False (rebindForwards x p st))))"
    using d g by (simp add: Reconnect_def Get_def Let_def flip: reconnectBegin_def)
  show thesis
  proof (cases d)
    case (Inl e)
    then show thesis using failed d R r by simp
  next
    case (Inr t)
    obtain c jumps addr where t: "t = (c, jumps, addr)" by (cases t) auto
    obtain b st2 where s: "setClient x p c jumps addr st1 = (b, st2)" by fastforce
    show thesis
      by (rule dialed [OF d [unfolded Inr t] s]) (use R r s Inr t in \<open>auto split: bool.splits\<close>)
  qed
qed

lemma sess_step_Reconnect:
  assumes g: "gm_get (tbl st) k = Some p" and r: "Reconnect x k st = (r, st')"
  shows "sess_step p G st G st'"
  using g r
proof (cases rule: Reconnect_cases)
  case (failed e st1)
  show ?thesis unfolding failed(3)
    by (rule sess_step_trans [OF sess_step_begin sess_step_trans [OF sess_step_dial_err [OF failed(1)]
          sess_step_trans [OF sess_step_markState sess_step_setReconnecting]]])
next
  case (dialed c jumps addr st1 b st2)
  have a: "sess_step p G st G st2"
    by (rule sess_step_trans [OF sess_step_begin sess_step_redial [OF dialed(1,2)]]) simp_all
  show ?thesis
  proof (cases b)
    case True
    then show ?thesis unfolding dialed(4)
      using sess_step_trans [OF sess_step_trans [OF a sess_step_rebind] sess_step_setReconnecting] by simp
  next
    case False
    then show ?thesis unfolding dialed(4) using sess_step_trans [OF a sess_step_setReconnecting] by simp
  qed
qed

lemma mgr_Reconnect:
  assumes "mgr_ok st" and "Reconnect x k st = (r, st')"
  shows "mgr_ok st'"
proof (cases "gm_get (tbl st) k")
  case None
  then show ?thesis using assms by (auto simp: Reconnect_def Get_def)
next
  case (Some p)
  show ?thesis by (rule mgr_step [OF assms(1) Some sess_step_Reconnect [OF Some assms(2)]])
qed

lemma mgr_Clone:
  assumes "mgr_ok st" and "CloneSession x n src new st = Some (r, st')"
  shows "mgr_ok st' \<and> ((\<exists>e. r = Inl e \<and> st' = st) \<or> connect_post new st r st')"
proof (cases "Get st src")
  case (Inl e)
  then have "r = Inl e \<and> st' = st" using assms(2) by (simp add: CloneSession_def)
  then show ?thesis using assms(1) by blast
next
  case (Inr p)
  then have "Connect x n new (s_Spec (sess st p)) st = Some (r, st')" using assms(2) by (simp add: CloneSession_def)
  from Connect_spec [OF assms(1) this] show ?thesis by simp
qed

text \<open>\<open>CloseAll\<close> empties the table and closes everything.\<close>

lemma closeAllLoop_drains:
  assumes "mgr_ok st" and "tbl st = kps"
  shows "tbl (closeAllLoop x kps st) = [] \<and> live (st_io (closeAllLoop x kps st)) = {} \<and> mgr_ok (closeAllLoop x kps st)"
  using assms
proof (induction kps arbitrary: st)
  case Nil
  then show ?case using mgr_live [OF Nil.prems(1)] by simp
next
  case (Cons kp kps)
  obtain k p where kp: "kp = (k, p)" by fastforce
  have k: "gm_get (tbl st) k = Some p" using Cons.prems kp by (simp add: gm_get_def)
  have "gm_get kps k = None"
    using Cons.prems kp by (auto simp: mgr_ok_def gm_wf_def gm_get_def map_of_eq_None_iff)
  then have "gm_del k (tbl st) = kps"
    using Cons.prems kp gm_del_absent [of kps k] by (simp add: gm_del_def)
  then show ?case
    using Cons.IH [OF mgr_close(3) [OF Cons.prems(1) k]] kp by (simp add: close_frame)
qed

section \<open>The retry loop\<close>

lemma rebindForwards_sess [simp]: "sess (rebindForwards x p st) = sess st" "tbl (rebindForwards x p st) = tbl st"
  by (simp_all add: rebindForwards_def)

lemma rebindAll_cancelled: "cancelled (rebindAll x p fs st) = cancelled st"
proof (induction fs arbitrary: st)
  case (Cons f fs)
  have "cancelled (rebindOne x p f st) = cancelled st"
    by (auto simp: rebindOne_def swapListener_def split: fwd_spec.splits sum.splits prod.splits dest!: st_call_frames)
  with Cons show ?case by simp
qed simp

text \<open>How the loop can have ended.\<close>

definition retry_end :: "ptr \<Rightarrow> nat \<Rightarrow> 'w st \<Rightarrow> bool" where
  "retry_end p ctx st \<longleftrightarrow> ctx \<in> cancelled st \<or> s_closed (sess st p) \<or> s_client (sess st p) \<noteq> None"

lemma setClient_end:
  "setClient x p c jumps addr st = (b, st') \<Longrightarrow>
     (if b then s_client (sess st' p) = Some c else s_closed (sess st' p))"
  by (auto simp: setClient_def split: if_splits)

lemma attemptLoop_waits:
  "attemptLoop x env p ctx i n st = Some (ws, st') \<Longrightarrow> ws = map backoff [i..<i + length ws] \<and> retry_end p ctx st'"
proof (induction n arbitrary: i st ws)
  case (Suc n)
  show ?case
  proof (cases "ctx \<in> cancelled st")
    case True
    then show ?thesis using Suc.prems by (auto simp: retry_end_def)
  next
    case False
    obtain d st1 where d: "st_call (dialFinal x (deref st (s_Spec (sess st p)))) st = (d, st1)" by fastforce
    show ?thesis
    proof (cases d)
      case (Inl e)
      let ?st2 = "env i (markState p StateReconnecting (Some e) st1)"
      show ?thesis
      proof (cases "ctx \<in> cancelled ?st2")
        case True
        then show ?thesis using Suc.prems False d Inl by (auto simp: retry_end_def)
      next
        case nc: False
        then obtain vs where v: "attemptLoop x env p ctx (Suc i) n ?st2 = Some (vs, st')" "ws = backoff i # vs"
          using Suc.prems False d Inl by auto
        note ih = Suc.IH [OF v(1)]
        have "[i..<i + length ws] = i # [Suc i..<Suc i + length vs]" by (subst upt_conv_Cons) (simp_all add: v(2))
        then show ?thesis using ih v(2) by simp
      qed
    next
      case (Inr t)
      obtain c jumps addr where t: "t = (c, jumps, addr)" by (cases t) auto
      obtain b st2 where s: "setClient x p c jumps addr st1 = (b, st2)" by fastforce
      show ?thesis
        using Suc.prems False d Inr t s setClient_end [OF s] by (cases b) (auto simp: retry_end_def)
    qed
  qed
qed simp

text \<open>As long as dialing fails and nobody cancels, the loop goes on for ever.\<close>

lemma io_open_refused: "fst (f (orc w)) \<noteq> None \<Longrightarrow> \<exists>e w'. io_open f w = (Inl e, w')"
  by (cases "f (orc w)") (auto simp: io_open_def)

lemma dialThrough_down:
  assumes "\<forall>a c v. fst (x_ssh_dial x a c v) \<noteq> None" and "\<forall>h a v. fst (x_chan_dial x h a v) \<noteq> None"
  shows "\<exists>e w'. dialThrough x chain a c w = (Inl e, w')"
proof (cases "chain = []")
  case True
  obtain e w' where "io_open (x_ssh_dial x a c) w = (Inl e, w')"
    using io_open_refused assms(1) by metis
  then show ?thesis using True by (simp add: dialThrough_def)
next
  case False
  obtain e w' where "io_open (x_chan_dial x (last chain) a) w = (Inl e, w')"
    using io_open_refused assms(2) by metis
  then show ?thesis using False by (simp add: dialThrough_def)
qed

lemma dialLoop_down:
  assumes "\<forall>a c v. fst (x_ssh_dial x a c v) \<noteq> None" and "\<forall>h a v. fst (x_chan_dial x h a v) \<noteq> None"
  shows "\<exists>e w'. dialLoop x chain mk addrs le w = (Inl e, w')"
proof (induction addrs arbitrary: le w)
  case (Cons a addrs)
  obtain e w' where "dialThrough x chain a (mk w a) w = (Inl e, w')"
    using dialThrough_down [OF assms] by blast
  then show ?case using Cons.IH by simp
qed simp

lemma dialFinal_down:
  assumes "\<forall>a c v. fst (x_ssh_dial x a c v) \<noteq> None" and "\<forall>h a v. fst (x_chan_dial x h a v) \<noteq> None"
  shows "\<exists>e w'. dialFinal x spec w = (Inl e, w')"
proof (cases "dialFinal x spec w")
  case (Pair r w')
  have "r \<noteq> Inr t" for t
  proof
    assume "r = Inr t"
    then obtain chain mk addrs w1 c w2 where "dialLoop x chain mk addrs None w1 = (Inr c, w2)"
      using Pair by (auto simp: dialFinal_def split: sum.splits prod.splits)
    then show False using dialLoop_down [OF assms, of chain mk addrs None w1] by auto
  qed
  then show ?thesis using Pair by (cases r) auto
qed

lemma attemptLoop_forever:
  assumes "\<forall>a c v. fst (x_ssh_dial x a c v) \<noteq> None" and "\<forall>h a v. fst (x_chan_dial x h a v) \<noteq> None"
    and "\<forall>i st. ctx \<notin> cancelled st \<longrightarrow> ctx \<notin> cancelled (env i st)" and "ctx \<notin> cancelled st"
  shows "attemptLoop x env p ctx i n st = None"
  using assms(4)
proof (induction n arbitrary: i st)
  case (Suc n)
  obtain e w where "dialFinal x (deref st (s_Spec (sess st p))) (st_io st) = (Inl e, w)"
    using dialFinal_down [OF assms(1,2)] by blast
  then have "st_call (dialFinal x (deref st (s_Spec (sess st p)))) st = (Inl e, st\<lparr>st_io := w\<rparr>)"
    by (simp add: st_call_def)
  then show ?case using Suc assms(3) by (simp add: Let_def)
qed simp

lemma sess_step_attemptLoop:
  assumes env: "\<And>i st. sess_step p G st G (env i st)"
      "\<And>i st. s_client (sess (env i st) p) = s_client (sess st p) \<and> s_jumps (sess (env i st) p) = s_jumps (sess st p)"
  shows "attemptLoop x env p ctx i n st = Some (ws, st') \<Longrightarrow> s_client (sess st p) = None \<Longrightarrow>
    s_jumps (sess st p) = [] \<Longrightarrow> sess_step p G st G st'"
proof (induction n arbitrary: i st ws)
  case (Suc n)
  show ?case
  proof (cases "ctx \<in> cancelled st")
    case True
    then show ?thesis using Suc.prems by auto
  next
    case False
    obtain d st1 where d: "st_call (dialFinal x (deref st (s_Spec (sess st p)))) st = (d, st1)" by fastforce
    show ?thesis
    proof (cases d)
      case (Inl e)
      let ?st2 = "env i (markState p StateReconnecting (Some e) st1)"
      have a: "sess_step p G st G ?st2"
        by (rule sess_step_trans [OF sess_step_dial_err [OF d [unfolded Inl]] sess_step_trans [OF sess_step_markState env(1)]])
      have "s_client (sess ?st2 p) = None" "s_jumps (sess ?st2 p) = []"
        using env(2) st_call_frame(1) [OF d] Suc.prems by simp_all
      then show ?thesis
        using Suc.prems Suc.IH [of "Suc i" ?st2] False d Inl a
        by (auto simp: Let_def split: if_splits intro: sess_step_trans)
    next
      case (Inr t)
      obtain c jumps addr where t: "t = (c, jumps, addr)" by (cases t) auto
      obtain b st2 where s: "setClient x p c jumps addr st1 = (b, st2)" by fastforce
      have a: "sess_step p G st G st2"
        by (rule sess_step_redial [OF d [unfolded Inr t] s]) (use Suc.prems in simp_all)
      show ?thesis
        using Suc.prems False d Inr t s a sess_step_trans [OF a sess_step_rebind] by (cases b) auto
    qed
  qed
qed simp

section \<open>What the operations guarantee\<close>

text \<open>
  C1. Connecting is all or nothing.  On success the id was free, the session is in the table,
  connected, and exactly the newly opened handles are its own; on any error (no id, no user, the
  id taken, a dial that fails anywhere in the chain) the table and the open handles are as
  before.  In both cases the manager's invariant is kept.
\<close>

theorem Connect_all_or_nothing:
  assumes "mgr_ok st" and "Connect x n k spec st = Some (r, st')"
  shows "mgr_ok st' \<and>
    (case r of
       Inl e \<Rightarrow> tbl st' = tbl st \<and> live (st_io st') = live (st_io st)
     | Inr p \<Rightarrow> k \<noteq> [] \<and> gm_get (tbl st) k = None \<and> tbl st' = gm_put k p (tbl st) \<and>
         s_client (sess st' p) \<noteq> None \<and> s_state (sess st' p) = StateConnected \<and>
         live (st_io st') = live (st_io st) \<union> owned st' p \<and> owned st' p \<inter> live (st_io st) = {})"
  using Connect_spec [OF assms] by (simp add: connect_post_def)

text \<open>
  C2. Disconnecting drains the session: it leaves the table, its keepalive is cancelled, every
  handle it held (client, jump clients, sftp, agent, the listeners of its forwards, the channels
  of its shells) is closed and nothing else is, no other session changes, and a second
  \<open>Disconnect\<close> reports that the session is not there.
\<close>

theorem Disconnect_drains:
  assumes "mgr_ok st" and "gm_get (tbl st) k = Some p" and "Disconnect x k st = (r, st')"
  shows "r = None \<and> mgr_ok st' \<and> tbl st' = gm_del k (tbl st) \<and>
    live (st_io st') = live (st_io st) - owned st p \<and> owned st' p = {} \<and>
    s_closed (sess st' p) \<and> s_state (sess st' p) = StateDisconnected \<and>
    set_option (s_keepalive (sess st p)) \<subseteq> cancelled st' \<and>
    (\<forall>q. q \<noteq> p \<longrightarrow> sess st' q = sess st q) \<and>
    fst (Disconnect x k st') \<noteq> None"
proof -
  let ?st1 = "st\<lparr>tbl := gm_del k (tbl st)\<rparr>"
  have r: "r = None" "st' = close x p ?st1" using assms(2,3) by (simp_all add: Disconnect_def)
  have nc: "\<not> s_closed (sess ?st1 p)" using mgr_sess [OF assms(1,2)] by simp
  note s = close_sess [OF nc, of x]
  have "tbl st' = gm_del k (tbl st)" using r by (simp add: close_frame)
  moreover have "owned st' p = {}"
    using s r by (simp add: owned_def transport_def gm_vals_def)
  moreover have "s_closed (sess st' p) \<and> s_state (sess st' p) = StateDisconnected" using s r by simp
  moreover have "set_option (s_keepalive (sess st p)) \<subseteq> cancelled st'" using close_cancels [OF nc, of x] r by simp
  moreover have "q \<noteq> p \<Longrightarrow> sess st' q = sess st q" for q using close_frame(6) [of q p x ?st1] r by simp
  ultimately show ?thesis
    using r mgr_close(1,2) [OF assms(1,2), of x] by (simp add: Disconnect_def)
qed

text \<open>
  C14. A reconnect keeps the session, its forwards and the invariant, and on success it is
  connected again; but agent forwarding is lost: whatever \<open>forward_agent\<close> says, afterwards it is
  off and no agent connection is held.  On a dial error the session stays in the table,
  disconnected, without a client, and remembers the error.
\<close>

theorem Reconnect_outcome:
  assumes "mgr_ok st" and "gm_get (tbl st) k = Some p" and "Reconnect x k st = (r, st')"
  shows "mgr_ok st' \<and> tbl st' = tbl st \<and> s_forwards (sess st' p) = s_forwards (sess st p) \<and>
    \<not> s_agentOn (sess st' p) \<and> s_agentConn (sess st' p) = None \<and>
    (case r of
       Inr q \<Rightarrow> q = p \<and> s_client (sess st' p) \<noteq> None \<and> s_state (sess st' p) = StateConnected
     | Inl e \<Rightarrow> s_client (sess st' p) = None \<and> s_state (sess st' p) = StateDisconnected \<and>
         s_lastError (sess st' p) = Some e)"
  using assms(2,3)
proof (cases rule: Reconnect_cases)
  case (failed e st1)
  have "sess st1 = sess (reconnectBegin x p st) \<and> tbl st1 = tbl st" using st_call_frames [OF failed(1)] by simp
  then show ?thesis
    using failed mgr_Reconnect [OF assms(1,3)] by (auto simp: markState_def setReconnecting_def)
next
  case (dialed c jumps addr st1 b st2)
  have 1: "sess st1 = sess (reconnectBegin x p st) \<and> tbl st1 = tbl st" using st_call_frames [OF dialed(1)] by simp
  then have "\<not> s_closed (sess st1 p)" using mgr_sess [OF assms(1,2)] by simp
  then have b "st2 = updS p (\<lambda>S. S\<lparr>s_client := Some c, s_jumps := jumps, s_addr := addr,
      s_state := StateConnected, s_lastError := None, s_connectedAt := x_now x (orc (st_io st1))\<rparr>) st1"
    using dialed(2) by (auto simp: setClient_def)
  then show ?thesis
    using dialed(3,4) 1 mgr_Reconnect [OF assms(1,3)] by simp
qed

text \<open>
  C29. The retry loop waits 1, 2, 5, 10, 30, 30, ... seconds: the waits it made are the first ones
  of the back-off, in order, and it ends only when its context is cancelled, the session is
  closed, or a client is installed.
\<close>

theorem attemptReconnect_backoff:
  assumes "attemptReconnect x env p ctx n st = Some (ws, st')" and "\<not> s_reconnecting (sess st p)"
  shows "ws = map backoff [0..<length ws] \<and>
    (ctx \<in> cancelled st' \<or> s_closed (sess st' p) \<or> s_client (sess st' p) \<noteq> None) \<and>
    \<not> s_reconnecting (sess st' p)"
proof -
  obtain st1 where l: "attemptLoop x env p ctx 0 n (reconnectBegin x p st) = Some (ws, st1)"
    and st': "st' = setReconnecting p False st1"
    using assms by (auto simp: attemptReconnect_def simp flip: reconnectBegin_def)
  show ?thesis
    using attemptLoop_waits [OF l] st' by (auto simp: retry_end_def setReconnecting_def)
qed

text \<open>
  The retry loop never gives up: while no host answers and the context is not cancelled it
  does not return, whatever the number of attempts.
\<close>

theorem attemptReconnect_persists:
  assumes "\<forall>a c v. fst (x_ssh_dial x a c v) \<noteq> None" and "\<forall>h a v. fst (x_chan_dial x h a v) \<noteq> None"
    and "\<forall>i st. ctx \<notin> cancelled st \<longrightarrow> ctx \<notin> cancelled (env i st)"
    and "ctx \<notin> cancelled st" and "\<not> s_reconnecting (sess st p)"
  shows "attemptReconnect x env p ctx n st = None"
  using attemptLoop_forever [of x ctx env "reconnectBegin x p st" p 0 n] assms
  by (simp add: attemptReconnect_def flip: reconnectBegin_def)

text \<open>
  C3. Shutting down leaves nothing open: after \<open>CloseAll\<close> the table is empty and every handle
  the ssh side ever opened is closed.
\<close>

theorem CloseAll_drains:
  assumes "mgr_ok st"
  shows "tbl (CloseAll x st) = [] \<and> live (st_io (CloseAll x st)) = {}"
  using closeAllLoop_drains [OF assms refl] by (simp add: CloseAll_def)

section \<open>Worked instances\<close>

definition demo_ref :: spec_ref where
  "demo_ref = s_Spec (demo_session ''a'')"

definition demo_conn_st :: "nat st" where
  "demo_conn_st = snd (the (Connect demo_ext 2 ''b'' demo_ref demo_st))"

lemma demo_connect: "Connect demo_ext 2 ''b'' demo_ref demo_st = Some (Inr 1, demo_conn_st)"
proof -
  have "map_option fst (Connect demo_ext 2 ''b'' demo_ref demo_st) = Some (Inr 1)" by code_simp
  then show ?thesis by (auto simp: demo_conn_st_def prod_eq_iff)
qed

theorem Connect_all_or_nothing_witness:
  "mgr_ok demo_conn_st \<and> gm_get (tbl demo_st) ''b'' = None \<and> tbl demo_conn_st = gm_put ''b'' 1 (tbl demo_st) \<and>
     s_state (sess demo_conn_st 1) = StateConnected"
  using Connect_all_or_nothing [OF demo_mgr_ok demo_connect] by simp

lemma demo_get_a: "gm_get (tbl demo_st) ''a'' = Some 0"
  by code_simp

theorem Disconnect_drains_witness:
  "let st' = snd (Disconnect demo_ext ''a'' demo_st) in
     tbl st' = [] \<and> live (st_io st') = {} \<and> fst (Disconnect demo_ext ''a'' st') \<noteq> None"
proof -
  obtain r st' where d: "Disconnect demo_ext ''a'' demo_st = (r, st')" by fastforce
  have "gm_del ''a'' (tbl demo_st) = []" "live (st_io demo_st) - owned demo_st 0 = {}" by code_simp+
  then show ?thesis
    using Disconnect_drains [OF demo_mgr_ok demo_get_a d] d by simp
qed

theorem Reconnect_outcome_witness:
  "let (r, st') = Reconnect demo_ext ''a'' demo_st in
     r = Inr 0 \<and> s_client (sess st' 0) \<noteq> None \<and> s_state (sess st' 0) = StateConnected"
proof -
  obtain r st' where d: "Reconnect demo_ext ''a'' demo_st = (r, st')" by fastforce
  have "fst (Reconnect demo_ext ''a'' demo_st) = Inr 0" by code_simp
  then show ?thesis
    using Reconnect_outcome [OF demo_mgr_ok demo_get_a d] d by simp
qed

text \<open>A world where every connection is refused, and one attempt of the loop cancelled in its wait.\<close>

definition dead_ext :: "nat ext" where
  "dead_ext = demo_ext\<lparr>x_parse_key := (\<lambda>d. Inl (ExtErr ''bad'')), x_ssh_dial := (\<lambda>a c n. (Some (ExtErr ''refused''), Suc n)),
     x_chan_dial := (\<lambda>h a n. (Some (ExtErr ''refused''), Suc n))\<rparr>"

definition demo_retry :: "(duration list \<times> nat st) option" where
  "demo_retry = attemptReconnect dead_ext (\<lambda>i st. if i = 2 then st\<lparr>cancelled := {7}\<rparr> else st) 0 7 5 demo_st"

theorem attemptReconnect_backoff_witness:
  "\<exists>st'. demo_retry = Some ([1000000000, 2000000000, 5000000000], st') \<and>
     (7 \<in> cancelled st' \<or> s_closed (sess st' 0) \<or> s_client (sess st' 0) \<noteq> None)"
proof -
  have "map_option fst demo_retry = Some [1000000000, 2000000000, 5000000000]" by code_simp
  then obtain st' where r: "demo_retry = Some ([1000000000, 2000000000, 5000000000], st')"
    by (auto simp: prod_eq_iff)
  have "\<not> s_reconnecting (sess demo_st 0)" by code_simp
  from attemptReconnect_backoff [OF r [unfolded demo_retry_def] this] r show ?thesis by blast
qed

theorem attemptReconnect_persists_witness:
  "attemptReconnect dead_ext (\<lambda>i st. st) 0 7 1000 demo_st = None"
  by (rule attemptReconnect_persists) (simp_all add: dead_ext_def demo_st_def demo_session_def)

theorem CloseAll_drains_witness:
  "tbl (CloseAll demo_ext demo_st) = [] \<and> live (st_io (CloseAll demo_ext demo_st)) = {}"
  by (rule CloseAll_drains [OF demo_mgr_ok])

end
