(* ===== verification/DockerHost.thy ===== *)
theory DockerHost
  imports SshAuth ShellBuf
begin

text \<open>
  \<open>internal/dockerx\<close>: connecting to a docker daemon (\<open>connect.go\<close>, directly or over ssh), the
  hosts and their manager (\<open>manager.go\<close>), and the exec shells in containers (\<open>shell.go\<close>).  The
  docker client (\<open>moby/client\<close>) and \<open>net/url\<close> are parameters.
\<close>

record DockerSpec =
  dc_Host :: string
  dc_TLSCertPath :: string
  dc_TLSKeyPath :: string
  dc_TLSCAPath :: string
  dc_APIVersion :: string
  dc_KeyPath :: string
  dc_KeyPassphrase :: string
  dc_UseAgent :: bool
  dc_AgentSocket :: string
  dc_Password :: string
  dc_KnownHostsPath :: string
  dc_SSHInsecure :: bool
  dc_Persistent :: bool

text \<open>The options \<open>client.New\<close> gets; \<open>co_via\<close> is the dialer through an ssh client.\<close>

record ClientOpts =
  co_Host :: string
  co_Version :: string
  co_TLS :: "(string \<times> string \<times> string) option"
  co_via :: "(handle \<times> string) option"

record ExecCreate =
  ec_Container :: string
  ec_Cmd :: "string list"
  ec_Env :: "string list"
  ec_User :: string
  ec_WorkingDir :: string
  ec_Size :: "nat \<times> nat"

record 'w dext =
  y_client_new :: "ClientOpts \<Rightarrow> 'w query"
  y_ping :: "handle \<Rightarrow> 'w query"
  y_url_parse :: "string \<Rightarrow> (string \<times> string \<times> string \<times> string) res"  \<comment> \<open>user, hostname, port, path\<close>
  y_exec_create :: "handle \<Rightarrow> ExecCreate \<Rightarrow> 'w \<Rightarrow> string res \<times> 'w"
  y_exec_attach :: "handle \<Rightarrow> string \<Rightarrow> nat \<times> nat \<Rightarrow> 'w query"
  y_exec_resize :: "handle \<Rightarrow> string \<Rightarrow> nat \<Rightarrow> nat \<Rightarrow> 'w query"
  y_conn_write :: "handle \<Rightarrow> string \<Rightarrow> 'w \<Rightarrow> (int \<times> goerr option) \<times> 'w"

record hostConn =
  hc_docker :: handle
  hc_ssh :: "handle option"

section \<open>Dialing\<close>

definition tlsOf :: "DockerSpec \<Rightarrow> (string \<times> string \<times> string) option" where
  "tlsOf spec =
     (if dc_TLSCertPath spec \<noteq> [] \<or> dc_TLSCAPath spec \<noteq> []
      then Some (dc_TLSCAPath spec, dc_TLSCertPath spec, dc_TLSKeyPath spec) else None)"

definition dockerAuth :: "DockerSpec \<Rightarrow> AuthSpec" where
  "dockerAuth spec = \<lparr>KeyPath = dc_KeyPath spec, KeyPassphrase = dc_KeyPassphrase spec, UseAgent = dc_UseAgent spec,
     AgentSocket = dc_AgentSocket spec, Password = dc_Password spec\<rparr>"

definition dockerSocket :: "string \<Rightarrow> string" where
  "dockerSocket path =
     (let socket = trimPrefix path ''/'' in if socket = [] then ''/var/run/docker.sock'' else ''/'' @ socket)"

text \<open>From the dialed ssh client \<open>sc\<close> to the pinged docker client.\<close>

definition dockerOverClient ::
    "'w ext \<Rightarrow> 'w dext \<Rightarrow> DockerSpec \<Rightarrow> string \<Rightarrow> handle \<Rightarrow> 'w io \<Rightarrow> hostConn res \<times> 'w io" where
  "dockerOverClient x d spec path sc w =
     (case io_open (y_client_new d \<lparr>co_Host = ''http://docker'', co_Version = dc_APIVersion spec, co_TLS = None,
                                    co_via = Some (sc, dockerSocket path)\<rparr>) w of
        (Inl e, w) \<Rightarrow> (Inl (Wrapf ''docker client over ssh: %w'' [] e), io_close_all (x_close x) [sc] w)
      | (Inr c, w) \<Rightarrow>
          (case io_call (y_ping d c) w of
             (Some e, w) \<Rightarrow> (Inl (Wrapf ''ping docker daemon over ssh: %w'' [] e), io_close_all (x_close x) [c, sc] w)
           | (None, w) \<Rightarrow> (Inr \<lparr>hc_docker = c, hc_ssh = Some sc\<rparr>, w)))"

definition dialDockerOverSSH :: "'w ext \<Rightarrow> 'w dext \<Rightarrow> string \<Rightarrow> DockerSpec \<Rightarrow> 'w io \<Rightarrow> hostConn res \<times> 'w io" where
  "dialDockerOverSSH x d rawURL spec w =
     (case y_url_parse d rawURL of
        Inl e \<Rightarrow> (Inl (Wrapf ''parse ssh url: %w'' [] e), w)
      | Inr (user, hostname, port0, path) \<Rightarrow>
          (if user = [] then (Inl (Errorf ''ssh:// docker host requires a user (ssh://user@host)'' []), w)
           else
             (let addr = joinHostPort hostname (if port0 = [] then ''22'' else port0) in
              case Build x (dockerAuth spec) w of
                (Inl e, w) \<Rightarrow> (Inl e, w)
              | (Inr (methods, closers), w) \<Rightarrow>
                  (case HostKeyCallback x (dc_SSHInsecure spec) (dc_KnownHostsPath spec) w of
                     Inl e \<Rightarrow> (Inl e, io_close_all (x_close x) closers w)
                   | Inr hostKey \<Rightarrow>
                       (case io_open (x_ssh_dial x addr \<lparr>cfg_User = user, cfg_Auth = methods,
                               cfg_HostKeyCallback = hostKey, cfg_Timeout = 15 * 1000000000,
                               cfg_HostKeyAlgorithms = (if dc_SSHInsecure spec then []
                                 else HostKeyAlgorithmsFor x (dc_KnownHostsPath spec) hostname w)\<rparr>) w of
                          (Inl e, w) \<Rightarrow> (Inl (Wrapf ''ssh dial %s: %w'' [addr] e), io_close_all (x_close x) closers w)
                        | (Inr sc, w) \<Rightarrow>
                            (case dockerOverClient x d spec path sc w of
                               (r, w) \<Rightarrow> (r, io_close_all (x_close x) closers w)))))))"

definition dialDocker :: "'w ext \<Rightarrow> 'w dext \<Rightarrow> DockerSpec \<Rightarrow> 'w io \<Rightarrow> hostConn res \<times> 'w io" where
  "dialDocker x d spec w =
     (let host = trimSpace (dc_Host spec) in
      if host = [] then (Inl (Errorf ''host is required'' []), w)
      else if hasPrefix host ''ssh://'' then dialDockerOverSSH x d host spec w
      else (case io_open (y_client_new d \<lparr>co_Host = host, co_Version = dc_APIVersion spec, co_TLS = tlsOf spec,
                                          co_via = None\<rparr>) w of
              (Inl e, w) \<Rightarrow> (Inl (Wrapf ''docker client %q: %w'' [host] e), w)
            | (Inr c, w) \<Rightarrow>
                (case io_call (y_ping d c) w of
                   (Some e, w) \<Rightarrow> (Inl (Wrapf ''ping docker daemon: %w'' [] e), io_close_all (x_close x) [c] w)
                 | (None, w) \<Rightarrow> (Inr \<lparr>hc_docker = c, hc_ssh = None\<rparr>, w))))"

definition connHandles :: "hostConn \<Rightarrow> handle list" where
  "connHandles hc = hc_docker hc # (case hc_ssh hc of None \<Rightarrow> [] | Some s \<Rightarrow> [s])"

section \<open>Hosts and shells\<close>


record DShellOptions =
  do_Container :: string
  do_Cmd :: "string list"
  do_Env :: "string gomap"
  do_User :: string
  do_WorkingDir :: string
  do_Rows :: nat
  do_Cols :: nat
  do_BufferSize :: int

record DShell = Buf +
  dsh_ID :: string
  dsh_HostID :: string
  dsh_Spec :: DShellOptions
  dsh_OpenedAt :: int
  dsh_execID :: string
  dsh_host :: ptr
  dsh_attach :: handle

record Host =
  h_ID :: string
  h_Spec :: DockerSpec
  h_conn :: "hostConn option"
  h_connectedAt :: int
  h_lastError :: "goerr option"
  h_shells :: "ptr gomap"
  h_closed :: bool

record 'w dst =
  d_io :: "'w io"
  hosts :: "ptr gomap"
  hst :: "ptr \<Rightarrow> Host"
  dsh :: "ptr \<Rightarrow> DShell"
  d_nxt :: ptr

record HostInfo =
  hoi_ID :: string
  hoi_Host :: string
  hoi_State :: string
  hoi_ConnectedAt :: int
  hoi_LastError :: "goerr option"
  hoi_Persistent :: bool
  hoi_Shells :: "string list"

definition hostInfo :: "'w dst \<Rightarrow> ptr \<Rightarrow> HostInfo" where
  "hostInfo st p =
     (let H = hst st p in
      \<lparr>hoi_ID = h_ID H, hoi_Host = dc_Host (h_Spec H),
       hoi_State = (if h_conn H \<noteq> None then ''connected'' else ''disconnected''),
       hoi_ConnectedAt = h_connectedAt H, hoi_LastError = h_lastError H, hoi_Persistent = dc_Persistent (h_Spec H),
       hoi_Shells = gm_keys (h_shells H)\<rparr>)"

record HostRow =
  hor_ID :: string
  hor_Host :: string
  hor_State :: string
  hor_LastError :: "goerr option"
  hor_Persistent :: bool
  hor_Shells :: nat

definition hostRow :: "HostInfo \<Rightarrow> HostRow" where
  "hostRow i = \<lparr>hor_ID = hoi_ID i, hor_Host = hoi_Host i, hor_State = hoi_State i, hor_LastError = hoi_LastError i,
     hor_Persistent = hoi_Persistent i, hor_Shells = length (hoi_Shells i)\<rparr>"

definition dclient :: "'w dst \<Rightarrow> ptr \<Rightarrow> handle res" where
  "dclient st p =
     (case h_conn (hst st p) of
        None \<Rightarrow> Inl (Errorf ''docker host %q is disconnected'' [h_ID (hst st p)])
      | Some hc \<Rightarrow> Inr (hc_docker hc))"

definition updHost :: "ptr \<Rightarrow> (Host \<Rightarrow> Host) \<Rightarrow> 'w dst \<Rightarrow> 'w dst" where
  "updHost p f st = st\<lparr>hst := (hst st)(p := f (hst st p))\<rparr>"

definition updDsh :: "ptr \<Rightarrow> (DShell \<Rightarrow> DShell) \<Rightarrow> 'w dst \<Rightarrow> 'w dst" where
  "updDsh p f st = st\<lparr>dsh := (dsh st)(p := f (dsh st p))\<rparr>"

definition d_close :: "'w ext \<Rightarrow> handle list \<Rightarrow> 'w dst \<Rightarrow> 'w dst" where
  "d_close x hs st = st\<lparr>d_io := io_close_all (x_close x) hs (d_io st)\<rparr>"

definition d_call :: "('w io \<Rightarrow> 'a \<times> 'w io) \<Rightarrow> 'w dst \<Rightarrow> 'a \<times> 'w dst" where
  "d_call f st = (case f (d_io st) of (a, w) \<Rightarrow> (a, st\<lparr>d_io := w\<rparr>))"

definition dshellClose :: "'w ext \<Rightarrow> ptr \<Rightarrow> 'w dst \<Rightarrow> 'w dst" where
  "dshellClose x s st =
     (if b_closed (dsh st s) then st
      else updDsh s (\<lambda>S. S\<lparr>b_done := True\<rparr>)
             (d_close x [dsh_attach (dsh st s)] (updDsh s (\<lambda>S. S\<lparr>b_closed := True\<rparr>) st)))"

fun dcloseShells :: "'w ext \<Rightarrow> ptr list \<Rightarrow> 'w dst \<Rightarrow> 'w dst" where
  "dcloseShells x [] st = st"
| "dcloseShells x (s # ss) st = dcloseShells x ss (dshellClose x s st)"

definition hostClose :: "'w ext \<Rightarrow> ptr \<Rightarrow> 'w dst \<Rightarrow> 'w dst" where
  "hostClose x p st =
     (if h_closed (hst st p) then st
      else (let st = updHost p (\<lambda>H. H\<lparr>h_closed := True\<rparr>) st;
                st = updHost p (\<lambda>H. H\<lparr>h_shells := []\<rparr>) (dcloseShells x (gm_vals (h_shells (hst st p))) st)
            in case h_conn (hst st p) of
                 None \<Rightarrow> st
               | Some hc \<Rightarrow> updHost p (\<lambda>H. H\<lparr>h_conn := None\<rparr>) (d_close x (connHandles hc) st)))"

section \<open>The manager\<close>

definition newHost :: "'w ext \<Rightarrow> string \<Rightarrow> DockerSpec \<Rightarrow> hostConn \<Rightarrow> 'w dst \<Rightarrow> Host" where
  "newHost x k spec hc st = \<lparr>h_ID = k, h_Spec = spec, h_conn = Some hc, h_connectedAt = x_now x (orc (d_io st)),
     h_lastError = None, h_shells = [], h_closed = False\<rparr>"

text \<open>The second half of \<open>Connect\<close>, under the manager's lock again.\<close>

definition dockerInstall :: "'w ext \<Rightarrow> string \<Rightarrow> DockerSpec \<Rightarrow> hostConn \<Rightarrow> 'w dst \<Rightarrow> ptr res \<times> 'w dst" where
  "dockerInstall x k spec hc st =
     (if gm_get (hosts st) k \<noteq> None then
        (Inl (Errorf ''docker host %q created concurrently'' [k]), d_close x (connHandles hc) st)
      else (Inr (d_nxt st), st\<lparr>hst := (hst st)(d_nxt st := newHost x k spec hc st),
              hosts := gm_put k (d_nxt st) (hosts st), d_nxt := Suc (d_nxt st)\<rparr>))"

definition dockerConnect :: "'w ext \<Rightarrow> 'w dext \<Rightarrow> string \<Rightarrow> DockerSpec \<Rightarrow> 'w dst \<Rightarrow> ptr res \<times> 'w dst" where
  "dockerConnect x d k spec st =
     (if k = [] then (Inl (Errorf ''docker host id is required'' []), st)
      else if gm_get (hosts st) k \<noteq> None then (Inl (Errorf ''docker host %q already exists'' [k]), st)
      else (case d_call (dialDocker x d spec) st of
              (Inl e, st) \<Rightarrow> (Inl e, st)
            | (Inr hc, st) \<Rightarrow> dockerInstall x k spec hc st))"

definition dockerGet :: "'w dst \<Rightarrow> string \<Rightarrow> ptr res" where
  "dockerGet st k =
     (case gm_get (hosts st) k of
        None \<Rightarrow> Inl (Errorf ''docker host %q not found'' [k])
      | Some p \<Rightarrow> Inr p)"

definition dockerDisconnect :: "'w ext \<Rightarrow> string \<Rightarrow> 'w dst \<Rightarrow> goerr option \<times> 'w dst" where
  "dockerDisconnect x k st =
     (case gm_get (hosts st) k of
        None \<Rightarrow> (Some (Errorf ''docker host %q not found'' [k]), st)
      | Some p \<Rightarrow> (None, hostClose x p (st\<lparr>hosts := gm_del k (hosts st)\<rparr>)))"

definition dockerList :: "'w dst \<Rightarrow> HostInfo list" where
  "dockerList st = map (hostInfo st) (gm_vals (hosts st))"

definition dockerHosts :: "'w dst \<Rightarrow> ptr gomap" where
  "dockerHosts st = hosts st"

fun dcloseAllLoop :: "'w ext \<Rightarrow> (string \<times> ptr) list \<Rightarrow> 'w dst \<Rightarrow> 'w dst" where
  "dcloseAllLoop x [] st = st"
| "dcloseAllLoop x ((k, p) # kps) st =
     dcloseAllLoop x kps ((hostClose x p st)\<lparr>hosts := gm_del k (hosts (hostClose x p st))\<rparr>)"

definition dockerCloseAll :: "'w ext \<Rightarrow> 'w dst \<Rightarrow> 'w dst" where
  "dockerCloseAll x st = dcloseAllLoop x (hosts st) st"

section \<open>Shells in containers\<close>

definition maxUint :: "nat \<Rightarrow> nat \<Rightarrow> nat" where
  "maxUint v dflt = (if v = 0 then dflt else v)"

definition envList :: "string gomap \<Rightarrow> string list" where
  "envList env = map (\<lambda>(k, v). k @ ''='' @ v) env"

definition registerDShell :: "ptr \<Rightarrow> ptr \<Rightarrow> 'w dst \<Rightarrow> goerr option \<times> 'w dst" where
  "registerDShell p s st =
     (if h_closed (hst st p) then (Some (Errorf ''docker host %q is closed'' [h_ID (hst st p)]), st)
      else if gm_get (h_shells (hst st p)) (dsh_ID (dsh st s)) \<noteq> None then
        (Some (Errorf ''shell %q already exists on host %q'' [dsh_ID (dsh st s), h_ID (hst st p)]), st)
      else (None, updHost p (\<lambda>H. H\<lparr>h_shells := gm_put (dsh_ID (dsh st s)) s (h_shells H)\<rparr>) st))"

definition newDShell :: "DShell \<Rightarrow> 'w dst \<Rightarrow> ptr \<times> 'w dst" where
  "newDShell S st = (d_nxt st, st\<lparr>dsh := (dsh st)(d_nxt st := S), d_nxt := Suc (d_nxt st)\<rparr>)"

definition installDShell ::
    "'w ext \<Rightarrow> ptr \<Rightarrow> string \<Rightarrow> DShellOptions \<Rightarrow> string \<Rightarrow> handle \<Rightarrow> 'w dst \<Rightarrow> ptr res \<times> 'w dst" where
  "installDShell x p shellID opts execID attach st =
     (let (s, st) = newDShell \<lparr>b_data = [], b_max = (if do_BufferSize opts = 0 then 1024 * 1024 else do_BufferSize opts),
            b_wake = False, b_closed = False, b_done = False, dsh_ID = shellID, dsh_HostID = h_ID (hst st p),
            dsh_Spec = opts, dsh_OpenedAt = x_now x (orc (d_io st)), dsh_execID = execID, dsh_host = p,
            dsh_attach = attach\<rparr> st
      in case registerDShell p s st of
           (Some e, st) \<Rightarrow> (Inl e, dshellClose x s st)
         | (None, st) \<Rightarrow> (Inr s, st))"

definition dockerOpenShell ::
    "'w ext \<Rightarrow> 'w dext \<Rightarrow> ptr \<Rightarrow> string \<Rightarrow> DShellOptions \<Rightarrow> 'w dst \<Rightarrow> ptr res \<times> 'w dst" where
  "dockerOpenShell x d p shellID opts st =
     (case dclient st p of
        Inl e \<Rightarrow> (Inl e, st)
      | Inr c \<Rightarrow>
          (if do_Container opts = [] then (Inl (Errorf ''container is required'' []), st)
           else
             (let size = (maxUint (do_Rows opts) 24, maxUint (do_Cols opts) 80) in
              case d_call (io_call (y_exec_create d c \<lparr>ec_Container = do_Container opts,
                     ec_Cmd = (if do_Cmd opts = [] then [''/bin/sh''] else do_Cmd opts), ec_Env = envList (do_Env opts),
                     ec_User = do_User opts, ec_WorkingDir = do_WorkingDir opts, ec_Size = size\<rparr>)) st of
                (Inl e, st) \<Rightarrow> (Inl (Wrapf ''exec create: %w'' [] e), st)
              | (Inr execID, st) \<Rightarrow>
                  (case d_call (io_open (y_exec_attach d c execID size)) st of
                     (Inl e, st) \<Rightarrow> (Inl (Wrapf ''exec attach: %w'' [] e), st)
                   | (Inr attach, st) \<Rightarrow> installDShell x p shellID opts execID attach st))))"

text \<open>\<open>pump\<close>: a chunk arrives, or the connection ends.\<close>

definition dpumpChunk :: "ptr \<Rightarrow> string \<Rightarrow> 'w dst \<Rightarrow> 'w dst" where
  "dpumpChunk s chunk = updDsh s (\<lambda>S. wake (appendBuffer chunk S))"

definition dpumpEnd :: "ptr \<Rightarrow> 'w dst \<Rightarrow> 'w dst" where
  "dpumpEnd s st0 =
     (let st = updDsh s (\<lambda>S. S\<lparr>b_closed := True, b_done := True\<rparr>) st0; S = dsh st0 s in
      if gm_get (h_shells (hst st (dsh_host S))) (dsh_ID S) = Some s
      then updHost (dsh_host S) (\<lambda>H. H\<lparr>h_shells := gm_del (dsh_ID S) (h_shells H)\<rparr>) st
      else st)"

definition dockerGetShell :: "'w dst \<Rightarrow> ptr \<Rightarrow> string \<Rightarrow> ptr res" where
  "dockerGetShell st p k =
     (case gm_get (h_shells (hst st p)) k of
        None \<Rightarrow> Inl (Errorf ''shell %q not found on host %q'' [k, h_ID (hst st p)])
      | Some s \<Rightarrow> Inr s)"

definition removeDShell :: "ptr \<Rightarrow> string \<Rightarrow> 'w dst \<Rightarrow> (ptr \<times> 'w dst) res" where
  "removeDShell p k st =
     (case dockerGetShell st p k of
        Inl e \<Rightarrow> Inl e
      | Inr s \<Rightarrow> Inr (s, updHost p (\<lambda>H. H\<lparr>h_shells := gm_del k (h_shells H)\<rparr>) st))"

definition dockerCloseShell :: "'w ext \<Rightarrow> ptr \<Rightarrow> string \<Rightarrow> 'w dst \<Rightarrow> goerr option \<times> 'w dst" where
  "dockerCloseShell x p k st =
     (case removeDShell p k st of
        Inl e \<Rightarrow> (Some e, st)
      | Inr (s, st) \<Rightarrow> (None, dshellClose x s st))"

definition dshellWrite :: "'w dext \<Rightarrow> ptr \<Rightarrow> string \<Rightarrow> 'w dst \<Rightarrow> (int \<times> goerr option) \<times> 'w dst" where
  "dshellWrite d s p st =
     (if b_closed (dsh st s) then ((0, Some (Errorf ''shell closed'' [])), st)
      else d_call (io_call (y_conn_write d (dsh_attach (dsh st s)) p)) st)"

definition dshellResize :: "'w dext \<Rightarrow> ptr \<Rightarrow> nat \<Rightarrow> nat \<Rightarrow> 'w dst \<Rightarrow> goerr option \<times> 'w dst" where
  "dshellResize d s rows cols st =
     (if b_closed (dsh st s) then (Some (Errorf ''shell closed'' []), st)
      else (case dclient st (dsh_host (dsh st s)) of
              Inl e \<Rightarrow> (Some e, st)
            | Inr c \<Rightarrow> d_call (io_call (y_exec_resize d c (dsh_execID (dsh st s)) rows cols)) st))"

definition dshellRead :: "choice list \<Rightarrow> ptr \<Rightarrow> 'w dst \<Rightarrow> (read_result \<times> 'w dst) option" where
  "dshellRead cs s st =
     (case readRun cs RTop (dsh st s) of
        None \<Rightarrow> None
      | Some (r, S) \<Rightarrow> Some (r, updDsh s (\<lambda>_. S) st))"

record DShellInfo =
  di_ID :: string
  di_HostID :: string
  di_Container :: string
  di_OpenedAt :: int
  di_BufferSize :: nat
  di_Closed :: bool

definition dshellInfo :: "DShell \<Rightarrow> DShellInfo" where
  "dshellInfo S = \<lparr>di_ID = dsh_ID S, di_HostID = dsh_HostID S, di_Container = do_Container (dsh_Spec S),
     di_OpenedAt = dsh_OpenedAt S, di_BufferSize = length (b_data S), di_Closed = b_closed S\<rparr>"

definition dockerListShells :: "'w dst \<Rightarrow> ptr \<Rightarrow> DShellInfo list" where
  "dockerListShells st p = map (\<lambda>s. dshellInfo (dsh st s)) (gm_vals (h_shells (hst st p)))"

interpretation dshell_reg: registry
  "\<lambda>st. gm_get (h_shells (hst st p))"
  "\<lambda>st s. dsh_ID (dsh st s)"
  "\<lambda>s st. case registerDShell p s st of (Some e, _) \<Rightarrow> Inl e | (None, st') \<Rightarrow> Inr st'"
  "\<lambda>k st. map_sum id snd (removeDShell p k st)"
  for p
  by unfold_locales
    (auto simp: registerDShell_def removeDShell_def dockerGetShell_def updHost_def split: if_splits option.splits)

section \<open>What dialing leaves open\<close>

lemma dockerOverClient_acq:
  assumes "io_ok w0" and "acquired w0 hs w" and "dockerOverClient x d spec path sc w = (r, w')" and "hs = cl @ [sc]"
  shows "case r of Inl _ \<Rightarrow> acquired w0 cl w' | Inr hc \<Rightarrow> acquired w0 (cl @ connHandles hc) w'"
proof -
  let ?o = "\<lparr>co_Host = ''http://docker'', co_Version = dc_APIVersion spec, co_TLS = None, co_via = Some (sc, dockerSocket path)\<rparr>"
  have hs: "acquired w0 (cl @ [sc]) w" using assms(2,4) by simp
  obtain o1 w1 where o: "io_open (y_client_new d ?o) w = (o1, w1)" by fastforce
  show ?thesis
  proof (cases o1)
    case (Inl e)
    have a1: "acquired w0 (cl @ [sc]) w1" using hs o Inl by (auto intro: acquired_trans0 io_open_err)
    have d: "distinct (cl @ [sc])" using hs by (simp add: acquired_def)
    have "acquired w0 ([sc] @ cl) w1" by (rule acquired_perm [OF a1]) (use d in auto)
    from acquired_close_all [OF assms(1) this] show ?thesis
      using assms(3) o Inl by (auto simp: dockerOverClient_def)
  next
    case (Inr c)
    obtain p w2 where p: "io_call (y_ping d c) w1 = (p, w2)" by fastforce
    have a: "acquired w0 ((cl @ [sc]) @ [c]) w2"
      using acquired_trans0 [OF acquired_trans [OF hs io_open_ok] io_call_acq [OF p]] o Inr by simp
    then have d: "distinct ((cl @ [sc]) @ [c])" by (simp add: acquired_def)
    show ?thesis
    proof (cases p)
      case (Some e)
      have "acquired w0 ([c, sc] @ cl) w2" by (rule acquired_perm [OF a]) (use d in auto)
      from acquired_close_all [OF assms(1) this, of "x_close x"] show ?thesis
        using assms(3) o Inr p Some by (auto simp: dockerOverClient_def)
    next
      case None
      have "acquired w0 (cl @ [c, sc]) w2" by (rule acquired_perm [OF a]) (use d in auto)
      then show ?thesis using assms(3) o Inr p None by (auto simp: dockerOverClient_def connHandles_def)
    qed
  qed
qed

lemma dialDockerOverSSH_acq:
  assumes ok: "io_ok w" and d: "dialDockerOverSSH x d url spec w = (r, w')"
  shows "case r of Inl _ \<Rightarrow> acquired w [] w' | Inr hc \<Rightarrow> acquired w (connHandles hc) w'"
proof (cases "y_url_parse d url")
  case (Inl e)
  then show ?thesis using d by (auto simp: dialDockerOverSSH_def)
next
  case u: (Inr q)
  obtain user hostname port path where q: "q = (user, hostname, port, path)" by (cases q) auto
  show ?thesis
  proof (cases "user = []")
    case True
    then show ?thesis using d u q by (auto simp: dialDockerOverSSH_def)
  next
    case user: False
    obtain b w1 where b: "Build x (dockerAuth spec) w = (b, w1)" by fastforce
    show ?thesis
    proof (cases b)
      case (Inl e)
      then show ?thesis using d u q user b Build_err_acq [OF ok] by (auto simp: dialDockerOverSSH_def Let_def)
    next
      case b2: (Inr mc)
      obtain ms cl where mc: "mc = (ms, cl)" by fastforce
      have a1: "acquired w cl w1" using b b2 mc by (auto intro: Build_ok_acq)
      note close = acquired_close_all [OF ok]
      show ?thesis
      proof (cases "HostKeyCallback x (dc_SSHInsecure spec) (dc_KnownHostsPath spec) w1")
        case (Inl e)
        then show ?thesis using d u q user b b2 mc a1 close [of cl "[]"] by (auto simp: dialDockerOverSSH_def Let_def)
      next
        case hk: (Inr hostKey)
        let ?cfg = "\<lparr>cfg_User = user, cfg_Auth = ms, cfg_HostKeyCallback = hostKey, cfg_Timeout = 15 * 1000000000,
          cfg_HostKeyAlgorithms = (if dc_SSHInsecure spec then [] else HostKeyAlgorithmsFor x (dc_KnownHostsPath spec) hostname w1)\<rparr>"
        obtain o1 w2 where o: "io_open (x_ssh_dial x (joinHostPort hostname (if port = [] then ''22'' else port)) ?cfg) w1 = (o1, w2)"
          by fastforce
        show ?thesis
        proof (cases o1)
          case (Inl e)
          then have "acquired w cl w2" using o a1 by (auto intro: acquired_trans0 io_open_err)
          then show ?thesis using d u q user b b2 mc hk o Inl close [of cl "[]"]
            by (auto simp: dialDockerOverSSH_def Let_def)
        next
          case (Inr sc)
          then have a2: "acquired w (cl @ [sc]) w2" using o a1 by (auto intro: acquired_trans io_open_ok)
          obtain r2 w3 where c: "dockerOverClient x d spec path sc w2 = (r2, w3)" by fastforce
          note a3 = dockerOverClient_acq [OF ok a2 c refl]
          have "r = r2" "w' = io_close_all (x_close x) cl w3"
            using d u q user b b2 mc hk o Inr c by (auto simp: dialDockerOverSSH_def Let_def)
          then show ?thesis using a3 close [of cl "[]"] close [of cl] by (auto split: sum.splits)
        qed
      qed
    qed
  qed
qed

lemma dialDocker_acq:
  assumes "io_ok w" and "dialDocker x d spec w = (r, w')"
  shows "case r of Inl _ \<Rightarrow> acquired w [] w' | Inr hc \<Rightarrow> acquired w (connHandles hc) w'"
proof (cases "trimSpace (dc_Host spec) = [] \<or> hasPrefix (trimSpace (dc_Host spec)) ''ssh://''")
  case True
  then show ?thesis
    using assms dialDockerOverSSH_acq [OF assms(1)] by (auto simp: dialDocker_def Let_def split: if_splits)
next
  case False
  let ?o = "\<lparr>co_Host = trimSpace (dc_Host spec), co_Version = dc_APIVersion spec, co_TLS = tlsOf spec, co_via = None\<rparr>"
  obtain o1 w1 where o: "io_open (y_client_new d ?o) w = (o1, w1)" by fastforce
  show ?thesis
  proof (cases o1)
    case (Inl e)
    then show ?thesis using assms(2) False o by (auto simp: dialDocker_def Let_def intro: io_open_err)
  next
    case (Inr c)
    obtain p w2 where p: "io_call (y_ping d c) w1 = (p, w2)" by fastforce
    have a: "acquired w [c] w2" using o Inr p by (auto intro: acquired_trans0 io_open_ok io_call_acq)
    show ?thesis
      using assms(2) False o Inr p a acquired_close_all [OF assms(1), of "[c]" "[]" w2 "x_close x"]
      by (cases p) (auto simp: dialDocker_def Let_def connHandles_def)
  qed
qed

text \<open>One concrete docker side, for the worked instances of the theorems: a daemon that answers, and one url it is reached under.\<close>

definition demo_dext :: "nat dext" where
  "demo_dext = \<lparr>
     y_client_new = (\<lambda>co n. (None, Suc n)),
     y_ping = (\<lambda>h n. (None, Suc n)),
     y_url_parse = (\<lambda>u. if u = ''ssh://me@box'' then Inr (''me'', ''box'', [], []) else Inl (ExtErr ''parse'')),
     y_exec_create = (\<lambda>c ec n. (Inr ''e1'', Suc n)),
     y_exec_attach = (\<lambda>c e sz n. (None, Suc n)),
     y_exec_resize = (\<lambda>c e r k n. (None, Suc n)),
     y_conn_write = (\<lambda>h s n. ((int (length s), None), Suc n))\<rparr>"

definition demo_dspec :: DockerSpec where
  "demo_dspec = \<lparr>dc_Host = ''ssh://me@box'', dc_TLSCertPath = [], dc_TLSKeyPath = [], dc_TLSCAPath = [],
     dc_APIVersion = [], dc_KeyPath = [], dc_KeyPassphrase = [], dc_UseAgent = True, dc_AgentSocket = ''/a'',
     dc_Password = [], dc_KnownHostsPath = [], dc_SSHInsecure = True, dc_Persistent = False\<rparr>"

end
