(* ===== verification/DockerProps.thy ===== *)
theory DockerProps
  imports DockerHost
begin

text \<open>
  What the docker hosts hold open, and how opening, closing and the end of a shell change it.
\<close>

section \<open>What closing closes\<close>

definition shellHandles :: "'w dst \<Rightarrow> ptr list \<Rightarrow> handle set" where
  "shellHandles st ss = {dsh_attach (dsh st s) | s. s \<in> set ss \<and> \<not> b_closed (dsh st s)}"

definition hostHandles :: "'w dst \<Rightarrow> ptr \<Rightarrow> handle set" where
  "hostHandles st p =
     (if h_closed (hst st p) then {}
      else shellHandles st (gm_vals (h_shells (hst st p))) \<union>
           (case h_conn (hst st p) of None \<Rightarrow> {} | Some hc \<Rightarrow> set (connHandles hc)))"

named_theorems dst_simps \<open>what the operations on docker hosts leave alone\<close>

lemma upd_fields [simp, dst_simps]:
  "hosts (updHost p f st) = hosts st" "dsh (updHost p f st) = dsh st" "d_io (updHost p f st) = d_io st"
  "d_nxt (updHost p f st) = d_nxt st" "hst (updHost p f st) q = (if q = p then f (hst st p) else hst st q)"
  "hosts (updDsh s g st) = hosts st" "hst (updDsh s g st) = hst st" "d_io (updDsh s g st) = d_io st"
  "d_nxt (updDsh s g st) = d_nxt st" "dsh (updDsh s g st) r = (if r = s then g (dsh st s) else dsh st r)"
  "hosts (d_close x hs st) = hosts st" "hst (d_close x hs st) = hst st" "dsh (d_close x hs st) = dsh st"
  "d_nxt (d_close x hs st) = d_nxt st" "d_io (d_close x hs st) = io_close_all (x_close x) hs (d_io st)"
  by (simp_all add: updHost_def updDsh_def d_close_def)

lemma dshellClose_frame [simp, dst_simps]:
  "hosts (dshellClose x s st) = hosts st" "hst (dshellClose x s st) = hst st" "d_nxt (dshellClose x s st) = d_nxt st"
  "dsh_attach (dsh (dshellClose x s st) r) = dsh_attach (dsh st r)"
  "dsh_ID (dsh (dshellClose x s st) r) = dsh_ID (dsh st r)"
  "b_closed (dsh (dshellClose x s st) r) = (r = s \<or> b_closed (dsh st r))"
  "live (d_io (dshellClose x s st)) = live (d_io st) - shellHandles st [s]"
  by (auto simp: dshellClose_def shellHandles_def)

lemma dcloseShells_frame [simp, dst_simps]:
  "hosts (dcloseShells x ss st) = hosts st" "hst (dcloseShells x ss st) = hst st" "d_nxt (dcloseShells x ss st) = d_nxt st"
  "dsh_attach (dsh (dcloseShells x ss st) r) = dsh_attach (dsh st r)"
  "dsh_ID (dsh (dcloseShells x ss st) r) = dsh_ID (dsh st r)"
  "b_closed (dsh (dcloseShells x ss st) r) = (r \<in> set ss \<or> b_closed (dsh st r))"
  by (induction ss arbitrary: st) auto

lemma dcloseShells_live [simp, dst_simps]:
  "live (d_io (dcloseShells x ss st)) = live (d_io st) - shellHandles st ss"
  by (induction ss arbitrary: st) (auto simp: shellHandles_def)

lemma hostClose_frame [simp, dst_simps]:
  "hosts (hostClose x p st) = hosts st" "d_nxt (hostClose x p st) = d_nxt st"
  "q \<noteq> p \<Longrightarrow> hst (hostClose x p st) q = hst st q"
  "h_closed (hst (hostClose x p st) p)"
  "dsh_attach (dsh (hostClose x p st) r) = dsh_attach (dsh st r)"
  by (auto simp: hostClose_def Let_def split: option.splits)

lemma hostClose_shells:
  "b_closed (dsh (hostClose x p st) r) =
     (b_closed (dsh st r) \<or> \<not> h_closed (hst st p) \<and> r \<in> set (gm_vals (h_shells (hst st p))))"
  by (auto simp: hostClose_def Let_def split: option.splits)

lemma shellHandles_upd [simp]: "shellHandles (updHost p f st) ss = shellHandles st ss"
  by (simp add: shellHandles_def)

lemma hostClose_live [simp, dst_simps]: "live (d_io (hostClose x p st)) = live (d_io st) - hostHandles st p"
  by (auto simp: hostClose_def hostHandles_def Let_def split: option.splits)

lemma hostHandles_after:
  assumes "q \<noteq> p"
  shows "hostHandles st q \<subseteq> hostHandles (hostClose x p st) q \<union> hostHandles st p"
  using assms by (fastforce simp: hostHandles_def shellHandles_def hostClose_shells split: option.splits)

lemma hostHandles_hosts [simp]: "hostHandles (st\<lparr>hosts := m\<rparr>) p = hostHandles st p"
  by (simp add: hostHandles_def shellHandles_def)

text \<open>
  Disconnecting a docker host takes it out of the table and closes exactly what it held: the
  docker client, the ssh client under it, and the connection of each of its shells that is still
  open. The shells are closed, every other host is as it was.
\<close>

theorem dockerDisconnect_drains:
  assumes "gm_get (hosts st) k = Some p" and "\<not> h_closed (hst st p)" and "dockerDisconnect x k st = (r, st')"
  shows "r = None \<and> gm_get (hosts st') k = None \<and> h_closed (hst st' p) \<and>
     live (d_io st') = live (d_io st) - hostHandles st p \<and>
     (\<forall>s \<in> set (gm_vals (h_shells (hst st p))). b_closed (dsh st' s)) \<and>
     (\<forall>j. j \<noteq> k \<longrightarrow> gm_get (hosts st') j = gm_get (hosts st) j) \<and> (\<forall>q. q \<noteq> p \<longrightarrow> hst st' q = hst st q)"
  using assms by (auto simp: dockerDisconnect_def hostClose_shells)

section \<open>CloseAll\<close>

lemma dcloseAllLoop_live:
  "live (d_io (dcloseAllLoop x kps st)) \<subseteq> live (d_io st)"
proof (induction kps arbitrary: st)
  case (Cons a kps)
  obtain k p where a: "a = (k, p)" by fastforce
  show ?case using Cons.IH [of "(hostClose x p st)\<lparr>hosts := gm_del k (hosts (hostClose x p st))\<rparr>"]
    by (auto simp: a)
qed simp

lemma dcloseAllLoop_drains:
  assumes "(k, p) \<in> set kps"
  shows "live (d_io (dcloseAllLoop x kps st)) \<inter> hostHandles st p = {}"
  using assms
proof (induction kps arbitrary: st)
  case (Cons a kps)
  obtain k1 p1 where a: "a = (k1, p1)" by fastforce
  let ?s = "(hostClose x p1 st)\<lparr>hosts := gm_del k1 (hosts (hostClose x p1 st))\<rparr>"
  have sub: "live (d_io (dcloseAllLoop x kps ?s)) \<subseteq> live (d_io st) - hostHandles st p1"
    using dcloseAllLoop_live [of x kps ?s] by simp
  show ?case
  proof (cases "p = p1")
    case True
    then show ?thesis using sub by (auto simp: a)
  next
    case False
    then have "(k, p) \<in> set kps" using Cons.prems a by simp
    from Cons.IH [OF this, of ?s] show ?thesis
      using sub hostHandles_after [OF False, of st x] by (auto simp: a)
  qed
qed simp

lemma dcloseAllLoop_hosts: "hosts (dcloseAllLoop x kps st) = fold gm_del (map fst kps) (hosts st)"
  by (induction kps arbitrary: st) auto

lemma gm_del_all: "fold gm_del (map fst m) m = []"
proof -
  have "fold gm_del ks m = filter (\<lambda>kv. fst kv \<notin> set ks) m" for ks and m :: "'a gomap"
    by (induction ks arbitrary: m) (auto simp: gm_del_def AList.delete_eq intro: filter_cong)
  then show ?thesis by auto
qed

text \<open>
  CloseAll empties the table of docker hosts, and nothing that a registered host held is open
  afterwards.
\<close>

theorem dockerCloseAll_drains:
  "hosts (dockerCloseAll x st) = [] \<and>
   live (d_io (dockerCloseAll x st)) \<inter> (\<Union>p \<in> set (gm_vals (hosts st)). hostHandles st p) = {}"
  by (auto simp: dockerCloseAll_def dcloseAllLoop_hosts gm_del_all gm_vals_def
      dest!: dcloseAllLoop_drains [of _ _ "hosts st" x st])

section \<open>Connecting\<close>

lemma d_call_frame:
  assumes "d_call f st = (r, st')"
  shows "hosts st' = hosts st \<and> hst st' = hst st \<and> dsh st' = dsh st \<and> d_nxt st' = d_nxt st \<and> f (d_io st) = (r, d_io st')"
  using assms by (auto simp: d_call_def split: prod.splits)

text \<open>The second half of \<open>Connect\<close>, in whatever state the other callers left meanwhile.\<close>

lemma dockerInstall_spec:
  assumes "io_ok w" and "acquired w (hs @ connHandles hc) (d_io st)" and "dockerInstall x k spec hc st = (r, st')"
  shows "case r of
      Inl _ \<Rightarrow> gm_get (hosts st) k \<noteq> None \<and> hosts st' = hosts st \<and> hst st' = hst st \<and> acquired w hs (d_io st')
    | Inr p \<Rightarrow> gm_get (hosts st) k = None \<and> p = d_nxt st \<and> hosts st' = gm_put k p (hosts st) \<and>
        hst st' = (hst st)(p := newHost x k spec hc st) \<and> d_io st' = d_io st"
proof -
  have "distinct (hs @ connHandles hc)" using assms(2) by (simp add: acquired_def)
  then have "acquired w (connHandles hc @ hs) (d_io st)"
    by (intro acquired_perm [OF assms(2)]) auto
  from acquired_close_all [OF assms(1) this] show ?thesis
    using assms(3) by (auto simp: dockerInstall_def split: if_splits)
qed

lemma hostHandles_new:
  "\<not> h_closed (hst st p) \<Longrightarrow> h_shells (hst st p) = [] \<Longrightarrow> h_conn (hst st p) = Some hc \<Longrightarrow>
   hostHandles st p = set (connHandles hc)"
  by (simp add: hostHandles_def shellHandles_def gm_vals_def)

lemma newHost_fields [simp]:
  "h_closed (newHost x k spec hc st) = False" "h_shells (newHost x k spec hc st) = []"
  "h_conn (newHost x k spec hc st) = Some hc" "h_ID (newHost x k spec hc st) = k" "h_Spec (newHost x k spec hc st) = spec"
  by (simp_all add: newHost_def)

text \<open>
  Connecting a docker host is all or nothing: a call that fails leaves the table, the hosts and
  the set of open handles as they were; one that succeeds registers, under an id that was free, a
  new connected host whose connection is exactly what was opened.
\<close>

theorem dockerConnect_all_or_nothing:
  assumes "io_ok (d_io st)" and "dockerConnect x d k spec st = (r, st')"
  shows "case r of
      Inl _ \<Rightarrow> hosts st' = hosts st \<and> hst st' = hst st \<and> live (d_io st') = live (d_io st)
    | Inr p \<Rightarrow> gm_get (hosts st) k = None \<and> hosts st' = gm_put k p (hosts st) \<and> h_ID (hst st' p) = k \<and>
        h_Spec (hst st' p) = spec \<and> (\<exists>hc. h_conn (hst st' p) = Some hc \<and>
        acquired (d_io st) (connHandles hc) (d_io st') \<and> hostHandles st' p = set (connHandles hc))"
proof (cases "k = [] \<or> gm_get (hosts st) k \<noteq> None")
  case True
  then show ?thesis using assms(2) by (auto simp: dockerConnect_def split: if_splits)
next
  case False
  obtain q st1 where c: "d_call (dialDocker x d spec) st = (q, st1)" by fastforce
  note f = d_call_frame [OF c]
  from f have "dialDocker x d spec (d_io st) = (q, d_io st1)" by simp
  then have a: "case q of Inl _ \<Rightarrow> acquired (d_io st) [] (d_io st1) | Inr hc \<Rightarrow> acquired (d_io st) (connHandles hc) (d_io st1)"
    by (rule dialDocker_acq [OF assms(1)])
  show ?thesis
  proof (cases q)
    case (Inl e)
    then show ?thesis using assms(2) False c f a by (auto simp: dockerConnect_def acquired_def)
  next
    case (Inr hc)
    have i: "dockerInstall x k spec hc st1 = (r, st')" using assms(2) False c Inr by (simp add: dockerConnect_def)
    have "acquired (d_io st) ([] @ connHandles hc) (d_io st1)" using a Inr by simp
    note i2 = dockerInstall_spec [OF assms(1) this i]
    show ?thesis
      using i2 f False a Inr hostHandles_new [of st' "d_nxt st" hc]
      by (cases r) (auto simp: acquired_def)
  qed
qed

text \<open>
  Two callers connecting the same id at once, both past the first check and both dialed: the
  first to come back installs its host; the other gets an error, what it dialed is closed, and
  the host that is registered keeps its connection.
\<close>

theorem dockerConnect_race:
  assumes "io_ok (d_io st)" and "gm_get (hosts st) k = None"
    and "dialDocker x d spec1 (d_io st) = (Inr hc1, w1)" and "dialDocker x d spec2 w1 = (Inr hc2, w2)"
    and "dockerInstall x k spec1 hc1 (st\<lparr>d_io := w2\<rparr>) = (r1, st1)" and "dockerInstall x k spec2 hc2 st1 = (r2, st2)"
  shows "r1 = Inr (d_nxt st) \<and> \<not> is_ok r2 \<and> hosts st2 = gm_put k (d_nxt st) (hosts st) \<and>
     acquired (d_io st) (connHandles hc1) (d_io st2) \<and> hostHandles st2 (d_nxt st) = set (connHandles hc1)"
proof -
  from dialDocker_acq [OF assms(1,3)] have a1: "acquired (d_io st) (connHandles hc1) w1" by simp
  from dialDocker_acq [OF acquired_ok [OF assms(1) a1] assms(4)] have "acquired w1 (connHandles hc2) w2" by simp
  from acquired_trans [OF a1 this] have a2: "acquired (d_io st) (connHandles hc1 @ connHandles hc2) w2" .
  have r1: "r1 = Inr (d_nxt st)" "hosts st1 = gm_put k (d_nxt st) (hosts st)" "d_io st1 = w2"
      "hst st1 = (hst st)(d_nxt st := newHost x k spec1 hc1 (st\<lparr>d_io := w2\<rparr>))"
    using assms(2,5) by (auto simp: dockerInstall_def)
  have a3: "acquired (d_io st) (connHandles hc1 @ connHandles hc2) (d_io st1)" using a2 r1 by simp
  have r2: "\<exists>e. r2 = Inl e" using assms(6) r1 by (auto simp: dockerInstall_def)
  then have i: "hosts st2 = hosts st1" "hst st2 = hst st1" "acquired (d_io st) (connHandles hc1) (d_io st2)"
    using dockerInstall_spec [OF assms(1) a3 assms(6)] by auto
  have "hst st2 (d_nxt st) = newHost x k spec1 hc1 (st\<lparr>d_io := w2\<rparr>)" using i r1 by simp
  then have "hostHandles st2 (d_nxt st) = set (connHandles hc1)" by (intro hostHandles_new) simp_all
  then show ?thesis using i r1 r2 by auto
qed

section \<open>Shells\<close>

text \<open>Registering a shell, in whatever state the other callers left meanwhile.\<close>

lemma installDShell_spec:
  assumes "io_ok w" and "acquired w [a] (d_io st)" and "installDShell x p k opts e a st = (r, st')"
  shows "case r of
      Inl _ \<Rightarrow> hst st' = hst st \<and> hosts st' = hosts st \<and> acquired w [] (d_io st')
    | Inr s \<Rightarrow> s = d_nxt st \<and> \<not> h_closed (hst st p) \<and> gm_get (h_shells (hst st p)) k = None \<and>
        h_shells (hst st' p) = gm_put k s (h_shells (hst st p)) \<and> (\<forall>q. q \<noteq> p \<longrightarrow> hst st' q = hst st q) \<and>
        hosts st' = hosts st \<and> dsh_attach (dsh st' s) = a \<and> \<not> b_closed (dsh st' s) \<and> d_io st' = d_io st"
  using assms(3) acquired_close_one [OF assms(1,2), of "x_close x"]
  by (auto simp: installDShell_def newDShell_def registerDShell_def dshellClose_def Let_def split: if_splits)

text \<open>
  Opening a shell in a container is all or nothing: on an error (host disconnected or closed,
  no container, the exec cannot be created or attached, the id is taken) the hosts and the open
  handles are as before; on success the shell is registered on a host that is open, under an id
  that was free, and holds exactly the one connection that was opened.
\<close>

theorem dockerOpenShell_all_or_nothing:
  assumes "io_ok (d_io st)" and "dockerOpenShell x d p k opts st = (r, st')"
  shows "case r of
      Inl _ \<Rightarrow> hst st' = hst st \<and> hosts st' = hosts st \<and> acquired (d_io st) [] (d_io st')
    | Inr s \<Rightarrow> \<not> h_closed (hst st p) \<and> gm_get (h_shells (hst st p)) k = None \<and>
        gm_get (h_shells (hst st' p)) k = Some s \<and> \<not> b_closed (dsh st' s) \<and>
        (\<forall>q. q \<noteq> p \<longrightarrow> hst st' q = hst st q) \<and> acquired (d_io st) [dsh_attach (dsh st' s)] (d_io st')"
proof (cases "\<exists>e. dclient st p = Inl e \<or> do_Container opts = []")
  case True
  then show ?thesis using assms(2) by (auto simp: dockerOpenShell_def split: sum.splits)
next
  case False
  then obtain c where c: "dclient st p = Inr c" and n: "do_Container opts \<noteq> []" by (cases "dclient st p") auto
  let ?sz = "(maxUint (do_Rows opts) 24, maxUint (do_Cols opts) 80)"
  let ?ec = "\<lparr>ec_Container = do_Container opts, ec_Cmd = (if do_Cmd opts = [] then [''/bin/sh''] else do_Cmd opts),
     ec_Env = envList (do_Env opts), ec_User = do_User opts, ec_WorkingDir = do_WorkingDir opts, ec_Size = ?sz\<rparr>"
  obtain q st1 where q: "d_call (io_call (y_exec_create d c ?ec)) st = (q, st1)" by fastforce
  note f1 = d_call_frame [OF q]
  then have a1: "acquired (d_io st) [] (d_io st1)" by (auto intro: io_call_acq)
  show ?thesis
  proof (cases q)
    case (Inl e)
    then show ?thesis using assms(2) c n q f1 a1 by (auto simp: dockerOpenShell_def)
  next
    case q2: (Inr e)
    obtain q3 st2 where q3: "d_call (io_open (y_exec_attach d c e ?sz)) st1 = (q3, st2)" by fastforce
    note f2 = d_call_frame [OF q3]
    show ?thesis
    proof (cases q3)
      case (Inl e2)
      then have "acquired (d_io st) [] (d_io st2)" using f2 by (auto intro: acquired_trans0 [OF a1] io_open_err)
      then show ?thesis using assms(2) c n q q2 q3 Inl f1 f2 by (auto simp: dockerOpenShell_def)
    next
      case (Inr a)
      then have a2: "acquired (d_io st) [a] (d_io st2)" using f2 by (auto intro: acquired_0trans [OF a1] io_open_ok)
      have i: "installDShell x p k opts e a st2 = (r, st')"
        using assms(2) c n q q2 q3 Inr by (simp add: dockerOpenShell_def)
      show ?thesis using installDShell_spec [OF assms(1) a2 i] f1 f2 a2 by (cases r) auto
    qed
  qed
qed

lemma hostHandles_mono: "hostHandles (hostClose x p st) q \<subseteq> hostHandles st q"
  by (cases "q = p") (auto simp: hostHandles_def shellHandles_def hostClose_shells split: option.splits)

lemma dcloseAllLoop_keeps:
  "h \<in> live (d_io st) \<Longrightarrow> (\<forall>q. h \<notin> hostHandles st q) \<Longrightarrow> h \<in> live (d_io (dcloseAllLoop x kps st))"
proof (induction kps arbitrary: st)
  case (Cons a kps)
  obtain k p where a: "a = (k, p)" by fastforce
  show ?case using Cons.prems hostHandles_mono [of x p st] by (fastforce simp: a intro!: Cons.IH)
qed simp

definition sole_holder :: "'w dst \<Rightarrow> ptr \<Rightarrow> bool" where
  "sole_holder st s \<longleftrightarrow>
     dsh_attach (dsh st s) \<in> live (d_io st) \<and> (\<forall>r. dsh_attach (dsh st r) = dsh_attach (dsh st s) \<longrightarrow> r = s) \<and>
     (\<forall>q hc. h_conn (hst st q) = Some hc \<longrightarrow> dsh_attach (dsh st s) \<notin> set (connHandles hc))"

lemma dpumpEnd_frame [simp]:
  "d_io (dpumpEnd s st) = d_io st" "hosts (dpumpEnd s st) = hosts st"
  "dsh_attach (dsh (dpumpEnd s st) r) = dsh_attach (dsh st r)"
  "b_closed (dsh (dpumpEnd s st) r) = (r = s \<or> b_closed (dsh st r))"
  "h_conn (hst (dpumpEnd s st) q) = h_conn (hst st q)"
  by (auto simp: dpumpEnd_def Let_def)

lemma dpumpEnd_unheld:
  assumes "sole_holder st s"
  shows "dsh_attach (dsh st s) \<notin> hostHandles (dpumpEnd s st) q"
proof -
  have "dsh_attach (dsh st s) \<notin> shellHandles (dpumpEnd s st) ss" for ss
    using assms by (auto simp: sole_holder_def shellHandles_def)
  then show ?thesis using assms by (auto simp: hostHandles_def sole_holder_def split: option.splits)
qed

text \<open>
  When the connection of a docker shell ends, the pump marks the shell closed and takes it out
  of its host, but it does not close the connection, and since the shell is marked closed nothing
  else does either: Close on the shell does nothing, and after CloseAll of the whole manager the
  connection is still open.
\<close>

theorem docker_shell_end_leaks:
  assumes "sole_holder st s"
    and "gm_get (h_shells (hst st (dsh_host (dsh st s)))) (dsh_ID (dsh st s)) = Some s"
  shows "gm_get (h_shells (hst (dpumpEnd s st) (dsh_host (dsh st s)))) (dsh_ID (dsh st s)) = None \<and>
     dshellClose x s (dpumpEnd s st) = dpumpEnd s st \<and>
     dsh_attach (dsh st s) \<in> live (d_io (dockerCloseAll x (dshellClose x s (dpumpEnd s st))))"
proof -
  have c: "dshellClose x s (dpumpEnd s st) = dpumpEnd s st" by (simp add: dshellClose_def)
  have "dsh_attach (dsh st s) \<in> live (d_io (dpumpEnd s st))" using assms(1) by (simp add: sole_holder_def)
  then have "dsh_attach (dsh st s) \<in> live (d_io (dockerCloseAll x (dpumpEnd s st)))"
    unfolding dockerCloseAll_def by (rule dcloseAllLoop_keeps) (simp add: dpumpEnd_unheld [OF assms(1)])
  then show ?thesis using assms(2) c by (auto simp: dpumpEnd_def Let_def)
qed

section \<open>Worked instances\<close>

definition demo_dopts :: DShellOptions where
  "demo_dopts = \<lparr>do_Container = ''web'', do_Cmd = [], do_Env = [], do_User = [], do_WorkingDir = [],
     do_Rows = 0, do_Cols = 0, do_BufferSize = 0\<rparr>"

text \<open>An empty manager, and a manager with one host \<open>d1\<close> (client 2, ssh client 1) and one shell (3).\<close>

definition demo_blank :: DShell where
  "demo_blank = \<lparr>b_data = [], b_max = 8, b_wake = False, b_closed = False, b_done = False, dsh_ID = ''sh'',
     dsh_HostID = ''d1'', dsh_Spec = demo_dopts, dsh_OpenedAt = 0, dsh_execID = ''e1'', dsh_host = 0, dsh_attach = 0\<rparr>"

definition demo_host :: Host where
  "demo_host = \<lparr>h_ID = ''d1'', h_Spec = demo_dspec, h_conn = Some \<lparr>hc_docker = 2, hc_ssh = Some 1\<rparr>, h_connectedAt = 0,
     h_lastError = None, h_shells = [], h_closed = False\<rparr>"

definition demo_dst0 :: "nat dst" where
  "demo_dst0 = \<lparr>d_io = demo_io, hosts = [], hst = (\<lambda>_. demo_host\<lparr>h_conn := None\<rparr>), dsh = (\<lambda>_. demo_blank), d_nxt = 0\<rparr>"

definition demo_dst1 :: "nat dst" where
  "demo_dst1 = \<lparr>d_io = \<lparr>orc = 0, next_h = 4, live = {1, 2, 3}\<rparr>, hosts = [(''d1'', 0)],
     hst = (\<lambda>_. demo_host\<lparr>h_conn := None\<rparr>)(0 := demo_host\<lparr>h_shells := [(''sh'', 1)]\<rparr>),
     dsh = (\<lambda>_. demo_blank)(1 := demo_blank\<lparr>dsh_attach := 3\<rparr>), d_nxt = 2\<rparr>"

lemma demo_dst_ok: "io_ok (d_io demo_dst0)" "io_ok (d_io demo_dst1)"
  by (auto simp: io_ok_def demo_dst0_def demo_dst1_def demo_io_def)

lemma dockerDisconnect_drains_witness:
  "gm_get (hosts demo_dst1) ''d1'' = Some 0 \<and>
   live (d_io (snd (dockerDisconnect demo_ext ''d1'' demo_dst1))) = {1, 2, 3} - {3, 2, 1}"
proof -
  have g: "gm_get (hosts demo_dst1) ''d1'' = Some 0" "\<not> h_closed (hst demo_dst1 0)"
    by (simp_all add: demo_dst1_def demo_host_def gm_get_def)
  have h: "hostHandles demo_dst1 0 = {3, 2, 1}"
    by (auto simp: hostHandles_def shellHandles_def demo_dst1_def demo_host_def demo_blank_def gm_vals_def connHandles_def)
  have "live (d_io demo_dst1) = {1, 2, 3}" by (simp add: demo_dst1_def)
  with dockerDisconnect_drains [OF g surjective_pairing, of demo_ext] g h show ?thesis by simp
qed

lemma dockerConnect_all_or_nothing_witness:
  "fst (dockerConnect demo_ext demo_dext ''d2'' demo_dspec demo_dst0) = Inr 0 \<and>
   gm_get (hosts demo_dst0) ''d2'' = None"
proof -
  have r: "fst (dockerConnect demo_ext demo_dext ''d2'' demo_dspec demo_dst0) = Inr 0" by code_simp
  show ?thesis
    using dockerConnect_all_or_nothing [OF demo_dst_ok(1) surjective_pairing, of demo_ext demo_dext "''d2''" demo_dspec] r
    by simp
qed

lemma dockerOpenShell_all_or_nothing_witness:
  "fst (dockerOpenShell demo_ext demo_dext 0 ''sh2'' demo_dopts demo_dst1) = Inr 2 \<and>
   gm_get (h_shells (hst demo_dst1 0)) ''sh2'' = None"
proof -
  have r: "fst (dockerOpenShell demo_ext demo_dext 0 ''sh2'' demo_dopts demo_dst1) = Inr 2" by code_simp
  show ?thesis
    using dockerOpenShell_all_or_nothing [OF demo_dst_ok(2) surjective_pairing, of demo_ext demo_dext 0 "''sh2''" demo_dopts] r
    by simp
qed

lemma docker_shell_end_leaks_witness:
  "sole_holder demo_dst1 1 \<and> 3 \<in> live (d_io (dockerCloseAll demo_ext (dshellClose demo_ext 1 (dpumpEnd 1 demo_dst1))))"
proof -
  have s: "sole_holder demo_dst1 1"
    by (auto simp: sole_holder_def demo_dst1_def demo_host_def demo_blank_def connHandles_def split: if_splits)
  have g: "gm_get (h_shells (hst demo_dst1 (dsh_host (dsh demo_dst1 1)))) (dsh_ID (dsh demo_dst1 1)) = Some 1"
    by (simp add: demo_dst1_def demo_host_def demo_blank_def gm_get_def)
  have "dsh_attach (dsh demo_dst1 1) = 3" by (simp add: demo_dst1_def demo_blank_def)
  then show ?thesis
    using conjunct2 [OF conjunct2 [OF docker_shell_end_leaks [OF s g, of demo_ext]]] s by (simp only: simp_thms)
qed

lemma dockerConnect_race_witness:
  "\<exists>hc1 hc2 w1 w2. dialDocker demo_ext demo_dext demo_dspec demo_io = (Inr hc1, w1) \<and>
     dialDocker demo_ext demo_dext demo_dspec w1 = (Inr hc2, w2) \<and>
     \<not> is_ok (fst (dockerInstall demo_ext ''d2'' demo_dspec hc2
       (snd (dockerInstall demo_ext ''d2'' demo_dspec hc1 (demo_dst0\<lparr>d_io := w2\<rparr>)))))"
proof -
  let ?d = "dialDocker demo_ext demo_dext demo_dspec"
  let ?w1 = "snd (?d demo_io)" and ?w2 = "snd (?d (snd (?d demo_io)))"
  have d1: "?d demo_io = (Inr \<lparr>hc_docker = 2, hc_ssh = Some 1\<rparr>, ?w1)" by (rule prod_eqI; simp; code_simp)
  have d2: "?d ?w1 = (Inr \<lparr>hc_docker = 5, hc_ssh = Some 4\<rparr>, ?w2)" by (rule prod_eqI; simp; code_simp)
  have g: "gm_get (hosts demo_dst0) ''d2'' = None" and w: "d_io demo_dst0 = demo_io" by (simp_all add: demo_dst0_def)
  note race = dockerConnect_race [OF demo_dst_ok(1) g, unfolded w, OF d1 d2 surjective_pairing surjective_pairing]
  show ?thesis using race d1 d2 by blast
qed

end
