(* ===== verification/StateSync.thy ===== *)
theory StateSync
  imports SshManagerProps DockerProps
begin

text \<open>
  \<open>internal/state\<close>: what of the two managers is written to \<open>state.json\<close> (\<open>Capture\<close>), how the
  file is written and read (\<open>Store\<close>), and how the managers are rebuilt from it (\<open>Restore\<close>).
  A snapshot in memory holds the specs by reference: their slices are the sessions' own arrays.
  \<open>encoding/json\<close> is a pair of functions; the file system is a map from paths to contents with
  the faults its calls can have.
\<close>

section \<open>Snapshots\<close>

record 's SSHSessionRecord =
  sr_ID :: string
  sr_Spec :: 's

record ForwardRecord =
  fr_ID :: string
  fr_SessionID :: string
  fr_Kind :: string
  fr_LocalSpec :: "LocalSpec option"
  fr_RemoteSpec :: "RemoteSpec option"
  fr_DynamicSpec :: "DynamicSpec option"

record DockerHostRecord =
  dr_ID :: string
  dr_Spec :: DockerSpec

record 's Snapshot =
  sn_Version :: int
  sn_SSHSessions :: "'s SSHSessionRecord list"
  sn_Forwards :: "ForwardRecord list"
  sn_DockerHosts :: "DockerHostRecord list"

type_synonym snap_ref = "spec_ref Snapshot"
type_synonym snap_val = "spec_val Snapshot"

definition emptySnapshot :: "'s Snapshot" where
  "emptySnapshot = \<lparr>sn_Version = 1, sn_SSHSessions = [], sn_Forwards = [], sn_DockerHosts = []\<rparr>"

text \<open>What \<open>json.Marshal\<close> reads when it follows the slices of a snapshot in memory.\<close>

definition snapVal :: "'w st \<Rightarrow> snap_ref \<Rightarrow> snap_val" where
  "snapVal st sn = \<lparr>sn_Version = sn_Version sn,
     sn_SSHSessions = map (\<lambda>r. \<lparr>sr_ID = sr_ID r, sr_Spec = deref st (sr_Spec r)\<rparr>) (sn_SSHSessions sn),
     sn_Forwards = sn_Forwards sn, sn_DockerHosts = sn_DockerHosts sn\<rparr>"

section \<open>Scrubbing\<close>

definition scrubAuth :: "AuthSpec \<Rightarrow> AuthSpec" where
  "scrubAuth a = a\<lparr>Password := [], KeyPassphrase := []\<rparr>"

definition scrubJump :: "JumpHost \<Rightarrow> JumpHost" where
  "scrubJump j = j\<lparr>jh_Auth := scrubAuth (jh_Auth j)\<rparr>"

text \<open>
  \<open>ScrubSSH\<close>: the struct is copied, but \<open>out.JumpHosts[i] = ...\<close> writes through the slice into
  the array the original spec points to.
\<close>

definition ScrubSSH :: "spec_ref \<Rightarrow> 'w st \<Rightarrow> spec_ref \<times> 'w st" where
  "ScrubSSH spec st =
     (spec\<lparr>Auth := scrubAuth (Auth spec)\<rparr>,
      case JumpHosts spec of
        None \<Rightarrow> st
      | Some a \<Rightarrow> st\<lparr>arrJ := (arrJ st)(a := map scrubJump (arrJ st a))\<rparr>)"

definition ScrubDocker :: "DockerSpec \<Rightarrow> DockerSpec" where
  "ScrubDocker spec = spec\<lparr>dc_Password := [], dc_KeyPassphrase := []\<rparr>"

section \<open>Capture\<close>

fun kindName :: "ForwardKind \<Rightarrow> string" where
  "kindName ForwardLocal = ''local''"
| "kindName ForwardRemote = ''remote''"
| "kindName ForwardDynamic = ''dynamic''"

definition forwardRecord :: "string \<Rightarrow> ForwardInfo \<Rightarrow> ForwardRecord" where
  "forwardRecord sid f = \<lparr>fr_ID = fi_ID f, fr_SessionID = sid, fr_Kind = kindName (fi_Kind f),
     fr_LocalSpec = fi_LocalSpec f, fr_RemoteSpec = fi_RemoteSpec f, fr_DynamicSpec = fi_DynamicSpec f\<rparr>"

fun captureSSH :: "ptr list \<Rightarrow> 'w st \<Rightarrow> snap_ref \<Rightarrow> snap_ref \<times> 'w st" where
  "captureSSH [] st sn = (sn, st)"
| "captureSSH (p # ps) st sn =
     (let S = sess st p in
      if \<not> Persistent (s_Spec S) then captureSSH ps st sn
      else (let (spec, st) = ScrubSSH (s_Spec S) st;
                forwards = (case ListForwards st (s_ID S) of Inl _ \<Rightarrow> [] | Inr fs \<Rightarrow> fs)
            in captureSSH ps st
                 (sn\<lparr>sn_SSHSessions := sn_SSHSessions sn @ [\<lparr>sr_ID = s_ID S, sr_Spec = spec\<rparr>],
                     sn_Forwards := sn_Forwards sn @ map (forwardRecord (s_ID S)) forwards\<rparr>)))"

definition captureDocker :: "'w dst \<Rightarrow> DockerHostRecord list" where
  "captureDocker ds = map (\<lambda>p. \<lparr>dr_ID = h_ID (hst ds p), dr_Spec = ScrubDocker (h_Spec (hst ds p))\<rparr>)
     (filter (\<lambda>p. dc_Persistent (h_Spec (hst ds p))) (gm_vals (dockerHosts ds)))"

definition Capture :: "'w st \<Rightarrow> 'w dst \<Rightarrow> snap_ref \<times> 'w st" where
  "Capture st ds =
     (let (sn, st) = captureSSH (gm_vals (Sessions st)) st emptySnapshot
      in (sn\<lparr>sn_DockerHosts := captureDocker ds\<rparr>, st))"

section \<open>The store\<close>

type_synonym fs = "string \<Rightarrow> string option"

record codec =
  j_enc :: "snap_val \<Rightarrow> string res"
  j_dec :: "string \<Rightarrow> snap_val res"

text \<open>
  How the calls on the file system of one \<open>Load\<close> or \<open>Save\<close> fail, if they do: a write that
  fails may have written some bytes.
\<close>

record fault =
  ft_open :: "goerr option"
  ft_stat :: bool
  ft_read :: "goerr option"
  ft_write :: "(goerr \<times> nat) option"
  ft_rename :: "goerr option"
  ft_remove :: bool

definition noFault :: fault where
  "noFault = \<lparr>ft_open = None, ft_stat = False, ft_read = None, ft_write = None, ft_rename = None, ft_remove = False\<rparr>"

definition maxStateFileBytes :: nat where
  "maxStateFileBytes = 16 * 1024 * 1024"

definition fixVersion :: "'s Snapshot \<Rightarrow> 's Snapshot" where
  "fixVersion sn = (if sn_Version sn = 0 then sn\<lparr>sn_Version := 1\<rparr> else sn)"

definition DefaultPath :: "(string list \<Rightarrow> string) \<Rightarrow> string res \<Rightarrow> string res" where
  "DefaultPath pathJoin configDir =
     (case configDir of
        Inl e \<Rightarrow> Inl e
      | Inr home \<Rightarrow> Inr (pathJoin [home, ''remote-shell-mcp'', ''state.json'']))"

definition NewStore ::
    "(string list \<Rightarrow> string) \<Rightarrow> (string \<Rightarrow> string) \<Rightarrow> (string \<Rightarrow> goerr option) \<Rightarrow> string res \<Rightarrow> string \<Rightarrow> string res" where
  "NewStore pathJoin pathDir mkdirAll configDir path0 =
     (case (if path0 = [] then DefaultPath pathJoin configDir else Inr path0) of
        Inl e \<Rightarrow> Inl e
      | Inr path \<Rightarrow>
          (case mkdirAll (pathDir path) of
             Some e \<Rightarrow> Inl (Wrapf ''create state dir: %w'' [] e)
           | None \<Rightarrow> Inr path))"

definition LoadSnap :: "codec \<Rightarrow> fault \<Rightarrow> string \<Rightarrow> fs \<Rightarrow> snap_val res" where
  "LoadSnap j ft path fs =
     (case fs path of
        None \<Rightarrow> (case ft_open ft of None \<Rightarrow> Inr emptySnapshot | Some e \<Rightarrow> Inl e)
      | Some data \<Rightarrow>
          (case ft_open ft of
             Some e \<Rightarrow> Inl e
           | None \<Rightarrow>
               if \<not> ft_stat ft \<and> maxStateFileBytes < length data then
                 Inl (Errorf ''state file %s is %d bytes (>%d max)'' [path, itoa (int (length data)), itoa (int maxStateFileBytes)])
               else (case ft_read ft of
                       Some e \<Rightarrow> Inl e
                     | None \<Rightarrow>
                         (let data = take (maxStateFileBytes + 1) data in
                          if maxStateFileBytes < length data then
                            Inl (Errorf ''state file %s exceeds %d bytes'' [path, itoa (int maxStateFileBytes)])
                          else (case j_dec j data of
                                  Inl e \<Rightarrow> Inl (Wrapf ''parse state file: %w'' [] e)
                                | Inr sn \<Rightarrow> Inr (fixVersion sn))))))"

text \<open>
  \<open>SaveSnap\<close> gives the states the file system goes through, the last one being where it ends: a
  process that dies in between leaves one of the others.
\<close>

definition tmpPath :: "string \<Rightarrow> string" where
  "tmpPath path = path @ ''.tmp''"

definition writeStates :: "(goerr \<times> nat) option \<Rightarrow> string \<Rightarrow> string \<Rightarrow> fs \<Rightarrow> fs list" where
  "writeStates w path data fs =
     map (\<lambda>n. fs(path \<mapsto> take n data))
       [0..<Suc (case w of None \<Rightarrow> length data | Some (_, n) \<Rightarrow> min n (length data))]"

definition SaveSnap :: "codec \<Rightarrow> fault \<Rightarrow> string \<Rightarrow> snap_val \<Rightarrow> fs \<Rightarrow> goerr option \<times> fs list" where
  "SaveSnap j ft path sn fs =
     (case j_enc j (fixVersion sn) of
        Inl e \<Rightarrow> (Some e, [fs])
      | Inr data \<Rightarrow>
          (let tmp = tmpPath path; fss = fs # writeStates (ft_write ft) tmp data fs in
           case ft_write ft of
             Some (e, _) \<Rightarrow> (Some e, fss)
           | None \<Rightarrow>
               (case ft_rename ft of
                  Some e \<Rightarrow> (Some e, fss @ [if ft_remove ft then last fss else (last fss)(tmp := None)])
                | None \<Rightarrow> (None, fss @ [(last fss)(path \<mapsto> data, tmp := None)]))))"

section \<open>Restore\<close>

text \<open>Loading allocates the arrays of a spec.\<close>

definition allocSpec :: "spec_val \<Rightarrow> 'w st \<Rightarrow> spec_ref \<times> 'w st" where
  "allocSpec v st =
     (let a = nxt st; b = Suc (nxt st) in
      (\<lparr>User = User v, Addresses = Some a, JumpHosts = Some b, Auth = Auth v, KnownHostsPath = KnownHostsPath v,
        Insecure = Insecure v, Timeout = Timeout v, Keepalive = Keepalive v, AutoReconnect = AutoReconnect v,
        Persistent = Persistent v, ForwardAgent = ForwardAgent v, DisableSSHConfig = DisableSSHConfig v\<rparr>,
       st\<lparr>arrA := (arrA st)(a := Addresses v), arrJ := (arrJ st)(b := JumpHosts v), nxt := Suc b\<rparr>))"

definition restoreForward :: "'w ext \<Rightarrow> ForwardRecord \<Rightarrow> 'w st \<Rightarrow> goerr option \<times> 'w st" where
  "restoreForward x rec st =
     (let fail = (\<lambda>m as. (Some (Errorf m as), st));
          run = (\<lambda>(r, st). (case r of Inl e \<Rightarrow> Some e | Inr (_::ptr) \<Rightarrow> None, st))
      in if fr_Kind rec = ''local'' then
           (case fr_LocalSpec rec of
              None \<Rightarrow> fail ''missing local spec'' []
            | Some s \<Rightarrow> run (OpenLocalForward x (fr_SessionID rec) (fr_ID rec) s st))
         else if fr_Kind rec = ''remote'' then
           (case fr_RemoteSpec rec of
              None \<Rightarrow> fail ''missing remote spec'' []
            | Some s \<Rightarrow> run (OpenRemoteForward x (fr_SessionID rec) (fr_ID rec) s st))
         else if fr_Kind rec = ''dynamic'' then
           (case fr_DynamicSpec rec of
              None \<Rightarrow> fail ''missing dynamic spec'' []
            | Some s \<Rightarrow> run (OpenDynamicForward x (fr_SessionID rec) (fr_ID rec) s st))
         else fail ''unknown kind %q'' [fr_Kind rec])"

text \<open>The loops of \<open>Restore\<close>; \<open>n\<close> bounds the ssh config's recursion.  The code counts the records that came back, for the log: here
  the lists of their ids stand for the counters.\<close>

fun restoreSSH :: "'w ext \<Rightarrow> nat \<Rightarrow> spec_val SSHSessionRecord list \<Rightarrow> 'w st \<Rightarrow> (string list \<times> 'w st) option" where
  "restoreSSH x n [] st = Some ([], st)"
| "restoreSSH x n (r # rs) st =
     (let (spec, st) = allocSpec (sr_Spec r) st in
      case Connect x n (sr_ID r) spec st of
        None \<Rightarrow> None
      | Some (res, st) \<Rightarrow>
          map_option (\<lambda>(ks, st). (if is_ok res then sr_ID r # ks else ks, st)) (restoreSSH x n rs st))"

fun restoreForwards :: "'w ext \<Rightarrow> ForwardRecord list \<Rightarrow> 'w st \<Rightarrow> string list \<times> 'w st" where
  "restoreForwards x [] st = ([], st)"
| "restoreForwards x (r # rs) st =
     (case restoreForward x r st of
        (e, st) \<Rightarrow> (case restoreForwards x rs st of (ks, st) \<Rightarrow> (if e = None then fr_ID r # ks else ks, st)))"

fun restoreDocker :: "'w ext \<Rightarrow> 'w dext \<Rightarrow> DockerHostRecord list \<Rightarrow> 'w dst \<Rightarrow> string list \<times> 'w dst" where
  "restoreDocker x d [] ds = ([], ds)"
| "restoreDocker x d (r # rs) ds =
     (case dockerConnect x d (dr_ID r) (dr_Spec r) ds of
        (res, ds) \<Rightarrow> (case restoreDocker x d rs ds of (ks, ds) \<Rightarrow> (if is_ok res then dr_ID r # ks else ks, ds)))"

text \<open>
  Each manager numbers its own handles and sees the outside world through its own calls (\<open>x\<close>,
  \<open>xd\<close>); the world itself goes from one to the other.
\<close>

definition Restore ::
    "'w ext \<Rightarrow> 'w ext \<Rightarrow> 'w dext \<Rightarrow> nat \<Rightarrow> snap_val \<Rightarrow> 'w st \<Rightarrow> 'w dst \<Rightarrow>
     ((string list \<times> string list \<times> string list) \<times> 'w st \<times> 'w dst) option" where
  "Restore x xd d n sn st ds =
     (case restoreSSH x n (sn_SSHSessions sn) st of
        None \<Rightarrow> None
      | Some (ks, st) \<Rightarrow>
          (let (fks, st) = restoreForwards x (sn_Forwards sn) st;
               (dks, ds) = restoreDocker xd d (sn_DockerHosts sn) (ds\<lparr>d_io := (d_io ds)\<lparr>orc := orc (st_io st)\<rparr>\<rparr>)
           in Some ((ks, fks, dks), st\<lparr>st_io := (st_io st)\<lparr>orc := orc (d_io ds)\<rparr>\<rparr>, ds)))"

section \<open>Capture: what is recorded\<close>

lemma scrub_idem [simp]: "scrubJump (scrubJump j) = scrubJump j" "scrubAuth (scrubAuth a) = scrubAuth a"
  by (simp_all add: scrubJump_def scrubAuth_def)

lemma scrubJump_comp [simp]: "scrubJump \<circ> scrubJump = scrubJump"
  by (rule ext) simp

lemma forwardsOf_arrJ [simp]: "forwardsOf (st\<lparr>arrJ := f\<rparr>) = forwardsOf st"
  by (rule ext) (simp add: forwardsOf_def)

lemma ListForwards_arrJ [simp]: "ListForwards (st\<lparr>arrJ := f\<rparr>) k = ListForwards st k"
  by (simp add: ListForwards_def forwardsOf_def Get_def split: option.splits)

definition scrubArrays :: "ptr set \<Rightarrow> 'w st \<Rightarrow> 'w st" where
  "scrubArrays A st = st\<lparr>arrJ := (\<lambda>a. if a \<in> A then map scrubJump (arrJ st a) else arrJ st a)\<rparr>"

definition persistentOf :: "'w st \<Rightarrow> ptr list \<Rightarrow> ptr list" where
  "persistentOf st ps = filter (\<lambda>p. Persistent (s_Spec (sess st p))) ps"

definition jumpArrays :: "'w st \<Rightarrow> ptr list \<Rightarrow> ptr set" where
  "jumpArrays st ps = {a. \<exists>p \<in> set ps. JumpHosts (s_Spec (sess st p)) = Some a}"

definition sessionRecord :: "'w st \<Rightarrow> ptr \<Rightarrow> spec_ref SSHSessionRecord" where
  "sessionRecord st p = \<lparr>sr_ID = s_ID (sess st p),
     sr_Spec = (s_Spec (sess st p))\<lparr>Auth := scrubAuth (Auth (s_Spec (sess st p)))\<rparr>\<rparr>"

definition forwardRecords :: "'w st \<Rightarrow> ptr \<Rightarrow> ForwardRecord list" where
  "forwardRecords st p = map (forwardRecord (s_ID (sess st p)))
     (case ListForwards st (s_ID (sess st p)) of Inl _ \<Rightarrow> [] | Inr fs \<Rightarrow> fs)"

lemma scrubArrays_frame [simp]:
  "sess (scrubArrays A st) = sess st" "tbl (scrubArrays A st) = tbl st" "fwd (scrubArrays A st) = fwd st"
  "st_io (scrubArrays A st) = st_io st" "arrA (scrubArrays A st) = arrA st" "nxt (scrubArrays A st) = nxt st"
  "ListForwards (scrubArrays A st) k = ListForwards st k" "shl (scrubArrays A st) = shl st"
  by (simp_all add: scrubArrays_def)

lemma scrub_cong [simp]:
  "sessionRecord (scrubArrays A st) = sessionRecord st" "forwardRecords (scrubArrays A st) = forwardRecords st"
  "persistentOf (scrubArrays A st) = persistentOf st" "jumpArrays (scrubArrays A st) = jumpArrays st"
  by (auto simp: sessionRecord_def forwardRecords_def persistentOf_def jumpArrays_def)

lemma scrubArrays_Un: "scrubArrays A (scrubArrays B st) = scrubArrays (A \<union> B) st"
  by (auto simp: scrubArrays_def intro!: arg_cong [where f = "\<lambda>g. st\<lparr>arrJ := g\<rparr>"])

lemma scrubArrays_empty: "scrubArrays {} st = st"
  by (simp add: scrubArrays_def)

lemma ScrubSSH_arrays:
  "ScrubSSH spec st = (spec\<lparr>Auth := scrubAuth (Auth spec)\<rparr>, scrubArrays (set_option (JumpHosts spec)) st)"
  by (auto simp: ScrubSSH_def scrubArrays_def fun_eq_iff split: option.splits)

lemma captureSSH_closed:
  "captureSSH ps st sn =
     (sn\<lparr>sn_SSHSessions := sn_SSHSessions sn @ map (sessionRecord st) (persistentOf st ps),
         sn_Forwards := sn_Forwards sn @ concat (map (forwardRecords st) (persistentOf st ps))\<rparr>,
      scrubArrays (jumpArrays st (persistentOf st ps)) st)"
proof (induction ps arbitrary: st sn)
  case Nil
  then show ?case by (simp add: persistentOf_def jumpArrays_def scrubArrays_empty)
next
  case (Cons p ps)
  have "set_option (JumpHosts (s_Spec (sess st p))) \<union> jumpArrays st qs = jumpArrays st (p # qs)" for qs
    by (auto simp: jumpArrays_def)
  then have j: "jumpArrays st qs \<union> set_option (JumpHosts (s_Spec (sess st p))) = jumpArrays st (p # qs)" for qs
    by (simp add: Un_commute)
  have r: "sessionRecord st p = \<lparr>sr_ID = s_ID (sess st p), sr_Spec = (s_Spec (sess st p))\<lparr>Auth := scrubAuth (Auth (s_Spec (sess st p)))\<rparr>\<rparr>"
    by (simp add: sessionRecord_def)
  show ?case
  proof (cases "Persistent (s_Spec (sess st p))")
    case True
    then have "persistentOf st (p # ps) = p # persistentOf st ps" by (simp add: persistentOf_def)
    then show ?thesis using True
      by (simp add: Cons.IH ScrubSSH_arrays Let_def scrubArrays_Un j r [symmetric])
        (simp add: forwardRecords_def)
  next
    case False
    then have "persistentOf st (p # ps) = persistentOf st ps" by (simp add: persistentOf_def)
    then show ?thesis using False by (simp add: Cons.IH)
  qed
qed

lemmas Capture_closed = Capture_def [unfolded captureSSH_closed Let_def Sessions_def emptySnapshot_def, simplified]

end
