(* ===== verification/StateProps.thy ===== *)
theory StateProps
  imports StateSync
begin

text \<open>
  Properties of the persisted state: no secret is written, exactly the persistent sessions, their
  forwards and the persistent docker hosts are recorded, scrubbing writes through to the live
  sessions, writing the file is atomic and reading undoes it, and restoring keeps the invariant.
\<close>

section \<open>Capture\<close>

definition noSecrets :: "AuthSpec \<Rightarrow> bool" where
  "noSecrets a \<longleftrightarrow> Password a = [] \<and> KeyPassphrase a = []"

lemma scrub_noSecrets [simp]: "noSecrets (scrubAuth a)" "noSecrets (jh_Auth (scrubJump j))"
  by (simp_all add: noSecrets_def scrubAuth_def scrubJump_def)

text \<open>
  C8. The snapshot that is written has no password and no key passphrase in it: not of the ssh
  sessions, not of any of their jump hosts, not of the docker hosts.
\<close>

theorem Capture_no_secrets:
  assumes "Capture st ds = (sn, st')"
  shows "(\<forall>r \<in> set (sn_SSHSessions (snapVal st' sn)). noSecrets (Auth (sr_Spec r)) \<and>
            (\<forall>j \<in> set (JumpHosts (sr_Spec r)). noSecrets (jh_Auth j))) \<and>
         (\<forall>r \<in> set (sn_DockerHosts (snapVal st' sn)). dc_Password (dr_Spec r) = [] \<and> dc_KeyPassphrase (dr_Spec r) = [])"
  using assms
  by (auto simp: Capture_closed snapVal_def sessionRecord_def deref_def arrayOf_def scrubArrays_def jumpArrays_def
      captureDocker_def ScrubDocker_def split: option.splits if_splits) blast

text \<open>The record of a forward, from the forward.\<close>

definition recordOf :: "string \<Rightarrow> Forward \<Rightarrow> ForwardRecord" where
  "recordOf sid F =
     (case f_spec F of
        FLocal s \<Rightarrow> \<lparr>fr_ID = f_ID F, fr_SessionID = sid, fr_Kind = ''local'', fr_LocalSpec = Some s,
          fr_RemoteSpec = None, fr_DynamicSpec = None\<rparr>
      | FRemote s \<Rightarrow> \<lparr>fr_ID = f_ID F, fr_SessionID = sid, fr_Kind = ''remote'', fr_LocalSpec = None,
          fr_RemoteSpec = Some s, fr_DynamicSpec = None\<rparr>
      | FDynamic s \<Rightarrow> \<lparr>fr_ID = f_ID F, fr_SessionID = sid, fr_Kind = ''dynamic'', fr_LocalSpec = None,
          fr_RemoteSpec = None, fr_DynamicSpec = Some s\<rparr>)"

lemma forwardRecord_of: "forwardRecord sid (fwdInfo F) = recordOf sid F"
  by (simp add: forwardRecord_def fwdInfo_def recordOf_def split: fwd_spec.splits)

lemma forwardRecords_set:
  assumes "mgr_ok st" and "gm_get (tbl st) k = Some p" and "k \<noteq> []"
  shows "set (forwardRecords st p) = {recordOf k (fwd st f) | f i. gm_get (s_forwards (sess st p)) i = Some f}"
proof -
  have k: "s_ID (sess st p) = k" and w: "gm_wf (s_forwards (sess st p))"
    using mgr_sess [OF assms(1,2)] by (simp_all add: sess_wf_def)
  have "forwardRecords st p = map (recordOf k) (map (fwd st) (gm_vals (s_forwards (sess st p))))"
    using assms(2,3) by (simp add: forwardRecords_def k ListForwards_def Get_def forwardsOf_def forwardRecord_of)
  then show ?thesis using gm_vals_iff [OF w] by auto
qed

text \<open>
  C24. The snapshot records exactly what is marked persistent: the ids of the persistent ssh
  sessions, every forward of these sessions with the spec it was opened with (not the port it got),
  and the persistent docker hosts.
\<close>

theorem Capture_exactly_persistent:
  assumes "mgr_ok st" and "gm_get (tbl st) [] = None" and "Capture st ds = (sn, st')"
  shows "sr_ID ` set (sn_SSHSessions sn) = {k. \<exists>p. gm_get (tbl st) k = Some p \<and> Persistent (s_Spec (sess st p))} \<and>
    set (sn_Forwards sn) = {recordOf k (fwd st f) | k f. \<exists>p i. gm_get (tbl st) k = Some p \<and>
       Persistent (s_Spec (sess st p)) \<and> gm_get (s_forwards (sess st p)) i = Some f} \<and>
    dr_ID ` set (sn_DockerHosts sn) = {h_ID (hst ds p) | p. p \<in> set (gm_vals (hosts ds)) \<and> dc_Persistent (h_Spec (hst ds p))}"
proof -
  have w: "gm_wf (tbl st)" using assms(1) by (simp add: mgr_ok_def)
  have k: "k \<noteq> []" if "gm_get (tbl st) k = Some p" for k p using that assms(2) by auto
  have s: "set (persistentOf st (gm_vals (tbl st))) = {p. \<exists>k. gm_get (tbl st) k = Some p \<and> Persistent (s_Spec (sess st p))}"
    using gm_vals_iff [OF w] by (auto simp: persistentOf_def)
  have "sr_ID ` set (sn_SSHSessions sn) = (\<lambda>p. s_ID (sess st p)) ` set (persistentOf st (gm_vals (tbl st)))"
    using assms(3) by (auto simp: Capture_closed sessionRecord_def image_image)
  also have "\<dots> = {k. \<exists>p. gm_get (tbl st) k = Some p \<and> Persistent (s_Spec (sess st p))}"
    unfolding s using mgr_sess(2) [OF assms(1)] by force
  finally have 1: "sr_ID ` set (sn_SSHSessions sn) = \<dots>" .
  have "set (sn_Forwards sn) = (\<Union>p \<in> set (persistentOf st (gm_vals (tbl st))). set (forwardRecords st p))"
    using assms(3) by (auto simp: Capture_closed)
  also have "\<dots> = {recordOf k (fwd st f) | k f. \<exists>p i. gm_get (tbl st) k = Some p \<and>
       Persistent (s_Spec (sess st p)) \<and> gm_get (s_forwards (sess st p)) i = Some f}"
    unfolding s using forwardRecords_set [OF assms(1) _ k] by fast
  finally have 2: "set (sn_Forwards sn) = \<dots>" .
  have 3: "dr_ID ` set (sn_DockerHosts sn) = {h_ID (hst ds p) | p. p \<in> set (gm_vals (hosts ds)) \<and> dc_Persistent (h_Spec (hst ds p))}"
    using assms(3) by (force simp: Capture_closed captureDocker_def dockerHosts_def)
  show ?thesis using 1 2 3 by simp
qed

text \<open>
  Taking a snapshot changes the live sessions: every session whose spec shares its jump hosts
  with a registered persistent session, that session first, has lost the passwords and passphrases
  of its jump hosts afterwards, so a later reconnect dials them without.
\<close>

theorem Capture_erases_live_secrets:
  assumes "gm_get (tbl st) k = Some p" and "Persistent (s_Spec (sess st p))"
    and "JumpHosts (s_Spec (sess st p)) = Some a" and "JumpHosts (s_Spec (sess st q)) = Some a"
    and "Capture st ds = (sn, st')"
  shows "sess st' = sess st \<and>
     JumpHosts (deref st' (s_Spec (sess st' q))) = map scrubJump (JumpHosts (deref st (s_Spec (sess st q)))) \<and>
     (\<forall>j \<in> set (JumpHosts (deref st' (s_Spec (sess st' q)))). noSecrets (jh_Auth j))"
proof -
  have "p \<in> set (gm_vals (tbl st))" using gm_get_mem [OF assms(1)] by (force simp: gm_vals_def)
  then have "a \<in> jumpArrays st (persistentOf st (gm_vals (tbl st)))"
    using assms(2,3) by (auto simp: jumpArrays_def persistentOf_def)
  moreover have "st' = scrubArrays (jumpArrays st (persistentOf st (gm_vals (tbl st)))) st"
    using assms(5) by (simp add: Capture_closed)
  ultimately show ?thesis using assms(4) by (auto simp: deref_def arrayOf_def scrubArrays_def)
qed

section \<open>The file\<close>

lemma tmp_ne [simp]: "tmpPath path \<noteq> path" "path \<noteq> tmpPath path"
  by (simp_all add: tmpPath_def)

lemma writeStates_other: "fs' \<in> set (writeStates w p d fs) \<Longrightarrow> q \<noteq> p \<Longrightarrow> fs' q = fs q"
  by (auto simp: writeStates_def)

lemma writeStates_last: "last (fs0 # writeStates None p d fs) = fs(p \<mapsto> d)"
  by (simp add: writeStates_def)

lemma writeStates_ne [simp]: "writeStates w p d fs \<noteq> []"
  by (simp add: writeStates_def)

text \<open>
  C9. Saving is atomic: in every state the file system goes through while a save runs, and so
  after a crash at any point, \<open>state.json\<close> is either the old file or the whole new one, and no
  other file but the temporary one changes. A save that reports success ends with the new file
  and no temporary one; a save that reports an error, whichever call failed, ends with the old file.
\<close>

theorem SaveSnap_atomic:
  assumes "SaveSnap j ft path sn fs = (r, fss)"
  shows "(\<forall>fs' \<in> set fss. (fs' path = fs path \<or> (\<exists>data. j_enc j (fixVersion sn) = Inr data \<and> fs' path = Some data)) \<and>
            (\<forall>q. q \<noteq> path \<longrightarrow> q \<noteq> tmpPath path \<longrightarrow> fs' q = fs q)) \<and>
     (case r of
        None \<Rightarrow> (\<exists>data. j_enc j (fixVersion sn) = Inr data \<and> last fss path = Some data \<and> last fss (tmpPath path) = None)
      | Some e \<Rightarrow> last fss path = fs path)"
proof (cases "j_enc j (fixVersion sn)")
  case (Inl e)
  then show ?thesis using assms by (auto simp: SaveSnap_def)
next
  case (Inr data)
  let ?W = "\<lambda>w. writeStates w (tmpPath path) data fs"
  note other = writeStates_other [of _ _ "tmpPath path" data fs]
  show ?thesis
  proof (cases "ft_write ft")
    case (Some en)
    then have "r = Some (fst en)" "fss = fs # ?W (Some en)"
      using assms Inr by (auto simp: SaveSnap_def Let_def split: prod.splits)
    moreover have "last (fs # ?W (Some en)) path = fs path"
      using other [OF last_in_set] by simp
    ultimately show ?thesis using other by auto
  next
    case None
    have l: "last (?W None) = fs(tmpPath path \<mapsto> data)" using writeStates_last [of fs] by simp
    show ?thesis
    proof (cases "ft_rename ft")
      case (Some e)
      then have "r = Some e" "fss = (fs # ?W None) @ [if ft_remove ft then fs(tmpPath path \<mapsto> data) else fs(tmpPath path := None)]"
        using assms Inr None l by (auto simp: SaveSnap_def Let_def)
      then show ?thesis using other by auto
    next
      case rn: None
      then have "r = None" "fss = (fs # ?W None) @ [fs(path \<mapsto> data, tmpPath path := None)]"
        using assms Inr None l by (auto simp: SaveSnap_def Let_def fun_upd_twist)
      then show ?thesis using Inr other by auto
    qed
  qed
qed

text \<open>
  What was saved is loaded again, if the JSON codec decodes what it encodes and the file is at
  most 16 MiB: saving sets no limit of its own, and a larger file that was saved cannot be loaded.
\<close>

theorem SaveSnap_LoadSnap:
  assumes "SaveSnap j ft path sn fs = (None, fss)" and "j_enc j (fixVersion sn) = Inr data"
    and "j_dec j data = Inr (fixVersion sn)"
  shows "(length data \<le> maxStateFileBytes \<longrightarrow> LoadSnap j noFault path (last fss) = Inr (fixVersion sn)) \<and>
         (maxStateFileBytes < length data \<longrightarrow> \<not> is_ok (LoadSnap j noFault path (last fss)))"
proof -
  have "last fss path = Some data"
    using assms(1,2) by (auto simp: SaveSnap_def Let_def split: option.splits)
  moreover have "fixVersion (fixVersion sn) = fixVersion sn" by (simp add: fixVersion_def)
  ultimately show ?thesis
    using assms(3) by (auto simp: LoadSnap_def noFault_def)
qed

section \<open>Restore\<close>

lemma mgr_alloc:
  assumes "mgr_ok st" and "allocSpec v st = (spec, st')"
  shows "mgr_ok st' \<and> tbl st' = tbl st"
proof -
  have "mgr_ok st'" by (rule mgr_grow [OF assms(1)]) (use assms(2) in \<open>auto simp: allocSpec_def Let_def\<close>)
  then show ?thesis using assms(2) by (auto simp: allocSpec_def Let_def)
qed

lemma alloc_deref: "allocSpec v st = (spec, st') \<Longrightarrow> deref st' spec = v"
  by (auto simp: allocSpec_def Let_def deref_def arrayOf_def)

lemma owned_st_io [simp]:
  "fwdL (st\<lparr>st_io := w\<rparr>) = fwdL st" "shellL (st\<lparr>st_io := w\<rparr>) = shellL st"
  "sess_wf (st\<lparr>st_io := w\<rparr>) = sess_wf st"
  by (rule ext; simp add: fwdL_def shellL_def sess_wf_def)+

lemma ownedL_st_io [simp]: "ownedL (st\<lparr>st_io := w\<rparr>) = ownedL st" "owned (st\<lparr>st_io := w\<rparr>) = owned st"
proof -
  show *: "ownedL (st\<lparr>st_io := w\<rparr>) = ownedL st" by (rule ext) (simp add: ownedL_def)
  show "owned (st\<lparr>st_io := w\<rparr>) = owned st" by (rule ext) (metis * set_ownedL)
qed

lemma mgr_orc: "mgr_ok st \<Longrightarrow> mgr_ok (st\<lparr>st_io := (st_io st)\<lparr>orc := v\<rparr>\<rparr>)"
  by (simp add: mgr_ok_def io_ok_def)

lemma restoreSSH_spec:
  assumes "mgr_ok st" and "restoreSSH x n rs st = Some (ks, st')"
  shows "mgr_ok st' \<and> subseq ks (map sr_ID rs) \<and>
    (\<forall>k. gm_get (tbl st') k \<noteq> None \<longleftrightarrow> gm_get (tbl st) k \<noteq> None \<or> k \<in> set ks)"
  using assms
proof (induction rs arbitrary: st ks)
  case (Cons r rs)
  obtain spec st1 where a: "allocSpec (sr_Spec r) st = (spec, st1)" by fastforce
  obtain q st2 ks2 where c: "Connect x n (sr_ID r) spec st1 = Some (q, st2)"
      and r: "restoreSSH x n rs st2 = Some (ks2, st')" and ks: "ks = (if is_ok q then sr_ID r # ks2 else ks2)"
    using Cons.prems(2) a by (auto split: option.splits)
  note m = mgr_alloc [OF Cons.prems(1) a]
  note s = Connect_spec [OF conjunct1 [OF m] c]
  note ih = Cons.IH [OF conjunct1 [OF s] r]
  show ?case using ih m s ks by (cases q) (auto simp: connect_post_def)
qed simp

lemma sess_step_tbl: "mgr_ok st \<Longrightarrow> gm_get (tbl st) k = Some p \<Longrightarrow> sess_step p [] st [] st' \<Longrightarrow> tbl st' = tbl st"
  using mgr_held by (fastforce simp: sess_step_def others_same_def)

lemma restoreForward_spec:
  assumes "mgr_ok st" and "restoreForward x r st = (e, st')"
  shows "mgr_ok st' \<and> tbl st' = tbl st"
proof (cases "gm_get (tbl st) (fr_SessionID r)")
  case None
  then have "Get st (fr_SessionID r) = Inl (Errorf ''ssh session %q not found'' [fr_SessionID r])" by (simp add: Get_def)
  then have "st' = st" using assms(2)
    by (auto simp: restoreForward_def Let_def openForward_no_session split: if_splits option.splits)
  then show ?thesis using assms(1) by simp
next
  case (Some p)
  then have g: "Get st (fr_SessionID r) = Inr p" by (simp add: Get_def)
  have "sess_step p [] st [] st'"
    using assms(2)
    by (auto simp: restoreForward_def Let_def split: if_splits option.splits prod.splits
        intro: sess_step_OpenLocal [OF g] sess_step_OpenRemote [OF g] sess_step_OpenDynamic [OF g])
  then show ?thesis using mgr_step [OF assms(1) Some] sess_step_tbl [OF assms(1) Some] by blast
qed

lemma restoreForwards_spec:
  assumes "mgr_ok st" and "restoreForwards x rs st = (ks, st')"
  shows "mgr_ok st' \<and> tbl st' = tbl st \<and> subseq ks (map fr_ID rs)"
  using assms
proof (induction rs arbitrary: st ks)
  case (Cons r rs)
  obtain e st1 where a: "restoreForward x r st = (e, st1)" by fastforce
  obtain ks2 where b: "restoreForwards x rs st1 = (ks2, st')" "ks = (if e = None then fr_ID r # ks2 else ks2)"
    using Cons.prems(2) a by (auto split: prod.splits)
  note m = restoreForward_spec [OF Cons.prems(1) a]
  from Cons.IH [OF conjunct1 [OF m] b(1)] m b(2) show ?case by auto
qed simp

lemma dockerConnect_dom:
  assumes "dockerConnect x d k spec ds = (r, ds')"
  shows "gm_get (hosts ds') j \<noteq> None \<longleftrightarrow> gm_get (hosts ds) j \<noteq> None \<or> is_ok r \<and> j = k"
  using assms
  by (auto simp: dockerConnect_def dockerInstall_def split: if_splits sum.splits prod.splits dest!: d_call_frame)

lemma restoreDocker_spec:
  "restoreDocker x d rs ds = (ks, ds') \<Longrightarrow> subseq ks (map dr_ID rs) \<and>
   (\<forall>k. gm_get (hosts ds') k \<noteq> None \<longleftrightarrow> gm_get (hosts ds) k \<noteq> None \<or> k \<in> set ks)"
proof (induction rs arbitrary: ds ks)
  case (Cons r rs)
  obtain q ds1 where a: "dockerConnect x d (dr_ID r) (dr_Spec r) ds = (q, ds1)" by fastforce
  obtain ks2 where b: "restoreDocker x d rs ds1 = (ks2, ds')" "ks = (if is_ok q then dr_ID r # ks2 else ks2)"
    using Cons.prems a by (auto split: prod.splits)
  from Cons.IH [OF b(1)] dockerConnect_dom [OF a] b(2) show ?case by auto
qed simp

lemma Restore_spec:
  assumes "mgr_ok st" and "Restore x xd d n sn st ds = Some ((ks, fks, dks), st', ds')"
  shows "mgr_ok st' \<and> subseq ks (map sr_ID (sn_SSHSessions sn)) \<and> subseq fks (map fr_ID (sn_Forwards sn)) \<and>
     subseq dks (map dr_ID (sn_DockerHosts sn)) \<and>
     (\<forall>k. gm_get (tbl st') k \<noteq> None \<longleftrightarrow> gm_get (tbl st) k \<noteq> None \<or> k \<in> set ks) \<and>
     (\<forall>k. gm_get (hosts ds') k \<noteq> None \<longleftrightarrow> gm_get (hosts ds) k \<noteq> None \<or> k \<in> set dks)"
proof -
  obtain st1 st2 where r: "restoreSSH x n (sn_SSHSessions sn) st = Some (ks, st1)"
      and f: "restoreForwards x (sn_Forwards sn) st1 = (fks, st2)"
      and d: "restoreDocker xd d (sn_DockerHosts sn) (ds\<lparr>d_io := (d_io ds)\<lparr>orc := orc (st_io st2)\<rparr>\<rparr>) = (dks, ds')"
      and st': "st' = st2\<lparr>st_io := (st_io st2)\<lparr>orc := orc (d_io ds')\<rparr>\<rparr>"
    using assms(2) by (auto simp: Restore_def Let_def split: option.splits prod.splits)
  note 1 = restoreSSH_spec [OF assms(1) r]
  note 2 = restoreForwards_spec [OF conjunct1 [OF 1] f]
  note 3 = restoreDocker_spec [OF d]
  show ?thesis using 1 2 3 mgr_orc [OF conjunct1 [OF 2]] st' by simp
qed

section \<open>Every record is tried\<close>

text \<open>
  A row of attempts, told without the loops: there are as many as records, the first is made in the state \<open>s\<close>, each next one in the
  state the one before it left, whether or not that succeeded, and the last one leaves \<open>s'\<close>; \<open>oks\<close> says which succeeded.
\<close>

definition allTried :: "('r \<Rightarrow> 's \<Rightarrow> bool \<Rightarrow> 's \<Rightarrow> bool) \<Rightarrow> 'r list \<Rightarrow> 's \<Rightarrow> bool list \<Rightarrow> 's \<Rightarrow> bool" where
  "allTried att rs s oks s' \<longleftrightarrow>
     length oks = length rs \<and>
     (\<exists>f. f 0 = s \<and> f (length rs) = s' \<and> (\<forall>i < length rs. att (rs ! i) (f i) (oks ! i) (f (Suc i))))"

lemma allTried_Nil: "allTried att [] s [] s"
  by (auto simp: allTried_def)

lemma allTried_Cons:
  assumes "att r s ok s1" and "allTried att rs s1 oks s'"
  shows "allTried att (r # rs) s (ok # oks) s'"
proof -
  obtain f where f: "f 0 = s1" "f (length rs) = s'" "\<forall>i < length rs. att (rs ! i) (f i) (oks ! i) (f (Suc i))"
    using assms(2) by (auto simp: allTried_def)
  have "\<forall>i < Suc (length rs). att ((r # rs) ! i) (case_nat s f i) ((ok # oks) ! i) (case_nat s f (Suc i))"
    using assms(1) f(1,3) by (auto simp: less_Suc_eq_0_disj)
  then show ?thesis using assms(2) f(2) by (auto simp: allTried_def intro!: exI [of _ "case_nat s f"])
qed

text \<open>The records whose attempt succeeded.\<close>

definition succeeded :: "bool list \<Rightarrow> 'r list \<Rightarrow> 'r list" where
  "succeeded oks rs = map snd (filter fst (zip oks rs))"

lemma succeeded_simps [simp]: "succeeded [] [] = []" "succeeded (ok # oks) (r # rs) = (if ok then [r] else []) @ succeeded oks rs"
  by (simp_all add: succeeded_def)

text \<open>One attempt: a session of a record of its own, a forward of its kind with that kind's parameters, a docker host.\<close>

definition trySession :: "'w ext \<Rightarrow> nat \<Rightarrow> spec_val SSHSessionRecord \<Rightarrow> 'w st \<Rightarrow> bool \<Rightarrow> 'w st \<Rightarrow> bool" where
  "trySession x n r s ok s' \<longleftrightarrow>
     (\<exists>spec s1 q. allocSpec (sr_Spec r) s = (spec, s1) \<and> Connect x n (sr_ID r) spec s1 = Some (q, s') \<and> ok = is_ok q)"

definition tryForward :: "'w ext \<Rightarrow> ForwardRecord \<Rightarrow> 'w st \<Rightarrow> bool \<Rightarrow> 'w st \<Rightarrow> bool" where
  "tryForward x r s ok s' \<longleftrightarrow>
     (\<exists>l q. fr_Kind r = ''local'' \<and> fr_LocalSpec r = Some l \<and> OpenLocalForward x (fr_SessionID r) (fr_ID r) l s = (q, s') \<and> ok = is_ok q) \<or>
     (\<exists>l q. fr_Kind r = ''remote'' \<and> fr_RemoteSpec r = Some l \<and> OpenRemoteForward x (fr_SessionID r) (fr_ID r) l s = (q, s') \<and> ok = is_ok q) \<or>
     (\<exists>l q. fr_Kind r = ''dynamic'' \<and> fr_DynamicSpec r = Some l \<and> OpenDynamicForward x (fr_SessionID r) (fr_ID r) l s = (q, s') \<and> ok = is_ok q) \<or>
     (\<not> ok \<and> s' = s \<and> (fr_Kind r = ''local'' \<longrightarrow> fr_LocalSpec r = None) \<and> (fr_Kind r = ''remote'' \<longrightarrow> fr_RemoteSpec r = None) \<and>
        (fr_Kind r = ''dynamic'' \<longrightarrow> fr_DynamicSpec r = None))"

definition tryHost :: "'w ext \<Rightarrow> 'w dext \<Rightarrow> DockerHostRecord \<Rightarrow> 'w dst \<Rightarrow> bool \<Rightarrow> 'w dst \<Rightarrow> bool" where
  "tryHost x d r s ok s' \<longleftrightarrow> (\<exists>q. dockerConnect x d (dr_ID r) (dr_Spec r) s = (q, s') \<and> ok = is_ok q)"

lemma restoreSSH_tries:
  "restoreSSH x n rs s = Some (ks, s') \<Longrightarrow> \<exists>oks. allTried (trySession x n) rs s oks s' \<and> ks = map sr_ID (succeeded oks rs)"
proof (induction rs arbitrary: s ks)
  case (Cons r rs)
  obtain spec s1 where a: "allocSpec (sr_Spec r) s = (spec, s1)" by fastforce
  obtain q s2 ks2 where c: "Connect x n (sr_ID r) spec s1 = Some (q, s2)" and rest: "restoreSSH x n rs s2 = Some (ks2, s')"
      and ks: "ks = (if is_ok q then sr_ID r # ks2 else ks2)"
    using Cons.prems a by (auto split: option.splits)
  from Cons.IH [OF rest] obtain oks where "allTried (trySession x n) rs s2 oks s'" "ks2 = map sr_ID (succeeded oks rs)" by blast
  moreover have "trySession x n r s (is_ok q) s2" using a c by (auto simp: trySession_def)
  ultimately show ?case using ks by (intro exI [of _ "is_ok q # oks"]) (simp add: allTried_Cons)
qed (auto intro!: exI [of _ "[]"] allTried_Nil)

lemma restoreForward_tries: "restoreForward x r s = (e, s') \<Longrightarrow> tryForward x r s (e = None) s'"
  unfolding restoreForward_def tryForward_def Let_def
  by (auto split: if_splits option.splits prod.splits sum.splits)

lemma restoreForwards_tries:
  "restoreForwards x rs s = (ks, s') \<Longrightarrow> \<exists>oks. allTried (tryForward x) rs s oks s' \<and> ks = map fr_ID (succeeded oks rs)"
proof (induction rs arbitrary: s ks)
  case (Cons r rs)
  obtain e s1 where a: "restoreForward x r s = (e, s1)" by fastforce
  obtain ks2 where rest: "restoreForwards x rs s1 = (ks2, s')" "ks = (if e = None then fr_ID r # ks2 else ks2)"
    using Cons.prems a by (auto split: prod.splits)
  from Cons.IH [OF rest(1)] obtain oks where "allTried (tryForward x) rs s1 oks s'" "ks2 = map fr_ID (succeeded oks rs)" by blast
  then show ?case using rest(2) allTried_Cons [where att = "tryForward x", OF restoreForward_tries [OF a]]
    by (intro exI [of _ "(e = None) # oks"]) simp
qed (auto intro!: exI [of _ "[]"] allTried_Nil)

lemma restoreDocker_tries:
  "restoreDocker x d rs s = (ks, s') \<Longrightarrow> \<exists>oks. allTried (tryHost x d) rs s oks s' \<and> ks = map dr_ID (succeeded oks rs)"
proof (induction rs arbitrary: s ks)
  case (Cons r rs)
  obtain q s1 where a: "dockerConnect x d (dr_ID r) (dr_Spec r) s = (q, s1)" by fastforce
  obtain ks2 where rest: "restoreDocker x d rs s1 = (ks2, s')" "ks = (if is_ok q then dr_ID r # ks2 else ks2)"
    using Cons.prems a by (auto split: prod.splits)
  from Cons.IH [OF rest(1)] obtain oks where "allTried (tryHost x d) rs s1 oks s'" "ks2 = map dr_ID (succeeded oks rs)" by blast
  moreover have "tryHost x d r s (is_ok q) s1" using a by (auto simp: tryHost_def)
  ultimately show ?case using rest(2) by (intro exI [of _ "is_ok q # oks"]) (simp add: allTried_Cons)
qed (auto intro!: exI [of _ "[]"] allTried_Nil)

text \<open>
  C23. Restoring a snapshot tries everything in it, and keeps exactly what succeeds.  Each session record is connected, then each
  forward opened, then each docker host connected, in the snapshot's order and once each, in the state the attempts before it
  left, however those ended; afterwards the ids registered are exactly those that were registered before and those of the records whose
  attempt succeeded, and the manager's invariant holds.  (The lists \<open>ks\<close>, \<open>fks\<close> and \<open>dks\<close>, of which the code only logs the lengths, are
  the ids of these records in order.)
\<close>

theorem Restore_accounted:
  assumes "mgr_ok st" and "Restore x xd d n sn st ds = Some ((ks, fks, dks), st', ds')"
  shows "mgr_ok st' \<and>
    (\<exists>st1 st2 oks foks doks.
       allTried (trySession x n) (sn_SSHSessions sn) st oks st1 \<and> allTried (tryForward x) (sn_Forwards sn) st1 foks st2 \<and>
       allTried (tryHost xd d) (sn_DockerHosts sn) (ds\<lparr>d_io := (d_io ds)\<lparr>orc := orc (st_io st2)\<rparr>\<rparr>) doks ds' \<and>
       st' = st2\<lparr>st_io := (st_io st2)\<lparr>orc := orc (d_io ds')\<rparr>\<rparr> \<and>
       ks = map sr_ID (succeeded oks (sn_SSHSessions sn)) \<and> fks = map fr_ID (succeeded foks (sn_Forwards sn)) \<and>
       dks = map dr_ID (succeeded doks (sn_DockerHosts sn)) \<and>
       (\<forall>k. gm_get (tbl st') k \<noteq> None \<longleftrightarrow> gm_get (tbl st) k \<noteq> None \<or> k \<in> sr_ID ` set (succeeded oks (sn_SSHSessions sn))) \<and>
       (\<forall>k. gm_get (hosts ds') k \<noteq> None \<longleftrightarrow> gm_get (hosts ds) k \<noteq> None \<or> k \<in> dr_ID ` set (succeeded doks (sn_DockerHosts sn))))"
proof -
  note spec = Restore_spec [OF assms]
  obtain st1 st2 where r: "restoreSSH x n (sn_SSHSessions sn) st = Some (ks, st1)"
      and f: "restoreForwards x (sn_Forwards sn) st1 = (fks, st2)"
      and d: "restoreDocker xd d (sn_DockerHosts sn) (ds\<lparr>d_io := (d_io ds)\<lparr>orc := orc (st_io st2)\<rparr>\<rparr>) = (dks, ds')"
      and st': "st' = st2\<lparr>st_io := (st_io st2)\<lparr>orc := orc (d_io ds')\<rparr>\<rparr>"
    using assms(2) by (auto simp: Restore_def Let_def split: option.splits prod.splits)
  obtain oks where 1: "allTried (trySession x n) (sn_SSHSessions sn) st oks st1" "ks = map sr_ID (succeeded oks (sn_SSHSessions sn))"
    using restoreSSH_tries [OF r] by blast
  obtain foks where 2: "allTried (tryForward x) (sn_Forwards sn) st1 foks st2" "fks = map fr_ID (succeeded foks (sn_Forwards sn))"
    using restoreForwards_tries [OF f] by blast
  obtain doks where 3: "allTried (tryHost xd d) (sn_DockerHosts sn) (ds\<lparr>d_io := (d_io ds)\<lparr>orc := orc (st_io st2)\<rparr>\<rparr>) doks ds'"
      "dks = map dr_ID (succeeded doks (sn_DockerHosts sn))"
    using restoreDocker_tries [OF d] by blast
  have "set ks = sr_ID ` set (succeeded oks (sn_SSHSessions sn))" "set dks = dr_ID ` set (succeeded doks (sn_DockerHosts sn))"
    by (simp_all add: 1(2) 3(2))
  then have "\<forall>k. gm_get (tbl st') k \<noteq> None \<longleftrightarrow> gm_get (tbl st) k \<noteq> None \<or> k \<in> sr_ID ` set (succeeded oks (sn_SSHSessions sn))"
      "\<forall>k. gm_get (hosts ds') k \<noteq> None \<longleftrightarrow> gm_get (hosts ds) k \<noteq> None \<or> k \<in> dr_ID ` set (succeeded doks (sn_DockerHosts sn))"
    using spec by simp_all
  then show ?thesis using spec 1 2 3 st' by blast
qed

text \<open>
  A persistent session that does not come back at a start is forgotten: the next snapshot after
  a restore into an empty manager has only sessions that were connected, so one whose host was
  down for a moment is not in the file any more.
\<close>

theorem Restore_forgets_failed:
  assumes "mgr_ok st" and "tbl st = []" and "Restore x xd d n sn st ds = Some ((ks, fks, dks), st', ds')"
    and "Capture st' ds' = (sn', st'')"
  shows "sr_ID ` set (sn_SSHSessions sn') \<subseteq> set ks"
proof
  fix k
  assume "k \<in> sr_ID ` set (sn_SSHSessions sn')"
  then obtain p where p: "p \<in> set (gm_vals (tbl st'))" and k: "k = s_ID (sess st' p)"
    using assms(4) by (auto simp: Capture_closed sessionRecord_def persistentOf_def)
  note r = Restore_spec [OF assms(1,3)]
  have "gm_wf (tbl st')" using r by (simp add: mgr_ok_def)
  then obtain j where j: "gm_get (tbl st') j = Some p" using p gm_vals_iff by metis
  then have "j = k" using mgr_sess(2) [OF conjunct1 [OF r] j] k by simp
  then show "k \<in> set ks" using r j assms(2) by auto
qed

section \<open>Worked instances\<close>

text \<open>The session of \<open>demo_st\<close> behind a jump host with a password.\<close>

definition demo_jump :: JumpHost where
  "demo_jump = \<lparr>jh_User = ''me'', jh_Addresses = [''gate''], jh_Auth = emptyAuth\<lparr>Password := ''pw''\<rparr>,
     jh_KnownHostsPath = [], jh_Insecure = True, jh_Timeout = 0\<rparr>"

definition demo_jump_st :: "nat st" where
  "demo_jump_st = demo_st\<lparr>sess := (\<lambda>p. (demo_session ''a'')\<lparr>s_Spec := demo_ref\<lparr>JumpHosts := Some 0\<rparr>\<rparr>), arrJ := (\<lambda>a. [demo_jump])\<rparr>"

lemma demo_jump_ok: "mgr_ok demo_jump_st"
  by (auto simp: mgr_ok_def demo_jump_st_def demo_st_def io_ok_def sess_wf_def demo_session_def ownedL_def owned_def
      transportL_def transport_def opt_list_def gm_vals_def gm_get_def gm_wf_def split: if_splits)

lemma Capture_no_secrets_witness:
  "map sr_ID (sn_SSHSessions (fst (Capture demo_jump_st demo_dst1))) = [''a''] \<and>
   list_all (\<lambda>r. list_all (\<lambda>j. noSecrets (jh_Auth j)) (JumpHosts (sr_Spec r)))
     (sn_SSHSessions (snapVal (snd (Capture demo_jump_st demo_dst1)) (fst (Capture demo_jump_st demo_dst1))))"
proof -
  have "map sr_ID (sn_SSHSessions (fst (Capture demo_jump_st demo_dst1))) = [''a'']" by code_simp
  then show ?thesis using Capture_no_secrets [OF surjective_pairing, of demo_jump_st demo_dst1]
    by (auto simp: list_all_iff)
qed

lemma demo_get_jump: "gm_get (tbl demo_jump_st) ''a'' = Some 0" "gm_get (tbl demo_jump_st) [] = None"
  by (simp_all add: demo_jump_st_def demo_st_def gm_get_def)

lemma Capture_exactly_persistent_witness:
  "''a'' \<in> sr_ID ` set (sn_SSHSessions (fst (Capture demo_jump_st demo_dst1)))"
proof -
  have "Persistent (s_Spec (sess demo_jump_st 0))" by (simp add: demo_jump_st_def demo_ref_def demo_session_def)
  then show ?thesis
    using conjunct1 [OF Capture_exactly_persistent [OF demo_jump_ok demo_get_jump(2) surjective_pairing, of demo_dst1]]
      demo_get_jump(1) by blast
qed

lemma Capture_erases_live_secrets_witness:
  "Password (jh_Auth demo_jump) \<noteq> [] \<and>
   JumpHosts (deref (snd (Capture demo_jump_st demo_dst1)) (s_Spec (sess demo_jump_st 0))) = [scrubJump demo_jump]"
proof -
  have j: "Persistent (s_Spec (sess demo_jump_st 0))" "JumpHosts (s_Spec (sess demo_jump_st 0)) = Some 0"
      "JumpHosts (deref demo_jump_st (s_Spec (sess demo_jump_st 0))) = [demo_jump]" "Password (jh_Auth demo_jump) \<noteq> []"
    by (simp_all add: demo_jump_st_def demo_ref_def demo_session_def deref_def arrayOf_def demo_jump_def)
  show ?thesis
    using Capture_erases_live_secrets [OF demo_get_jump(1) j(1,2,2) surjective_pairing, of demo_dst1] j(3,4) by auto
qed

definition demo_codec :: codec where
  "demo_codec = \<lparr>j_enc = (\<lambda>sn. Inr ''{}''), j_dec = (\<lambda>s. if s = ''{}'' then Inr emptySnapshot else Inl (ExtErr ''json''))\<rparr>"

lemma demo_save: "SaveSnap demo_codec noFault ''s'' emptySnapshot Map.empty =
    (None, snd (SaveSnap demo_codec noFault ''s'' emptySnapshot Map.empty))"
  by (simp add: SaveSnap_def demo_codec_def noFault_def Let_def)

lemma SaveSnap_atomic_witness:
  "last (snd (SaveSnap demo_codec noFault ''s'' emptySnapshot Map.empty)) ''s'' = Some ''{}''"
  using SaveSnap_atomic [OF demo_save] by (simp add: demo_codec_def)

lemma demo_fix: "fixVersion emptySnapshot = emptySnapshot"
  by (simp add: fixVersion_def emptySnapshot_def)

lemma SaveSnap_LoadSnap_witness:
  "LoadSnap demo_codec noFault ''s'' (last (snd (SaveSnap demo_codec noFault ''s'' emptySnapshot Map.empty))) = Inr emptySnapshot"
  using SaveSnap_LoadSnap [OF demo_save, of "''{}''"] by (simp add: demo_codec_def demo_fix maxStateFileBytes_def)

text \<open>An empty ssh manager and a snapshot of two sessions, one of which does not answer.\<close>

definition demo_none :: "nat st" where
  "demo_none = demo_st\<lparr>tbl := [], st_io := demo_io\<rparr>"

definition demo_snap :: snap_val where
  "demo_snap = \<lparr>sn_Version = 1, sn_SSHSessions = [\<lparr>sr_ID = ''a'', sr_Spec = deref demo_st demo_ref\<rparr>,
     \<lparr>sr_ID = ''b'', sr_Spec = (deref demo_st demo_ref)\<lparr>Addresses := [''down'']\<rparr>\<rparr>], sn_Forwards = [], sn_DockerHosts = []\<rparr>"

lemma demo_none_ok: "mgr_ok demo_none" "tbl demo_none = []"
  by (simp_all add: mgr_ok_def demo_none_def demo_io_def io_ok_def)

lemma demo_restore:
  "\<exists>st' ds'. Restore demo_ext demo_ext demo_dext 2 demo_snap demo_none demo_dst0 = Some (([''a''], [], []), st', ds')"
proof -
  have "map_option fst (Restore demo_ext demo_ext demo_dext 2 demo_snap demo_none demo_dst0) = Some ([''a''], [], [])"
    by code_simp
  then show ?thesis by auto
qed

lemma Restore_accounted_witness:
  "\<exists>st' ds'. Restore demo_ext demo_ext demo_dext 2 demo_snap demo_none demo_dst0 = Some (([''a''], [], []), st', ds') \<and>
     mgr_ok st' \<and> gm_get (tbl st') ''a'' \<noteq> None \<and> gm_get (tbl st') ''b'' = None"
proof -
  obtain st' ds' where r: "Restore demo_ext demo_ext demo_dext 2 demo_snap demo_none demo_dst0 = Some (([''a''], [], []), st', ds')"
    using demo_restore by blast
  note acc = Restore_accounted [OF demo_none_ok(1) r]
  note m = conjunct1 [OF acc]
  from conjunct2 [OF acc] obtain oks where k: "[''a''] = map sr_ID (succeeded oks (sn_SSHSessions demo_snap))"
      and t: "\<forall>k. gm_get (tbl st') k \<noteq> None \<longleftrightarrow> gm_get (tbl demo_none) k \<noteq> None \<or> k \<in> sr_ID ` set (succeeded oks (sn_SSHSessions demo_snap))"
    by (elim exE conjE) (rule that)
  have "sr_ID ` set (succeeded oks (sn_SSHSessions demo_snap)) = {''a''}" using arg_cong [OF k, of set] by simp
  with t have d: "\<forall>k. gm_get (tbl st') k \<noteq> None \<longleftrightarrow> gm_get (tbl demo_none) k \<noteq> None \<or> k \<in> {''a''}" by simp
  note m
  moreover have "gm_get (tbl st') ''a'' \<noteq> None" using d by simp
  moreover have "gm_get (tbl st') ''b'' = None" using spec [OF d, of "''b''"] demo_none_ok(2) by auto
  ultimately show ?thesis using r by blast
qed

lemma Restore_forgets_failed_witness:
  "\<exists>st' ds'. Restore demo_ext demo_ext demo_dext 2 demo_snap demo_none demo_dst0 = Some (([''a''], [], []), st', ds') \<and>
     ''b'' \<in> sr_ID ` set (sn_SSHSessions demo_snap) \<and> ''b'' \<notin> sr_ID ` set (sn_SSHSessions (fst (Capture st' ds')))"
proof -
  obtain st' ds' where r: "Restore demo_ext demo_ext demo_dext 2 demo_snap demo_none demo_dst0 = Some (([''a''], [], []), st', ds')"
    using demo_restore by blast
  from Restore_forgets_failed [OF demo_none_ok r surjective_pairing]
  have "''b'' \<notin> sr_ID ` set (sn_SSHSessions (fst (Capture st' ds')))" by auto
  moreover have "''b'' \<in> sr_ID ` set (sn_SSHSessions demo_snap)" by (simp add: demo_snap_def)
  ultimately show ?thesis using r by blast
qed

end
