(* ===== verification/Socks.thy ===== *)
theory Socks
  imports SshManagerInv
begin

text \<open>
  The SOCKS5 server of the dynamic forwards (\<open>internal/sshx/forward.go\<close>).  What a client sends
  is a byte string; \<open>io.ReadFull\<close> takes from its front.  The handler returns what it wrote to
  the client, in order.
\<close>

section \<open>Package net: addresses as text\<close>

definition byte :: "char \<Rightarrow> nat" where
  "byte c = of_char c"

definition ip4String :: "string \<Rightarrow> string" where
  "ip4String ip = joinWith ''.'' (map (\<lambda>b. nat_dec (byte b)) ip)"

fun nat_hex :: "nat \<Rightarrow> string" where
  "nat_hex n = (let d = (\<lambda>k. if k < 10 then digit_char k else char_of (87 + k)) in
     if n < 16 then [d n] else nat_hex (n div 16) @ [d (n mod 16)])"

declare nat_hex.simps [simp del]

fun groups16 :: "string \<Rightarrow> nat list" where
  "groups16 (a # b # bs) = (256 * byte a + byte b) # groups16 bs"
| "groups16 _ = []"

definition zeroRun :: "nat list \<Rightarrow> nat \<Rightarrow> nat" where
  "zeroRun gs i = length (takeWhile (\<lambda>g. g = 0) (drop i gs))"

definition longestZeros :: "nat list \<Rightarrow> nat \<times> nat" where
  "longestZeros gs = foldl (\<lambda>(s, e) i. let l = zeroRun gs i in if 2 \<le> l \<and> e - s < l then (i, i + l) else (s, e)) (255, 255) [0..<8]"

definition ip6String :: "string \<Rightarrow> string" where
  "ip6String ip =
     (let gs = groups16 ip; (s, e) = longestZeros gs in
      if s = 255 then joinWith '':'' (map nat_hex gs)
      else joinWith '':'' (map nat_hex (take s gs)) @ ''::'' @ joinWith '':'' (map nat_hex (drop e gs)))"

text \<open>\<open>net.IP.String\<close> of 4 or 16 bytes: an IPv4 address in IPv6 form is printed as IPv4.\<close>

definition ipString :: "string \<Rightarrow> string" where
  "ipString ip =
     (if length ip = 4 then ip4String ip
      else if take 12 ip = replicate 10 (CHR 0x00) @ [CHR 0xFF, CHR 0xFF] then ip4String (drop 12 ip)
      else ip6String ip)"

section \<open>The server\<close>

definition readFull :: "nat \<Rightarrow> string \<Rightarrow> (string \<times> string) res" where
  "readFull n inp =
     (if n \<le> length inp then Inr (take n inp, drop n inp)
      else Inl (if inp = [] then IoEOF else ExtErr ''unexpected EOF''))"

text \<open>The result of the handshake is the rest of the input; the write of the answer can fail.\<close>

definition socksGreeting :: "string \<Rightarrow> string res" where
  "socksGreeting inp =
     (case readFull 2 inp of
        Inl e \<Rightarrow> Inl e
      | Inr (buf, inp) \<Rightarrow>
          if buf ! 0 \<noteq> CHR 0x05 then Inl (Errorf ''socks: bad version'' [])
          else (case readFull (byte (buf ! 1)) inp of Inl e \<Rightarrow> Inl e | Inr (methods, inp) \<Rightarrow> Inr inp))"

definition socksHandshake :: "'w ext \<Rightarrow> handle \<Rightarrow> string \<Rightarrow> 'w st \<Rightarrow> string res \<times> string list \<times> 'w st" where
  "socksHandshake x c inp st =
     (case socksGreeting inp of
        Inl e \<Rightarrow> (Inl e, [], st)
      | Inr rest \<Rightarrow>
          (case st_call (io_call (x_write x c [CHR 0x05, CHR 0x00])) st of
             (Some e, st) \<Rightarrow> (Inl e, [[CHR 0x05, CHR 0x00]], st)
           | (None, st) \<Rightarrow> (Inr rest, [[CHR 0x05, CHR 0x00]], st)))"

definition socksHost :: "char \<Rightarrow> string \<Rightarrow> (string \<times> string) res" where
  "socksHost atyp inp =
     (if atyp = CHR 0x01 then map_sum id (\<lambda>(ip, inp). (ipString ip, inp)) (readFull 4 inp)
      else if atyp = CHR 0x03 then
        (case readFull 1 inp of
           Inl e \<Rightarrow> Inl e
         | Inr (ln, inp) \<Rightarrow>
             if byte (ln ! 0) = 0 then Inl (Errorf ''socks: empty hostname'' []) else readFull (byte (ln ! 0)) inp)
      else if atyp = CHR 0x04 then map_sum id (\<lambda>(ip, inp). (ipString ip, inp)) (readFull 16 inp)
      else Inl (Errorf ''socks: unknown atyp'' []))"

definition socksReadRequest :: "string \<Rightarrow> (string \<times> string) res" where
  "socksReadRequest inp =
     (case readFull 4 inp of
        Inl e \<Rightarrow> Inl e
      | Inr (hdr, inp) \<Rightarrow>
          if hdr ! 0 \<noteq> CHR 0x05 \<or> hdr ! 1 \<noteq> CHR 0x01 then Inl (Errorf ''socks: unsupported command'' [])
          else (case socksHost (hdr ! 3) inp of
                  Inl e \<Rightarrow> Inl e
                | Inr (host, inp) \<Rightarrow>
                    (case readFull 2 inp of
                       Inl e \<Rightarrow> Inl e
                     | Inr (portB, inp) \<Rightarrow>
                         Inr (joinHostPort host (itoa (int (256 * byte (portB ! 0) + byte (portB ! 1)))), inp))))"

definition replyBytes :: "char \<Rightarrow> string" where
  "replyBytes rep = [CHR 0x05, rep, CHR 0x00, CHR 0x01, CHR 0x00, CHR 0x00, CHR 0x00, CHR 0x00, CHR 0x00, CHR 0x00]"

definition socksReply :: "'w ext \<Rightarrow> handle \<Rightarrow> char \<Rightarrow> 'w st \<Rightarrow> goerr option \<times> 'w st" where
  "socksReply x c rep st = st_call (io_call (x_write x c (replyBytes rep))) st"

definition handleSocks :: "'w ext \<Rightarrow> ptr \<Rightarrow> handle \<Rightarrow> string \<Rightarrow> 'w st \<Rightarrow> string list \<times> 'w st" where
  "handleSocks x p c inp st =
     (case socksHandshake x c inp st of
        (Inl _, out, st) \<Rightarrow> (out, st_close x [c] st)
      | (Inr inp, out, st) \<Rightarrow>
          (let refuse = (\<lambda>rep st. (out @ [replyBytes rep], st_close x [c] (snd (socksReply x c rep st)))) in
           case socksReadRequest inp of
             Inl _ \<Rightarrow> refuse (CHR 0x01) st
           | Inr (dest, _) \<Rightarrow>
               (case getClient st p of
                  Inl _ \<Rightarrow> refuse (CHR 0x03) st
                | Inr client \<Rightarrow>
                    (case st_call (io_open (x_dial_ctx x client dest)) st of
                       (Inl _, st) \<Rightarrow> refuse (CHR 0x05) st
                     | (Inr upstream, st) \<Rightarrow>
                         (case socksReply x c (CHR 0x00) st of
                            (Some _, st) \<Rightarrow> (out @ [replyBytes (CHR 0x00)], st_close x [upstream, c] st)
                          | (None, st) \<Rightarrow> (out @ [replyBytes (CHR 0x00)], st_close x [upstream, c] (pipe x c upstream st)))))))"

text \<open>One round of \<open>runSocksForward\<close>: an accepted connection is counted and handled.\<close>

definition socksConn :: "'w ext \<Rightarrow> ptr \<Rightarrow> handle \<Rightarrow> string \<Rightarrow> 'w st \<Rightarrow> string list \<times> 'w st" where
  "socksConn x f c inp st =
     handleSocks x (f_session (fwd st f)) c inp (updF f (\<lambda>F. F\<lparr>f_conns := f_conns F + 1\<rparr>) st)"

section \<open>What a request says\<close>

lemma byte_char_of [simp]: "byte (char_of n) = n mod 256"
  by (simp add: byte_def)

lemma byte_less [simp]: "byte c < 256"
  by (simp add: byte_def)

lemma readFull_append: "length xs = n \<Longrightarrow> readFull n (xs @ ys) = Inr (xs, ys)"
  by (simp add: readFull_def)

lemma readFull_Inr: "readFull n inp = Inr (a, b) \<longleftrightarrow> length a = n \<and> inp = a @ b"
  by (auto simp: readFull_def)

text \<open>A connect request as a client sends it.\<close>

definition portBytes :: "nat \<Rightarrow> string" where
  "portBytes port = [char_of (port div 256), char_of (port mod 256)]"

definition domainRequest :: "char \<Rightarrow> string \<Rightarrow> nat \<Rightarrow> string" where
  "domainRequest rsv host port = [CHR 0x05, CHR 0x01, rsv, CHR 0x03, char_of (length host)] @ host @ portBytes port"

definition ipRequest :: "char \<Rightarrow> string \<Rightarrow> nat \<Rightarrow> string" where
  "ipRequest rsv ip port =
     [CHR 0x05, CHR 0x01, rsv, if length ip = 4 then CHR 0x01 else CHR 0x04] @ ip @ portBytes port"

lemma portBytes_value:
  assumes "port < 65536"
  shows "256 * byte (portBytes port ! 0) + byte (portBytes port ! 1) = port" "length (portBytes port) = 2"
proof -
  have "port div 256 < 256" using assms by (simp add: less_mult_imp_div_less)
  then show "256 * byte (portBytes port ! 0) + byte (portBytes port ! 1) = port" by (simp add: portBytes_def)
qed (simp add: portBytes_def)

lemma read4: "readFull 4 ([a, b, c, d] @ xs) = Inr ([a, b, c, d], xs)"
  by (rule readFull_append) simp

lemma socksReadRequest_hdr:
  assumes "socksHost atyp (ad @ portBytes port @ rest) = Inr (host, portBytes port @ rest)" and "port < 65536"
  shows "socksReadRequest ([CHR 0x05, CHR 0x01, rsv, atyp] @ ad @ portBytes port @ rest) =
     Inr (joinHostPort host (itoa (int port)), rest)"
  using assms(1) portBytes_value(2) [OF assms(2)] arg_cong [OF portBytes_value(1) [OF assms(2)], of int]
  by (simp add: socksReadRequest_def read4 [unfolded append_Cons append_Nil] readFull_append)

lemma socksHost_domain:
  assumes "host \<noteq> []" and "length host < 256"
  shows "socksHost (CHR 0x03) ((char_of (length host) # host) @ rest) = Inr (host, rest)"
  using assms readFull_append [of "[char_of (length host)]" 1] by (simp add: socksHost_def readFull_append)

lemma socksHost_ip:
  assumes "length ip = 4 \<or> length ip = 16"
  shows "socksHost (if length ip = 4 then CHR 0x01 else CHR 0x04) (ip @ rest) = Inr (ipString ip, rest)"
  using assms by (auto simp: socksHost_def readFull_append)

text \<open>
  A well-formed connect request is read as what it says: for a host name of 1 to 255 bytes the
  destination is that name with the port, for 4 or 16 address bytes it is the address as text
  with the port, and exactly the request's bytes are consumed.
\<close>

theorem socks_request_roundtrip:
  assumes "port < 65536"
  shows "(host \<noteq> [] \<longrightarrow> length host < 256 \<longrightarrow>
      socksReadRequest (domainRequest rsv host port @ rest) = Inr (joinHostPort host (itoa (int port)), rest)) \<and>
    (length ip = 4 \<or> length ip = 16 \<longrightarrow>
      socksReadRequest (ipRequest rsv ip port @ rest) = Inr (joinHostPort (ipString ip) (itoa (int port)), rest))"
proof (intro conjI impI)
  assume "host \<noteq> []" and "length host < 256"
  from socksReadRequest_hdr [OF socksHost_domain [OF this] assms]
  show "socksReadRequest (domainRequest rsv host port @ rest) = Inr (joinHostPort host (itoa (int port)), rest)"
    by (simp add: domainRequest_def)
next
  assume "length ip = 4 \<or> length ip = 16"
  from socksReadRequest_hdr [OF socksHost_ip [OF this] assms]
  show "socksReadRequest (ipRequest rsv ip port @ rest) = Inr (joinHostPort (ipString ip) (itoa (int port)), rest)"
    by (simp add: ipRequest_def)
qed

text \<open>A request that is read begins with version 5, command 1 and a known address type.\<close>

lemma socksReadRequest_ok:
  assumes "socksReadRequest inp = Inr (dest, rest)"
  shows "inp ! 0 = CHR 0x05 \<and> inp ! 1 = CHR 0x01 \<and> inp ! 3 \<in> {CHR 0x01, CHR 0x03, CHR 0x04}"
proof -
  obtain hdr inp1 where h: "readFull 4 inp = Inr (hdr, inp1)" "hdr ! 0 = CHR 0x05" "hdr ! 1 = CHR 0x01"
      "is_ok (socksHost (hdr ! 3) inp1)"
    using assms by (auto simp: socksReadRequest_def split: sum.splits prod.splits if_splits)
  then have "inp ! 0 = hdr ! 0" "inp ! 1 = hdr ! 1" "inp ! 3 = hdr ! 3" by (auto simp: readFull_Inr nth_append)
  moreover have "hdr ! 3 \<in> {CHR 0x01, CHR 0x03, CHR 0x04}"
    using h(4) by (auto simp: socksHost_def split: if_splits)
  ultimately show ?thesis using h by simp
qed

text \<open>What the client says, as bytes: a greeting with its methods, and a connect request for a host name or an address.\<close>

definition greets :: "string \<Rightarrow> string \<Rightarrow> bool" where
  "greets inp rest \<longleftrightarrow> (\<exists>methods. inp = [CHR 0x05, char_of (length methods)] @ methods @ rest \<and> length methods < 256)"

definition asksFor :: "string \<Rightarrow> string \<Rightarrow> bool" where
  "asksFor inp dest \<longleftrightarrow>
     (\<exists>rsv port more. port < 65536 \<and>
        ((\<exists>host. host \<noteq> [] \<and> length host < 256 \<and> inp = domainRequest rsv host port @ more \<and> dest = joinHostPort host (itoa (int port))) \<or>
         (\<exists>ip. (length ip = 4 \<or> length ip = 16) \<and> inp = ipRequest rsv ip port @ more \<and> dest = joinHostPort (ipString ip) (itoa (int port)))))"

lemma asksFor_forms:
  assumes "port < 65536"
  shows "host \<noteq> [] \<Longrightarrow> length host < 256 \<Longrightarrow> asksFor (domainRequest rsv host port @ rest) (joinHostPort host (itoa (int port)))"
    and "length ip = 4 \<or> length ip = 16 \<Longrightarrow> asksFor (ipRequest rsv ip port @ rest) (joinHostPort (ipString ip) (itoa (int port)))"
  unfolding asksFor_def using assms by blast+

lemma char_of_byte: "byte c = n \<Longrightarrow> c = char_of n"
  by (auto simp: byte_def)

lemma length_two: "length xs = Suc (Suc 0) \<Longrightarrow> xs = [xs ! 0, xs ! 1]"
  by (cases xs; cases "tl xs") auto

lemma length_four: "length xs = 4 \<Longrightarrow> xs = [xs ! 0, xs ! 1, xs ! 2, xs ! 3]"
  by (rule nth_equalityI) (auto simp: less_Suc_eq numeral_eq_Suc)

lemma socksGreeting_greets: "socksGreeting inp = Inr rest \<longleftrightarrow> greets inp rest"
proof
  assume "socksGreeting inp = Inr rest"
  then obtain buf in1 ms where b: "readFull 2 inp = Inr (buf, in1)" "buf ! 0 = CHR 0x05" "readFull (byte (buf ! 1)) in1 = Inr (ms, rest)"
    by (auto simp: socksGreeting_def split: sum.splits prod.splits if_splits)
  then have "length buf = Suc (Suc 0)" "inp = buf @ in1" "in1 = ms @ rest" "length ms = byte (buf ! 1)" by (auto simp: readFull_Inr)
  moreover have "buf ! 1 = char_of (length ms)" using calculation(4) by (simp add: char_of_byte)
  ultimately have "inp = [CHR 0x05, char_of (length ms)] @ ms @ rest" using length_two [of buf] b(2) by metis
  then show "greets inp rest" using \<open>length ms = byte (buf ! 1)\<close> byte_less [of "buf ! 1"] by (auto simp: greets_def)
next
  assume "greets inp rest"
  then obtain ms where m: "inp = [CHR 0x05, char_of (length ms)] @ ms @ rest" "length ms < 256" by (auto simp: greets_def)
  have "readFull 2 inp = Inr ([CHR 0x05, char_of (length ms)], ms @ rest)" unfolding m(1) by (rule readFull_append) simp
  then show "socksGreeting inp = Inr rest" using m(2) by (simp add: socksGreeting_def readFull_append)
qed

lemma readFull_ip: "map_sum id (\<lambda>(ip, y). (ipString ip, y)) (readFull n inp) = Inr (host, rest) \<longleftrightarrow>
    (\<exists>ip. length ip = n \<and> inp = ip @ rest \<and> host = ipString ip)"
  by (auto simp: readFull_def intro!: exI [of _ "take n inp"])

lemma socksHost_Inr:
  assumes "socksHost atyp inp = Inr (host, rest)"
  shows "atyp = CHR 0x03 \<and> (\<exists>c. inp = c # host @ rest \<and> byte c \<noteq> 0 \<and> length host = byte c) \<or>
    (\<exists>ip. (length ip = 4 \<or> length ip = 16) \<and> atyp = (if length ip = 4 then CHR 0x01 else CHR 0x04) \<and> inp = ip @ rest \<and> host = ipString ip)"
proof -
  consider "atyp = CHR 0x01" | "atyp = CHR 0x03" | "atyp = CHR 0x04"
    using assms by (auto simp: socksHost_def split: if_splits)
  then show ?thesis
  proof cases
    case 2
    then obtain ln in1 where "readFull 1 inp = Inr (ln, in1)" "byte (ln ! 0) \<noteq> 0" "readFull (byte (ln ! 0)) in1 = Inr (host, rest)"
      using assms by (auto simp: socksHost_def split: sum.splits if_splits)
    then have "\<exists>c. inp = c # host @ rest \<and> byte c \<noteq> 0 \<and> length host = byte c"
      by (intro exI [of _ "ln ! 0"]) (auto simp: readFull_Inr length_Suc_conv)
    then show ?thesis using 2 by blast
  qed (use assms readFull_ip [of 4 inp host rest] readFull_ip [of 16 inp host rest] in \<open>auto simp: socksHost_def\<close>)
qed

lemma portBytes_of: "length b = Suc (Suc 0) \<Longrightarrow> \<exists>port < 65536. b = portBytes port \<and> 256 * byte (b ! 0) + byte (b ! 1) = port"
proof -
  assume l: "length b = Suc (Suc 0)"
  let ?p = "256 * byte (b ! 0) + byte (b ! 1)"
  have "?p div 256 = byte (b ! 0)" "?p mod 256 = byte (b ! 1)" by simp_all
  then have "portBytes ?p = [b ! 0, b ! 1]" by (simp add: portBytes_def char_of_byte [symmetric])
  moreover have "?p < 65536" using byte_less [of "b ! 0"] byte_less [of "b ! 1"] by linarith
  ultimately show ?thesis using length_two [OF l] by (intro exI [of _ ?p]) simp
qed

lemma socksReadRequest_asks: "(\<exists>more. socksReadRequest inp = Inr (dest, more)) \<longleftrightarrow> asksFor inp dest"
proof
  assume "\<exists>more. socksReadRequest inp = Inr (dest, more)"
  then obtain more hdr in1 host in2 pb where
      h: "readFull 4 inp = Inr (hdr, in1)" "hdr ! 0 = CHR 0x05" "hdr ! 1 = CHR 0x01"
    and a: "socksHost (hdr ! 3) in1 = Inr (host, in2)" and b: "readFull 2 in2 = Inr (pb, more)"
    and d: "dest = joinHostPort host (itoa (int (256 * byte (pb ! 0) + byte (pb ! 1))))"
    by (auto simp: socksReadRequest_def split: sum.splits prod.splits if_splits)
  from b have "length pb = Suc (Suc 0)" and in2: "in2 = pb @ more" by (auto simp: readFull_Inr)
  then obtain port where p: "port < 65536" "pb = portBytes port" "256 * byte (pb ! 0) + byte (pb ! 1) = port"
    using portBytes_of by blast
  from h have inp: "inp = [CHR 0x05, CHR 0x01, hdr ! 2, hdr ! 3] @ in1" using length_four [of hdr] by (auto simp: readFull_Inr)
  from socksHost_Inr [OF a]
  consider (ip) ip where "hdr ! 3 = (if length ip = 4 then CHR 0x01 else CHR 0x04)" "length ip = 4 \<or> length ip = 16" "in1 = ip @ in2" "host = ipString ip"
    | (name) c where "hdr ! 3 = CHR 0x03" "in1 = c # host @ in2" "byte c \<noteq> 0" "length host = byte c"
    by blast
  then show "asksFor inp dest"
  proof cases
    case ip
    then have "inp = ipRequest (hdr ! 2) ip port @ more" using inp in2 p(2) by (simp add: ipRequest_def)
    then show ?thesis using asksFor_forms(2) [OF p(1) ip(2)] ip(4) unfolding d p(3) by simp
  next
    case name
    then have "c = char_of (length host)" by (simp add: char_of_byte)
    then have "inp = domainRequest (hdr ! 2) host port @ more" using inp in2 p(2) name by (simp add: domainRequest_def)
    moreover have "host \<noteq> []" "length host < 256" using name(3,4) by auto
    ultimately show ?thesis using asksFor_forms(1) [OF p(1)] unfolding d p(3) by simp
  qed
next
  assume "asksFor inp dest"
  then show "\<exists>more. socksReadRequest inp = Inr (dest, more)"
    unfolding asksFor_def using socks_request_roundtrip by blast
qed

section \<open>What a connection does\<close>

lemma st_call_io:
  assumes "st_call (io_call f) st = (a, st')"
  shows "live (st_io st') = live (st_io st) \<and> next_h (st_io st') = next_h (st_io st) \<and> sess st' = sess st \<and>
    fwd st' = fwd st \<and> tbl st' = tbl st"
  using assms by (auto simp: st_call_def io_call_def split: prod.splits)

lemma st_call_io_snd [simp]:
  "live (st_io (snd (st_call (io_call f) st))) = live (st_io st)" "sess (snd (st_call (io_call f) st)) = sess st"
  "fwd (snd (st_call (io_call f) st)) = fwd st" "tbl (snd (st_call (io_call f) st)) = tbl st"
  using st_call_io [OF surjective_pairing, of f st] by auto

lemma halfClose_frame [simp]:
  "sess (halfClose x c st) = sess st" "fwd (halfClose x c st) = fwd st" "tbl (halfClose x c st) = tbl st"
  "live (st_io st) - {c} \<subseteq> live (st_io (halfClose x c st))" "live (st_io (halfClose x c st)) \<subseteq> live (st_io st)"
  by (auto simp: halfClose_def split: prod.splits option.splits dest!: st_call_io)

lemma pipe_frame [simp]:
  "sess (pipe x a b st) = sess st" "fwd (pipe x a b st) = fwd st" "tbl (pipe x a b st) = tbl st"
  by (simp_all add: pipe_def Let_def)

lemma pipe_live: "live (st_io (pipe x a b st)) - {a, b} = live (st_io st) - {a, b}"
proof -
  let ?s = "halfClose x a (snd (st_call (io_call (x_copy x a b)) st))"
  let ?t = "halfClose x b (snd (st_call (io_call (x_copy x b a)) ?s))"
  have "live (st_io st) - {a} \<subseteq> live (st_io ?s)" "live (st_io ?s) \<subseteq> live (st_io st)"
    using halfClose_frame(4,5) [where x = x and c = a and st = "snd (st_call (io_call (x_copy x a b)) st)"] by simp_all
  moreover have "live (st_io ?s) - {b} \<subseteq> live (st_io ?t)" "live (st_io ?t) \<subseteq> live (st_io ?s)"
    using halfClose_frame(4,5) [where x = x and c = b and st = "snd (st_call (io_call (x_copy x b a)) ?s)"] by simp_all
  ultimately show ?thesis by (auto simp: pipe_def Let_def)
qed

lemma socksReply_io: "socksReply x c rep st = (e, st') \<Longrightarrow>
    live (st_io st') = live (st_io st) \<and> sess st' = sess st \<and> fwd st' = fwd st \<and> tbl st' = tbl st"
  unfolding socksReply_def by (drule st_call_io) simp

lemma socksReply_snd [simp]:
  "live (st_io (snd (socksReply x c rep st))) = live (st_io st)" "sess (snd (socksReply x c rep st)) = sess st"
  "fwd (snd (socksReply x c rep st)) = fwd st" "tbl (snd (socksReply x c rep st)) = tbl st"
  by (simp_all add: socksReply_def)

lemma socksHandshake_io:
  assumes "socksHandshake x c inp st = (r, out, st')"
  shows "live (st_io st') = live (st_io st) \<and> next_h (st_io st') = next_h (st_io st) \<and> sess st' = sess st \<and>
    fwd st' = fwd st \<and> tbl st' = tbl st \<and>
    (case r of Inl _ \<Rightarrow> out = [] \<or> out = [[CHR 0x05, CHR 0x00]]
     | Inr rest \<Rightarrow> socksGreeting inp = Inr rest \<and> out = [[CHR 0x05, CHR 0x00]])"
  using assms by (auto simp: socksHandshake_def split: sum.splits prod.splits option.splits dest!: st_call_io)

lemma replyBytes_inj [simp]: "replyBytes a = replyBytes b \<longleftrightarrow> a = b"
  by (simp add: replyBytes_def)

text \<open>
  What the client of a SOCKS connection is answered, by what it sent and what the outside did: nothing without a greeting; else the
  method is accepted and, if that can be written, the request is answered by 1 if it says nothing, by 3 if the session has no
  client, and then, after the destination was dialed, by 0 if that succeeded and by 5 if it failed.
\<close>

definition socksAnswer :: "'w ext \<Rightarrow> 'w st \<Rightarrow> ptr \<Rightarrow> handle \<Rightarrow> string \<Rightarrow> string list \<Rightarrow> bool" where
  "socksAnswer x st p c inp out \<longleftrightarrow>
     ((\<forall>rest. \<not> greets inp rest) \<and> out = []) \<or>
     (\<exists>rest e w. greets inp rest \<and> x_write x c [CHR 0x05, CHR 0x00] (orc (st_io st)) = (e, w) \<and>
        (case e of
           Some _ \<Rightarrow> out = [[CHR 0x05, CHR 0x00]]
         | None \<Rightarrow>
             (\<exists>rep. out = [[CHR 0x05, CHR 0x00], replyBytes rep] \<and>
                ((\<forall>dest. \<not> asksFor rest dest) \<and> rep = CHR 0x01 \<or>
                 (\<exists>dest. asksFor rest dest \<and>
                    (case s_client (sess st p) of
                       None \<Rightarrow> rep = CHR 0x03
                     | Some client \<Rightarrow> rep = (if fst (x_dial_ctx x client dest w) = None then CHR 0x00 else CHR 0x05)))))))"

lemma socksHandshake_says:
  assumes "socksHandshake x c inp st = (r, out, st1)"
  shows "(r = Inl e \<longrightarrow> (\<forall>rest. \<not> greets inp rest) \<and> out = [] \<or>
      (\<exists>rest f w. greets inp rest \<and> x_write x c [CHR 0x05, CHR 0x00] (orc (st_io st)) = (Some f, w) \<and> out = [[CHR 0x05, CHR 0x00]])) \<and>
    (r = Inr rest \<longrightarrow> greets inp rest \<and> out = [[CHR 0x05, CHR 0x00]] \<and>
      x_write x c [CHR 0x05, CHR 0x00] (orc (st_io st)) = (None, orc (st_io st1)))"
  using assms
  by (auto simp: socksHandshake_def st_call_def io_call_def socksGreeting_greets [symmetric] split: sum.splits prod.splits option.splits)

lemma socksAnswer_refused:
  assumes "greets inp rest" and "x_write x c [CHR 0x05, CHR 0x00] (orc (st_io st)) = (None, w)"
    and "(\<forall>dest. \<not> asksFor rest dest) \<and> rep = CHR 0x01 \<or>
         (\<exists>dest. asksFor rest dest \<and>
            (case s_client (sess st p) of
               None \<Rightarrow> rep = CHR 0x03
             | Some client \<Rightarrow> rep = (if fst (x_dial_ctx x client dest w) = None then CHR 0x00 else CHR 0x05)))"
  shows "socksAnswer x st p c inp [[CHR 0x05, CHR 0x00], replyBytes rep]"
  unfolding socksAnswer_def
  by (rule disjI2, rule exI [of _ rest], rule exI [of _ None], rule exI [of _ w]) (use assms in simp)

lemma getClient_sess: "sess st' = sess st \<Longrightarrow> getClient st' p = getClient st p"
  by (simp add: getClient_def cong: option.case_cong)

lemma io_open_result: "fst (io_open f w) = Inl e \<Longrightarrow> fst (f (orc w)) \<noteq> None" "fst (io_open f w) = Inr h \<Longrightarrow> fst (f (orc w)) = None"
  by (auto simp: io_open_def split: prod.splits option.splits)

text \<open>
  C27. A SOCKS connection is answered at most once and always ends closed.  A client that sends no greeting gets nothing.  The answer
  to its request is the code for what went wrong: 1 for one that is not a connect to a host name or an address, 3 when the session has no client, 5
  exactly when dialing the destination it named failed, and 0 exactly when that succeeded.  Whatever happens, the client's
  connection and the one to the destination are closed in the end, nothing else is, and no session or forward changes.
\<close>

theorem handleSocks_outcome:
  assumes "io_ok (st_io st)" and "handleSocks x p c inp st = (out, st')"
  shows "live (st_io st') = live (st_io st) - {c} \<and> sess st' = sess st \<and> fwd st' = fwd st \<and> tbl st' = tbl st \<and>
    socksAnswer x st p c inp out"
proof -
  obtain r o1 st1 where h: "socksHandshake x c inp st = (r, o1, st1)" by (cases "socksHandshake x c inp st") auto
  note f = socksHandshake_io [OF h] and says = socksHandshake_says [OF h]
  have g: "getClient st1 p = getClient st p" using f by (intro getClient_sess) simp
  show ?thesis
  proof (cases r)
    case (Inl e)
    then have "out = o1" "st' = st_close x [c] st1" using assms(2) h by (simp_all add: handleSocks_def)
    moreover have "socksAnswer x st p c inp o1" using says Inl unfolding socksAnswer_def by fastforce
    ultimately show ?thesis using f by simp
  next
    case (Inr rest)
    then have hi: "greets inp rest" "o1 = [[CHR 0x05, CHR 0x00]]" "x_write x c [CHR 0x05, CHR 0x00] (orc (st_io st)) = (None, orc (st_io st1))"
      using says by simp_all
    note ans = socksAnswer_refused [OF hi(1,3)]
    show ?thesis
    proof (cases "socksReadRequest rest")
      case (Inl e)
      then have "out = o1 @ [replyBytes (CHR 0x01)]" "st' = st_close x [c] (snd (socksReply x c (CHR 0x01) st1))"
        using assms(2) h Inr by (simp_all add: handleSocks_def Let_def)
      moreover have "\<not> asksFor rest dest" for dest using socksReadRequest_asks [of rest dest] Inl by auto
      ultimately show ?thesis using f ans [of "CHR 0x01" p] hi(2) by simp
    next
      case q: (Inr q)
      then obtain dest i where q: "socksReadRequest rest = Inr (dest, i)" by (cases q) auto
      then have asks: "asksFor rest dest" using socksReadRequest_asks by blast
      show ?thesis
      proof (cases "s_client (sess st p)")
        case None
        then have "out = o1 @ [replyBytes (CHR 0x03)]" "st' = st_close x [c] (snd (socksReply x c (CHR 0x03) st1))"
          using assms(2) h Inr q g by (simp_all add: handleSocks_def Let_def getClient_def)
        then show ?thesis using f ans [of "CHR 0x03" p] asks None hi(2) by auto
      next
        case (Some client)
        then have gc: "getClient st1 p = Inr client" using g by (simp add: getClient_def)
        obtain d st2 where d: "st_call (io_open (x_dial_ctx x client dest)) st1 = (d, st2)" by fastforce
        then obtain w where w: "io_open (x_dial_ctx x client dest) (st_io st1) = (d, w)" "st2 = st1\<lparr>st_io := w\<rparr>" by (rule st_callE)
        have code: "socksAnswer x st p c inp [[CHR 0x05, CHR 0x00], replyBytes (case d of Inl _ \<Rightarrow> CHR 0x05 | Inr _ \<Rightarrow> CHR 0x00)]"
          using asks Some io_open_result [of "x_dial_ctx x client dest" "st_io st1"] w(1)
          by (intro ans disjI2 exI [of _ dest]) (auto split: sum.splits)
        show ?thesis
        proof (cases d)
          case (Inl e)
          then have "acquired (st_io st1) [] w" using w by (auto intro: io_open_err)
          then have l: "live w = live (st_io st)" using f by (simp add: acquired_def)
          have "out = o1 @ [replyBytes (CHR 0x05)]" "st' = st_close x [c] (snd (socksReply x c (CHR 0x05) st2))"
            using assms(2) h Inr q gc d Inl by (simp_all add: handleSocks_def Let_def)
          then show ?thesis using f w l code Inl hi(2) by simp
        next
          case (Inr u)
          then have a: "acquired (st_io st1) [u] w" using w by (auto intro: io_open_ok)
          then have u: "live w = insert u (live (st_io st))" "u \<notin> live (st_io st)"
            using assms(1) f by (auto simp: acquired_def io_ok_def)
          obtain e st3 where s: "socksReply x c (CHR 0x00) st2 = (e, st3)" by fastforce
          note f3 = socksReply_io [OF s]
          have "out = o1 @ [replyBytes (CHR 0x00)]"
              "st' = st_close x [u, c] (if e = None then pipe x c u st3 else st3)"
            using assms(2) h \<open>r = Inr rest\<close> q gc d Inr s by (cases e; simp add: handleSocks_def Let_def)+
          moreover have "live (st_io (pipe x c u st3)) - {u, c} = live (st_io st) - {c}" "live (st_io st3) - {u, c} = live (st_io st) - {c}"
            using pipe_live [of x c u st3] f3 w u by auto
          ultimately show ?thesis using f f3 w code Inr hi(2) by simp
        qed
      qed
    qed
  qed
qed

section \<open>Worked instances\<close>

lemma socks_request_roundtrip_witness:
  "socksReadRequest (domainRequest (CHR 0x00) ''box'' 80 @ ''x'') = Inr (joinHostPort ''box'' (itoa 80), ''x'')"
  using socks_request_roundtrip [of 80 "''box''" "CHR 0x00" "''x''"] by simp

text \<open>Connection 7, accepted on the session of \<open>demo_st\<close>, asks for port 80 of \<open>box\<close>.\<close>

definition demo_socks_st :: "nat st" where
  "demo_socks_st = demo_st\<lparr>st_io := \<lparr>orc = 0, next_h = 8, live = {0, 7}\<rparr>\<rparr>"

lemma handleSocks_outcome_witness:
  "(let inp = [CHR 0x05, CHR 0x01, CHR 0x00] @ domainRequest (CHR 0x00) ''box'' 80;
        (out, st') = handleSocks demo_ext 0 7 inp demo_socks_st
    in live (st_io st') = {0} \<and> socksAnswer demo_ext demo_socks_st 0 7 inp out)"
proof -
  have ok: "io_ok (st_io demo_socks_st)" and l: "live (st_io demo_socks_st) = {0, 7}"
    by (auto simp: demo_socks_st_def io_ok_def)
  let ?inp = "[CHR 0x05, CHR 0x01, CHR 0x00] @ domainRequest (CHR 0x00) ''box'' 80"
  obtain out st' where h: "handleSocks demo_ext 0 7 ?inp demo_socks_st = (out, st')" by fastforce
  have "live (st_io st') = {0}" "socksAnswer demo_ext demo_socks_st 0 7 ?inp out"
    using conjunct1 [OF handleSocks_outcome [OF ok h]]
      conjunct2 [OF conjunct2 [OF conjunct2 [OF conjunct2 [OF handleSocks_outcome [OF ok h]]]]] by (simp_all add: l insert_Diff_if)
  then show ?thesis unfolding Let_def h by simp
qed

end
