(* ===== verification/DockerRun.thy ===== *)
theory DockerRun
  imports DockerProps
begin

text \<open>
  \<open>internal/dockerx/run.go\<close> and \<open>image.go\<close>: port specs in the form of the docker command line,
  pulling images, and running a container.  The docker client's calls and its port and address
  types (\<open>network.PortFrom\<close>, \<open>netip.ParseAddr\<close>) are parameters.
\<close>

section \<open>Port specs\<close>

record 'ip PortBinding =
  pb_HostIP :: "'ip option"
  pb_HostPort :: string

text \<open>The protocol and what is before it.\<close>

definition splitProto :: "string \<Rightarrow> string \<times> string" where
  "splitProto spec =
     (case lastIndexByte spec CHR ''/'' of
        None \<Rightarrow> (''tcp'', spec)
      | Some idx \<Rightarrow> (toLower (drop (Suc idx) spec), take idx spec))"

definition splitPorts :: "string \<Rightarrow> (string \<times> string \<times> string) res" where
  "splitPorts spec =
     (case splitOn CHR '':'' spec of
        [c] \<Rightarrow> Inr ([], [], c)
      | [h, c] \<Rightarrow> Inr ([], h, c)
      | [ip, h, c] \<Rightarrow> Inr (ip, h, c)
      | _ \<Rightarrow> Inl (Errorf ''too many `:` separators'' []))"

definition parsePortSpec ::
    "(nat \<Rightarrow> string \<Rightarrow> 'p option) \<Rightarrow> (string \<Rightarrow> 'ip res) \<Rightarrow> string \<Rightarrow> ('p \<times> 'ip PortBinding option) res" where
  "parsePortSpec portFrom parseAddr spec0 =
     (let (proto, spec) = splitProto spec0 in
      if proto \<notin> {''tcp'', ''udp'', ''sctp''} then Inl (Errorf ''unknown protocol %q'' [proto])
      else (case splitPorts spec of
              Inl e \<Rightarrow> Inl e
            | Inr (hostIP, hostPort, cport) \<Rightarrow>
                (case parseUint cport 10 16 of
                   None \<Rightarrow> Inl (Errorf ''invalid container port %q'' [cport])
                 | Some cn \<Rightarrow>
                     if cn = 0 then Inl (Errorf ''invalid container port %q'' [cport])
                     else (case portFrom cn proto of
                             None \<Rightarrow> Inl (Errorf ''invalid container port spec'' [])
                           | Some port \<Rightarrow>
                               if hostPort = [] then Inr (port, None)
                               else if parseUint (hd (splitOn CHR ''-'' hostPort)) 10 16 = None then
                                 Inl (Errorf ''invalid host port %q'' [hostPort])
                               else if hostIP = [] then Inr (port, Some \<lparr>pb_HostIP = None, pb_HostPort = hostPort\<rparr>)
                               else (case parseAddr hostIP of
                                       Inl e \<Rightarrow> Inl (Wrapf ''invalid host ip %q: %w'' [hostIP] e)
                                     | Inr ip \<Rightarrow> Inr (port, Some \<lparr>pb_HostIP = Some ip, pb_HostPort = hostPort\<rparr>))))))"

section \<open>Pulling an image\<close>

record pull_msg =
  pm_Status :: string
  pm_Error :: string
  pm_ErrorDetail :: string

text \<open>An item of the daemon's image list, and our summary of it.\<close>

record image_item =
  it_ID :: string
  it_RepoTags :: "string list"
  it_RepoDigests :: "string list"
  it_Created :: int  \<comment> \<open>seconds\<close>
  it_Size :: int
  it_Labels :: "string gomap"

record ImageSummary =
  im_ID :: string
  im_RepoTags :: "string list"
  im_RepoDigests :: "string list"
  im_Created :: int
  im_Size :: int
  im_Labels :: "string gomap"

definition imageSummary :: "image_item \<Rightarrow> ImageSummary" where
  "imageSummary im = \<lparr>im_ID = it_ID im, im_RepoTags = it_RepoTags im, im_RepoDigests = it_RepoDigests im,
     im_Created = it_Created im * 1000000000, im_Size = it_Size im, im_Labels = it_Labels im\<rparr>"

record ImageRow =
  ir_ID :: string
  ir_Tag :: string
  ir_Size :: int
  ir_Created :: int

definition imageRow :: "ImageSummary \<Rightarrow> ImageRow" where
  "imageRow i = \<lparr>ir_ID = take 19 (im_ID i), ir_Tag = (case im_RepoTags i of [] \<Rightarrow> [] | t # _ \<Rightarrow> t),
     ir_Size = im_Size i, ir_Created = im_Created i\<rparr>"

record ('p, 'ip) CreateReq =
  cr_Image :: string
  cr_Name :: string
  cr_Cmd :: "string list"
  cr_Entrypoint :: "string list"
  cr_Env :: "string list"
  cr_WorkingDir :: string
  cr_User :: string
  cr_Hostname :: string
  cr_Labels :: "string gomap"
  cr_Tty :: bool
  cr_Exposed :: "'p list"
  cr_Bindings :: "('p \<times> 'ip PortBinding list) list"
  cr_Binds :: "string list"
  cr_AutoRemove :: bool
  cr_NetworkMode :: string
  cr_RestartPolicy :: "string option"

record ('w, 'p, 'ip) rext =
  q_port_from :: "nat \<Rightarrow> string \<Rightarrow> 'p option"
  q_parse_addr :: "string \<Rightarrow> 'ip res"
  q_image_list :: "handle \<Rightarrow> bool \<Rightarrow> string option \<Rightarrow> 'w \<Rightarrow> image_item list res \<times> 'w"
  q_pull :: "handle \<Rightarrow> string \<Rightarrow> 'w query"
  q_pull_msgs :: "handle \<Rightarrow> 'w \<Rightarrow> (pull_msg list \<times> goerr option) \<times> 'w"  \<comment> \<open>messages, then EOF or an error\<close>
  q_image_remove :: "handle \<Rightarrow> string \<Rightarrow> bool \<Rightarrow> bool \<Rightarrow> 'w query"
  q_create :: "handle \<Rightarrow> ('p, 'ip) CreateReq \<Rightarrow> 'w \<Rightarrow> (string \<times> string list) res \<times> 'w"
  q_start :: "handle \<Rightarrow> string \<Rightarrow> 'w query"
  q_remove :: "handle \<Rightarrow> string \<Rightarrow> 'w query"

text \<open>The status and the error a progress stream leaves; the empty string is "no error".\<close>

fun pullLoop :: "pull_msg list \<Rightarrow> string \<times> string \<Rightarrow> string \<times> string" where
  "pullLoop [] acc = acc"
| "pullLoop (m # ms) (lastStatus, lastError) =
     pullLoop ms (if pm_Status m \<noteq> [] then pm_Status m else lastStatus,
       if pm_Error m \<noteq> [] then pm_Error m else if pm_ErrorDetail m \<noteq> [] then pm_ErrorDetail m else lastError)"

definition PullImage :: "'w ext \<Rightarrow> ('w, 'p, 'ip) rext \<Rightarrow> ptr \<Rightarrow> string \<Rightarrow> 'w dst \<Rightarrow> (string \<times> goerr option) \<times> 'w dst" where
  "PullImage x q p ref st =
     (case dclient st p of
        Inl e \<Rightarrow> (([], Some e), st)
      | Inr c \<Rightarrow>
          (case d_call (io_open (q_pull q c ref)) st of
             (Inl e, st) \<Rightarrow> (([], Some e), st)
           | (Inr body, st) \<Rightarrow>
               (case d_call (io_call (q_pull_msgs q body)) st of
                  ((ms, fin), st) \<Rightarrow>
                    (let (status, err) = pullLoop ms ([], []) in
                     ((status, case fin of
                         Some e \<Rightarrow> Some (Wrapf ''decode pull progress: %w'' [] e)
                       | None \<Rightarrow> if err \<noteq> [] then Some (Errorf ''%s'' [err]) else None),
                      d_close x [body] st)))))"

definition ListImages :: "('w, 'p, 'ip) rext \<Rightarrow> ptr \<Rightarrow> bool \<Rightarrow> 'w dst \<Rightarrow> ImageSummary list res \<times> 'w dst" where
  "ListImages q p all st =
     (case dclient st p of
        Inl e \<Rightarrow> (Inl e, st)
      | Inr c \<Rightarrow>
          (case d_call (io_call (q_image_list q c all None)) st of
             (Inl e, st) \<Rightarrow> (Inl e, st)
           | (Inr items, st) \<Rightarrow> (Inr (map imageSummary items), st)))"

definition RemoveImage :: "('w, 'p, 'ip) rext \<Rightarrow> ptr \<Rightarrow> string \<Rightarrow> bool \<Rightarrow> bool \<Rightarrow> 'w dst \<Rightarrow> goerr option \<times> 'w dst" where
  "RemoveImage q p ref force prune st =
     (case dclient st p of
        Inl e \<Rightarrow> (Some e, st)
      | Inr c \<Rightarrow> d_call (io_call (q_image_remove q c ref force prune)) st)"

section \<open>Run\<close>

record RunOptions =
  ro_Image :: string
  ro_Name :: string
  ro_Cmd :: "string list"
  ro_Entrypoint :: "string list"
  ro_Env :: "string gomap"
  ro_WorkingDir :: string
  ro_User :: string
  ro_Hostname :: string
  ro_Ports :: "string list"
  ro_Volumes :: "string list"
  ro_RestartPolicy :: string
  ro_AutoRemove :: bool
  ro_Labels :: "string gomap"
  ro_NetworkMode :: string
  ro_Tty :: bool
  ro_Detach :: bool
  ro_PullIfMissing :: bool

record RunResult =
  rr_ID :: string
  rr_Warnings :: "string list"

fun addBinding :: "'p \<Rightarrow> 'b \<Rightarrow> ('p \<times> 'b list) list \<Rightarrow> ('p \<times> 'b list) list" where
  "addBinding p b [] = [(p, [b])]"
| "addBinding p b ((k, bs) # m) = (if k = p then (k, bs @ [b]) # m else (k, bs) # addBinding p b m)"

fun collectPorts ::
    "(nat \<Rightarrow> string \<Rightarrow> 'p option) \<Rightarrow> (string \<Rightarrow> 'ip res) \<Rightarrow> string list \<Rightarrow>
     'p list \<times> ('p \<times> 'ip PortBinding list) list \<Rightarrow> ('p list \<times> ('p \<times> 'ip PortBinding list) list) res" where
  "collectPorts pf pa [] acc = Inr acc"
| "collectPorts pf pa (s # ss) (exposed, bindings) =
     (case parsePortSpec pf pa s of
        Inl e \<Rightarrow> Inl (Wrapf ''parse port %q: %w'' [s] e)
      | Inr (port, b) \<Rightarrow>
          collectPorts pf pa ss (List.insert port exposed, case b of None \<Rightarrow> bindings | Some b \<Rightarrow> addBinding port b bindings))"

text \<open>What \<open>Run\<close> asked the daemon to change, in order.\<close>

datatype dcall = CallPull string | CallCreate | CallStart string | CallRemove string

definition runPull ::
    "'w ext \<Rightarrow> ('w, 'p, 'ip) rext \<Rightarrow> ptr \<Rightarrow> handle \<Rightarrow> RunOptions \<Rightarrow> 'w dst \<Rightarrow> goerr option \<times> dcall list \<times> 'w dst" where
  "runPull x q p c opts st =
     (if ro_PullIfMissing opts then
        (case d_call (io_call (q_image_list q c False (Some (ro_Image opts)))) st of
           (res, st) \<Rightarrow>
             if (case res of Inl _ \<Rightarrow> True | Inr items \<Rightarrow> items = []) then
               (case PullImage x q p (ro_Image opts) st of
                  ((_, Some e), st) \<Rightarrow> (Some (Wrapf ''pull %s: %w'' [ro_Image opts] e), [CallPull (ro_Image opts)], st)
                | ((_, None), st) \<Rightarrow> (None, [CallPull (ro_Image opts)], st))
             else (None, [], st))
      else (None, [], st))"

definition createReq :: "RunOptions \<Rightarrow> 'p list \<Rightarrow> ('p \<times> 'ip PortBinding list) list \<Rightarrow> ('p, 'ip) CreateReq" where
  "createReq opts exposed bindings = \<lparr>cr_Image = ro_Image opts, cr_Name = ro_Name opts, cr_Cmd = ro_Cmd opts,
     cr_Entrypoint = ro_Entrypoint opts, cr_Env = envList (ro_Env opts), cr_WorkingDir = ro_WorkingDir opts,
     cr_User = ro_User opts, cr_Hostname = ro_Hostname opts, cr_Labels = ro_Labels opts, cr_Tty = ro_Tty opts,
     cr_Exposed = exposed, cr_Bindings = bindings, cr_Binds = ro_Volumes opts, cr_AutoRemove = ro_AutoRemove opts,
     cr_NetworkMode = ro_NetworkMode opts,
     cr_RestartPolicy = (if ro_RestartPolicy opts \<noteq> [] then Some (ro_RestartPolicy opts) else None)\<rparr>"

definition runStart ::
    "('w, 'p, 'ip) rext \<Rightarrow> handle \<Rightarrow> ('p, 'ip) CreateReq \<Rightarrow> 'w dst \<Rightarrow> RunResult res \<times> dcall list \<times> 'w dst" where
  "runStart q c req st =
     (case d_call (io_call (q_create q c req)) st of
        (Inl e, st) \<Rightarrow> (Inl (Wrapf ''create: %w'' [] e), [CallCreate], st)
      | (Inr (cid, warnings), st) \<Rightarrow>
          (case d_call (io_call (q_start q c cid)) st of
             (Some e, st) \<Rightarrow> (Inl (Wrapf ''start: %w'' [] e), [CallCreate, CallStart cid, CallRemove cid],
                             snd (d_call (io_call (q_remove q c cid)) st))
           | (None, st) \<Rightarrow> (Inr \<lparr>rr_ID = cid, rr_Warnings = warnings\<rparr>, [CallCreate, CallStart cid], st)))"

definition dockerRun ::
    "'w ext \<Rightarrow> ('w, 'p, 'ip) rext \<Rightarrow> ptr \<Rightarrow> RunOptions \<Rightarrow> 'w dst \<Rightarrow> RunResult res \<times> dcall list \<times> 'w dst" where
  "dockerRun x q p opts st =
     (case dclient st p of
        Inl e \<Rightarrow> (Inl e, [], st)
      | Inr c \<Rightarrow>
          (if ro_Image opts = [] then (Inl (Errorf ''image is required'' []), [], st)
           else (case runPull x q p c opts st of
                   (Some e, calls, st) \<Rightarrow> (Inl e, calls, st)
                 | (None, calls, st) \<Rightarrow>
                     (case collectPorts (q_port_from q) (q_parse_addr q) (ro_Ports opts) ([], []) of
                        Inl e \<Rightarrow> (Inl e, calls, st)
                      | Inr (exposed, bindings) \<Rightarrow>
                          (case runStart q c (createReq opts exposed bindings) st of
                             (r, calls2, st) \<Rightarrow> (r, calls @ calls2, st))))))"

section \<open>What a port spec means\<close>

lemma splitProto_slash:
  assumes "CHR ''/'' \<notin> set proto"
  shows "splitProto (s @ CHR ''/'' # proto) = (toLower proto, s)"
  by (simp add: splitProto_def lastIndexByte_append [OF assms])

lemma splitProto_none: "CHR ''/'' \<notin> set s \<Longrightarrow> splitProto s = (''tcp'', s)"
  using lastIndexByte_None [of s "CHR ''/''"] by (simp add: splitProto_def del: lastIndexByte_None)

lemma protos_plain:
  "proto \<in> {''tcp'', ''udp'', ''sctp''} \<Longrightarrow> CHR ''/'' \<notin> set proto \<and> toLower proto = proto"
  by (auto simp: toLower_def lowerByte_def)

lemma parsePortSpec_core:
  assumes "splitProto s = (proto, spec)" and "proto \<in> {''tcp'', ''udp'', ''sctp''}"
    and "splitPorts spec = Inr (ip, hp, nat_dec cn)" and "0 < cn" and "cn < 65536" and "pf cn proto = Some port"
    and "hp = [] \<or> (\<exists>h < 65536. hp = nat_dec h)"
  shows "parsePortSpec pf pa s =
     (if hp = [] then Inr (port, None)
      else if ip = [] then Inr (port, Some \<lparr>pb_HostIP = None, pb_HostPort = hp\<rparr>)
      else (case pa ip of
              Inl e \<Rightarrow> Inl (Wrapf ''invalid host ip %q: %w'' [ip] e)
            | Inr a \<Rightarrow> Inr (port, Some \<lparr>pb_HostIP = Some a, pb_HostPort = hp\<rparr>)))"
proof -
  have h: "parseUint (hd (splitOn CHR ''-'' hp)) 10 16 \<noteq> None" if "hp \<noteq> []"
    using assms(7) that by (auto simp: splitOn_absent nat_dec_no_sep parseUint_nat_dec)
  have c: "parseUint (nat_dec cn) 10 16 = Some cn" using assms(5) by (simp add: parseUint_nat_dec)
  show ?thesis
    using h assms(2,4,6) by (cases "hp = []"; cases "pa ip") (auto simp: parsePortSpec_def assms(1,3) c Let_def)
qed

lemma splitPorts_forms:
  "splitPorts (nat_dec c) = Inr ([], [], nat_dec c)"
  "splitPorts (nat_dec h @ '':'' @ nat_dec c) = Inr ([], nat_dec h, nat_dec c)"
  "CHR '':'' \<notin> set ip \<Longrightarrow> splitPorts (ip @ '':'' @ nat_dec h @ '':'' @ nat_dec c) = Inr (ip, nat_dec h, nat_dec c)"
  "CHR '':'' \<notin> set ip \<Longrightarrow> splitPorts (ip @ ''::'' @ nat_dec c) = Inr (ip, [], nat_dec c)"
  by (simp_all add: splitPorts_def splitOn_append splitOn_absent nat_dec_no_sep)

text \<open>A port spec with or without its protocol.\<close>

definition withProto :: "string \<Rightarrow> string option \<Rightarrow> string" where
  "withProto s proto = (case proto of None \<Rightarrow> s | Some p \<Rightarrow> s @ CHR ''/'' # p)"

definition protoOf :: "string option \<Rightarrow> string" where
  "protoOf proto = (case proto of None \<Rightarrow> ''tcp'' | Some p \<Rightarrow> p)"

lemma splitProto_with:
  assumes "protoOf proto \<in> {''tcp'', ''udp'', ''sctp''}" and "CHR ''/'' \<notin> set s"
  shows "splitProto (withProto s proto) = (protoOf proto, s)"
  using assms protos_plain by (cases proto) (auto simp: withProto_def protoOf_def splitProto_slash splitProto_none)

text \<open>
  The port specs of the docker command line mean what they say: \<open>80\<close> exposes the container
  port, \<open>8080:80\<close> binds a host port to it, \<open>IP:8080:80\<close> binds one on that address, each with the
  protocol that follows or tcp. The form \<open>IP::80\<close>, which there stands for any port of that address,
  is accepted but binds nothing: the address is dropped unread.
\<close>

theorem parsePortSpec_forms:
  assumes "protoOf proto \<in> {''tcp'', ''udp'', ''sctp''}" and "0 < c" and "c < 65536" and "h < 65536"
    and "pf c (protoOf proto) = Some port" and "ip \<noteq> []" and "CHR '':'' \<notin> set ip" and "CHR ''/'' \<notin> set ip"
  shows "parsePortSpec pf pa (withProto (nat_dec c) proto) = Inr (port, None) \<and>
    parsePortSpec pf pa (withProto (nat_dec h @ '':'' @ nat_dec c) proto) =
      Inr (port, Some \<lparr>pb_HostIP = None, pb_HostPort = nat_dec h\<rparr>) \<and>
    (\<forall>a. pa ip = Inr a \<longrightarrow> parsePortSpec pf pa (withProto (ip @ '':'' @ nat_dec h @ '':'' @ nat_dec c) proto) =
      Inr (port, Some \<lparr>pb_HostIP = Some a, pb_HostPort = nat_dec h\<rparr>)) \<and>
    parsePortSpec pf pa (withProto (ip @ ''::'' @ nat_dec c) proto) = Inr (port, None)"
proof -
  note core = parsePortSpec_core [where pf = pf and pa = pa, OF splitProto_with [OF assms(1)] assms(1) _ assms(2,3,5)]
  have n: "CHR ''/'' \<notin> set (nat_dec n)" for n by (rule nat_dec_no_sep)
  have h: "nat_dec h = [] \<or> (\<exists>k < 65536. nat_dec h = nat_dec k)" using assms(4) by blast
  show ?thesis
    using core [OF _ splitPorts_forms(1)] core [OF _ splitPorts_forms(2) h] core [OF _ splitPorts_forms(3) [OF assms(7)] h]
      core [OF _ splitPorts_forms(4) [OF assms(7)]] assms(6,8) n by simp
qed

section \<open>What Run leaves behind\<close>

lemma d_call_acq:
  assumes "d_call (io_call f) st = (a, st')"
  shows "acquired (d_io st) [] (d_io st') \<and> hosts st' = hosts st \<and> hst st' = hst st \<and> dsh st' = dsh st"
  using d_call_frame [OF assms] by (auto intro: io_call_acq)

lemma PullImage_acq:
  assumes "io_ok (d_io st)" and "PullImage x q p ref st = (r, st')"
  shows "acquired (d_io st) [] (d_io st') \<and> hosts st' = hosts st \<and> hst st' = hst st"
proof (cases "dclient st p")
  case (Inl e)
  then show ?thesis using assms(2) by (auto simp: PullImage_def)
next
  case c: (Inr c)
  obtain o1 st1 where o: "d_call (io_open (q_pull q c ref)) st = (o1, st1)" by fastforce
  note f = d_call_frame [OF o]
  show ?thesis
  proof (cases o1)
    case (Inl e)
    then show ?thesis using assms(2) c o f by (auto simp: PullImage_def intro: io_open_err)
  next
    case (Inr body)
    obtain m st2 where m: "d_call (io_call (q_pull_msgs q body)) st1 = (m, st2)" by fastforce
    have "acquired (d_io st) [body] (d_io st2)"
      using f Inr d_call_acq [OF m] by (auto intro: acquired_trans0 io_open_ok)
    from acquired_close_one [OF assms(1) this, of "x_close x"]
    show ?thesis using assms(2) c o Inr m f d_call_acq [OF m]
      by (auto simp: PullImage_def Let_def split: prod.splits)
  qed
qed

lemma runPull_acq:
  assumes "io_ok (d_io st)" and "runPull x q p c opts st = (e, calls, st')"
  shows "acquired (d_io st) [] (d_io st') \<and> hosts st' = hosts st \<and> hst st' = hst st \<and> set calls \<subseteq> {CallPull (ro_Image opts)}"
proof (cases "ro_PullIfMissing opts")
  case False
  then show ?thesis using assms(2) by (auto simp: runPull_def)
next
  case True
  obtain res st1 where l: "d_call (io_call (q_image_list q c False (Some (ro_Image opts)))) st = (res, st1)" by fastforce
  obtain r st2 where u: "PullImage x q p (ro_Image opts) st1 = (r, st2)" by fastforce
  note a = d_call_acq [OF l]
  note b = PullImage_acq [OF acquired_ok [OF assms(1) conjunct1 [OF a]] u]
  show ?thesis
    using assms(2) True l u a b
    by (auto simp: runPull_def split: if_splits option.splits prod.splits intro: acquired_trans0)
qed

lemma runStart_spec:
  assumes "runStart q c req st = (r, calls, st')"
  shows "acquired (d_io st) [] (d_io st') \<and> hosts st' = hosts st \<and> hst st' = hst st \<and>
    (case r of
       Inr res \<Rightarrow> calls = [CallCreate, CallStart (rr_ID res)]
     | Inl _ \<Rightarrow> calls = [CallCreate] \<or> (\<exists>cid. calls = [CallCreate, CallStart cid, CallRemove cid]))"
proof -
  obtain a st1 where a: "d_call (io_call (q_create q c req)) st = (a, st1)" by fastforce
  note fa = d_call_acq [OF a]
  show ?thesis
  proof (cases a)
    case (Inl e)
    then show ?thesis using assms a fa by (auto simp: runStart_def)
  next
    case (Inr cw)
    obtain cid ws where cw: "cw = (cid, ws)" by fastforce
    obtain b st2 where b: "d_call (io_call (q_start q c cid)) st1 = (b, st2)" by fastforce
    obtain e st3 where e: "d_call (io_call (q_remove q c cid)) st2 = (e, st3)" by fastforce
    have "acquired (d_io st) [] (d_io st2)" "acquired (d_io st) [] (d_io st3)"
      using fa d_call_acq [OF b] d_call_acq [OF e] acquired_trans0 by blast+
    then show ?thesis using assms a fa Inr cw b e d_call_acq [OF b] d_call_acq [OF e]
      by (cases b) (auto simp: runStart_def)
  qed
qed

lemma collectPorts_ok:
  "collectPorts pf pa ss acc = Inr r \<Longrightarrow> s \<in> set ss \<Longrightarrow> is_ok (parsePortSpec pf pa s)"
proof (induction ss arbitrary: acc)
  case (Cons t ss)
  then show ?case by (cases acc) (auto split: sum.splits prod.splits)
qed simp

text \<open>
  C36. Running a container cleans up after itself: when the container was created but does not
  start, the last thing \<open>Run\<close> does is to remove that container; on success it has created and
  started exactly the container it returns, after at most one pull of the image. Nothing is created
  unless every port spec can be read, no connection is left open, and the hosts do not change.
\<close>

theorem dockerRun_cleans_up:
  assumes "io_ok (d_io st)" and "dockerRun x q p opts st = (r, calls, st')"
  shows "acquired (d_io st) [] (d_io st') \<and> hosts st' = hosts st \<and> hst st' = hst st \<and>
    (case r of
       Inr res \<Rightarrow> (\<exists>pre. set pre \<subseteq> {CallPull (ro_Image opts)} \<and> calls = pre @ [CallCreate, CallStart (rr_ID res)])
     | Inl _ \<Rightarrow> (\<forall>cid. CallStart cid \<in> set calls \<longrightarrow> last calls = CallRemove cid)) \<and>
    (CallCreate \<in> set calls \<longrightarrow> (\<forall>s \<in> set (ro_Ports opts). is_ok (parsePortSpec (q_port_from q) (q_parse_addr q) s)))"
proof (cases "dclient st p")
  case (Inl e)
  then show ?thesis using assms(2) by (auto simp: dockerRun_def)
next
  case c: (Inr c)
  show ?thesis
  proof (cases "ro_Image opts = []")
    case True
    then show ?thesis using assms(2) c by (auto simp: dockerRun_def)
  next
    case img: False
    obtain e calls1 st1 where u: "runPull x q p c opts st = (e, calls1, st1)" by (cases "runPull x q p c opts st") auto
    note f = runPull_acq [OF assms(1) u]
    show ?thesis
    proof (cases "e = None \<and> is_ok (collectPorts (q_port_from q) (q_parse_addr q) (ro_Ports opts) ([], []))")
      case False
      then show ?thesis using assms(2) c img u f
        by (cases e; cases "collectPorts (q_port_from q) (q_parse_addr q) (ro_Ports opts) ([], [])") (auto simp: dockerRun_def)
    next
      case True
      then obtain ex bi where k: "collectPorts (q_port_from q) (q_parse_addr q) (ro_Ports opts) ([], []) = Inr (ex, bi)"
        by (cases "collectPorts (q_port_from q) (q_parse_addr q) (ro_Ports opts) ([], [])") auto
      obtain r2 calls2 st2 where s: "runStart q c (createReq opts ex bi) st1 = (r2, calls2, st2)"
        by (cases "runStart q c (createReq opts ex bi) st1") auto
      have eq: "r = r2" "calls = calls1 @ calls2" "st' = st2"
        using assms(2) c img u True k s by (auto simp: dockerRun_def)
      note g = runStart_spec [OF s]
      have "acquired (d_io st) [] (d_io st2)" using f g by (blast intro: acquired_trans0)
      then show ?thesis
        using f g eq collectPorts_ok [OF k] by (cases r2) auto
    qed
  qed
qed

section \<open>Worked instances\<close>

lemma parsePortSpec_forms_witness:
  "parsePortSpec (\<lambda>n p. Some (n, p)) Inr (withProto (nat_dec 8080 @ '':'' @ nat_dec 80) (Some ''udp'')) =
     Inr ((80, ''udp''), Some \<lparr>pb_HostIP = None, pb_HostPort = nat_dec 8080\<rparr>) \<and>
   parsePortSpec (\<lambda>n p. Some (n, p)) Inr (withProto (''10.0.0.1'' @ ''::'' @ nat_dec 80) (Some ''udp'')) =
     Inr ((80, ''udp''), None)"
  using parsePortSpec_forms [of "Some ''udp''" 80 8080 "\<lambda>n p. Some (n, p)" "(80, ''udp'')" "''10.0.0.1''" Inr]
  by (simp add: protoOf_def)

text \<open>A daemon that creates containers and cannot start them.\<close>

definition demo_rext :: "(nat, nat \<times> string, string) rext" where
  "demo_rext = \<lparr>q_port_from = (\<lambda>n p. Some (n, p)), q_parse_addr = Inr, q_image_list = (\<lambda>c a r n. (Inr [], Suc n)),
     q_pull = (\<lambda>c r n. (None, Suc n)), q_pull_msgs = (\<lambda>b n. (([], None), Suc n)), q_image_remove = (\<lambda>c r f g n. (None, Suc n)),
     q_create = (\<lambda>c r n. (Inr (''c1'', []), Suc n)), q_start = (\<lambda>c i n. (Some (ExtErr ''no''), Suc n)),
     q_remove = (\<lambda>c i n. (None, Suc n))\<rparr>"

definition demo_run :: RunOptions where
  "demo_run = \<lparr>ro_Image = ''img'', ro_Name = [], ro_Cmd = [], ro_Entrypoint = [], ro_Env = [], ro_WorkingDir = [],
     ro_User = [], ro_Hostname = [], ro_Ports = [], ro_Volumes = [], ro_RestartPolicy = [], ro_AutoRemove = False,
     ro_Labels = [], ro_NetworkMode = [], ro_Tty = False, ro_Detach = True, ro_PullIfMissing = True\<rparr>"

lemma dockerRun_cleans_up_witness:
  "fst (snd (dockerRun demo_ext demo_rext 0 demo_run demo_dst1)) =
     [CallPull ''img'', CallCreate, CallStart ''c1'', CallRemove ''c1''] \<and>
   live (d_io (snd (snd (dockerRun demo_ext demo_rext 0 demo_run demo_dst1)))) = live (d_io demo_dst1)"
proof -
  obtain r calls st' where d: "dockerRun demo_ext demo_rext 0 demo_run demo_dst1 = (r, calls, st')"
    by (cases "dockerRun demo_ext demo_rext 0 demo_run demo_dst1") auto
  have "fst (snd (dockerRun demo_ext demo_rext 0 demo_run demo_dst1)) =
     [CallPull ''img'', CallCreate, CallStart ''c1'', CallRemove ''c1'']" by code_simp
  then show ?thesis using dockerRun_cleans_up [OF demo_dst_ok(2) d] d by (simp add: acquired_def)
qed

end
