(* ===== verification/Flusher.thy ===== *)
theory Flusher
  imports GoPrelude
begin

text \<open>
  The state flusher of \<open>internal/mcptools/server.go\<close>: tool handlers call \<open>Persist\<close> after each change, a goroutine (\<open>flushLoop\<close>)
  waits until 200 ms have gone by without another request and writes, the \<open>snapshot\<close> tool writes at once, and \<open>Stop\<close> writes a last
  time.  All of them interleave: the component is a step relation.  Which state is written is told by its version, the number of
  changes so far.  A write has two steps, as in \<open>PersistNow\<close>: \<open>Capture\<close> takes the version of its moment, \<open>Save\<close>, which may fail,
  brings it to disk later; only \<open>Save\<close> holds the lock of the store.
\<close>

section \<open>The state\<close>

text \<open>The loop between its selects or in a write, with the version it captured; the same for \<open>Stop\<close>.\<close>

datatype loop_state = LoopAbsent | LoopRunning | LoopSaving nat | LoopExited

datatype stop_state = StopNotCalled | StopClosing | StopSaving nat | StopFlushed nat

record flusher =
  version :: nat          \<comment> \<open>changes made to the managers\<close>
  asked :: nat            \<comment> \<open>the version of the last \<open>Persist\<close> call\<close>
  saved :: "nat list"     \<comment> \<open>the versions brought to disk, the latest first; it starts with what was loaded\<close>
  flushReq :: bool        \<comment> \<open>the channel of capacity one is full\<close>
  timer :: "nat option"   \<comment> \<open>\<open>timerC\<close>, with the milliseconds left; none if it is nil\<close>
  loop :: loop_state
  stopping :: stop_state
  savers :: "nat list"    \<comment> \<open>handlers inside \<open>PersistNow\<close>, with the version each captured\<close>
  failures :: nat         \<comment> \<open>writes that failed\<close>

definition flushInit :: flusher where
  "flushInit = \<lparr>version = 0, asked = 0, saved = [0], flushReq = False, timer = None, loop = LoopAbsent,
     stopping = StopNotCalled, savers = [], failures = 0\<rparr>"

definition flushStart :: "flusher \<Rightarrow> bool" where
  "flushStart s \<longleftrightarrow> s = flushInit"

definition debounce :: nat where
  "debounce = 200"

section \<open>The steps\<close>

text \<open>The second half of \<open>PersistNow\<close>.\<close>

definition saveVersion :: "bool \<Rightarrow> nat \<Rightarrow> flusher \<Rightarrow> flusher" where
  "saveVersion ok v s = (if ok then s\<lparr>saved := v # saved s\<rparr> else s\<lparr>failures := Suc (failures s)\<rparr>)"

text \<open>\<open>Persist\<close>: synchronous as long as there is no loop.\<close>

definition persist :: "flusher \<Rightarrow> flusher" where
  "persist s =
     (if loop s = LoopAbsent then s\<lparr>asked := version s, savers := version s # savers s\<rparr>
      else s\<lparr>asked := version s, flushReq := True\<rparr>)"

text \<open>Who takes a step: a handler that changes something, one that calls \<open>Persist\<close>, one inside \<open>PersistNow\<close>, the loop, the clock of its
  timer, the main goroutine with \<open>Start\<close> and \<open>Stop\<close>.\<close>

datatype actor = Changer | Requester | Saver | Loop | Clock | Starter | Stopper

inductive flush_step :: "actor \<Rightarrow> flusher \<Rightarrow> flusher \<Rightarrow> bool" where
  change: "flush_step Changer s (s\<lparr>version := Suc (version s)\<rparr>)"
| request: "flush_step Requester s (persist s)"
| capture: "flush_step Saver s (s\<lparr>savers := version s # savers s\<rparr>)"
| save: "savers s = xs @ v # ys \<Longrightarrow> flush_step Saver s (saveVersion ok v (s\<lparr>savers := xs @ ys\<rparr>))"
| start: "loop s = LoopAbsent \<Longrightarrow> stopping s = StopNotCalled \<Longrightarrow> flush_step Starter s (s\<lparr>loop := LoopRunning\<rparr>)"
| receive: "loop s = LoopRunning \<Longrightarrow> flushReq s \<Longrightarrow> flush_step Loop s (s\<lparr>flushReq := False, timer := Some debounce\<rparr>)"
| tick: "timer s = Some (Suc n) \<Longrightarrow> flush_step Clock s (s\<lparr>timer := Some n\<rparr>)"
| fire: "loop s = LoopRunning \<Longrightarrow> timer s = Some 0 \<Longrightarrow> flush_step Loop s (s\<lparr>timer := None, loop := LoopSaving (version s)\<rparr>)"
| fired: "loop s = LoopSaving v \<Longrightarrow> flush_step Loop s (saveVersion ok v (s\<lparr>loop := LoopRunning\<rparr>))"
| stop: "stopping s = StopNotCalled \<Longrightarrow>
    flush_step Stopper s (s\<lparr>stopping := if loop s = LoopAbsent then StopSaving (version s) else StopClosing\<rparr>)"
| leave: "loop s = LoopRunning \<Longrightarrow> stopping s = StopClosing \<Longrightarrow> flush_step Loop s (s\<lparr>loop := LoopExited\<rparr>)"
| last_capture: "loop s = LoopExited \<Longrightarrow> stopping s = StopClosing \<Longrightarrow>
    flush_step Stopper s (s\<lparr>stopping := StopSaving (version s)\<rparr>)"
| last_save: "stopping s = StopSaving v \<Longrightarrow> flush_step Stopper s (saveVersion ok v (s\<lparr>stopping := StopFlushed v\<rparr>))"

inductive_cases flush_stepE: "flush_step a s t"

definition flush_any :: "flusher \<Rightarrow> flusher \<Rightarrow> bool" where
  "flush_any s t \<longleftrightarrow> (\<exists>a. flush_step a s t)"

text \<open>A run with those who took its steps.\<close>

inductive flush_run :: "actor list \<Rightarrow> flusher \<Rightarrow> flusher \<Rightarrow> bool" where
  run_none: "flush_run [] s s"
| run_step: "flush_step a s t \<Longrightarrow> flush_run as t u \<Longrightarrow> flush_run (a # as) s u"

lemma flush_run_steps: "flush_run as s t \<Longrightarrow> steps_to flush_any s t"
  by (induction rule: flush_run.induct) (auto simp: flush_any_def intro: steps_refl steps_cons)

lemma flush_run_append: "flush_run as s t \<Longrightarrow> flush_run bs t u \<Longrightarrow> flush_run (as @ bs) s u"
  by (induction rule: flush_run.induct) (auto intro: flush_run.intros)

section \<open>What holds of every interleaving\<close>

text \<open>The version last asked for is in the hands of somebody who will write it, or of one who will capture it.\<close>

definition onItsWay :: "flusher \<Rightarrow> bool" where
  "onItsWay s \<longleftrightarrow>
     list_ex (\<lambda>v. asked s \<le> v) (savers s) \<or>
     (case loop s of
        LoopAbsent \<Rightarrow> (case stopping s of StopSaving v \<Rightarrow> asked s \<le> v | _ \<Rightarrow> False)
      | LoopRunning \<Rightarrow> flushReq s \<or> timer s \<noteq> None
      | LoopSaving v \<Rightarrow> asked s \<le> v \<or> flushReq s
      | LoopExited \<Rightarrow> (case stopping s of StopClosing \<Rightarrow> True | StopSaving v \<Rightarrow> asked s \<le> v | _ \<Rightarrow> False))"







section \<open>What the loop still has to do\<close>

text \<open>Steps of the loop, and milliseconds, until it is idle, if nobody asks again.\<close>

definition todo :: "flusher \<Rightarrow> nat" where
  "todo s = (if flushReq s then 3 else 0) + (if timer s \<noteq> None then 2 else 0) + (case loop s of LoopSaving v \<Rightarrow> 1 | _ \<Rightarrow> 0)"










section \<open>A snapshot and a flush at the same time\<close>

lemma run_ticks:
  "timer s = Some (n + k) \<Longrightarrow> flush_run (replicate k Clock) s (s\<lparr>timer := Some n\<rparr>)"
proof (induction k arbitrary: s)
  case 0
  then have "s\<lparr>timer := Some n\<rparr> = s" by (cases s) simp
  then show ?case by (simp add: run_none)
next
  case (Suc k)
  have "flush_step Clock s (s\<lparr>timer := Some (n + k)\<rparr>)" using Suc.prems by (auto intro: flush_step.tick)
  moreover have "flush_run (replicate k Clock) (s\<lparr>timer := Some (n + k)\<rparr>) (s\<lparr>timer := Some n\<rparr>)"
    using Suc.IH [of "s\<lparr>timer := Some (n + k)\<rparr>"] by simp
  ultimately show ?case by (simp add: run_step)
qed

text \<open>From a request of an idle loop to its write.\<close>

lemma run_flush:
  assumes "loop s = LoopRunning" and "timer s = None" and "flushReq s = False"
  shows "\<exists>as. flush_run as s (s\<lparr>asked := version s, saved := version s # saved s\<rparr>)"
proof -
  let ?r = "s\<lparr>asked := version s, flushReq := True\<rparr>" and ?t = "s\<lparr>asked := version s, timer := Some debounce\<rparr>"
  let ?z = "s\<lparr>asked := version s, timer := Some 0\<rparr>" and ?f = "s\<lparr>asked := version s, loop := LoopSaving (version s)\<rparr>"
  have "flush_step Requester s ?r" using flush_step.request [of s] assms(1) by (simp add: persist_def)
  moreover have "flush_step Loop ?r ?t" using flush_step.receive [of ?r] assms by (cases s) simp
  moreover have "flush_run (replicate debounce Clock) ?t ?z" using run_ticks [of ?t 0 debounce] by simp
  moreover have "flush_step Loop ?z ?f" using flush_step.fire [of ?z] assms by (cases s) simp
  moreover have "flush_step Loop ?f (s\<lparr>asked := version s, saved := version s # saved s\<rparr>)"
    using flush_step.fired [of ?f _ True] assms by (cases s) (simp add: saveVersion_def)
  ultimately show ?thesis by (meson flush_run_append run_none run_step)
qed

text \<open>
  \<open>PersistNow\<close> captures the state before it takes the lock of the store.  So a snapshot that captured an older state can be written
  after the flush of a newer one: here the version that was asked for is not on disk any more, and nobody will write it.
\<close>

theorem snapshot_overwrites_flush:
  "\<exists>s. flushStart flushInit \<and> steps_to flush_any flushInit s \<and> failures s = 0 \<and> asked s = 1 \<and> hd (saved s) = 0 \<and>
     \<not> onItsWay s \<and> todo s = 0 \<and> saved s = [0, 1, 0]"
proof -
  let ?a = "flushInit\<lparr>loop := LoopRunning\<rparr>"
  let ?b = "?a\<lparr>savers := [0]\<rparr>" and ?c = "?a\<lparr>savers := [0], version := 1\<rparr>"
  let ?d = "?a\<lparr>savers := [0], version := 1, asked := 1, saved := [1, 0]\<rparr>"
  let ?e = "?a\<lparr>version := 1, asked := 1, saved := [0, 1, 0]\<rparr>"
  have "flush_step Starter flushInit ?a" by (rule flush_step.start) (simp_all add: flushInit_def)
  moreover have "flush_step Saver ?a ?b" using flush_step.capture [of ?a] by (simp add: flushInit_def)
  moreover have "flush_step Changer ?b ?c" using flush_step.change [of ?b] by (simp add: flushInit_def)
  moreover obtain as where "flush_run as ?c ?d" using run_flush [of ?c] by (auto simp: flushInit_def)
  moreover have "flush_step Saver ?d ?e" using flush_step.save [of ?d "[]" 0 "[]" True] by (simp add: saveVersion_def flushInit_def)
  ultimately have "\<exists>as. flush_run as flushInit ?e" by (meson flush_run_append run_none run_step)
  then show ?thesis
    by (intro exI [of _ ?e]) (auto simp: flushStart_def flushInit_def onItsWay_def todo_def dest: flush_run_steps)
qed

text \<open>
  The timer starts again with every request, without a limit: as long as requests keep coming within 200 ms of each other nothing is
  written, however long that lasts.
\<close>

definition busy :: flusher where
  "busy = flushInit\<lparr>version := 1, asked := 1, timer := Some debounce, loop := LoopRunning\<rparr>"

lemma busy_round: "flush_run (replicate 199 Clock @ [Requester, Loop]) busy busy"
proof -
  let ?t = "busy\<lparr>timer := Some 1\<rparr>" and ?r = "busy\<lparr>timer := Some 1, flushReq := True\<rparr>"
  have "flush_run (replicate 199 Clock) busy ?t" using run_ticks [of busy 1 199] by (simp add: busy_def debounce_def)
  moreover have "flush_step Requester ?t ?r" using flush_step.request [of ?t] by (simp add: persist_def busy_def flushInit_def)
  moreover have "flush_step Loop ?r busy" using flush_step.receive [of ?r] by (simp add: busy_def flushInit_def)
  ultimately show ?thesis by (intro flush_run_append) (auto intro: run_none run_step)
qed

theorem requests_postpone_flush:
  "\<exists>as. steps_to flush_any flushInit busy \<and> flush_run as busy busy \<and> count_list as Clock = 199 * n \<and> saved busy = [0] \<and> asked busy = 1"
proof -
  let ?a = "flushInit\<lparr>loop := LoopRunning\<rparr>" and ?b = "flushInit\<lparr>loop := LoopRunning, version := 1\<rparr>"
  let ?c = "flushInit\<lparr>loop := LoopRunning, version := 1, asked := 1, flushReq := True\<rparr>"
  have "flush_step Starter flushInit ?a" by (rule flush_step.start) (simp_all add: flushInit_def)
  moreover have "flush_step Changer ?a ?b" using flush_step.change [of ?a] by (simp add: flushInit_def)
  moreover have "flush_step Requester ?b ?c" using flush_step.request [of ?b] by (simp add: flushInit_def persist_def)
  moreover have "flush_step Loop ?c busy" using flush_step.receive [of ?c] by (simp add: flushInit_def busy_def)
  ultimately have r: "steps_to flush_any flushInit busy" by (meson flush_run_steps run_none run_step)
  have "\<exists>as. flush_run as busy busy \<and> count_list as Clock = 199 * n"
  proof (induction n)
    case 0
    then show ?case by (intro exI [of _ "[]"]) (simp add: run_none)
  next
    case (Suc n)
    then obtain as where "flush_run as busy busy" "count_list as Clock = 199 * n" by blast
    moreover have "count_list (replicate k Clock @ [Requester, Loop]) Clock = k" for k by (induction k) simp_all
    ultimately show ?case using flush_run_append [OF busy_round]
      by (intro exI [of _ "(replicate 199 Clock @ [Requester, Loop]) @ as"]) simp
  qed
  then show ?thesis using r by (auto simp: busy_def flushInit_def)
qed


end
