(* ===== verification/Daemon.thy ===== *)
theory Daemon
  imports GoStrings
begin

text \<open>
  \<open>internal/daemon\<close>: the bearer token that guards the daemon (\<open>auth.go\<close>), the one-shot rpc
  endpoint (\<open>rpc.go\<close>), and the lock file that is to keep a second daemon away (\<open>lock.go\<close>).
\<close>

section \<open>Tokens\<close>

definition hexDigit :: "nat \<Rightarrow> char" where
  "hexDigit k = (if k < 10 then digit_char k else char_of (87 + k))"

definition hexEncode :: "nat list \<Rightarrow> string" where
  "hexEncode bs = concat (map (\<lambda>b. [hexDigit (b div 16), hexDigit (b mod 16)]) bs)"

text \<open>\<open>rand.Read\<close> fills the buffer or fails.\<close>

definition GenerateToken :: "nat list res \<Rightarrow> string res" where
  "GenerateToken rand = (case rand of Inl e \<Rightarrow> Inl e | Inr buf \<Rightarrow> Inr (hexEncode buf))"

record request =
  rq_Method :: string
  rq_Authorization :: string  \<comment> \<open>\<open>r.Header.Get\<close>: empty when there is none\<close>
  rq_Body :: "string res"     \<comment> \<open>what the client sends, or the error with which reading it ends\<close>

record response =
  rs_Status :: nat
  rs_Header :: "(string \<times> string) list"
  rs_Body :: string

definition checkBearer :: "request \<Rightarrow> string \<Rightarrow> bool" where
  "checkBearer r expected =
     (let h = rq_Authorization r; prefix = ''bearer '' in
      if length h < length prefix then False
      else if \<not> equalFold (take (length prefix) h) prefix then False
      else (let got = drop (length prefix) h in
            if length got \<noteq> length expected then False else got = expected))"

definition AuthMiddleware :: "string \<Rightarrow> (request \<Rightarrow> response) \<Rightarrow> request \<Rightarrow> response" where
  "AuthMiddleware token handler r =
     (if \<not> checkBearer r token then
        \<lparr>rs_Status = 401, rs_Header = [(''WWW-Authenticate'', ''Bearer realm=\"remote-shell-mcp\"'')], rs_Body = ''unauthorized''\<rparr>
      else handler r)"

text \<open>\<open>mcp.HandleMessage\<close> is a parameter; so are the JSON encoder and the text of an error.  \<open>MaxBytesReader\<close> ends the reading of a
  longer body with an error.\<close>

definition maxBody :: nat where
  "maxBody = 4 * 1024 * 1024"

definition tooLarge :: goerr where
  "tooLarge = ExtErr ''http: request body too large''"

definition RPCHandler :: "(string \<Rightarrow> 'm option) \<Rightarrow> ('m \<Rightarrow> string) \<Rightarrow> (goerr \<Rightarrow> string) \<Rightarrow> request \<Rightarrow> response" where
  "RPCHandler handle encode errText r =
     (if rq_Method r \<noteq> ''POST'' then
        \<lparr>rs_Status = 405, rs_Header = [(''Allow'', ''POST'')], rs_Body = ''method not allowed''\<rparr>
      else (case rq_Body r of
              Inl e \<Rightarrow> \<lparr>rs_Status = 400, rs_Header = [], rs_Body = ''read body: '' @ errText e\<rparr>
            | Inr body \<Rightarrow>
                if maxBody < length body then \<lparr>rs_Status = 400, rs_Header = [], rs_Body = ''read body: '' @ errText tooLarge\<rparr>
                else (case handle body of
                   None \<Rightarrow> \<lparr>rs_Status = 204, rs_Header = [(''Content-Type'', ''application/json'')], rs_Body = []\<rparr>
                 | Some resp \<Rightarrow> \<lparr>rs_Status = 200, rs_Header = [(''Content-Type'', ''application/json'')], rs_Body = encode resp\<rparr>)))"

lemma checkBearer_iff:
  "checkBearer r tok \<longleftrightarrow> (\<exists>scheme. rq_Authorization r = scheme @ tok \<and> equalFold scheme ''bearer '')"
proof
  assume "checkBearer r tok"
  then have "equalFold (take (length ''bearer '') (rq_Authorization r)) ''bearer ''"
      "drop (length ''bearer '') (rq_Authorization r) = tok"
    by (auto simp: checkBearer_def Let_def split: if_splits)
  then show "\<exists>scheme. rq_Authorization r = scheme @ tok \<and> equalFold scheme ''bearer ''"
    by (metis append_take_drop_id)
next
  assume "\<exists>scheme. rq_Authorization r = scheme @ tok \<and> equalFold scheme ''bearer ''"
  then obtain scheme where s: "rq_Authorization r = scheme @ tok" "equalFold scheme ''bearer ''" by blast
  have "length scheme = length (toLower scheme)" by (simp add: toLower_def)
  also have "\<dots> = 7" using s(2) by (simp add: equalFold_def toLower_def)
  finally show "checkBearer r tok" using s by (simp add: checkBearer_def Let_def)
qed

text \<open>
  A request reaches the daemon's handlers exactly when its Authorization header is the word
  bearer, in any case, a space and the token, byte for byte; every other request gets 401 and the
  handler is not asked. In particular a header without a token passes only if the token is empty.
\<close>

theorem AuthMiddleware_exact:
  "AuthMiddleware token handler r =
     (if \<exists>scheme. rq_Authorization r = scheme @ token \<and> equalFold scheme ''bearer '' then handler r
      else \<lparr>rs_Status = 401, rs_Header = [(''WWW-Authenticate'', ''Bearer realm=\"remote-shell-mcp\"'')],
             rs_Body = ''unauthorized''\<rparr>)"
  by (auto simp: AuthMiddleware_def checkBearer_iff)

section \<open>The lock file\<close>

text \<open>
  Processes open a path and get the file behind it; \<open>flock\<close> is on the file, not on the path.
  Each step is one system call of \<open>AcquireLock\<close> or \<open>Lock.Release\<close>; a file is a number.
\<close>

datatype proc = Idle | Opened nat | Locked nat | Unlocked nat | Failed

record lock_sys =
  at_path :: "nat option"      \<comment> \<open>the file the lock path names\<close>
  flocks :: "nat \<Rightarrow> nat option"  \<comment> \<open>which process holds the lock of a file\<close>
  files :: nat                 \<comment> \<open>files made so far\<close>
  procs :: "nat \<Rightarrow> proc"

definition lockStart :: "lock_sys \<Rightarrow> bool" where
  "lockStart s \<longleftrightarrow> at_path s = None \<and> flocks s = (\<lambda>_. None) \<and> procs s = (\<lambda>_. Idle)"

text \<open>\<open>os.OpenFile(path, O_RDWR|O_CREATE)\<close>, \<open>flock(LOCK_EX|LOCK_NB)\<close>, \<open>flock(LOCK_UN)\<close> and \<open>os.Remove(path)\<close>.\<close>

definition openLock :: "nat \<Rightarrow> lock_sys \<Rightarrow> lock_sys" where
  "openLock p s =
     (case at_path s of
        Some f \<Rightarrow> s\<lparr>procs := (procs s)(p := Opened f)\<rparr>
      | None \<Rightarrow> s\<lparr>at_path := Some (files s), files := Suc (files s), procs := (procs s)(p := Opened (files s))\<rparr>)"

definition tryFlock :: "nat \<Rightarrow> nat \<Rightarrow> lock_sys \<Rightarrow> lock_sys" where
  "tryFlock p f s =
     (if flocks s f = None then s\<lparr>flocks := (flocks s)(f := Some p), procs := (procs s)(p := Locked f)\<rparr>
      else s\<lparr>procs := (procs s)(p := Failed)\<rparr>)"

definition unflock :: "nat \<Rightarrow> nat \<Rightarrow> lock_sys \<Rightarrow> lock_sys" where
  "unflock p f s = s\<lparr>flocks := (flocks s)(f := None), procs := (procs s)(p := Unlocked f)\<rparr>"

definition removeLock :: "nat \<Rightarrow> lock_sys \<Rightarrow> lock_sys" where
  "removeLock p s = s\<lparr>at_path := None, procs := (procs s)(p := Idle)\<rparr>"

inductive lock_step :: "lock_sys \<Rightarrow> lock_sys \<Rightarrow> bool" where
  open_lock: "procs s p = Idle \<Longrightarrow> lock_step s (openLock p s)"
| try_lock: "procs s p = Opened f \<Longrightarrow> lock_step s (tryFlock p f s)"
| un_lock: "procs s p = Locked f \<Longrightarrow> lock_step s (unflock p f s)"
| remove_lock: "procs s p = Unlocked f \<Longrightarrow> lock_step s (removeLock p s)"

inductive_cases lock_stepE: "lock_step s t"

text \<open>What does hold: the lock of each file has one holder.\<close>

definition lock_inv :: "lock_sys \<Rightarrow> bool" where
  "lock_inv s \<longleftrightarrow> (\<forall>p f. flocks s f = Some p \<longleftrightarrow> procs s p = Locked f)"

lemma lock_inv_step:
  assumes i: "lock_inv s" and "lock_step s t"
  shows "lock_inv t"
  using assms(2)
proof cases
  case (open_lock p)
  then show ?thesis using i by (auto simp: lock_inv_def openLock_def split: option.splits)
next
  case (try_lock p f)
  have "procs s q \<noteq> Locked f" if "flocks s f = None" for q 
    using i that unfolding lock_inv_def by (metis option.distinct(1))
  then show ?thesis using try_lock i by (auto simp: lock_inv_def tryFlock_def)
next
  case (un_lock p f)
  have "procs s q \<noteq> Locked f" if "q \<noteq> p" for q
  proof
    assume "procs s q = Locked f"
    then have "flocks s f = Some p" "flocks s f = Some q" using i un_lock by (simp_all add: lock_inv_def)
    then show False using that by simp
  qed
  then show ?thesis using un_lock i by (auto simp: lock_inv_def unflock_def)
next
  case (remove_lock p f)
  then show ?thesis using i by (auto simp: lock_inv_def removeLock_def)
qed

interpretation lock_sys: step_system lockStart lock_step lock_inv
  by unfold_locales (simp add: lockStart_def lock_inv_def, rule lock_inv_step)

definition lockInit :: lock_sys where
  "lockInit = \<lparr>at_path = None, flocks = (\<lambda>_. None), files = 0, procs = (\<lambda>_. Idle)\<rparr>"

lemma lock_run:
  "steps_to lock_step s t \<Longrightarrow> procs t p = Idle \<Longrightarrow> steps_to lock_step s (openLock p t)"
  "steps_to lock_step s t \<Longrightarrow> procs t p = Opened f \<Longrightarrow> steps_to lock_step s (tryFlock p f t)"
  "steps_to lock_step s t \<Longrightarrow> procs t p = Locked f \<Longrightarrow> steps_to lock_step s (unflock p f t)"
  "steps_to lock_step s t \<Longrightarrow> procs t p = Unlocked f \<Longrightarrow> steps_to lock_step s (removeLock p t)"
  by (blast intro: steps_snoc lock_step.intros)+

lemmas lock_calls = lockInit_def openLock_def tryFlock_def unflock_def removeLock_def

definition lockRace :: lock_sys where
  "lockRace = tryFlock 2 1 (openLock 2 (removeLock 0 (tryFlock 1 0 (openLock 1 (unflock 0 0
     (tryFlock 0 0 (openLock 0 lockInit)))))))"

lemma lock_race: "steps_to lock_step lockInit lockRace" "procs lockRace 1 = Locked 0" "procs lockRace 2 = Locked 1"
proof -
  show "steps_to lock_step lockInit lockRace"
    unfolding lockRace_def
    by (intro lock_run lock_run(4) [where f = 0] steps_refl) (simp_all add: lock_calls)
qed (simp_all add: lockRace_def lock_calls)

text \<open>
  C37. The lock file does not keep a second daemon away while a first one shuts down: each file's
  lock has at most one holder in every reachable state, but the shutting-down daemon removes the
  path after it has given up the lock, and a daemon that took that lock meanwhile then holds a file
  that is no longer at the path, so that a third one creates and locks a new file: two daemons run.
\<close>

theorem lock_two_daemons:
  "(\<forall>s p q f. steps_to lock_step lockInit s \<longrightarrow> procs s p = Locked f \<longrightarrow> procs s q = Locked f \<longrightarrow> p = q) \<and>
   (\<exists>s f g. steps_to lock_step lockInit s \<and> procs s 1 = Locked f \<and> procs s 2 = Locked g)"
proof (intro conjI allI impI)
  fix s p q f
  assume "steps_to lock_step lockInit s" and "procs s p = Locked f" and "procs s q = Locked f"
  moreover have "lockStart lockInit" by (simp add: lockStart_def lockInit_def)
  ultimately have "lock_inv s" by (blast intro: lock_sys.inv_reachable)
  with \<open>procs s p = Locked f\<close> \<open>procs s q = Locked f\<close> have "flocks s f = Some p" "flocks s f = Some q"
    by (simp_all add: lock_inv_def)
  then show "p = q" by simp
next
  show "\<exists>s f g. steps_to lock_step lockInit s \<and> procs s 1 = Locked f \<and> procs s 2 = Locked g"
    using lock_race by blast
qed

lemma lock_two_daemons_witness:
  "\<exists>s f g. steps_to lock_step lockInit s \<and> procs s 1 = Locked f \<and> procs s 2 = Locked g \<and> f \<noteq> g"
proof -
  obtain s f g where s: "steps_to lock_step lockInit s" "procs s 1 = Locked f" "procs s 2 = Locked g"
    using lock_two_daemons by blast
  then have "f \<noteq> g" using conjunct1 [OF lock_two_daemons] by (metis numeral_One num.distinct(1) numeral_eq_iff)
  then show ?thesis using s by blast
qed

end
