(* ===== verification/GoPath.thy ===== *)
theory GoPath
  imports GoStrings
begin

text \<open>
  What the sources use of Go's packages \<open>path\<close> and \<open>path/filepath\<close> on a Unix system, where the
  two agree: \<open>Clean\<close>, \<open>Join\<close>, \<open>Base\<close>, \<open>Dir\<close> and \<open>Rel\<close>.  A path is read as its
  elements between slashes; \<open>pathElems\<close> are those of the cleaned path, and the laws say which elements
  the result of each function has.
\<close>

section \<open>Clean\<close>

definition rooted :: "string \<Rightarrow> bool" where
  "rooted p = (case p of [] \<Rightarrow> False | c # _ \<Rightarrow> c = CHR ''/'')"

text \<open>One element, on the stack of the elements kept so far (the last one first).\<close>

definition cleanStep :: "bool \<Rightarrow> string \<Rightarrow> string list \<Rightarrow> string list" where
  "cleanStep r c st =
     (if c = [] \<or> c = ''.'' then st
      else if c = ''..'' then
        (case st of [] \<Rightarrow> if r then [] else [c] | t # ts \<Rightarrow> if t = ''..'' then c # st else ts)
      else c # st)"

definition pathElems :: "string \<Rightarrow> string list" where
  "pathElems p = rev (fold (cleanStep (rooted p)) (splitOn CHR ''/'' p) [])"

definition mkPath :: "bool \<Rightarrow> string list \<Rightarrow> string" where
  "mkPath r cs =
     (if r then CHR ''/'' # joinWith ''/'' cs else if cs = [] then ''.'' else joinWith ''/'' cs)"

definition pathClean :: "string \<Rightarrow> string" where
  "pathClean p = mkPath (rooted p) (pathElems p)"

definition pathJoin :: "string list \<Rightarrow> string" where
  "pathJoin ps =
     (let qs = filter (\<lambda>p. p \<noteq> []) ps in if qs = [] then [] else pathClean (joinWith ''/'' qs))"

definition trimRightSlash :: "string \<Rightarrow> string" where
  "trimRightSlash p = rev (dropWhile (\<lambda>c. c = CHR ''/'') (rev p))"

definition pathBase :: "string \<Rightarrow> string" where
  "pathBase p =
     (if p = [] then ''.''
      else let q = last (splitOn CHR ''/'' (trimRightSlash p)) in if q = [] then ''/'' else q)"

definition pathDir :: "string \<Rightarrow> string" where
  "pathDir p =
     (case lastIndexByte p CHR ''/'' of None \<Rightarrow> pathClean [] | Some i \<Rightarrow> pathClean (take (Suc i) p))"

text \<open>\<open>filepath.Rel\<close>, element by element.\<close>

fun stripCommon :: "string list \<Rightarrow> string list \<Rightarrow> string list \<times> string list" where
  "stripCommon (b # bs) (t # ts) = (if b = t then stripCommon bs ts else (b # bs, t # ts))"
| "stripCommon bs ts = (bs, ts)"

definition pathRel :: "string \<Rightarrow> string \<Rightarrow> string res" where
  "pathRel base targ =
     (if pathClean targ = pathClean base then Inr ''.''
      else if rooted base \<noteq> rooted targ then Inl (Errorf ''Rel: can't make relative'' [targ, base])
      else (case stripCommon (pathElems base) (pathElems targ) of
              (bs, ts) \<Rightarrow>
                if bs \<noteq> [] \<and> hd bs = ''..'' then Inl (Errorf ''Rel: can't make relative'' [targ, base])
                else Inr (joinWith ''/'' (replicate (length bs) ''..'' @ ts))))"

section \<open>Normal forms\<close>

text \<open>An element that names something in its directory.\<close>

definition goodElem :: "string \<Rightarrow> bool" where
  "goodElem c \<longleftrightarrow> c \<noteq> [] \<and> CHR ''/'' \<notin> set c \<and> c \<noteq> ''.'' \<and> c \<noteq> ''..''"

definition normalElems :: "bool \<Rightarrow> string list \<Rightarrow> bool" where
  "normalElems r cs \<longleftrightarrow>
     (\<exists>k gs. cs = replicate k ''..'' @ gs \<and> list_all goodElem gs \<and> (r \<longrightarrow> k = 0))"

lemma cleanStep_good [simp]: "goodElem c \<Longrightarrow> cleanStep r c st = c # st"
  by (simp add: goodElem_def cleanStep_def)

lemma cleanStep_skip [simp]: "cleanStep r [] st = st" "cleanStep r ''.'' st = st"
  by (simp_all add: cleanStep_def)

lemma cleanStep_up_good [simp]: "goodElem g \<Longrightarrow> cleanStep r ''..'' (g # st) = st"
  by (simp add: goodElem_def cleanStep_def)

lemma fold_cleanStep_good: "list_all goodElem cs \<Longrightarrow> fold (cleanStep r) cs st = rev cs @ st"
  by (induction cs arbitrary: st) simp_all

lemma fold_cleanStep_ups:
  "fold (cleanStep False) (replicate k ''..'') (replicate j ''..'') = replicate (k + j) ''..''"
proof (induction k arbitrary: j)
  case (Suc k)
  have "cleanStep False ''..'' (replicate j ''..'') = replicate (Suc j) ''..''"
    by (cases j) (simp_all add: cleanStep_def)
  with Suc.IH [of "Suc j"] show ?case by simp
qed simp

lemma normalElems_fold: "normalElems r cs \<Longrightarrow> fold (cleanStep r) cs [] = rev cs"
  using fold_cleanStep_ups [of _ 0]
  by (cases r) (auto simp: normalElems_def fold_cleanStep_good)

lemma normalElems_step:
  assumes "normalElems r (rev st)" and "CHR ''/'' \<notin> set c"
  shows "normalElems r (rev (cleanStep r c st))"
proof -
  obtain k gs where st: "rev st = replicate k ''..'' @ gs" "list_all goodElem gs" "r \<longrightarrow> k = 0"
    using assms(1) by (auto simp: normalElems_def)
  have st': "st = rev gs @ replicate k ''..''"
    using st(1) by (metis rev_append rev_replicate rev_rev_ident)
  consider (skip) "c = [] \<or> c = ''.''" | (up) "c = ''..''" | (good) "goodElem c"
    using assms(2) by (auto simp: goodElem_def)
  then show ?thesis
  proof cases
    case skip
    with assms(1) show ?thesis by auto
  next
    case up
    show ?thesis
    proof (cases gs rule: rev_cases)
      case Nil
      then have "rev (cleanStep r c st) = (if r then [] else replicate (Suc k) ''..'')"
        using up st' st(3) by (cases k) (auto simp: cleanStep_def replicate_append_same)
      then show ?thesis by (auto simp: normalElems_def intro: exI [of _ "Suc k"])
    next
      case (snoc hs g)
      then have "rev (cleanStep r c st) = replicate k ''..'' @ hs" and "list_all goodElem hs"
        using up st' st(2) by (auto simp: cleanStep_def goodElem_def)
      then show ?thesis using st(3) by (auto simp: normalElems_def)
    qed
  next
    case good
    then have "rev (cleanStep r c st) = replicate k ''..'' @ (gs @ [c])" and "list_all goodElem (gs @ [c])"
      using st by simp_all
    then show ?thesis using st(3) unfolding normalElems_def by blast
  qed
qed

lemma normalElems_folds:
  assumes "normalElems r (rev st)" and "\<forall>c \<in> set cs. CHR ''/'' \<notin> set c"
  shows "normalElems r (rev (fold (cleanStep r) cs st))"
  using assms by (induction cs arbitrary: st) (simp_all add: normalElems_step)

lemma normalElems_Nil [simp]: "normalElems r []"
  by (simp add: normalElems_def)

lemma normal_pathElems: "normalElems (rooted p) (pathElems p)"
  unfolding pathElems_def by (rule normalElems_folds) (simp, blast dest: splitOn_parts)

lemma normalElems_parts:
  assumes "normalElems r cs" and "c \<in> set cs"
  shows "c \<noteq> [] \<and> CHR ''/'' \<notin> set c"
proof -
  from assms have "c = ''..'' \<or> goodElem c"
    unfolding normalElems_def list_all_iff by (metis Un_iff in_set_replicate set_append)
  then show ?thesis by (rule disjE) (simp_all add: goodElem_def)
qed

lemma normalElems_snocD:
  assumes "normalElems r (cs @ [c])"
  shows "normalElems r cs"
proof -
  obtain k gs where cs: "cs @ [c] = replicate k ''..'' @ gs" "list_all goodElem gs" "r \<longrightarrow> k = 0"
    using assms unfolding normalElems_def by blast
  show ?thesis
  proof (cases gs rule: rev_cases)
    case Nil
    then obtain j where k: "k = Suc j" using cs(1) by (cases k) simp_all
    then have "cs @ [c] = replicate j ''..'' @ [''..'']"
      using cs(1) Nil by (simp add: replicate_append_same)
    then have "cs = replicate j ''..'' @ []" by simp
    then show ?thesis using cs(3) k unfolding normalElems_def by (auto intro!: exI [of _ j] exI [of _ "[]"])
  next
    case (snoc hs g)
    then have "cs = replicate k ''..'' @ hs" using cs(1) by (metis append.assoc butlast_snoc)
    then show ?thesis using cs(2,3) snoc unfolding normalElems_def by auto
  qed
qed

section \<open>The elements of a built path\<close>

lemma joinWith_hd: "cs \<noteq> [] \<Longrightarrow> hd cs \<noteq> [] \<Longrightarrow> joinWith s cs \<noteq> [] \<and> hd (joinWith s cs) = hd (hd cs)"
  by (induction cs rule: induct_list012) auto

lemma rooted_mkPath:
  assumes "normalElems r cs"
  shows "rooted (mkPath r cs) = r"
proof (cases "r \<or> cs = []")
  case False
  then have cs: "hd cs \<in> set cs" "cs \<noteq> []" by simp_all
  have h: "hd cs \<noteq> []" "CHR ''/'' \<notin> set (hd cs)"
    using normalElems_parts [OF assms cs(1)] by simp_all
  have "hd (hd cs) \<noteq> CHR ''/''" using h by (metis list.set_sel(1))
  then have "hd (joinWith ''/'' cs) \<noteq> CHR ''/''" and "joinWith ''/'' cs \<noteq> []"
    using joinWith_hd [OF cs(2) h(1), of "''/''"] by simp_all
  with False show ?thesis by (cases "joinWith ''/'' cs") (auto simp: mkPath_def rooted_def)
qed (auto simp: mkPath_def rooted_def)

lemma splitOn_mkPath:
  assumes "normalElems r cs"
  shows "splitOn CHR ''/'' (mkPath r cs) =
     (if r then [] # (if cs = [] then [[]] else cs) else if cs = [] then [''.''] else cs)"
  using splitOn_join_parts [of cs "CHR ''/''"] normalElems_parts [OF assms]
  by (auto simp: mkPath_def)

lemma pathElems_mkPath [simp]:
  assumes "normalElems r cs"
  shows "pathElems (mkPath r cs) = cs"
proof -
  have "fold (cleanStep r) (splitOn CHR ''/'' (mkPath r cs)) [] = fold (cleanStep r) cs []"
    by (simp add: splitOn_mkPath [OF assms])
  then show ?thesis
    by (simp add: pathElems_def rooted_mkPath [OF assms] normalElems_fold [OF assms])
qed

lemma pathElems_clean [simp]: "pathElems (pathClean p) = pathElems p"
  by (simp add: pathClean_def normal_pathElems)

lemma rooted_clean [simp]: "rooted (pathClean p) = rooted p"
  by (simp add: pathClean_def rooted_mkPath normal_pathElems)

lemma pathClean_idem [simp]: "pathClean (pathClean p) = pathClean p"
  unfolding pathClean_def [of "pathClean p"] rooted_clean pathElems_clean by (rule pathClean_def [symmetric])

lemma pathClean_eq: "pathClean p = pathClean q \<longleftrightarrow> rooted p = rooted q \<and> pathElems p = pathElems q"
proof
  assume "pathClean p = pathClean q"
  then have "rooted (pathClean p) = rooted (pathClean q)" "pathElems (pathClean p) = pathElems (pathClean q)"
    by simp_all
  then show "rooted p = rooted q \<and> pathElems p = pathElems q" by simp
qed (simp add: pathClean_def)

lemma splitOn_concat: "splitOn c (s @ c # t) = splitOn c s @ splitOn c t"
proof (induction s)
  case (Cons x s)
  then show ?case by (cases "splitOn c s") auto
qed simp

lemma rooted_append: "p \<noteq> [] \<Longrightarrow> rooted (p @ q) = rooted p"
  by (cases p) (auto simp: rooted_def)

lemma joinWith_good_ne: "list_all goodElem cs \<Longrightarrow> cs \<noteq> [] \<Longrightarrow> joinWith ''/'' cs \<noteq> []"
  using joinWith_hd [of cs "''/''"] by (cases cs) (auto simp: goodElem_def)

text \<open>Joining a path under a directory: the elements of the path are worked off on those of the directory.\<close>

lemma pathElems_under:
  assumes "p \<noteq> []"
  shows "pathElems (p @ CHR ''/'' # q) = rev (fold (cleanStep (rooted p)) (splitOn CHR ''/'' q) (rev (pathElems p)))"
  using assms by (simp add: pathElems_def rooted_append splitOn_concat)

lemma pathJoin_two: "p \<noteq> [] \<Longrightarrow> q \<noteq> [] \<Longrightarrow> pathJoin [p, q] = pathClean (p @ CHR ''/'' # q)"
  by (simp add: pathJoin_def)

lemma pathElems_join_good:
  assumes "p \<noteq> []" and "list_all goodElem cs" and "cs \<noteq> []"
  shows "pathElems (pathJoin [p, joinWith ''/'' cs]) = pathElems p @ cs"
    and "rooted (pathJoin [p, joinWith ''/'' cs]) = rooted p"
proof -
  note ne = joinWith_good_ne [OF assms(2,3)]
  have "splitOn CHR ''/'' (joinWith ''/'' cs) = cs"
    using splitOn_join_parts [of cs "CHR ''/''"] assms(2,3) by (auto simp: list_all_iff goodElem_def)
  then show "pathElems (pathJoin [p, joinWith ''/'' cs]) = pathElems p @ cs"
    using assms by (simp add: pathJoin_two ne pathElems_under fold_cleanStep_good)
  show "rooted (pathJoin [p, joinWith ''/'' cs]) = rooted p"
    using assms by (simp add: pathJoin_two ne rooted_append)
qed

lemma pathClean_nonempty [simp]: "pathClean p \<noteq> []"
proof -
  have "joinWith ''/'' (pathElems p) \<noteq> []" if "pathElems p \<noteq> []"
  proof -
    have "hd (pathElems p) \<noteq> []"
      using normalElems_parts [OF normal_pathElems, of "hd (pathElems p)" p] that by simp
    then show ?thesis using joinWith_hd [OF that] by blast
  qed
  then show ?thesis by (auto simp: pathClean_def mkPath_def)
qed

lemma pathJoin_nonempty [simp]: "p \<noteq> [] \<Longrightarrow> pathJoin [p, q] \<noteq> []"
  by (simp add: pathJoin_def)

lemma pathElems_join_name:
  assumes "p \<noteq> []" and "goodElem c"
  shows "pathElems (pathJoin [p, c]) = pathElems p @ [c]" and "rooted (pathJoin [p, c]) = rooted p"
  using pathElems_join_good [of p "[c]"] assms by simp_all

text \<open>A trailing slash changes nothing.\<close>

lemma pathElems_join_dir:
  assumes "p \<noteq> []" and "list_all goodElem cs" and "cs \<noteq> []"
  shows "pathJoin [p, joinWith ''/'' cs @ ''/''] = pathJoin [p, joinWith ''/'' cs]"
proof -
  note ne = joinWith_good_ne [OF assms(2,3)]
  have "pathElems (p @ CHR ''/'' # joinWith ''/'' cs @ ''/'') = pathElems (p @ CHR ''/'' # joinWith ''/'' cs)"
    using assms(1) by (simp add: pathElems_under splitOn_concat)
  then show ?thesis
    using assms(1) ne by (simp add: pathJoin_two pathClean_eq rooted_append)
qed

text \<open>Cleaning a relative path before joining it gives the same elements.\<close>

lemma fold_clean_normal:
  assumes "\<forall>c \<in> set cs. CHR ''/'' \<notin> set c"
  shows "fold (cleanStep r) (rev (fold (cleanStep False) cs [])) st = fold (cleanStep r) cs st"
  using assms
proof (induction cs rule: rev_induct)
  case (snoc c cs)
  define N where "N = rev (fold (cleanStep False) cs [])"
  have IH: "fold (cleanStep r) N st = fold (cleanStep r) cs st"
    using snoc by (simp add: N_def)
  have N: "fold (cleanStep False) cs [] = rev N" by (simp add: N_def)
  have "normalElems False N"
    unfolding N_def by (rule normalElems_folds) (use snoc in simp_all)
  then obtain k gs where N': "N = replicate k ''..'' @ gs" "list_all goodElem gs"
    by (auto simp: normalElems_def)
  consider (skip) "c = [] \<or> c = ''.''" | (up) "c = ''..''" | (good) "goodElem c"
    using snoc.prems by (auto simp: goodElem_def)
  then show ?case
  proof cases
    case skip
    then show ?thesis using IH by (auto simp: N)
  next
    case up
    show ?thesis
    proof (cases gs rule: rev_cases)
      case Nil
      then have "rev (cleanStep False c (rev N)) = N @ [c]"
        using up N'(1) by (cases k) (auto simp: cleanStep_def replicate_append_same)
      then show ?thesis using IH by (simp add: N)
    next
      case (snoc hs g)
      then have g: "goodElem g" and N2: "N = (replicate k ''..'' @ hs) @ [g]" using N' by simp_all
      from g up have "rev (cleanStep False c (rev N)) = replicate k ''..'' @ hs"
        by (simp add: N2 cleanStep_def goodElem_def)
      moreover have "cleanStep r c (fold (cleanStep r) cs st) = fold (cleanStep r) (replicate k ''..'' @ hs) st"
        using g up by (simp add: IH [symmetric] N2)
      ultimately show ?thesis by (simp add: N)
    qed
  next
    case good
    then show ?thesis using IH by (simp add: N)
  qed
qed simp

lemma pathElems_rel_under:
  assumes "d \<noteq> []" and "\<not> rooted p" and "p \<noteq> []"
  shows "pathElems (pathJoin [d, p]) = rev (fold (cleanStep (rooted d)) (pathElems p) (rev (pathElems d)))"
proof -
  have "\<forall>c \<in> set (splitOn CHR ''/'' p). CHR ''/'' \<notin> set c"
    using splitOn_parts by blast
  then have "fold (cleanStep (rooted d)) (pathElems p) (rev (pathElems d)) =
      fold (cleanStep (rooted d)) (splitOn CHR ''/'' p) (rev (pathElems d))"
    using assms(2) fold_clean_normal by (simp add: pathElems_def)
  then show ?thesis using assms by (simp add: pathJoin_two pathElems_under)
qed

section \<open>Rel and Dir on what Join built\<close>

lemma stripCommon_append: "stripCommon bs (bs @ ts) = ([], ts)"
  by (induction bs) (cases ts, simp_all)

lemma pathRel_under:
  assumes "rooted p = rooted base" and "pathElems p = pathElems base @ cs"
  shows "pathRel base p = Inr (if cs = [] then ''.'' else joinWith ''/'' cs)"
  using assms by (simp add: pathRel_def pathClean_eq stripCommon_append)

lemma joinWith_good_dot:
  assumes "list_all goodElem cs"
  shows "joinWith ''/'' cs \<noteq> ''.''"
proof
  assume eq: "joinWith ''/'' cs = ''.''"
  then have "cs \<noteq> []" by auto
  then have "splitOn CHR ''/'' (joinWith ''/'' cs) = cs"
    using splitOn_join_parts [of cs "CHR ''/''"] assms by (auto simp: list_all_iff goodElem_def)
  with eq have "cs = [''.'']" by simp
  with assms show False by (simp add: goodElem_def)
qed

lemma mkPath_snoc: "mkPath r (cs @ [c]) = (if cs = [] then (if r then ''/'' else []) @ c else mkPath r cs @ ''/'' @ c)"
  by (simp add: mkPath_def joinWith_snoc)

lemma pathDir_mkPath:
  assumes "normalElems r (cs @ [c])"
  shows "pathDir (mkPath r (cs @ [c])) = mkPath r cs"
proof -
  have c: "CHR ''/'' \<notin> set c"
    using normalElems_parts [OF assms, of c] by simp
  have n: "normalElems r cs"
    using assms by (rule normalElems_snocD)
  have e: "pathClean (mkPath r cs @ ''/'') = mkPath r cs" if "cs \<noteq> []"
  proof -
    have ne: "mkPath r cs \<noteq> []"
      using that normalElems_parts [OF n, of "hd cs"] joinWith_hd [of cs "''/''"] by (simp add: mkPath_def)
    have "pathClean (mkPath r cs @ ''/'') = pathClean (mkPath r cs)"
      using ne by (simp add: pathClean_eq rooted_append pathElems_under [of _ "[]", simplified])
    then show ?thesis by (simp add: pathClean_def rooted_mkPath [OF n] pathElems_mkPath [OF n])
  qed
  show ?thesis
  proof (cases "cs = []")
    case True
    have "lastIndexByte c CHR ''/'' = None" using c by simp
    with True show ?thesis
      using c lastIndexByte_append [of "CHR ''/''" c "[]"]
      by (cases r) (simp_all add: mkPath_snoc pathDir_def pathClean_def pathElems_def rooted_def mkPath_def
          del: lastIndexByte_None)
  next
    case False
    then have "lastIndexByte (mkPath r (cs @ [c])) CHR ''/'' = Some (length (mkPath r cs))"
      using c by (simp add: mkPath_snoc lastIndexByte_append)
    then show ?thesis using e [OF False] False by (simp add: pathDir_def mkPath_snoc)
  qed
qed

end
