(* ===== verification/GoFiles.thy ===== *)
theory GoFiles
  imports GoPath "HOL-Library.Word"
begin

unbundle bit_operations_syntax

text \<open>
  What the sources use of \<open>os\<close>, \<open>io/fs\<close> and \<open>filepath.Walk\<close>: file modes, the local files an
  upload reads, and the local files a download writes.
\<close>

section \<open>File modes\<close>

type_synonym FileMode = "32 word"

definition ModeDir :: FileMode where
  "ModeDir = 0x80000000"

definition ModeSymlink :: FileMode where
  "ModeSymlink = 0x08000000"

definition modeIsDir :: "FileMode \<Rightarrow> bool" where
  "modeIsDir m \<longleftrightarrow> m AND ModeDir \<noteq> 0"

definition modeIsLink :: "FileMode \<Rightarrow> bool" where
  "modeIsLink m \<longleftrightarrow> m AND ModeSymlink \<noteq> 0"

definition modePerm :: "FileMode \<Rightarrow> FileMode" where
  "modePerm m = m AND 0x1FF"

definition modeLetters :: "FileMode \<Rightarrow> string" where
  "modeLetters m = concat (map (\<lambda>(i, c). if bit m (31 - i) then [c] else []) (enumerate 0 ''dalTLDpSugct?''))"

definition modeString :: "FileMode \<Rightarrow> string" where
  "modeString m =
     (if modeLetters m = [] then ''-'' else modeLetters m) @
     map (\<lambda>(i, c). if bit m (8 - i) then c else CHR ''-'') (enumerate 0 ''rwxrwxrwx'')"

record FileInfo =
  fi_Name :: string
  fi_Size :: int
  fi_Mode :: FileMode
  fi_ModTime :: int

section \<open>The files an upload reads\<close>

text \<open>
  \<open>os.Lstat\<close>, the sorted names of a directory, and what \<open>os.Open\<close> gives to read: the bytes, and
  the error that ends them when it is not the end of the file.
\<close>

record localfs =
  lf_lstat :: "string \<Rightarrow> FileInfo res"
  lf_names :: "string \<Rightarrow> string list res"
  lf_open :: "string \<Rightarrow> (string \<times> goerr option) res"

text \<open>
  \<open>filepath.Walk\<close> below a path whose info is known; the number bounds the depth of the
  directories.  The callback gets the info when there is one, and the error.
\<close>

type_synonym 's walkFn = "string \<Rightarrow> FileInfo option \<Rightarrow> goerr option \<Rightarrow> 's \<Rightarrow> goerr option \<times> 's"

function walk :: "localfs \<Rightarrow> 's walkFn \<Rightarrow> nat \<Rightarrow> string \<Rightarrow> FileInfo \<Rightarrow> 's \<Rightarrow> (goerr option \<times> 's) option"
  and walkNames :: "localfs \<Rightarrow> 's walkFn \<Rightarrow> nat \<Rightarrow> string \<Rightarrow> string list \<Rightarrow> 's \<Rightarrow> (goerr option \<times> 's) option" where
  "walk lf fn 0 path info s = None"
| "walk lf fn (Suc n) path info s =
     (if \<not> modeIsDir (fi_Mode info) then Some (fn path (Some info) None s)
      else (case lf_names lf path of
              Inl e \<Rightarrow> Some (fn path (Some info) (Some e) s)
            | Inr names \<Rightarrow>
                (case fn path (Some info) None s of
                   (Some e, s) \<Rightarrow> Some (Some e, s)
                 | (None, s) \<Rightarrow> walkNames lf fn n path names s)))"
| "walkNames lf fn n path [] s = Some (None, s)"
| "walkNames lf fn n path (name # names) s =
     (case lf_lstat lf (pathJoin [path, name]) of
        Inl e \<Rightarrow>
          (case fn (pathJoin [path, name]) None (Some e) s of
             (Some e, s) \<Rightarrow> Some (Some e, s)
           | (None, s) \<Rightarrow> walkNames lf fn n path names s)
      | Inr info \<Rightarrow>
          (case walk lf fn n (pathJoin [path, name]) info s of
             None \<Rightarrow> None
           | Some (Some e, s) \<Rightarrow> Some (Some e, s)
           | Some (None, s) \<Rightarrow> walkNames lf fn n path names s))"
  by pat_completeness auto
termination
  by (relation "measures [case_sum (\<lambda>(lf, fn, n, _). n) (\<lambda>(lf, fn, n, _). n),
                          case_sum (\<lambda>_. 0) (\<lambda>(lf, fn, n, path, names, s). Suc (length names))]") auto

definition Walk :: "localfs \<Rightarrow> 's walkFn \<Rightarrow> nat \<Rightarrow> string \<Rightarrow> 's \<Rightarrow> (goerr option \<times> 's) option" where
  "Walk lf fn n root s =
     (case lf_lstat lf root of
        Inl e \<Rightarrow> Some (fn root None (Some e) s)
      | Inr info \<Rightarrow> walk lf fn n root info s)"

text \<open>What every call of the callback keeps, the whole walk keeps.\<close>

definition keeps :: "('s \<Rightarrow> bool) \<Rightarrow> 's walkFn \<Rightarrow> bool" where
  "keeps I fn \<longleftrightarrow> (\<forall>p fi err s. I s \<longrightarrow> I (snd (fn p fi err s)))"

lemma keeps_inv: "keeps I fn \<Longrightarrow> fn p fi err s = (e, s') \<Longrightarrow> I s \<Longrightarrow> I s'"
  by (metis keeps_def snd_conv)

lemma walk_inv:
  "keeps I fn \<Longrightarrow> walk lf fn n p info s = Some (e, s') \<Longrightarrow> I s \<Longrightarrow> I s'"
  "keeps I fn \<Longrightarrow> walkNames lf fn n p names s = Some (e, s') \<Longrightarrow> I s \<Longrightarrow> I s'"
proof (induction lf fn n p info s and lf fn n p names s arbitrary: e s' and e s' rule: walk_walkNames.induct)
  case (2 lf fn n path info s)
  then show ?case
    by (auto split: if_splits sum.splits prod.splits option.splits dest: keeps_inv)
next
  case (4 lf fn n path name names s)
  show ?case
  proof (cases "lf_lstat lf (pathJoin [path, name])")
    case (Inl er)
    then show ?thesis using 4 by (auto split: prod.splits option.splits dest: keeps_inv)
  next
    case (Inr info)
    show ?thesis
    proof (cases "walk lf fn n (pathJoin [path, name]) info s")
      case (Some r)
      obtain e1 s1 where r: "r = (e1, s1)" by fastforce
      have i: "I s1" by (rule 4(2) [OF Inr 4(4) _ 4(6)]) (simp add: Some r)
      show ?thesis
      proof (cases e1)
        case None
        then have "walkNames lf fn n path names s1 = Some (e, s')" using 4(5) Inr Some r by simp
        from 4(3) [OF Inr Some r [symmetric] None 4(4) this i] show ?thesis .
      next
        case e1: (Some e')
        then have "s' = s1" using 4(5) Inr Some r by simp
        then show ?thesis using i by simp
      qed
    qed (use 4(5) Inr in simp)
  qed
qed simp_all

lemma Walk_inv:
  assumes "keeps I fn" and "Walk lf fn n p s = Some (e, s')" and "I s"
  shows "I s'"
proof (cases "lf_lstat lf p")
  case (Inl er)
  then have "fn p None (Some er) s = (e, s')" using assms(2) by (simp add: Walk_def)
  then show ?thesis using keeps_inv [OF assms(1)] assms(3) by blast
next
  case (Inr info)
  then have "walk lf fn n p info s = Some (e, s')" using assms(2) by (simp add: Walk_def)
  then show ?thesis using walk_inv(1) [OF assms(1)] assms(3) by blast
qed

section \<open>Trees\<close>

text \<open>A tree of files as it may lie at a path; modes carry the type bits of what is neither directory nor link.\<close>

datatype fnode =
    FFile FileMode int string
  | FLink FileMode int string
  | FDir FileMode int "(string \<times> fnode) list"

fun nodeInfo :: "string \<Rightarrow> fnode \<Rightarrow> FileInfo" where
  "nodeInfo nm (FFile m t c) = \<lparr>fi_Name = nm, fi_Size = int (length c), fi_Mode = m, fi_ModTime = t\<rparr>"
| "nodeInfo nm (FLink m t tgt) = \<lparr>fi_Name = nm, fi_Size = int (length tgt), fi_Mode = m OR ModeSymlink, fi_ModTime = t\<rparr>"
| "nodeInfo nm (FDir m t es) = \<lparr>fi_Name = nm, fi_Size = 0, fi_Mode = m OR ModeDir, fi_ModTime = t\<rparr>"

fun depth :: "fnode \<Rightarrow> nat" and depths :: "(string \<times> fnode) list \<Rightarrow> nat" where
  "depth (FFile m t c) = 1"
| "depth (FLink m t tgt) = 1"
| "depth (FDir m t es) = Suc (depths es)"
| "depths [] = 0"
| "depths ((nm, T) # es) = max (depth T) (depths es)"

text \<open>Only a directory carries the directory bit, and only a link the link bit.\<close>

fun modesOk :: "fnode \<Rightarrow> bool" and modesOks :: "(string \<times> fnode) list \<Rightarrow> bool" where
  "modesOk (FFile m t c) = (\<not> modeIsDir m \<and> \<not> modeIsLink m)"
| "modesOk (FLink m t tgt) = (\<not> modeIsDir m)"
| "modesOk (FDir m t es) = (\<not> modeIsLink m \<and> distinct (map fst es) \<and> modesOks es)"
| "modesOks [] = True"
| "modesOks ((nm, T) # es) = (goodElem nm \<and> modesOk T \<and> modesOks es)"

text \<open>The tree \<open>T\<close> is what the local files have at \<open>p\<close>.\<close>

fun mounted :: "localfs \<Rightarrow> string \<Rightarrow> string \<Rightarrow> fnode \<Rightarrow> bool"
  and mounteds :: "localfs \<Rightarrow> string \<Rightarrow> (string \<times> fnode) list \<Rightarrow> bool" where
  "mounted lf p nm (FFile m t c) =
     (lf_lstat lf p = Inr (nodeInfo nm (FFile m t c)) \<and> lf_open lf p = Inr (c, None))"
| "mounted lf p nm (FLink m t tgt) = (lf_lstat lf p = Inr (nodeInfo nm (FLink m t tgt)))"
| "mounted lf p nm (FDir m t es) =
     (lf_lstat lf p = Inr (nodeInfo nm (FDir m t es)) \<and> lf_names lf p = Inr (map fst es) \<and> mounteds lf p es)"
| "mounteds lf p [] = True"
| "mounteds lf p ((nm, T) # es) = (mounted lf (pathJoin [p, nm]) nm T \<and> mounteds lf p es)"

text \<open>The order in which a walk comes by: a directory before what is in it.\<close>

fun visits :: "string \<Rightarrow> string \<Rightarrow> fnode \<Rightarrow> (string \<times> string \<times> fnode) list"
  and visitss :: "string \<Rightarrow> (string \<times> fnode) list \<Rightarrow> (string \<times> string \<times> fnode) list" where
  "visits p nm (FFile m t c) = [(p, nm, FFile m t c)]"
| "visits p nm (FLink m t tgt) = [(p, nm, FLink m t tgt)]"
| "visits p nm (FDir m t es) = (p, nm, FDir m t es) # visitss p es"
| "visitss p [] = []"
| "visitss p ((nm, T) # es) = visits (pathJoin [p, nm]) nm T @ visitss p es"

fun runVisits :: "'s walkFn \<Rightarrow> (string \<times> string \<times> fnode) list \<Rightarrow> 's \<Rightarrow> goerr option \<times> 's" where
  "runVisits fn [] s = (None, s)"
| "runVisits fn ((p, nm, T) # vs) s =
     (case fn p (Some (nodeInfo nm T)) None s of
        (Some e, s) \<Rightarrow> (Some e, s)
      | (None, s) \<Rightarrow> runVisits fn vs s)"

lemma runVisits_append:
  "runVisits fn (vs @ ws) s =
     (case runVisits fn vs s of (Some e, s) \<Rightarrow> (Some e, s) | (None, s) \<Rightarrow> runVisits fn ws s)"
  by (induction vs arbitrary: s) (auto split: prod.splits option.splits)

lemma mode_bits [simp]:
  "modeIsDir (m OR ModeDir)" "modeIsLink (m OR ModeSymlink)"
  "modeIsLink (m OR ModeDir) = modeIsLink m" "modeIsDir (m OR ModeSymlink) = modeIsDir m"
proof -
  have eqs: "modeIsDir v \<longleftrightarrow> bit v 31" "modeIsLink v \<longleftrightarrow> bit v 27" for v
  proof -
    have "v AND 2 ^ n \<noteq> 0 \<longleftrightarrow> bit v n" for n
      by (simp add: and_exp_eq_0_iff_not_bit)
    from this [of 31] this [of 27] show "modeIsDir v \<longleftrightarrow> bit v 31" "modeIsLink v \<longleftrightarrow> bit v 27"
      by (simp_all add: modeIsDir_def modeIsLink_def ModeDir_def ModeSymlink_def)
  qed
  have "bit ModeDir 31" "\<not> bit ModeDir 27" "bit ModeSymlink 27" "\<not> bit ModeSymlink 31"
    by (simp_all add: ModeDir_def ModeSymlink_def)
  then show "modeIsDir (m OR ModeDir)" "modeIsLink (m OR ModeSymlink)"
    "modeIsLink (m OR ModeDir) = modeIsLink m" "modeIsDir (m OR ModeSymlink) = modeIsDir m"
    by (simp_all add: eqs bit_or_iff)
qed

text \<open>A walk with enough depth calls back for every node of the tree, in order, until the first error.\<close>

lemma walk_visits:
  "mounted lf p nm T \<Longrightarrow> modesOk T \<Longrightarrow> depth T \<le> n \<Longrightarrow>
     walk lf fn n p (nodeInfo nm T) s = Some (runVisits fn (visits p nm T) s)"
  "mounteds lf p es \<Longrightarrow> modesOks es \<Longrightarrow> depths es \<le> n \<Longrightarrow>
     walkNames lf fn n p (map fst es) s = Some (runVisits fn (visitss p es) s)"
proof (induction T and es arbitrary: p n nm s and p n s rule: depth_depths.induct)
  case (1 m t c)
  then show ?case by (cases n) (auto split: option.splits prod.splits)
next
  case (2 m t tgt)
  then show ?case by (cases n) (auto split: option.splits prod.splits)
next
  case (3 m t es)
  then show ?case by (cases n) (auto split: option.splits prod.splits)
next
  case 4
  then show ?case by simp
next
  case (5 nm T es)
  have ls: "lf_lstat lf (pathJoin [p, nm]) = Inr (nodeInfo nm T)"
    using 5(3) by (cases T) simp_all
  from 5 show ?case
    by (simp add: ls runVisits_append split: option.splits prod.splits)
qed

section \<open>The files a download writes\<close>

text \<open>
  The local files by their absolute elements, and what of the process decides a write: its working
  directory, its umask, whether it is exempt from permission bits, and the writes that fail (after how many bytes,
  with which error).  The destination has no symbolic links on the way.
\<close>

datatype dnode = DDir FileMode | DFile FileMode string

type_synonym dfs = "string list \<Rightarrow> dnode option"

record proc =
  pr_cwd :: string
  pr_umask :: FileMode
  pr_root :: bool
  pr_wfault :: "string list \<Rightarrow> (nat \<times> goerr) option"

definition pathKey :: "proc \<Rightarrow> string \<Rightarrow> string list" where
  "pathKey pr p = pathElems (if rooted p then p else pathJoin [pr_cwd pr, p])"

definition dirWritable :: "proc \<Rightarrow> FileMode \<Rightarrow> bool" where
  "dirWritable pr m \<longleftrightarrow> pr_root pr \<or> m AND 0xC0 = 0xC0"

text \<open>Whether an entry can be made in a directory.\<close>

definition inDir :: "proc \<Rightarrow> string list \<Rightarrow> dfs \<Rightarrow> goerr option" where
  "inDir pr k fs =
     (case fs k of
        None \<Rightarrow> Some (ExtErr ''ENOENT'')
      | Some (DFile _ _) \<Rightarrow> Some (ExtErr ''ENOTDIR'')
      | Some (DDir m) \<Rightarrow> if dirWritable pr m then None else Some (ExtErr ''EACCES''))"

definition osMkdir :: "proc \<Rightarrow> FileMode \<Rightarrow> string list \<Rightarrow> dfs \<Rightarrow> goerr option \<times> dfs" where
  "osMkdir pr perm k fs =
     (case fs k of
        Some (DDir _) \<Rightarrow> (None, fs)
      | Some (DFile _ _) \<Rightarrow> (Some (ExtErr ''ENOTDIR''), fs)
      | None \<Rightarrow>
          (case inDir pr (butlast k) fs of
             Some e \<Rightarrow> (Some e, fs)
           | None \<Rightarrow> (None, fs(k \<mapsto> DDir (perm AND NOT (pr_umask pr))))))"

fun mkdirsFrom :: "proc \<Rightarrow> FileMode \<Rightarrow> string list \<Rightarrow> string list \<Rightarrow> dfs \<Rightarrow> goerr option \<times> dfs" where
  "mkdirsFrom pr perm pre [] fs = (None, fs)"
| "mkdirsFrom pr perm pre (c # cs) fs =
     (case osMkdir pr perm (pre @ [c]) fs of
        (Some e, fs) \<Rightarrow> (Some e, fs)
      | (None, fs) \<Rightarrow> mkdirsFrom pr perm (pre @ [c]) cs fs)"

definition osMkdirAll :: "proc \<Rightarrow> string \<Rightarrow> FileMode \<Rightarrow> dfs \<Rightarrow> goerr option \<times> dfs" where
  "osMkdirAll pr p perm fs =
     (if p = [] then (Some (ExtErr ''ENOENT''), fs) else mkdirsFrom pr perm [] (pathKey pr p) fs)"

text \<open>\<open>os.OpenFile\<close> for writing with \<open>O_CREATE\<close> and \<open>O_TRUNC\<close>, which is also \<open>os.Create\<close>.\<close>

definition osCreate :: "proc \<Rightarrow> string \<Rightarrow> FileMode \<Rightarrow> dfs \<Rightarrow> goerr option \<times> dfs" where
  "osCreate pr p perm fs =
     (let k = pathKey pr p in
      if p = [] then (Some (ExtErr ''ENOENT''), fs)
      else (case fs k of
              Some (DDir _) \<Rightarrow> (Some (ExtErr ''EISDIR''), fs)
            | Some (DFile m _) \<Rightarrow>
                if pr_root pr \<or> m AND 0x80 = 0x80 then (None, fs(k \<mapsto> DFile m []))
                else (Some (ExtErr ''EACCES''), fs)
            | None \<Rightarrow>
                (case inDir pr (butlast k) fs of
                   Some e \<Rightarrow> (Some e, fs)
                 | None \<Rightarrow> (None, fs(k \<mapsto> DFile (perm AND NOT (pr_umask pr)) [])))))"

text \<open>\<open>io.Copy\<close> into a file just opened: the bytes there are to read, and the error that ends them.\<close>

definition fileMode :: "dnode option \<Rightarrow> FileMode" where
  "fileMode d = (case d of Some (DFile m _) \<Rightarrow> m | _ \<Rightarrow> 0)"

definition copyToFile :: "proc \<Rightarrow> string \<Rightarrow> string \<Rightarrow> goerr option \<Rightarrow> dfs \<Rightarrow> (int \<times> goerr option) \<times> dfs" where
  "copyToFile pr p data rerr fs =
     (let k = pathKey pr p; put = (\<lambda>bs. fs(k \<mapsto> DFile (fileMode (fs k)) bs)) in
      case pr_wfault pr k of
        Some (n, e) \<Rightarrow>
          if n < length data then ((int n, Some e), put (take n data)) else ((int (length data), rerr), put data)
      | None \<Rightarrow> ((int (length data), rerr), put data))"

end
