(* ===== verification/DockerCopy.thy ===== *)
theory DockerCopy
  imports GoFiles DockerRun
begin

text \<open>
  \<open>internal/dockerx/copy.go\<close>: files into and out of a container as tar streams.  A tar stream is
  its entries, each a header and the bytes that follow it; \<open>archive/tar\<close>'s encoding of them is not
  spelled out.  The docker client's two archive calls are parameters.
\<close>

unbundle bit_operations_syntax

record tarHeader =
  th_Name :: string
  th_Mode :: int
  th_Size :: int
  th_Typeflag :: char
  th_ModTime :: int

definition TypeReg :: char where "TypeReg = CHR ''0''"
definition TypeRegA :: char where "TypeRegA = CHR 0x00"
definition TypeLink :: char where "TypeLink = CHR ''1''"
definition TypeSymlink :: char where "TypeSymlink = CHR ''2''"
definition TypeDir :: char where "TypeDir = CHR ''5''"

type_synonym tar_entry = "tarHeader \<times> string"

section \<open>Writing\<close>

text \<open>\<open>tar.Writer\<close>: the entries so far; bytes are still due while the last has fewer than its header says.\<close>

definition tarDue :: "tar_entry list \<Rightarrow> nat" where
  "tarDue tw = (if tw = [] then 0 else nat (th_Size (fst (last tw))) - length (snd (last tw)))"

definition writeHeader :: "tarHeader \<Rightarrow> tar_entry list \<Rightarrow> goerr option \<times> tar_entry list" where
  "writeHeader hdr tw =
     (if tarDue tw > 0 then (Some (Errorf ''archive/tar: missed writing %d bytes'' [nat_dec (tarDue tw)]), tw)
      else (None, tw @ [(hdr, [])]))"

text \<open>\<open>io.Copy(tw, f)\<close>: no entry takes more bytes than its header says.\<close>

definition copyToTar :: "string \<Rightarrow> goerr option \<Rightarrow> tar_entry list \<Rightarrow> (int \<times> goerr option) \<times> tar_entry list" where
  "copyToTar data rerr tw =
     (let n = tarDue tw; put = (\<lambda>bs. butlast tw @ [(fst (last tw), snd (last tw) @ bs)]) in
      if length data \<le> n then ((int (length data), rerr), put data)
      else ((int n, Some (ExtErr ''archive/tar: write too long'')), put (take n data)))"

type_synonym tar_state = "tar_entry list \<times> int"

definition tarFile :: "localfs \<Rightarrow> string \<Rightarrow> string \<Rightarrow> FileInfo \<Rightarrow> tar_state \<Rightarrow> goerr option \<times> tar_state" where
  "tarFile lf src name info s =
     (case lf_open lf src of
        Inl e \<Rightarrow> (Some e, s)
      | Inr (data, rerr) \<Rightarrow>
          (case writeHeader \<lparr>th_Name = name, th_Mode = uint (modePerm (fi_Mode info)), th_Size = fi_Size info,
                             th_Typeflag = TypeReg, th_ModTime = fi_ModTime info\<rparr> (fst s) of
             (Some e, tw) \<Rightarrow> (Some e, tw, snd s)
           | (None, tw) \<Rightarrow>
               (case copyToTar data rerr tw of
                  ((n, err), tw) \<Rightarrow> (err, tw, snd s + n))))"

text \<open>The callback of the walk.\<close>

definition tarVisit :: "localfs \<Rightarrow> string \<Rightarrow> string \<Rightarrow> tar_state walkFn" where
  "tarVisit lf src entryName p fi err s =
     (case err of
        Some e \<Rightarrow> (Some e, s)
      | None \<Rightarrow>
          (case fi of
             None \<Rightarrow> (None, s)
           | Some info \<Rightarrow>
               if modeIsLink (fi_Mode info) then (None, s)
               else (case pathRel src p of
                       Inl e \<Rightarrow> (Some e, s)
                     | Inr rel \<Rightarrow>
                         (let name = (if rel = ''.'' then entryName else pathJoin [entryName, rel]) in
                          if modeIsDir (fi_Mode info) then
                            (case writeHeader \<lparr>th_Name = name @ ''/'', th_Mode = uint (modePerm (fi_Mode info)),
                                th_Size = 0, th_Typeflag = TypeDir, th_ModTime = fi_ModTime info\<rparr> (fst s) of
                               (e, tw) \<Rightarrow> (e, tw, snd s))
                          else tarFile lf p name info s))))"

definition writeTar ::
    "localfs \<Rightarrow> nat \<Rightarrow> string \<Rightarrow> string \<Rightarrow> FileInfo \<Rightarrow> tar_state \<Rightarrow> (goerr option \<times> tar_state) option" where
  "writeTar lf n src entryName info s =
     (if \<not> modeIsDir (fi_Mode info) then Some (tarFile lf src entryName info s)
      else Walk lf (tarVisit lf src entryName) n src s)"

text \<open>How the stream ends for its reader: with the trailer, cut short, or with the writer's error.\<close>

datatype tar_end = TarTrailer | TarCut | TarError goerr

definition tarEnd :: "goerr option \<Rightarrow> tar_entry list \<Rightarrow> tar_end" where
  "tarEnd werr tw =
     (case werr of Some e \<Rightarrow> TarError e | None \<Rightarrow> if tarDue tw > 0 then TarCut else TarTrailer)"

text \<open>
  The two archive calls.  \<open>z_copy_to\<close> also says how many file bytes the stream's writer had written when
  the call returned, which is what the counter holds then; \<open>z_archive\<close> is the stream a successful
  \<open>CopyFromContainer\<close> gives: the mode of the source, the entries with the error that ends
  the bytes of each, and what \<open>Next\<close> says after the last.
\<close>

record 'w cext =
  z_copy_to :: "handle \<Rightarrow> string \<Rightarrow> string \<Rightarrow> tar_entry list \<Rightarrow> tar_end \<Rightarrow> 'w \<Rightarrow> (goerr option \<times> nat) \<times> 'w"
  z_copy_from :: "handle \<Rightarrow> string \<Rightarrow> string \<Rightarrow> 'w query"
  z_archive :: "handle \<Rightarrow> 'w \<Rightarrow> FileMode \<times> (tarHeader \<times> string \<times> goerr option) list \<times> goerr"

definition uploadDir :: "string \<Rightarrow> string" where
  "uploadDir remotePath =
     (let d = pathDir remotePath in if d = [] \<or> d = ''.'' then ''/'' else d)"

definition dockerUpload ::
    "'w cext \<Rightarrow> localfs \<Rightarrow> nat \<Rightarrow> ptr \<Rightarrow> string \<Rightarrow> string \<Rightarrow> string \<Rightarrow> 'w dst \<Rightarrow> ((int \<times> goerr option) \<times> 'w dst) option" where
  "dockerUpload z lf n p containerID localPath remotePath st =
     (case dclient st p of
        Inl e \<Rightarrow> Some ((0, Some e), st)
      | Inr c \<Rightarrow>
          (case lf_lstat lf localPath of
             Inl e \<Rightarrow> Some ((0, Some e), st)
           | Inr info \<Rightarrow>
               (case writeTar lf n localPath (pathBase remotePath) info ([], 0) of
                  None \<Rightarrow> None
                | Some (werr, tw, written) \<Rightarrow>
                    (case d_call (io_call (z_copy_to z c containerID (uploadDir remotePath) tw (tarEnd werr tw))) st of
                       ((err, k), st) \<Rightarrow> Some ((min (int k) written, err), st)))))"

section \<open>Reading\<close>

definition tarRel :: "string \<Rightarrow> string \<Rightarrow> string" where
  "tarRel rootPrefix name = trimPrefix (trimPrefix name rootPrefix) ''/''"

definition headerPerm :: "tarHeader \<Rightarrow> FileMode" where
  "headerPerm hdr = modePerm (word_of_int (th_Mode hdr))"

text \<open>One entry of the loop: the bytes copied and, when the loop returns with it, the error.\<close>

definition extractEntry ::
    "proc \<Rightarrow> string \<Rightarrow> string \<Rightarrow> tarHeader \<times> string \<times> goerr option \<Rightarrow> dfs \<Rightarrow> (int \<times> goerr option) \<times> dfs" where
  "extractEntry pr rootPrefix localPath ent fs =
     (case ent of (hdr, data, rerr) \<Rightarrow>
        (let rel = tarRel rootPrefix (th_Name hdr); out = pathJoin [localPath, rel] in
         if rel = [] then ((0, None), fs)
         else if th_Typeflag hdr = TypeDir then
           (case osMkdirAll pr out (headerPerm hdr) fs of (e, fs) \<Rightarrow> ((0, e), fs))
         else if th_Typeflag hdr = TypeReg \<or> th_Typeflag hdr = TypeRegA then
           (let fs = (if pathDir out \<noteq> [] then snd (osMkdirAll pr (pathDir out) 0x1ED fs) else fs) in
            case osCreate pr out (headerPerm hdr) fs of
              (Some e, fs) \<Rightarrow> ((0, Some e), fs)
            | (None, fs) \<Rightarrow> copyToFile pr out data rerr fs)
         else if th_Typeflag hdr = TypeSymlink \<or> th_Typeflag hdr = TypeLink then ((0, None), fs)
         else ((0, Some (Errorf ''unexpected tar entry type %d for %s''
                           [nat_dec (of_char (th_Typeflag hdr)), th_Name hdr])), fs)))"

fun extractLoop ::
    "proc \<Rightarrow> string \<Rightarrow> string \<Rightarrow> (tarHeader \<times> string \<times> goerr option) list \<Rightarrow> goerr \<Rightarrow> int \<Rightarrow> dfs \<Rightarrow>
     (int \<times> goerr option) \<times> dfs" where
  "extractLoop pr rp lp [] end_err tot fs = ((tot, if end_err = IoEOF then None else Some end_err), fs)"
| "extractLoop pr rp lp (ent # ents) end_err tot fs =
     (case extractEntry pr rp lp ent fs of
        ((n, Some e), fs) \<Rightarrow> ((tot + n, Some e), fs)
      | ((n, None), fs) \<Rightarrow> extractLoop pr rp lp ents end_err (tot + n) fs)"

definition downloadOne ::
    "proc \<Rightarrow> string \<Rightarrow> (tarHeader \<times> string \<times> goerr option) list \<Rightarrow> goerr \<Rightarrow> dfs \<Rightarrow> (int \<times> goerr option) \<times> dfs" where
  "downloadOne pr localPath ents end_err fs =
     (case ents of
        [] \<Rightarrow> ((0, Some end_err), fs)
      | (hdr, data, rerr) # _ \<Rightarrow>
          (let dir = pathDir localPath;
               fs = (if dir \<noteq> ''.'' \<and> dir \<noteq> [] then snd (osMkdirAll pr dir 0x1ED fs) else fs)
           in case osCreate pr localPath 0x1B6 fs of
                (Some e, fs) \<Rightarrow> ((0, Some e), fs)
              | (None, fs) \<Rightarrow> copyToFile pr localPath data rerr fs))"

definition downloadTree ::
    "proc \<Rightarrow> string \<Rightarrow> string \<Rightarrow> (tarHeader \<times> string \<times> goerr option) list \<Rightarrow> goerr \<Rightarrow> dfs \<Rightarrow> (int \<times> goerr option) \<times> dfs" where
  "downloadTree pr remotePath localPath ents end_err fs =
     (case osMkdirAll pr localPath 0x1ED fs of
        (Some e, fs) \<Rightarrow> ((0, Some e), fs)
      | (None, fs) \<Rightarrow> extractLoop pr (pathBase (trimRightSlash remotePath)) localPath ents end_err 0 fs)"

definition dockerDownload ::
    "'w ext \<Rightarrow> 'w cext \<Rightarrow> proc \<Rightarrow> ptr \<Rightarrow> string \<Rightarrow> string \<Rightarrow> string \<Rightarrow> dfs \<Rightarrow> 'w dst \<Rightarrow>
     (int \<times> goerr option) \<times> dfs \<times> 'w dst" where
  "dockerDownload x z pr p containerID remotePath localPath fs st =
     (case dclient st p of
        Inl e \<Rightarrow> ((0, Some e), fs, st)
      | Inr c \<Rightarrow>
          (case d_call (io_open (z_copy_from z c containerID remotePath)) st of
             (Inl e, st) \<Rightarrow> ((0, Some e), fs, st)
           | (Inr body, st) \<Rightarrow>
               (case z_archive z body (orc (d_io st)) of
                  (mode, ents, end_err) \<Rightarrow>
                    (case (if \<not> modeIsDir mode then downloadOne pr localPath ents end_err fs
                           else downloadTree pr remotePath localPath ents end_err fs) of
                       (r, fs) \<Rightarrow> (r, fs, d_close x [body] st)))))"

end
