(* ===== verification/GoFilesProps.thy ===== *)
theory GoFilesProps
  imports GoFiles "HOL-Library.Sublist"
begin

text \<open>
  The laws of the local files: which paths a directory or a file is made at, that everything
  written for a name without \<open>..\<close> stays under the directory it is joined to, and one small tree for worked instances.
\<close>

unbundle bit_operations_syntax

text \<open>The name of what is at the elements \<open>r\<close> under a path.\<close>


definition entryPath :: "string \<Rightarrow> string list \<Rightarrow> string" where
  "entryPath en r = (if r = [] then en else pathJoin [en, joinWith ''/'' r])"


fun treeBytes :: "fnode \<Rightarrow> int" and treeBytess :: "(string \<times> fnode) list \<Rightarrow> int" where
  "treeBytes (FFile m t c) = int (length c)"
| "treeBytes (FLink m t tgt) = 0"
| "treeBytes (FDir m t es) = treeBytess es"
| "treeBytess [] = 0"
| "treeBytess ((nm, T) # es) = treeBytes T + treeBytess es"

lemma modePerm_dir [simp]: "modePerm (m OR ModeDir) = modePerm m"
proof -
  have "ModeDir AND 0x1FF = (0 :: FileMode)" by (simp add: ModeDir_def)
  then show ?thesis by (simp add: modePerm_def bit.conj_disj_distrib2)
qed


section \<open>Making directories\<close>

lemma mkdirsFrom_append:
  "mkdirsFrom pr perm pre (cs @ ds) fs =
     (case mkdirsFrom pr perm pre cs fs of
        (Some e, fs) \<Rightarrow> (Some e, fs)
      | (None, fs) \<Rightarrow> mkdirsFrom pr perm (pre @ cs) ds fs)"
  by (induction cs arbitrary: pre fs) (auto split: prod.splits option.splits)

text \<open>Every directory on the way to \<open>k\<close> and \<open>k\<close> itself is there (the root need not be listed).\<close>

definition dirPath :: "dfs \<Rightarrow> string list \<Rightarrow> bool" where
  "dirPath fs k \<longleftrightarrow> (\<forall>i. 0 < i \<and> i \<le> length k \<longrightarrow> (\<exists>m. fs (take i k) = Some (DDir m)))"

lemma dirPath_Nil [simp]: "dirPath fs []"
  by (simp add: dirPath_def)

lemma dirPath_snoc: "dirPath fs (k @ [c]) \<longleftrightarrow> dirPath fs k \<and> (\<exists>m. fs (k @ [c]) = Some (DDir m))"
  by (auto simp: dirPath_def le_Suc_eq)

lemma mkdirs_exist: "dirPath fs k \<Longrightarrow> mkdirsFrom pr perm [] k fs = (None, fs)"
  by (induction k rule: rev_induct) (auto simp: dirPath_snoc mkdirsFrom_append osMkdir_def)

lemma osMkdir_cases:
  assumes "osMkdir pr perm k fs = (e, fs')"
  shows "(fs' = fs \<or> fs k = None \<and> fs' = fs(k \<mapsto> DDir (perm AND NOT (pr_umask pr)))) \<and>
         (e = None \<longrightarrow> (\<exists>m. fs' k = Some (DDir m)))"
  using assms by (cases "fs k"; cases "inDir pr (butlast k) fs"; auto simp: osMkdir_def split: dnode.splits; metis)

lemma mkdirs_frame:
  assumes "mkdirsFrom pr perm pre cs fs = (e, fs')" and "\<nexists>i. 0 < i \<and> i \<le> length cs \<and> k = pre @ take i cs"
  shows "fs' k = fs k"
  using assms
proof (induction cs arbitrary: pre fs)
  case (Cons c cs)
  have k: "k \<noteq> pre @ [c]" using Cons.prems(2) by (metis Suc_le_mono length_Cons take0 take_Suc_Cons zero_le zero_less_Suc)
  have k': "\<nexists>i. 0 < i \<and> i \<le> length cs \<and> k = (pre @ [c]) @ take i cs"
  proof
    assume "\<exists>i. 0 < i \<and> i \<le> length cs \<and> k = (pre @ [c]) @ take i cs"
    then obtain i where "i \<le> length cs" "k = pre @ take (Suc i) (c # cs)" by auto
    with Cons.prems(2) show False by (metis Suc_le_mono length_Cons zero_less_Suc)
  qed
  obtain e1 fs1 where m: "osMkdir pr perm (pre @ [c]) fs = (e1, fs1)" by fastforce
  have "fs1 k = fs k" using osMkdir_cases [OF m] k by auto
  then show ?case
    using Cons.prems(1) Cons.IH [OF _ k'] m by (auto split: option.splits)
qed simp

lemma osMkdir_keeps:
  assumes "osMkdir pr perm k fs = (None, fs')" and "dirPath fs j"
  shows "dirPath fs' j"
proof -
  have "fs i = Some (DDir m) \<Longrightarrow> fs' i = Some (DDir m)" for i m
    using osMkdir_cases [OF assms(1)] by auto
  with assms(2) show ?thesis unfolding dirPath_def by blast
qed

lemma mkdirs_made:
  assumes "mkdirsFrom pr perm pre cs fs = (None, fs')" and "dirPath fs pre"
  shows "dirPath fs' (pre @ cs)"
  using assms
proof (induction cs arbitrary: pre fs)
  case (Cons c cs)
  obtain e1 fs1 where m: "osMkdir pr perm (pre @ [c]) fs = (e1, fs1)" by fastforce
  with Cons.prems(1) have e1: "e1 = None" "mkdirsFrom pr perm (pre @ [c]) cs fs1 = (None, fs')"
    by (auto split: option.splits)
  have "dirPath fs1 (pre @ [c])"
    unfolding dirPath_snoc using osMkdir_keeps [OF m [unfolded e1(1)] Cons.prems(2)] osMkdir_cases [OF m] e1(1) by blast
  from Cons.IH [OF e1(2) this] show ?case by simp
qed simp

lemma mkdirs_new:
  assumes "dirPath fs k" and "fs (k @ [c]) = None" and "inDir pr k fs = None"
  shows "mkdirsFrom pr perm [] (k @ [c]) fs = (None, fs(k @ [c] \<mapsto> DDir (perm AND NOT (pr_umask pr))))"
  using assms by (simp add: mkdirsFrom_append mkdirs_exist osMkdir_def)

section \<open>The keys of joined paths\<close>

lemma pathKey_under:
  assumes "p \<noteq> []" and "pr_cwd pr \<noteq> []" and "q \<noteq> []" and "rooted q = rooted p" and "pathElems q = pathElems p @ cs"
    and "list_all goodElem cs"
  shows "pathKey pr q = pathKey pr p @ cs"
  using assms by (simp add: pathKey_def pathElems_rel_under fold_cleanStep_good)

lemma pathKey_join:
  assumes "p \<noteq> []" and "pr_cwd pr \<noteq> []" and "list_all goodElem cs" and "cs \<noteq> []"
  shows "pathKey pr (pathJoin [p, joinWith ''/'' cs]) = pathKey pr p @ cs"
  by (rule pathKey_under) (use assms pathElems_join_good in simp_all)

lemma pathKey_join_dir:
  assumes "p \<noteq> []" and "pr_cwd pr \<noteq> []" and "list_all goodElem (cs @ [c])"
  shows "pathKey pr (pathDir (pathJoin [p, joinWith ''/'' (cs @ [c])])) = pathKey pr p @ cs"
    and "pathDir (pathJoin [p, joinWith ''/'' (cs @ [c])]) \<noteq> []"
proof -
  let ?q = "pathJoin [p, joinWith ''/'' (cs @ [c])]"
  note el = pathElems_join_good [OF assms(1,3)]
  have n: "normalElems (rooted p) ((pathElems p @ cs) @ [c])"
    using normal_pathElems [of ?q] el by simp
  have "?q = pathClean ?q" using assms(1) by (simp add: pathJoin_def)
  also have "\<dots> = mkPath (rooted p) ((pathElems p @ cs) @ [c])"
    unfolding pathClean_def [of ?q] using el by simp
  finally have q: "?q = mkPath (rooted p) ((pathElems p @ cs) @ [c])" .
  have d: "pathDir ?q = mkPath (rooted p) (pathElems p @ cs)"
    unfolding q using n by (rule pathDir_mkPath)
  have n': "normalElems (rooted p) (pathElems p @ cs)" using n by (rule normalElems_snocD)
  have e: "rooted (pathDir ?q) = rooted p" "pathElems (pathDir ?q) = pathElems p @ cs"
    unfolding d using rooted_mkPath [OF n'] pathElems_mkPath [OF n'] by simp_all
  have "pathDir ?q = pathClean (pathDir ?q)"
    unfolding pathClean_def [of "pathDir ?q"] e by (rule d)
  then show ne: "pathDir ?q \<noteq> []" by (metis pathClean_nonempty)
  show "pathKey pr (pathDir ?q) = pathKey pr p @ cs"
    by (rule pathKey_under) (use assms e ne in simp_all)
qed


lemma modePerm_idem [simp]: "modePerm (modePerm m) = modePerm m"
  by (simp add: modePerm_def and.assoc)


definition demo_tree :: "(string \<times> fnode) list" where
  "demo_tree = [(''a'', FFile 0x1A4 2 ''hi''), (''d'', FDir 0x1ED 3 [(''b'', FFile 0x180 4 ''x'')]), (''l'', FLink 0 5 ''a'')]"

definition demo_lf :: localfs where
  "demo_lf =
     (let nodes = map_of [(''/s'', (''s'', FDir 0x1ED 1 demo_tree)), (''/s/a'', (''a'', FFile 0x1A4 2 ''hi'')),
            (''/s/d'', (''d'', FDir 0x1ED 3 [(''b'', FFile 0x180 4 ''x'')])), (''/s/d/b'', (''b'', FFile 0x180 4 ''x'')),
            (''/s/l'', (''l'', FLink 0 5 ''a''))];
          none = ExtErr ''ENOENT''
      in \<lparr>lf_lstat = (\<lambda>p. case nodes p of None \<Rightarrow> Inl none | Some (nm, T) \<Rightarrow> Inr (nodeInfo nm T)),
          lf_names = (\<lambda>p. case nodes p of Some (nm, FDir _ _ es) \<Rightarrow> Inr (map fst es) | _ \<Rightarrow> Inl none),
          lf_open = (\<lambda>p. case nodes p of Some (nm, FFile _ _ c) \<Rightarrow> Inr (c, None)
                             | Some (nm, FLink _ _ tgt) \<Rightarrow> Inr (''target of '' @ tgt, None) | _ \<Rightarrow> Inl none)\<rparr>)"

definition demo_proc :: proc where
  "demo_proc = \<lparr>pr_cwd = ''/w'', pr_umask = 0x12, pr_root = False, pr_wfault = (\<lambda>_. None)\<rparr>"

definition demo_root :: dfs where
  "demo_root = (\<lambda>k. if k = [] then Some (DDir 0x1ED) else None)"

lemma demo_paths:
  "pathJoin [''/s'', ''a''] = ''/s/a''" "pathJoin [''/s'', ''d''] = ''/s/d''" "pathJoin [''/s'', ''l''] = ''/s/l''"
  "pathJoin [''/s/d'', ''b''] = ''/s/d/b''" "pathBase ''/srv/app'' = ''app''" "pathKey demo_proc ''/out'' = [''out'']"
  by code_simp+

lemma demo_mounted: "mounted demo_lf ''/s'' ''s'' (FDir 0x1ED 1 demo_tree)"
  by (simp add: demo_tree_def demo_paths) (simp add: demo_lf_def demo_tree_def Let_def)


section \<open>What changes where\<close>

lemma cleanStep_comparable:
  "prefix (rev st) (rev (cleanStep r c st)) \<or> prefix (rev (cleanStep r c st)) (rev st)"
  by (cases st) (auto simp: cleanStep_def)

text \<open>The key of a path, with its last element split off.\<close>

lemma pathKey_rel:
  assumes "p \<noteq> []" and "\<not> rooted p" and "pr_cwd pr \<noteq> []"
  shows "pathKey pr p = rev (fold (cleanStep (rooted (pr_cwd pr))) (splitOn CHR ''/'' p) (rev (pathElems (pr_cwd pr))))"
  using assms by (simp add: pathKey_def pathJoin_two pathElems_under)

lemma pathKey_clean:
  assumes "pr_cwd pr \<noteq> []" and "p \<noteq> []"
  shows "pathKey pr (pathClean p) = pathKey pr p"
  by (cases "rooted p") (use assms in \<open>simp_all add: pathKey_def pathElems_rel_under\<close>)

lemma pathKey_dir_comparable:
  assumes "p \<noteq> []" and "pr_cwd pr \<noteq> []"
  shows "prefix (pathKey pr (pathDir p)) (pathKey pr p) \<or> prefix (pathKey pr p) (pathKey pr (pathDir p))"
proof (cases "lastIndexByte p CHR ''/''")
  case None
  then have sl: "CHR ''/'' \<notin> set p" by simp
  then have "\<not> rooted p" by (cases p) (auto simp: rooted_def)
  moreover have "pathDir p = ''.''"
    using None by (simp add: pathDir_def pathClean_def pathElems_def mkPath_def rooted_def del: lastIndexByte_None)
  moreover have "pathKey pr ''.'' = pathElems (pr_cwd pr)"
    using pathKey_rel [of "''.''" pr] assms(2) by (simp add: rooted_def [of "''.''"])
  ultimately show ?thesis
    using cleanStep_comparable [of "rev (pathElems (pr_cwd pr))" "rooted (pr_cwd pr)" p] assms sl
    by (simp add: pathKey_rel splitOn_absent)
next
  case (Some i)
  then obtain d c where p: "p = d @ CHR ''/'' # c" "i = length d" "CHR ''/'' \<notin> set c"
    by (rule lastIndexByte_SomeE)
  have dir: "pathDir p = pathClean (d @ ''/'')" using Some p by (simp add: pathDir_def)
  show ?thesis
  proof (cases "d = []")
    case True
    have "rooted ''/''" "pathElems ''/'' = []" by (simp_all add: rooted_def pathElems_def)
    then have "pathKey pr (pathDir p) = []" using True dir by (simp add: pathKey_def)
    then show ?thesis by simp
  next
    case False
    have e: "pathElems (d @ ''/'') = pathElems d" using pathElems_under [OF False, of "[]"] by simp
    have r: "rooted p = rooted d" "rooted (d @ ''/'') = rooted d" using False p by (simp_all add: rooted_append)
    show ?thesis
    proof (cases "rooted d")
      case True
      have "pathElems p = rev (cleanStep True c (rev (pathElems d)))"
        using p True pathElems_under [OF False, of c] by (simp add: splitOn_absent)
      then show ?thesis
        using cleanStep_comparable [of "rev (pathElems d)" True c] True r dir e by (simp add: pathKey_def)
    next
      case rel: False
      let ?st = "fold (cleanStep (rooted (pr_cwd pr))) (splitOn CHR ''/'' d) (rev (pathElems (pr_cwd pr)))"
      have "pathKey pr (pathDir p) = rev ?st"
        using pathKey_clean [OF assms(2), of "d @ ''/''"] pathKey_rel [of "d @ ''/''" pr] assms(2) rel r dir
        by (simp add: splitOn_concat)
      moreover have "pathKey pr p = rev (cleanStep (rooted (pr_cwd pr)) c ?st)"
        using pathKey_rel [OF assms(1) _ assms(2)] rel r p by (simp add: splitOn_concat splitOn_absent)
      ultimately show ?thesis using cleanStep_comparable [of ?st] by simp
    qed
  qed
qed

text \<open>The elements of a name with no \<open>..\<close> in it stay under the directory it is joined to.\<close>

lemma fold_clean_no_up:
  assumes "''..'' \<notin> set cs" and "\<forall>c \<in> set cs. CHR ''/'' \<notin> set c"
  shows "\<exists>gs. list_all goodElem gs \<and> (\<forall>st. fold (cleanStep r) cs st = rev gs @ st)"
  using assms
proof (induction cs)
  case Nil
  show ?case by (rule exI [of _ "[]"]) simp
next
  case (Cons c cs)
  then obtain gs where gs: "list_all goodElem gs" "\<And>st. fold (cleanStep r) cs st = rev gs @ st" by auto
  show ?case
  proof (cases "c = [] \<or> c = ''.''")
    case True
    then have "cleanStep r c st = st" for st by auto
    then show ?thesis using gs by (intro exI [of _ gs]) simp
  next
    case False
    then have "goodElem c" using Cons.prems by (auto simp: goodElem_def)
    then show ?thesis using gs by (intro exI [of _ "c # gs"]) simp
  qed
qed

lemma pathKey_inside:
  assumes "lp \<noteq> []" and "pr_cwd pr \<noteq> []" and "''..'' \<notin> set (splitOn CHR ''/'' rel)" and "rel \<noteq> []"
  shows "prefix (pathKey pr lp) (pathKey pr (pathJoin [lp, rel]))"
proof -
  have "\<forall>c \<in> set (splitOn CHR ''/'' rel). CHR ''/'' \<notin> set c" using splitOn_parts by blast
  from fold_clean_no_up [OF assms(3) this] obtain gs
    where gs: "list_all goodElem gs" "\<And>st. fold (cleanStep (rooted lp)) (splitOn CHR ''/'' rel) st = rev gs @ st" by blast
  have "pathElems (pathJoin [lp, rel]) = pathElems lp @ gs" "rooted (pathJoin [lp, rel]) = rooted lp"
    using assms gs(2) by (simp_all add: pathJoin_two pathElems_under rooted_append)
  then have "pathKey pr (pathJoin [lp, rel]) = pathKey pr lp @ gs"
    by (intro pathKey_under) (use assms gs in simp_all)
  then show ?thesis by simp
qed

definition comparable :: "string list \<Rightarrow> string list \<Rightarrow> bool" where
  "comparable j k \<longleftrightarrow> prefix j k \<or> prefix k j"

lemma comparable_prefix: "comparable d k \<Longrightarrow> prefix j d \<Longrightarrow> comparable j k"
  by (metis comparable_def prefix_order.trans prefix_same_cases)

lemma comparable_trans: "comparable d q \<Longrightarrow> prefix k q \<Longrightarrow> comparable d k"
  by (metis comparable_def prefix_order.trans prefix_same_cases)

lemma mkdirAll_changes:
  assumes "osMkdirAll pr p perm fs = (e, fs')" and "fs' j \<noteq> fs j"
  shows "prefix j (pathKey pr p)"
proof -
  have "mkdirsFrom pr perm [] (pathKey pr p) fs = (e, fs')"
    using assms by (auto simp: osMkdirAll_def split: if_splits)
  from mkdirs_frame [OF this, of j] assms(2) obtain i where "j = take i (pathKey pr p)" by auto
  then show ?thesis by (simp add: take_is_prefix)
qed

lemma create_changes:
  assumes "osCreate pr p perm fs = (e, fs')" and "fs' j \<noteq> fs j"
  shows "j = pathKey pr p"
  using assms
  by (auto simp: osCreate_def Let_def split: option.splits dnode.splits if_splits)

lemma copy_changes:
  assumes "copyToFile pr p data rerr fs = (r, fs')" and "fs' j \<noteq> fs j"
  shows "j = pathKey pr p"
  using assms by (auto simp: copyToFile_def Let_def split: option.splits prod.splits if_splits)

lemma write_changes:
  assumes "(case osCreate pr p perm fs of
       (Some e, fs) \<Rightarrow> ((0, Some e), fs)
     | (None, fs) \<Rightarrow> copyToFile pr p data rerr fs) = (r, fs')" and "fs' j \<noteq> fs j"
  shows "j = pathKey pr p"
proof -
  obtain e fs1 where c: "osCreate pr p perm fs = (e, fs1)" by fastforce
  then show ?thesis
    using assms create_changes [OF c, of j] copy_changes [of pr p data rerr fs1 r fs' j]
    by (cases e; cases "fs1 j = fs j") auto
qed

end
