(* ===== verification/DockerCopyProps.thy ===== *)
theory DockerCopyProps
  imports DockerCopy DockerProps GoFilesProps
begin

text \<open>
  What copying in and out of containers does: the entries an upload writes for a tree of files, the files
  a download makes from them, where a download may write at all, and what happens to symbolic links.
\<close>

unbundle bit_operations_syntax

section \<open>The entries of a tree\<close>

text \<open>The entries for a tree, the links left out, and the bytes of its files.\<close>

fun tarTree :: "string \<Rightarrow> string list \<Rightarrow> fnode \<Rightarrow> tar_entry list"
  and tarTrees :: "string \<Rightarrow> string list \<Rightarrow> (string \<times> fnode) list \<Rightarrow> tar_entry list" where
  "tarTree en r (FFile m t c) =
     [(\<lparr>th_Name = entryPath en r, th_Mode = uint (modePerm m), th_Size = int (length c), th_Typeflag = TypeReg,
        th_ModTime = t\<rparr>, c)]"
| "tarTree en r (FLink m t tgt) = []"
| "tarTree en r (FDir m t es) =
     (\<lparr>th_Name = entryPath en r @ ''/'', th_Mode = uint (modePerm m), th_Size = 0, th_Typeflag = TypeDir,
       th_ModTime = t\<rparr>, []) # tarTrees en r es"
| "tarTrees en r [] = []"
| "tarTrees en r ((nm, T) # es) = tarTree en (r @ [nm]) T @ tarTrees en r es"

lemma tarDue_append: "tarDue tw = 0 \<Longrightarrow> tarDue us = 0 \<Longrightarrow> tarDue (tw @ us) = 0"
  by (cases "us = []") (simp_all add: tarDue_def)

lemma tarDue_tree [simp]: "tarDue (tarTree en r T) = 0" "tarDue (tarTrees en r es) = 0"
proof (induction T and es arbitrary: r and r rule: depth_depths.induct)
  case (3 m t es)
  have "tarDue [(\<lparr>th_Name = nm, th_Mode = md, th_Size = 0, th_Typeflag = ty, th_ModTime = t\<rparr>, [])] = 0" for nm md ty
    by (simp add: tarDue_def)
  from tarDue_append [OF this 3] show ?case by simp
next
  case (5 nm T es)
  then show ?case by (simp add: tarDue_append)
qed (simp_all add: tarDue_def)

lemma tarFile_whole:
  assumes "lf_open lf p = Inr (c, None)" and "tarDue tw = 0"
  shows "tarFile lf p name (nodeInfo nm (FFile m t c)) (tw, w) =
    (None, tw @ [(\<lparr>th_Name = name, th_Mode = uint (modePerm m), th_Size = int (length c), th_Typeflag = TypeReg,
       th_ModTime = t\<rparr>, c)], w + int (length c))"
  using assms by (simp add: tarFile_def writeHeader_def copyToTar_def tarDue_def [of "tw @ _"] Let_def)

lemma tarVisit_rel:
  assumes "rooted p = rooted src" and "pathElems p = pathElems src @ r" and "list_all goodElem r"
    and "\<not> modeIsLink (fi_Mode info)"
  shows "tarVisit lf src en p (Some info) None (tw, w) =
    (if modeIsDir (fi_Mode info) then
       (case writeHeader \<lparr>th_Name = entryPath en r @ ''/'', th_Mode = uint (modePerm (fi_Mode info)),
           th_Size = 0, th_Typeflag = TypeDir, th_ModTime = fi_ModTime info\<rparr> tw of
          (e, tw) \<Rightarrow> (e, tw, w))
     else tarFile lf p (entryPath en r) info (tw, w))"
  using joinWith_good_dot [OF assms(3)] assms(4)
  by (simp add: tarVisit_def pathRel_under [OF assms(1,2)] entryPath_def Let_def)

lemma tar_visits:
  "mounted lf p nm T \<Longrightarrow> modesOk T \<Longrightarrow> p \<noteq> [] \<Longrightarrow> rooted p = rooted src \<Longrightarrow> pathElems p = pathElems src @ r \<Longrightarrow>
     list_all goodElem r \<Longrightarrow> tarDue tw = 0 \<Longrightarrow>
     runVisits (tarVisit lf src en) (visits p nm T) (tw, w) = (None, tw @ tarTree en r T, w + treeBytes T)"
  "mounteds lf p es \<Longrightarrow> modesOks es \<Longrightarrow> p \<noteq> [] \<Longrightarrow> rooted p = rooted src \<Longrightarrow> pathElems p = pathElems src @ r \<Longrightarrow>
     list_all goodElem r \<Longrightarrow> tarDue tw = 0 \<Longrightarrow>
     runVisits (tarVisit lf src en) (visitss p es) (tw, w) = (None, tw @ tarTrees en r es, w + treeBytess es)"
proof (induction T and es arbitrary: p nm r tw w and p r tw w rule: depth_depths.induct)
  case (1 m t c)
  have "\<not> modeIsLink (fi_Mode (nodeInfo nm (FFile m t c)))" "\<not> modeIsDir (fi_Mode (nodeInfo nm (FFile m t c)))"
    using 1 by simp_all
  then show ?case
    using 1 by (simp add: tarVisit_rel tarFile_whole del: nodeInfo.simps)
next
  case (2 m t tgt)
  then show ?case by (simp add: tarVisit_def)
next
  case (3 m t es)
  have "\<not> modeIsLink (fi_Mode (nodeInfo nm (FDir m t es)))" using 3 by simp
  note visit = tarVisit_rel [OF 3(5,6,7) this, unfolded nodeInfo.simps]
  let ?hdr = "\<lparr>th_Name = entryPath en r @ ''/'', th_Mode = uint (modePerm m), th_Size = 0, th_Typeflag = TypeDir,
     th_ModTime = t\<rparr>"
  have "tarDue (tw @ [(?hdr, [])]) = 0" by (simp add: tarDue_def)
  with 3 show ?case
    by (simp add: visit writeHeader_def)
next
  case 4
  then show ?case by simp
next
  case (5 nm T es)
  have nm: "goodElem nm" using 5 by simp
  note elems = pathElems_join_name [OF 5(5) nm]
  have "runVisits (tarVisit lf src en) (visits (pathJoin [p, nm]) nm T) (tw, w) =
      (None, tw @ tarTree en (r @ [nm]) T, w + treeBytes T)"
    by (rule 5(1)) (use 5 nm elems in simp_all)
  moreover have "runVisits (tarVisit lf src en) (visitss p es) (tw @ tarTree en (r @ [nm]) T, w + treeBytes T) =
      (None, (tw @ tarTree en (r @ [nm]) T) @ tarTrees en r es, w + treeBytes T + treeBytess es)"
    by (rule 5(2)) (use 5 in \<open>simp_all add: tarDue_append\<close>)
  ultimately show ?case by (simp add: runVisits_append)
qed

text \<open>An upload of a directory writes the entries of its tree, all of them.\<close>

lemma writeTar_tree:
  assumes "mounted lf src nm (FDir m t es)" and "modesOk (FDir m t es)" and "depth (FDir m t es) \<le> n" and "src \<noteq> []"
  shows "writeTar lf n src en (nodeInfo nm (FDir m t es)) ([], 0) =
     Some (None, tarTree en [] (FDir m t es), treeBytes (FDir m t es))"
proof -
  have "lf_lstat lf src = Inr (nodeInfo nm (FDir m t es))" using assms(1) by simp
  moreover have "modeIsDir (fi_Mode (nodeInfo nm (FDir m t es)))" by simp
  ultimately show ?thesis
    using walk_visits(1) [OF assms(1-3), of "tarVisit lf src en" "([], 0)"] tar_visits(1) [OF assms(1,2,4), of src "[]" "[]" en 0]
    by (simp add: writeTar_def Walk_def tarDue_def del: mounted.simps visits.simps runVisits.simps nodeInfo.simps)
qed

lemma entryPath_base:
  assumes "goodElem b" and "list_all goodElem r" and "r \<noteq> []"
  shows "entryPath b r = b @ ''/'' @ joinWith ''/'' r"
proof -
  have b: "b \<noteq> []" "\<not> rooted b" "pathElems b = [b]"
    using assms(1) by (auto simp: goodElem_def rooted_def pathElems_def splitOn_absent split: list.splits)
  have "pathJoin [b, joinWith ''/'' r] = pathClean (pathJoin [b, joinWith ''/'' r])"
    using b(1) by (simp add: pathJoin_def)
  also have "\<dots> = mkPath False (b # r)"
    unfolding pathClean_def [of "pathJoin _"] using pathElems_join_good [OF b(1) assms(2,3)] b by simp
  finally show ?thesis using assms(3) by (cases r) (simp_all add: entryPath_def mkPath_def)
qed

lemma tarRel_entry:
  assumes "goodElem b" and "list_all goodElem r" and "r \<noteq> []"
  shows "tarRel b (entryPath b r) = joinWith ''/'' r" "tarRel b (entryPath b r @ ''/'') = joinWith ''/'' r @ ''/''"
  by (simp_all add: entryPath_base [OF assms] tarRel_def trimPrefix_def hasPrefix_def)

section \<open>The files of the entries of a tree\<close>

text \<open>What a download of the entries of \<open>T\<close> leaves at a path in it.\<close>

fun planted :: "proc \<Rightarrow> fnode \<Rightarrow> string list \<Rightarrow> dnode option" where
  "planted pr (FFile m t c) [] = Some (DFile (modePerm m AND NOT (pr_umask pr)) c)"
| "planted pr (FDir m t es) [] = Some (DDir (modePerm m AND NOT (pr_umask pr)))"
| "planted pr (FDir m t es) (c # cs) = (case map_of es c of None \<Rightarrow> None | Some T \<Rightarrow> planted pr T cs)"
| "planted pr T r = None"

text \<open>The directories in the tree can be written into once they have been made.\<close>

fun dirsOpen :: "proc \<Rightarrow> fnode \<Rightarrow> bool" and dirsOpens :: "proc \<Rightarrow> (string \<times> fnode) list \<Rightarrow> bool" where
  "dirsOpen pr (FFile m t c) = True"
| "dirsOpen pr (FLink m t tgt) = True"
| "dirsOpen pr (FDir m t es) = (dirWritable pr (modePerm m AND NOT (pr_umask pr)) \<and> dirsOpens pr es)"
| "dirsOpens pr [] = True"
| "dirsOpens pr ((nm, T) # es) = (dirsOpen pr T \<and> dirsOpens pr es)"

definition graft :: "proc \<Rightarrow> string list \<Rightarrow> fnode \<Rightarrow> dfs \<Rightarrow> dfs" where
  "graft pr k T fs = (\<lambda>j. if prefix k j then planted pr T (drop (length k) j) else fs j)"

fun grafts :: "proc \<Rightarrow> string list \<Rightarrow> (string \<times> fnode) list \<Rightarrow> dfs \<Rightarrow> dfs" where
  "grafts pr k [] fs = fs"
| "grafts pr k ((nm, T) # es) fs = grafts pr k es (graft pr (k @ [nm]) T fs)"

definition asRead :: "tar_entry list \<Rightarrow> (tarHeader \<times> string \<times> goerr option) list" where
  "asRead = map (\<lambda>(h, c). (h, c, None))"

lemma asRead_simps [simp]: "asRead [] = []" "asRead ((h, c) # es) = (h, c, None) # asRead es" "asRead (es @ fs) = asRead es @ asRead fs"
  by (simp_all add: asRead_def)

lemma graft_other: "\<not> prefix k j \<Longrightarrow> graft pr k T fs j = fs j"
  by (simp add: graft_def)

lemma grafts_other: "\<forall>nm \<in> fst ` set es. \<not> prefix (k @ [nm]) j \<Longrightarrow> grafts pr k es fs j = fs j"
  by (induction pr k es fs rule: grafts.induct) (simp_all add: graft_other)

lemma grafts_at:
  assumes "distinct (map fst es)" and "map_of es nm = Some T"
  shows "grafts pr k es fs (k @ nm # cs) = planted pr T cs"
  using assms
proof (induction pr k es fs rule: grafts.induct)
  case (2 pr k nm' T' es fs)
  show ?case
  proof (cases "nm' = nm")
    case True
    then have "grafts pr k es (graft pr (k @ [nm']) T' fs) (k @ nm # cs) = graft pr (k @ [nm']) T' fs (k @ nm # cs)"
      using 2 by (intro grafts_other) auto
    moreover have "graft pr (k @ [nm']) T' fs (k @ nm # cs) = planted pr T cs"
      using True 2 by (simp add: graft_def)
    ultimately show ?thesis by simp
  next
    case False
    then show ?thesis using 2 by simp
  qed
qed simp

text \<open>Grafting a directory is making it and grafting what is in it.\<close>

lemma graft_dir:
  assumes "distinct (map fst es)" and "\<forall>cs. fs (k @ cs) = None"
  shows "graft pr k (FDir m t es) fs = grafts pr k es (fs(k \<mapsto> DDir (modePerm m AND NOT (pr_umask pr))))"
proof
  fix j
  let ?fs = "fs(k \<mapsto> DDir (modePerm m AND NOT (pr_umask pr)))"
  show "graft pr k (FDir m t es) fs j = grafts pr k es ?fs j"
  proof (cases "prefix k j")
    case False
    then have "\<forall>nm. \<not> prefix (k @ [nm]) j" by (auto simp: prefix_def)
    then show ?thesis using False by (auto simp: graft_def grafts_other)
  next
    case True
    then obtain cs where j: "j = k @ cs" by (auto simp: prefix_def)
    show ?thesis
    proof (cases cs)
      case Nil
      then show ?thesis using j by (simp add: graft_def grafts_other)
    next
      case (Cons c cs')
      show ?thesis
      proof (cases "map_of es c")
        case None
        then have "c \<notin> fst ` set es" by (simp add: map_of_eq_None_iff)
        then have "grafts pr k es ?fs j = ?fs j"
          using j Cons by (intro grafts_other) auto
        then show ?thesis using j Cons None assms(2) by (simp add: graft_def)
      next
        case (Some T)
        then show ?thesis using grafts_at [OF assms(1) Some] j Cons by (simp add: graft_def)
      qed
    qed
  qed
qed

section \<open>Extracting\<close>

lemma headerPerm_uint [simp]:
  "headerPerm \<lparr>th_Name = nm, th_Mode = uint (modePerm m), th_Size = z, th_Typeflag = ty, th_ModTime = t\<rparr> = modePerm m"
  by (simp add: headerPerm_def)

lemma types_distinct [simp]: "TypeReg \<noteq> TypeDir" "TypeDir \<noteq> TypeReg"
  by (simp_all add: TypeReg_def TypeDir_def)

text \<open>Where the extraction stands: its directory is there, and can be written into.\<close>

definition ready :: "proc \<Rightarrow> string list \<Rightarrow> dfs \<Rightarrow> bool" where
  "ready pr k fs \<longleftrightarrow> dirPath fs k \<and> inDir pr k fs = None"

lemma extract_dir:
  assumes "goodElem b" and "lp \<noteq> []" and "pr_cwd pr \<noteq> []" and "list_all goodElem (r @ [c])"
    and "ready pr (pathKey pr lp @ r) fs" and "fs (pathKey pr lp @ r @ [c]) = None"
  shows "extractEntry pr b lp (\<lparr>th_Name = entryPath b (r @ [c]) @ ''/'', th_Mode = uint (modePerm m), th_Size = 0,
       th_Typeflag = TypeDir, th_ModTime = t\<rparr>, [], None) fs =
     ((0, None), fs(pathKey pr lp @ r @ [c] \<mapsto> DDir (modePerm m AND NOT (pr_umask pr))))"
proof -
  let ?out = "pathJoin [lp, joinWith ''/'' (r @ [c])]"
  have rel: "tarRel b (entryPath b (r @ [c]) @ ''/'') = joinWith ''/'' (r @ [c]) @ ''/''"
    using tarRel_entry(2) [OF assms(1,4)] by simp
  have out: "pathJoin [lp, joinWith ''/'' (r @ [c]) @ ''/''] = ?out"
    using pathElems_join_dir [OF assms(2,4)] by simp
  have "osMkdirAll pr ?out (modePerm m) fs = (None, fs(pathKey pr lp @ r @ [c] \<mapsto> DDir (modePerm m AND NOT (pr_umask pr))))"
    using mkdirs_new [of fs "pathKey pr lp @ r" c pr] assms pathKey_join [of lp pr "r @ [c]"]
    by (simp add: osMkdirAll_def ready_def)
  then show ?thesis by (simp add: extractEntry_def rel out)
qed

lemma extract_file:
  assumes "goodElem b" and "lp \<noteq> []" and "pr_cwd pr \<noteq> []" and "list_all goodElem (r @ [c])"
    and "ready pr (pathKey pr lp @ r) fs" and "fs (pathKey pr lp @ r @ [c]) = None" and "pr_wfault pr = (\<lambda>_. None)"
  shows "extractEntry pr b lp (\<lparr>th_Name = entryPath b (r @ [c]), th_Mode = uint (modePerm m), th_Size = z,
       th_Typeflag = TypeReg, th_ModTime = t\<rparr>, data, None) fs =
     ((int (length data), None), fs(pathKey pr lp @ r @ [c] \<mapsto> DFile (modePerm m AND NOT (pr_umask pr)) data))"
proof -
  let ?out = "pathJoin [lp, joinWith ''/'' (r @ [c])]"
  have rel: "tarRel b (entryPath b (r @ [c])) = joinWith ''/'' (r @ [c])" "joinWith ''/'' (r @ [c]) \<noteq> []"
    using tarRel_entry(1) [OF assms(1,4)] joinWith_good_ne [OF assms(4)] by simp_all
  have key: "pathKey pr ?out = pathKey pr lp @ r @ [c]"
    using pathKey_join [OF assms(2,3,4)] by simp
  note dir = pathKey_join_dir [OF assms(2,3,4)]
  have "osMkdirAll pr (pathDir ?out) 0x1ED fs = (None, fs)"
    using assms(5) dir by (simp add: osMkdirAll_def ready_def mkdirs_exist)
  moreover have "osCreate pr ?out (modePerm m) fs =
      (None, fs(pathKey pr lp @ r @ [c] \<mapsto> DFile (modePerm m AND NOT (pr_umask pr)) []))"
    using assms(2,5,6) butlast_snoc [of "pathKey pr lp @ r" c]
    by (simp add: osCreate_def key ready_def Let_def del: butlast_snoc)
  ultimately show ?thesis
    using rel dir(2) assms(7)
    by (simp add: extractEntry_def Let_def copyToFile_def key fileMode_def)
qed

lemma ready_other:
  assumes "ready pr k fs" and "\<forall>j. prefix j k \<longrightarrow> fs' j = fs j"
  shows "ready pr k fs'"
proof -
  have "fs' (take i k) = fs (take i k)" for i using assms(2) take_is_prefix by blast
  moreover have "fs' k = fs k" using assms(2) by simp
  ultimately show ?thesis using assms(1) by (simp add: ready_def dirPath_def inDir_def)
qed

lemma ready_made:
  assumes "ready pr k fs" and "dirWritable pr m"
  shows "ready pr (k @ [c]) (fs(k @ [c] \<mapsto> DDir m))"
proof -
  have "dirPath (fs(k @ [c] \<mapsto> DDir m)) k"
    using assms(1) by (auto simp: ready_def dirPath_def)
  then show ?thesis using assms(2) by (simp add: ready_def dirPath_snoc inDir_def)
qed

text \<open>Extracting the entries of a tree grafts the tree, whatever entries follow.\<close>

lemma extract_tree:
  assumes "goodElem b" and "lp \<noteq> []" and "pr_cwd pr \<noteq> []" and "pr_wfault pr = (\<lambda>_. None)"
  shows "modesOk T \<Longrightarrow> dirsOpen pr T \<Longrightarrow> list_all goodElem (r @ [c]) \<Longrightarrow> ready pr (pathKey pr lp @ r) fs \<Longrightarrow>
      \<forall>cs. fs ((pathKey pr lp @ r @ [c]) @ cs) = None \<Longrightarrow>
      extractLoop pr b lp (asRead (tarTree b (r @ [c]) T) @ rest) e tot fs =
        extractLoop pr b lp rest e (tot + treeBytes T) (graft pr (pathKey pr lp @ r @ [c]) T fs)"
    and "modesOks es \<Longrightarrow> distinct (map fst es) \<Longrightarrow> dirsOpens pr es \<Longrightarrow> list_all goodElem r \<Longrightarrow> ready pr (pathKey pr lp @ r) fs \<Longrightarrow>
      \<forall>nm \<in> fst ` set es. \<forall>cs. fs ((pathKey pr lp @ r @ [nm]) @ cs) = None \<Longrightarrow>
      extractLoop pr b lp (asRead (tarTrees b r es) @ rest) e tot fs =
        extractLoop pr b lp rest e (tot + treeBytess es) (grafts pr (pathKey pr lp @ r) es fs)"
proof (induction T and es arbitrary: r c fs tot rest and r fs tot rest rule: depth_depths.induct)
  case (1 m t d)
  have "fs (pathKey pr lp @ r @ [c]) = None" using 1(5) [rule_format, of "[]"] by simp
  note step = extract_file [OF assms(1-3) 1(3,4) this assms(4)]
  have g: "graft pr (pathKey pr lp @ r @ [c]) (FFile m t d) fs =
      fs(pathKey pr lp @ r @ [c] \<mapsto> DFile (modePerm m AND NOT (pr_umask pr)) d)"
  proof
    fix j
    show "graft pr (pathKey pr lp @ r @ [c]) (FFile m t d) fs j =
      (fs(pathKey pr lp @ r @ [c] \<mapsto> DFile (modePerm m AND NOT (pr_umask pr)) d)) j"
    proof (cases "prefix (pathKey pr lp @ r @ [c]) j")
      case True
      then obtain cs where "j = (pathKey pr lp @ r @ [c]) @ cs" unfolding prefix_def by blast
      then show ?thesis using 1(5) [rule_format, of cs] by (cases cs) (simp_all add: graft_def)
    qed (auto simp: graft_def)
  qed
  show ?case unfolding g by (simp add: step fun_upd_def)
next
  case (2 m t tgt)
  have "graft pr (pathKey pr lp @ r @ [c]) (FLink m t tgt) fs = fs"
  proof
    fix j
    show "graft pr (pathKey pr lp @ r @ [c]) (FLink m t tgt) fs j = fs j"
      using 2(5) by (auto simp: graft_def prefix_def)
  qed
  then show ?case by simp
next
  case (3 m t es)
  let ?k = "pathKey pr lp @ r @ [c]"
  let ?fs = "fs(?k \<mapsto> DDir (modePerm m AND NOT (pr_umask pr)))"
  have "fs ?k = None" using 3(6) [rule_format, of "[]"] by simp
  note step = extract_dir [OF assms(1-3) 3(4,5) this]
  have "ready pr (pathKey pr lp @ (r @ [c])) ?fs"
    using ready_made [OF 3(5)] 3(3) by simp
  then have "extractLoop pr b lp (asRead (tarTrees b (r @ [c]) es) @ rest) e tot ?fs =
      extractLoop pr b lp rest e (tot + treeBytess es) (grafts pr (pathKey pr lp @ (r @ [c])) es ?fs)"
    by (intro 3(1)) (use 3 in \<open>simp_all add: fun_upd_def\<close>)
  moreover have "graft pr ?k (FDir m t es) fs = grafts pr ?k es ?fs"
    using graft_dir [of es fs ?k pr m t] 3 by simp
  ultimately show ?case using step by simp
next
  case 4
  then show ?case by simp
next
  case (5 nm T es)
  let ?K = "pathKey pr lp @ r"
  let ?fs = "graft pr (?K @ [nm]) T fs"
  have keep: "?fs j = fs j" if "\<not> prefix (?K @ [nm]) j" for j
    using that by (simp add: graft_other)
  have "extractLoop pr b lp (asRead (tarTree b (r @ [nm]) T) @ asRead (tarTrees b r es) @ rest) e tot fs =
      extractLoop pr b lp (asRead (tarTrees b r es) @ rest) e (tot + treeBytes T) ?fs"
    using 5(1) [of r nm fs] 5 by simp
  also have "\<dots> = extractLoop pr b lp rest e (tot + treeBytes T + treeBytess es) (grafts pr ?K es ?fs)"
  proof (rule 5(2))
    show "ready pr ?K ?fs"
    proof (rule ready_other [OF 5(7)], intro allI impI keep notI)
      fix j assume "prefix j ?K" and "prefix (?K @ [nm]) j"
      then show False by (metis length_append_singleton not_less_eq_eq order_refl prefix_length_le prefix_order.trans)
    qed
    show "\<forall>nm' \<in> fst ` set es. \<forall>cs. ?fs ((pathKey pr lp @ r @ [nm']) @ cs) = None"
    proof (intro ballI allI)
      fix nm' cs assume nm': "nm' \<in> fst ` set es"
      then have "nm' \<noteq> nm" using 5(4) by auto
      then show "?fs ((pathKey pr lp @ r @ [nm']) @ cs) = None"
        using 5(8) nm' by (subst keep) auto
    qed
  qed (use 5 in simp_all)
  finally show ?case by (simp add: add.assoc)
qed

section \<open>Up and down again\<close>

lemma trimRightSlash_idem: "trimRightSlash (trimRightSlash p) = trimRightSlash p"
  by (simp add: trimRightSlash_def)

lemma pathBase_trim:
  assumes "goodElem (pathBase p)"
  shows "pathBase (trimRightSlash p) = pathBase p"
proof -
  have "trimRightSlash p \<noteq> []"
  proof
    assume "trimRightSlash p = []"
    then have "pathBase p = ''.'' \<or> pathBase p = ''/''" by (simp add: pathBase_def)
    with assms show False by (auto simp: goodElem_def)
  qed
  moreover from this have "p \<noteq> []" by (auto simp: trimRightSlash_def)
  ultimately show ?thesis by (simp add: pathBase_def trimRightSlash_idem)
qed

lemma download_tree:
  assumes "modesOk (FDir m t es)" and "dirsOpens pr es" and "goodElem (pathBase remote)" and "lp \<noteq> []" and "pr_cwd pr \<noteq> []"
    and "pr_wfault pr = (\<lambda>_. None)" and "osMkdirAll pr lp 0x1ED fs = (None, fs1)" and "inDir pr (pathKey pr lp) fs1 = None"
    and "\<forall>c cs. fs (pathKey pr lp @ c # cs) = None"
  shows "downloadTree pr remote lp (asRead (tarTree (pathBase remote) [] (FDir m t es))) IoEOF fs =
     ((treeBytes (FDir m t es), None), grafts pr (pathKey pr lp) es fs1)"
proof -
  let ?b = "pathBase remote"
  have mk: "mkdirsFrom pr 0x1ED [] (pathKey pr lp) fs = (None, fs1)"
    using assms(4,7) by (simp add: osMkdirAll_def)
  have "dirPath fs1 (pathKey pr lp)"
    using mkdirs_made [OF mk] by simp
  then have ready: "ready pr (pathKey pr lp @ []) fs1" using assms(8) by (simp add: ready_def)
  have fresh: "fs1 (pathKey pr lp @ c # cs) = None" for c cs
  proof -
    have "fs1 (pathKey pr lp @ c # cs) = fs (pathKey pr lp @ c # cs)"
      by (rule mkdirs_frame [OF mk]) (auto dest: arg_cong [of _ _ length])
    then show ?thesis using assms(9) by simp
  qed
  have root: "extractEntry pr ?b lp (\<lparr>th_Name = entryPath ?b [] @ ''/'', th_Mode = uint (modePerm m), th_Size = 0,
      th_Typeflag = TypeDir, th_ModTime = t\<rparr>, [], None) fs1 = ((0, None), fs1)"
    by (simp add: extractEntry_def entryPath_def tarRel_def trimPrefix_def hasPrefix_def)
  have "extractLoop pr ?b lp (asRead (tarTrees ?b [] es) @ []) IoEOF 0 fs1 =
      extractLoop pr ?b lp [] IoEOF (0 + treeBytess es) (grafts pr (pathKey pr lp @ []) es fs1)"
    by (rule extract_tree(2) [OF assms(3-6) _ _ assms(2) _ ready]) (use assms(1) fresh in simp_all)
  then show ?thesis
    by (simp add: downloadTree_def pathBase_trim [OF assms(3)] assms(7) root)
qed

text \<open>
  C25. Uploading a directory and downloading it again: the archive \<open>Upload\<close> writes for a tree of
  files, fetched back by \<open>Download\<close> into an empty directory, puts at every path exactly the file, with its bytes
  and permission bits (less the umask), or the directory that was there, and nothing else; symbolic links are left out.
  It needs that every directory in the tree may be written into by its owner.
\<close>

theorem upload_download_roundtrip:
  assumes "mounted lf src nm (FDir m t es)" and "modesOk (FDir m t es)" and "depth (FDir m t es) \<le> n" and "src \<noteq> []"
    and "dirsOpens pr es" and "goodElem (pathBase remote)" and "lp \<noteq> []" and "pr_cwd pr \<noteq> []"
    and "pr_wfault pr = (\<lambda>_. None)" and "osMkdirAll pr lp 0x1ED fs = (None, fs1)" and "inDir pr (pathKey pr lp) fs1 = None"
    and "\<forall>c cs. fs (pathKey pr lp @ c # cs) = None"
  shows "\<exists>tw fs'. writeTar lf n src (pathBase remote) (nodeInfo nm (FDir m t es)) ([], 0) = Some (None, tw, treeBytes (FDir m t es))
     \<and> tarEnd None tw = TarTrailer
     \<and> downloadTree pr remote lp (map (\<lambda>(h, c). (h, c, None)) tw) IoEOF fs = ((treeBytes (FDir m t es), None), fs')
     \<and> (\<forall>c cs. fs' (pathKey pr lp @ c # cs) = planted pr (FDir m t es) (c # cs))"
proof -
  let ?tw = "tarTree (pathBase remote) [] (FDir m t es)" and ?fs = "grafts pr (pathKey pr lp) es fs1"
  have mk: "mkdirsFrom pr 0x1ED [] (pathKey pr lp) fs = (None, fs1)"
    using assms(7,10) by (simp add: osMkdirAll_def)
  have at: "?fs (pathKey pr lp @ c # cs) = planted pr (FDir m t es) (c # cs)" for c cs
  proof (cases "map_of es c")
    case None
    then have "c \<notin> fst ` set es" by (simp add: map_of_eq_None_iff)
    then have "?fs (pathKey pr lp @ c # cs) = fs1 (pathKey pr lp @ c # cs)" by (intro grafts_other) auto
    also have "\<dots> = fs (pathKey pr lp @ c # cs)"
      by (rule mkdirs_frame [OF mk]) (auto dest: arg_cong [of _ _ length])
    finally show ?thesis using None assms(12) by simp
  next
    case (Some T)
    then show ?thesis using grafts_at [of es c T] assms(2) by simp
  qed
  have "writeTar lf n src (pathBase remote) (nodeInfo nm (FDir m t es)) ([], 0) =
      Some (None, ?tw, treeBytes (FDir m t es))"
    by (rule writeTar_tree) (rule assms)+
  moreover have "downloadTree pr remote lp (map (\<lambda>(h, c). (h, c, None)) ?tw) IoEOF fs =
      ((treeBytes (FDir m t es), None), ?fs)"
    unfolding asRead_def [symmetric] by (rule download_tree) (rule assms)+
  moreover have "tarEnd None ?tw = TarTrailer"
    using tarDue_tree(1) by (simp add: tarEnd_def del: tarTree.simps)
  ultimately show ?thesis using at by blast
qed

lemma demo_modes: "modesOk (FDir 0x1ED 1 demo_tree)" "dirsOpens demo_proc demo_tree" "depth (FDir 0x1ED 1 demo_tree) \<le> 3"
  by (simp_all add: demo_tree_def modeIsDir_def modeIsLink_def ModeDir_def ModeSymlink_def goodElem_def dirWritable_def
      demo_proc_def modePerm_def)

lemma demo_dest:
  "osMkdirAll demo_proc ''/out'' 0x1ED demo_root = (None, demo_root([''out''] \<mapsto> DDir 0x1ED))"
  "inDir demo_proc [''out''] (demo_root([''out''] \<mapsto> DDir 0x1ED)) = None"
  by (simp_all add: osMkdirAll_def demo_paths osMkdir_def inDir_def demo_root_def dirWritable_def) (simp add: demo_proc_def)

theorem upload_download_roundtrip_witness:
  "\<exists>tw fs'. writeTar demo_lf 3 ''/s'' (pathBase ''/srv/app'') (nodeInfo ''s'' (FDir 0x1ED 1 demo_tree)) ([], 0) =
       Some (None, tw, treeBytes (FDir 0x1ED 1 demo_tree))
     \<and> tarEnd None tw = TarTrailer
     \<and> downloadTree demo_proc ''/srv/app'' ''/out'' (map (\<lambda>(h, c). (h, c, None)) tw) IoEOF demo_root =
         ((treeBytes (FDir 0x1ED 1 demo_tree), None), fs')
     \<and> (\<forall>c cs. fs' (pathKey demo_proc ''/out'' @ c # cs) = planted demo_proc (FDir 0x1ED 1 demo_tree) (c # cs))"
  by (rule upload_download_roundtrip [OF demo_mounted demo_modes(1,3) _ demo_modes(2) _ _ _ _ demo_dest(1)])
    (simp_all add: demo_paths demo_dest goodElem_def, simp_all add: demo_proc_def demo_root_def)

section \<open>Where a download may write\<close>

lemma extractEntry_changes:
  assumes "extractEntry pr rp lp (hdr, data, rerr) fs = (r, fs')" and "fs' j \<noteq> fs j"
    and "lp \<noteq> []" and "pr_cwd pr \<noteq> []" and "''..'' \<notin> set (splitOn CHR ''/'' (tarRel rp (th_Name hdr)))"
  shows "comparable j (pathKey pr lp)"
proof -
  let ?rel = "tarRel rp (th_Name hdr)"
  let ?out = "pathJoin [lp, ?rel]"
  have rel: "?rel \<noteq> []" using assms(1,2) by (auto simp: extractEntry_def)
  have inside: "prefix (pathKey pr lp) (pathKey pr ?out)" by (rule pathKey_inside [OF assms(3-5) rel])
  have "comparable (pathKey pr (pathDir ?out)) (pathKey pr ?out)"
    using pathKey_dir_comparable [OF _ assms(4), of ?out] assms(3) by (simp add: comparable_def)
  then have dir: "comparable (pathKey pr (pathDir ?out)) (pathKey pr lp)"
    using inside by (rule comparable_trans)
  show ?thesis
  proof (cases "th_Typeflag hdr = TypeDir")
    case True
    then obtain e where "osMkdirAll pr ?out (headerPerm hdr) fs = (e, fs')"
      using assms(1) rel by (auto simp: extractEntry_def Let_def split: prod.splits)
    from mkdirAll_changes [OF this assms(2)] inside show ?thesis
      by (metis comparable_def prefix_same_cases)
  next
    case False
    define fs1 where "fs1 = (if pathDir ?out \<noteq> [] then snd (osMkdirAll pr (pathDir ?out) 0x1ED fs) else fs)"
    have reg: "th_Typeflag hdr = TypeReg \<or> th_Typeflag hdr = TypeRegA"
      using assms(1,2) False by (auto simp: extractEntry_def Let_def split: if_splits)
    have wr: "(case osCreate pr ?out (headerPerm hdr) fs1 of
        (Some e, fs) \<Rightarrow> ((0, Some e), fs) | (None, fs) \<Rightarrow> copyToFile pr ?out data rerr fs) = (r, fs')"
      using assms(1) rel False reg unfolding fs1_def extractEntry_def Let_def prod.case by (simp only: if_False if_True)
    show ?thesis
    proof (cases "fs' j = fs1 j")
      case False
      from write_changes [OF wr this] inside show ?thesis by (simp add: comparable_def)
    next
      case True
      with assms(2) have "prefix j (pathKey pr (pathDir ?out))"
        using mkdirAll_changes [of pr "pathDir ?out" "0x1ED" fs _ fs1 j]
        by (auto simp: fs1_def prod_eq_iff split: if_splits)
      with dir show ?thesis by (rule comparable_prefix)
    qed
  qed
qed

lemma extractLoop_changes:
  assumes "extractLoop pr rp lp ents e tot fs = (r, fs')" and "fs' j \<noteq> fs j"
    and "lp \<noteq> []" and "pr_cwd pr \<noteq> []" and "\<forall>ent \<in> set ents. ''..'' \<notin> set (splitOn CHR ''/'' (tarRel rp (th_Name (fst ent))))"
  shows "comparable j (pathKey pr lp)"
  using assms(1,2,5)
proof (induction ents arbitrary: tot fs)
  case (Cons ent ents)
  obtain hdr data rerr where ent: "ent = (hdr, data, rerr)" by (cases ent)
  obtain n er fs1 where x: "extractEntry pr rp lp (hdr, data, rerr) fs = ((n, er), fs1)" by (metis prod.collapse)
  show ?case
  proof (cases "fs1 j = fs j")
    case False
    from extractEntry_changes [OF x this assms(3,4)] Cons.prems(3) ent show ?thesis by simp
  next
    case True
    then show ?thesis
      using Cons x ent by (cases er) auto
  qed
qed simp

text \<open>
  C32. \<open>Download\<close> of a directory writes only at or under \<open>localPath\<close> (and makes the directories that lead to it) as long as no entry
  of the archive has an element \<open>..\<close> in its name, whatever else the docker daemon sends.
\<close>

theorem download_confined:
  assumes "downloadTree pr remote lp ents end_err fs = (r, fs')" and "fs' j \<noteq> fs j" and "lp \<noteq> []" and "pr_cwd pr \<noteq> []"
    and "\<forall>ent \<in> set ents. ''..'' \<notin> set (splitOn CHR ''/'' (tarRel (pathBase (trimRightSlash remote)) (th_Name (fst ent))))"
  shows "prefix (pathKey pr lp) j \<or> prefix j (pathKey pr lp)"
proof -
  obtain e fs1 where mk: "osMkdirAll pr lp 0x1ED fs = (e, fs1)" by fastforce
  show ?thesis
  proof (cases "fs1 j = fs j")
    case False
    from mkdirAll_changes [OF mk this] show ?thesis by simp
  next
    case True
    then have "extractLoop pr (pathBase (trimRightSlash remote)) lp ents end_err 0 fs1 = (r, fs')" "fs' j \<noteq> fs1 j"
      using assms(1,2) mk by (cases e; simp add: downloadTree_def)+
    from extractLoop_changes [OF this assms(3-5)] show ?thesis by (auto simp: comparable_def)
  qed
qed

definition demo_entry :: "string \<Rightarrow> tarHeader \<times> string \<times> goerr option" where
  "demo_entry nm = (\<lparr>th_Name = nm, th_Mode = 0x1A4, th_Size = 2, th_Typeflag = TypeReg, th_ModTime = 1\<rparr>, ''hi'', None)"

lemma demo_download:
  "snd (downloadTree demo_proc ''/srv/app'' ''/out'' [demo_entry ''app/a''] IoEOF demo_root) [''out'', ''a''] =
     Some (DFile 0x1A4 ''hi'')"
  by code_simp

theorem download_confined_witness:
  "snd (downloadTree demo_proc ''/srv/app'' ''/out'' [demo_entry ''app/a''] IoEOF demo_root) [''out'', ''a''] \<noteq>
     demo_root [''out'', ''a'']
   \<and> (prefix (pathKey demo_proc ''/out'') [''out'', ''a''] \<or> prefix [''out'', ''a''] (pathKey demo_proc ''/out''))"
proof -
  let ?d = "downloadTree demo_proc ''/srv/app'' ''/out'' [demo_entry ''app/a''] IoEOF demo_root"
  have changed: "snd ?d [''out'', ''a''] \<noteq> demo_root [''out'', ''a'']"
    unfolding demo_download by (simp add: demo_root_def)
  have "''..'' \<notin> set (splitOn CHR ''/'' (tarRel (pathBase (trimRightSlash ''/srv/app'')) ''app/a''))" by code_simp
  then have clean: "\<forall>ent \<in> set [demo_entry ''app/a'']. ''..'' \<notin> set (splitOn CHR ''/''
      (tarRel (pathBase (trimRightSlash ''/srv/app'')) (th_Name (fst ent))))"
    by (simp add: demo_entry_def)
  have "?d = (fst ?d, snd ?d)" by simp
  from download_confined [OF this changed _ _ clean] changed show ?thesis by (simp add: demo_proc_def)
qed

text \<open>
  Without that condition it does not hold: an entry named with \<open>..\<close> is written outside of \<open>localPath\<close>.
\<close>

theorem download_escapes:
  "snd (downloadTree demo_proc ''/srv/app'' ''/out'' [demo_entry ''app/../../etc/x''] IoEOF demo_root) [''etc'', ''x''] =
     Some (DFile 0x1A4 ''hi'')"
  by code_simp

text \<open>
  A directory that its owner may not write into (mode 0555 here) is made with that mode before its files are, so that
  the download of the archive of such a tree stops at the first of them.
\<close>

theorem download_readonly_dir:
  "fst (downloadTree demo_proc ''/srv/app'' ''/out''
     (asRead (tarTree ''app'' [] (FDir 0x1ED 1 [(''d'', FDir 0x16D 2 [(''f'', FFile 0x1A4 3 ''x'')])]))) IoEOF demo_root) =
   (0, Some (ExtErr ''EACCES''))"
  by code_simp

text \<open>
  Symbolic links are skipped inside a tree, but not where the path given is one itself: an upload opens it, which
  follows it, and writes what it finds there as a regular file; a download makes an empty file.
\<close>

theorem upload_follows_link:
  assumes "modeIsLink (fi_Mode info)" and "\<not> modeIsDir (fi_Mode info)" and "lf_open lf src = Inr (data, None)"
    and "int (length data) \<le> fi_Size info"
  shows "writeTar lf n src en info ([], 0) =
     Some (None, [(\<lparr>th_Name = en, th_Mode = uint (modePerm (fi_Mode info)), th_Size = fi_Size info,
       th_Typeflag = TypeReg, th_ModTime = fi_ModTime info\<rparr>, data)], int (length data))"
  using assms by (simp add: writeTar_def tarFile_def writeHeader_def copyToTar_def tarDue_def Let_def)

theorem download_link_empty:
  assumes "th_Typeflag hdr = TypeSymlink" and "osCreate pr lp 0x1B6 (snd (osMkdirAll pr (pathDir lp) 0x1ED fs)) = (None, fs1)"
    and "pr_wfault pr = (\<lambda>_. None)" and "pathDir lp \<noteq> ''.''" and "pathDir lp \<noteq> []"
  shows "\<exists>fs' m. downloadOne pr lp [(hdr, [], None)] IoEOF fs = ((0, None), fs') \<and> fs' (pathKey pr lp) = Some (DFile m [])"
  using assms by (simp add: downloadOne_def Let_def copyToFile_def)

section \<open>What a copy leaves open\<close>

lemma dockerUpload_frame:
  assumes "dockerUpload z lf n p cid local remote st = Some (r, st')"
  shows "live (d_io st') = live (d_io st)" "hosts st' = hosts st" "hst st' = hst st" "dsh st' = dsh st" "d_nxt st' = d_nxt st"
  using assms
  by (auto simp: dockerUpload_def d_call_def io_call_def split: sum.splits option.splits prod.splits)

lemma dockerDownload_frame:
  assumes "dockerDownload x z pr p cid remote local fs st = (r, fs', st')" and "io_ok (d_io st)"
  shows "live (d_io st') = live (d_io st)" "hosts st' = hosts st" "hst st' = hst st" "dsh st' = dsh st" "d_nxt st' = d_nxt st"
proof -
  have "next_h (d_io st) \<notin> live (d_io st)" using assms(2) by (auto simp: io_ok_def)
  then show "live (d_io st') = live (d_io st)" "hosts st' = hosts st" "hst st' = hst st" "dsh st' = dsh st" "d_nxt st' = d_nxt st"
    using assms(1)
    by (auto simp: dockerDownload_def d_call_def io_open_def d_close_def split: sum.splits option.splits prod.splits)
qed

end
