(* ===== verification/DockerContainer.thy ===== *)
theory DockerContainer
  imports DockerCopyProps
begin

text \<open>
  \<open>internal/dockerx/container.go\<close>: listing, inspecting and driving containers, their logs, and one-shot
  commands in them.  The docker client and \<open>stdcopy\<close> are parameters.
\<close>

section \<open>Containers as listed\<close>

record ContainerPort =
  cp_IP :: string
  cp_PrivatePort :: nat
  cp_PublicPort :: nat
  cp_Type :: string

record ContainerSummary =
  cs_ID :: string
  cs_Names :: "string list"
  cs_Image :: string
  cs_Command :: string
  cs_State :: string
  cs_Status :: string
  cs_Created :: int
  cs_Ports :: "ContainerPort list"
  cs_Labels :: "string gomap"

record ContainerRow =
  cro_ID :: string
  cro_Name :: string
  cro_Image :: string
  cro_State :: string
  cro_Status :: string
  cro_Ports :: string

definition portText :: "ContainerPort \<Rightarrow> string" where
  "portText p =
     (if cp_PublicPort p \<noteq> 0 then
        (if cp_IP p \<noteq> [] then
           cp_IP p @ '':'' @ nat_dec (cp_PublicPort p) @ ''->'' @ nat_dec (cp_PrivatePort p) @ ''/'' @ cp_Type p
         else nat_dec (cp_PublicPort p) @ ''->'' @ nat_dec (cp_PrivatePort p) @ ''/'' @ cp_Type p)
      else nat_dec (cp_PrivatePort p) @ ''/'' @ cp_Type p)"

definition containerRow :: "ContainerSummary \<Rightarrow> ContainerRow" where
  "containerRow c =
     \<lparr>cro_ID = (if length (cs_ID c) > 12 then take 12 (cs_ID c) else cs_ID c),
      cro_Name = (case cs_Names c of [] \<Rightarrow> [] | n # _ \<Rightarrow> trimPrefix n ''/''),
      cro_Image = cs_Image c, cro_State = cs_State c, cro_Status = cs_Status c,
      cro_Ports = joinWith '','' (map portText (cs_Ports c))\<rparr>"

text \<open>What the daemon lists; an address that is not valid is \<open>None\<close>.\<close>

record port_item =
  pi_IP :: "string option"
  pi_PrivatePort :: nat
  pi_PublicPort :: nat
  pi_Type :: string

record container_item =
  ci_ID :: string
  ci_Names :: "string list"
  ci_Image :: string
  ci_Command :: string
  ci_State :: string
  ci_Status :: string
  ci_Created :: int
  ci_Ports :: "port_item list"
  ci_Labels :: "string gomap"

definition summaryToOurs :: "container_item \<Rightarrow> ContainerSummary" where
  "summaryToOurs s =
     \<lparr>cs_ID = ci_ID s, cs_Names = ci_Names s, cs_Image = ci_Image s, cs_Command = ci_Command s,
      cs_State = ci_State s, cs_Status = ci_Status s, cs_Created = ci_Created s * 1000000000,
      cs_Ports = map (\<lambda>p. \<lparr>cp_IP = (case pi_IP p of None \<Rightarrow> [] | Some a \<Rightarrow> a), cp_PrivatePort = pi_PrivatePort p,
                            cp_PublicPort = pi_PublicPort p, cp_Type = pi_Type p\<rparr>) (ci_Ports s),
      cs_Labels = ci_Labels s\<rparr>"

section \<open>The docker client's container calls\<close>

record LogsOptions =
  lo_Tail :: string
  lo_Since :: string
  lo_Until :: string
  lo_Timestamps :: bool
  lo_Stdout :: bool
  lo_Stderr :: bool

record DExecOptions =
  eo_Cmd :: "string list"
  eo_WorkingDir :: string
  eo_Env :: "string gomap"
  eo_User :: string
  eo_Stdin :: string

record ExecReq =
  er_Cmd :: "string list"
  er_Env :: "string list"
  er_User :: string
  er_WorkingDir :: string
  er_AttachStdin :: bool

record DExecResult =
  ex_Stdout :: string
  ex_Stderr :: string
  ex_ExitCode :: int

text \<open>
  How the copying of a command's output ends: it is finished, with what the two streams gave and perhaps an
  error, or the caller's context was cancelled first.
\<close>

datatype exec_outcome = CopyDone string string "goerr option" | CtxDone

text \<open>
  \<open>k_tty\<close> is what \<open>ContainerInspect\<close> says of \<open>Config.Tty\<close> (false when there is no config);
  \<open>k_demux\<close> is \<open>stdcopy.StdCopy\<close> on a stream of bytes and the error that ends it.
\<close>

record ('w, 'ins) kext =
  k_list :: "handle \<Rightarrow> bool \<Rightarrow> int \<Rightarrow> string list gomap \<Rightarrow> 'w \<Rightarrow> container_item list res \<times> 'w"
  k_inspect :: "handle \<Rightarrow> string \<Rightarrow> 'w \<Rightarrow> 'ins res \<times> 'w"
  k_tty :: "'ins \<Rightarrow> bool"
  k_start :: "handle \<Rightarrow> string \<Rightarrow> 'w query"
  k_stop :: "handle \<Rightarrow> string \<Rightarrow> int option \<Rightarrow> 'w query"
  k_restart :: "handle \<Rightarrow> string \<Rightarrow> int option \<Rightarrow> 'w query"
  k_kill :: "handle \<Rightarrow> string \<Rightarrow> string \<Rightarrow> 'w query"
  k_remove :: "handle \<Rightarrow> string \<Rightarrow> bool \<Rightarrow> bool \<Rightarrow> 'w query"
  k_logs :: "handle \<Rightarrow> string \<Rightarrow> LogsOptions \<Rightarrow> 'w query"
  k_log_data :: "handle \<Rightarrow> 'w \<Rightarrow> (string \<times> goerr option) \<times> 'w"
  k_demux :: "string \<Rightarrow> goerr option \<Rightarrow> string \<times> string \<times> goerr option"
  k_exec_create :: "handle \<Rightarrow> string \<Rightarrow> ExecReq \<Rightarrow> 'w \<Rightarrow> string res \<times> 'w"
  k_exec_attach :: "handle \<Rightarrow> string \<Rightarrow> 'w query"
  k_exec_io :: "handle \<Rightarrow> string \<Rightarrow> 'w \<Rightarrow> exec_outcome \<times> 'w"
  k_exec_inspect :: "handle \<Rightarrow> string \<Rightarrow> 'w \<Rightarrow> int res \<times> 'w"

section \<open>Host's container methods\<close>

text \<open>A method that asks the client for one thing.\<close>

definition viaClient :: "ptr \<Rightarrow> (handle \<Rightarrow> 'w \<Rightarrow> 'a res \<times> 'w) \<Rightarrow> 'w dst \<Rightarrow> 'a res \<times> 'w dst" where
  "viaClient p f st =
     (case dclient st p of Inl e \<Rightarrow> (Inl e, st) | Inr c \<Rightarrow> d_call (io_call (f c)) st)"

definition viaClient0 :: "ptr \<Rightarrow> (handle \<Rightarrow> 'w query) \<Rightarrow> 'w dst \<Rightarrow> goerr option \<times> 'w dst" where
  "viaClient0 p f st =
     (case dclient st p of Inl e \<Rightarrow> (Some e, st) | Inr c \<Rightarrow> d_call (io_call (f c)) st)"

definition ListContainers ::
    "('w, 'ins) kext \<Rightarrow> ptr \<Rightarrow> bool \<Rightarrow> int \<Rightarrow> string list gomap \<Rightarrow> 'w dst \<Rightarrow> ContainerSummary list res \<times> 'w dst" where
  "ListContainers k p all limit filters st =
     (case viaClient p (\<lambda>c. k_list k c all limit filters) st of
        (Inl e, st) \<Rightarrow> (Inl e, st)
      | (Inr items, st) \<Rightarrow> (Inr (map summaryToOurs items), st))"

definition Inspect :: "('w, 'ins) kext \<Rightarrow> ptr \<Rightarrow> string \<Rightarrow> 'w dst \<Rightarrow> 'ins res \<times> 'w dst" where
  "Inspect k p cid = viaClient p (\<lambda>c. k_inspect k c cid)"

definition dStart :: "('w, 'ins) kext \<Rightarrow> ptr \<Rightarrow> string \<Rightarrow> 'w dst \<Rightarrow> goerr option \<times> 'w dst" where
  "dStart k p cid = viaClient0 p (\<lambda>c. k_start k c cid)"

definition dStop :: "('w, 'ins) kext \<Rightarrow> ptr \<Rightarrow> string \<Rightarrow> int option \<Rightarrow> 'w dst \<Rightarrow> goerr option \<times> 'w dst" where
  "dStop k p cid timeoutSec = viaClient0 p (\<lambda>c. k_stop k c cid timeoutSec)"

definition dRestart :: "('w, 'ins) kext \<Rightarrow> ptr \<Rightarrow> string \<Rightarrow> int option \<Rightarrow> 'w dst \<Rightarrow> goerr option \<times> 'w dst" where
  "dRestart k p cid timeoutSec = viaClient0 p (\<lambda>c. k_restart k c cid timeoutSec)"

definition dKill :: "('w, 'ins) kext \<Rightarrow> ptr \<Rightarrow> string \<Rightarrow> string \<Rightarrow> 'w dst \<Rightarrow> goerr option \<times> 'w dst" where
  "dKill k p cid sig = viaClient0 p (\<lambda>c. k_kill k c cid sig)"

definition dRemove :: "('w, 'ins) kext \<Rightarrow> ptr \<Rightarrow> string \<Rightarrow> bool \<Rightarrow> bool \<Rightarrow> 'w dst \<Rightarrow> goerr option \<times> 'w dst" where
  "dRemove k p cid force removeVolumes = viaClient0 p (\<lambda>c. k_remove k c cid force removeVolumes)"

definition bothStreams :: "LogsOptions \<Rightarrow> LogsOptions" where
  "bothStreams opts =
     (if \<not> lo_Stdout opts \<and> \<not> lo_Stderr opts then opts\<lparr>lo_Stdout := True, lo_Stderr := True\<rparr> else opts)"

text \<open>The text of the logs from the raw stream.\<close>

definition logText :: "('w, 'ins) kext \<Rightarrow> bool \<Rightarrow> string \<Rightarrow> goerr option \<Rightarrow> string res" where
  "logText k tty data rerr =
     (if tty then (case rerr of Some e \<Rightarrow> Inl e | None \<Rightarrow> Inr data)
      else (case k_demux k data rerr of
              (out, err, Some e) \<Rightarrow> Inl e
            | (out, err, None) \<Rightarrow>
                Inr (if err \<noteq> [] then out @ [CHR 0x0A] @ ''--- STDERR ---'' @ [CHR 0x0A] @ err else out)))"

definition Logs :: "'w ext \<Rightarrow> ('w, 'ins) kext \<Rightarrow> ptr \<Rightarrow> string \<Rightarrow> LogsOptions \<Rightarrow> 'w dst \<Rightarrow> string res \<times> 'w dst" where
  "Logs x k p cid opts st =
     (case dclient st p of
        Inl e \<Rightarrow> (Inl e, st)
      | Inr c \<Rightarrow>
          (case d_call (io_open (k_logs k c cid (bothStreams opts))) st of
             (Inl e, st) \<Rightarrow> (Inl e, st)
           | (Inr rc, st) \<Rightarrow>
               (case d_call (io_call (k_inspect k c cid)) st of
                  (Inl e, st) \<Rightarrow> (Inl e, d_close x [rc] st)
                | (Inr insp, st) \<Rightarrow>
                    (case d_call (io_call (k_log_data k rc)) st of
                       ((data, rerr), st) \<Rightarrow> (logText k (k_tty k insp) data rerr, d_close x [rc] st)))))"

definition dExec :: "'w ext \<Rightarrow> ('w, 'ins) kext \<Rightarrow> ptr \<Rightarrow> string \<Rightarrow> DExecOptions \<Rightarrow> 'w dst \<Rightarrow> DExecResult res \<times> 'w dst" where
  "dExec x k p cid opts st =
     (case dclient st p of
        Inl e \<Rightarrow> (Inl e, st)
      | Inr c \<Rightarrow>
          (if eo_Cmd opts = [] then (Inl (Errorf ''cmd is required'' []), st)
           else
             (case d_call (io_call (k_exec_create k c cid \<lparr>er_Cmd = eo_Cmd opts, er_Env = envList (eo_Env opts),
                     er_User = eo_User opts, er_WorkingDir = eo_WorkingDir opts,
                     er_AttachStdin = (eo_Stdin opts \<noteq> [])\<rparr>)) st of
                (Inl e, st) \<Rightarrow> (Inl (Wrapf ''exec create: %w'' [] e), st)
              | (Inr eid, st) \<Rightarrow>
                  (case d_call (io_open (k_exec_attach k c eid)) st of
                     (Inl e, st) \<Rightarrow> (Inl (Wrapf ''exec attach: %w'' [] e), st)
                   | (Inr attach, st) \<Rightarrow>
                       (case d_call (io_call (k_exec_io k attach (eo_Stdin opts))) st of
                          (CtxDone, st) \<Rightarrow> (Inl CtxErr, d_close x [attach] st)
                        | (CopyDone out err e, st) \<Rightarrow>
                            (if e \<noteq> None \<and> e \<noteq> Some IoEOF then (Inl (the e), d_close x [attach] st)
                             else
                               (case d_call (io_call (k_exec_inspect k c eid)) st of
                                  (Inl e, st) \<Rightarrow> (Inl e, d_close x [attach] st)
                                | (Inr code, st) \<Rightarrow>
                                    (Inr \<lparr>ex_Stdout = out, ex_Stderr = err, ex_ExitCode = code\<rparr>, d_close x [attach] st))))))))"

section \<open>Balanced calls\<close>

text \<open>
  \<open>balanced st st'\<close>: the call changed nothing of the hosts and left open in the outside world exactly
  what was open before it.
\<close>

definition balanced :: "'w dst \<Rightarrow> 'w dst \<Rightarrow> bool" where
  "balanced st st' \<longleftrightarrow>
     hosts st' = hosts st \<and> hst st' = hst st \<and> dsh st' = dsh st \<and> d_nxt st' = d_nxt st \<and> acquired (d_io st) [] (d_io st')"

lemma balanced_refl [simp, intro]: "balanced st st"
  by (simp add: balanced_def)

lemma balanced_trans: "balanced st st' \<Longrightarrow> balanced st' st'' \<Longrightarrow> balanced st st''"
  by (auto simp: balanced_def intro: acquired_trans0)

lemma balanced_call: "d_call (io_call f) st = (a, st') \<Longrightarrow> balanced st st'"
  using d_call_frame [of "io_call f" st a st'] by (auto simp: balanced_def intro: io_call_acq)

lemma balanced_open_err: "d_call (io_open f) st = (Inl e, st') \<Longrightarrow> balanced st st'"
  using d_call_frame [of "io_open f" st "Inl e" st'] by (auto simp: balanced_def intro: io_open_err)

lemma balanced_open_close:
  assumes "io_ok (d_io st)" and "d_call (io_open f) st = (Inr h, st1)" and "balanced st1 st2"
  shows "balanced st (d_close x [h] st2)"
proof -
  note f = d_call_frame [OF assms(2)]
  then have "acquired (d_io st) [h] (d_io st1)" by (auto intro: io_open_ok)
  then have "acquired (d_io st) [h] (d_io st2)"
    using assms(3) by (auto simp: balanced_def intro: acquired_trans0)
  then show ?thesis
    using f assms(1,3) acquired_close_all [of "d_io st" "[h]" "[]"] by (auto simp: balanced_def d_close_def)
qed

lemma balanced_viaClient: "viaClient p f st = (r, st') \<Longrightarrow> balanced st st'"
  by (auto simp: viaClient_def intro: balanced_call split: sum.splits)

lemma balanced_viaClient0: "viaClient0 p f st = (r, st') \<Longrightarrow> balanced st st'"
  by (auto simp: viaClient0_def intro: balanced_call split: sum.splits)

lemma balanced_Logs:
  assumes "io_ok (d_io st)" and "Logs x k p cid opts st = (r, st')"
  shows "balanced st st'"
  using assms(2)
  by (auto simp: Logs_def split: sum.splits prod.splits
      intro: balanced_open_err balanced_open_close [OF assms(1)] balanced_call balanced_trans [OF balanced_call balanced_call])

lemma balanced_dExec:
  assumes "io_ok (d_io st)" and "dExec x k p cid opts st = (r, st')"
  shows "balanced st st'"
proof (cases "\<exists>c. dclient st p = Inr c \<and> eo_Cmd opts \<noteq> []")
  case False
  then show ?thesis using assms(2) by (auto simp: dExec_def split: sum.splits if_splits)
next
  case True
  then obtain c where c: "dclient st p = Inr c" "eo_Cmd opts \<noteq> []" by blast
  let ?req = "\<lparr>er_Cmd = eo_Cmd opts, er_Env = envList (eo_Env opts), er_User = eo_User opts,
     er_WorkingDir = eo_WorkingDir opts, er_AttachStdin = (eo_Stdin opts \<noteq> [])\<rparr>"
  obtain q st1 where q: "d_call (io_call (k_exec_create k c cid ?req)) st = (q, st1)" by fastforce
  note b1 = balanced_call [OF q]
  then have ok1: "io_ok (d_io st1)" using assms(1) by (auto simp: balanced_def intro: acquired_ok)
  show ?thesis
  proof (cases q)
    case (Inl e)
    then show ?thesis using assms(2) c q b1 by (simp add: dExec_def)
  next
    case (Inr eid)
    obtain a st2 where a: "d_call (io_open (k_exec_attach k c eid)) st1 = (a, st2)" by fastforce
    show ?thesis
    proof (cases a)
      case Inl2: (Inl e)
      then have "st' = st2" using assms(2) c q Inr a by (simp add: dExec_def)
      then show ?thesis using b1 balanced_open_err [OF a [unfolded Inl2]] by (auto intro: balanced_trans)
    next
      case Inr2: (Inr h)
      obtain ou st3 where o: "d_call (io_call (k_exec_io k h (eo_Stdin opts))) st2 = (ou, st3)" by fastforce
      have "\<exists>st4. balanced st3 st4 \<and> st' = d_close x [h] st4"
        using assms(2) c q Inr a Inr2 o
        by (cases ou) (auto simp: dExec_def split: if_splits sum.splits prod.splits intro: balanced_call)
      then obtain st4 where "balanced st2 st4" "st' = d_close x [h] st4"
        using balanced_call [OF o] by (auto intro: balanced_trans)
      then show ?thesis
        using b1 balanced_open_close [OF ok1 a [unfolded Inr2]] by (auto intro: balanced_trans)
    qed
  qed
qed

lemma balanced_PullImage: "io_ok (d_io st) \<Longrightarrow> PullImage x q p ref st = (r, st') \<Longrightarrow> balanced st st'"
  by (auto simp: PullImage_def Let_def split: sum.splits prod.splits
      intro: balanced_open_err balanced_open_close balanced_call)

text \<open>
  A one-shot command in a container (\<open>Host.Exec\<close>) gives back the connection it attached to on every path
  out: when the exec cannot be created or attached, when its output fails, when the caller's context is cancelled, when
  the exit code cannot be read, and when it succeeds.  It changes nothing of the hosts, and never runs an empty command.
\<close>

theorem docker_exec_closes:
  assumes "io_ok (d_io st)" and "dExec x k p cid opts st = (r, st')"
  shows "live (d_io st') = live (d_io st) \<and> hosts st' = hosts st \<and> hst st' = hst st \<and> dsh st' = dsh st \<and>
     (is_ok r \<longrightarrow> eo_Cmd opts \<noteq> [] \<and> (\<exists>c. dclient st p = Inr c))"
proof -
  have "balanced st st'" by (rule balanced_dExec [OF assms])
  moreover have "is_ok r \<longrightarrow> eo_Cmd opts \<noteq> [] \<and> (\<exists>c. dclient st p = Inr c)"
    using assms(2) by (auto simp: dExec_def split: sum.splits if_splits)
  ultimately show ?thesis by (auto simp: balanced_def acquired_def)
qed

definition demo_kext :: "(nat, bool) kext" where
  "demo_kext = \<lparr>k_list = (\<lambda>h a l f n. (Inr [], Suc n)), k_inspect = (\<lambda>h c n. (Inr False, Suc n)), k_tty = (\<lambda>t. t),
     k_start = (\<lambda>h c n. (None, Suc n)), k_stop = (\<lambda>h c t n. (None, Suc n)), k_restart = (\<lambda>h c t n. (None, Suc n)),
     k_kill = (\<lambda>h c s n. (None, Suc n)), k_remove = (\<lambda>h c f v n. (None, Suc n)), k_logs = (\<lambda>h c o1 n. (None, Suc n)),
     k_log_data = (\<lambda>h n. ((''log'', None), Suc n)), k_demux = (\<lambda>d e. (d, [], e)),
     k_exec_create = (\<lambda>h c r n. (Inr ''e'', Suc n)), k_exec_attach = (\<lambda>h e n. (None, Suc n)),
     k_exec_io = (\<lambda>h i n. (CopyDone ''out'' i None, Suc n)), k_exec_inspect = (\<lambda>h e n. (Inr 0, Suc n))\<rparr>"

definition demo_exec :: DExecOptions where
  "demo_exec = \<lparr>eo_Cmd = [''ls''], eo_WorkingDir = [], eo_Env = [], eo_User = [], eo_Stdin = []\<rparr>"

theorem docker_exec_closes_witness:
  "is_ok (fst (dExec demo_ext demo_kext 0 ''c'' demo_exec demo_dst1)) \<and>
   live (d_io (snd (dExec demo_ext demo_kext 0 ''c'' demo_exec demo_dst1))) = live (d_io demo_dst1)"
proof -
  let ?e = "dExec demo_ext demo_kext 0 ''c'' demo_exec demo_dst1"
  have "is_ok (fst ?e)"
    by (simp add: dExec_def demo_kext_def demo_exec_def demo_dst1_def demo_host_def dclient_def
        d_call_def io_call_def io_open_def)
  moreover have "?e = (fst ?e, snd ?e)" by simp
  ultimately show ?thesis using docker_exec_closes [OF demo_dst_ok(2)] by blast
qed

end
