(* ===== verification/SshSftp.thy ===== *)
theory SshSftp
  imports SshShell GoFilesProps
begin

text \<open>
  \<open>internal/sshx/sftp.go\<close>: the file operations of a session over its sftp client.  The client
  (\<open>pkg/sftp\<close>) is a parameter, and so are the directory walks it makes on the remote side.
\<close>

unbundle bit_operations_syntax

section \<open>The sftp client's calls\<close>

text \<open>
  \<open>sf_read f n\<close> is what reads of a file give until \<open>n\<close> bytes are there or an error ends them;
  \<open>sf_read_from\<close> and \<open>sf_write_to\<close> are what \<open>io.Copy\<close> uses of a remote file: the bytes of the local one
  with the error that ends them, and the bytes of the remote one.
\<close>

record 'w sext =
  sf_new :: "handle \<Rightarrow> 'w query"
  sf_readdir :: "handle \<Rightarrow> string \<Rightarrow> 'w \<Rightarrow> FileInfo list res \<times> 'w"
  sf_readlink :: "handle \<Rightarrow> string \<Rightarrow> 'w \<Rightarrow> string \<times> 'w"
  sf_stat :: "handle \<Rightarrow> string \<Rightarrow> 'w \<Rightarrow> FileInfo res \<times> 'w"
  sf_lstat :: "handle \<Rightarrow> string \<Rightarrow> 'w \<Rightarrow> FileInfo res \<times> 'w"
  sf_open :: "handle \<Rightarrow> string \<Rightarrow> 'w query"
  sf_openfile :: "handle \<Rightarrow> string \<Rightarrow> nat \<Rightarrow> 'w query"
  sf_create :: "handle \<Rightarrow> string \<Rightarrow> 'w query"
  sf_seek :: "handle \<Rightarrow> int \<Rightarrow> 'w query"
  sf_read :: "handle \<Rightarrow> nat \<Rightarrow> 'w \<Rightarrow> (string \<times> goerr option) \<times> 'w"
  sf_write :: "handle \<Rightarrow> string \<Rightarrow> 'w query"
  sf_remove :: "handle \<Rightarrow> string \<Rightarrow> 'w query"
  sf_mkdirall :: "handle \<Rightarrow> string \<Rightarrow> 'w query"
  sf_mkdir :: "handle \<Rightarrow> string \<Rightarrow> 'w query"
  sf_chmod :: "handle \<Rightarrow> string \<Rightarrow> FileMode \<Rightarrow> 'w query"
  sf_rename :: "handle \<Rightarrow> string \<Rightarrow> string \<Rightarrow> 'w query"
  sf_read_from :: "handle \<Rightarrow> string \<Rightarrow> goerr option \<Rightarrow> 'w \<Rightarrow> (int \<times> goerr option) \<times> 'w"
  sf_write_to :: "handle \<Rightarrow> 'w \<Rightarrow> (string \<times> goerr option) \<times> 'w"
  sf_walk :: "handle \<Rightarrow> string \<Rightarrow> 'w \<Rightarrow> (string \<times> FileInfo \<times> goerr option) list \<times> 'w"

section \<open>The client of a session\<close>

definition sftpClient :: "'w sext \<Rightarrow> ptr \<Rightarrow> 'w st \<Rightarrow> handle res \<times> 'w st" where
  "sftpClient s p st =
     (case s_sftp (sess st p) of
        Some c \<Rightarrow> (Inr c, st)
      | None \<Rightarrow>
          (case getClient st p of
             Inl e \<Rightarrow> (Inl e, st)
           | Inr client \<Rightarrow>
               (case st_call (io_open (sf_new s client)) st of
                  (Inl e, st) \<Rightarrow> (Inl (Wrapf ''open sftp: %w'' [] e), st)
                | (Inr sc, st) \<Rightarrow> (Inr sc, updS p (\<lambda>S. S\<lparr>s_sftp := Some sc\<rparr>) st))))"

definition dropSFTP :: "'w ext \<Rightarrow> ptr \<Rightarrow> 'w st \<Rightarrow> 'w st" where
  "dropSFTP x p st =
     st_close x (opt_list (s_sftp (sess st p))) (updS p (\<lambda>S. S\<lparr>s_sftp := None\<rparr>) st)"

text \<open>A method that asks the sftp client for one thing.\<close>

definition viaSftp :: "'w sext \<Rightarrow> ptr \<Rightarrow> (handle \<Rightarrow> 'w query) \<Rightarrow> 'w st \<Rightarrow> goerr option \<times> 'w st" where
  "viaSftp s p f st =
     (case sftpClient s p st of
        (Inl e, st) \<Rightarrow> (Some e, st)
      | (Inr c, st) \<Rightarrow> st_call (io_call (f c)) st)"

section \<open>Listing and reading\<close>

record FileEntry =
  fe_Name :: string
  fe_Size :: int
  fe_Mode :: string
  fe_ModTime :: int
  fe_IsDir :: bool
  fe_Target :: string

definition fileEntry :: "FileInfo \<Rightarrow> FileEntry" where
  "fileEntry i = \<lparr>fe_Name = fi_Name i, fe_Size = fi_Size i, fe_Mode = modeString (fi_Mode i), fe_ModTime = fi_ModTime i,
     fe_IsDir = modeIsDir (fi_Mode i), fe_Target = []\<rparr>"

fun listEntries :: "'w sext \<Rightarrow> handle \<Rightarrow> string \<Rightarrow> FileInfo list \<Rightarrow> 'w st \<Rightarrow> FileEntry list \<times> 'w st" where
  "listEntries s c path [] st = ([], st)"
| "listEntries s c path (e # es) st =
     (if modeIsLink (fi_Mode e) then
        (case st_call (io_call (sf_readlink s c (pathJoin [path, fi_Name e]))) st of
           (target, st) \<Rightarrow>
             (case listEntries s c path es st of (out, st) \<Rightarrow> ((fileEntry e)\<lparr>fe_Target := target\<rparr> # out, st)))
      else (case listEntries s c path es st of (out, st) \<Rightarrow> (fileEntry e # out, st)))"

definition FileList :: "'w sext \<Rightarrow> ptr \<Rightarrow> string \<Rightarrow> 'w st \<Rightarrow> FileEntry list res \<times> 'w st" where
  "FileList s p path st =
     (case sftpClient s p st of
        (Inl e, st) \<Rightarrow> (Inl e, st)
      | (Inr c, st) \<Rightarrow>
          (case st_call (io_call (sf_readdir s c path)) st of
             (Inl e, st) \<Rightarrow> (Inl e, st)
           | (Inr entries, st) \<Rightarrow>
               (case listEntries s c path entries st of (out, st) \<Rightarrow> (Inr out, st))))"

definition FileStat :: "'w sext \<Rightarrow> ptr \<Rightarrow> string \<Rightarrow> 'w st \<Rightarrow> FileEntry res \<times> 'w st" where
  "FileStat s p path st =
     (case sftpClient s p st of
        (Inl e, st) \<Rightarrow> (Inl e, st)
      | (Inr c, st) \<Rightarrow>
          (case st_call (io_call (sf_stat s c path)) st of
             (Inl e, st) \<Rightarrow> (Inl e, st)
           | (Inr i, st) \<Rightarrow> (Inr (fileEntry i), st)))"

definition maxFileReadBytes :: nat where
  "maxFileReadBytes = 64 * 1024 * 1024"

definition ErrUnexpectedEOF :: goerr where
  "ErrUnexpectedEOF = ExtErr ''unexpected EOF''"

text \<open>Reading until there are \<open>n\<close> bytes: less than that comes with the error that ended it.\<close>

definition readUpTo :: "'w sext \<Rightarrow> handle \<Rightarrow> nat \<Rightarrow> 'w st \<Rightarrow> (string \<times> goerr option) \<times> 'w st" where
  "readUpTo s f n st =
     (case st_call (io_call (sf_read s f n)) st of
        ((bs, e), st) \<Rightarrow>
          (if n \<le> length bs then (take n bs, None) else (bs, Some (case e of None \<Rightarrow> IoEOF | Some e \<Rightarrow> e)), st))"

definition FileRead :: "'w ext \<Rightarrow> 'w sext \<Rightarrow> ptr \<Rightarrow> string \<Rightarrow> int \<Rightarrow> int \<Rightarrow> 'w st \<Rightarrow> (string \<times> goerr option) \<times> 'w st" where
  "FileRead x s p path offset len st =
     (case sftpClient s p st of
        (Inl e, st) \<Rightarrow> (([], Some e), st)
      | (Inr c, st) \<Rightarrow>
          (case st_call (io_open (sf_open s c path)) st of
             (Inl e, st) \<Rightarrow> (([], Some e), st)
           | (Inr f, st) \<Rightarrow>
               (case (if offset > 0 then st_call (io_call (sf_seek s f offset)) st else (None, st)) of
                  (Some e, st) \<Rightarrow> (([], Some e), st_close x [f] st)
                | (None, st) \<Rightarrow>
                    (if len > 0 then
                       (case readUpTo s f (nat (if len > int maxFileReadBytes then int maxFileReadBytes else len)) st of
                          ((bs, None), st) \<Rightarrow> ((bs, None), st_close x [f] st)
                        | ((bs, Some e), st) \<Rightarrow>
                            (if e = ErrUnexpectedEOF \<or> e = IoEOF then (bs, None) else ([], Some e), st_close x [f] st))
                     else
                       (case readUpTo s f maxFileReadBytes st of
                          ((bs, e), st) \<Rightarrow> ((bs, if e = Some IoEOF then None else e), st_close x [f] st))))))"

section \<open>Writing and changing\<close>

definition O_WRONLY :: nat where "O_WRONLY = 0x1"
definition O_CREATE :: nat where "O_CREATE = 0x40"
definition O_TRUNC :: nat where "O_TRUNC = 0x200"
definition O_APPEND :: nat where "O_APPEND = 0x400"

definition FileWrite :: "'w ext \<Rightarrow> 'w sext \<Rightarrow> ptr \<Rightarrow> string \<Rightarrow> string \<Rightarrow> bool \<Rightarrow> 'w st \<Rightarrow> goerr option \<times> 'w st" where
  "FileWrite x s p path data app st =
     (case sftpClient s p st of
        (Inl e, st) \<Rightarrow> (Some e, st)
      | (Inr c, st) \<Rightarrow>
          (case st_call (io_open (sf_openfile s c path (O_WRONLY OR O_CREATE OR (if app then O_APPEND else O_TRUNC)))) st of
             (Inl e, st) \<Rightarrow> (Some e, st)
           | (Inr f, st) \<Rightarrow>
               (case st_call (io_call (sf_write s f data)) st of (e, st) \<Rightarrow> (e, st_close x [f] st))))"

definition FileDelete :: "'w sext \<Rightarrow> ptr \<Rightarrow> string \<Rightarrow> 'w st \<Rightarrow> goerr option \<times> 'w st" where
  "FileDelete s p path = viaSftp s p (\<lambda>c. sf_remove s c path)"

definition FileMkdir :: "'w sext \<Rightarrow> ptr \<Rightarrow> string \<Rightarrow> bool \<Rightarrow> 'w st \<Rightarrow> goerr option \<times> 'w st" where
  "FileMkdir s p path recursive = viaSftp s p (\<lambda>c. if recursive then sf_mkdirall s c path else sf_mkdir s c path)"

definition FileChmod :: "'w sext \<Rightarrow> ptr \<Rightarrow> string \<Rightarrow> FileMode \<Rightarrow> 'w st \<Rightarrow> goerr option \<times> 'w st" where
  "FileChmod s p path mode = viaSftp s p (\<lambda>c. sf_chmod s c path mode)"

definition FileRename :: "'w sext \<Rightarrow> ptr \<Rightarrow> string \<Rightarrow> string \<Rightarrow> 'w st \<Rightarrow> goerr option \<times> 'w st" where
  "FileRename s p src dst = viaSftp s p (\<lambda>c. sf_rename s c src dst)"

section \<open>Upload\<close>

text \<open>The calls that change the remote side, as they are made.\<close>

datatype rcall = RMkdirAll string | RCreate string | RChmod string FileMode

definition uploadFile ::
    "'w ext \<Rightarrow> 'w sext \<Rightarrow> localfs \<Rightarrow> handle \<Rightarrow> string \<Rightarrow> string \<Rightarrow> FileMode \<Rightarrow> 'w st \<Rightarrow>
     (int \<times> goerr option) \<times> rcall list \<times> 'w st" where
  "uploadFile x s lf c local remote mode st =
     (case lf_open lf local of
        Inl e \<Rightarrow> ((0, Some e), [], st)
      | Inr (data, rerr) \<Rightarrow>
          (case st_call (io_open (sf_create s c remote)) st of
             (Inl e, st) \<Rightarrow> ((0, Some e), [RCreate remote], st)
           | (Inr out, st) \<Rightarrow>
               (case st_call (io_call (sf_read_from s out data rerr)) st of
                  ((n, Some e), st) \<Rightarrow> ((n, Some e), [RCreate remote], st_close x [out] st)
                | ((n, None), st) \<Rightarrow>
                    (case st_call (io_call (sf_chmod s c remote (modePerm mode))) st of
                       (_, st) \<Rightarrow> ((n, None), [RCreate remote, RChmod remote (modePerm mode)], st_close x [out] st)))))"

type_synonym 'w up_state = "int \<times> rcall list \<times> 'w st"

text \<open>The callback of the walk.\<close>

definition uploadVisit ::
    "'w ext \<Rightarrow> 'w sext \<Rightarrow> localfs \<Rightarrow> handle \<Rightarrow> string \<Rightarrow> string \<Rightarrow> 'w up_state walkFn" where
  "uploadVisit x s lf c localPath remotePath p fi err u =
     (case err of
        Some e \<Rightarrow> (Some e, u)
      | None \<Rightarrow>
          (case fi of
             None \<Rightarrow> (None, u)
           | Some info \<Rightarrow>
               (case pathRel localPath p of
                  Inl e \<Rightarrow> (Some e, u)
                | Inr rel \<Rightarrow>
                    (let rem = (if rel \<noteq> ''.'' then pathJoin [remotePath, rel] else remotePath) in
                     case u of (tot, log, st) \<Rightarrow>
                       if modeIsLink (fi_Mode info) then (None, u)
                       else if modeIsDir (fi_Mode info) then
                         (case st_call (io_call (sf_mkdirall s c rem)) st of
                            (e, st) \<Rightarrow> (e, tot, log @ [RMkdirAll rem], st))
                       else
                         (case uploadFile x s lf c p rem (fi_Mode info) st of
                            ((n, e), calls, st) \<Rightarrow> (e, tot + n, log @ calls, st))))))"

definition Upload ::
    "'w ext \<Rightarrow> 'w sext \<Rightarrow> localfs \<Rightarrow> nat \<Rightarrow> ptr \<Rightarrow> string \<Rightarrow> string \<Rightarrow> 'w st \<Rightarrow>
     ((int \<times> goerr option) \<times> rcall list \<times> 'w st) option" where
  "Upload x s lf n p localPath remotePath st =
     (case sftpClient s p st of
        (Inl e, st) \<Rightarrow> Some ((0, Some e), [], st)
      | (Inr c, st) \<Rightarrow>
          (case lf_lstat lf localPath of
             Inl e \<Rightarrow> Some ((0, Some e), [], st)
           | Inr info \<Rightarrow>
               if \<not> modeIsDir (fi_Mode info) then Some (uploadFile x s lf c localPath remotePath (fi_Mode info) st)
               else
                 (case st_call (io_call (sf_mkdirall s c remotePath)) st of
                    (Some e, st) \<Rightarrow> Some ((0, Some e), [RMkdirAll remotePath], st)
                  | (None, st) \<Rightarrow>
                      (case Walk lf (uploadVisit x s lf c localPath remotePath) n localPath (0, [RMkdirAll remotePath], st) of
                         None \<Rightarrow> None
                       | Some (walkErr, tot, log, st) \<Rightarrow> Some ((tot, walkErr), log, st)))))"

section \<open>Download\<close>

definition downloadFile ::
    "'w ext \<Rightarrow> 'w sext \<Rightarrow> proc \<Rightarrow> handle \<Rightarrow> string \<Rightarrow> string \<Rightarrow> dfs \<Rightarrow> 'w st \<Rightarrow> (int \<times> goerr option) \<times> dfs \<times> 'w st" where
  "downloadFile x s pr c remote local fs st =
     (let dir = pathDir local;
          fs = (if dir \<noteq> ''.'' \<and> dir \<noteq> [] then snd (osMkdirAll pr dir 0x1ED fs) else fs)
      in case st_call (io_open (sf_open s c remote)) st of
           (Inl e, st) \<Rightarrow> ((0, Some e), fs, st)
         | (Inr f, st) \<Rightarrow>
             (case osCreate pr local 0x1B6 fs of
                (Some e, fs) \<Rightarrow> ((0, Some e), fs, st_close x [f] st)
              | (None, fs) \<Rightarrow>
                  (case st_call (io_call (sf_write_to s f)) st of
                     ((data, rerr), st) \<Rightarrow>
                       (case copyToFile pr local data rerr fs of
                          (r, fs) \<Rightarrow> (r, fs, st_close x [f] st)))))"

definition walkRel :: "string \<Rightarrow> string \<Rightarrow> string" where
  "walkRel remotePath wp = trimPrefix (trimPrefix wp remotePath) ''/''"

definition walkLocal :: "string \<Rightarrow> string \<Rightarrow> string \<Rightarrow> string" where
  "walkLocal remotePath localPath wp =
     (let rel = walkRel remotePath wp in if rel \<noteq> [] then pathJoin [localPath, rel] else localPath)"

fun downloadLoop ::
    "'w ext \<Rightarrow> 'w sext \<Rightarrow> proc \<Rightarrow> handle \<Rightarrow> string \<Rightarrow> string \<Rightarrow> (string \<times> FileInfo \<times> goerr option) list \<Rightarrow>
     int \<Rightarrow> dfs \<Rightarrow> 'w st \<Rightarrow> (int \<times> goerr option) \<times> dfs \<times> 'w st" where
  "downloadLoop x s pr c rp lp [] tot fs st = ((tot, None), fs, st)"
| "downloadLoop x s pr c rp lp ((wp, info, Some e) # steps) tot fs st = ((tot, Some e), fs, st)"
| "downloadLoop x s pr c rp lp ((wp, info, None) # steps) tot fs st =
     (let loc = walkLocal rp lp wp in
      if modeIsLink (fi_Mode info) then downloadLoop x s pr c rp lp steps tot fs st
      else if modeIsDir (fi_Mode info) then
        (case osMkdirAll pr loc 0x1ED fs of
           (Some e, fs) \<Rightarrow> ((tot, Some e), fs, st)
         | (None, fs) \<Rightarrow> downloadLoop x s pr c rp lp steps tot fs st)
      else
        (case downloadFile x s pr c wp loc fs st of
           ((n, Some e), fs, st) \<Rightarrow> ((tot + n, Some e), fs, st)
         | ((n, None), fs, st) \<Rightarrow> downloadLoop x s pr c rp lp steps (tot + n) fs st))"

definition Download ::
    "'w ext \<Rightarrow> 'w sext \<Rightarrow> proc \<Rightarrow> ptr \<Rightarrow> string \<Rightarrow> string \<Rightarrow> dfs \<Rightarrow> 'w st \<Rightarrow> (int \<times> goerr option) \<times> dfs \<times> 'w st" where
  "Download x s pr p remotePath localPath fs st =
     (case sftpClient s p st of
        (Inl e, st) \<Rightarrow> ((0, Some e), fs, st)
      | (Inr c, st) \<Rightarrow>
          (case st_call (io_call (sf_lstat s c remotePath)) st of
             (Inl e, st) \<Rightarrow> ((0, Some e), fs, st)
           | (Inr info, st) \<Rightarrow>
               if \<not> modeIsDir (fi_Mode info) then downloadFile x s pr c remotePath localPath fs st
               else
                 (case osMkdirAll pr localPath 0x1ED fs of
                    (Some e, fs) \<Rightarrow> ((0, Some e), fs, st)
                  | (None, fs) \<Rightarrow>
                      (case st_call (io_call (sf_walk s c remotePath)) st of
                         (steps, st) \<Rightarrow> downloadLoop x s pr c remotePath localPath steps 0 fs st))))"

end
