(* ===== verification/SshSftpProps.thy ===== *)
theory SshSftpProps
  imports SshSftp SshManagerProps
begin

text \<open>
  What the sftp operations guarantee: each accounts for the handles it opens, a read is bounded whatever the server sends,
  an upload makes the planned calls in order and no others, and a download writes under its target.
\<close>

unbundle bit_operations_syntax

section \<open>Handles\<close>

lemma sess_step_sftpClient:
  assumes "sftpClient s p st = (r, st')"
  shows "sess_step p [] st [] st'"
proof (cases "s_sftp (sess st p)")
  case (Some c)
  then show ?thesis using assms by (simp add: sftpClient_def)
next
  case None
  show ?thesis
  proof (cases "getClient st p")
    case (Inl e)
    then show ?thesis using assms None by (simp add: sftpClient_def)
  next
    case (Inr c)
    obtain q st1 where q: "st_call (io_open (sf_new s c)) st = (q, st1)" by fastforce
    show ?thesis
    proof (cases q)
      case Inl2: (Inl e)
      then show ?thesis using assms None Inr q sess_step_open_err by (fastforce simp: sftpClient_def)
    next
      case Inr2: (Inr h)
      then have st': "st' = updS p (\<lambda>S. S\<lparr>s_sftp := Some h\<rparr>) st1" using assms None Inr q by (simp add: sftpClient_def)
      have "sess st1 = sess st" using q by (auto elim: st_callE)
      then have "sess_step p [h] st1 [] st'"
        unfolding st' by (intro sess_step_updS) (use None in \<open>simp_all add: transportL_def opt_list_def\<close>)
      moreover have "sess_step p [] st ([] @ [h]) st1"
        using q Inr2 by (intro sess_step_open) simp
      ultimately show ?thesis using sess_step_trans by fastforce
    qed
  qed
qed

lemma sess_step_dropSFTP: "sess_step p [] st [] (dropSFTP x p st)"
proof -
  let ?S = "sess st p" and ?st = "updS p (\<lambda>S. S\<lparr>s_sftp := None\<rparr>) st"
  have "sess_step p [] st (opt_list (s_sftp ?S) @ []) ?st"
    by (rule sess_step_updS) (simp_all add: transportL_def opt_list_def split: option.split)
  then show ?thesis
    unfolding dropSFTP_def using sess_step_close sess_step_trans by blast
qed

text \<open>A handle that is opened, used and closed again.\<close>

lemma sess_step_scoped:
  assumes "st_call (io_open f) st = (Inr h, st1)" and "sess_step p [h] st1 [h] st2"
  shows "sess_step p [] st [] (st_close x [h] st2)"
proof -
  have "sess_step p [] st ([] @ [h]) st1" by (rule sess_step_open [OF assms(1)])
  moreover have "sess_step p ([h] @ []) st2 [] (st_close x [h] st2)" by (rule sess_step_close)
  ultimately show ?thesis using assms(2) by (metis append.left_neutral append_Nil2 sess_step_trans)
qed

lemma sess_step_viaSftp: "viaSftp s p f st = (r, st') \<Longrightarrow> sess_step p [] st [] st'"
  by (auto simp: viaSftp_def split: prod.splits sum.splits
      dest!: sess_step_sftpClient sess_step_call [where p = p and G = "[]"] intro: sess_step_trans)

lemma sess_step_listEntries: "listEntries s c path es st = (out, st') \<Longrightarrow> sess_step p [] st [] st'"
proof (induction es arbitrary: st out)
  case (Cons e es)
  show ?case
  proof (cases "modeIsLink (fi_Mode e)")
    case False
    then show ?thesis using Cons by (auto split: prod.splits)
  next
    case True
    obtain t st1 where t: "st_call (io_call (sf_readlink s c (pathJoin [path, fi_Name e]))) st = (t, st1)" by fastforce
    obtain o1 st2 where l: "listEntries s c path es st1 = (o1, st2)" by fastforce
    have "st' = st2" using Cons.prems True t l by simp
    then show ?thesis
      using sess_step_call [OF t, of p "[]"] Cons.IH [of st1 o1] l by (auto intro: sess_step_trans)
  qed
qed simp

lemma sess_step_FileList:
  assumes "FileList s p path st = (r, st')"
  shows "sess_step p [] st [] st'"
proof -
  obtain q st1 where q: "sftpClient s p st = (q, st1)" by fastforce
  note s1 = sess_step_sftpClient [OF q]
  show ?thesis
  proof (cases q)
    case (Inl e)
    then show ?thesis using assms q s1 by (simp add: FileList_def)
  next
    case (Inr c)
    obtain d st2 where d: "st_call (io_call (sf_readdir s c path)) st1 = (d, st2)" by fastforce
    have s2: "sess_step p [] st [] st2" using s1 sess_step_call [OF d, of p "[]"] by (rule sess_step_trans)
    show ?thesis
    proof (cases d)
      case Inl2: (Inl e)
      then show ?thesis using assms q Inr d s2 by (simp add: FileList_def)
    next
      case Inr2: (Inr es)
      obtain o1 st3 where l: "listEntries s c path es st2 = (o1, st3)" by fastforce
      then show ?thesis
        using assms q Inr d Inr2 s2 sess_step_listEntries [OF l] by (auto simp: FileList_def intro: sess_step_trans)
    qed
  qed
qed

lemma sess_step_FileStat: "FileStat s p path st = (r, st') \<Longrightarrow> sess_step p [] st [] st'"
  by (auto simp: FileStat_def split: prod.splits sum.splits
      dest!: sess_step_sftpClient sess_step_call [where p = p and G = "[]"] intro: sess_step_trans)

lemma sess_step_readUpTo: "readUpTo s f n st = (r, st') \<Longrightarrow> sess_step p G st G st'"
  by (auto simp: readUpTo_def split: prod.splits dest: sess_step_call)

lemma sess_step_FileRead:
  assumes "FileRead x s p path off len st = (r, st')"
  shows "sess_step p [] st [] st'"
proof -
  obtain q st1 where q: "sftpClient s p st = (q, st1)" by fastforce
  note s1 = sess_step_sftpClient [OF q]
  show ?thesis
  proof (cases q)
    case (Inl e)
    then show ?thesis using assms q s1 by (simp add: FileRead_def)
  next
    case (Inr c)
    obtain d st2 where d: "st_call (io_open (sf_open s c path)) st1 = (d, st2)" by fastforce
    show ?thesis
    proof (cases d)
      case Inl2: (Inl e)
      then show ?thesis
        using assms q Inr d s1 sess_step_open_err [OF d [unfolded Inl2], of p "[]"]
        by (auto simp: FileRead_def intro: sess_step_trans)
    next
      case Inr2: (Inr f)
      obtain e st3 where k: "(if off > 0 then st_call (io_call (sf_seek s f off)) st2 else (None, st2)) = (e, st3)"
        by fastforce
      then have s3: "sess_step p [f] st2 [f] st3" by (auto split: if_splits dest: sess_step_call)
      have "\<exists>st4. sess_step p [f] st3 [f] st4 \<and> st' = st_close x [f] st4"
        using assms q Inr d Inr2 k
        by (auto simp: FileRead_def split: option.splits if_splits prod.splits dest: sess_step_readUpTo)
      then obtain st4 where "sess_step p [f] st2 [f] st4" "st' = st_close x [f] st4"
        using s3 sess_step_trans by blast
      then show ?thesis
        using s1 sess_step_scoped [OF d [unfolded Inr2], of p st4 x] by (auto intro: sess_step_trans)
    qed
  qed
qed

lemma sess_step_FileWrite:
  assumes "FileWrite x s p path data app st = (r, st')"
  shows "sess_step p [] st [] st'"
proof -
  let ?fl = "O_WRONLY OR O_CREATE OR (if app then O_APPEND else O_TRUNC)"
  obtain q st1 where q: "sftpClient s p st = (q, st1)" by fastforce
  note s1 = sess_step_sftpClient [OF q]
  show ?thesis
  proof (cases q)
    case (Inl e)
    then show ?thesis using assms q s1 by (simp add: FileWrite_def)
  next
    case (Inr c)
    obtain d st2 where d: "st_call (io_open (sf_openfile s c path ?fl)) st1 = (d, st2)" by fastforce
    show ?thesis
    proof (cases d)
      case Inl2: (Inl e)
      then show ?thesis
        using assms q Inr d s1 sess_step_open_err [OF d [unfolded Inl2], of p "[]"]
        by (auto simp: FileWrite_def simp del: One_nat_def intro: sess_step_trans)
    next
      case Inr2: (Inr f)
      obtain e st3 where w: "st_call (io_call (sf_write s f data)) st2 = (e, st3)" by fastforce
      have "st' = st_close x [f] st3" using assms q Inr d Inr2 w by (simp add: FileWrite_def)
      then show ?thesis
        using s1 sess_step_scoped [OF d [unfolded Inr2] sess_step_call [OF w]] by (auto intro: sess_step_trans)
    qed
  qed
qed

lemma sess_step_uploadFile:
  assumes "uploadFile x s lf c local remote mode st = (r, calls, st')"
  shows "sess_step p [] st [] st'"
proof (cases "lf_open lf local")
  case (Inl e)
  then show ?thesis using assms by (simp add: uploadFile_def)
next
  case (Inr dr)
  obtain data rerr where dr: "dr = (data, rerr)" by fastforce
  obtain d st2 where d: "st_call (io_open (sf_create s c remote)) st = (d, st2)" by fastforce
  show ?thesis
  proof (cases d)
    case Inl2: (Inl e)
    then show ?thesis
      using assms Inr dr d sess_step_open_err [OF d [unfolded Inl2]] by (auto simp: uploadFile_def)
  next
    case Inr2: (Inr f)
    obtain n e st3 where k: "st_call (io_call (sf_read_from s f data rerr)) st2 = ((n, e), st3)"
      by (metis prod.collapse)
    have "\<exists>st4. sess_step p [f] st3 [f] st4 \<and> st' = st_close x [f] st4"
      using assms Inr dr d Inr2 k
      by (auto simp: uploadFile_def split: option.splits prod.splits dest: sess_step_call)
    then obtain st4 where "sess_step p [f] st2 [f] st4" "st' = st_close x [f] st4"
      using sess_step_call [OF k] sess_step_trans by blast
    then show ?thesis using sess_step_scoped [OF d [unfolded Inr2]] by blast
  qed
qed

lemma sess_step_uploadVisit:
  "sess_step p [] (snd (snd u)) [] (snd (snd (snd (uploadVisit x s lf c local remote q fi err u))))"
  by (auto simp: uploadVisit_def Let_def split: option.splits sum.splits if_splits prod.splits
      dest: sess_step_uploadFile sess_step_call)

lemma sess_step_Upload:
  assumes "Upload x s lf n p local remote st = Some (r, calls, st')"
  shows "sess_step p [] st [] st'"
proof -
  obtain q st1 where q: "sftpClient s p st = (q, st1)" by fastforce
  note s1 = sess_step_sftpClient [OF q]
  show ?thesis
  proof (cases "\<exists>c info. q = Inr c \<and> lf_lstat lf local = Inr info \<and> modeIsDir (fi_Mode info)")
    case False
    then show ?thesis
      using assms q s1
      by (auto simp: Upload_def split: sum.splits if_splits prod.splits
          intro: sess_step_trans dest!: sess_step_uploadFile [where p = p])
  next
    case True
    then obtain c info where c: "q = Inr c" "lf_lstat lf local = Inr info" "modeIsDir (fi_Mode info)" by blast
    obtain e st2 where m: "st_call (io_call (sf_mkdirall s c remote)) st1 = (e, st2)" by fastforce
    have s2: "sess_step p [] st [] st2" using s1 sess_step_call [OF m] by (rule sess_step_trans)
    show ?thesis
    proof (cases e)
      case (Some e')
      then show ?thesis using assms q c m s2 by (simp add: Upload_def)
    next
      case None
      let ?fn = "uploadVisit x s lf c local remote" and ?u = "(0, [RMkdirAll remote], st2)"
      obtain we tot log where w: "Walk lf ?fn n local ?u = Some (we, tot, log, st')"
        using assms q c m None by (auto simp: Upload_def split: option.splits prod.splits)
      have "sess_step p [] st [] (snd (snd (tot, log, st')))"
      proof (rule Walk_inv [OF _ w])
        show "keeps (\<lambda>u. sess_step p [] st [] (snd (snd u))) ?fn"
          unfolding keeps_def by (blast intro: sess_step_trans sess_step_uploadVisit)
      qed (simp add: s2)
      then show ?thesis by simp
    qed
  qed
qed

lemma sess_step_downloadFile:
  assumes "downloadFile x s pr c remote local fs st = (r, fs', st')"
  shows "sess_step p [] st [] st'"
proof -
  obtain d st2 where d: "st_call (io_open (sf_open s c remote)) st = (d, st2)" by fastforce
  show ?thesis
  proof (cases d)
    case (Inl e)
    then show ?thesis
      using assms d sess_step_open_err [OF d [unfolded Inl]] by (auto simp: downloadFile_def Let_def)
  next
    case (Inr f)
    have "\<exists>st4. sess_step p [f] st2 [f] st4 \<and> st' = st_close x [f] st4"
      using assms d Inr
      by (auto simp: downloadFile_def Let_def split: option.splits prod.splits dest: sess_step_call)
    then show ?thesis using sess_step_scoped [OF d [unfolded Inr]] by blast
  qed
qed

lemma sess_step_downloadLoop:
  "downloadLoop x s pr c rp lp steps tot fs st = (r, fs', st') \<Longrightarrow> sess_step p [] st [] st'"
proof (induction x s pr c rp lp steps tot fs st rule: downloadLoop.induct)
  case (3 x s pr c rp lp wp info steps tot fs st)
  show ?case
  proof (cases "modeIsLink (fi_Mode info) \<or> modeIsDir (fi_Mode info)")
    case True
    then show ?thesis
      using 3 by (auto simp: Let_def split: if_splits prod.splits option.splits)
  next
    case False
    obtain n e fs1 st1 where d: "downloadFile x s pr c wp (walkLocal rp lp wp) fs st = ((n, e), fs1, st1)"
      by (metis prod.collapse)
    note s1 = sess_step_downloadFile [OF d, of p]
    show ?thesis
    proof (cases e)
      case None
      then have "sess_step p [] st1 [] st'" using 3 False d by (simp add: Let_def)
      then show ?thesis using s1 sess_step_trans by blast
    next
      case (Some e')
      then show ?thesis using 3(4) False d s1 by (simp add: Let_def)
    qed
  qed
qed auto

lemma sess_step_Download:
  assumes "Download x s pr p remote local fs st = (r, fs', st')"
  shows "sess_step p [] st [] st'"
proof -
  obtain q st1 where q: "sftpClient s p st = (q, st1)" by fastforce
  note s1 = sess_step_sftpClient [OF q]
  show ?thesis
  proof (cases q)
    case (Inl e)
    then show ?thesis using assms q s1 by (simp add: Download_def)
  next
    case (Inr c)
    obtain d st2 where d: "st_call (io_call (sf_lstat s c remote)) st1 = (d, st2)" by fastforce
    have s2: "sess_step p [] st [] st2" using s1 sess_step_call [OF d] by (rule sess_step_trans)
    have "sess_step p [] st2 [] st'"
      using assms q Inr d
      by (auto simp: Download_def split: sum.splits if_splits option.splits prod.splits
          dest!: sess_step_downloadFile [where p = p] sess_step_downloadLoop [where p = p]
            sess_step_call [where p = p and G = "[]"] intro: sess_step_trans)
    then show ?thesis using s2 sess_step_trans by blast
  qed
qed

section \<open>Reading\<close>

lemma readUpTo_bound: "readUpTo s f n st = ((bs, e), st') \<Longrightarrow> length bs \<le> n"
  by (auto simp: readUpTo_def split: prod.splits if_splits)

text \<open>
  C33. \<open>FileRead\<close> never returns more than 64 MiB, nor more than was asked for when a length was, however much the
  server sends; and it gives back the file handle it opened on every path, so that the manager's books still balance.
\<close>

theorem FileRead_bounded:
  assumes "mgr_ok st" and "gm_get (tbl st) k = Some p" and "FileRead x s p path off len st = ((bs, e), st')"
  shows "length bs \<le> maxFileReadBytes \<and> (0 < len \<longrightarrow> int (length bs) \<le> len) \<and> mgr_ok st'"
proof -
  have "mgr_ok st'" using mgr_step [OF assms(1,2)] sess_step_FileRead [OF assms(3)] by blast
  moreover have "length bs \<le> maxFileReadBytes \<and> (0 < len \<longrightarrow> int (length bs) \<le> len)"
    using assms(3)
    by (auto simp: FileRead_def split: prod.splits sum.splits option.splits if_splits dest!: readUpTo_bound)
  ultimately show ?thesis by blast
qed

section \<open>Uploading a tree\<close>

text \<open>The calls an upload of a tree makes when nothing fails: links are left out.\<close>

fun treeCalls :: "string \<Rightarrow> string list \<Rightarrow> fnode \<Rightarrow> rcall list"
  and treeCallss :: "string \<Rightarrow> string list \<Rightarrow> (string \<times> fnode) list \<Rightarrow> rcall list" where
  "treeCalls rp r (FFile m t c) = [RCreate (entryPath rp r), RChmod (entryPath rp r) (modePerm m)]"
| "treeCalls rp r (FLink m t tgt) = []"
| "treeCalls rp r (FDir m t es) = RMkdirAll (entryPath rp r) # treeCallss rp r es"
| "treeCallss rp r [] = []"
| "treeCallss rp r ((nm, T) # es) = treeCalls rp (r @ [nm]) T @ treeCallss rp r es"

definition honestCopy :: "'w sext \<Rightarrow> bool" where
  "honestCopy s \<longleftrightarrow> (\<forall>f data w n v. sf_read_from s f data None w = ((n, None), v) \<longrightarrow> n = int (length data))"

lemma honestCopyD: "honestCopy s \<Longrightarrow> sf_read_from s f data None w = ((n, None), v) \<Longrightarrow> n = int (length data)"
  unfolding honestCopy_def by blast

text \<open>How far a part of an upload got: a beginning of its calls, and all of them with all the bytes if there was no error.\<close>

definition upTo :: "rcall list \<Rightarrow> int \<Rightarrow> 'w up_state \<Rightarrow> goerr option \<times> 'w up_state \<Rightarrow> bool" where
  "upTo plan bytes u r \<longleftrightarrow>
     (\<exists>calls. fst (snd (snd r)) = fst (snd u) @ calls \<and> prefix calls plan \<and>
        (fst r = None \<longrightarrow> calls = plan \<and> fst (snd r) = fst u + bytes))"

lemma upTo_done [simp]: "upTo [] 0 u (None, u)"
  by (simp add: upTo_def)

lemma upTo_then:
  assumes "upTo a m u (e, u1)" and "e = None \<Longrightarrow> upTo b n u1 r"
  shows "upTo (a @ b) (m + n) u (case e of Some e \<Rightarrow> (Some e, u1) | None \<Rightarrow> r)"
proof (cases e)
  case None
  then show ?thesis using assms by (fastforce simp: upTo_def)
next
  case (Some e')
  then show ?thesis using assms by (auto simp: upTo_def prefix_def)
qed

lemma runVisits_upTo_Cons:
  assumes "upTo a m u (fn p (Some (nodeInfo nm T)) None u)"
    and "\<And>u1. upTo b n u1 (runVisits fn vs u1)"
  shows "upTo (a @ b) (m + n) u (runVisits fn ((p, nm, T) # vs) u)"
proof -
  obtain e u1 where f: "fn p (Some (nodeInfo nm T)) None u = (e, u1)" by (metis surj_pair)
  have "runVisits fn ((p, nm, T) # vs) u = (case e of Some e \<Rightarrow> (Some e, u1) | None \<Rightarrow> runVisits fn vs u1)"
    by (simp add: f split: option.split)
  then show ?thesis using upTo_then [of a m u e u1 b n] assms f by simp
qed

lemma runVisits_upTo_append:
  assumes "upTo a m u (runVisits fn vs u)" and "\<And>u1. upTo b n u1 (runVisits fn ws u1)"
  shows "upTo (a @ b) (m + n) u (runVisits fn (vs @ ws) u)"
proof -
  obtain e u1 where f: "runVisits fn vs u = (e, u1)" by (metis surj_pair)
  have "runVisits fn (vs @ ws) u = (case e of Some e \<Rightarrow> (Some e, u1) | None \<Rightarrow> runVisits fn ws u1)"
    by (simp add: f runVisits_append split: option.split)
  then show ?thesis using upTo_then [of a m u e u1 b n] assms f by simp
qed

lemma uploadVisit_rel:
  assumes "rooted p = rooted lp" and "pathElems p = pathElems lp @ r" and "list_all goodElem r"
  shows "uploadVisit x s lf c lp rp p (Some info) None u =
    (case u of (tot, log, st) \<Rightarrow>
       if modeIsLink (fi_Mode info) then (None, u)
       else if modeIsDir (fi_Mode info) then
         (case st_call (io_call (sf_mkdirall s c (entryPath rp r))) st of
            (e, st) \<Rightarrow> (e, tot, log @ [RMkdirAll (entryPath rp r)], st))
       else
         (case uploadFile x s lf c p (entryPath rp r) (fi_Mode info) st of
            ((n, e), calls, st) \<Rightarrow> (e, tot + n, log @ calls, st)))"
  using joinWith_good_dot [OF assms(3)]
  by (cases u; cases "r = []") (simp_all add: uploadVisit_def pathRel_under [OF assms(1,2)] entryPath_def Let_def)

lemma uploadFile_upTo:
  assumes "honestCopy s" and "lf_open lf p = Inr (data, None)"
    and "uploadFile x s lf c p rem mode st = ((n, e), calls, st')"
  shows "upTo [RCreate rem, RChmod rem (modePerm mode)] (int (length data)) (tot, log, st) (e, tot + n, log @ calls, st')"
  using assms
  by (auto simp: uploadFile_def upTo_def st_call_def io_call_def split: sum.splits prod.splits option.splits
      dest: honestCopyD)

lemma upload_visits:
  assumes "honestCopy s"
  shows "mounted lf p nm T \<Longrightarrow> modesOk T \<Longrightarrow> p \<noteq> [] \<Longrightarrow> rooted p = rooted lp \<Longrightarrow> pathElems p = pathElems lp @ r \<Longrightarrow>
      list_all goodElem r \<Longrightarrow> upTo (treeCalls rp r T) (treeBytes T) u (runVisits (uploadVisit x s lf c lp rp) (visits p nm T) u)"
    and "mounteds lf p es \<Longrightarrow> modesOks es \<Longrightarrow> p \<noteq> [] \<Longrightarrow> rooted p = rooted lp \<Longrightarrow> pathElems p = pathElems lp @ r \<Longrightarrow>
      list_all goodElem r \<Longrightarrow> upTo (treeCallss rp r es) (treeBytess es) u (runVisits (uploadVisit x s lf c lp rp) (visitss p es) u)"
proof (induction T and es arbitrary: p nm r u and p r u rule: depth_depths.induct)
  case (1 m t d)
  obtain tot log st where u: "u = (tot, log, st)" by (cases u)
  obtain n e calls st' where f: "uploadFile x s lf c p (entryPath rp r) m st = ((n, e), calls, st')"
    by (metis prod.collapse)
  have o: "lf_open lf p = Inr (d, None)" using 1 by simp
  have "uploadVisit x s lf c lp rp p (Some (nodeInfo nm (FFile m t d))) None u = (e, tot + n, log @ calls, st')"
    unfolding uploadVisit_rel [OF 1(4,5,6)] using 1(2) by (simp add: u f)
  then have "upTo [RCreate (entryPath rp r), RChmod (entryPath rp r) (modePerm m)] (int (length d)) u
      (uploadVisit x s lf c lp rp p (Some (nodeInfo nm (FFile m t d))) None u)"
    using uploadFile_upTo [OF assms o f] u by simp
  from runVisits_upTo_Cons [of _ _ u "uploadVisit x s lf c lp rp", OF this, of "[]" 0 "[]"] show ?case by simp
next
  case (2 m t tgt)
  have "uploadVisit x s lf c lp rp p (Some (nodeInfo nm (FLink m t tgt))) None u = (None, u)"
    unfolding uploadVisit_rel [OF 2(4,5,6)] by (cases u) simp
  then show ?case by (simp del: nodeInfo.simps)
next
  case (3 m t es)
  obtain tot log st where u: "u = (tot, log, st)" by (cases u)
  have "\<not> modeIsLink (m OR ModeDir)" using 3(3) by simp
  then have "upTo [RMkdirAll (entryPath rp r)] 0 u (uploadVisit x s lf c lp rp p (Some (nodeInfo nm (FDir m t es))) None u)"
    unfolding uploadVisit_rel [OF 3(5,6,7)]
    by (simp add: u upTo_def split: prod.splits)
  from runVisits_upTo_Cons [of _ _ u "uploadVisit x s lf c lp rp", OF this, of "treeCallss rp r es" "treeBytess es" "visitss p es"]
  show ?case using 3 by simp
next
  case 4
  then show ?case by simp
next
  case (5 nm T es)
  have nm: "goodElem nm" using 5 by simp
  note elems = pathElems_join_name [OF 5(5) nm]
  have "upTo (treeCalls rp (r @ [nm]) T) (treeBytes T) u
      (runVisits (uploadVisit x s lf c lp rp) (visits (pathJoin [p, nm]) nm T) u)"
    by (rule 5(1)) (use 5 nm elems in simp_all)
  from runVisits_upTo_append [OF this, of "treeCallss rp r es" "treeBytess es" "visitss p es"]
  show ?case using 5 by simp
qed

text \<open>
  C26. \<open>Upload\<close> of a directory mirrors it: whatever the server answers, the calls that change the remote side are a beginning of
  the plan for the tree (its directories made under \<open>remotePath\<close> before what is in them, each file created at its path and given its
  permission bits, links left out), and without an error they are the whole plan and the count is the bytes of all its files.
\<close>

theorem Upload_mirrors:
  assumes "honestCopy s" and "mounted lf lp nm (FDir m t es)" and "modesOk (FDir m t es)" and "depth (FDir m t es) \<le> n" and "lp \<noteq> []"
    and "sftpClient s p st = (Inr c, st1)"
  shows "\<exists>cnt err calls st'. Upload x s lf n p lp rp st = Some ((cnt, err), calls, st')
     \<and> prefix calls (RMkdirAll rp # treeCalls rp [] (FDir m t es))
     \<and> (err = None \<longrightarrow> calls = RMkdirAll rp # treeCalls rp [] (FDir m t es) \<and> cnt = treeBytes (FDir m t es))"
proof -
  let ?T = "FDir m t es"
  obtain e st2 where mk: "st_call (io_call (sf_mkdirall s c rp)) st1 = (e, st2)" by fastforce
  have ls: "lf_lstat lf lp = Inr (nodeInfo nm ?T)" "modeIsDir (fi_Mode (nodeInfo nm ?T))" using assms(2) by simp_all
  show ?thesis
  proof (cases e)
    case (Some e')
    then show ?thesis using assms(6) ls mk by (simp add: Upload_def del: nodeInfo.simps)
  next
    case None
    let ?u = "(0, [RMkdirAll rp], st2)" and ?fn = "uploadVisit x s lf c lp rp"
    obtain we tot log st3 where r: "runVisits ?fn (visits lp nm ?T) ?u = (we, tot, log, st3)" by (metis surj_pair)
    have w: "Walk lf ?fn n lp ?u = Some (we, tot, log, st3)"
      using walk_visits(1) [OF assms(2,3,4), of ?fn ?u] ls(1) unfolding r by (simp only: Walk_def sum.case)
    have "upTo (treeCalls rp [] ?T) (treeBytes ?T) ?u (we, tot, log, st3)"
      unfolding r [symmetric] by (rule upload_visits(1) [OF assms(1,2,3,5)]) simp_all
    then obtain calls where calls: "log = [RMkdirAll rp] @ calls" "prefix calls (treeCalls rp [] ?T)"
        "we = None \<longrightarrow> calls = treeCalls rp [] ?T \<and> tot = treeBytes ?T"
      unfolding upTo_def fst_conv snd_conv by auto
    have "Upload x s lf n p lp rp st = Some ((tot, we), log, st3)"
      using ls(2) by (simp add: Upload_def assms(6) ls(1) mk None w del: nodeInfo.simps)
    then show ?thesis using calls by (intro exI conjI) (assumption, simp_all del: treeCalls.simps treeBytes.simps)
  qed
qed

section \<open>Downloading a tree\<close>

lemma downloadFile_changes:
  assumes "downloadFile x s pr c remote local fs st = (r, fs', st')" and "fs' j \<noteq> fs j" and "local \<noteq> []" and "pr_cwd pr \<noteq> []"
  shows "comparable j (pathKey pr local)"
proof -
  define fs1 where "fs1 = (if pathDir local \<noteq> ''.'' \<and> pathDir local \<noteq> [] then snd (osMkdirAll pr (pathDir local) 0x1ED fs) else fs)"
  have dir: "comparable (pathKey pr (pathDir local)) (pathKey pr local)"
    using pathKey_dir_comparable [OF assms(3,4)] by (simp add: comparable_def)
  show ?thesis
  proof (cases "fs1 j = fs j")
    case False
    then have "prefix j (pathKey pr (pathDir local))"
      using mkdirAll_changes [of pr "pathDir local" "0x1ED" fs _ fs1 j] by (auto simp: fs1_def prod_eq_iff split: if_splits)
    with dir show ?thesis by (rule comparable_prefix)
  next
    case same: True
    obtain q st2 where q: "st_call (io_open (sf_open s c remote)) st = (q, st2)" by fastforce
    obtain e fs2 where cr: "osCreate pr local 0x1B6 fs1 = (e, fs2)" by fastforce
    note dl = assms(1) [unfolded downloadFile_def Let_def, folded fs1_def, unfolded q cr]
    have "j = pathKey pr local"
    proof (cases "fs2 j = fs1 j")
      case False
      then show ?thesis by (rule create_changes [OF cr])
    next
      case True
      with dl same assms(2) obtain f where f: "q = Inr f" "e = None" by (cases q; cases e) auto
      obtain data rerr st3 where wt: "st_call (io_call (sf_write_to s f)) st2 = ((data, rerr), st3)" by (metis surj_pair)
      obtain r2 fs3 where cp: "copyToFile pr local data rerr fs2 = (r2, fs3)" by fastforce
      have "fs' = fs3" using dl f wt cp by simp
      then show ?thesis using copy_changes [OF cp, of j] True same assms(2) by simp
    qed
    then show ?thesis by (simp add: comparable_def)
  qed
qed

lemma walkLocal_inside:
  assumes "lp \<noteq> []" and "pr_cwd pr \<noteq> []" and "''..'' \<notin> set (splitOn CHR ''/'' (walkRel rp wp))"
  shows "prefix (pathKey pr lp) (pathKey pr (walkLocal rp lp wp))" "walkLocal rp lp wp \<noteq> []"
  using pathKey_inside [OF assms] assms(1) by (simp_all add: walkLocal_def Let_def)

lemma downloadLoop_changes:
  assumes "downloadLoop x s pr c rp lp steps tot fs st = (r, fs', st')" and "fs' j \<noteq> fs j" and "lp \<noteq> []" and "pr_cwd pr \<noteq> []"
    and "\<forall>(wp, _) \<in> set steps. ''..'' \<notin> set (splitOn CHR ''/'' (walkRel rp wp))"
  shows "comparable j (pathKey pr lp)"
  using assms
proof (induction x s pr c rp lp steps tot fs st rule: downloadLoop.induct)
  case (3 x s pr c rp lp wp info steps tot fs st)
  note inside = walkLocal_inside [OF 3(6,7), of rp wp]
  have ins: "prefix (pathKey pr lp) (pathKey pr (walkLocal rp lp wp))" "walkLocal rp lp wp \<noteq> []"
    using inside 3(8) by simp_all
  consider (lnk) "modeIsLink (fi_Mode info)" | (dir) "\<not> modeIsLink (fi_Mode info)" "modeIsDir (fi_Mode info)"
    | (plain) "\<not> modeIsLink (fi_Mode info)" "\<not> modeIsDir (fi_Mode info)" by blast
  then show ?case
  proof cases
    case lnk
    then show ?thesis using 3 by (simp add: Let_def)
  next
    case dir
    obtain e fs1 where mk: "osMkdirAll pr (walkLocal rp lp wp) 0x1ED fs = (e, fs1)" by fastforce
    show ?thesis
    proof (cases "fs1 j = fs j")
      case False
      from mkdirAll_changes [OF mk this] ins(1) show ?thesis by (metis comparable_def prefix_same_cases)
    next
      case True
      then show ?thesis using 3 dir mk by (cases e) (auto simp: Let_def)
    qed
  next
    case plain
    obtain n e fs1 st1 where d: "downloadFile x s pr c wp (walkLocal rp lp wp) fs st = ((n, e), fs1, st1)"
      by (metis prod.collapse)
    show ?thesis
    proof (cases "fs1 j = fs j")
      case False
      from downloadFile_changes [OF d this ins(2) 3(7)] ins(1) show ?thesis by (rule comparable_trans)
    next
      case True
      then show ?thesis using 3 plain d by (cases e) (auto simp: Let_def)
    qed
  qed
qed auto

text \<open>
  \<open>Download\<close> over sftp of a directory writes only at or under \<open>localPath\<close> (and makes the directories that lead to it) as long as
  no path of the server's walk has an element \<open>..\<close> after the remote path has been cut off.
\<close>

theorem sftp_download_confined:
  assumes "downloadLoop x s pr c rp lp steps 0 fs st = (r, fs', st')" and "fs' j \<noteq> fs j" and "lp \<noteq> []" and "pr_cwd pr \<noteq> []"
    and "\<forall>(wp, _) \<in> set steps. ''..'' \<notin> set (splitOn CHR ''/'' (walkRel rp wp))"
  shows "prefix (pathKey pr lp) j \<or> prefix j (pathKey pr lp)"
  using downloadLoop_changes [OF assms] by (auto simp: comparable_def)

text \<open>A link given as the path itself is not skipped: what it points to is sent.\<close>

theorem sftp_upload_follows_link:
  assumes "sftpClient s p st = (Inr c, st1)" and "lf_lstat lf lp = Inr info" and "modeIsLink (fi_Mode info)"
    and "\<not> modeIsDir (fi_Mode info)"
  shows "Upload x s lf n p lp rp st = Some (uploadFile x s lf c lp rp (fi_Mode info) st1)"
  using assms by (simp add: Upload_def)

section \<open>Worked instances\<close>

definition demo_sext :: "nat sext" where
  "demo_sext = \<lparr>sf_new = (\<lambda>h n. (None, Suc n)), sf_readdir = (\<lambda>h q n. (Inr [], Suc n)), sf_readlink = (\<lambda>h q n. ([], Suc n)),
     sf_stat = (\<lambda>h q n. (Inl (ExtErr ''ENOENT''), Suc n)), sf_lstat = (\<lambda>h q n. (Inl (ExtErr ''ENOENT''), Suc n)),
     sf_open = (\<lambda>h q n. (None, Suc n)), sf_openfile = (\<lambda>h q f n. (None, Suc n)), sf_create = (\<lambda>h q n. (None, Suc n)),
     sf_seek = (\<lambda>h i n. (None, Suc n)), sf_read = (\<lambda>h m n. ((''hello'', None), Suc n)), sf_write = (\<lambda>h d n. (None, Suc n)),
     sf_remove = (\<lambda>h q n. (None, Suc n)), sf_mkdirall = (\<lambda>h q n. (None, Suc n)), sf_mkdir = (\<lambda>h q n. (None, Suc n)),
     sf_chmod = (\<lambda>h q m n. (None, Suc n)), sf_rename = (\<lambda>h q r n. (None, Suc n)),
     sf_read_from = (\<lambda>h d e n. ((int (length d), e), Suc n)), sf_write_to = (\<lambda>h n. ((''hello'', None), Suc n)),
     sf_walk = (\<lambda>h q n. ([], Suc n))\<rparr>"

lemma demo_read: "fst (FileRead demo_ext demo_sext 0 ''/f'' 0 2 demo_st) = (''he'', None)"
  by (simp add: FileRead_def sftpClient_def getClient_def demo_st_def demo_session_def demo_sext_def st_call_def io_call_def
      io_open_def readUpTo_def maxFileReadBytes_def)

theorem FileRead_bounded_witness:
  "fst (fst (FileRead demo_ext demo_sext 0 ''/f'' 0 2 demo_st)) = ''he'' \<and>
   length (fst (fst (FileRead demo_ext demo_sext 0 ''/f'' 0 2 demo_st))) \<le> maxFileReadBytes \<and>
   mgr_ok (snd (FileRead demo_ext demo_sext 0 ''/f'' 0 2 demo_st))"
proof -
  let ?r = "FileRead demo_ext demo_sext 0 ''/f'' 0 2 demo_st"
  have "?r = ((fst (fst ?r), snd (fst ?r)), snd ?r)" by simp
  from FileRead_bounded [OF demo_mgr_ok demo_get_a this] demo_read show ?thesis by simp
qed

theorem Upload_mirrors_witness:
  "\<exists>cnt err calls st'. Upload demo_ext demo_sext demo_lf 3 0 ''/s'' ''/r'' demo_st = Some ((cnt, err), calls, st')
     \<and> prefix calls (RMkdirAll ''/r'' # treeCalls ''/r'' [] (FDir 0x1ED 1 demo_tree))
     \<and> (err = None \<longrightarrow> calls = RMkdirAll ''/r'' # treeCalls ''/r'' [] (FDir 0x1ED 1 demo_tree)
          \<and> cnt = treeBytes (FDir 0x1ED 1 demo_tree))"
proof -
  have "honestCopy demo_sext" by (simp add: honestCopy_def demo_sext_def)
  moreover have "modesOk (FDir 0x1ED 1 demo_tree)" "depth (FDir 0x1ED 1 demo_tree) \<le> 3"
    by (simp_all add: demo_tree_def modeIsDir_def modeIsLink_def ModeDir_def ModeSymlink_def goodElem_def)
  moreover have "\<exists>c st1. sftpClient demo_sext 0 demo_st = (Inr c, st1)"
    by (simp add: sftpClient_def getClient_def demo_st_def demo_session_def demo_sext_def st_call_def io_open_def)
  ultimately show ?thesis using Upload_mirrors [OF _ demo_mounted] by blast
qed

definition demo_steps :: "(string \<times> FileInfo \<times> goerr option) list" where
  "demo_steps = [(''/r/d'', nodeInfo ''d'' (FDir 0x1ED 1 []), None)]"

theorem sftp_download_confined_witness:
  "fst (snd (downloadLoop demo_ext demo_sext demo_proc 5 ''/r'' ''/out'' demo_steps 0 demo_root demo_st)) [''out'', ''d''] \<noteq>
     demo_root [''out'', ''d'']
   \<and> (prefix (pathKey demo_proc ''/out'') [''out'', ''d''] \<or> prefix [''out'', ''d''] (pathKey demo_proc ''/out''))"
proof -
  let ?d = "downloadLoop demo_ext demo_sext demo_proc 5 ''/r'' ''/out'' demo_steps 0 demo_root demo_st"
  have key: "pathKey demo_proc (walkLocal ''/r'' ''/out'' ''/r/d'') = [''out'', ''d'']" "walkLocal ''/r'' ''/out'' ''/r/d'' \<noteq> []" by code_simp+
  have info: "modeIsDir (fi_Mode (nodeInfo ''d'' (FDir 0x1ED 1 [])))" "\<not> modeIsLink (fi_Mode (nodeInfo ''d'' (FDir 0x1ED 1 [])))"
    by (simp_all) (simp add: modeIsLink_def ModeSymlink_def)
  have "snd (osMkdirAll demo_proc (walkLocal ''/r'' ''/out'' ''/r/d'') 0x1ED demo_root) [''out'', ''d''] = Some (DDir 0x1ED)"
    unfolding osMkdirAll_def by (simp add: key osMkdir_def inDir_def demo_root_def dirWritable_def) (simp add: demo_proc_def)
  then have changed: "fst (snd ?d) [''out'', ''d''] \<noteq> demo_root [''out'', ''d'']"
    using info by (simp add: demo_steps_def demo_root_def Let_def case_prod_beta del: nodeInfo.simps split: option.split)
  have "''..'' \<notin> set (splitOn CHR ''/'' (walkRel ''/r'' ''/r/d''))" by code_simp
  then have clean: "\<forall>(wp, _) \<in> set demo_steps. ''..'' \<notin> set (splitOn CHR ''/'' (walkRel ''/r'' wp))"
    by (simp add: demo_steps_def)
  have "?d = (fst ?d, fst (snd ?d), snd (snd ?d))" by simp
  from sftp_download_confined [OF this changed _ _ clean] changed show ?thesis by (simp add: demo_proc_def)
qed

end
