(* ===== verification/ToolSsh.thy ===== *)
theory ToolSsh
  imports SshSftpProps StateProps
begin

text \<open>
  The ssh tools: \<open>internal/mcptools/ssh.go\<close>, \<open>ssh_shell.go\<close>, \<open>forward.go\<close> and \<open>sftp.go\<close>, and the
  argument helpers of \<open>server.go\<close>.  A handler gets its request as the accessors of \<open>mcp-go\<close> give it (or as \<open>bind\<close>
  decoded it), checks it, calls the ssh manager and says what the reply is.
\<close>

section \<open>Requests, replies and the state of the tools\<close>

text \<open>\<open>RequireString\<close>, \<open>RequireInt\<close>, and what the getters with a default find.\<close>

record treq =
  rq_str :: "string \<Rightarrow> string res"
  rq_int :: "string \<Rightarrow> int res"
  rq_str0 :: "string \<Rightarrow> string option"
  rq_int0 :: "string \<Rightarrow> int option"
  rq_bool0 :: "string \<Rightarrow> bool option"

definition getOr :: "'a option \<Rightarrow> 'a \<Rightarrow> 'a" where
  "getOr v dflt = (case v of None \<Rightarrow> dflt | Some a \<Rightarrow> a)"

text \<open>A reply carries an error, a text, or a value that is encoded in the output format; \<open>JShells None\<close> is a nil slice.\<close>

datatype reply_value =
    JSession SessionInfo
  | JSessions "SessionRow list"
  | JExec "ExecResult option"
  | JForward ForwardInfo
  | JForwards "ForwardInfo list"
  | JShell ShellInfo
  | JShells "ShellInfo list option"
  | JWritten int
  | JOutput string bool
  | JEntries "FileEntry list"
  | JEntry FileEntry
  | JFile string
  | JBytes int

datatype 'v reply = TErr goerr | TText string | TValue 'v

fun isErr :: "'v reply \<Rightarrow> bool" where
  "isErr (TErr e) = True"
| "isErr _ = False"

text \<open>
  What the handlers of the ssh tools work on: the manager, the local files, and how often \<open>Persist\<close> was
  called (the flusher is in \<open>Flusher\<close>).
\<close>

record 'w sstate =
  t_ssh :: "'w st"
  t_fs :: dfs
  t_persists :: nat

record 'w senv =
  e_x :: "'w ext"
  e_s :: "'w sext"
  e_lf :: localfs
  e_pr :: proc
  e_hops :: nat           \<comment> \<open>bound on the ssh config's recursion\<close>
  e_deep :: nat           \<comment> \<open>bound on the depth of local directories\<close>
  e_wait :: "choice list" \<comment> \<open>the runtime's choices while a shell is read\<close>

type_synonym ('v, 's) hres = "('v reply \<times> 's) option"

text \<open>
  The steps of a handler: an argument or a call that failed is the reply; \<open>onSsh\<close> runs a call of the
  manager; the reply is \<open>None\<close> only when a bound was too small.
\<close>

definition need :: "'a res \<Rightarrow> ('a \<Rightarrow> 's \<Rightarrow> ('v, 's) hres) \<Rightarrow> 's \<Rightarrow> ('v, 's) hres" where
  "need r k s = (case r of Inl e \<Rightarrow> Some (TErr e, s) | Inr a \<Rightarrow> k a s)"

definition guard :: "bool \<Rightarrow> string \<Rightarrow> ('s \<Rightarrow> ('v, 's) hres) \<Rightarrow> 's \<Rightarrow> ('v, 's) hres" where
  "guard b msg k s = (if b then k s else Some (TErr (Errorf msg []), s))"

definition onSsh :: "('w st \<Rightarrow> 'a \<times> 'w st) \<Rightarrow> ('a \<Rightarrow> 'w sstate \<Rightarrow> ('v, 'w sstate) hres) \<Rightarrow> 'w sstate \<Rightarrow> ('v, 'w sstate) hres" where
  "onSsh f k s = (case f (t_ssh s) of (a, st) \<Rightarrow> k a (s\<lparr>t_ssh := st\<rparr>))"

definition askPersist :: "'w sstate \<Rightarrow> 'w sstate" where
  "askPersist s = s\<lparr>t_persists := Suc (t_persists s)\<rparr>"

definition say :: "'v reply \<Rightarrow> 's \<Rightarrow> ('v, 's) hres" where
  "say r s = Some (r, s)"

definition sayErr :: "goerr option \<Rightarrow> ('s \<Rightarrow> ('v, 's) hres) \<Rightarrow> 's \<Rightarrow> ('v, 's) hres" where
  "sayErr e k s = (case e of Some e \<Rightarrow> Some (TErr e, s) | None \<Rightarrow> k s)"

definition getSession :: "string \<Rightarrow> (ptr \<Rightarrow> 'w sstate \<Rightarrow> ('v, 'w sstate) hres) \<Rightarrow> 'w sstate \<Rightarrow> ('v, 'w sstate) hres" where
  "getSession sid k s = need (Get (t_ssh s) sid) k s"

lemmas handler_defs = need_def guard_def onSsh_def say_def sayErr_def getSession_def

text \<open>
  A contract over handlers: a relation between the state before and after that the handler keeps.  The rules
  follow the way handlers are put together.
\<close>

named_theorems keeps_intros \<open>rules for handlers that keep a contract\<close>

locale handler_contract =
  fixes keep :: "'s \<Rightarrow> 's \<Rightarrow> bool"
  assumes keep_refl: "keep s s"
    and keep_trans: "keep s t \<Longrightarrow> keep t u \<Longrightarrow> keep s u"
begin

definition keeps :: "('s \<Rightarrow> ('v, 's) hres) \<Rightarrow> bool" where
  "keeps h \<longleftrightarrow> (\<forall>s r s'. h s = Some (r, s') \<longrightarrow> keep s s')"

lemma keepsI: "(\<And>s r s'. h s = Some (r, s') \<Longrightarrow> keep s s') \<Longrightarrow> keeps h"
  unfolding keeps_def by blast

lemma keepsD: "keeps h \<Longrightarrow> h s = Some (r, s') \<Longrightarrow> keep s s'"
  unfolding keeps_def by blast

lemma keeps_say [keeps_intros]: "keeps (say r)"
  by (rule keepsI) (simp add: say_def keep_refl)

lemma keeps_sayAt [keeps_intros]: "keeps (\<lambda>s. say (f s) s)"
  by (rule keepsI) (auto simp: say_def keep_refl)

lemma keeps_needAt:
  assumes "\<And>a. keeps (k a)"
  shows "keeps (\<lambda>s. need (f s) k s)"
proof (rule keepsI)
  fix s r s'
  assume "need (f s) k s = Some (r, s')"
  then show "keep s s'" using keepsD [OF assms] keep_refl by (cases "f s") (auto simp: need_def)
qed

lemma keeps_need [keeps_intros]: "(\<And>a. keeps (k a)) \<Longrightarrow> keeps (need r k)"
  using keeps_needAt [of k "\<lambda>s. r"] by simp

lemma keeps_guard [keeps_intros]: "keeps k \<Longrightarrow> keeps (guard b msg k)"
  by (rule keepsI) (auto simp: guard_def keep_refl split: if_splits dest: keepsD)

lemma keeps_sayErr [keeps_intros]: "keeps k \<Longrightarrow> keeps (sayErr e k)"
  by (rule keepsI) (auto simp: sayErr_def keep_refl split: option.splits dest: keepsD)

lemma keeps_case_prod [keeps_intros]: "(\<And>a b. keeps (k a b)) \<Longrightarrow> keeps (case ab of (a, b) \<Rightarrow> k a b)"
  by (cases ab) simp

text \<open>A handler that goes on in a state reached by something that keeps the contract.\<close>

lemma keeps_then: "keep s t \<Longrightarrow> keeps k \<Longrightarrow> k t = Some (r, s') \<Longrightarrow> keep s s'"
  using keepsD keep_trans by blast

end

section \<open>Timeouts\<close>

definition maxReadTimeout :: int where
  "maxReadTimeout = 5 * 60 * 1000"

definition clampReadTimeout :: "int \<Rightarrow> int" where
  "clampReadTimeout ms = (if ms < 0 then 0 else if ms > maxReadTimeout then maxReadTimeout else ms)"

text \<open>The timeout \<open>execContext\<close> gives its context, in milliseconds.\<close>

definition execTimeout :: "int \<Rightarrow> int \<Rightarrow> int" where
  "execTimeout timeoutMs defaultMs =
     (let t = (if timeoutMs \<le> 0 then defaultMs else timeoutMs) in
      if t > 60 * 60 * 1000 then 60 * 60 * 1000 else t)"

section \<open>ssh.go\<close>

definition handleSSHConnect :: "'w senv \<Rightarrow> (string \<times> spec_val) res \<Rightarrow> 'w sstate \<Rightarrow> (reply_value, 'w sstate) hres" where
  "handleSSHConnect E args = need args (\<lambda>(k, v) s.
     (case allocSpec v (t_ssh s) of (spec, st) \<Rightarrow>
        (case Connect (e_x E) (e_hops E) k spec st of
           None \<Rightarrow> None
         | Some (Inl e, st) \<Rightarrow> Some (TErr e, s\<lparr>t_ssh := st\<rparr>)
         | Some (Inr p, st) \<Rightarrow> Some (TValue (JSession (Info st p)), askPersist (s\<lparr>t_ssh := st\<rparr>)))))"

definition handleSSHDisconnect :: "'w senv \<Rightarrow> treq \<Rightarrow> 'w sstate \<Rightarrow> (reply_value, 'w sstate) hres" where
  "handleSSHDisconnect E r = need (rq_str r ''id'') (\<lambda>k.
     onSsh (Disconnect (e_x E) k) (\<lambda>e. sayErr e (\<lambda>s. say (TText (''disconnected '' @ k)) (askPersist s))))"

definition handleSSHList :: "'w sstate \<Rightarrow> (reply_value, 'w sstate) hres" where
  "handleSSHList s = say (TValue (JSessions (map Row (ListSessions (t_ssh s))))) s"

definition handleSSHInfo :: "treq \<Rightarrow> 'w sstate \<Rightarrow> (reply_value, 'w sstate) hres" where
  "handleSSHInfo r = need (rq_str r ''id'') (\<lambda>k. getSession k (\<lambda>p s. say (TValue (JSession (Info (t_ssh s) p))) s))"

definition handleSSHReconnect :: "'w senv \<Rightarrow> treq \<Rightarrow> 'w sstate \<Rightarrow> (reply_value, 'w sstate) hres" where
  "handleSSHReconnect E r = need (rq_str r ''id'') (\<lambda>k.
     onSsh (Reconnect (e_x E) k) (\<lambda>q. need q (\<lambda>p s. say (TValue (JSession (Info (t_ssh s) p))) s)))"

definition handleSSHClone :: "'w senv \<Rightarrow> treq \<Rightarrow> 'w sstate \<Rightarrow> (reply_value, 'w sstate) hres" where
  "handleSSHClone E r = need (rq_str r ''source_id'') (\<lambda>src. need (rq_str r ''new_id'') (\<lambda>dst s.
     (case CloneSession (e_x E) (e_hops E) src dst (t_ssh s) of
        None \<Rightarrow> None
      | Some (Inl e, st) \<Rightarrow> Some (TErr e, s\<lparr>t_ssh := st\<rparr>)
      | Some (Inr p, st) \<Rightarrow> Some (TValue (JSession (Info st p)), askPersist (s\<lparr>t_ssh := st\<rparr>)))))"

record sshExecArgs =
  xa_SessionID :: string
  xa_Command :: string
  xa_Env :: "string gomap"
  xa_Stdin :: string
  xa_TimeoutMs :: int

text \<open>The context's timeout shows as the outcome of the run, which the outside world decides.\<close>

definition handleSSHExec :: "'w senv \<Rightarrow> sshExecArgs res \<Rightarrow> 'w sstate \<Rightarrow> (reply_value, 'w sstate) hres" where
  "handleSSHExec E args = need args (\<lambda>a. getSession (xa_SessionID a) (\<lambda>p.
     onSsh (Exec (e_x E) p (xa_Command a) (xa_Env a) (xa_Stdin a))
       (\<lambda>(res, e). sayErr e (say (TValue (JExec res))))))"

section \<open>ssh_shell.go\<close>

record shellOpenArgs =
  oa_SessionID :: string
  oa_ShellID :: string
  oa_Term :: string
  oa_Rows :: int
  oa_Cols :: int
  oa_Command :: string
  oa_Env :: "string gomap"

definition handleShellOpen :: "'w senv \<Rightarrow> shellOpenArgs res \<Rightarrow> 'w sstate \<Rightarrow> (reply_value, 'w sstate) hres" where
  "handleShellOpen E args = need args (\<lambda>a. getSession (oa_SessionID a) (\<lambda>p.
     onSsh (OpenShell (e_x E) p (oa_ShellID a) \<lparr>o_Term = oa_Term a, o_Rows = oa_Rows a, o_Cols = oa_Cols a,
              o_Env = oa_Env a, o_Command = oa_Command a, o_BufferSize = 0\<rparr>)
       (\<lambda>q. need q (\<lambda>h s. say (TValue (JShell (shellInfo (shl (t_ssh s) h)))) s))))"

definition getShell :: "string \<Rightarrow> ptr \<Rightarrow> (ptr \<Rightarrow> 'w sstate \<Rightarrow> ('v, 'w sstate) hres) \<Rightarrow> 'w sstate \<Rightarrow> ('v, 'w sstate) hres" where
  "getShell shid p k s = need (GetShell (t_ssh s) p shid) k s"

definition handleShellWrite :: "'w senv \<Rightarrow> treq \<Rightarrow> 'w sstate \<Rightarrow> (reply_value, 'w sstate) hres" where
  "handleShellWrite E r = need (rq_str r ''session_id'') (\<lambda>sid. need (rq_str r ''shell_id'') (\<lambda>shid.
     need (rq_str r ''data'') (\<lambda>data. getSession sid (\<lambda>p. getShell shid p (\<lambda>h.
       onSsh (shellWrite (e_x E) h data) (\<lambda>(n, e). sayErr e (say (TValue (JWritten n)))))))))"

definition handleShellRead :: "'w senv \<Rightarrow> treq \<Rightarrow> 'w sstate \<Rightarrow> (reply_value, 'w sstate) hres" where
  "handleShellRead E r = need (rq_str r ''session_id'') (\<lambda>sid. need (rq_str r ''shell_id'') (\<lambda>shid.
     getSession sid (\<lambda>p. getShell shid p (\<lambda>h s.
       (case shellRead (e_wait E) h (t_ssh s) of
          None \<Rightarrow> None
        | Some (RData d, st) \<Rightarrow> Some (TValue (JOutput d False), s\<lparr>t_ssh := st\<rparr>)
        | Some (RTimeout, st) \<Rightarrow> Some (TValue (JOutput [] False), s\<lparr>t_ssh := st\<rparr>)
        | Some (REof, st) \<Rightarrow> Some (TValue (JOutput [] True), s\<lparr>t_ssh := st\<rparr>))))))"

definition sizeOk :: "int \<Rightarrow> int \<Rightarrow> bool" where
  "sizeOk rows cols \<longleftrightarrow> 1 \<le> rows \<and> rows \<le> 1000 \<and> 1 \<le> cols \<and> cols \<le> 1000"

definition handleShellResize :: "'w senv \<Rightarrow> treq \<Rightarrow> 'w sstate \<Rightarrow> (reply_value, 'w sstate) hres" where
  "handleShellResize E r = need (rq_str r ''session_id'') (\<lambda>sid. need (rq_str r ''shell_id'') (\<lambda>shid.
     need (rq_int r ''rows'') (\<lambda>rows. need (rq_int r ''cols'') (\<lambda>cols.
       guard (sizeOk rows cols) ''rows/cols must be in [1, 1000]'' (getSession sid (\<lambda>p. getShell shid p (\<lambda>h.
         onSsh (shellResize (e_x E) h rows cols) (\<lambda>e. sayErr e (say (TText ''ok''))))))))))"

definition handleShellClose :: "'w senv \<Rightarrow> treq \<Rightarrow> 'w sstate \<Rightarrow> (reply_value, 'w sstate) hres" where
  "handleShellClose E r = need (rq_str r ''session_id'') (\<lambda>sid. need (rq_str r ''shell_id'') (\<lambda>shid.
     getSession sid (\<lambda>p. onSsh (CloseShell (e_x E) p shid) (\<lambda>e. sayErr e (say (TText (''closed '' @ shid)))))))"

text \<open>Without a session the slice starts nil, and appending nothing leaves it nil.\<close>

definition handleShellList :: "treq \<Rightarrow> 'w sstate \<Rightarrow> (reply_value, 'w sstate) hres" where
  "handleShellList r s =
     (let sid = getOr (rq_str0 r ''session_id'') [] in
      if sid = [] then
        (let all = concat (map (ListShells (t_ssh s)) (gm_vals (Sessions (t_ssh s)))) in
         say (TValue (JShells (if all = [] then None else Some all))) s)
      else getSession sid (\<lambda>p s. say (TValue (JShells (Some (ListShells (t_ssh s) p)))) s) s)"

section \<open>forward.go\<close>

definition bindPortOk :: "int \<Rightarrow> bool" where
  "bindPortOk n \<longleftrightarrow> 0 \<le> n \<and> n \<le> 65535"

definition targetPortOk :: "int \<Rightarrow> bool" where
  "targetPortOk n \<longleftrightarrow> 1 \<le> n \<and> n \<le> 65535"

definition sayForward :: "ptr res \<Rightarrow> 'w sstate \<Rightarrow> (reply_value, 'w sstate) hres" where
  "sayForward q = need q (\<lambda>f s. say (TValue (JForward (fwdInfo (fwd (t_ssh s) f)))) (askPersist s))"

definition handleForwardLocal :: "'w senv \<Rightarrow> treq \<Rightarrow> 'w sstate \<Rightarrow> (reply_value, 'w sstate) hres" where
  "handleForwardLocal E r = need (rq_str r ''session_id'') (\<lambda>sid. need (rq_str r ''forward_id'') (\<lambda>fid.
     need (rq_int r ''bind_port'') (\<lambda>bindPort. need (rq_str r ''remote_host'') (\<lambda>remoteHost.
     need (rq_int r ''remote_port'') (\<lambda>remotePort.
       guard (bindPortOk bindPort \<and> targetPortOk remotePort)
         ''ports must be in [1, 65535] (bind_port also accepts 0 = pick free)''
         (onSsh (OpenLocalForward (e_x E) sid fid \<lparr>ls_BindAddr = getOr (rq_str0 r ''bind_addr'') [], ls_BindPort = bindPort,
                   ls_RemoteHost = remoteHost, ls_RemotePort = remotePort\<rparr>) sayForward))))))"

definition handleForwardRemote :: "'w senv \<Rightarrow> treq \<Rightarrow> 'w sstate \<Rightarrow> (reply_value, 'w sstate) hres" where
  "handleForwardRemote E r = need (rq_str r ''session_id'') (\<lambda>sid. need (rq_str r ''forward_id'') (\<lambda>fid.
     need (rq_int r ''bind_port'') (\<lambda>bindPort. need (rq_int r ''local_port'') (\<lambda>localPort.
       guard (bindPortOk bindPort \<and> targetPortOk localPort)
         ''ports must be in [1, 65535] (bind_port also accepts 0 = pick free)''
         (onSsh (OpenRemoteForward (e_x E) sid fid \<lparr>rs_BindAddr = getOr (rq_str0 r ''bind_addr'') [], rs_BindPort = bindPort,
                   rs_LocalHost = getOr (rq_str0 r ''local_host'') [], rs_LocalPort = localPort\<rparr>) sayForward)))))"

definition handleForwardDynamic :: "'w senv \<Rightarrow> treq \<Rightarrow> 'w sstate \<Rightarrow> (reply_value, 'w sstate) hres" where
  "handleForwardDynamic E r = need (rq_str r ''session_id'') (\<lambda>sid. need (rq_str r ''forward_id'') (\<lambda>fid.
     need (rq_int r ''bind_port'') (\<lambda>bindPort.
       guard (bindPortOk bindPort) ''bind_port must be in [0, 65535]''
         (onSsh (OpenDynamicForward (e_x E) sid fid
                   \<lparr>ds_BindAddr = getOr (rq_str0 r ''bind_addr'') [], ds_BindPort = bindPort\<rparr>) sayForward))))"

definition handleForwardList :: "treq \<Rightarrow> 'w sstate \<Rightarrow> (reply_value, 'w sstate) hres" where
  "handleForwardList r s =
     need (ListForwards (t_ssh s) (getOr (rq_str0 r ''session_id'') [])) (\<lambda>l. say (TValue (JForwards l))) s"

definition handleForwardCancel :: "'w senv \<Rightarrow> treq \<Rightarrow> 'w sstate \<Rightarrow> (reply_value, 'w sstate) hres" where
  "handleForwardCancel E r = need (rq_str r ''session_id'') (\<lambda>sid. need (rq_str r ''forward_id'') (\<lambda>fid.
     onSsh (CloseForward (e_x E) sid fid) (\<lambda>e. sayErr e (\<lambda>s. say (TText (''cancelled '' @ fid)) (askPersist s)))))"

section \<open>sftp.go\<close>

definition handleFileList :: "'w senv \<Rightarrow> treq \<Rightarrow> 'w sstate \<Rightarrow> (reply_value, 'w sstate) hres" where
  "handleFileList E r = need (rq_str r ''session_id'') (\<lambda>sid. need (rq_str r ''path'') (\<lambda>path. getSession sid (\<lambda>p.
     onSsh (FileList (e_s E) p path) (\<lambda>q. need q (\<lambda>es. say (TValue (JEntries es)))))))"

definition handleFileStat :: "'w senv \<Rightarrow> treq \<Rightarrow> 'w sstate \<Rightarrow> (reply_value, 'w sstate) hres" where
  "handleFileStat E r = need (rq_str r ''session_id'') (\<lambda>sid. need (rq_str r ''path'') (\<lambda>path. getSession sid (\<lambda>p.
     onSsh (FileStat (e_s E) p path) (\<lambda>q. need q (\<lambda>i. say (TValue (JEntry i)))))))"

definition handleFileRead :: "'w senv \<Rightarrow> treq \<Rightarrow> 'w sstate \<Rightarrow> (reply_value, 'w sstate) hres" where
  "handleFileRead E r = need (rq_str r ''session_id'') (\<lambda>sid. need (rq_str r ''path'') (\<lambda>path. getSession sid (\<lambda>p.
     onSsh (FileRead (e_x E) (e_s E) p path (getOr (rq_int0 r ''offset'') 0) (getOr (rq_int0 r ''length'') 0))
       (\<lambda>(d, e). sayErr e (say (TValue (JFile d)))))))"

definition handleFileWrite :: "'w senv \<Rightarrow> treq \<Rightarrow> 'w sstate \<Rightarrow> (reply_value, 'w sstate) hres" where
  "handleFileWrite E r = need (rq_str r ''session_id'') (\<lambda>sid. need (rq_str r ''path'') (\<lambda>path.
     need (rq_str r ''data'') (\<lambda>data. getSession sid (\<lambda>p.
       onSsh (FileWrite (e_x E) (e_s E) p path data (getOr (rq_bool0 r ''append'') False))
         (\<lambda>e. sayErr e (say (TValue (JWritten (int (length data))))))))))"

definition handleFileDelete :: "'w senv \<Rightarrow> treq \<Rightarrow> 'w sstate \<Rightarrow> (reply_value, 'w sstate) hres" where
  "handleFileDelete E r = need (rq_str r ''session_id'') (\<lambda>sid. need (rq_str r ''path'') (\<lambda>path. getSession sid (\<lambda>p.
     onSsh (FileDelete (e_s E) p path) (\<lambda>e. sayErr e (say (TText (''deleted '' @ path)))))))"

definition handleFileMkdir :: "'w senv \<Rightarrow> treq \<Rightarrow> 'w sstate \<Rightarrow> (reply_value, 'w sstate) hres" where
  "handleFileMkdir E r = need (rq_str r ''session_id'') (\<lambda>sid. need (rq_str r ''path'') (\<lambda>path. getSession sid (\<lambda>p.
     onSsh (FileMkdir (e_s E) p path (getOr (rq_bool0 r ''recursive'') False))
       (\<lambda>e. sayErr e (say (TText (''created '' @ path)))))))"

definition dquote :: "string \<Rightarrow> string" where
  "dquote s = CHR 0x22 # s @ [CHR 0x22]"

definition octalDigits :: "string \<Rightarrow> string" where
  "octalDigits s = (if 2 \<le> length s \<and> (take 2 s = ''0o'' \<or> take 2 s = ''0O'') then drop 2 s else s)"

definition parseOctalMode :: "string \<Rightarrow> FileMode res" where
  "parseOctalMode s0 =
     (let s = trimSpace s0 in
      if s = [] then Inl (Errorf ''empty mode'' [])
      else (case parseUint (octalDigits s) 8 32 of
              None \<Rightarrow> Inl (Errorf (''mode must be octal: '' @ dquote ''0755'' @ '', '' @ dquote ''755'' @ '', or '' @ dquote ''0o755'') [])
            | Some n \<Rightarrow>
                if n > 4095 then Inl (Errorf ''mode out of permission-bit range'' []) else Inr (word_of_nat n)))"

definition chmodMode :: "treq \<Rightarrow> FileMode res" where
  "chmodMode r =
     (let modeStr = getOr (rq_str0 r ''mode'') [] in
      if modeStr \<noteq> [] then parseOctalMode modeStr
      else (case rq_int r ''mode'' of
              Inl _ \<Rightarrow> Inl (Errorf (''`mode` is required (use a string like '' @ dquote ''0755'' @ '')'') [])
            | Inr n \<Rightarrow>
                if n < 0 \<or> n > 4095 then Inl (Errorf (''`mode` out of permission-bit range; pass as a string like '' @ dquote ''0755'') [])
                else Inr (word_of_int n)))"

definition handleFileChmod :: "'w senv \<Rightarrow> treq \<Rightarrow> 'w sstate \<Rightarrow> (reply_value, 'w sstate) hres" where
  "handleFileChmod E r = need (rq_str r ''session_id'') (\<lambda>sid. need (rq_str r ''path'') (\<lambda>path.
     need (chmodMode r) (\<lambda>mode. getSession sid (\<lambda>p.
       onSsh (FileChmod (e_s E) p path mode) (\<lambda>e. sayErr e (say (TText ''chmod ok'')))))))"

definition handleFileRename :: "'w senv \<Rightarrow> treq \<Rightarrow> 'w sstate \<Rightarrow> (reply_value, 'w sstate) hres" where
  "handleFileRename E r = need (rq_str r ''session_id'') (\<lambda>sid. need (rq_str r ''from'') (\<lambda>src. need (rq_str r ''to'') (\<lambda>dst.
     getSession sid (\<lambda>p. onSsh (FileRename (e_s E) p src dst) (\<lambda>e. sayErr e (say (TText ''renamed'')))))))"

definition handleUpload :: "'w senv \<Rightarrow> treq \<Rightarrow> 'w sstate \<Rightarrow> (reply_value, 'w sstate) hres" where
  "handleUpload E r = need (rq_str r ''session_id'') (\<lambda>sid. need (rq_str r ''local_path'') (\<lambda>local.
     need (rq_str r ''remote_path'') (\<lambda>remote. getSession sid (\<lambda>p s.
       (case Upload (e_x E) (e_s E) (e_lf E) (e_deep E) p local remote (t_ssh s) of
          None \<Rightarrow> None
        | Some ((n, e), calls, st) \<Rightarrow> sayErr e (say (TValue (JBytes n))) (s\<lparr>t_ssh := st\<rparr>))))))"

definition handleDownload :: "'w senv \<Rightarrow> treq \<Rightarrow> 'w sstate \<Rightarrow> (reply_value, 'w sstate) hres" where
  "handleDownload E r = need (rq_str r ''session_id'') (\<lambda>sid. need (rq_str r ''remote_path'') (\<lambda>remote.
     need (rq_str r ''local_path'') (\<lambda>local. getSession sid (\<lambda>p s.
       (case Download (e_x E) (e_s E) (e_pr E) p remote local (t_fs s) (t_ssh s) of
          ((n, e), fs, st) \<Rightarrow> sayErr e (say (TValue (JBytes n))) (s\<lparr>t_ssh := st, t_fs := fs\<rparr>))))))"

end
