(* ===== verification/ToolSshProps.thy ===== *)
theory ToolSshProps
  imports ToolSsh
begin

text \<open>
  The ssh tools as one interface: any sequence of tool calls keeps the manager's invariant, the table of
  sessions changes as an abstract set of ids would, and arguments out of range do not get through.
\<close>

section \<open>Steps of one session not yet accounted for\<close>

lemma sess_step_Exec:
  assumes "Exec x p cmd env stdin st = (r, st')"
  shows "sess_step p [] st [] st'"
proof (cases "getClient st p")
  case (Inl e)
  then show ?thesis using assms by (simp add: Exec_def)
next
  case (Inr c)
  obtain q st1 where q: "st_call (io_open (x_new_session x c)) st = (q, st1)" by fastforce
  show ?thesis
  proof (cases q)
    case (Inl e)
    then show ?thesis using assms Inr q sess_step_open_err by (fastforce simp: Exec_def)
  next
    case Inr2: (Inr ch)
    let ?st2 = "setenvs x ch env (requestAgent x p ch st1)"
    obtain o1 st3 where o: "st_call (io_call (x_run x ch cmd stdin)) ?st2 = (o1, st3)" by fastforce
    have "sess_step p [ch] st1 [ch] ?st2"
      using sess_step_requestAgent sess_step_setenvs by (rule sess_step_trans)
    then have s: "sess_step p [ch] st1 [ch] st3" using sess_step_call [OF o] by (rule sess_step_trans)
    have "st' = st_close x [ch] st3"
      using assms Inr q Inr2 o
      by (auto simp: Exec_def Let_def split: run_outcome.splits option.splits run_error.splits)
    then show ?thesis using sess_step_scoped [OF q [unfolded Inr2] s] by simp
  qed
qed

text \<open>Reading takes bytes out of the buffer and clears the wake-up, nothing else.\<close>

lemma readStep_frame: "readStep c r b = Some (r', b') \<Longrightarrow> b' = b\<lparr>b_data := b_data b', b_wake := b_wake b'\<rparr>"
  by (induction c r b rule: readStep.induct) (auto simp: drain_def split: if_splits)

lemma readRun_frame: "readRun cs r b = Some (v, b') \<Longrightarrow> \<exists>d w. b' = b\<lparr>b_data := d, b_wake := w\<rparr>"
proof (induction cs arbitrary: r b)
  case Nil
  then have "b' = b\<lparr>b_data := b_data b', b_wake := b_wake b'\<rparr>" by (cases r) simp_all
  then show ?case by blast
next
  case (Cons c cs)
  show ?case
  proof (cases "\<exists>v. r = RRet v")
    case True
    then have "b' = b\<lparr>b_data := b_data b', b_wake := b_wake b'\<rparr>" using Cons.prems by auto
    then show ?thesis by blast
  next
    case False
    then have "readRun (c # cs) r b = (case readStep c r b of None \<Rightarrow> None | Some (r, b) \<Rightarrow> readRun cs r b)"
      by (cases r) simp_all
    then obtain r1 b1 where s: "readStep c r b = Some (r1, b1)" and run: "readRun cs r1 b1 = Some (v, b')"
      using Cons.prems by (cases "readStep c r b") auto
    obtain d w where "b' = b1\<lparr>b_data := d, b_wake := w\<rparr>" using Cons.IH [OF run] by blast
    moreover obtain d1 w1 where "b1 = b\<lparr>b_data := d1, b_wake := w1\<rparr>" using readStep_frame [OF s] by blast
    ultimately have "b' = b\<lparr>b_data := d, b_wake := w\<rparr>" by simp
    then show ?thesis by blast
  qed
qed

lemma sess_step_shellRead:
  assumes "gm_get (s_shells (sess st p)) k = Some h" and "shellRead cs h st = Some (r, st')"
  shows "sess_step p [] st [] st'"
proof -
  obtain H where H: "readRun cs RTop (shl st h) = Some (r, H)" "st' = updH h (\<lambda>_. H) st"
    using assms(2) by (auto simp: shellRead_def split: option.splits)
  obtain d w where eq: "H = (shl st h)\<lparr>b_data := d, b_wake := w\<rparr>" using readRun_frame [OF H(1)] by blast
  have l: "shellL st' = shellL st"
    by (rule ext) (simp add: H(2) eq shellL_def)
  show ?thesis
  proof (rule sess_step_move)
    show "others_same p st st' \<and> sess_wf st' p" if "held_ok p [] st"
    proof -
      have "sess_wf st p" using that by (simp add: held_ok_def)
      then have "sh_parent (shl st h) = p" using assms(1) by (simp add: sess_wf_def)
      then show ?thesis using \<open>sess_wf st p\<close> by (auto simp: H(2) eq others_same_def sess_wf_updH)
    qed
    show "mset (ownedL st' p @ []) = mset (ownedL st p @ [])" by (simp add: ownedL_def l) (simp add: H(2))
  qed (simp add: H(2))
qed

section \<open>What each tool keeps\<close>

text \<open>
  The contract of a \<open>quiet\<close> handler: it keeps the invariant of the manager and the table of sessions.
\<close>

definition sshKeeps :: "'w sstate \<Rightarrow> 'w sstate \<Rightarrow> bool" where
  "sshKeeps s s' \<longleftrightarrow> (mgr_ok (t_ssh s) \<longrightarrow> mgr_ok (t_ssh s') \<and> tbl (t_ssh s') = tbl (t_ssh s))"

interpretation ssh_contract: handler_contract sshKeeps
  by unfold_locales (auto simp: sshKeeps_def)

abbreviation quiet :: "('w sstate \<Rightarrow> ('v, 'w sstate) hres) \<Rightarrow> bool" where
  "quiet \<equiv> ssh_contract.keeps"

lemma quietD: "quiet h \<Longrightarrow> mgr_ok (t_ssh s) \<Longrightarrow> h s = Some (r, s') \<Longrightarrow> mgr_ok (t_ssh s') \<and> tbl (t_ssh s') = tbl (t_ssh s)"
  using ssh_contract.keepsD unfolding sshKeeps_def by blast

lemma quietI: "(\<And>s r s'. mgr_ok (t_ssh s) \<Longrightarrow> h s = Some (r, s') \<Longrightarrow> mgr_ok (t_ssh s') \<and> tbl (t_ssh s') = tbl (t_ssh s)) \<Longrightarrow> quiet h"
  by (rule ssh_contract.keepsI) (unfold sshKeeps_def, blast)

lemma sess_step_same_table:
  assumes "mgr_ok st" and "gm_get (tbl st) k = Some p" and "sess_step p [] st [] st'"
  shows "mgr_ok st' \<and> tbl st' = tbl st"
  using mgr_step [OF assms] mgr_held [OF assms(1,2)] assms(3) by (auto simp: sess_step_def others_same_def)

lemma askPersist_simps [simp]: "t_ssh (askPersist s) = t_ssh s" "t_fs (askPersist s) = t_fs s"
  by (simp_all add: askPersist_def)

lemma quiet_sayPersist [keeps_intros]: "quiet (\<lambda>s. say (f s) (askPersist s))"
  by (rule quietI, auto simp: say_def)

lemma quiet_onSsh:
  assumes "\<And>st a st'. mgr_ok st \<Longrightarrow> f st = (a, st') \<Longrightarrow> mgr_ok st' \<and> tbl st' = tbl st" and "\<And>a. quiet (k a)"
  shows "quiet (onSsh f k)"
proof (rule quietI)
  fix s r s'
  assume ok: "mgr_ok (t_ssh s)" and h: "onSsh f k s = Some (r, s')"
  obtain a st where f: "f (t_ssh s) = (a, st)" by fastforce
  have "mgr_ok st" "tbl st = tbl (t_ssh s)" using assms(1) [OF ok f] by simp_all
  moreover have "k a (s\<lparr>t_ssh := st\<rparr>) = Some (r, s')" using h f by (simp add: onSsh_def)
  ultimately show "mgr_ok (t_ssh s') \<and> tbl (t_ssh s') = tbl (t_ssh s)"
    using quietD [OF assms(2), of "s\<lparr>t_ssh := st\<rparr>" a r s'] by simp
qed

text \<open>A call on the session the handler looked up.\<close>

lemma quiet_session:
  assumes "\<And>p st a st'. f p st = (a, st') \<Longrightarrow> sess_step p [] st [] st'" and "\<And>a. quiet (k a)"
  shows "quiet (getSession sid (\<lambda>p. onSsh (f p) k))"
proof (rule quietI)
  fix s r s'
  assume ok: "mgr_ok (t_ssh s)" and h: "getSession sid (\<lambda>p. onSsh (f p) k) s = Some (r, s')"
  show "mgr_ok (t_ssh s') \<and> tbl (t_ssh s') = tbl (t_ssh s)"
  proof (cases "Get (t_ssh s) sid")
    case (Inl e)
    then show ?thesis using ok h by (simp add: getSession_def need_def)
  next
    case (Inr p)
    then have g: "gm_get (tbl (t_ssh s)) sid = Some p" by (simp add: Get_iff)
    obtain a st where f: "f p (t_ssh s) = (a, st)" by fastforce
    have "mgr_ok st \<and> tbl st = tbl (t_ssh s)" using sess_step_same_table [OF ok g assms(1) [OF f]] .
    moreover have "k a (s\<lparr>t_ssh := st\<rparr>) = Some (r, s')" using h f Inr by (simp add: getSession_def need_def onSsh_def)
    ultimately show ?thesis using quietD [OF assms(2), of "s\<lparr>t_ssh := st\<rparr>" a r s'] by simp
  qed
qed

lemma quiet_getSession:
  assumes "\<And>p. quiet (k p)"
  shows "quiet (getSession sid k)"
  unfolding getSession_def using assms by (rule ssh_contract.keeps_needAt)

lemma mgr_via_session:
  assumes "\<And>p. Get st sid = Inr p \<Longrightarrow> sess_step p [] st [] st'" and "\<And>e. Get st sid = Inl e \<Longrightarrow> st' = st" and "mgr_ok st"
  shows "mgr_ok st' \<and> tbl st' = tbl st"
proof (cases "Get st sid")
  case (Inl e)
  then show ?thesis using assms by simp
next
  case (Inr p)
  then show ?thesis using sess_step_same_table [OF assms(3) _ assms(1) [OF Inr]] by (simp add: Get_iff)
qed

text \<open>Two handlers run their call under bounds of their own.\<close>

lemma quiet_opt_session:
  assumes "\<And>p s r s'. Get (t_ssh s) sid = Inr p \<Longrightarrow> k p s = Some (r, s') \<Longrightarrow> sess_step p [] (t_ssh s) [] (t_ssh s')"
  shows "quiet (getSession sid k)"
proof (rule quietI)
  fix s r s'
  assume ok: "mgr_ok (t_ssh s)" and h: "getSession sid k s = Some (r, s')"
  show "mgr_ok (t_ssh s') \<and> tbl (t_ssh s') = tbl (t_ssh s)"
  proof (cases "Get (t_ssh s) sid")
    case (Inl e)
    then show ?thesis using ok h by (simp add: getSession_def need_def)
  next
    case (Inr p)
    then have "k p s = Some (r, s')" using h by (simp add: getSession_def need_def)
    then show ?thesis using sess_step_same_table [OF ok _ assms [OF Inr]] Inr by (simp add: Get_iff)
  qed
qed

lemma quiet_shell:
  assumes "\<And>h st a st'. f h st = (a, st') \<Longrightarrow> (\<And>p. sess_step p [] st [] st')" and "\<And>a. quiet (k a)"
  shows "quiet (getSession sid (\<lambda>p. getShell shid p (\<lambda>h. onSsh (f h) k)))"
proof (rule quietI)
  fix s r s'
  assume ok: "mgr_ok (t_ssh s)" and h: "getSession sid (\<lambda>p. getShell shid p (\<lambda>h. onSsh (f h) k)) s = Some (r, s')"
  show "mgr_ok (t_ssh s') \<and> tbl (t_ssh s') = tbl (t_ssh s)"
  proof (cases "\<exists>p q. Get (t_ssh s) sid = Inr p \<and> GetShell (t_ssh s) p shid = Inr q")
    case False
    then show ?thesis using ok h by (auto simp: getSession_def getShell_def need_def split: sum.splits)
  next
    case True
    then obtain p q where g: "Get (t_ssh s) sid = Inr p" "GetShell (t_ssh s) p shid = Inr q" by blast
    obtain a st where f: "f q (t_ssh s) = (a, st)" by fastforce
    have "mgr_ok st \<and> tbl st = tbl (t_ssh s)" using sess_step_same_table [OF ok _ assms(1) [OF f]] g(1) by (simp add: Get_iff)
    moreover have "k a (s\<lparr>t_ssh := st\<rparr>) = Some (r, s')" using h f g by (simp add: getSession_def getShell_def need_def onSsh_def)
    ultimately show ?thesis using quietD [OF assms(2), of "s\<lparr>t_ssh := st\<rparr>" a r s'] by simp
  qed
qed

lemma sess_step_shellWrite: "shellWrite x h d st = (a, st') \<Longrightarrow> sess_step p [] st [] st'"
  by (auto simp: shellWrite_def split: if_splits dest: sess_step_call)

lemma sess_step_shellResize: "shellResize x h m n st = (a, st') \<Longrightarrow> sess_step p [] st [] st'"
  by (auto simp: shellResize_def split: if_splits dest: sess_step_call)

lemma quiet_sess [keeps_intros]:
  "(\<And>a. quiet (k1 a)) \<Longrightarrow> quiet (getSession sid (\<lambda>p. onSsh (Exec x p cmd env stdin) k1))"
  "(\<And>a. quiet (k2 a)) \<Longrightarrow> quiet (getSession sid (\<lambda>p. onSsh (OpenShell x p shid opts) k2))"
  "(\<And>a. quiet (k3 a)) \<Longrightarrow> quiet (getSession sid (\<lambda>p. onSsh (CloseShell x p shid) k3))"
  "(\<And>a. quiet (k4 a)) \<Longrightarrow> quiet (getSession sid (\<lambda>p. onSsh (FileList s p path) k4))"
  "(\<And>a. quiet (k5 a)) \<Longrightarrow> quiet (getSession sid (\<lambda>p. onSsh (FileStat s p path) k5))"
  "(\<And>a. quiet (k6 a)) \<Longrightarrow> quiet (getSession sid (\<lambda>p. onSsh (FileRead x s p path off len) k6))"
  "(\<And>a. quiet (k3 a)) \<Longrightarrow> quiet (getSession sid (\<lambda>p. onSsh (FileWrite x s p path data app) k3))"
  by (rule quiet_session; blast intro: sess_step_Exec sess_step_OpenShell sess_step_CloseShell sess_step_FileList
      sess_step_FileStat sess_step_FileRead sess_step_FileWrite)+

lemma quiet_shells [keeps_intros]:
  "(\<And>a. quiet (k1 a)) \<Longrightarrow> quiet (getSession sid (\<lambda>p. getShell shid p (\<lambda>h. onSsh (shellWrite x h data) k1)))"
  "(\<And>a. quiet (k2 a)) \<Longrightarrow> quiet (getSession sid (\<lambda>p. getShell shid p (\<lambda>h. onSsh (shellResize x h rows cols) k2)))"
  by (rule quiet_shell; blast intro: sess_step_shellWrite sess_step_shellResize)+

lemma quiet_file_calls [keeps_intros]:
  "(\<And>a. quiet (k a)) \<Longrightarrow> quiet (getSession sid (\<lambda>p. onSsh (FileDelete s p path) k))"
  "(\<And>a. quiet (k a)) \<Longrightarrow> quiet (getSession sid (\<lambda>p. onSsh (FileMkdir s p path b) k))"
  "(\<And>a. quiet (k a)) \<Longrightarrow> quiet (getSession sid (\<lambda>p. onSsh (FileChmod s p path m) k))"
  "(\<And>a. quiet (k a)) \<Longrightarrow> quiet (getSession sid (\<lambda>p. onSsh (FileRename s p path path') k))"
  by (rule quiet_session; simp add: FileDelete_def FileMkdir_def FileChmod_def FileRename_def sess_step_viaSftp)+

lemma Get_absent: "Get st sid = Inl e \<Longrightarrow>
   OpenLocalForward x sid fid ls st = (r1, st1) \<Longrightarrow> st1 = st" "Get st sid = Inl e \<Longrightarrow>
   OpenRemoteForward x sid fid rs st = (r1, st1) \<Longrightarrow> st1 = st" "Get st sid = Inl e \<Longrightarrow>
   OpenDynamicForward x sid fid ds st = (r1, st1) \<Longrightarrow> st1 = st" "Get st sid = Inl e \<Longrightarrow>
   CloseForward x sid fid st = (r2, st1) \<Longrightarrow> st1 = st" "Get st sid = Inl e \<Longrightarrow> Reconnect x sid st = (r1, st1) \<Longrightarrow> st1 = st"
  by (auto simp: OpenLocalForward_def OpenRemoteForward_def OpenDynamicForward_def CloseForward_def Reconnect_def)

lemma mgr_calls:
  "mgr_ok st \<Longrightarrow> OpenLocalForward x sid fid ls st = (r, st') \<Longrightarrow> mgr_ok st' \<and> tbl st' = tbl st"
  "mgr_ok st \<Longrightarrow> OpenRemoteForward x sid fid rs st = (r, st') \<Longrightarrow> mgr_ok st' \<and> tbl st' = tbl st"
  "mgr_ok st \<Longrightarrow> OpenDynamicForward x sid fid ds st = (r, st') \<Longrightarrow> mgr_ok st' \<and> tbl st' = tbl st"
  "mgr_ok st \<Longrightarrow> CloseForward x sid fid st = (e, st') \<Longrightarrow> mgr_ok st' \<and> tbl st' = tbl st"
  "mgr_ok st \<Longrightarrow> Reconnect x sid st = (r, st') \<Longrightarrow> mgr_ok st' \<and> tbl st' = tbl st"
  by (rule mgr_via_session [of st sid]; blast intro: sess_step_OpenLocal Get_absent(1))
    (rule mgr_via_session [of st sid]; blast intro: sess_step_OpenRemote sess_step_OpenDynamic sess_step_CloseForward
        sess_step_Reconnect [OF Get_iff [THEN iffD1]] Get_absent(2-5))+

lemma quiet_manager_calls [keeps_intros]:
  "(\<And>a. quiet (k a)) \<Longrightarrow> quiet (onSsh (OpenLocalForward x sid fid ls) k)"
  "(\<And>a. quiet (k a)) \<Longrightarrow> quiet (onSsh (OpenRemoteForward x sid fid rs) k)"
  "(\<And>a. quiet (k a)) \<Longrightarrow> quiet (onSsh (OpenDynamicForward x sid fid ds) k)"
  "(\<And>a. quiet (k' a)) \<Longrightarrow> quiet (onSsh (CloseForward x sid fid) k')"
  "(\<And>a. quiet (k a)) \<Longrightarrow> quiet (onSsh (Reconnect x sid) k)"
  by (rule quiet_onSsh; blast dest: mgr_calls)+

section \<open>The tools as one interface\<close>

datatype ssh_tool =
    SshConnect "(string \<times> spec_val) res" | SshDisconnect treq | SshList | SshInfo treq | SshReconnect treq | SshClone treq
  | SshExec "sshExecArgs res"
  | ShellOpen "shellOpenArgs res" | ShellWrite treq | ShellRead treq | ShellResize treq | ShellClose treq | ShellList treq
  | ForwardLocalT treq | ForwardRemoteT treq | ForwardDynamicT treq | ForwardListT treq | ForwardCancelT treq
  | FileListT treq | FileStatT treq | FileReadT treq | FileWriteT treq | FileDeleteT treq | FileMkdirT treq
  | FileChmodT treq | FileRenameT treq | UploadT treq | DownloadT treq

fun runSshTool :: "'w senv \<Rightarrow> ssh_tool \<Rightarrow> 'w sstate \<Rightarrow> (reply_value, 'w sstate) hres" where
  "runSshTool E (SshConnect a) = handleSSHConnect E a"
| "runSshTool E (SshDisconnect r) = handleSSHDisconnect E r"
| "runSshTool E SshList = handleSSHList"
| "runSshTool E (SshInfo r) = handleSSHInfo r"
| "runSshTool E (SshReconnect r) = handleSSHReconnect E r"
| "runSshTool E (SshClone r) = handleSSHClone E r"
| "runSshTool E (SshExec a) = handleSSHExec E a"
| "runSshTool E (ShellOpen a) = handleShellOpen E a"
| "runSshTool E (ShellWrite r) = handleShellWrite E r"
| "runSshTool E (ShellRead r) = handleShellRead E r"
| "runSshTool E (ShellResize r) = handleShellResize E r"
| "runSshTool E (ShellClose r) = handleShellClose E r"
| "runSshTool E (ShellList r) = handleShellList r"
| "runSshTool E (ForwardLocalT r) = handleForwardLocal E r"
| "runSshTool E (ForwardRemoteT r) = handleForwardRemote E r"
| "runSshTool E (ForwardDynamicT r) = handleForwardDynamic E r"
| "runSshTool E (ForwardListT r) = handleForwardList r"
| "runSshTool E (ForwardCancelT r) = handleForwardCancel E r"
| "runSshTool E (FileListT r) = handleFileList E r"
| "runSshTool E (FileStatT r) = handleFileStat E r"
| "runSshTool E (FileReadT r) = handleFileRead E r"
| "runSshTool E (FileWriteT r) = handleFileWrite E r"
| "runSshTool E (FileDeleteT r) = handleFileDelete E r"
| "runSshTool E (FileMkdirT r) = handleFileMkdir E r"
| "runSshTool E (FileChmodT r) = handleFileChmod E r"
| "runSshTool E (FileRenameT r) = handleFileRename E r"
| "runSshTool E (UploadT r) = handleUpload E r"
| "runSshTool E (DownloadT r) = handleDownload E r"

fun changesTable :: "ssh_tool \<Rightarrow> bool" where
  "changesTable (SshConnect a) = True"
| "changesTable (SshDisconnect r) = True"
| "changesTable (SshClone r) = True"
| "changesTable _ = False"

lemmas quiet_handler_defs =
  handleSSHList_def handleSSHReconnect_def handleSSHExec_def handleShellOpen_def handleShellWrite_def
  handleShellResize_def handleShellClose_def handleForwardLocal_def handleForwardRemote_def
  handleForwardDynamic_def handleForwardList_def handleForwardCancel_def handleFileList_def handleFileStat_def
  handleFileRead_def handleFileWrite_def handleFileDelete_def handleFileMkdir_def handleFileChmod_def
  handleFileRename_def sayForward_def

lemma quiet_read: "quiet (handleShellRead E r)"
proof -
  have "quiet (getSession sid (\<lambda>p. getShell shid p (\<lambda>h s.
       (case shellRead (e_wait E) h (t_ssh s) of
          None \<Rightarrow> None
        | Some (RData d, st) \<Rightarrow> Some (TValue (JOutput d False), s\<lparr>t_ssh := st\<rparr>)
        | Some (RTimeout, st) \<Rightarrow> Some (TValue (JOutput [] False), s\<lparr>t_ssh := st\<rparr>)
        | Some (REof, st) \<Rightarrow> Some (TValue (JOutput [] True), s\<lparr>t_ssh := st\<rparr>)))))" for sid shid
    by (rule quiet_opt_session)
      (auto simp: getShell_def need_def GetShell_def split: sum.splits option.splits prod.splits read_result.splits
        dest: sess_step_shellRead)
  then show ?thesis unfolding handleShellRead_def by (intro ssh_contract.keeps_need)
qed

lemma quiet_list: "quiet (handleShellList r)"
  by (rule quietI) (auto simp: handleShellList_def handler_defs Let_def split: if_splits sum.splits)

lemma quiet_upload: "quiet (handleUpload E r)"
proof -
  have "quiet (getSession sid (\<lambda>p s.
       (case Upload (e_x E) (e_s E) (e_lf E) (e_deep E) p lp rp (t_ssh s) of
          None \<Rightarrow> None
        | Some ((n, e), calls, st) \<Rightarrow> sayErr e (say (TValue (JBytes n))) (s\<lparr>t_ssh := st\<rparr>))))" for sid lp rp
    by (rule quiet_opt_session)
      (auto simp: sayErr_def say_def split: option.splits prod.splits dest: sess_step_Upload)
  then show ?thesis unfolding handleUpload_def by (intro ssh_contract.keeps_need)
qed

lemma quiet_download: "quiet (handleDownload E r)"
proof -
  have "quiet (getSession sid (\<lambda>p s.
       (case Download (e_x E) (e_s E) (e_pr E) p rp lp (t_fs s) (t_ssh s) of
          ((n, e), fs, st) \<Rightarrow> sayErr e (say (TValue (JBytes n))) (s\<lparr>t_ssh := st, t_fs := fs\<rparr>))))" for sid lp rp
    by (rule quiet_opt_session)
      (auto simp: sayErr_def say_def split: option.splits prod.splits dest: sess_step_Download)
  then show ?thesis unfolding handleDownload_def by (intro ssh_contract.keeps_need)
qed

lemma quiet_info: "quiet (handleSSHInfo r)" "quiet handleSSHList" "quiet (handleForwardList r)"
  unfolding handleSSHInfo_def handleSSHList_def [abs_def] handleForwardList_def [abs_def]
  by (intro ssh_contract.keeps_need ssh_contract.keeps_needAt quiet_getSession ssh_contract.keeps_sayAt ssh_contract.keeps_say)+

lemma quiet_handlers:
  "quiet (handleSSHReconnect E r)" "quiet (handleSSHExec E a)" "quiet (handleShellOpen E b)"
  "quiet (handleShellWrite E r)" "quiet (handleShellResize E r)" "quiet (handleShellClose E r)"
  "quiet (handleForwardLocal E r)" "quiet (handleForwardRemote E r)" "quiet (handleForwardDynamic E r)"
  "quiet (handleForwardCancel E r)" "quiet (handleFileList E r)" "quiet (handleFileStat E r)"
  "quiet (handleFileRead E r)" "quiet (handleFileWrite E r)" "quiet (handleFileDelete E r)"
  "quiet (handleFileMkdir E r)" "quiet (handleFileChmod E r)" "quiet (handleFileRename E r)"
  unfolding quiet_handler_defs by (intro keeps_intros)+

lemma quiet_tools: "\<not> changesTable c \<Longrightarrow> quiet (runSshTool E c)"
  by (cases c) (simp_all add: quiet_read quiet_list quiet_upload quiet_download quiet_info quiet_handlers)

section \<open>The tools refine a set of session ids\<close>

definition ids :: "'w sstate \<Rightarrow> string set" where
  "ids s = {k. gm_get (tbl (t_ssh s)) k \<noteq> None}"

text \<open>The session a call names, if its arguments are well formed.\<close>

definition named :: "'a res \<Rightarrow> ('a \<Rightarrow> string) \<Rightarrow> string option" where
  "named q f = (case q of Inl e \<Rightarrow> None | Inr a \<Rightarrow> Some (f a))"

fun sessionOf :: "ssh_tool \<Rightarrow> string option" where
  "sessionOf (SshConnect a) = None"
| "sessionOf (SshDisconnect r) = named (rq_str r ''id'') id"
| "sessionOf SshList = None"
| "sessionOf (SshInfo r) = named (rq_str r ''id'') id"
| "sessionOf (SshReconnect r) = named (rq_str r ''id'') id"
| "sessionOf (SshClone r) = named (rq_str r ''source_id'') id"
| "sessionOf (SshExec a) = named a xa_SessionID"
| "sessionOf (ShellOpen a) = named a oa_SessionID"
| "sessionOf (ShellList r) = None"
| "sessionOf (ForwardListT r) = None"
| "sessionOf (ShellWrite r) = named (rq_str r ''session_id'') id"
| "sessionOf (ShellRead r) = named (rq_str r ''session_id'') id"
| "sessionOf (ShellResize r) = named (rq_str r ''session_id'') id"
| "sessionOf (ShellClose r) = named (rq_str r ''session_id'') id"
| "sessionOf (ForwardLocalT r) = named (rq_str r ''session_id'') id"
| "sessionOf (ForwardRemoteT r) = named (rq_str r ''session_id'') id"
| "sessionOf (ForwardDynamicT r) = named (rq_str r ''session_id'') id"
| "sessionOf (ForwardCancelT r) = named (rq_str r ''session_id'') id"
| "sessionOf (FileListT r) = named (rq_str r ''session_id'') id"
| "sessionOf (FileStatT r) = named (rq_str r ''session_id'') id"
| "sessionOf (FileReadT r) = named (rq_str r ''session_id'') id"
| "sessionOf (FileWriteT r) = named (rq_str r ''session_id'') id"
| "sessionOf (FileDeleteT r) = named (rq_str r ''session_id'') id"
| "sessionOf (FileMkdirT r) = named (rq_str r ''session_id'') id"
| "sessionOf (FileChmodT r) = named (rq_str r ''session_id'') id"
| "sessionOf (FileRenameT r) = named (rq_str r ''session_id'') id"
| "sessionOf (UploadT r) = named (rq_str r ''session_id'') id"
| "sessionOf (DownloadT r) = named (rq_str r ''session_id'') id"

lemma absent_steps:
  assumes "Get (t_ssh s) sid = Inl e"
  shows "getSession sid k s = Some (TErr e, s)"
    "onSsh (OpenLocalForward x sid fid l) k1 s = k1 (Inl e) s" "onSsh (OpenRemoteForward x sid fid rs) k1 s = k1 (Inl e) s"
    "onSsh (OpenDynamicForward x sid fid d) k1 s = k1 (Inl e) s" "onSsh (Reconnect x sid) k1 s = k1 (Inl e) s"
    "onSsh (CloseForward x sid fid) k2 s = k2 (Some e) s" "onSsh (Disconnect x sid) k2 s = k2 (Some e) s"
    "CloneSession x n sid dst (t_ssh s) = Some (Inl e, t_ssh s)"
  using assms by (simp_all add: getSession_def need_def onSsh_def OpenLocalForward_def OpenRemoteForward_def
      OpenDynamicForward_def Reconnect_def CloseForward_def CloneSession_def Disconnect_def Get_def split: option.splits)

lemma namedD: "named q f = Some k \<Longrightarrow> \<exists>a. q = Inr a \<and> f a = k"
  by (cases q) (simp_all add: named_def)

lemma need_Inr [simp]: "need (Inr a) k s = k a s"
  by (simp add: need_def)

lemma need_Inl [simp]: "need (Inl e) k s = Some (TErr e, s)"
  by (simp add: need_def)

lemma absent_exec:
  assumes "Get (t_ssh s) (xa_SessionID a) = Inl e"
  shows "handleSSHExec E (Inr a) s = Some (TErr e, s)"
  by (simp add: handleSSHExec_def absent_steps [OF assms])

lemma absent_open:
  assumes "Get (t_ssh s) (oa_SessionID a) = Inl e"
  shows "handleShellOpen E (Inr a) s = Some (TErr e, s)"
  by (simp add: handleShellOpen_def absent_steps [OF assms])

lemma absent_tool:
  assumes "sessionOf c = Some k" and "k \<notin> ids s" and "runSshTool E c s = Some (r, s')"
  shows "isErr r \<and> s' = s"
proof -
  obtain e where e: "Get (t_ssh s) k = Inl e" using assms(2) by (cases "Get (t_ssh s) k") (auto simp: ids_def Get_iff)
  note [simp] = absent_steps [OF e]
  show ?thesis using assms(1,3) e
    by (cases c)
      (auto dest!: namedD simp: absent_exec absent_open quiet_handler_defs(1,2,5-) handleSSHInfo_def handleShellRead_def
         handleUpload_def handleDownload_def handleSSHDisconnect_def handleSSHClone_def guard_def sayErr_def need_def
         split: sum.splits if_splits)
qed

text \<open>
  The contract: connecting and cloning add a new non-empty id, disconnecting removes one that is there, nothing
  else and no failed call changes the set; a call on an id that is not there fails; a list is the set.
\<close>

fun listed :: "reply_value reply \<Rightarrow> string set option" where
  "listed (TValue (JSessions rows)) = Some (set (map SessionRow.sr_ID rows))"
| "listed _ = None"

fun a_change :: "ssh_tool \<Rightarrow> string set \<Rightarrow> string set \<Rightarrow> bool" where
  "a_change (SshConnect a) S S' \<longleftrightarrow> (\<exists>k v. a = Inr (k, v) \<and> k \<noteq> [] \<and> k \<notin> S \<and> S' = insert k S)"
| "a_change (SshClone r) S S' \<longleftrightarrow>
     (\<exists>src k. rq_str r ''source_id'' = Inr src \<and> rq_str r ''new_id'' = Inr k \<and> src \<in> S \<and> k \<noteq> [] \<and> k \<notin> S \<and> S' = insert k S)"
| "a_change (SshDisconnect r) S S' \<longleftrightarrow> (\<exists>k. rq_str r ''id'' = Inr k \<and> k \<in> S \<and> S' = S - {k})"
| "a_change _ S S' \<longleftrightarrow> S' = S"

definition a_step :: "ssh_tool \<Rightarrow> string set \<Rightarrow> reply_value reply \<Rightarrow> string set \<Rightarrow> bool" where
  "a_step c S r S' \<longleftrightarrow>
     (if isErr r then S' = S else a_change c S S') \<and>
     (\<forall>k. sessionOf c = Some k \<longrightarrow> k \<notin> S \<longrightarrow> isErr r) \<and>
     (c = SshList \<longrightarrow> listed r = Some S)"

lemma ids_tbl: "tbl (t_ssh s') = tbl (t_ssh s) \<Longrightarrow> ids s' = ids s"
  by (simp add: ids_def)

lemma ids_put: "tbl (t_ssh s') = gm_put k p (tbl (t_ssh s)) \<Longrightarrow> ids s' = insert k (ids s)"
  by (auto simp: ids_def)

lemma ids_del: "tbl (t_ssh s') = gm_del k (tbl (t_ssh s)) \<Longrightarrow> ids s' = ids s - {k}"
  by (auto simp: ids_def)

lemma connect_post_ids:
  assumes "connect_post k (t_ssh s) q (t_ssh s')"
  shows "\<not> is_ok q \<Longrightarrow> ids s' = ids s" "is_ok q \<Longrightarrow> k \<noteq> [] \<and> k \<notin> ids s \<and> ids s' = insert k (ids s)"
  using assms ids_put [of s' k _ s] by (cases q; auto simp: connect_post_def ids_def)+

lemma mgr_allocSpec:
  assumes "allocSpec v st = (spec, st')" and "mgr_ok st"
  shows "mgr_ok st' \<and> tbl st' = tbl st \<and> live (st_io st') = live (st_io st)"
  using mgr_grow [OF assms(2), of st'] assms(1) by (auto simp: allocSpec_def Let_def)

lemma refine_connect:
  assumes ok: "mgr_ok (t_ssh s)" and h: "handleSSHConnect E a s = Some (r, s')"
  shows "mgr_ok (t_ssh s') \<and> (if isErr r then ids s' = ids s \<and> t_persists s' = t_persists s
           else a_change (SshConnect a) (ids s) (ids s') \<and> t_persists s' = Suc (t_persists s))"
proof (cases a)
  case (Inl e)
  then show ?thesis using ok h by (auto simp: handleSSHConnect_def)
next
  case (Inr kv)
  obtain k v where kv: "kv = (k, v)" by fastforce
  obtain spec st where al: "allocSpec v (t_ssh s) = (spec, st)" by (metis surj_pair)
  note m = mgr_allocSpec [OF al ok]
  obtain q st' where c: "Connect (e_x E) (e_hops E) k spec st = Some (q, st')"
    using h Inr kv al by (auto simp: handleSSHConnect_def split: option.splits)
  note cs = Connect_spec [OF conjunct1 [OF m] c]
  then have p: "connect_post k (t_ssh s) q st'" using m by (simp add: connect_post_def split: sum.splits)
  show ?thesis
  proof (cases q)
    case e: (Inl e)
    then have "r = TErr e" "s' = s\<lparr>t_ssh := st'\<rparr>" using h Inr kv al c by (simp_all add: handleSSHConnect_def)
    then show ?thesis using connect_post_ids(1) [of k s q s'] cs p e by simp
  next
    case i: (Inr i)
    then have "r = TValue (JSession (Info st' i))" "s' = askPersist (s\<lparr>t_ssh := st'\<rparr>)"
      using h Inr kv al c by (simp_all add: handleSSHConnect_def)
    then show ?thesis using connect_post_ids(2) [of k s q s'] cs p i Inr kv by (simp add: askPersist_def)
  qed
qed

lemma refine_clone:
  assumes ok: "mgr_ok (t_ssh s)" and h: "handleSSHClone E q s = Some (r, s')"
  shows "mgr_ok (t_ssh s') \<and> (if isErr r then ids s' = ids s \<and> t_persists s' = t_persists s
           else a_change (SshClone q) (ids s) (ids s') \<and> t_persists s' = Suc (t_persists s))"
proof (cases "\<exists>src dst. rq_str q ''source_id'' = Inr src \<and> rq_str q ''new_id'' = Inr dst")
  case False
  then show ?thesis using ok h by (auto simp: handleSSHClone_def need_def split: sum.splits)
next
  case True
  then obtain src dst where a: "rq_str q ''source_id'' = Inr src" "rq_str q ''new_id'' = Inr dst" by blast
  obtain v st' where c: "CloneSession (e_x E) (e_hops E) src dst (t_ssh s) = Some (v, st')"
    using h a by (auto simp: handleSSHClone_def split: option.splits)
  note m = mgr_Clone [OF ok c]
  show ?thesis
  proof (cases v)
    case e: (Inl e)
    then have "r = TErr e" "s' = s\<lparr>t_ssh := st'\<rparr>" using h a c by (simp_all add: handleSSHClone_def)
    then show ?thesis using connect_post_ids(1) [of dst s v s'] m e ids_tbl [of s' s] by auto
  next
    case i: (Inr i)
    then have r: "r = TValue (JSession (Info st' i))" "s' = askPersist (s\<lparr>t_ssh := st'\<rparr>)"
      using h a c by (simp_all add: handleSSHClone_def)
    have "src \<in> ids s" using c i by (cases "Get (t_ssh s) src") (auto simp: CloneSession_def ids_def Get_iff)
    then show ?thesis using connect_post_ids(2) [of dst s v s'] m i a r by (simp add: askPersist_def)
  qed
qed

lemma refine_disconnect:
  assumes ok: "mgr_ok (t_ssh s)" and h: "handleSSHDisconnect E q s = Some (r, s')"
  shows "mgr_ok (t_ssh s') \<and> (if isErr r then ids s' = ids s \<and> t_persists s' = t_persists s
           else a_change (SshDisconnect q) (ids s) (ids s') \<and> t_persists s' = Suc (t_persists s))"
proof (cases "\<exists>k p. rq_str q ''id'' = Inr k \<and> gm_get (tbl (t_ssh s)) k = Some p")
  case False
  then show ?thesis using ok h
    by (auto simp: handleSSHDisconnect_def need_def onSsh_def Disconnect_def sayErr_def ids_def split: sum.splits option.splits)
next
  case True
  then obtain k p where k: "rq_str q ''id'' = Inr k" "gm_get (tbl (t_ssh s)) k = Some p" by blast
  let ?st = "close (e_x E) p ((t_ssh s)\<lparr>tbl := gm_del k (tbl (t_ssh s))\<rparr>)"
  have d: "Disconnect (e_x E) k (t_ssh s) = (None, ?st)" using k by (simp add: Disconnect_def)
  then have r: "\<not> isErr r" "s' = askPersist (s\<lparr>t_ssh := ?st\<rparr>)"
    using h k by (auto simp: handleSSHDisconnect_def onSsh_def sayErr_def say_def)
  have "ids s' = ids s - {k}" by (rule ids_del) (simp add: r close_frame)
  then show ?thesis using r k mgr_close(1) [OF ok k(2), of "e_x E"] by (simp add: askPersist_def ids_def)
qed

lemma listed_ids:
  assumes "mgr_ok (t_ssh s)"
  shows "set (map SessionRow.sr_ID (map Row (ListSessions (t_ssh s)))) = ids s"
proof -
  have wf: "gm_wf (tbl (t_ssh s))" using assms by (simp add: mgr_ok_def)
  have "k \<in> set (map SessionRow.sr_ID (map Row (ListSessions (t_ssh s)))) \<longleftrightarrow> k \<in> ids s" for k
    using mgr_sess(2) [OF assms]
    by (auto simp: ids_def ListSessions_def Row_def Info_def Let_def image_iff gm_vals_iff [OF wf] Bex_def)
  then show ?thesis by blast
qed

lemma refine_tool:
  assumes ok: "mgr_ok (t_ssh s)" and h: "runSshTool E c s = Some (r, s')"
  shows "mgr_ok (t_ssh s')" "a_step c (ids s) r (ids s')" "ids s' \<noteq> ids s \<Longrightarrow> t_persists s' = Suc (t_persists s)"
proof -
  have ab: "\<forall>k. sessionOf c = Some k \<longrightarrow> k \<notin> ids s \<longrightarrow> isErr r" using absent_tool h by blast
  have "mgr_ok (t_ssh s') \<and> (if isErr r then ids s' = ids s else a_change c (ids s) (ids s')) \<and>
      (ids s' \<noteq> ids s \<longrightarrow> t_persists s' = Suc (t_persists s))"
  proof (cases "changesTable c")
    case True
    then show ?thesis
      using h refine_connect [OF ok] refine_clone [OF ok] refine_disconnect [OF ok] by (cases c; fastforce split: if_splits)
  next
    case False
    then have "mgr_ok (t_ssh s') \<and> ids s' = ids s" using quietD [OF quiet_tools ok h] ids_tbl by blast
    then show ?thesis using False by (cases c) simp_all
  qed
  moreover have "listed r = Some (ids s)" if "c = SshList"
    using h that listed_ids [OF ok] by (auto simp: handleSSHList_def say_def)
  ultimately show "mgr_ok (t_ssh s')" "a_step c (ids s) r (ids s')" "ids s' \<noteq> ids s \<Longrightarrow> t_persists s' = Suc (t_persists s)"
    using ab by (simp_all add: a_step_def)
qed

section \<open>Sequences of calls\<close>

fun runTools :: "('w senv \<times> ssh_tool) list \<Rightarrow> 'w sstate \<Rightarrow> (reply_value reply list \<times> 'w sstate) option" where
  "runTools [] s = Some ([], s)"
| "runTools ((E, c) # ecs) s =
     (case runSshTool E c s of
        None \<Rightarrow> None
      | Some (r, s) \<Rightarrow> (case runTools ecs s of None \<Rightarrow> None | Some (rs, s) \<Rightarrow> Some (r # rs, s)))"

fun a_run :: "ssh_tool list \<Rightarrow> string set \<Rightarrow> reply_value reply list \<Rightarrow> string set \<Rightarrow> bool" where
  "a_run [] S [] S' \<longleftrightarrow> S' = S"
| "a_run (c # cs) S (r # rs) S' \<longleftrightarrow> (\<exists>T. a_step c S r T \<and> a_run cs T rs S')"
| "a_run _ S _ S' \<longleftrightarrow> False"

text \<open>C4. The ssh tools refine the set of connected ids: in any sequence of tool calls, under any environments, only a successful
  connect or clone adds an id (a new, non-empty one), only a successful disconnect removes one, a call that fails changes nothing
  of the set, every call that names an id not in the set fails, a list shows exactly the set, and the manager keeps its
  invariant.\<close>

theorem ssh_tools_refine:
  assumes "mgr_ok (t_ssh s)" and "runTools ecs s = Some (rs, s')"
  shows "a_run (map snd ecs) (ids s) rs (ids s') \<and> mgr_ok (t_ssh s')"
  using assms
proof (induction ecs arbitrary: s rs)
  case (Cons ec ecs)
  obtain E c where ec: "ec = (E, c)" by fastforce
  then obtain r s1 rs1 where r: "runSshTool E c s = Some (r, s1)" and rs: "runTools ecs s1 = Some (rs1, s')" "rs = r # rs1"
    using Cons.prems by (auto split: option.splits)
  note st = refine_tool [OF Cons.prems(1) r]
  show ?case using Cons.IH [OF st(1) rs(1)] st(2) ec rs(2) by auto
qed simp

text \<open>The tools as a step relation: whole calls interleave, each with its own view of the outside.\<close>

definition toolStart :: "'w sstate \<Rightarrow> bool" where
  "toolStart s \<longleftrightarrow> tbl (t_ssh s) = [] \<and> live (st_io (t_ssh s)) = {}"

inductive tool_step :: "'w sstate \<Rightarrow> 'w sstate \<Rightarrow> bool" where
  call: "runSshTool E c s = Some (r, s') \<Longrightarrow> tool_step s s'"

inductive_simps tool_step_iff: "tool_step s s'"

definition tool_inv :: "'w sstate \<Rightarrow> bool" where
  "tool_inv s \<longleftrightarrow> mgr_ok (t_ssh s)"

interpretation tool_sys: step_system toolStart tool_step tool_inv
proof
  show "tool_inv s" if "toolStart s" for s :: "'w sstate"
    using that by (simp add: toolStart_def tool_inv_def mgr_ok_def io_ok_def gm_get_def)
  show "tool_inv t" if "tool_inv s" "tool_step s t" for s t :: "'w sstate"
    using that refine_tool(1) by (auto simp: tool_inv_def tool_step_iff)
qed

text \<open>C5. Whatever the tools are asked to do from an empty manager on, every connection, listener, channel and sftp client that is
  open belongs to exactly one session of the table, and a call that changes the set of sessions asks for the state to be
  persisted, once.\<close>

theorem ssh_tools_accounted:
  assumes "toolStart s" and "steps_to tool_step s t"
  shows "live (st_io (t_ssh t)) = {h. \<exists>k p. gm_get (tbl (t_ssh t)) k = Some p \<and> h \<in> owned (t_ssh t) p} \<and>
    (\<forall>k p k' p'. gm_get (tbl (t_ssh t)) k = Some p \<longrightarrow> gm_get (tbl (t_ssh t)) k' = Some p' \<longrightarrow> k \<noteq> k' \<longrightarrow>
       owned (t_ssh t) p \<inter> owned (t_ssh t) p' = {}) \<and>
    (\<forall>E c r t'. runSshTool E c t = Some (r, t') \<longrightarrow> ids t' \<noteq> ids t \<longrightarrow> t_persists t' = Suc (t_persists t))"
proof -
  have ok: "mgr_ok (t_ssh t)" using tool_sys.inv_reachable [OF assms] by (simp add: tool_inv_def)
  have "p \<noteq> p'" if "gm_get (tbl (t_ssh t)) k = Some p" "gm_get (tbl (t_ssh t)) k' = Some p'" "k \<noteq> k'" for k p k' p'
    using mgr_sess(2) [OF ok that(1)] mgr_sess(2) [OF ok that(2)] that(3) by blast
  then show ?thesis using mgr_live [OF ok] mgr_disj [OF ok] refine_tool(3) [OF ok] by blast
qed

section \<open>Arguments\<close>

lemma clampReadTimeout_bounds: "0 \<le> clampReadTimeout ms \<and> clampReadTimeout ms \<le> maxReadTimeout"
  by (simp add: clampReadTimeout_def maxReadTimeout_def)

lemma execTimeout_bounds:
  assumes "0 < defaultMs"
  shows "0 < execTimeout ms defaultMs \<and> execTimeout ms defaultMs \<le> 3600000"
  using assms by (simp add: execTimeout_def Let_def)

text \<open>The tools that check the numbers of their request, and what passing them on means: the one call to the ssh layer is made with the
  numbers the request has, and they are within bounds.\<close>

fun checksNumbers :: "ssh_tool \<Rightarrow> bool" where
  "checksNumbers (ShellResize r) = True"
| "checksNumbers (ForwardLocalT r) = True"
| "checksNumbers (ForwardRemoteT r) = True"
| "checksNumbers (ForwardDynamicT r) = True"
| "checksNumbers (FileChmodT r) = True"
| "checksNumbers _ = False"

definition isPort :: "int \<Rightarrow> bool" where
  "isPort n \<longleftrightarrow> 1 \<le> n \<and> n < 2 ^ 16"

fun passesNumbers :: "'w senv \<Rightarrow> ssh_tool \<Rightarrow> 'w st \<Rightarrow> 'w st \<Rightarrow> bool" where
  "passesNumbers E (ShellResize r) st st' \<longleftrightarrow>
     (\<exists>h rows cols e. shellResize (e_x E) h rows cols st = (e, st') \<and> rq_int r ''rows'' = Inr rows \<and> rq_int r ''cols'' = Inr cols \<and>
        1 \<le> rows \<and> rows \<le> 1000 \<and> 1 \<le> cols \<and> cols \<le> 1000)"
| "passesNumbers E (ForwardLocalT r) st st' \<longleftrightarrow>
     (\<exists>sid fid l q. OpenLocalForward (e_x E) sid fid l st = (q, st') \<and> rq_int r ''bind_port'' = Inr (ls_BindPort l) \<and>
        rq_int r ''remote_port'' = Inr (ls_RemotePort l) \<and> (ls_BindPort l = 0 \<or> isPort (ls_BindPort l)) \<and> isPort (ls_RemotePort l))"
| "passesNumbers E (ForwardRemoteT r) st st' \<longleftrightarrow>
     (\<exists>sid fid l q. OpenRemoteForward (e_x E) sid fid l st = (q, st') \<and> rq_int r ''bind_port'' = Inr (rs_BindPort l) \<and>
        rq_int r ''local_port'' = Inr (rs_LocalPort l) \<and> (rs_BindPort l = 0 \<or> isPort (rs_BindPort l)) \<and> isPort (rs_LocalPort l))"
| "passesNumbers E (ForwardDynamicT r) st st' \<longleftrightarrow>
     (\<exists>sid fid l q. OpenDynamicForward (e_x E) sid fid l st = (q, st') \<and> rq_int r ''bind_port'' = Inr (ds_BindPort l) \<and>
        (ds_BindPort l = 0 \<or> isPort (ds_BindPort l)))"
| "passesNumbers E (FileChmodT r) st st' \<longleftrightarrow>
     (\<exists>p path m e. FileChmod (e_s E) p path m st = (e, st') \<and> unat m \<le> 4095 \<and>
        (case rq_str0 r ''mode'' of
           Some (c # t) \<Rightarrow> parseUint (octalDigits (trimSpace (c # t))) 8 32 = Some (unat m)
         | _ \<Rightarrow> rq_int r ''mode'' = Inr (uint m)))"
| "passesNumbers E _ st st' \<longleftrightarrow> True"

lemma parseOctalMode_value: "parseOctalMode t = Inr m \<Longrightarrow> parseUint (octalDigits (trimSpace t)) 8 32 = Some (unat m) \<and> unat m \<le> 4095"
  by (auto simp: parseOctalMode_def Let_def unat_of_nat take_bit_nat_eq_self split: if_splits option.splits)

lemma chmodMode_value:
  assumes "chmodMode r = Inr m"
  shows "unat m \<le> 4095 \<and>
    (case rq_str0 r ''mode'' of
       Some (c # t) \<Rightarrow> parseUint (octalDigits (trimSpace (c # t))) 8 32 = Some (unat m)
     | _ \<Rightarrow> rq_int r ''mode'' = Inr (uint m))"
proof (cases "getOr (rq_str0 r ''mode'') [] = []")
  case True
  then obtain n where n: "rq_int r ''mode'' = Inr n" "0 \<le> n" "n \<le> 4095" "m = word_of_int n"
    using assms by (auto simp: chmodMode_def Let_def split: sum.splits if_splits)
  then have "uint m = n" by (simp add: uint_word_of_int_eq take_bit_int_eq_self)
  then have "unat m \<le> 4095" using n(3) by (simp add: unat_eq_nat_uint)
  then show ?thesis using True n(1) \<open>uint m = n\<close> by (auto simp: getOr_def split: option.splits)
next
  case False
  then show ?thesis using assms parseOctalMode_value
    by (auto simp: chmodMode_def Let_def getOr_def neq_Nil_conv split: option.splits)
qed

text \<open>The ways a handler can end, one guard at a time.\<close>

lemma need_E:
  assumes "need q k s = Some (r, s')"
  obtains "isErr r" "s' = s" | a where "q = Inr a" "k a s = Some (r, s')"
  using assms by (auto simp: need_def split: sum.splits)

lemma guard_E:
  assumes "guard b msg k s = Some (r, s')"
  obtains "isErr r" "s' = s" | "b" "k s = Some (r, s')"
  using assms by (auto simp: guard_def split: if_splits)

lemma getSession_E:
  assumes "getSession sid k s = Some (r, s')"
  obtains "isErr r" "s' = s" | p where "Get (t_ssh s) sid = Inr p" "k p s = Some (r, s')"
  using assms unfolding getSession_def by (rule need_E)

lemma getShell_E:
  assumes "getShell shid p k s = Some (r, s')"
  obtains "isErr r" "s' = s" | h where "GetShell (t_ssh s) p shid = Inr h" "k h s = Some (r, s')"
  using assms unfolding getShell_def by (rule need_E)

lemma onSsh_once:
  assumes "onSsh f k s = Some (r, s')" and "\<And>a t r t'. k a t = Some (r, t') \<Longrightarrow> t_ssh t' = t_ssh t"
  shows "\<exists>a. f (t_ssh s) = (a, t_ssh s')"
  using assms(1) assms(2) [of _ "s\<lparr>t_ssh := snd (f (t_ssh s))\<rparr>" r s'] by (auto simp: onSsh_def split: prod.splits)

lemma says_keep:
  "sayErr e (say v) t = Some (r, t') \<Longrightarrow> t_ssh t' = t_ssh t"
  "sayForward q t = Some (r, t') \<Longrightarrow> t_ssh t' = t_ssh t"
  by (auto simp: sayErr_def say_def sayForward_def need_def askPersist_def split: option.splits sum.splits)

lemma resize_passes:
  assumes "handleShellResize E q s = Some (r, s')"
  shows "(isErr r \<and> s' = s) \<or> passesNumbers E (ShellResize q) (t_ssh s) (t_ssh s')"
  using assms unfolding handleShellResize_def
  by (elim need_E guard_E getSession_E getShell_E; simp)
    (drule onSsh_once, erule says_keep(1), auto simp: sizeOk_def)

lemma local_passes:
  assumes "handleForwardLocal E q s = Some (r, s')"
  shows "(isErr r \<and> s' = s) \<or> passesNumbers E (ForwardLocalT q) (t_ssh s) (t_ssh s')"
  using assms unfolding handleForwardLocal_def
  by (elim need_E guard_E; simp)
    (drule onSsh_once, erule says_keep(2), fastforce simp: bindPortOk_def targetPortOk_def isPort_def)

lemma remote_passes:
  assumes "handleForwardRemote E q s = Some (r, s')"
  shows "(isErr r \<and> s' = s) \<or> passesNumbers E (ForwardRemoteT q) (t_ssh s) (t_ssh s')"
  using assms unfolding handleForwardRemote_def
  by (elim need_E guard_E; simp)
    (drule onSsh_once, erule says_keep(2), fastforce simp: bindPortOk_def targetPortOk_def isPort_def)

lemma dynamic_passes:
  assumes "handleForwardDynamic E q s = Some (r, s')"
  shows "(isErr r \<and> s' = s) \<or> passesNumbers E (ForwardDynamicT q) (t_ssh s) (t_ssh s')"
  using assms unfolding handleForwardDynamic_def
  by (elim need_E guard_E; simp)
    (drule onSsh_once, erule says_keep(2), fastforce simp: bindPortOk_def isPort_def)

lemma chmod_passes:
  assumes "handleFileChmod E q s = Some (r, s')"
  shows "(isErr r \<and> s' = s) \<or> passesNumbers E (FileChmodT q) (t_ssh s) (t_ssh s')"
  using assms unfolding handleFileChmod_def
  by (elim need_E getSession_E; simp)
    (drule onSsh_once, erule says_keep(1), drule chmodMode_value, auto)

text \<open>
  C31. Of the ssh tools those that resize a shell, open a local, remote or dynamic forward or change a file's mode check the numbers they are
  given: such a call either fails and nothing has happened, or it makes its one call to the ssh layer with exactly the numbers of the
  request, and ports are then in 16 bits (0 only for a port to bind), rows and columns from 1 to 1000, and a mode has permission
  bits only and is what the octal text or the number says.  (The other tools pass their numbers on as they are.)
\<close>

theorem tool_args_typed:
  assumes "runSshTool E c s = Some (r, s')" and "checksNumbers c"
  shows "(isErr r \<and> s' = s) \<or> passesNumbers E c (t_ssh s) (t_ssh s')"
  using assms resize_passes local_passes remote_passes dynamic_passes chmod_passes by (cases c) (simp_all del: passesNumbers.simps)

section \<open>The tools on the example\<close>

definition demo_env :: "nat senv" where
  "demo_env = \<lparr>e_x = demo_ext, e_s = demo_sext, e_lf = demo_lf, e_pr = demo_proc, e_hops = 2, e_deep = 0, e_wait = []\<rparr>"

definition demo_tools :: "nat sstate" where
  "demo_tools = \<lparr>t_ssh = demo_st, t_fs = (\<lambda>k. None), t_persists = 0\<rparr>"

definition demo_req :: "string \<Rightarrow> treq" where
  "demo_req k = \<lparr>rq_str = (\<lambda>n. Inr k), rq_int = (\<lambda>n. Inr 0), rq_str0 = (\<lambda>n. None), rq_int0 = (\<lambda>n. None), rq_bool0 = (\<lambda>n. None)\<rparr>"

lemma demo_calls:
  "\<exists>s'. runTools [(demo_env, SshDisconnect (demo_req ''a'')), (demo_env, SshInfo (demo_req ''a''))] demo_tools =
     Some ([TText ''disconnected a'', TErr (Errorf ''ssh session %q not found'' [''a''])], s')"
proof -
  let ?cs = "[(demo_env, SshDisconnect (demo_req ''a'')), (demo_env, SshInfo (demo_req ''a''))]"
  have "map_option fst (runTools ?cs demo_tools) =
     Some [TText ''disconnected a'', TErr (Errorf ''ssh session %q not found'' [''a''])]"
    by code_simp
  then show ?thesis by auto
qed

theorem ssh_tools_refine_witness:
  "\<exists>s'. runTools [(demo_env, SshDisconnect (demo_req ''a'')), (demo_env, SshInfo (demo_req ''a''))] demo_tools =
       Some ([TText ''disconnected a'', TErr (Errorf ''ssh session %q not found'' [''a''])], s') \<and> ids s' = {}"
proof -
  obtain s' where r: "runTools [(demo_env, SshDisconnect (demo_req ''a'')), (demo_env, SshInfo (demo_req ''a''))] demo_tools =
       Some ([TText ''disconnected a'', TErr (Errorf ''ssh session %q not found'' [''a''])], s')" using demo_calls by blast
  have i: "ids demo_tools = {''a''}" by (auto simp: ids_def demo_tools_def demo_st_def gm_get_def)
  have "mgr_ok (t_ssh demo_tools)" using demo_mgr_ok by (simp add: demo_tools_def)
  from ssh_tools_refine [OF this r] have "ids s' = {}" by (auto simp: i a_step_def demo_req_def)
  then show ?thesis using r by blast
qed

theorem tool_args_typed_witness:
  "isErr (fst (the (runSshTool demo_env (ForwardLocalT (demo_req ''a'')) demo_tools)))"
proof -
  have "runSshTool demo_env (ForwardLocalT (demo_req ''a'')) demo_tools \<noteq> None"
    by (simp add: handleForwardLocal_def demo_req_def guard_def targetPortOk_def)
  then obtain r s' where h: "runSshTool demo_env (ForwardLocalT (demo_req ''a'')) demo_tools = Some (r, s')" by auto
  have "\<not> passesNumbers demo_env (ForwardLocalT (demo_req ''a'')) st st'" for st st' by (auto simp: demo_req_def isPort_def)
  with tool_args_typed [OF h] have "isErr r" by (simp del: passesNumbers.simps)
  then show ?thesis by (simp only: h option.sel fst_conv)
qed

text \<open>From the empty manager, a connect to the example's host.\<close>

definition demo_empty :: "nat sstate" where
  "demo_empty = demo_tools\<lparr>t_ssh := demo_st\<lparr>tbl := [], st_io := \<lparr>orc = 0, next_h = 0, live = {}\<rparr>\<rparr>\<rparr>"

theorem ssh_tools_accounted_witness:
  "\<exists>t. runSshTool demo_env (SshConnect (Inr (''b'', demo_spec ''lan''))) demo_empty \<noteq> None \<and> steps_to tool_step demo_empty t \<and>
     ids t = {''b''} \<and> (\<forall>h \<in> live (st_io (t_ssh t)). \<exists>k p. gm_get (tbl (t_ssh t)) k = Some p \<and> h \<in> owned (t_ssh t) p)"
proof -
  let ?c = "SshConnect (Inr (''b'', demo_spec ''lan''))"
  have v: "map_option (\<lambda>(r, t). (isErr r, gm_keys (tbl (t_ssh t)))) (runSshTool demo_env ?c demo_empty) = Some (False, [''b''])"
    by code_simp
  then obtain r t where t: "runSshTool demo_env ?c demo_empty = Some (r, t)" and k: "gm_keys (tbl (t_ssh t)) = [''b'']" by auto
  have st: "steps_to tool_step demo_empty t" by (rule steps_one, rule tool_step.call, rule t)
  have s: "toolStart demo_empty" by (simp add: toolStart_def demo_empty_def)
  have "ids t = set (gm_keys (tbl (t_ssh t)))" by (simp add: ids_def gm_keys_get set_eq_iff)
  then have i: "ids t = {''b''}" by (simp only: k list.set)
  have "live (st_io (t_ssh t)) = {h. \<exists>k p. gm_get (tbl (t_ssh t)) k = Some p \<and> h \<in> owned (t_ssh t) p}"
    using ssh_tools_accounted [OF s st] by blast
  then show ?thesis using t st i by (intro exI [of _ t]) simp
qed

end
