(* ===== verification/ToolDocker.thy ===== *)
theory ToolDocker
  imports ToolSsh DockerContainer DockerCopyProps
begin

text \<open>
  The docker tools and the tools about the daemon itself: \<open>internal/mcptools/docker.go\<close>, \<open>docker_shell.go\<close> and
  \<open>meta.go\<close>, and how \<open>server.go\<close> encodes a result.  The steps of a handler are those of the ssh tools.
\<close>

section \<open>State and replies\<close>

datatype 'ins dreply_value =
    DHost HostInfo
  | DHosts "HostRow list"
  | DContainers "ContainerRow list"
  | DInspect 'ins
  | DImages "ImageRow list"
  | DPulled string string
  | DRun RunResult
  | DExecRes DExecResult
  | DBytes int
  | DShellV DShellInfo
  | DShells "DShellInfo list option"
  | DWritten int
  | DOutput string bool

record 'w dstate =
  u_docker :: "'w dst"
  u_fs :: dfs
  u_persists :: nat

record ('w, 'ins, 'p, 'ip) denv =
  v_x :: "'w ext"
  v_d :: "'w dext"
  v_k :: "('w, 'ins) kext"
  v_q :: "('w, 'p, 'ip) rext"
  v_z :: "'w cext"
  v_lf :: localfs
  v_pr :: proc
  v_deep :: nat           \<comment> \<open>bound on the depth of local directories\<close>
  v_wait :: "choice list" \<comment> \<open>the runtime's choices while a shell is read\<close>

definition onDocker :: "('w dst \<Rightarrow> 'a \<times> 'w dst) \<Rightarrow> ('a \<Rightarrow> 'w dstate \<Rightarrow> ('v, 'w dstate) hres) \<Rightarrow> 'w dstate \<Rightarrow> ('v, 'w dstate) hres" where
  "onDocker f k s = (case f (u_docker s) of (a, st) \<Rightarrow> k a (s\<lparr>u_docker := st\<rparr>))"

definition dockerPersist :: "'w dstate \<Rightarrow> 'w dstate" where
  "dockerPersist s = s\<lparr>u_persists := Suc (u_persists s)\<rparr>"

definition getHost :: "string \<Rightarrow> (ptr \<Rightarrow> 'w dstate \<Rightarrow> ('v, 'w dstate) hres) \<Rightarrow> 'w dstate \<Rightarrow> ('v, 'w dstate) hres" where
  "getHost hid k s = need (dockerGet (u_docker s) hid) k s"

definition getDShell :: "string \<Rightarrow> ptr \<Rightarrow> (ptr \<Rightarrow> 'w dstate \<Rightarrow> ('v, 'w dstate) hres) \<Rightarrow> 'w dstate \<Rightarrow> ('v, 'w dstate) hres" where
  "getDShell shid p k s = need (dockerGetShell (u_docker s) p shid) k s"

section \<open>docker.go\<close>

definition handleDockerConnect ::
    "('w, 'ins, 'p, 'ip) denv \<Rightarrow> (string \<times> DockerSpec) res \<Rightarrow> 'w dstate \<Rightarrow> ('ins dreply_value, 'w dstate) hres" where
  "handleDockerConnect V args = need args (\<lambda>(k, spec).
     onDocker (dockerConnect (v_x V) (v_d V) k spec)
       (\<lambda>q. need q (\<lambda>p s. say (TValue (DHost (hostInfo (u_docker s) p))) (dockerPersist s))))"

definition handleDockerDisconnect ::
    "('w, 'ins, 'p, 'ip) denv \<Rightarrow> treq \<Rightarrow> 'w dstate \<Rightarrow> ('ins dreply_value, 'w dstate) hres" where
  "handleDockerDisconnect V r = need (rq_str r ''id'') (\<lambda>k.
     onDocker (dockerDisconnect (v_x V) k) (\<lambda>e. sayErr e (\<lambda>s. say (TText (''disconnected '' @ k)) (dockerPersist s))))"

definition handleDockerListHosts :: "'w dstate \<Rightarrow> ('ins dreply_value, 'w dstate) hres" where
  "handleDockerListHosts s = say (TValue (DHosts (map hostRow (dockerList (u_docker s))))) s"

record dockerContainersArgs =
  ca_HostID :: string
  ca_All :: bool
  ca_Limit :: int
  ca_Filters :: "string list gomap"

definition handleDockerContainers ::
    "('w, 'ins, 'p, 'ip) denv \<Rightarrow> dockerContainersArgs res \<Rightarrow> 'w dstate \<Rightarrow> ('ins dreply_value, 'w dstate) hres" where
  "handleDockerContainers V args = need args (\<lambda>a. getHost (ca_HostID a) (\<lambda>p.
     onDocker (ListContainers (v_k V) p (ca_All a) (ca_Limit a) (ca_Filters a))
       (\<lambda>q. need q (\<lambda>l. say (TValue (DContainers (map containerRow l)))))))"

text \<open>Most handlers read a host and a container first.\<close>

definition withContainer ::
    "treq \<Rightarrow> (string \<Rightarrow> ptr \<Rightarrow> 'w dstate \<Rightarrow> ('v, 'w dstate) hres) \<Rightarrow> 'w dstate \<Rightarrow> ('v, 'w dstate) hres" where
  "withContainer r k = need (rq_str r ''host_id'') (\<lambda>hid. need (rq_str r ''container'') (\<lambda>c. getHost hid (k c)))"

definition handleDockerInspect ::
    "('w, 'ins, 'p, 'ip) denv \<Rightarrow> treq \<Rightarrow> 'w dstate \<Rightarrow> ('ins dreply_value, 'w dstate) hres" where
  "handleDockerInspect V r = withContainer r (\<lambda>c p.
     onDocker (Inspect (v_k V) p c) (\<lambda>q. need q (\<lambda>i. say (TValue (DInspect i)))))"

definition handleDockerStart ::
    "('w, 'ins, 'p, 'ip) denv \<Rightarrow> treq \<Rightarrow> 'w dstate \<Rightarrow> ('ins dreply_value, 'w dstate) hres" where
  "handleDockerStart V r = withContainer r (\<lambda>c p.
     onDocker (dStart (v_k V) p c) (\<lambda>e. sayErr e (say (TText (''started '' @ c)))))"

definition timeoutSec :: "treq \<Rightarrow> int option" where
  "timeoutSec r =
     (if 0 \<le> getOr (rq_int0 r ''timeout_sec'') (-1) then Some (getOr (rq_int0 r ''timeout_sec'') 0) else None)"

definition handleDockerStop ::
    "('w, 'ins, 'p, 'ip) denv \<Rightarrow> treq \<Rightarrow> 'w dstate \<Rightarrow> ('ins dreply_value, 'w dstate) hres" where
  "handleDockerStop V r = withContainer r (\<lambda>c p.
     onDocker (dStop (v_k V) p c (timeoutSec r)) (\<lambda>e. sayErr e (say (TText (''stopped '' @ c)))))"

definition handleDockerRestart ::
    "('w, 'ins, 'p, 'ip) denv \<Rightarrow> treq \<Rightarrow> 'w dstate \<Rightarrow> ('ins dreply_value, 'w dstate) hres" where
  "handleDockerRestart V r = withContainer r (\<lambda>c p.
     onDocker (dRestart (v_k V) p c (timeoutSec r)) (\<lambda>e. sayErr e (say (TText (''restarted '' @ c)))))"

definition handleDockerKill ::
    "('w, 'ins, 'p, 'ip) denv \<Rightarrow> treq \<Rightarrow> 'w dstate \<Rightarrow> ('ins dreply_value, 'w dstate) hres" where
  "handleDockerKill V r = withContainer r (\<lambda>c p.
     onDocker (dKill (v_k V) p c (getOr (rq_str0 r ''signal'') [])) (\<lambda>e. sayErr e (say (TText (''killed '' @ c)))))"

definition handleDockerRemove ::
    "('w, 'ins, 'p, 'ip) denv \<Rightarrow> treq \<Rightarrow> 'w dstate \<Rightarrow> ('ins dreply_value, 'w dstate) hres" where
  "handleDockerRemove V r = withContainer r (\<lambda>c p.
     onDocker (dRemove (v_k V) p c (getOr (rq_bool0 r ''force'') False) (getOr (rq_bool0 r ''remove_volumes'') False))
       (\<lambda>e. sayErr e (say (TText (''removed '' @ c)))))"

definition handleDockerLogs ::
    "('w, 'ins, 'p, 'ip) denv \<Rightarrow> treq \<Rightarrow> 'w dstate \<Rightarrow> ('ins dreply_value, 'w dstate) hres" where
  "handleDockerLogs V r = withContainer r (\<lambda>c p.
     onDocker (Logs (v_x V) (v_k V) p c
         \<lparr>lo_Tail = getOr (rq_str0 r ''tail'') ''all'', lo_Since = getOr (rq_str0 r ''since'') [],
          lo_Until = getOr (rq_str0 r ''until'') [], lo_Timestamps = getOr (rq_bool0 r ''timestamps'') False,
          lo_Stdout = getOr (rq_bool0 r ''stdout'') True, lo_Stderr = getOr (rq_bool0 r ''stderr'') True\<rparr>)
       (\<lambda>q. need q (\<lambda>t. say (TText t))))"

definition handleDockerImageList ::
    "('w, 'ins, 'p, 'ip) denv \<Rightarrow> treq \<Rightarrow> 'w dstate \<Rightarrow> ('ins dreply_value, 'w dstate) hres" where
  "handleDockerImageList V r = need (rq_str r ''host_id'') (\<lambda>hid. getHost hid (\<lambda>p.
     onDocker (ListImages (v_q V) p (getOr (rq_bool0 r ''all'') False))
       (\<lambda>q. need q (\<lambda>l. say (TValue (DImages (map imageRow l)))))))"

definition handleDockerImagePull ::
    "('w, 'ins, 'p, 'ip) denv \<Rightarrow> treq \<Rightarrow> 'w dstate \<Rightarrow> ('ins dreply_value, 'w dstate) hres" where
  "handleDockerImagePull V r = need (rq_str r ''host_id'') (\<lambda>hid. need (rq_str r ''image'') (\<lambda>ref. getHost hid (\<lambda>p.
     onDocker (PullImage (v_x V) (v_q V) p ref) (\<lambda>(status, e). sayErr e (say (TValue (DPulled ref status)))))))"

definition handleDockerImageRemove ::
    "('w, 'ins, 'p, 'ip) denv \<Rightarrow> treq \<Rightarrow> 'w dstate \<Rightarrow> ('ins dreply_value, 'w dstate) hres" where
  "handleDockerImageRemove V r = need (rq_str r ''host_id'') (\<lambda>hid. need (rq_str r ''image'') (\<lambda>ref. getHost hid (\<lambda>p.
     onDocker (RemoveImage (v_q V) p ref (getOr (rq_bool0 r ''force'') False) (getOr (rq_bool0 r ''prune_children'') False))
       (\<lambda>e. sayErr e (say (TText (''removed '' @ ref)))))))"

definition handleDockerRun ::
    "('w, 'ins, 'p, 'ip) denv \<Rightarrow> (string \<times> RunOptions) res \<Rightarrow> 'w dstate \<Rightarrow> ('ins dreply_value, 'w dstate) hres" where
  "handleDockerRun V args = need args (\<lambda>(hid, spec). getHost hid (\<lambda>p s.
     (case dockerRun (v_x V) (v_q V) p spec (u_docker s) of
        (q, calls, st) \<Rightarrow> need q (\<lambda>res. say (TValue (DRun res))) (s\<lparr>u_docker := st\<rparr>))))"

record dockerExecArgs =
  da_HostID :: string
  da_Container :: string
  da_Cmd :: "string list"
  da_WorkingDir :: string
  da_User :: string
  da_Env :: "string gomap"
  da_Stdin :: string
  da_TimeoutMs :: int

definition handleDockerExec ::
    "('w, 'ins, 'p, 'ip) denv \<Rightarrow> dockerExecArgs res \<Rightarrow> 'w dstate \<Rightarrow> ('ins dreply_value, 'w dstate) hres" where
  "handleDockerExec V args = need args (\<lambda>a. getHost (da_HostID a) (\<lambda>p.
     onDocker (dExec (v_x V) (v_k V) p (da_Container a)
         \<lparr>eo_Cmd = da_Cmd a, eo_WorkingDir = da_WorkingDir a, eo_Env = da_Env a, eo_User = da_User a, eo_Stdin = da_Stdin a\<rparr>)
       (\<lambda>q. need q (\<lambda>res. say (TValue (DExecRes res))))))"

definition handleDockerUpload ::
    "('w, 'ins, 'p, 'ip) denv \<Rightarrow> treq \<Rightarrow> 'w dstate \<Rightarrow> ('ins dreply_value, 'w dstate) hres" where
  "handleDockerUpload V r = need (rq_str r ''host_id'') (\<lambda>hid. need (rq_str r ''container'') (\<lambda>c.
     need (rq_str r ''local_path'') (\<lambda>local. need (rq_str r ''remote_path'') (\<lambda>remote. getHost hid (\<lambda>p s.
       (case dockerUpload (v_z V) (v_lf V) (v_deep V) p c local remote (u_docker s) of
          None \<Rightarrow> None
        | Some ((n, e), st) \<Rightarrow> sayErr e (say (TValue (DBytes n))) (s\<lparr>u_docker := st\<rparr>)))))))"

definition handleDockerDownload ::
    "('w, 'ins, 'p, 'ip) denv \<Rightarrow> treq \<Rightarrow> 'w dstate \<Rightarrow> ('ins dreply_value, 'w dstate) hres" where
  "handleDockerDownload V r = need (rq_str r ''host_id'') (\<lambda>hid. need (rq_str r ''container'') (\<lambda>c.
     need (rq_str r ''remote_path'') (\<lambda>remote. need (rq_str r ''local_path'') (\<lambda>local. getHost hid (\<lambda>p s.
       (case dockerDownload (v_x V) (v_z V) (v_pr V) p c remote local (u_fs s) (u_docker s) of
          ((n, e), fs, st) \<Rightarrow> sayErr e (say (TValue (DBytes n))) (s\<lparr>u_docker := st, u_fs := fs\<rparr>)))))))"

section \<open>docker shells\<close>

record dockerShellOpenArgs =
  ga_HostID :: string
  ga_ShellID :: string
  ga_Container :: string
  ga_Cmd :: "string list"
  ga_Env :: "string gomap"
  ga_User :: string
  ga_WorkingDir :: string
  ga_Rows :: nat
  ga_Cols :: nat

definition handleDockerShellOpen ::
    "('w, 'ins, 'p, 'ip) denv \<Rightarrow> dockerShellOpenArgs res \<Rightarrow> 'w dstate \<Rightarrow> ('ins dreply_value, 'w dstate) hres" where
  "handleDockerShellOpen V args = need args (\<lambda>a. getHost (ga_HostID a) (\<lambda>p.
     onDocker (dockerOpenShell (v_x V) (v_d V) p (ga_ShellID a)
         \<lparr>do_Container = ga_Container a, do_Cmd = ga_Cmd a, do_Env = ga_Env a, do_User = ga_User a,
          do_WorkingDir = ga_WorkingDir a, do_Rows = ga_Rows a, do_Cols = ga_Cols a, do_BufferSize = 0\<rparr>)
       (\<lambda>q. need q (\<lambda>h s. say (TValue (DShellV (dshellInfo (dsh (u_docker s) h)))) s))))"

definition withDShell ::
    "string \<Rightarrow> string \<Rightarrow> (ptr \<Rightarrow> 'w dstate \<Rightarrow> ('v, 'w dstate) hres) \<Rightarrow> 'w dstate \<Rightarrow> ('v, 'w dstate) hres" where
  "withDShell hid shid k = getHost hid (\<lambda>p. getDShell shid p k)"

definition handleDockerShellWrite ::
    "('w, 'ins, 'p, 'ip) denv \<Rightarrow> treq \<Rightarrow> 'w dstate \<Rightarrow> ('ins dreply_value, 'w dstate) hres" where
  "handleDockerShellWrite V r = need (rq_str r ''host_id'') (\<lambda>hid. need (rq_str r ''shell_id'') (\<lambda>shid.
     need (rq_str r ''data'') (\<lambda>data. withDShell hid shid (\<lambda>h.
       onDocker (dshellWrite (v_d V) h data) (\<lambda>(n, e). sayErr e (say (TValue (DWritten n))))))))"

definition handleDockerShellRead ::
    "('w, 'ins, 'p, 'ip) denv \<Rightarrow> treq \<Rightarrow> 'w dstate \<Rightarrow> ('ins dreply_value, 'w dstate) hres" where
  "handleDockerShellRead V r = need (rq_str r ''host_id'') (\<lambda>hid. need (rq_str r ''shell_id'') (\<lambda>shid.
     withDShell hid shid (\<lambda>h s.
       (case dshellRead (v_wait V) h (u_docker s) of
          None \<Rightarrow> None
        | Some (RData d, st) \<Rightarrow> Some (TValue (DOutput d False), s\<lparr>u_docker := st\<rparr>)
        | Some (RTimeout, st) \<Rightarrow> Some (TValue (DOutput [] False), s\<lparr>u_docker := st\<rparr>)
        | Some (REof, st) \<Rightarrow> Some (TValue (DOutput [] True), s\<lparr>u_docker := st\<rparr>)))))"

definition handleDockerShellResize ::
    "('w, 'ins, 'p, 'ip) denv \<Rightarrow> treq \<Rightarrow> 'w dstate \<Rightarrow> ('ins dreply_value, 'w dstate) hres" where
  "handleDockerShellResize V r = need (rq_str r ''host_id'') (\<lambda>hid. need (rq_str r ''shell_id'') (\<lambda>shid.
     need (rq_int r ''rows'') (\<lambda>rows. need (rq_int r ''cols'') (\<lambda>cols.
       guard (sizeOk rows cols) ''rows/cols must be in [1, 1000]'' (withDShell hid shid (\<lambda>h.
         onDocker (dshellResize (v_d V) h (nat rows) (nat cols)) (\<lambda>e. sayErr e (say (TText ''ok'')))))))))"

definition handleDockerShellClose ::
    "('w, 'ins, 'p, 'ip) denv \<Rightarrow> treq \<Rightarrow> 'w dstate \<Rightarrow> ('ins dreply_value, 'w dstate) hres" where
  "handleDockerShellClose V r = need (rq_str r ''host_id'') (\<lambda>hid. need (rq_str r ''shell_id'') (\<lambda>shid. getHost hid (\<lambda>p.
     onDocker (dockerCloseShell (v_x V) p shid) (\<lambda>e. sayErr e (say (TText (''closed '' @ shid)))))))"

text \<open>As with the ssh shells, nothing appended to a nil slice leaves it nil.\<close>

definition handleDockerShellList :: "treq \<Rightarrow> 'w dstate \<Rightarrow> ('ins dreply_value, 'w dstate) hres" where
  "handleDockerShellList r s =
     (let hid = getOr (rq_str0 r ''host_id'') [] in
      if hid = [] then
        (let all = concat (map (dockerListShells (u_docker s)) (gm_vals (dockerHosts (u_docker s)))) in
         say (TValue (DShells (if all = [] then None else Some all))) s)
      else getHost hid (\<lambda>p s. say (TValue (DShells (Some (dockerListShells (u_docker s) p)))) s) s)"

section \<open>Persisting, the snapshot and the status\<close>

text \<open>The whole state of the tools; the codec and the faults of the file system are those of \<open>StateSync\<close>.\<close>

record 'w toolstate =
  ts_ssh :: "'w st"
  ts_docker :: "'w dst"
  ts_disk :: fs

definition PersistNow :: "codec \<Rightarrow> fault \<Rightarrow> string option \<Rightarrow> 'w toolstate \<Rightarrow> goerr option \<times> 'w toolstate" where
  "PersistNow j ft store s =
     (case store of
        None \<Rightarrow> (None, s)
      | Some path \<Rightarrow>
          (case Capture (ts_ssh s) (ts_docker s) of (sn, st) \<Rightarrow>
             (case SaveSnap j ft path (snapVal st sn) (ts_disk s) of
                (e, fss) \<Rightarrow> (e, s\<lparr>ts_ssh := st, ts_disk := last fss\<rparr>))))"

datatype meta_value =
    MSaved string
  | MStatus int int string "SessionRow list" "HostRow list" "ForwardInfo list"

definition storePath :: "string option \<Rightarrow> string" where
  "storePath store = getOr store []"

definition handleSnapshot :: "codec \<Rightarrow> fault \<Rightarrow> string option \<Rightarrow> 'w toolstate \<Rightarrow> (meta_value, 'w toolstate) hres" where
  "handleSnapshot j ft store s =
     (case PersistNow j ft store s of (e, s) \<Rightarrow> sayErr e (say (TValue (MSaved (storePath store)))) s)"

definition handleStatus :: "int \<Rightarrow> int \<Rightarrow> string option \<Rightarrow> 'w toolstate \<Rightarrow> (meta_value, 'w toolstate) hres" where
  "handleStatus uptime goroutines store s =
     say (TValue (MStatus uptime goroutines (storePath store)
       (map Row (ListSessions (ts_ssh s))) (map hostRow (dockerList (ts_docker s)))
       (case ListForwards (ts_ssh s) [] of Inl e \<Rightarrow> [] | Inr l \<Rightarrow> l))) s"

section \<open>Encoding a result\<close>

datatype OutputFormat = FormatJSON | FormatTOON

definition ParseFormat :: "string \<Rightarrow> OutputFormat res" where
  "ParseFormat s =
     (if s = [] \<or> s = ''json'' then Inr FormatJSON
      else if s = ''toon'' then Inr FormatTOON
      else Inl (Errorf ''unknown output format %q (want json or toon)'' [s]))"

record ('v, 'g) encoders =
  n_indent :: "'v \<Rightarrow> string res"     \<comment> \<open>\<open>json.MarshalIndent\<close>\<close>
  n_marshal :: "'v \<Rightarrow> string res"
  n_unmarshal :: "string \<Rightarrow> 'g res"
  n_toon :: "'g \<Rightarrow> string res"

text \<open>What the client gets: whether it is marked as an error, and the text.\<close>

definition jsonResult :: "('v, 'g) encoders \<Rightarrow> 'v \<Rightarrow> goerr + string" where
  "jsonResult n v = (case n_indent n v of Inl e \<Rightarrow> Inl (Wrapf ''encode result: %w'' [] e) | Inr t \<Rightarrow> Inr t)"

definition toonText :: "('v, 'g) encoders \<Rightarrow> 'v \<Rightarrow> string option" where
  "toonText n v =
     (case n_marshal n v of
        Inl _ \<Rightarrow> None
      | Inr raw \<Rightarrow>
          (case n_unmarshal n raw of
             Inl _ \<Rightarrow> None
           | Inr g \<Rightarrow> (case n_toon n g of Inl _ \<Rightarrow> None | Inr t \<Rightarrow> Some t)))"

definition resultJSON :: "('v, 'g) encoders \<Rightarrow> OutputFormat \<Rightarrow> 'v \<Rightarrow> goerr + string" where
  "resultJSON n fmt v =
     (case fmt of
        FormatTOON \<Rightarrow> (case toonText n v of Some t \<Rightarrow> Inr t | None \<Rightarrow> jsonResult n v)
      | FormatJSON \<Rightarrow> jsonResult n v)"

lemma resultJSON_falls_back: "is_ok (jsonResult n v) \<Longrightarrow> is_ok (resultJSON n fmt v)"
  by (cases fmt) (auto simp: resultJSON_def split: option.splits)

end
