(* ===== verification/ToolDockerProps.thy ===== *)
theory ToolDockerProps
  imports ToolDocker ToolSshProps
begin

text \<open>
  The docker tools as one interface: a tool that does not connect, disconnect, open or close a shell leaves the hosts and
  everything open as they were, and the set of hosts changes as an abstract set of ids would.
\<close>

section \<open>Steady calls\<close>

text \<open>As \<open>balanced\<close>, but a shell may have been read.\<close>

definition steady :: "'w dst \<Rightarrow> 'w dst \<Rightarrow> bool" where
  "steady st st' \<longleftrightarrow> hosts st' = hosts st \<and> hst st' = hst st \<and> acquired (d_io st) [] (d_io st')"

lemma steady_balanced: "balanced st st' \<Longrightarrow> steady st st'"
  by (simp add: balanced_def steady_def)

lemma steady_refl [simp]: "steady st st"
  by (simp add: steady_def)

lemma steady_trans: "steady st st' \<Longrightarrow> steady st' st'' \<Longrightarrow> steady st st''"
  by (auto simp: steady_def intro: acquired_trans0)

definition dockerKeeps :: "'w dstate \<Rightarrow> 'w dstate \<Rightarrow> bool" where
  "dockerKeeps s s' \<longleftrightarrow> (io_ok (d_io (u_docker s)) \<longrightarrow> steady (u_docker s) (u_docker s'))"

lemma steady_ok: "steady st st' \<Longrightarrow> io_ok (d_io st) \<Longrightarrow> io_ok (d_io st')"
  by (auto simp: steady_def intro: acquired_ok)

interpretation docker_contract: handler_contract dockerKeeps
proof
  show "dockerKeeps s s" for s :: "'w dstate" by (simp add: dockerKeeps_def)
  show "dockerKeeps s u" if "dockerKeeps s t" "dockerKeeps t u" for s t u :: "'w dstate"
    using that steady_ok steady_trans unfolding dockerKeeps_def by blast
qed

abbreviation calm :: "('w dstate \<Rightarrow> ('v, 'w dstate) hres) \<Rightarrow> bool" where
  "calm \<equiv> docker_contract.keeps"

lemma calm_call:
  assumes "\<And>st a st'. io_ok (d_io st) \<Longrightarrow> f st = (a, st') \<Longrightarrow> steady st st'" and "\<And>a. calm (k a)"
  shows "calm (onDocker f k)"
proof (rule docker_contract.keepsI)
  fix s r s'
  assume h: "onDocker f k s = Some (r, s')"
  obtain a st where f: "f (u_docker s) = (a, st)" by fastforce
  then have k: "k a (s\<lparr>u_docker := st\<rparr>) = Some (r, s')" using h by (simp add: onDocker_def)
  have "dockerKeeps s (s\<lparr>u_docker := st\<rparr>)" using assms(1) [OF _ f] by (simp add: dockerKeeps_def)
  then show "dockerKeeps s s'" by (rule docker_contract.keeps_then [OF _ assms(2) k])
qed

lemma calm_getHost [keeps_intros]: "(\<And>p. calm (k p)) \<Longrightarrow> calm (getHost hid k)"
  unfolding getHost_def by (rule docker_contract.keeps_needAt)

lemma calm_withContainer [keeps_intros]: "(\<And>c p. calm (k c p)) \<Longrightarrow> calm (withContainer r k)"
  unfolding withContainer_def by (intro docker_contract.keeps_need calm_getHost)

lemma calm_withDShell [keeps_intros]: "(\<And>h. calm (k h)) \<Longrightarrow> calm (withDShell hid shid k)"
  unfolding withDShell_def getDShell_def by (intro calm_getHost docker_contract.keeps_needAt)

lemma calm_calls [keeps_intros]:
  "(\<And>a. calm (k1 a)) \<Longrightarrow> calm (onDocker (ListContainers K p all limit filters) k1)"
  "(\<And>a. calm (k2 a)) \<Longrightarrow> calm (onDocker (Inspect K p c) k2)"
  "(\<And>a. calm (k3 a)) \<Longrightarrow> calm (onDocker (dStart K p c) k3)"
  "(\<And>a. calm (k3 a)) \<Longrightarrow> calm (onDocker (dStop K p c t) k3)"
  "(\<And>a. calm (k3 a)) \<Longrightarrow> calm (onDocker (dRestart K p c t) k3)"
  "(\<And>a. calm (k3 a)) \<Longrightarrow> calm (onDocker (dKill K p c sig) k3)"
  "(\<And>a. calm (k3 a)) \<Longrightarrow> calm (onDocker (dRemove K p c b1 b2) k3)"
  by (rule calm_call, rule steady_balanced;
      auto simp: ListContainers_def Inspect_def dStart_def dStop_def dRestart_def dKill_def dRemove_def
        dest: balanced_viaClient balanced_viaClient0 split: prod.splits sum.splits)+

lemma balanced_images:
  "ListImages q p all st = (r1, st') \<Longrightarrow> balanced st st'" "RemoveImage q p ref b1 b2 st = (r2, st') \<Longrightarrow> balanced st st'"
  by (auto simp: ListImages_def RemoveImage_def intro: balanced_call split: prod.splits sum.splits)

lemma calm_more_calls [keeps_intros]:
  "(\<And>a. calm (k1 a)) \<Longrightarrow> calm (onDocker (ListImages q p all) k1)"
  "(\<And>a. calm (k2 a)) \<Longrightarrow> calm (onDocker (RemoveImage q p ref b1 b2) k2)"
  "(\<And>a. calm (k3 a)) \<Longrightarrow> calm (onDocker (PullImage x q p ref) k3)"
  "(\<And>a. calm (k4 a)) \<Longrightarrow> calm (onDocker (dExec x K p c opts) k4)"
  "(\<And>a. calm (k5 a)) \<Longrightarrow> calm (onDocker (Logs x K p c lopts) k5)"
  by (rule calm_call, rule steady_balanced;
      blast dest: balanced_images balanced_PullImage balanced_dExec balanced_Logs)+

lemma calm_shell_calls [keeps_intros]:
  "(\<And>a. calm (k1 a)) \<Longrightarrow> calm (onDocker (dshellWrite d h data) k1)"
  "(\<And>a. calm (k2 a)) \<Longrightarrow> calm (onDocker (dshellResize d h rows cols) k2)"
  by (rule calm_call, rule steady_balanced;
      auto simp: dshellWrite_def dshellResize_def intro: balanced_call split: if_splits sum.splits)+

lemma steady_dockerRun:
  assumes "io_ok (d_io st)" and "dockerRun x q p opts st = (r, calls, st')"
  shows "steady st st'"
proof (cases "\<exists>c. dclient st p = Inr c \<and> ro_Image opts \<noteq> []")
  case False
  then show ?thesis using assms(2) by (auto simp: dockerRun_def split: sum.splits if_splits)
next
  case True
  then obtain c where c: "dclient st p = Inr c" "ro_Image opts \<noteq> []" by blast
  obtain e calls1 st1 where u: "runPull x q p c opts st = (e, calls1, st1)" by (metis surj_pair)
  have s1: "steady st st1" using runPull_acq [OF assms(1) u] by (simp add: steady_def)
  show ?thesis
  proof (cases "e = None \<and> is_ok (collectPorts (q_port_from q) (q_parse_addr q) (ro_Ports opts) ([], []))")
    case False
    then have "st' = st1" using assms(2) c u by (auto simp: dockerRun_def split: option.splits sum.splits)
    then show ?thesis using s1 by simp
  next
    case True
    then obtain ex bs where b: "collectPorts (q_port_from q) (q_parse_addr q) (ro_Ports opts) ([], []) = Inr (ex, bs)"
      by (cases "collectPorts (q_port_from q) (q_parse_addr q) (ro_Ports opts) ([], [])") auto
    obtain r2 calls2 st2 where w: "runStart q c (createReq opts ex bs) st1 = (r2, calls2, st2)" by (metis surj_pair)
    then have "st' = st2" using assms(2) c u True b by (simp add: dockerRun_def)
    moreover have "steady st1 st2" using runStart_spec [OF w] by (simp add: steady_def)
    ultimately show ?thesis using s1 steady_trans by blast
  qed
qed

text \<open>Handlers that put their call together themselves.\<close>

lemma calm_run: "calm (\<lambda>s. case dockerRun x q p spec (u_docker s) of
        (v, calls, st) \<Rightarrow> need v (\<lambda>res. say (TValue (DRun res))) (s\<lparr>u_docker := st\<rparr>))"
  by (rule docker_contract.keepsI)
    (auto simp: dockerKeeps_def need_def say_def split: prod.splits sum.splits dest: steady_dockerRun)

lemma dockerUpload_steady:
  assumes "dockerUpload z lf n p c local remote st = Some (r, st')"
  shows "steady st st'"
  using assms balanced_call
  by (fastforce simp: dockerUpload_def intro: steady_balanced split: sum.splits option.splits prod.splits)

lemma dockerDownload_steady:
  assumes "dockerDownload x z pr p c remote local fs st = (r, fs', st')" and "io_ok (d_io st)"
  shows "steady st st'"
  using assms balanced_open_err balanced_open_close [OF assms(2)]
  by (fastforce simp: dockerDownload_def intro: steady_balanced split: sum.splits option.splits prod.splits if_splits)

lemma calm_upload: "calm (\<lambda>s. case dockerUpload z lf n p c local remote (u_docker s) of
          None \<Rightarrow> None
        | Some ((n, e), st) \<Rightarrow> sayErr e (say (TValue (DBytes n))) (s\<lparr>u_docker := st\<rparr>))"
  by (rule docker_contract.keepsI)
    (auto simp: dockerKeeps_def sayErr_def say_def split: prod.splits option.splits dest: dockerUpload_steady)

lemma calm_download: "calm (\<lambda>s. case dockerDownload x z pr p c remote local (u_fs s) (u_docker s) of
          ((n, e), fs, st) \<Rightarrow> sayErr e (say (TValue (DBytes n))) (s\<lparr>u_docker := st, u_fs := fs\<rparr>))"
  by (rule docker_contract.keepsI)
    (auto simp: dockerKeeps_def sayErr_def say_def split: prod.splits option.splits dest: dockerDownload_steady)

lemma dshellRead_steady: "dshellRead cs h st = Some (r, st') \<Longrightarrow> steady st st'"
  by (auto simp: dshellRead_def steady_def split: option.splits)

lemma calm_shellRead: "calm (\<lambda>s. case dshellRead cs h (u_docker s) of
          None \<Rightarrow> None
        | Some (RData d, st) \<Rightarrow> Some (TValue (DOutput d False), s\<lparr>u_docker := st\<rparr>)
        | Some (RTimeout, st) \<Rightarrow> Some (TValue (DOutput [] False), s\<lparr>u_docker := st\<rparr>)
        | Some (REof, st) \<Rightarrow> Some (TValue (DOutput [] True), s\<lparr>u_docker := st\<rparr>))"
  by (rule docker_contract.keepsI)
    (auto simp: dockerKeeps_def split: prod.splits option.splits read_result.splits dest: dshellRead_steady)

lemmas calm_specials [keeps_intros] = calm_run calm_upload calm_download calm_shellRead

section \<open>The tools as one interface\<close>

datatype docker_tool =
    DockerConnectT "(string \<times> DockerSpec) res" | DockerDisconnectT treq | DockerListHostsT
  | DockerContainersT "dockerContainersArgs res" | DockerInspectT treq | DockerStartT treq | DockerStopT treq
  | DockerRestartT treq | DockerKillT treq | DockerRemoveT treq | DockerLogsT treq
  | DockerImageListT treq | DockerImagePullT treq | DockerImageRemoveT treq | DockerRunT "(string \<times> RunOptions) res"
  | DockerExecT "dockerExecArgs res" | DockerUploadT treq | DockerDownloadT treq
  | DockerShellOpenT "dockerShellOpenArgs res" | DockerShellWriteT treq | DockerShellReadT treq
  | DockerShellResizeT treq | DockerShellCloseT treq | DockerShellListT treq

fun runDockerTool ::
    "('w, 'ins, 'p, 'ip) denv \<Rightarrow> docker_tool \<Rightarrow> 'w dstate \<Rightarrow> ('ins dreply_value, 'w dstate) hres" where
  "runDockerTool V (DockerConnectT a) = handleDockerConnect V a"
| "runDockerTool V (DockerDisconnectT r) = handleDockerDisconnect V r"
| "runDockerTool V DockerListHostsT = handleDockerListHosts"
| "runDockerTool V (DockerContainersT a) = handleDockerContainers V a"
| "runDockerTool V (DockerInspectT r) = handleDockerInspect V r"
| "runDockerTool V (DockerStartT r) = handleDockerStart V r"
| "runDockerTool V (DockerStopT r) = handleDockerStop V r"
| "runDockerTool V (DockerRestartT r) = handleDockerRestart V r"
| "runDockerTool V (DockerKillT r) = handleDockerKill V r"
| "runDockerTool V (DockerRemoveT r) = handleDockerRemove V r"
| "runDockerTool V (DockerLogsT r) = handleDockerLogs V r"
| "runDockerTool V (DockerImageListT r) = handleDockerImageList V r"
| "runDockerTool V (DockerImagePullT r) = handleDockerImagePull V r"
| "runDockerTool V (DockerImageRemoveT r) = handleDockerImageRemove V r"
| "runDockerTool V (DockerRunT a) = handleDockerRun V a"
| "runDockerTool V (DockerExecT a) = handleDockerExec V a"
| "runDockerTool V (DockerUploadT r) = handleDockerUpload V r"
| "runDockerTool V (DockerDownloadT r) = handleDockerDownload V r"
| "runDockerTool V (DockerShellOpenT a) = handleDockerShellOpen V a"
| "runDockerTool V (DockerShellWriteT r) = handleDockerShellWrite V r"
| "runDockerTool V (DockerShellReadT r) = handleDockerShellRead V r"
| "runDockerTool V (DockerShellResizeT r) = handleDockerShellResize V r"
| "runDockerTool V (DockerShellCloseT r) = handleDockerShellClose V r"
| "runDockerTool V (DockerShellListT r) = handleDockerShellList r"

text \<open>The tools that register or give up a connection.\<close>

fun registers :: "docker_tool \<Rightarrow> bool" where
  "registers (DockerConnectT a) = True"
| "registers (DockerDisconnectT r) = True"
| "registers (DockerShellOpenT a) = True"
| "registers (DockerShellCloseT r) = True"
| "registers _ = False"

lemmas calm_handler_defs =
  handleDockerContainers_def handleDockerInspect_def handleDockerStart_def handleDockerStop_def handleDockerRestart_def
  handleDockerKill_def handleDockerRemove_def handleDockerLogs_def handleDockerImageList_def handleDockerImagePull_def
  handleDockerImageRemove_def handleDockerRun_def handleDockerExec_def handleDockerUpload_def handleDockerDownload_def
  handleDockerShellWrite_def handleDockerShellRead_def handleDockerShellResize_def

lemma calm_handlers:
  "calm (handleDockerContainers V a1)" "calm (handleDockerInspect V r)" "calm (handleDockerStart V r)" "calm (handleDockerStop V r)"
  "calm (handleDockerRestart V r)" "calm (handleDockerKill V r)" "calm (handleDockerRemove V r)" "calm (handleDockerLogs V r)"
  "calm (handleDockerImageList V r)" "calm (handleDockerImagePull V r)" "calm (handleDockerImageRemove V r)"
  "calm (handleDockerRun V a2)" "calm (handleDockerExec V a3)" "calm (handleDockerUpload V r)" "calm (handleDockerDownload V r)"
  "calm (handleDockerShellWrite V r)" "calm (handleDockerShellRead V r)" "calm (handleDockerShellResize V r)"
  unfolding calm_handler_defs by (intro keeps_intros)+

lemma calm_lists: "calm handleDockerListHosts" "calm (handleDockerShellList r)"
  by (rule docker_contract.keepsI;
      auto simp: dockerKeeps_def handleDockerListHosts_def handleDockerShellList_def getHost_def need_def say_def Let_def
        split: if_splits sum.splits)+

lemma calm_tools: "\<not> registers c \<Longrightarrow> calm (runDockerTool V c)"
  by (cases c) (simp_all add: calm_handlers calm_lists)

section \<open>The tools refine a set of host ids\<close>

definition hids :: "'w dstate \<Rightarrow> string set" where
  "hids s = {k. gm_get (hosts (u_docker s)) k \<noteq> None}"

fun hostOf :: "docker_tool \<Rightarrow> string option" where
  "hostOf (DockerConnectT a) = None"
| "hostOf (DockerDisconnectT r) = named (rq_str r ''id'') id"
| "hostOf DockerListHostsT = None"
| "hostOf (DockerShellListT r) = None"
| "hostOf (DockerContainersT a) = named a ca_HostID"
| "hostOf (DockerRunT a) = named a fst"
| "hostOf (DockerExecT a) = named a da_HostID"
| "hostOf (DockerShellOpenT a) = named a ga_HostID"
| "hostOf (DockerInspectT r) = named (rq_str r ''host_id'') id"
| "hostOf (DockerStartT r) = named (rq_str r ''host_id'') id"
| "hostOf (DockerStopT r) = named (rq_str r ''host_id'') id"
| "hostOf (DockerRestartT r) = named (rq_str r ''host_id'') id"
| "hostOf (DockerKillT r) = named (rq_str r ''host_id'') id"
| "hostOf (DockerRemoveT r) = named (rq_str r ''host_id'') id"
| "hostOf (DockerLogsT r) = named (rq_str r ''host_id'') id"
| "hostOf (DockerImageListT r) = named (rq_str r ''host_id'') id"
| "hostOf (DockerImagePullT r) = named (rq_str r ''host_id'') id"
| "hostOf (DockerImageRemoveT r) = named (rq_str r ''host_id'') id"
| "hostOf (DockerUploadT r) = named (rq_str r ''host_id'') id"
| "hostOf (DockerDownloadT r) = named (rq_str r ''host_id'') id"
| "hostOf (DockerShellWriteT r) = named (rq_str r ''host_id'') id"
| "hostOf (DockerShellReadT r) = named (rq_str r ''host_id'') id"
| "hostOf (DockerShellResizeT r) = named (rq_str r ''host_id'') id"
| "hostOf (DockerShellCloseT r) = named (rq_str r ''host_id'') id"

lemma absent_host:
  assumes "dockerGet (u_docker s) hid = Inl e"
  shows "getHost hid k s = Some (TErr e, s)" "withDShell hid shid k' s = Some (TErr e, s)"
    "onDocker (dockerDisconnect x hid) k2 s = k2 (Some e) s"
  using assms by (auto simp: getHost_def withDShell_def need_def onDocker_def dockerDisconnect_def dockerGet_def split: option.splits)

lemma absent_bound:
  "dockerGet (u_docker s) (ca_HostID a) = Inl e \<Longrightarrow> handleDockerContainers V (Inr a) s = Some (TErr e, s)"
  "dockerGet (u_docker s) (fst b) = Inl e \<Longrightarrow> handleDockerRun V (Inr b) s = Some (TErr e, s)"
  "dockerGet (u_docker s) (da_HostID c) = Inl e \<Longrightarrow> handleDockerExec V (Inr c) s = Some (TErr e, s)"
  "dockerGet (u_docker s) (ga_HostID d) = Inl e \<Longrightarrow> handleDockerShellOpen V (Inr d) s = Some (TErr e, s)"
  by (simp_all add: handleDockerContainers_def handleDockerRun_def handleDockerExec_def handleDockerShellOpen_def need_def
      absent_host case_prod_beta)

lemma absent_docker_tool:
  assumes "hostOf c = Some k" and "k \<notin> hids s" and "runDockerTool V c s = Some (r, s')"
  shows "isErr r \<and> s' = s"
proof -
  obtain e where e: "dockerGet (u_docker s) k = Inl e" using assms(2) by (auto simp: hids_def dockerGet_def split: option.splits)
  note [simp] = absent_host [OF e]
  show ?thesis using assms(1,3) e
    by (cases c)
      (auto dest!: namedD simp: absent_bound calm_handler_defs(2-11,14-) withContainer_def handleDockerShellClose_def
         handleDockerDisconnect_def guard_def sayErr_def need_def split: sum.splits if_splits)
qed

fun d_change :: "docker_tool \<Rightarrow> string set \<Rightarrow> string set \<Rightarrow> bool" where
  "d_change (DockerConnectT a) S S' \<longleftrightarrow> (\<exists>k v. a = Inr (k, v) \<and> k \<noteq> [] \<and> k \<notin> S \<and> S' = insert k S)"
| "d_change (DockerDisconnectT r) S S' \<longleftrightarrow> (\<exists>k. rq_str r ''id'' = Inr k \<and> k \<in> S \<and> S' = S - {k})"
| "d_change _ S S' \<longleftrightarrow> S' = S"

definition d_step :: "docker_tool \<Rightarrow> string set \<Rightarrow> 'v reply \<Rightarrow> string set \<Rightarrow> bool" where
  "d_step c S r S' \<longleftrightarrow>
     (if isErr r then S' = S else d_change c S S') \<and> (\<forall>k. hostOf c = Some k \<longrightarrow> k \<notin> S \<longrightarrow> isErr r)"

lemma dockerConnect_hosts:
  assumes "dockerConnect x d k spec st = (r, st')"
  shows "(case r of Inl e \<Rightarrow> hosts st' = hosts st
    | Inr p \<Rightarrow> k \<noteq> [] \<and> gm_get (hosts st) k = None \<and> hosts st' = gm_put k p (hosts st))"
  using assms d_call_frame [of "dialDocker x d spec" st]
  by (auto simp: dockerConnect_def dockerInstall_def split: if_splits prod.splits sum.splits)

lemma dockerOpenShell_hosts:
  assumes "dockerOpenShell x d p k opts st = (r, st')"
  shows "hosts st' = hosts st"
proof -
  have "hosts (snd (installDShell x p k opts eid h st1)) = hosts st1" for eid h st1
    by (auto simp: installDShell_def newDShell_def registerDShell_def split: if_splits)
  then have "installDShell x p k opts eid h st1 = (r, st') \<Longrightarrow> hosts st' = hosts st1" for eid h st1 by (metis snd_conv)
  then show ?thesis
    using assms by (auto simp: dockerOpenShell_def Let_def d_call_def split: sum.splits if_splits prod.splits)
qed

lemma register_tools:
  assumes "runDockerTool V c s = Some (r, s')" and "registers c"
  shows "if isErr r then hids s' = hids s else d_change c (hids s) (hids s')"
proof (cases c)
  case (DockerConnectT a)
  then show ?thesis using assms(1) dockerConnect_hosts
    by (fastforce simp: handleDockerConnect_def need_def onDocker_def say_def dockerPersist_def hids_def
        split: sum.splits prod.splits)
next
  case (DockerDisconnectT q)
  then show ?thesis using assms(1)
    by (auto simp: handleDockerDisconnect_def need_def onDocker_def say_def sayErr_def dockerPersist_def hids_def dockerDisconnect_def
        split: sum.splits prod.splits option.splits if_splits)
next
  case (DockerShellOpenT a)
  then show ?thesis using assms(1) dockerOpenShell_hosts
    by (fastforce simp: handleDockerShellOpen_def getHost_def need_def onDocker_def say_def hids_def
        split: sum.splits prod.splits)
next
  case (DockerShellCloseT q)
  then show ?thesis using assms(1)
    by (auto simp: handleDockerShellClose_def getHost_def need_def onDocker_def say_def sayErr_def hids_def dockerCloseShell_def
        removeDShell_def split: sum.splits prod.splits option.splits)
qed (use assms in simp_all)

text \<open>C10. The docker tools refine the set of connected hosts: only a successful connect adds an id (a new, non-empty one), only a
  successful disconnect removes one, a call that fails or does anything else changes nothing of the set, and every call that
  names a host not in the set fails.  A tool that does not connect, disconnect, open or close a shell leaves every host as it
  was and leaves open exactly what was open before it, on its error paths too.\<close>

theorem docker_tools_refine:
  assumes "io_ok (d_io (u_docker s))" and "runDockerTool V c s = Some (r, s')"
  shows "d_step c (hids s) r (hids s') \<and>
    (\<not> registers c \<longrightarrow> hst (u_docker s') = hst (u_docker s) \<and> live (d_io (u_docker s')) = live (d_io (u_docker s)))"
proof (cases "registers c")
  case True
  then show ?thesis using register_tools [OF assms(2)] absent_docker_tool assms(2) unfolding d_step_def by blast
next
  case False
  then have st: "steady (u_docker s) (u_docker s')"
    using docker_contract.keepsD [OF calm_tools assms(2)] assms(1) by (simp add: dockerKeeps_def)
  then have "hids s' = hids s" by (simp add: steady_def hids_def)
  then have "if isErr r then hids s' = hids s else d_change c (hids s) (hids s')" using False by (cases c) simp_all
  then have "d_step c (hids s) r (hids s')" using absent_docker_tool assms(2) unfolding d_step_def by blast
  then show ?thesis using st by (simp add: steady_def acquired_def)
qed

section \<open>The snapshot tool is a fence\<close>

lemma SaveSnap_last:
  assumes "SaveSnap j ft path sn fs = (r, fss)"
  shows "last fss path = (if r = None then Some (projr (j_enc j (fixVersion sn))) else fs path)"
proof (cases "j_enc j (fixVersion sn)")
  case (Inl e)
  then show ?thesis using assms by (auto simp: SaveSnap_def)
next
  case (Inr data)
  have w: "last (fs # writeStates w (tmpPath path) data fs) path = fs path" for w
    using writeStates_other [of _ w "tmpPath path" data fs path, OF last_in_set] by simp
  show ?thesis using assms Inr w by (auto simp: SaveSnap_def Let_def split: option.splits prod.splits if_splits)
qed

lemma snapshot_fence:
  assumes "handleSnapshot j ft (Some path) s = Some (r, s')"
  shows "let (sn, st) = Capture (ts_ssh s) (ts_docker s) in ts_ssh s' = st \<and> ts_docker s' = ts_docker s \<and>
    ts_disk s' path = (if isErr r then ts_disk s path else Some (projr (j_enc j (fixVersion (snapVal st sn)))))"
proof -
  obtain sn st where c: "Capture (ts_ssh s) (ts_docker s) = (sn, st)" by fastforce
  obtain e fss where v: "SaveSnap j ft path (snapVal st sn) (ts_disk s) = (e, fss)" by fastforce
  show ?thesis using assms SaveSnap_last [OF v]
    by (cases e) (auto simp: handleSnapshot_def PersistNow_def c v sayErr_def say_def)
qed

section \<open>The tools on the example\<close>

definition demo_denv :: "(nat, bool, nat \<times> string, string) denv" where
  "demo_denv = \<lparr>v_x = demo_ext, v_d = demo_dext, v_k = demo_kext, v_q = demo_rext,
     v_z = \<lparr>z_copy_to = (\<lambda>h c d tw e n. ((None, 0), Suc n)), z_copy_from = (\<lambda>h c q n. (None, Suc n)),
             z_archive = (\<lambda>h n. (0, [], IoEOF))\<rparr>,
     v_lf = demo_lf, v_pr = demo_proc, v_deep = 0, v_wait = []\<rparr>"

definition demo_dtools :: "nat dstate" where
  "demo_dtools = \<lparr>u_docker = demo_dst1, u_fs = (\<lambda>k. None), u_persists = 0\<rparr>"

theorem docker_tools_refine_witness:
  "\<exists>r s'. runDockerTool demo_denv (DockerStartT (demo_req ''d1'')) demo_dtools = Some (r, s') \<and> \<not> isErr r \<and>
     live (d_io (u_docker s')) = live (d_io demo_dst1)"
proof -
  let ?c = "DockerStartT (demo_req ''d1'')"
  have v: "map_option (\<lambda>(r, s'). isErr r) (runDockerTool demo_denv ?c demo_dtools) = Some False" by code_simp
  then obtain r s' where h: "runDockerTool demo_denv ?c demo_dtools = Some (r, s')" "\<not> isErr r" by auto
  have ok: "io_ok (d_io (u_docker demo_dtools))" using demo_dst_ok(2) by (simp add: demo_dtools_def)
  have "live (d_io (u_docker s')) = live (d_io (u_docker demo_dtools))"
    using docker_tools_refine [OF ok h(1)] by simp
  then show ?thesis using h by (intro exI [of _ r] exI [of _ s']) (simp only: demo_dtools_def dstate.simps simp_thms)
qed

end
