(* ===== verification/ToolSchema.thy ===== *)
theory ToolSchema
  imports GoPrelude
begin

text \<open>
  What the tools tell their clients about themselves: the names, parameters and types that the \<open>Register\<close> functions of
  \<open>internal/mcptools\<close> declare, without the descriptions.  \<open>mcp.WithString\<close> and its like are the types, \<open>mcp.Required()\<close> makes a
  parameter one that a tool \<open>needs\<close>.
\<close>

datatype jtype = TAny | TString | TNumber | TBoolean | TObject "(string \<times> jtype) list" | TArray jtype

record tool_param =
  pa_name :: string
  pa_type :: jtype
  pa_required :: bool

type_synonym tool_schema = "string \<times> tool_param list"

definition needs :: "string \<Rightarrow> jtype \<Rightarrow> tool_param" where
  "needs n t = \<lparr>pa_name = n, pa_type = t, pa_required = True\<rparr>"

definition takes :: "string \<Rightarrow> jtype \<Rightarrow> tool_param" where
  "takes n t = \<lparr>pa_name = n, pa_type = t, pa_required = False\<rparr>"

definition RegisterSSH :: "tool_schema list" where
  "RegisterSSH = [
     (''ssh_connect'', [needs ''id'' TString, needs ''spec'' (TObject [(''user'', TString),
             (''addresses'', TArray TString),
             (''auth'', TObject [(''key_path'', TString), (''key_passphrase'', TString), (''use_agent'', TBoolean),
                (''agent_socket'', TString), (''password'', TString)]),
             (''jump_hosts'', TArray (TObject [])),
             (''insecure'', TBoolean),
             (''known_hosts_path'', TString),
             (''timeout'', TString),
             (''keepalive'', TString),
             (''auto_reconnect'', TBoolean),
             (''persistent'', TBoolean),
             (''forward_agent'', TBoolean)])]),
     (''ssh_disconnect'', [needs ''id'' TString]),
     (''ssh_list'', []),
     (''ssh_info'', [needs ''id'' TString]),
     (''ssh_reconnect'', [needs ''id'' TString]),
     (''ssh_clone'', [needs ''source_id'' TString, needs ''new_id'' TString]),
     (''ssh_exec'', [needs ''session_id'' TString, needs ''command'' TString, takes ''env'' (TObject []),
        takes ''stdin'' TString, takes ''timeout_ms'' TNumber])]"

definition RegisterSSHShell :: "tool_schema list" where
  "RegisterSSHShell = [
     (''ssh_shell_open'', [needs ''session_id'' TString, needs ''shell_id'' TString, takes ''term'' TString,
        takes ''rows'' TNumber, takes ''cols'' TNumber, takes ''command'' TString, takes ''env'' (TObject [])]),
     (''ssh_shell_write'', [needs ''session_id'' TString, needs ''shell_id'' TString, needs ''data'' TString]),
     (''ssh_shell_read'', [needs ''session_id'' TString, needs ''shell_id'' TString, takes ''timeout_ms'' TNumber]),
     (''ssh_shell_resize'', [needs ''session_id'' TString, needs ''shell_id'' TString, needs ''rows'' TNumber,
        needs ''cols'' TNumber]),
     (''ssh_shell_close'', [needs ''session_id'' TString, needs ''shell_id'' TString]),
     (''ssh_shell_list'', [takes ''session_id'' TString])]"

definition RegisterSFTP :: "tool_schema list" where
  "RegisterSFTP = [
     (''ssh_file_list'', [needs ''session_id'' TString, needs ''path'' TString]),
     (''ssh_file_stat'', [needs ''session_id'' TString, needs ''path'' TString]),
     (''ssh_file_read'', [needs ''session_id'' TString, needs ''path'' TString, takes ''offset'' TNumber,
        takes ''length'' TNumber]),
     (''ssh_file_write'', [needs ''session_id'' TString, needs ''path'' TString, needs ''data'' TString,
        takes ''append'' TBoolean]),
     (''ssh_file_delete'', [needs ''session_id'' TString, needs ''path'' TString]),
     (''ssh_file_mkdir'', [needs ''session_id'' TString, needs ''path'' TString, takes ''recursive'' TBoolean]),
     (''ssh_file_chmod'', [needs ''session_id'' TString, needs ''path'' TString, needs ''mode'' TString]),
     (''ssh_file_rename'', [needs ''session_id'' TString, needs ''from'' TString, needs ''to'' TString]),
     (''ssh_upload'', [needs ''session_id'' TString, needs ''local_path'' TString, needs ''remote_path'' TString]),
     (''ssh_download'', [needs ''session_id'' TString, needs ''remote_path'' TString,
        needs ''local_path'' TString])]"

definition RegisterForward :: "tool_schema list" where
  "RegisterForward = [
     (''ssh_forward_local'', [needs ''session_id'' TString, needs ''forward_id'' TString,
        takes ''bind_addr'' TString, needs ''bind_port'' TNumber, needs ''remote_host'' TString,
        needs ''remote_port'' TNumber]),
     (''ssh_forward_remote'', [needs ''session_id'' TString, needs ''forward_id'' TString,
        takes ''bind_addr'' TString, needs ''bind_port'' TNumber, takes ''local_host'' TString,
        needs ''local_port'' TNumber]),
     (''ssh_forward_dynamic'', [needs ''session_id'' TString, needs ''forward_id'' TString,
        takes ''bind_addr'' TString, needs ''bind_port'' TNumber]),
     (''ssh_forwards_list'', [takes ''session_id'' TString]),
     (''ssh_forward_cancel'', [needs ''session_id'' TString, needs ''forward_id'' TString])]"

definition RegisterDocker :: "tool_schema list" where
  "RegisterDocker = [
     (''docker_connect'', [needs ''id'' TString, needs ''spec'' (TObject [(''host'', TString),
             (''tls_cert_path'', TString),
             (''tls_key_path'', TString),
             (''tls_ca_path'', TString),
             (''api_version'', TString),
             (''key_path'', TString),
             (''key_passphrase'', TString),
             (''use_agent'', TBoolean),
             (''agent_socket'', TString),
             (''password'', TString),
             (''known_hosts_path'', TString),
             (''ssh_insecure'', TBoolean),
             (''persistent'', TBoolean)])]),
     (''docker_disconnect'', [needs ''id'' TString]),
     (''docker_list_hosts'', []),
     (''docker_containers'', [needs ''host_id'' TString, takes ''all'' TBoolean, takes ''limit'' TNumber,
        takes ''filters'' (TObject [])]),
     (''docker_container_inspect'', [needs ''host_id'' TString, needs ''container'' TString]),
     (''docker_container_start'', [needs ''host_id'' TString, needs ''container'' TString]),
     (''docker_container_stop'', [needs ''host_id'' TString, needs ''container'' TString,
        takes ''timeout_sec'' TNumber]),
     (''docker_container_restart'', [needs ''host_id'' TString, needs ''container'' TString,
        takes ''timeout_sec'' TNumber]),
     (''docker_container_kill'', [needs ''host_id'' TString, needs ''container'' TString,
        takes ''signal'' TString]),
     (''docker_container_remove'', [needs ''host_id'' TString, needs ''container'' TString,
        takes ''force'' TBoolean, takes ''remove_volumes'' TBoolean]),
     (''docker_container_logs'', [needs ''host_id'' TString, needs ''container'' TString, takes ''tail'' TString,
        takes ''since'' TString, takes ''until'' TString, takes ''timestamps'' TBoolean, takes ''stdout'' TBoolean,
        takes ''stderr'' TBoolean]),
     (''docker_image_list'', [needs ''host_id'' TString, takes ''all'' TBoolean]),
     (''docker_image_pull'', [needs ''host_id'' TString, needs ''image'' TString]),
     (''docker_image_remove'', [needs ''host_id'' TString, needs ''image'' TString, takes ''force'' TBoolean,
        takes ''prune_children'' TBoolean]),
     (''docker_run'', [needs ''host_id'' TString, needs ''spec'' (TObject [(''image'', TString),
             (''name'', TString),
             (''cmd'', TArray TString),
             (''entrypoint'', TArray TString),
             (''env'', TObject []),
             (''working_dir'', TString),
             (''user'', TString),
             (''hostname'', TString),
             (''ports'', TArray TString),
             (''volumes'', TArray TString),
             (''restart_policy'', TString),
             (''auto_remove'', TBoolean),
             (''labels'', TObject []),
             (''network_mode'', TString),
             (''tty'', TBoolean),
             (''pull_if_missing'', TBoolean)])]),
     (''docker_exec'', [needs ''host_id'' TString, needs ''container'' TString, needs ''cmd'' (TArray TString),
        takes ''working_dir'' TString, takes ''user'' TString, takes ''env'' (TObject []), takes ''stdin'' TString,
        takes ''timeout_ms'' TNumber]),
     (''docker_upload'', [needs ''host_id'' TString, needs ''container'' TString, needs ''local_path'' TString,
        needs ''remote_path'' TString]),
     (''docker_download'', [needs ''host_id'' TString, needs ''container'' TString, needs ''remote_path'' TString,
        needs ''local_path'' TString])]"

definition RegisterDockerShell :: "tool_schema list" where
  "RegisterDockerShell = [
     (''docker_shell_open'', [needs ''host_id'' TString, needs ''shell_id'' TString, needs ''container'' TString,
        takes ''cmd'' (TArray TString), takes ''env'' (TObject []), takes ''user'' TString, takes ''working_dir'' TString,
        takes ''rows'' TNumber, takes ''cols'' TNumber]),
     (''docker_shell_write'', [needs ''host_id'' TString, needs ''shell_id'' TString, needs ''data'' TString]),
     (''docker_shell_read'', [needs ''host_id'' TString, needs ''shell_id'' TString, takes ''timeout_ms'' TNumber]),
     (''docker_shell_resize'', [needs ''host_id'' TString, needs ''shell_id'' TString, needs ''rows'' TNumber,
        needs ''cols'' TNumber]),
     (''docker_shell_close'', [needs ''host_id'' TString, needs ''shell_id'' TString]),
     (''docker_shell_list'', [takes ''host_id'' TString])]"

definition RegisterMeta :: "tool_schema list" where
  "RegisterMeta = [
     (''snapshot'', []),
     (''status'', [])]"

text \<open>\<open>Build\<close> registers them all.\<close>

definition BuildTools :: "tool_schema list" where
  "BuildTools = RegisterSSH @ RegisterSSHShell @ RegisterSFTP @ RegisterForward @ RegisterDocker @ RegisterDockerShell @ RegisterMeta"

lemmas register_defs = RegisterSSH_def RegisterSSHShell_def RegisterSFTP_def RegisterForward_def RegisterDocker_def
  RegisterDockerShell_def RegisterMeta_def

lemma BuildTools_distinct: "distinct (map fst BuildTools)"
  by code_simp

end
