(* ===== verification/SchemaProps.thy ===== *)
theory SchemaProps
  imports ToolSchema ToolSshProps ToolDockerProps
begin

text \<open>
  The tools keep to what they declare: a handler reads no parameter that its tool does not declare, and demands those that
  are declared as required.  The handlers that decode the whole request into a struct (connect, exec, opening a shell, listing
  containers, run) have a field for each declared parameter, but do not demand those that are required.
\<close>

section \<open>Requests\<close>

text \<open>The request does not have the parameter; two requests have the same there.\<close>

definition lacks :: "treq \<Rightarrow> string \<Rightarrow> bool" where
  "lacks r n \<longleftrightarrow> \<not> is_ok (rq_str r n) \<and> \<not> is_ok (rq_int r n) \<and> rq_str0 r n = None \<and> rq_int0 r n = None \<and> rq_bool0 r n = None"

definition sameAt :: "treq \<Rightarrow> treq \<Rightarrow> string \<Rightarrow> bool" where
  "sameAt r r' n \<longleftrightarrow> rq_str r n = rq_str r' n \<and> rq_int r n = rq_int r' n \<and> rq_str0 r n = rq_str0 r' n \<and>
     rq_int0 r n = rq_int0 r' n \<and> rq_bool0 r n = rq_bool0 r' n"

text \<open>What a tool declares.\<close>

definition paramsOf :: "string \<Rightarrow> tool_param list" where
  "paramsOf name = (case map_of BuildTools name of None \<Rightarrow> [] | Some ps \<Rightarrow> ps)"

definition declared :: "string \<Rightarrow> string list" where
  "declared name = map pa_name (paramsOf name)"

definition required :: "string \<Rightarrow> string list" where
  "required name = map pa_name (filter pa_required (paramsOf name))"

section \<open>The tools with parameters\<close>

text \<open>A tool's name and request, and the tool with another request.\<close>

fun sshRequest :: "ssh_tool \<Rightarrow> (string \<times> treq) option" where
  "sshRequest (SshDisconnect r) = Some (''ssh_disconnect'', r)"
| "sshRequest (SshInfo r) = Some (''ssh_info'', r)"
| "sshRequest (SshReconnect r) = Some (''ssh_reconnect'', r)"
| "sshRequest (SshClone r) = Some (''ssh_clone'', r)"
| "sshRequest (ShellWrite r) = Some (''ssh_shell_write'', r)"
| "sshRequest (ShellRead r) = Some (''ssh_shell_read'', r)"
| "sshRequest (ShellResize r) = Some (''ssh_shell_resize'', r)"
| "sshRequest (ShellClose r) = Some (''ssh_shell_close'', r)"
| "sshRequest (ShellList r) = Some (''ssh_shell_list'', r)"
| "sshRequest (ForwardLocalT r) = Some (''ssh_forward_local'', r)"
| "sshRequest (ForwardRemoteT r) = Some (''ssh_forward_remote'', r)"
| "sshRequest (ForwardDynamicT r) = Some (''ssh_forward_dynamic'', r)"
| "sshRequest (ForwardListT r) = Some (''ssh_forwards_list'', r)"
| "sshRequest (ForwardCancelT r) = Some (''ssh_forward_cancel'', r)"
| "sshRequest (FileListT r) = Some (''ssh_file_list'', r)"
| "sshRequest (FileStatT r) = Some (''ssh_file_stat'', r)"
| "sshRequest (FileReadT r) = Some (''ssh_file_read'', r)"
| "sshRequest (FileWriteT r) = Some (''ssh_file_write'', r)"
| "sshRequest (FileDeleteT r) = Some (''ssh_file_delete'', r)"
| "sshRequest (FileMkdirT r) = Some (''ssh_file_mkdir'', r)"
| "sshRequest (FileChmodT r) = Some (''ssh_file_chmod'', r)"
| "sshRequest (FileRenameT r) = Some (''ssh_file_rename'', r)"
| "sshRequest (UploadT r) = Some (''ssh_upload'', r)"
| "sshRequest (DownloadT r) = Some (''ssh_download'', r)"
| "sshRequest _ = None"

fun sshWith :: "treq \<Rightarrow> ssh_tool \<Rightarrow> ssh_tool" where
  "sshWith q (SshDisconnect r) = SshDisconnect q"
| "sshWith q (SshInfo r) = SshInfo q"
| "sshWith q (SshReconnect r) = SshReconnect q"
| "sshWith q (SshClone r) = SshClone q"
| "sshWith q (ShellWrite r) = ShellWrite q"
| "sshWith q (ShellRead r) = ShellRead q"
| "sshWith q (ShellResize r) = ShellResize q"
| "sshWith q (ShellClose r) = ShellClose q"
| "sshWith q (ShellList r) = ShellList q"
| "sshWith q (ForwardLocalT r) = ForwardLocalT q"
| "sshWith q (ForwardRemoteT r) = ForwardRemoteT q"
| "sshWith q (ForwardDynamicT r) = ForwardDynamicT q"
| "sshWith q (ForwardListT r) = ForwardListT q"
| "sshWith q (ForwardCancelT r) = ForwardCancelT q"
| "sshWith q (FileListT r) = FileListT q"
| "sshWith q (FileStatT r) = FileStatT q"
| "sshWith q (FileReadT r) = FileReadT q"
| "sshWith q (FileWriteT r) = FileWriteT q"
| "sshWith q (FileDeleteT r) = FileDeleteT q"
| "sshWith q (FileMkdirT r) = FileMkdirT q"
| "sshWith q (FileChmodT r) = FileChmodT q"
| "sshWith q (FileRenameT r) = FileRenameT q"
| "sshWith q (UploadT r) = UploadT q"
| "sshWith q (DownloadT r) = DownloadT q"
| "sshWith q c = c"

lemmas ssh_request_defs =
  handleSSHDisconnect_def handleSSHInfo_def handleSSHReconnect_def handleSSHClone_def handleShellWrite_def handleShellRead_def
  handleShellResize_def handleShellClose_def handleShellList_def handleForwardLocal_def handleForwardRemote_def
  handleForwardDynamic_def handleForwardList_def handleForwardCancel_def handleFileList_def handleFileStat_def
  handleFileRead_def handleFileWrite_def handleFileDelete_def handleFileMkdir_def handleFileChmod_def handleFileRename_def
  handleUpload_def handleDownload_def

lemma ssh_declares [simp]:
  "declared ''ssh_disconnect'' = [''id'']"
  "declared ''ssh_info'' = [''id'']"
  "declared ''ssh_reconnect'' = [''id'']"
  "declared ''ssh_clone'' = [''source_id'', ''new_id'']"
  "declared ''ssh_shell_write'' = [''session_id'', ''shell_id'', ''data'']"
  "declared ''ssh_shell_read'' = [''session_id'', ''shell_id'', ''timeout_ms'']"
  "declared ''ssh_shell_resize'' = [''session_id'', ''shell_id'', ''rows'', ''cols'']"
  "declared ''ssh_shell_close'' = [''session_id'', ''shell_id'']"
  "declared ''ssh_shell_list'' = [''session_id'']"
  "declared ''ssh_forward_local'' = [''session_id'', ''forward_id'', ''bind_addr'', ''bind_port'', ''remote_host'', ''remote_port'']"
  "declared ''ssh_forward_remote'' = [''session_id'', ''forward_id'', ''bind_addr'', ''bind_port'', ''local_host'', ''local_port'']"
  "declared ''ssh_forward_dynamic'' = [''session_id'', ''forward_id'', ''bind_addr'', ''bind_port'']"
  "declared ''ssh_forwards_list'' = [''session_id'']"
  "declared ''ssh_forward_cancel'' = [''session_id'', ''forward_id'']"
  "declared ''ssh_file_list'' = [''session_id'', ''path'']"
  "declared ''ssh_file_stat'' = [''session_id'', ''path'']"
  "declared ''ssh_file_read'' = [''session_id'', ''path'', ''offset'', ''length'']"
  "declared ''ssh_file_write'' = [''session_id'', ''path'', ''data'', ''append'']"
  "declared ''ssh_file_delete'' = [''session_id'', ''path'']"
  "declared ''ssh_file_mkdir'' = [''session_id'', ''path'', ''recursive'']"
  "declared ''ssh_file_chmod'' = [''session_id'', ''path'', ''mode'']"
  "declared ''ssh_file_rename'' = [''session_id'', ''from'', ''to'']"
  "declared ''ssh_upload'' = [''session_id'', ''local_path'', ''remote_path'']"
  "declared ''ssh_download'' = [''session_id'', ''remote_path'', ''local_path'']"
  by code_simp+

lemma ssh_requires [simp]:
  "required ''ssh_disconnect'' = [''id'']"
  "required ''ssh_info'' = [''id'']"
  "required ''ssh_reconnect'' = [''id'']"
  "required ''ssh_clone'' = [''source_id'', ''new_id'']"
  "required ''ssh_shell_write'' = [''session_id'', ''shell_id'', ''data'']"
  "required ''ssh_shell_read'' = [''session_id'', ''shell_id'']"
  "required ''ssh_shell_resize'' = [''session_id'', ''shell_id'', ''rows'', ''cols'']"
  "required ''ssh_shell_close'' = [''session_id'', ''shell_id'']"
  "required ''ssh_shell_list'' = []"
  "required ''ssh_forward_local'' = [''session_id'', ''forward_id'', ''bind_port'', ''remote_host'', ''remote_port'']"
  "required ''ssh_forward_remote'' = [''session_id'', ''forward_id'', ''bind_port'', ''local_port'']"
  "required ''ssh_forward_dynamic'' = [''session_id'', ''forward_id'', ''bind_port'']"
  "required ''ssh_forwards_list'' = []"
  "required ''ssh_forward_cancel'' = [''session_id'', ''forward_id'']"
  "required ''ssh_file_list'' = [''session_id'', ''path'']"
  "required ''ssh_file_stat'' = [''session_id'', ''path'']"
  "required ''ssh_file_read'' = [''session_id'', ''path'']"
  "required ''ssh_file_write'' = [''session_id'', ''path'', ''data'']"
  "required ''ssh_file_delete'' = [''session_id'', ''path'']"
  "required ''ssh_file_mkdir'' = [''session_id'', ''path'']"
  "required ''ssh_file_chmod'' = [''session_id'', ''path'', ''mode'']"
  "required ''ssh_file_rename'' = [''session_id'', ''from'', ''to'']"
  "required ''ssh_upload'' = [''session_id'', ''local_path'', ''remote_path'']"
  "required ''ssh_download'' = [''session_id'', ''remote_path'', ''local_path'']"
  by code_simp+

lemma chmodMode_request:
  "lacks r ''mode'' \<Longrightarrow> \<exists>e. chmodMode r = Inl e"
  "sameAt r r' ''mode'' \<Longrightarrow> chmodMode r = chmodMode r'"
  by (auto simp: chmodMode_def lacks_def sameAt_def getOr_def Let_def split: sum.split)

lemma need_lacking: "lacks r n \<Longrightarrow> \<exists>e. rq_str r n = Inl e" "lacks r n \<Longrightarrow> \<exists>e. rq_int r n = Inl e"
  by (cases "rq_str r n"; cases "rq_int r n"; simp add: lacks_def)+

lemma required_ssh:
  assumes "sshRequest c = Some (name, r)" and "n \<in> set (required name)" and "lacks r n"
  shows "\<exists>e. runSshTool E c s = Some (TErr e, s)"
  using assms need_lacking [OF assms(3)] chmodMode_request(1) [of r]
  by (cases c) (auto simp: ssh_request_defs need_def split: sum.split)

lemma sameAt_eqs:
  "sameAt r r' n \<Longrightarrow> rq_str r n = rq_str r' n" "sameAt r r' n \<Longrightarrow> rq_int r n = rq_int r' n"
  "sameAt r r' n \<Longrightarrow> rq_str0 r n = rq_str0 r' n" "sameAt r r' n \<Longrightarrow> rq_int0 r n = rq_int0 r' n"
  "sameAt r r' n \<Longrightarrow> rq_bool0 r n = rq_bool0 r' n"
  by (simp_all add: sameAt_def)

lemma declared_ssh:
  assumes "sshRequest c = Some (name, r)" and "list_all (sameAt r r') (declared name)"
  shows "runSshTool E (sshWith r' c) s = runSshTool E c s"
  using assms chmodMode_request(2) [of r r'] by (cases c) (auto simp: sameAt_eqs ssh_request_defs)

text \<open>The same for the docker tools.\<close>

fun dockerRequest :: "docker_tool \<Rightarrow> (string \<times> treq) option" where
  "dockerRequest (DockerDisconnectT r) = Some (''docker_disconnect'', r)"
| "dockerRequest (DockerInspectT r) = Some (''docker_container_inspect'', r)"
| "dockerRequest (DockerStartT r) = Some (''docker_container_start'', r)"
| "dockerRequest (DockerStopT r) = Some (''docker_container_stop'', r)"
| "dockerRequest (DockerRestartT r) = Some (''docker_container_restart'', r)"
| "dockerRequest (DockerKillT r) = Some (''docker_container_kill'', r)"
| "dockerRequest (DockerRemoveT r) = Some (''docker_container_remove'', r)"
| "dockerRequest (DockerLogsT r) = Some (''docker_container_logs'', r)"
| "dockerRequest (DockerImageListT r) = Some (''docker_image_list'', r)"
| "dockerRequest (DockerImagePullT r) = Some (''docker_image_pull'', r)"
| "dockerRequest (DockerImageRemoveT r) = Some (''docker_image_remove'', r)"
| "dockerRequest (DockerUploadT r) = Some (''docker_upload'', r)"
| "dockerRequest (DockerDownloadT r) = Some (''docker_download'', r)"
| "dockerRequest (DockerShellWriteT r) = Some (''docker_shell_write'', r)"
| "dockerRequest (DockerShellReadT r) = Some (''docker_shell_read'', r)"
| "dockerRequest (DockerShellResizeT r) = Some (''docker_shell_resize'', r)"
| "dockerRequest (DockerShellCloseT r) = Some (''docker_shell_close'', r)"
| "dockerRequest (DockerShellListT r) = Some (''docker_shell_list'', r)"
| "dockerRequest _ = None"

fun dockerWith :: "treq \<Rightarrow> docker_tool \<Rightarrow> docker_tool" where
  "dockerWith q (DockerDisconnectT r) = DockerDisconnectT q"
| "dockerWith q (DockerInspectT r) = DockerInspectT q"
| "dockerWith q (DockerStartT r) = DockerStartT q"
| "dockerWith q (DockerStopT r) = DockerStopT q"
| "dockerWith q (DockerRestartT r) = DockerRestartT q"
| "dockerWith q (DockerKillT r) = DockerKillT q"
| "dockerWith q (DockerRemoveT r) = DockerRemoveT q"
| "dockerWith q (DockerLogsT r) = DockerLogsT q"
| "dockerWith q (DockerImageListT r) = DockerImageListT q"
| "dockerWith q (DockerImagePullT r) = DockerImagePullT q"
| "dockerWith q (DockerImageRemoveT r) = DockerImageRemoveT q"
| "dockerWith q (DockerUploadT r) = DockerUploadT q"
| "dockerWith q (DockerDownloadT r) = DockerDownloadT q"
| "dockerWith q (DockerShellWriteT r) = DockerShellWriteT q"
| "dockerWith q (DockerShellReadT r) = DockerShellReadT q"
| "dockerWith q (DockerShellResizeT r) = DockerShellResizeT q"
| "dockerWith q (DockerShellCloseT r) = DockerShellCloseT q"
| "dockerWith q (DockerShellListT r) = DockerShellListT q"
| "dockerWith q c = c"

lemma docker_declares [simp]:
  "declared ''docker_disconnect'' = [''id'']"
  "declared ''docker_container_inspect'' = [''host_id'', ''container'']"
  "declared ''docker_container_start'' = [''host_id'', ''container'']"
  "declared ''docker_container_stop'' = [''host_id'', ''container'', ''timeout_sec'']"
  "declared ''docker_container_restart'' = [''host_id'', ''container'', ''timeout_sec'']"
  "declared ''docker_container_kill'' = [''host_id'', ''container'', ''signal'']"
  "declared ''docker_container_remove'' = [''host_id'', ''container'', ''force'', ''remove_volumes'']"
  "declared ''docker_container_logs'' = [''host_id'', ''container'', ''tail'', ''since'', ''until'', ''timestamps'', ''stdout'', ''stderr'']"
  "declared ''docker_image_list'' = [''host_id'', ''all'']"
  "declared ''docker_image_pull'' = [''host_id'', ''image'']"
  "declared ''docker_image_remove'' = [''host_id'', ''image'', ''force'', ''prune_children'']"
  "declared ''docker_upload'' = [''host_id'', ''container'', ''local_path'', ''remote_path'']"
  "declared ''docker_download'' = [''host_id'', ''container'', ''remote_path'', ''local_path'']"
  "declared ''docker_shell_write'' = [''host_id'', ''shell_id'', ''data'']"
  "declared ''docker_shell_read'' = [''host_id'', ''shell_id'', ''timeout_ms'']"
  "declared ''docker_shell_resize'' = [''host_id'', ''shell_id'', ''rows'', ''cols'']"
  "declared ''docker_shell_close'' = [''host_id'', ''shell_id'']"
  "declared ''docker_shell_list'' = [''host_id'']"
  by code_simp+

lemma docker_requires [simp]:
  "required ''docker_disconnect'' = [''id'']"
  "required ''docker_container_inspect'' = [''host_id'', ''container'']"
  "required ''docker_container_start'' = [''host_id'', ''container'']"
  "required ''docker_container_stop'' = [''host_id'', ''container'']"
  "required ''docker_container_restart'' = [''host_id'', ''container'']"
  "required ''docker_container_kill'' = [''host_id'', ''container'']"
  "required ''docker_container_remove'' = [''host_id'', ''container'']"
  "required ''docker_container_logs'' = [''host_id'', ''container'']"
  "required ''docker_image_list'' = [''host_id'']"
  "required ''docker_image_pull'' = [''host_id'', ''image'']"
  "required ''docker_image_remove'' = [''host_id'', ''image'']"
  "required ''docker_upload'' = [''host_id'', ''container'', ''local_path'', ''remote_path'']"
  "required ''docker_download'' = [''host_id'', ''container'', ''remote_path'', ''local_path'']"
  "required ''docker_shell_write'' = [''host_id'', ''shell_id'', ''data'']"
  "required ''docker_shell_read'' = [''host_id'', ''shell_id'']"
  "required ''docker_shell_resize'' = [''host_id'', ''shell_id'', ''rows'', ''cols'']"
  "required ''docker_shell_close'' = [''host_id'', ''shell_id'']"
  "required ''docker_shell_list'' = []"
  by code_simp+

lemmas docker_request_defs =
  handleDockerDisconnect_def handleDockerInspect_def handleDockerStart_def handleDockerStop_def handleDockerRestart_def
  handleDockerKill_def handleDockerRemove_def handleDockerLogs_def handleDockerImageList_def handleDockerImagePull_def
  handleDockerImageRemove_def handleDockerUpload_def handleDockerDownload_def handleDockerShellWrite_def
  handleDockerShellRead_def handleDockerShellResize_def handleDockerShellClose_def handleDockerShellList_def
  withContainer_def timeoutSec_def

lemma required_docker:
  assumes "dockerRequest c = Some (name, r)" and "n \<in> set (required name)" and "lacks r n"
  shows "\<exists>e. runDockerTool V c s = Some (TErr e, s)"
  using assms need_lacking [OF assms(3)]
  by (cases c) (auto simp: docker_request_defs need_def split: sum.split)

lemma declared_docker:
  assumes "dockerRequest c = Some (name, r)" and "list_all (sameAt r r') (declared name)"
  shows "runDockerTool V (dockerWith r' c) s = runDockerTool V c s"
  using assms by (cases c) (auto simp: sameAt_eqs docker_request_defs)

section \<open>The tools that bind a struct\<close>

text \<open>The JSON names of the fields of the structs that requests are decoded into.\<close>

definition boundSSHConnect :: "string \<times> string list" where
  "boundSSHConnect = (''ssh_connect'', [''id'', ''spec''])"

definition boundSSHExec :: "string \<times> string list" where
  "boundSSHExec = (''ssh_exec'', [''session_id'', ''command'', ''env'', ''stdin'', ''timeout_ms''])"

definition boundShellOpen :: "string \<times> string list" where
  "boundShellOpen = (''ssh_shell_open'', [''session_id'', ''shell_id'', ''term'', ''rows'', ''cols'', ''command'', ''env''])"

definition boundDockerConnect :: "string \<times> string list" where
  "boundDockerConnect = (''docker_connect'', [''id'', ''spec''])"

definition boundDockerContainers :: "string \<times> string list" where
  "boundDockerContainers = (''docker_containers'', [''host_id'', ''all'', ''limit'', ''filters''])"

definition boundDockerExec :: "string \<times> string list" where
  "boundDockerExec = (''docker_exec'',
     [''host_id'', ''container'', ''cmd'', ''working_dir'', ''user'', ''env'', ''stdin'', ''timeout_ms''])"

definition boundDockerRun :: "string \<times> string list" where
  "boundDockerRun = (''docker_run'', [''host_id'', ''spec''])"

definition boundDockerShellOpen :: "string \<times> string list" where
  "boundDockerShellOpen = (''docker_shell_open'',
     [''host_id'', ''shell_id'', ''container'', ''cmd'', ''env'', ''user'', ''working_dir'', ''rows'', ''cols''])"

definition boundTools :: "(string \<times> string list) list" where
  "boundTools = [boundSSHConnect, boundSSHExec, boundShellOpen, boundDockerConnect, boundDockerContainers, boundDockerExec,
     boundDockerRun, boundDockerShellOpen]"

lemma bound_declared: "list_all (\<lambda>(name, fields). distinct fields \<and> set fields = set (declared name)) boundTools"
proof -
  have "list_all (\<lambda>(name, fields). distinct fields \<and> list_all (\<lambda>f. List.member (declared name) f) fields
      \<and> list_all (\<lambda>f. List.member fields f) (declared name)) boundTools"
    by code_simp
  then show ?thesis by (auto simp: list_all_iff)
qed

text \<open>A request that cannot be decoded.\<close>

fun sshUnbound :: "ssh_tool \<Rightarrow> goerr option" where
  "sshUnbound (SshConnect (Inl e)) = Some e"
| "sshUnbound (SshExec (Inl e)) = Some e"
| "sshUnbound (ShellOpen (Inl e)) = Some e"
| "sshUnbound _ = None"

fun dockerUnbound :: "docker_tool \<Rightarrow> goerr option" where
  "dockerUnbound (DockerConnectT (Inl e)) = Some e"
| "dockerUnbound (DockerContainersT (Inl e)) = Some e"
| "dockerUnbound (DockerExecT (Inl e)) = Some e"
| "dockerUnbound (DockerRunT (Inl e)) = Some e"
| "dockerUnbound (DockerShellOpenT (Inl e)) = Some e"
| "dockerUnbound _ = None"

lemma ssh_unbound: "sshUnbound c = Some e \<Longrightarrow> runSshTool E c s = Some (TErr e, s)"
  by (cases c rule: sshUnbound.cases) (simp_all add: handleSSHConnect_def handleSSHExec_def handleShellOpen_def need_def)

lemma docker_unbound: "dockerUnbound c = Some e \<Longrightarrow> runDockerTool V c s = Some (TErr e, s)"
  by (cases c rule: dockerUnbound.cases)
    (simp_all add: handleDockerConnect_def handleDockerContainers_def handleDockerExec_def handleDockerRun_def handleDockerShellOpen_def need_def)

text \<open>
  C30. The tools keep to what they tell their clients.  For every ssh and docker tool that takes its parameters one by one, a call
  that lacks a parameter declared as required fails and changes nothing, and what a call does and answers depends on the declared
  parameters only: two requests that have the same there have the same effect, whatever else they carry.  A tool that decodes its
  request into a struct has exactly the declared parameters as fields, and fails and changes nothing if the decoding fails; these
  tools do not demand the parameters that are declared as required.
\<close>

theorem tools_keep_schema:
  assumes "sshRequest c = Some (name, r)" and "dockerRequest d = Some (dname, q)"
  shows "(\<forall>n. n \<in> set (required name) \<and> lacks r n \<longrightarrow> (\<exists>e. runSshTool E c s = Some (TErr e, s)))
    \<and> (\<forall>r'. list_all (sameAt r r') (declared name) \<longrightarrow> runSshTool E (sshWith r' c) s = runSshTool E c s)
    \<and> (\<forall>n. n \<in> set (required dname) \<and> lacks q n \<longrightarrow> (\<exists>e. runDockerTool V d t = Some (TErr e, t)))
    \<and> (\<forall>q'. list_all (sameAt q q') (declared dname) \<longrightarrow> runDockerTool V (dockerWith q' d) t = runDockerTool V d t)
    \<and> list_all (\<lambda>(name, fields). distinct fields \<and> set fields = set (declared name)) boundTools
    \<and> (\<forall>b e. sshUnbound b = Some e \<longrightarrow> runSshTool E b s = Some (TErr e, s))
    \<and> (\<forall>b e. dockerUnbound b = Some e \<longrightarrow> runDockerTool V b t = Some (TErr e, t))"
proof (intro conjI)
  show "list_all (\<lambda>(name, fields). distinct fields \<and> set fields = set (declared name)) boundTools" by (rule bound_declared)
  show "\<forall>b e. sshUnbound b = Some e \<longrightarrow> runSshTool E b s = Some (TErr e, s)" using ssh_unbound by blast
  show "\<forall>b e. dockerUnbound b = Some e \<longrightarrow> runDockerTool V b t = Some (TErr e, t)" using docker_unbound by blast
qed (use required_ssh [OF assms(1)] declared_ssh [OF assms(1)] required_docker [OF assms(2)] declared_docker [OF assms(2)] in blast)+

text \<open>
  A call of \<open>ssh_exec\<close> without its required command is not refused: the empty command is run on the host.  A call of
  \<open>ssh_shell_open\<close> without its required id opens a shell that is registered under the empty id, and its rows and columns
  are not checked: here a terminal of \<open>-5\<close> rows and a million columns is asked for.
\<close>

definition demo_noCommand :: sshExecArgs where
  "demo_noCommand = \<lparr>xa_SessionID = ''a'', xa_Command = [], xa_Env = [], xa_Stdin = [], xa_TimeoutMs = 0\<rparr>"

definition demo_noShell :: shellOpenArgs where
  "demo_noShell = \<lparr>oa_SessionID = ''a'', oa_ShellID = [], oa_Term = [], oa_Rows = -5, oa_Cols = 1000000, oa_Command = [], oa_Env = []\<rparr>"

theorem exec_without_command:
  "''command'' \<in> set (required ''ssh_exec'') \<and>
   map_option (\<lambda>(r, _). isErr r) (runSshTool demo_env (SshExec (Inr demo_noCommand)) demo_tools) = Some False"
proof
  show "''command'' \<in> set (required ''ssh_exec'')" by code_simp
  show "map_option (\<lambda>(r, _). isErr r) (runSshTool demo_env (SshExec (Inr demo_noCommand)) demo_tools) = Some False" by code_simp
qed

theorem shell_open_unchecked:
  "''shell_id'' \<in> set (required ''ssh_shell_open'') \<and>
   map_option (\<lambda>(r, s). (isErr r, is_ok (GetShell (t_ssh s) 0 []))) (runSshTool demo_env (ShellOpen (Inr demo_noShell)) demo_tools) =
     Some (False, True)"
proof
  show "''shell_id'' \<in> set (required ''ssh_shell_open'')" by code_simp
  show "map_option (\<lambda>(r, s). (isErr r, is_ok (GetShell (t_ssh s) 0 []))) (runSshTool demo_env (ShellOpen (Inr demo_noShell)) demo_tools) =
     Some (False, True)" by code_simp
qed

text \<open>A disconnect that gives no id, and one with a parameter that is not declared.\<close>

definition demo_given :: "(string \<times> string) list \<Rightarrow> treq" where
  "demo_given m = \<lparr>rq_str = (\<lambda>n. case map_of m n of None \<Rightarrow> Inl (ExtErr ''required argument'') | Some v \<Rightarrow> Inr v),
     rq_int = (\<lambda>n. Inl (ExtErr ''required argument'')), rq_str0 = map_of m, rq_int0 = Map.empty, rq_bool0 = Map.empty\<rparr>"

theorem tools_keep_schema_witness:
  "(\<exists>e. runSshTool demo_env (SshDisconnect (demo_given [])) demo_tools = Some (TErr e, demo_tools)) \<and>
   runDockerTool demo_denv (DockerDisconnectT (demo_given [(''id'', ''d1''), (''force'', ''yes'')])) demo_dtools =
     runDockerTool demo_denv (DockerDisconnectT (demo_given [(''id'', ''d1'')])) demo_dtools"
proof -
  have l: "''id'' \<in> set (required ''ssh_disconnect'') \<and> lacks (demo_given []) ''id''"
    by (simp add: lacks_def demo_given_def)
  have a: "list_all (sameAt (demo_given [(''id'', ''d1'')]) (demo_given [(''id'', ''d1''), (''force'', ''yes'')]))
      (declared ''docker_disconnect'')"
    by (simp add: sameAt_def demo_given_def)
  note keep = tools_keep_schema [OF sshRequest.simps(1) dockerRequest.simps(1), where E = demo_env and s = demo_tools
      and V = demo_denv and t = demo_dtools, of "demo_given []" "demo_given [(''id'', ''d1'')]"]
  show ?thesis
    using conjunct1 [OF keep] conjunct1 [OF conjunct2 [OF conjunct2 [OF conjunct2 [OF keep]]]] l a by (metis dockerWith.simps(1))
qed

end
