(* ===== verification/Setup.thy ===== *)
theory Setup
  imports StateProps GoPath
begin

text \<open>
  Registration with MCP clients: \<open>internal/setup/clients.go\<close> (where each client keeps its configuration, and how an entry is
  merged into it) and \<open>setup.go\<close> (which clients are there, and the loop over them).  A configuration is a decoded value; the
  two codecs are parameters.  What \<open>Run\<close> prints is left out; paths are those of Unix.
\<close>

section \<open>Values and codecs\<close>

text \<open>\<open>JAtom\<close> is every value that is neither an object, an array nor a string.\<close>

datatype jval = JObj "(string \<times> jval) list" | JArr "jval list" | JStr string | JAtom string

type_synonym root = "jval gomap"

text \<open>
  Decoding into a \<open>map[string]any\<close> gives the map, or none when the document is \<open>null\<close> and the map stays nil;
  \<open>f_text\<close> is the encoder as \<open>jsonEqual\<close> and the snippet use it.
\<close>

record format =
  f_dec :: "string \<Rightarrow> root option res"
  f_enc :: "root \<Rightarrow> string res"
  f_text :: "jval \<Rightarrow> string"
  f_snippet :: "string \<Rightarrow> jval \<Rightarrow> string"

record Result =
  rs_Path :: string
  rs_Action :: string
  rs_Backup :: string
  rs_Snippet :: string

text \<open>An installation ends, or the runtime panics.\<close>

datatype outcome = Finished Result "goerr option" | Panicked string

section \<open>File helpers\<close>

text \<open>How the calls on the file system fail, if they do.\<close>

record faults =
  q_read :: "goerr option"
  q_mkdir :: "goerr option"
  q_bstat :: "goerr option"
  q_bread :: "goerr option"
  q_bwrite :: "(goerr \<times> nat) option"
  q_write :: "(goerr \<times> nat) option"
  q_rename :: "goerr option"
  q_remove :: bool

text \<open>
  The functions that write give the states of the file system they go through after the one they start in.
\<close>

definition bakPath :: "string \<Rightarrow> string" where
  "bakPath path = path @ ''.bak''"

definition backupFile :: "faults \<Rightarrow> string \<Rightarrow> fs \<Rightarrow> (string \<times> goerr option) \<times> fs list" where
  "backupFile ft path fs =
     (case q_bstat ft of
        Some e \<Rightarrow> (([], Some e), [])
      | None \<Rightarrow>
          (case fs path of
             None \<Rightarrow> (([], None), [])
           | Some data \<Rightarrow>
               (case q_bread ft of
                  Some e \<Rightarrow> (([], Some e), [])
                | None \<Rightarrow>
                    (let fss = writeStates (q_bwrite ft) (bakPath path) data fs in
                     case q_bwrite ft of
                       Some (e, _) \<Rightarrow> (([], Some e), fss)
                     | None \<Rightarrow> ((bakPath path, None), fss)))))"

definition atomicWrite :: "faults \<Rightarrow> string \<Rightarrow> string \<Rightarrow> fs \<Rightarrow> goerr option \<times> fs list" where
  "atomicWrite ft path data fs =
     (let tmp = tmpPath path; fss = writeStates (q_write ft) tmp data fs in
      case q_write ft of
        Some (e, _) \<Rightarrow> (Some e, fss)
      | None \<Rightarrow>
          (case q_rename ft of
             Some e \<Rightarrow> (Some e, fss @ (if q_remove ft then [] else [(last fss)(tmp := None)]))
           | None \<Rightarrow> (None, fss @ [(last fss)(path \<mapsto> data, tmp := None)])))"

section \<open>The merge\<close>

definition loadRoot :: "format \<Rightarrow> string \<Rightarrow> faults \<Rightarrow> string \<Rightarrow> fs \<Rightarrow> root option res" where
  "loadRoot F bad ft path fs =
     (case q_read ft of
        Some e \<Rightarrow> Inl (Wrapf ''read %s: %w'' [path] e)
      | None \<Rightarrow>
          (case fs path of
             None \<Rightarrow> Inr (Some [])
           | Some data \<Rightarrow>
               if data = [] then Inr (Some [])
               else (case f_dec F data of Inl e \<Rightarrow> Inl (Wrapf bad [path] e) | Inr root \<Rightarrow> Inr root)))"

text \<open>\<open>servers, \_ := root[key].(map[string]any)\<close>, with an empty map for nil.\<close>

definition serversOf :: "string \<Rightarrow> root option \<Rightarrow> root" where
  "serversOf key root =
     (case root of
        None \<Rightarrow> []
      | Some m \<Rightarrow> (case gm_get m key of Some (JObj s) \<Rightarrow> s | _ \<Rightarrow> []))"

definition entryOf :: "string \<Rightarrow> string list \<Rightarrow> string gomap \<Rightarrow> jval" where
  "entryOf command args env =
     JObj ([(''command'', JStr command)] @
           (if args \<noteq> [] then [(''args'', JArr (map JStr args))] else []) @
           (if env \<noteq> [] then [(''env'', JObj (map (\<lambda>(k, v). (k, JStr v)) env))] else []))"

definition sameText :: "format \<Rightarrow> jval \<Rightarrow> jval \<Rightarrow> bool" where
  "sameText F a b \<longleftrightarrow> f_text F a = f_text F b"

definition commitRoot :: "format \<Rightarrow> string \<Rightarrow> faults \<Rightarrow> Result \<Rightarrow> root \<Rightarrow> string \<Rightarrow> string \<Rightarrow> fs \<Rightarrow> outcome \<times> fs list" where
  "commitRoot F tail ft res root action snippet fs =
     (case q_mkdir ft of
        Some e \<Rightarrow> (Finished res (Some (Wrapf ''create %s: %w'' [pathDir (rs_Path res)] e)), [])
      | None \<Rightarrow>
          (case backupFile ft (rs_Path res) fs of
             ((_, Some e), tr) \<Rightarrow> (Finished res (Some e), tr)
           | ((backup, None), tr) \<Rightarrow>
               (let res = res\<lparr>rs_Backup := backup\<rparr>; fs = last (fs # tr) in
                case f_enc F root of
                  Inl e \<Rightarrow> (Finished res (Some e), tr)
                | Inr out \<Rightarrow>
                    (case atomicWrite ft (rs_Path res) (out @ tail) fs of
                       (Some e, tr2) \<Rightarrow> (Finished res (Some e), tr @ tr2)
                     | (None, tr2) \<Rightarrow> (Finished (res\<lparr>rs_Action := action, rs_Snippet := snippet\<rparr>) None, tr @ tr2)))))"

definition mergeServers ::
    "format \<Rightarrow> string \<Rightarrow> string \<Rightarrow> faults \<Rightarrow> string \<Rightarrow> string \<Rightarrow> jval \<Rightarrow> string \<Rightarrow> bool \<Rightarrow> fs \<Rightarrow> outcome \<times> fs list" where
  "mergeServers F bad tail ft path name entry key dryRun fs =
     (let res = \<lparr>rs_Path = path, rs_Action = [], rs_Backup = [], rs_Snippet = []\<rparr> in
      case loadRoot F bad ft path fs of
        Inl e \<Rightarrow> (Finished res (Some e), [])
      | Inr root \<Rightarrow>
          (let servers = serversOf key root; existing = gm_get servers name; snippet = f_snippet F name entry;
               report = (\<lambda>action. (Finished (res\<lparr>rs_Action := action, rs_Snippet := snippet\<rparr>) None, []))
           in if existing \<noteq> None \<and> sameText F (the existing) entry then report ''unchanged''
              else if dryRun then report (if existing \<noteq> None then ''would-update'' else ''would-add'')
              else (case root of
                      None \<Rightarrow> (Panicked ''assignment to entry in nil map'', [])
                    | Some m \<Rightarrow>
                        commitRoot F tail ft res (gm_put key (JObj (gm_put name entry servers)) m)
                          (if existing \<noteq> None then ''updated'' else ''added'') snippet fs)))"

definition mergeJSONMCPServers ::
    "format \<Rightarrow> faults \<Rightarrow> string \<Rightarrow> string \<Rightarrow> string \<Rightarrow> string list \<Rightarrow> string gomap \<Rightarrow> string \<Rightarrow> bool \<Rightarrow> fs \<Rightarrow> outcome \<times> fs list" where
  "mergeJSONMCPServers F ft path name command args env key dryRun fs =
     mergeServers F ''parse %s: %w (file exists but is not valid JSON - refusing to overwrite)'' [CHR 0x0A] ft path name
       (entryOf command args env) key dryRun fs"

definition mergeTOMLMCPServers ::
    "format \<Rightarrow> faults \<Rightarrow> string \<Rightarrow> string \<Rightarrow> string \<Rightarrow> string list \<Rightarrow> string gomap \<Rightarrow> bool \<Rightarrow> fs \<Rightarrow> outcome \<times> fs list" where
  "mergeTOMLMCPServers F ft path name command args env dryRun fs =
     mergeServers F ''parse %s: %w (file exists but is not valid TOML)'' [] ft path name
       (entryOf command args env) ''mcp_servers'' dryRun fs"

section \<open>The clients\<close>

datatype Client = ClaudeCode | ClaudeDesktop | CodexCLI | Cursor | Windsurf | Zed | Continue

text \<open>What the process knows of its host.\<close>

record host =
  m_GOOS :: string
  m_home :: "string res"    \<comment> \<open>\<open>os.UserHomeDir\<close>\<close>
  m_APPDATA :: string
  m_isDir :: "string \<Rightarrow> bool"

fun clientName :: "Client \<Rightarrow> string" where
  "clientName ClaudeCode = ''Claude Code''"
| "clientName ClaudeDesktop = ''Claude Desktop''"
| "clientName CodexCLI = ''Codex CLI''"
| "clientName Cursor = ''Cursor''"
| "clientName Windsurf = ''Windsurf''"
| "clientName Zed = ''Zed''"
| "clientName Continue = ''Continue.dev''"

definition inHome :: "host \<Rightarrow> string list \<Rightarrow> string res" where
  "inHome m ps = (case m_home m of Inl e \<Rightarrow> Inl e | Inr home \<Rightarrow> Inr (pathJoin (home # ps)))"

definition inAppData :: "host \<Rightarrow> string list \<Rightarrow> string res" where
  "inAppData m ps =
     (if m_APPDATA m = [] then Inl (Errorf ''APPDATA not set'' []) else Inr (pathJoin (m_APPDATA m # ps)))"

definition ClaudeCodePath :: "host \<Rightarrow> string res" where
  "ClaudeCodePath m = inHome m [''.claude.json'']"

definition ClaudeDesktopPath :: "host \<Rightarrow> string res" where
  "ClaudeDesktopPath m =
     (if m_GOOS m = ''darwin'' then inHome m [''Library'', ''Application Support'', ''Claude'', ''claude_desktop_config.json'']
      else if m_GOOS m = ''windows'' then inAppData m [''Claude'', ''claude_desktop_config.json'']
      else inHome m [''.config'', ''Claude'', ''claude_desktop_config.json''])"

definition CodexCLIPath :: "host \<Rightarrow> string res" where
  "CodexCLIPath m = inHome m [''.codex'', ''config.toml'']"

definition CursorPath :: "host \<Rightarrow> string res" where
  "CursorPath m = inHome m [''.cursor'', ''mcp.json'']"

definition WindsurfPath :: "host \<Rightarrow> string res" where
  "WindsurfPath m = inHome m [''.codeium'', ''windsurf'', ''mcp_config.json'']"

definition ZedPath :: "host \<Rightarrow> string res" where
  "ZedPath m =
     (if m_GOOS m = ''windows'' then inAppData m [''Zed'', ''settings.json'']
      else inHome m [''.config'', ''zed'', ''settings.json''])"

definition ContinuePath :: "host \<Rightarrow> string res" where
  "ContinuePath m = inHome m [''.continue'', ''config.json'']"

lemmas client_paths = ClaudeCodePath_def ClaudeDesktopPath_def CodexCLIPath_def CursorPath_def WindsurfPath_def ZedPath_def
  ContinuePath_def

declare client_paths [simp]

fun ConfigPath :: "host \<Rightarrow> Client \<Rightarrow> string res" where
  "ConfigPath m ClaudeCode = ClaudeCodePath m"
| "ConfigPath m ClaudeDesktop = ClaudeDesktopPath m"
| "ConfigPath m CodexCLI = CodexCLIPath m"
| "ConfigPath m Cursor = CursorPath m"
| "ConfigPath m Windsurf = WindsurfPath m"
| "ConfigPath m Zed = ZedPath m"
| "ConfigPath m Continue = ContinuePath m"

definition osStat :: "host \<Rightarrow> fs \<Rightarrow> string \<Rightarrow> bool" where
  "osStat m fs path \<longleftrightarrow> fs path \<noteq> None \<or> m_isDir m path"

definition noResult :: Result where
  "noResult = \<lparr>rs_Path = [], rs_Action = [], rs_Backup = [], rs_Snippet = []\<rparr>"

text \<open>What is written: the server's name and command, and whether it is a dry run.\<close>

record registration =
  g_name :: string
  g_command :: string
  g_args :: "string list"
  g_env :: "string gomap"
  g_dry :: bool

definition jsonInto :: "format \<Rightarrow> faults \<Rightarrow> string \<Rightarrow> registration \<Rightarrow> string \<Rightarrow> fs \<Rightarrow> outcome \<times> fs list" where
  "jsonInto J ft key g path = mergeJSONMCPServers J ft path (g_name g) (g_command g) (g_args g) (g_env g) key (g_dry g)"

definition continueInstall ::
    "format \<Rightarrow> host \<Rightarrow> faults \<Rightarrow> registration \<Rightarrow> string \<Rightarrow> fs \<Rightarrow> outcome \<times> fs list" where
  "continueInstall J m ft g path fs =
     (let yamlPath = pathJoin [pathDir path, ''config.yaml''] in
      if \<not> osStat m fs path \<and> osStat m fs yamlPath then
        (Finished (noResult\<lparr>rs_Path := yamlPath, rs_Action := ''skipped''\<rparr>)
           (Some (Errorf ''Continue.dev uses YAML config (%s); add the entry by hand for now'' [yamlPath])), [])
      else jsonInto J ft ''mcpServers'' g path fs)"

text \<open>The shape of every \<open>Install\<close>: the path, then the merge.\<close>

definition atPath :: "string res \<Rightarrow> (string \<Rightarrow> fs \<Rightarrow> outcome \<times> fs list) \<Rightarrow> fs \<Rightarrow> outcome \<times> fs list" where
  "atPath p merge fs = (case p of Inl e \<Rightarrow> (Finished noResult (Some e), []) | Inr path \<Rightarrow> merge path fs)"

definition ClaudeCodeInstall :: "format \<Rightarrow> host \<Rightarrow> faults \<Rightarrow> registration \<Rightarrow> fs \<Rightarrow> outcome \<times> fs list" where
  "ClaudeCodeInstall J m ft g = atPath (ClaudeCodePath m) (jsonInto J ft ''mcpServers'' g)"

definition ClaudeDesktopInstall :: "format \<Rightarrow> host \<Rightarrow> faults \<Rightarrow> registration \<Rightarrow> fs \<Rightarrow> outcome \<times> fs list" where
  "ClaudeDesktopInstall J m ft g = atPath (ClaudeDesktopPath m) (jsonInto J ft ''mcpServers'' g)"

definition CodexCLIInstall :: "format \<Rightarrow> host \<Rightarrow> faults \<Rightarrow> registration \<Rightarrow> fs \<Rightarrow> outcome \<times> fs list" where
  "CodexCLIInstall T m ft g =
     atPath (CodexCLIPath m)
       (\<lambda>path. mergeTOMLMCPServers T ft path (g_name g) (g_command g) (g_args g) (g_env g) (g_dry g))"

definition CursorInstall :: "format \<Rightarrow> host \<Rightarrow> faults \<Rightarrow> registration \<Rightarrow> fs \<Rightarrow> outcome \<times> fs list" where
  "CursorInstall J m ft g = atPath (CursorPath m) (jsonInto J ft ''mcpServers'' g)"

definition WindsurfInstall :: "format \<Rightarrow> host \<Rightarrow> faults \<Rightarrow> registration \<Rightarrow> fs \<Rightarrow> outcome \<times> fs list" where
  "WindsurfInstall J m ft g = atPath (WindsurfPath m) (jsonInto J ft ''mcpServers'' g)"

definition ZedInstall :: "format \<Rightarrow> host \<Rightarrow> faults \<Rightarrow> registration \<Rightarrow> fs \<Rightarrow> outcome \<times> fs list" where
  "ZedInstall J m ft g = atPath (ZedPath m) (jsonInto J ft ''context_servers'' g)"

definition ContinueInstall :: "format \<Rightarrow> host \<Rightarrow> faults \<Rightarrow> registration \<Rightarrow> fs \<Rightarrow> outcome \<times> fs list" where
  "ContinueInstall J m ft g = atPath (ContinuePath m) (continueInstall J m ft g)"

definition Install ::
    "format \<Rightarrow> format \<Rightarrow> host \<Rightarrow> faults \<Rightarrow> registration \<Rightarrow> Client \<Rightarrow> fs \<Rightarrow> outcome \<times> fs list" where
  "Install J T m ft g c =
     (case c of
        ClaudeCode \<Rightarrow> ClaudeCodeInstall J m ft g
      | ClaudeDesktop \<Rightarrow> ClaudeDesktopInstall J m ft g
      | CodexCLI \<Rightarrow> CodexCLIInstall T m ft g
      | Cursor \<Rightarrow> CursorInstall J m ft g
      | Windsurf \<Rightarrow> WindsurfInstall J m ft g
      | Zed \<Rightarrow> ZedInstall J m ft g
      | Continue \<Rightarrow> ContinueInstall J m ft g)"

lemma Install_at_path:
  "Install J T m ft g c fs =
     (case ConfigPath m c of
        Inl e \<Rightarrow> (Finished noResult (Some e), [])
      | Inr path \<Rightarrow>
          (case c of
             CodexCLI \<Rightarrow> mergeTOMLMCPServers T ft path (g_name g) (g_command g) (g_args g) (g_env g) (g_dry g) fs
           | Zed \<Rightarrow> jsonInto J ft ''context_servers'' g path fs
           | Continue \<Rightarrow> continueInstall J m ft g path fs
           | _ \<Rightarrow> jsonInto J ft ''mcpServers'' g path fs))"
  by (cases c)
    (simp_all add: Install_def atPath_def ClaudeCodeInstall_def ClaudeDesktopInstall_def CodexCLIInstall_def
      CursorInstall_def WindsurfInstall_def ZedInstall_def ContinueInstall_def del: client_paths split: sum.split)

section \<open>Detection and the loop\<close>

definition AllClients :: "Client list" where
  "AllClients = [ClaudeCode, ClaudeDesktop, CodexCLI, Cursor, Windsurf, Zed, Continue]"

record DetectedClient =
  dt_Client :: Client
  dt_Path :: string
  dt_Exists :: bool

fun Detect :: "host \<Rightarrow> fs \<Rightarrow> Client list \<Rightarrow> DetectedClient list" where
  "Detect m fs [] = []"
| "Detect m fs (c # cs) =
     (case ConfigPath m c of
        Inl _ \<Rightarrow> Detect m fs cs
      | Inr path \<Rightarrow>
          if osStat m fs path then \<lparr>dt_Client = c, dt_Path = path, dt_Exists = True\<rparr> # Detect m fs cs
          else if osStat m fs (pathDir path) then \<lparr>dt_Client = c, dt_Path = path, dt_Exists = False\<rparr> # Detect m fs cs
          else Detect m fs cs)"

fun contains :: "string \<Rightarrow> string \<Rightarrow> bool" where
  "contains [] sub \<longleftrightarrow> sub = []"
| "contains (c # s) sub \<longleftrightarrow> hasPrefix (c # s) sub \<or> contains s sub"

record Options =
  op_SelfBinary :: string
  op_ServerName :: string
  op_Args :: "string list"
  op_Env :: "string gomap"
  op_Yes :: bool
  op_DryRun :: bool
  op_OnlyClient :: string
  op_In :: string

text \<open>\<open>ReadString\<close> up to the newline, or what is left at the end of the input; then the rest.\<close>

definition readLine :: "string \<Rightarrow> string \<times> string" where
  "readLine inp = (takeWhile (\<lambda>c. c \<noteq> CHR 0x0A) inp, drop 1 (dropWhile (\<lambda>c. c \<noteq> CHR 0x0A) inp))"

definition agreed :: "string \<Rightarrow> bool" where
  "agreed line = (let l = trimSpace (toLower line) in l = [] \<or> l = ''y'' \<or> l = ''yes'')"

record ClientResult =
  cl_Client :: string
  cl_Outcome :: outcome

text \<open>A panic ends the loop and the process.\<close>

fun runLoop ::
    "(Client \<Rightarrow> fs \<Rightarrow> outcome \<times> fs list) \<Rightarrow> bool \<Rightarrow> DetectedClient list \<Rightarrow> string \<Rightarrow> fs \<Rightarrow> ClientResult list \<times> fs list" where
  "runLoop inst yes [] inp fs = ([], [])"
| "runLoop inst yes (d # ds) inp fs =
     (let (line, rest) = (if yes then ([], inp) else readLine inp);
          name = clientName (dt_Client d)
      in if \<not> yes \<and> \<not> agreed line then
           (case runLoop inst yes ds rest fs of
              (rs, tr) \<Rightarrow> (\<lparr>cl_Client = name,
                 cl_Outcome = Finished (noResult\<lparr>rs_Path := dt_Path d, rs_Action := ''skipped''\<rparr>) None\<rparr> # rs, tr))
         else
           (case inst (dt_Client d) fs of
              (Panicked p, tr) \<Rightarrow> ([\<lparr>cl_Client = name, cl_Outcome = Panicked p\<rparr>], tr)
            | (out, tr) \<Rightarrow>
                (case runLoop inst yes ds rest (last (fs # tr)) of
                   (rs, tr2) \<Rightarrow> (\<lparr>cl_Client = name, cl_Outcome = out\<rparr> # rs, tr @ tr2))))"

definition onlyClients :: "string \<Rightarrow> DetectedClient list \<Rightarrow> DetectedClient list" where
  "onlyClients only ds =
     (if only = [] then ds else filter (\<lambda>d. contains (toLower (clientName (dt_Client d))) (toLower only)) ds)"

definition Run ::
    "format \<Rightarrow> format \<Rightarrow> host \<Rightarrow> string res \<Rightarrow> (Client \<Rightarrow> faults) \<Rightarrow> Options \<Rightarrow> fs \<Rightarrow> ClientResult list res \<times> fs list" where
  "Run J T m executable fts opts fs =
     (case (if op_SelfBinary opts = [] then executable else Inr (op_SelfBinary opts)) of
        Inl e \<Rightarrow> (Inl e, [])
      | Inr self \<Rightarrow>
          (let g = \<lparr>g_name = (if op_ServerName opts = [] then ''remote-shell'' else op_ServerName opts), g_command = self,
                    g_args = op_Args opts, g_env = op_Env opts, g_dry = op_DryRun opts\<rparr>
           in case runLoop (\<lambda>c. Install J T m (fts c) g c) (op_Yes opts)
                     (onlyClients (op_OnlyClient opts) (Detect m fs AllClients)) (op_In opts) fs of
                (rs, tr) \<Rightarrow> (Inr rs, tr)))"

end
