(* ===== verification/SetupProps.thy ===== *)
theory SetupProps
  imports Setup
begin

text \<open>
  What an installation does to the files: it is atomic, keeps everything that is not its own, is idempotent, writes nothing in
  a dry run, and touches only configuration files of clients.
\<close>

section \<open>Files\<close>

lemma bak_ne [simp]: "bakPath path \<noteq> path" "path \<noteq> bakPath path" "bakPath path \<noteq> tmpPath path" "tmpPath path \<noteq> bakPath path"
  by (simp_all add: bakPath_def tmpPath_def)

lemma atomicWrite_states:
  assumes "atomicWrite ft path data fs = (r, tr)"
  shows "tr \<noteq> []"
    and "s \<in> set tr \<Longrightarrow> q \<noteq> path \<Longrightarrow> q \<noteq> tmpPath path \<Longrightarrow> s q = fs q"
    and "s \<in> set tr \<Longrightarrow> s path = fs path \<or> s path = Some data"
    and "last tr path = (if r = None then Some data else fs path)"
proof -
  let ?W = "writeStates (q_write ft) (tmpPath path) data fs"
  have w: "s q = fs q" if "s \<in> set ?W" "q \<noteq> tmpPath path" for s q using writeStates_other that by blast
  have l: "last ?W q = fs q" if "q \<noteq> tmpPath path" for q using w [OF last_in_set] that by simp
  note d = assms [unfolded atomicWrite_def Let_def]
  show "tr \<noteq> []" using d by (auto split: option.splits prod.splits if_splits)
  show "s q = fs q" if "s \<in> set tr" "q \<noteq> path" "q \<noteq> tmpPath path"
    using d that w l by (fastforce split: option.splits prod.splits if_splits)
  show "s path = fs path \<or> s path = Some data" if "s \<in> set tr"
    using d that w l by (fastforce split: option.splits prod.splits if_splits)
  show "last tr path = (if r = None then Some data else fs path)"
    using d l by (auto split: option.splits prod.splits if_splits)
qed

lemma backupFile_states:
  assumes "backupFile ft path fs = ((b, e), tr)"
  shows "s \<in> set tr \<Longrightarrow> q \<noteq> bakPath path \<Longrightarrow> s q = fs q"
    and "e = None \<Longrightarrow> fs path = Some d \<Longrightarrow> b = bakPath path \<and> last (fs # tr) (bakPath path) = Some d"
    and "last (fs # tr) path = fs path"
proof -
  note u = assms [unfolded backupFile_def Let_def]
  show a: "s q = fs q" if "s \<in> set tr" "q \<noteq> bakPath path" for s q
    using u that writeStates_other [of s _ "bakPath path" _ fs q] by (auto split: option.splits prod.splits)
  show "b = bakPath path \<and> last (fs # tr) (bakPath path) = Some d" if "e = None" "fs path = Some d"
    using u that writeStates_last [of fs "bakPath path" d fs] by (auto split: option.splits prod.splits)
  show "last (fs # tr) path = fs path" using a [of "last tr" path] by auto
qed

section \<open>One installation\<close>

text \<open>The root an installation is to write.\<close>

definition merged :: "string \<Rightarrow> string \<Rightarrow> jval \<Rightarrow> root \<Rightarrow> root" where
  "merged key name entry m = gm_put key (JObj (gm_put name entry (serversOf key (Some m)))) m"

lemma merged_keeps:
  "k \<noteq> key \<Longrightarrow> gm_get (merged key name entry m) k = gm_get m k"
  "n \<noteq> name \<Longrightarrow> gm_get (serversOf key (Some (merged key name entry m))) n = gm_get (serversOf key (Some m)) n"
  "gm_get (serversOf key (Some (merged key name entry m))) name = Some entry"
  by (simp_all add: merged_def serversOf_def)

definition errorOf :: "outcome \<Rightarrow> goerr option" where
  "errorOf out = (case out of Finished r e \<Rightarrow> e | Panicked p \<Rightarrow> Some (ExtErr p))"

text \<open>What every installation keeps: everything but three files, and the old or the whole new content of its own.\<close>

definition careful :: "string \<Rightarrow> string option \<Rightarrow> fs \<Rightarrow> fs list \<Rightarrow> bool" where
  "careful path new fs tr \<longleftrightarrow>
     (\<forall>s \<in> set tr. (s path = fs path \<or> s path = new) \<and>
        (\<forall>q. q \<noteq> path \<longrightarrow> q \<noteq> bakPath path \<longrightarrow> q \<noteq> tmpPath path \<longrightarrow> s q = fs q))"

lemma commitRoot_careful:
  assumes "commitRoot F tail ft res root action snippet fs = (out, tr)"
  shows "careful (rs_Path res) (case f_enc F root of Inl e \<Rightarrow> fs (rs_Path res) | Inr t \<Rightarrow> Some (t @ tail)) fs tr"
    and "errorOf out \<noteq> None \<Longrightarrow> last (fs # tr) (rs_Path res) = fs (rs_Path res)"
    and "errorOf out = None \<Longrightarrow> \<exists>t. f_enc F root = Inr t \<and> last (fs # tr) (rs_Path res) = Some (t @ tail) \<and>
       (\<forall>d. fs (rs_Path res) = Some d \<longrightarrow> last (fs # tr) (bakPath (rs_Path res)) = Some d)"
proof -
  let ?p = "rs_Path res"
  have "careful ?p (case f_enc F root of Inl e \<Rightarrow> fs ?p | Inr t \<Rightarrow> Some (t @ tail)) fs tr \<and>
    (errorOf out \<noteq> None \<longrightarrow> last (fs # tr) ?p = fs ?p) \<and>
    (errorOf out = None \<longrightarrow> (\<exists>t. f_enc F root = Inr t \<and> last (fs # tr) ?p = Some (t @ tail) \<and>
       (\<forall>d. fs ?p = Some d \<longrightarrow> last (fs # tr) (bakPath ?p) = Some d)))"
  proof (cases "q_mkdir ft")
    case (Some e)
    then show ?thesis using assms by (auto simp: commitRoot_def careful_def errorOf_def)
  next
    case None
    obtain b e tr1 where bk: "backupFile ft ?p fs = ((b, e), tr1)" by (metis surj_pair)
    note bs = backupFile_states [OF bk]
    show ?thesis
    proof (cases "e = None \<and> is_ok (f_enc F root)")
      case False
      then have "tr = tr1" "errorOf out \<noteq> None"
        using assms None bk by (auto simp: commitRoot_def errorOf_def Let_def split: option.splits sum.splits)
      then show ?thesis using bs(1,3) by (auto simp: careful_def)
    next
      case True
      then obtain t where t: "f_enc F root = Inr t" by (cases "f_enc F root") auto
      let ?fs1 = "last (fs # tr1)"
      obtain r tr2 where w: "atomicWrite ft ?p (t @ tail) ?fs1 = (r, tr2)" by fastforce
      note ws = atomicWrite_states [OF w]
      have tr: "tr = tr1 @ tr2" and r: "errorOf out = r"
        using assms None bk True t w by (auto simp: commitRoot_def errorOf_def Let_def split: option.splits)
      have f1: "?fs1 q = fs q" if "q \<noteq> bakPath ?p" for q using bs(1) [of "last tr1"] that by auto
      have "careful ?p (Some (t @ tail)) fs tr"
        unfolding careful_def tr using bs(1) ws(2,3) f1 by fastforce
      moreover have l: "last (fs # tr) ?p = (if r = None then Some (t @ tail) else fs ?p)"
        using ws(1,4) f1 [of ?p] by (simp add: tr)
      moreover have "last (fs # tr) (bakPath ?p) = ?fs1 (bakPath ?p)"
        using ws(1) ws(2) [OF last_in_set] by (simp add: tr)
      ultimately show ?thesis using t r bs(2) True by auto
    qed
  qed
  then show "careful (rs_Path res) (case f_enc F root of Inl e \<Rightarrow> fs (rs_Path res) | Inr t \<Rightarrow> Some (t @ tail)) fs tr"
    and "errorOf out \<noteq> None \<Longrightarrow> last (fs # tr) (rs_Path res) = fs (rs_Path res)"
    and "errorOf out = None \<Longrightarrow> \<exists>t. f_enc F root = Inr t \<and> last (fs # tr) (rs_Path res) = Some (t @ tail) \<and>
       (\<forall>d. fs (rs_Path res) = Some d \<longrightarrow> last (fs # tr) (bakPath (rs_Path res)) = Some d)"
    by blast+
qed

text \<open>The branches of a merge.\<close>

lemma mergeServers_cases:
  assumes "mergeServers F bad tail ft path name entry key dry fs = (out, tr)"
  obtains (load) e where "loadRoot F bad ft path fs = Inl e" "errorOf out = Some e" "tr = []"
  | (same) root old where "loadRoot F bad ft path fs = Inr root" "gm_get (serversOf key root) name = Some old"
      "sameText F old entry" "errorOf out = None" "tr = []"
      "\<exists>r. out = Finished r None \<and> rs_Action r = ''unchanged''"
  | (dry) "dry" "tr = []" "errorOf out = None"
  | (panic) "loadRoot F bad ft path fs = Inr None" "\<not> dry" "tr = []" "errorOf out \<noteq> None"
  | (commit) m res action snippet where "loadRoot F bad ft path fs = Inr (Some m)" "\<not> dry" "rs_Path res = path"
      "commitRoot F tail ft res (merged key name entry m) action snippet fs = (out, tr)"
proof (cases "loadRoot F bad ft path fs")
  case (Inl e)
  then show ?thesis using assms load by (auto simp: mergeServers_def errorOf_def)
next
  case (Inr root)
  let ?old = "gm_get (serversOf key root) name"
  note d = assms [unfolded mergeServers_def Let_def Inr sum.case]
  show ?thesis
  proof (cases "?old \<noteq> None \<and> sameText F (the ?old) entry")
    case True
    then obtain old where "?old = Some old" "sameText F old entry" by auto
    then show ?thesis using d Inr by (intro same) (auto simp: errorOf_def)
  next
    case False
    note d = d [unfolded if_not_P [OF False]]
    show ?thesis
    proof (cases dry)
      case True
      then show ?thesis using d by (intro dry) (auto simp: errorOf_def)
    next
      case nd: False
      show ?thesis
      proof (cases root)
        case None
        then show ?thesis using d nd Inr by (intro panic) (auto simp: errorOf_def)
      next
        case (Some m)
        then show ?thesis using d nd Inr by (intro commit [of m]) (auto simp: merged_def)
      qed
    qed
  qed
qed

lemma mergeServers_careful:
  assumes "mergeServers F bad tail ft path name entry key dry fs = (out, tr)"
  shows "dry \<Longrightarrow> tr = []" and "\<exists>new. careful path new fs tr"
    and "errorOf out \<noteq> None \<Longrightarrow> last (fs # tr) path = fs path"
    and "errorOf out = None \<Longrightarrow> tr \<noteq> [] \<Longrightarrow>
      \<exists>m t. loadRoot F bad ft path fs = Inr (Some m) \<and> f_enc F (merged key name entry m) = Inr t \<and>
        last (fs # tr) path = Some (t @ tail) \<and> (\<forall>d. fs path = Some d \<longrightarrow> last (fs # tr) (bakPath path) = Some d)"
proof -
  have n: "careful path (fs path) fs []" by (simp add: careful_def)
  show "dry \<Longrightarrow> tr = []" using assms by (cases rule: mergeServers_cases) auto
  show "\<exists>new. careful path new fs tr" using assms
  proof (cases rule: mergeServers_cases)
    case (commit m res action snippet)
    then show ?thesis using commitRoot_careful(1) [OF commit(4)] by blast
  qed (use n in blast)+
  show "last (fs # tr) path = fs path" if "errorOf out \<noteq> None" using assms
  proof (cases rule: mergeServers_cases)
    case (commit m res action snippet)
    then show ?thesis using commitRoot_careful(2) [OF commit(4) that] by simp
  qed simp_all
  show "\<exists>m t. loadRoot F bad ft path fs = Inr (Some m) \<and> f_enc F (merged key name entry m) = Inr t \<and>
        last (fs # tr) path = Some (t @ tail) \<and> (\<forall>d. fs path = Some d \<longrightarrow> last (fs # tr) (bakPath path) = Some d)"
    if "errorOf out = None" "tr \<noteq> []" using assms
  proof (cases rule: mergeServers_cases)
    case (commit m res action snippet)
    then show ?thesis using commitRoot_careful(3) [OF commit(4) that(1)] by auto
  qed (use that in simp_all)
qed

section \<open>Reading back\<close>

text \<open>Values that differ in the order of keys only.\<close>

inductive jsim :: "jval \<Rightarrow> jval \<Rightarrow> bool" where
  obj: "(\<And>k. rel_option jsim (gm_get a k) (gm_get b k)) \<Longrightarrow> jsim (JObj a) (JObj b)"
| arr: "list_all2 jsim as bs \<Longrightarrow> jsim (JArr as) (JArr bs)"
| str: "jsim (JStr s) (JStr s)"
| atom: "jsim (JAtom s) (JAtom s)"

inductive_cases jsim_objE: "jsim (JObj a) v" "jsim v (JObj b)"

lemma jsim_get: "jsim (JObj a) (JObj b) \<Longrightarrow> rel_option jsim (gm_get a k) (gm_get b k)"
  by (auto elim: jsim_objE)

lemma jsim_servers:
  assumes "jsim (JObj a) (JObj b)"
  shows "rel_option jsim (gm_get (serversOf key (Some a)) n) (gm_get (serversOf key (Some b)) n)"
proof -
  have r: "rel_option jsim (gm_get a key) (gm_get b key)" by (rule jsim_get [OF assms])
  show ?thesis
  proof (cases "gm_get a key")
    case None
    then show ?thesis using r by (simp add: serversOf_def gm_get_def)
  next
    case (Some v)
    then obtain w where w: "gm_get b key = Some w" "jsim v w" using r by (cases "gm_get b key") auto
    have "rel_option jsim (gm_get (case v of JObj s \<Rightarrow> s | _ \<Rightarrow> []) n) (gm_get (case w of JObj s \<Rightarrow> s | _ \<Rightarrow> []) n)"
      using w(2) by (cases rule: jsim.cases) (auto simp: gm_get_def)
    then show ?thesis using Some w(1) by (simp add: serversOf_def split: jval.splits)
  qed
qed

text \<open>What the codecs are relied on for: what is encoded decodes to the same value, and the text of a value does not depend
  on the order of keys.\<close>

definition roundTrips :: "format \<Rightarrow> string \<Rightarrow> bool" where
  "roundTrips F tail \<longleftrightarrow>
     (\<forall>r t. f_enc F r = Inr t \<longrightarrow> t \<noteq> [] \<and> (\<exists>r'. f_dec F (t @ tail) = Inr (Some r') \<and> jsim (JObj r') (JObj r)))"

definition textStable :: "format \<Rightarrow> bool" where
  "textStable F \<longleftrightarrow> (\<forall>a b. jsim a b \<longrightarrow> f_text F a = f_text F b)"

lemma loadRoot_back:
  assumes "roundTrips F tail" and "f_enc F r = Inr t" and "fs path = Some (t @ tail)" and "q_read ft = None"
  shows "\<exists>r'. loadRoot F bad ft path fs = Inr (Some r') \<and> jsim (JObj r') (JObj r)"
proof -
  obtain r' where "t \<noteq> []" "f_dec F (t @ tail) = Inr (Some r')" "jsim (JObj r') (JObj r)"
    using assms(1,2) unfolding roundTrips_def by blast
  then show ?thesis using assms(3,4) by (simp add: loadRoot_def)
qed

lemma mergeServers_again:
  assumes rt: "roundTrips F tail" "textStable F" and q: "q_read ft' = None"
    and first: "mergeServers F bad tail ft path name entry key False fs = (out, tr)" "errorOf out = None"
    and second: "mergeServers F bad tail ft' path name entry key dry (last (fs # tr)) = (out', tr')"
  shows "tr' = [] \<and> (\<exists>r. out' = Finished r None \<and> rs_Action r = ''unchanged'')"
proof -
  let ?fs = "last (fs # tr)"
  have "\<exists>root old. loadRoot F bad ft' path ?fs = Inr root \<and> gm_get (serversOf key root) name = Some old \<and> sameText F old entry"
    using first(1)
  proof (cases rule: mergeServers_cases)
    case (same root old)
    then have "loadRoot F bad ft' path ?fs = Inr root"
      using q by (auto simp: loadRoot_def split: option.splits if_splits sum.splits)
    then show ?thesis using same by blast
  next
    case (commit m res action snippet)
    then obtain t where t: "f_enc F (merged key name entry m) = Inr t" "?fs path = Some (t @ tail)"
      using commitRoot_careful(3) [OF commit(4) first(2)] by auto
    obtain r' where r': "loadRoot F bad ft' path ?fs = Inr (Some r')" "jsim (JObj r') (JObj (merged key name entry m))"
      using loadRoot_back [where fs = ?fs and path = path, OF rt(1) t q] by blast
    have "rel_option jsim (gm_get (serversOf key (Some r')) name) (Some entry)"
      using jsim_servers [OF r'(2), of key name] by (simp add: merged_keeps(3))
    then obtain old where "gm_get (serversOf key (Some r')) name = Some old" "jsim old entry"
      by (cases "gm_get (serversOf key (Some r')) name") auto
    then show ?thesis using r'(1) rt(2) by (auto simp: textStable_def sameText_def)
  qed (use first(2) in simp_all)
  then show ?thesis using second by (auto simp: mergeServers_def)
qed

lemma merge_leaves_file:
  assumes "mergeServers F bad tail ft path name entry key False fs = (out, tr)" and "errorOf out = None"
  shows "last (fs # tr) path \<noteq> None"
  using assms(1)
proof (cases rule: mergeServers_cases)
  case (same root old)
  then show ?thesis by (auto simp: loadRoot_def serversOf_def gm_get_def split: option.splits)
next
  case (commit m res action snippet)
  then show ?thesis using commitRoot_careful(3) [OF commit(4) assms(2)] by auto
qed (use assms(2) in simp_all)

section \<open>Installing into a client\<close>

text \<open>An installation into a client is a merge, or does nothing.\<close>

definition clientKey :: "Client \<Rightarrow> string" where
  "clientKey c = (if c = CodexCLI then ''mcp_servers'' else if c = Zed then ''context_servers'' else ''mcpServers'')"

definition clientFormat :: "format \<Rightarrow> format \<Rightarrow> Client \<Rightarrow> format" where
  "clientFormat J T c = (if c = CodexCLI then T else J)"

definition clientTail :: "Client \<Rightarrow> string" where
  "clientTail c = (if c = CodexCLI then [] else [CHR 0x0A])"

definition clientBad :: "Client \<Rightarrow> string" where
  "clientBad c = (if c = CodexCLI then ''parse %s: %w (file exists but is not valid TOML)''
     else ''parse %s: %w (file exists but is not valid JSON - refusing to overwrite)'')"

definition regEntry :: "registration \<Rightarrow> jval" where
  "regEntry g = entryOf (g_command g) (g_args g) (g_env g)"

lemma Install_merge:
  assumes "ConfigPath m c = Inr path" and "c = Continue \<Longrightarrow> osStat m fs path \<or> \<not> osStat m fs (pathJoin [pathDir path, ''config.yaml''])"
  shows "Install J T m ft g c fs =
    mergeServers (clientFormat J T c) (clientBad c) (clientTail c) ft path (g_name g) (regEntry g) (clientKey c) (g_dry g) fs"
proof -
  have j: "jsonInto J ft key g path fs = mergeServers J (clientBad ClaudeCode) (clientTail ClaudeCode) ft path (g_name g) (regEntry g) key (g_dry g) fs"
    for key by (simp add: jsonInto_def mergeJSONMCPServers_def clientBad_def clientTail_def regEntry_def)
  have k: "continueInstall J m ft g path fs = jsonInto J ft ''mcpServers'' g path fs" if "c = Continue"
    using assms(2) [OF that] by (auto simp: continueInstall_def Let_def)
  show ?thesis unfolding Install_at_path assms(1) sum.case
    by (cases c) (simp_all add: j k mergeTOMLMCPServers_def clientFormat_def clientBad_def clientTail_def clientKey_def regEntry_def)
qed

lemma Install_cases:
  assumes "Install J T m ft g c fs = (out, tr)"
  obtains (nothing) "tr = []" "errorOf out \<noteq> None"
  | (merge) path where "ConfigPath m c = Inr path"
      "mergeServers (clientFormat J T c) (clientBad c) (clientTail c) ft path (g_name g) (regEntry g) (clientKey c) (g_dry g) fs = (out, tr)"
proof (cases "ConfigPath m c")
  case (Inl e)
  then have "tr = []" "errorOf out \<noteq> None" using assms by (auto simp: Install_at_path errorOf_def)
  then show ?thesis by (rule nothing)
next
  case (Inr path)
  show ?thesis
  proof (cases "c = Continue \<longrightarrow> osStat m fs path \<or> \<not> osStat m fs (pathJoin [pathDir path, ''config.yaml''])")
    case True
    then show ?thesis using merge [OF Inr] Install_merge [OF Inr] assms by auto
  next
    case False
    then have "Install J T m ft g c fs = continueInstall J m ft g path fs" using Inr by (auto simp: Install_at_path)
    then have "tr = []" "errorOf out \<noteq> None" using assms False by (auto simp: continueInstall_def Let_def errorOf_def)
    then show ?thesis by (rule nothing)
  qed
qed

text \<open>C13. Installing into a client is careful: in every state the files go through, the client's configuration is the old one or the
  whole new one and only it, its backup and its temporary file differ from before; a failed installation leaves the
  configuration as it was; a dry run writes nothing; a successful one that writes leaves the old content in the backup and, in
  the configuration, the old document with exactly one server entry set: every other key and server as they were.\<close>

theorem setup_install_careful:
  assumes "Install J T m ft g c fs = (out, tr)" and "ConfigPath m c = Inr path"
  shows "(\<exists>new. careful path new fs tr) \<and> (g_dry g \<longrightarrow> tr = []) \<and>
    (errorOf out \<noteq> None \<longrightarrow> last (fs # tr) path = fs path) \<and>
    (errorOf out = None \<and> tr \<noteq> [] \<longrightarrow>
      (\<exists>old new t. loadRoot (clientFormat J T c) (clientBad c) ft path fs = Inr (Some old) \<and>
         f_enc (clientFormat J T c) new = Inr t \<and> last (fs # tr) path = Some (t @ clientTail c) \<and>
         (\<forall>d. fs path = Some d \<longrightarrow> last (fs # tr) (bakPath path) = Some d) \<and>
         (\<forall>k. k \<noteq> clientKey c \<longrightarrow> gm_get new k = gm_get old k) \<and>
         (\<forall>n. gm_get (serversOf (clientKey c) (Some new)) n =
            (if n = g_name g then Some (regEntry g) else gm_get (serversOf (clientKey c) (Some old)) n))))"
  using assms(1)
proof (cases rule: Install_cases)
  case nothing
  then show ?thesis by (auto simp: careful_def)
next
  case (merge p)
  then have p: "p = path" using assms(2) by simp
  note mc = mergeServers_careful [OF merge(2) [unfolded p]]
  have "\<exists>old new t. loadRoot (clientFormat J T c) (clientBad c) ft path fs = Inr (Some old) \<and>
         f_enc (clientFormat J T c) new = Inr t \<and> last (fs # tr) path = Some (t @ clientTail c) \<and>
         (\<forall>d. fs path = Some d \<longrightarrow> last (fs # tr) (bakPath path) = Some d) \<and>
         (\<forall>k. k \<noteq> clientKey c \<longrightarrow> gm_get new k = gm_get old k) \<and>
         (\<forall>n. gm_get (serversOf (clientKey c) (Some new)) n =
            (if n = g_name g then Some (regEntry g) else gm_get (serversOf (clientKey c) (Some old)) n))"
    if ok: "errorOf out = None" "tr \<noteq> []"
  proof -
    obtain m0 t where "loadRoot (clientFormat J T c) (clientBad c) ft path fs = Inr (Some m0)"
      "f_enc (clientFormat J T c) (merged (clientKey c) (g_name g) (regEntry g) m0) = Inr t"
      "last (fs # tr) path = Some (t @ clientTail c)" "\<forall>d. fs path = Some d \<longrightarrow> last (fs # tr) (bakPath path) = Some d"
      using mc(4) [OF ok] by blast
    then show ?thesis
      by (intro exI [of _ m0] exI [of _ "merged (clientKey c) (g_name g) (regEntry g) m0"] exI [of _ t]) (simp add: merged_keeps)
  qed
  then show ?thesis using mc(1-3) by blast
qed

text \<open>Installing is idempotent: after a successful installation a second one of the same registration, dry or not, finds the
  entry unchanged and writes nothing; given that the codec reads back what it wrote, up to the order of keys.\<close>

theorem setup_idempotent:
  assumes "roundTrips (clientFormat J T c) (clientTail c)" and "textStable (clientFormat J T c)"
    and "\<not> g_dry g" and "Install J T m ft g c fs = (out, tr)" and "errorOf out = None" and "q_read ft' = None"
    and "Install J T m ft' (g\<lparr>g_dry := dry\<rparr>) c (last (fs # tr)) = (out', tr')"
  shows "tr' = [] \<and> (\<exists>r. out' = Finished r None \<and> rs_Action r = ''unchanged'')"
  using assms(4)
proof (cases rule: Install_cases)
  case nothing
  then show ?thesis using assms(5) by simp
next
  case (merge path)
  then have f: "mergeServers (clientFormat J T c) (clientBad c) (clientTail c) ft path (g_name g) (regEntry g) (clientKey c) False fs = (out, tr)"
    using assms(3) by simp
  have "osStat m (last (fs # tr)) path" using merge_leaves_file [OF f assms(5)] by (simp add: osStat_def)
  then have "Install J T m ft' (g\<lparr>g_dry := dry\<rparr>) c (last (fs # tr)) =
      mergeServers (clientFormat J T c) (clientBad c) (clientTail c) ft' path (g_name g) (regEntry g) (clientKey c) dry (last (fs # tr))"
    using Install_merge [OF merge(1), of "last (fs # tr)" J T ft' "g\<lparr>g_dry := dry\<rparr>"]
    by (simp add: regEntry_def del: last.simps)
  then have second: "mergeServers (clientFormat J T c) (clientBad c) (clientTail c) ft' path (g_name g) (regEntry g) (clientKey c) dry
      (last (fs # tr)) = (out', tr')" using assms(7) by (simp only:)
  show ?thesis by (rule mergeServers_again [OF assms(1,2,6) f assms(5) second])
qed

section \<open>The whole run\<close>

definition ownFiles :: "host \<Rightarrow> string set" where
  "ownFiles m = {q. \<exists>c p. ConfigPath m c = Inr p \<and> (q = p \<or> q = bakPath p \<or> q = tmpPath p)}"

lemma Install_frame:
  assumes "Install J T m ft g c fs = (out, tr)"
  shows "s \<in> set tr \<Longrightarrow> q \<notin> ownFiles m \<Longrightarrow> s q = fs q" and "g_dry g \<Longrightarrow> tr = []"
proof -
  have "(s \<in> set tr \<longrightarrow> q \<notin> ownFiles m \<longrightarrow> s q = fs q) \<and> (g_dry g \<longrightarrow> tr = [])" using assms
  proof (cases rule: Install_cases)
    case (merge path)
    note mc = mergeServers_careful [OF merge(2)]
    then show ?thesis using merge(1) by (fastforce simp: careful_def ownFiles_def)
  qed simp
  then show "s \<in> set tr \<Longrightarrow> q \<notin> ownFiles m \<Longrightarrow> s q = fs q" and "g_dry g \<Longrightarrow> tr = []" by blast+
qed

lemma runLoop_frame:
  assumes "\<And>c fs out tr. inst c fs = (out, tr) \<Longrightarrow> (\<forall>s \<in> set tr. s q = fs q)"
    and "runLoop inst yes ds inp fs = (rs, tr)" and "s \<in> set tr"
  shows "s q = fs q"
  using assms(2,3)
proof (induction ds arbitrary: inp fs rs tr)
  case (Cons d ds)
  obtain line rest where l: "(if yes then ([], inp) else readLine inp) = (line, rest)" by fastforce
  show ?case
  proof (cases "\<not> yes \<and> \<not> agreed line")
    case True
    then show ?thesis using Cons l by (auto split: prod.splits)
  next
    case False
    obtain out tr1 where i: "inst (dt_Client d) fs = (out, tr1)" by fastforce
    have f: "\<forall>s \<in> set tr1. s q = fs q" using assms(1) [OF i] .
    then have e: "last (fs # tr1) q = fs q" by (cases tr1 rule: rev_cases) auto
    obtain rs2 tr2 where r: "runLoop inst yes ds rest (last (fs # tr1)) = (rs2, tr2)" by fastforce
    have "set tr \<subseteq> set tr1 \<union> set tr2"
      using Cons.prems(1) l False i r by (cases out) (auto simp: Let_def split: if_splits)
    then have "s \<in> set tr1 \<or> s \<in> set tr2" using Cons.prems(2) by blast
    then show ?thesis using f Cons.IH [OF r] e by auto
  qed
qed simp

lemma runLoop_dry:
  assumes "\<And>c fs. snd (inst c fs) = []"
  shows "snd (runLoop inst yes ds inp fs) = []"
proof (induction ds arbitrary: inp)
  case (Cons d ds)
  obtain line rest where l: "(if yes then ([], inp) else readLine inp) = (line, rest)" by fastforce
  obtain out where i: "inst (dt_Client d) fs = (out, [])" using assms [of "dt_Client d" fs] by (metis surjective_pairing)
  obtain rs2 where r: "runLoop inst yes ds rest fs = (rs2, [])" using Cons.IH [of rest] by (metis surjective_pairing)
  show ?case using l i r by (cases out; cases yes) (auto simp: Let_def split: prod.splits if_splits)
qed simp

lemma Run_is_loop:
  assumes "Run J T m exe fts opts fs = (r, tr)"
  obtains (failed) "tr = []"
  | (loop) g yes ds inp rs where "g_dry g = op_DryRun opts"
      "runLoop (\<lambda>c. Install J T m (fts c) g c) yes ds inp fs = (rs, tr)"
proof (cases "if op_SelfBinary opts = [] then exe else Inr (op_SelfBinary opts)")
  case (Inl e)
  then show ?thesis using assms failed by (simp add: Run_def)
next
  case (Inr self)
  let ?g = "\<lparr>g_name = (if op_ServerName opts = [] then ''remote-shell'' else op_ServerName opts), g_command = self,
     g_args = op_Args opts, g_env = op_Env opts, g_dry = op_DryRun opts\<rparr>"
  let ?ds = "onlyClients (op_OnlyClient opts) (Detect m fs AllClients)"
  obtain rs tr' where l: "runLoop (\<lambda>c. Install J T m (fts c) ?g c) (op_Yes opts) ?ds (op_In opts) fs = (rs, tr')" by fastforce
  have "tr' = tr" using assms [unfolded Run_def Inr sum.case Let_def l prod.case] by simp
  then show ?thesis using loop [of ?g] l by simp
qed

text \<open>A run touches only the configuration files of the clients it knows, their backups and temporary files; a dry run touches
  nothing.\<close>

lemma Run_confined:
  assumes "Run J T m exe fts opts fs = (r, tr)"
  shows "s \<in> set tr \<Longrightarrow> q \<notin> ownFiles m \<Longrightarrow> s q = fs q" and "op_DryRun opts \<Longrightarrow> tr = []"
proof -
  show "s q = fs q" if "s \<in> set tr" "q \<notin> ownFiles m" using assms
  proof (cases rule: Run_is_loop)
    case (loop g yes ds inp rs)
    have i: "\<forall>s \<in> set tr'. s q = fs' q" if "Install J T m (fts c) g c fs' = (out, tr')" for c fs' out tr'
      using Install_frame(1) [OF that] \<open>q \<notin> ownFiles m\<close> by simp
    show ?thesis
      by (rule runLoop_frame [where inst = "\<lambda>c. Install J T m (fts c) g c" and q = q, OF _ loop(2) that(1)]) (erule i)
  qed (use that in simp)
  show "tr = []" if "op_DryRun opts" using assms
  proof (cases rule: Run_is_loop)
    case (loop g yes ds inp rs)
    have "snd (runLoop (\<lambda>c. Install J T m (fts c) g c) yes ds inp fs) = []"
      by (rule runLoop_dry) (rule Install_frame(2) [OF surjective_pairing], simp add: loop(1) that)
    then show ?thesis by (simp add: loop(2))
  qed
qed

section \<open>What goes wrong\<close>

text \<open>A configuration that is \<open>null\<close>, which is valid JSON, leaves the map nil, and writing to it panics.\<close>

theorem null_config_panics:
  assumes "fs path = Some data" and "data \<noteq> []" and "f_dec F data = Inr None" and "q_read ft = None"
  shows "mergeJSONMCPServers F ft path name command args env key False fs = (Panicked ''assignment to entry in nil map'', [])"
  using assms by (simp add: mergeJSONMCPServers_def mergeServers_def loadRoot_def serversOf_def gm_get_def)

text \<open>Claude Code's configuration is in the home directory itself, so its ``parent directory'' is always there: the client is detected
  whether it is installed or not.\<close>

theorem claude_code_always_detected:
  assumes "ConfigPath m ClaudeCode = Inr path" and "m_isDir m (pathDir path)"
  shows "ClaudeCode \<in> dt_Client ` set (Detect m fs AllClients)"
  using assms by (simp add: AllClients_def osStat_def)

text \<open>With the input closed every prompt reads the empty line, which means yes.\<close>

theorem closed_input_installs: "runLoop inst False ds [] fs = runLoop inst True ds [] fs"
proof -
  have "agreed []" by code_simp
  then show ?thesis
  proof (induction ds arbitrary: fs)
    case (Cons d ds)
    obtain out tr where "inst (dt_Client d) fs = (out, tr)" by fastforce
    then show ?case using Cons by (cases out) (simp_all add: readLine_def Let_def)
  qed simp
qed

section \<open>An example\<close>

definition demo_host_env :: host where
  "demo_host_env = \<lparr>m_GOOS = ''linux'', m_home = Inr ''/home/u'', m_APPDATA = [], m_isDir = (\<lambda>p. p = ''/home/u'')\<rparr>"

definition demo_reg :: registration where
  "demo_reg = \<lparr>g_name = ''remote-shell'', g_command = ''/bin/rs'', g_args = [], g_env = [], g_dry = False\<rparr>"

definition demo_doc :: root where
  "demo_doc = [(''mcpServers'', JObj [(''remote-shell'', regEntry demo_reg)])]"

text \<open>A codec that knows the one document.\<close>

definition demo_format :: format where
  "demo_format = \<lparr>f_dec = (\<lambda>s. if s = ''{}'' @ [CHR 0x0A] then Inr (Some demo_doc) else Inl (ExtErr ''syntax'')),
     f_enc = (\<lambda>r. if r = demo_doc then Inr ''{}'' else Inl (ExtErr ''type'')),
     f_text = (\<lambda>v. ''text''), f_snippet = (\<lambda>n v. n)\<rparr>"

definition no_faults :: faults where
  "no_faults = \<lparr>q_read = None, q_mkdir = None, q_bstat = None, q_bread = None, q_bwrite = None, q_write = None,
     q_rename = None, q_remove = False\<rparr>"

lemma jsim_refl: "jsim v v"
proof (induction v)
  case (JObj m)
  have "rel_option jsim (gm_get m k) (gm_get m k)" for k
    using JObj by (cases "gm_get m k") (force simp: gm_get_def dest: map_of_SomeD)+
  then show ?case by (rule jsim.obj)
next
  case (JArr vs)
  then show ?case by (intro jsim.arr) (simp add: list.rel_refl_strong)
qed (rule jsim.intros)+

lemma demo_format_ok: "roundTrips demo_format [CHR 0x0A]" "textStable demo_format"
  by (auto simp: roundTrips_def textStable_def demo_format_def jsim_refl split: if_splits)

lemma demo_config: "ConfigPath demo_host_env ClaudeCode = Inr ''/home/u/.claude.json''"
  by code_simp

lemma demo_install:
  "\<exists>r tr. Install demo_format demo_format demo_host_env no_faults demo_reg ClaudeCode (\<lambda>p. None) = (Finished r None, tr) \<and>
     rs_Action r = ''added'' \<and> tr \<noteq> []"
proof -
  let ?i = "Install demo_format demo_format demo_host_env no_faults demo_reg ClaudeCode (\<lambda>p. None)"
  have "(case ?i of (Finished r e, tr) \<Rightarrow> e = None \<and> rs_Action r = ''added'' \<and> tr \<noteq> [] | (Panicked p, tr) \<Rightarrow> False)"
    by code_simp
  then show ?thesis by (auto split: prod.splits outcome.splits)
qed

theorem setup_idempotent_witness:
  "\<exists>r tr. Install demo_format demo_format demo_host_env no_faults demo_reg ClaudeCode (\<lambda>p. None) = (Finished r None, tr) \<and>
     snd (Install demo_format demo_format demo_host_env no_faults demo_reg ClaudeCode (last ((\<lambda>p. None) # tr))) = []"
proof -
  obtain r tr where i: "Install demo_format demo_format demo_host_env no_faults demo_reg ClaudeCode (\<lambda>p. None) = (Finished r None, tr)"
    using demo_install by blast
  have e: "errorOf (Finished r None) = None" by (simp add: errorOf_def)
  have g: "\<not> g_dry demo_reg" "demo_reg\<lparr>g_dry := False\<rparr> = demo_reg" "q_read no_faults = None"
    by (simp_all add: demo_reg_def no_faults_def)
  have f: "roundTrips (clientFormat demo_format demo_format ClaudeCode) (clientTail ClaudeCode)"
    "textStable (clientFormat demo_format demo_format ClaudeCode)"
    using demo_format_ok by (simp_all add: clientFormat_def clientTail_def)
  obtain out' tr' where j: "Install demo_format demo_format demo_host_env no_faults (demo_reg\<lparr>g_dry := False\<rparr>) ClaudeCode
      (last ((\<lambda>p. None) # tr)) = (out', tr')" by fastforce
  have "tr' = []" using setup_idempotent [OF f g(1) i e g(3) j] by blast
  then show ?thesis using i j g(2) by auto
qed

theorem setup_install_careful_witness:
  "\<exists>tr. last ((\<lambda>p. None) # tr) ''/home/u/.claude.json'' = Some (''{}'' @ [CHR 0x0A]) \<and>
     snd (Install demo_format demo_format demo_host_env no_faults demo_reg ClaudeCode (\<lambda>p. None)) = tr"
proof -
  obtain r tr where i: "Install demo_format demo_format demo_host_env no_faults demo_reg ClaudeCode (\<lambda>p. None) = (Finished r None, tr)"
    and t: "tr \<noteq> []" using demo_install by blast
  have e: "errorOf (Finished r None) = None" by (simp add: errorOf_def)
  obtain new t where "f_enc demo_format new = Inr t" "last ((\<lambda>p. None) # tr) ''/home/u/.claude.json'' = Some (t @ clientTail ClaudeCode)"
    using setup_install_careful [OF i demo_config] e t by (auto simp: clientFormat_def)
  then show ?thesis using i by (auto simp: demo_format_def clientTail_def split: if_splits)
qed

theorem null_config_panics_witness:
  "fst (mergeJSONMCPServers (demo_format\<lparr>f_dec := \<lambda>s. Inr None\<rparr>) no_faults ''p'' ''n'' ''c'' [] [] ''k'' False ((\<lambda>p. None)(''p'' \<mapsto> ''null''))) =
     Panicked ''assignment to entry in nil map''"
  using null_config_panics [of "(\<lambda>p. None)(''p'' \<mapsto> ''null'')" "''p''" "''null''" "demo_format\<lparr>f_dec := \<lambda>s. Inr None\<rparr>" no_faults]
  by (simp add: no_faults_def)

theorem claude_code_always_detected_witness:
  "ClaudeCode \<in> dt_Client ` set (Detect demo_host_env (\<lambda>p. None) AllClients)"
proof (rule claude_code_always_detected [OF demo_config])
  show "m_isDir demo_host_env (pathDir ''/home/u/.claude.json'')" by code_simp
qed

end
