(* ===== verification/Launcher.thy ===== *)
theory Launcher
  imports GoStrings
begin

text \<open>
  The launcher's stream of server-sent events (\<open>internal/launcher/proxy.go\<close>, \<open>readSSE\<close>), the reply of a \<open>POST\<close>, and the loop of
  \<open>cmd/remote-shell-mcp/main.go\<close> that attaches to the daemon again and again.
\<close>

abbreviation NL :: char where "NL \<equiv> CHR 0x0A"
abbreviation CR :: char where "CR \<equiv> CHR 0x0D"

section \<open>readSSE\<close>

text \<open>The two builders, what went into \<open>endpointCh\<close>, and the lines printed.\<close>

record sse =
  s_event :: string
  s_data :: string
  s_endpoint :: "string option"
  s_printed :: "string list"

definition newSSE :: sse where
  "newSSE = \<lparr>s_event = [], s_data = [], s_endpoint = None, s_printed = []\<rparr>"

definition sseDeliver :: "string \<Rightarrow> string \<Rightarrow> sse \<Rightarrow> sse" where
  "sseDeliver evType payload s =
     (if evType = ''endpoint'' then
        (case s_endpoint s of None \<Rightarrow> s\<lparr>s_endpoint := Some (trimSpace payload)\<rparr> | Some _ \<Rightarrow> s)
      else if evType = ''message'' \<or> evType = [] then
        s\<lparr>s_printed := s_printed s @ [trimSuffix payload [NL]]\<rparr>
      else s)"

definition sseFlush :: "sse \<Rightarrow> sse" where
  "sseFlush s =
     (if s_data s = [] then s\<lparr>s_event := []\<rparr>
      else sseDeliver (s_event s) (s_data s) (s\<lparr>s_event := [], s_data := []\<rparr>))"

definition trimCRLF :: "string \<Rightarrow> string" where
  "trimCRLF line = rev (dropWhile (\<lambda>c. c = CR \<or> c = NL) (rev line))"

definition sseField :: "string \<Rightarrow> sse \<Rightarrow> sse" where
  "sseField line s =
     (if line = [] then sseFlush s
      else if hasPrefix line '':'' then s
      else if hasPrefix line ''event:'' then s\<lparr>s_event := s_event s @ trimSpace (trimPrefix line ''event:'')\<rparr>
      else if hasPrefix line ''data:'' then
        (let payload = trimPrefix (trimPrefix line ''data:'') '' '' in
         s\<lparr>s_data := s_data s @ (if s_data s \<noteq> [] then [NL] else []) @ payload\<rparr>)
      else s)"

definition sseLine :: "string \<Rightarrow> sse \<Rightarrow> sse" where
  "sseLine raw = sseField (trimCRLF raw)"

text \<open>
  What is read before the stream ends: whole lines are handled, the rest of the last one is dropped, and the event
  that was being read is flushed.
\<close>

definition readSSE :: "string \<Rightarrow> goerr \<Rightarrow> goerr \<times> sse" where
  "readSSE body err =
     (if err = IoEOF then Errorf ''sse stream ended (daemon crashed or restarted)'' [] else err,
      sseFlush (fold sseLine (butlast (splitOn NL body)) newSSE))"

section \<open>HTTP replies\<close>

text \<open>\<open>errors.Is(err, context.Canceled)\<close>.\<close>

fun isCancelled :: "goerr \<Rightarrow> bool" where
  "isCancelled CtxErr = True"
| "isCancelled (Wrapf f as e) = isCancelled e"
| "isCancelled _ = False"

definition sseStatus :: "nat \<Rightarrow> goerr option" where
  "sseStatus code =
     (if code = 401 then Some (Errorf ''daemon rejected auth (HTTP 401) - token mismatch or missing'' [])
      else if code \<noteq> 200 then Some (Errorf ''sse status %d'' [nat_dec code])
      else None)"

definition postOne :: "nat res \<Rightarrow> goerr option" where
  "postOne reply =
     (case reply of
        Inl e \<Rightarrow> Some (Wrapf ''post message: %w'' [] e)
      | Inr code \<Rightarrow>
          if code = 401 then Some (Errorf ''daemon returned 401 (token rotated or invalid)'' [])
          else if code \<ge> 400 then Some (Errorf ''daemon returned %d'' [nat_dec code])
          else None)"

text \<open>A request can end with the error of its context.\<close>

fun ctxReply :: "nat res \<Rightarrow> bool" where
  "ctxReply (Inl e) = isCancelled e"
| "ctxReply (Inr code) = False"

text \<open>\<open>resolve\<close> is \<open>net/url\<close>'s resolution, none when either does not parse.\<close>

definition resolveURL :: "(string \<Rightarrow> string \<Rightarrow> string option) \<Rightarrow> string \<Rightarrow> string \<Rightarrow> string" where
  "resolveURL resolve base endpoint =
     (if hasPrefix endpoint ''http://'' \<or> hasPrefix endpoint ''https://'' then endpoint
      else (case resolve base endpoint of None \<Rightarrow> endpoint | Some u \<Rightarrow> u))"

section \<open>Staying attached\<close>

text \<open>Waits in milliseconds.\<close>

definition launchBackoff :: "nat list" where
  "launchBackoff = [200, 500, 1000, 2000, 5000]"

definition launchWait :: "nat \<Rightarrow> nat" where
  "launchWait attempt = launchBackoff ! min attempt (length launchBackoff - 1)"

definition stableThreshold :: nat where
  "stableThreshold = 30000"

text \<open>How an attempt ends: no daemon, or a \<open>Run\<close> with its result after some time; \<open>RunDone\<close> is a nil result, \<open>RunCancelled\<close> a cancelled context.\<close>

datatype attempt = NoDaemon | RunDone | RunCancelled | RunFailed nat

text \<open>
  The loop on the attempts to come, with the context's error seen at the top (\<open>True\<close> when it is cancelled): the waits, and
  whether the loop has returned.
\<close>

fun launchLoop :: "nat \<Rightarrow> (bool \<times> attempt) list \<Rightarrow> nat list \<times> bool" where
  "launchLoop n [] = ([], False)"
| "launchLoop n ((True, a) # as) = ([], True)"
| "launchLoop n ((False, NoDaemon) # as) = (case launchLoop (Suc n) as of (ws, b) \<Rightarrow> (launchWait n # ws, b))"
| "launchLoop n ((False, RunDone) # as) = ([], True)"
| "launchLoop n ((False, RunCancelled) # as) = ([], True)"
| "launchLoop n ((False, RunFailed ms) # as) =
     (let n = (if ms > stableThreshold then 0 else n) in
      case launchLoop (Suc n) as of (ws, b) \<Rightarrow> (launchWait n # ws, b))"

section \<open>Decoding as the format says it\<close>

text \<open>
  What a stream of events means, with nothing taken from the reader.  The bytes are cut into lines at the line feeds, and what
  follows the last line feed is no line; carriage returns at the end of a line do not belong to it.
\<close>

fun cutLines :: "string \<Rightarrow> string \<Rightarrow> string list" where
  "cutLines cur [] = []"
| "cutLines cur (c # cs) = (if c = NL then rev cur # cutLines [] cs else cutLines (c # cur) cs)"

fun stripCRs :: "string \<Rightarrow> string" where
  "stripCRs l = (if l \<noteq> [] \<and> last l = CR then stripCRs (butlast l) else l)"

declare stripCRs.simps [simp del]

text \<open>Events are blocks of lines between empty lines.\<close>

fun blocks :: "string list \<Rightarrow> string list list" where
  "blocks [] = [[]]"
| "blocks (l # ls) =
     (if l = [] then [] # blocks ls else (case blocks ls of [] \<Rightarrow> [[l]] | b # bs \<Rightarrow> (l # b) # bs))"

text \<open>The values of a field in a block, in order.\<close>

definition fieldsOf :: "string \<Rightarrow> string list \<Rightarrow> string list" where
  "fieldsOf name ls = map (\<lambda>l. drop (length name) l) (filter (\<lambda>l. take (length name) l = name) ls)"

text \<open>The type: the values of all \<open>event\<close> fields of the block run together, each without the space around it.\<close>

definition eventOf :: "string list \<Rightarrow> string" where
  "eventOf ls = concat (map trimSpace (fieldsOf ''event:'' ls))"

text \<open>The data: the values of the \<open>data\<close> fields, each without one space in front, joined by line feeds; empty ones before the first
  that is not empty are left out.\<close>

definition dataOf :: "string list \<Rightarrow> string" where
  "dataOf ls = joinWith [NL] (dropWhile (\<lambda>d. d = [])
     (map (\<lambda>d. case d of [] \<Rightarrow> [] | c # d' \<Rightarrow> if c = CHR '' '' then d' else d) (fieldsOf ''data:'' ls)))"

text \<open>The events of a stream: the type and the data of each block that has data.\<close>

definition eventsOf :: "string \<Rightarrow> (string \<times> string) list" where
  "eventsOf body =
     filter (\<lambda>(ev, d). d \<noteq> []) (map (\<lambda>b. (eventOf b, dataOf b)) (blocks (map stripCRs (cutLines [] body))))"

text \<open>The messages are the events without a type or of type \<open>message\<close>, less a line feed at the end; the endpoint is the data of the
  first event of type \<open>endpoint\<close>.\<close>

definition messagesOf :: "(string \<times> string) list \<Rightarrow> string list" where
  "messagesOf evs = [if last d = NL then butlast d else d. (ev, d) \<leftarrow> evs, ev = [] \<or> ev = ''message'']"

fun endpointOf :: "(string \<times> string) list \<Rightarrow> string option" where
  "endpointOf [] = None"
| "endpointOf ((ev, d) # evs) = (if ev = ''endpoint'' then Some (trimSpace d) else endpointOf evs)"

section \<open>The reader block by block\<close>

definition refDeliver :: "string list \<Rightarrow> sse \<Rightarrow> sse" where
  "refDeliver ls s = (if dataOf ls = [] then s else sseDeliver (eventOf ls) (dataOf ls) s)"

definition refSSE :: "string \<Rightarrow> sse" where
  "refSSE body = fold refDeliver (blocks (map trimCRLF (butlast (splitOn NL body)))) newSSE"

lemma hasPrefix_trim: "hasPrefix l p \<Longrightarrow> trimPrefix l p = drop (length p) l"
  by (simp add: trimPrefix_def)

lemma joinWith_eq_Nil: "sep \<noteq> [] \<Longrightarrow> joinWith sep ds = [] \<longleftrightarrow> ds = [] \<or> ds = [[]]"
  by (cases ds rule: remdups_adj.cases) auto

lemma dropWhile_snoc: "dropWhile P (xs @ [x]) = (if dropWhile P xs = [] then (if P x then [] else [x]) else dropWhile P xs @ [x])"
  by (induction xs) auto

lemma prefix_clash:
  "hasPrefix l '':'' \<Longrightarrow> \<not> hasPrefix l ''event:''" "hasPrefix l '':'' \<Longrightarrow> \<not> hasPrefix l ''data:''"
  "hasPrefix l ''event:'' \<Longrightarrow> \<not> hasPrefix l ''data:''"
  by (cases l; auto simp: hasPrefix_def)+

lemma hasPrefix_take: "hasPrefix l p \<longleftrightarrow> take (length p) l = p"
  by (simp add: hasPrefix_def)

lemma trimPrefix_space: "trimPrefix d '' '' = (case d of [] \<Rightarrow> [] | c # d' \<Rightarrow> if c = CHR '' '' then d' else d)"
  by (cases d) (auto simp: trimPrefix_def hasPrefix_def)

lemma fieldsOf_snoc: "fieldsOf name (ls @ [l]) = fieldsOf name ls @ (if hasPrefix l name then [drop (length name) l] else [])"
  by (simp add: fieldsOf_def hasPrefix_take)

lemma eventOf_snoc: "eventOf (ls @ [l]) = eventOf ls @ (if hasPrefix l ''event:'' then trimSpace (trimPrefix l ''event:'') else [])"
  by (simp add: eventOf_def fieldsOf_snoc hasPrefix_trim)

lemma dataOf_snoc:
  "dataOf (ls @ [l]) = (if hasPrefix l ''data:''
     then dataOf ls @ (if dataOf ls \<noteq> [] then [NL] else []) @ trimPrefix (trimPrefix l ''data:'') '' '' else dataOf ls)"
proof -
  let ?D = "dropWhile (\<lambda>d. d = []) (map (\<lambda>d. trimPrefix d '' '') (fieldsOf ''data:'' ls))"
  have D: "dataOf ls = joinWith [NL] (dropWhile (\<lambda>d. d = []) (map (\<lambda>d. trimPrefix d '' '') (fieldsOf ''data:'' ls)))" for ls
    by (simp add: dataOf_def trimPrefix_space)
  have "dropWhile (\<lambda>d. d = []) ds \<noteq> [[]]" for ds :: "string list" by (induction ds) auto
  then have e: "dataOf ls = [] \<longleftrightarrow> ?D = []" by (simp add: D joinWith_eq_Nil)
  show ?thesis
  proof (cases "hasPrefix l ''data:''")
    case True
    then show ?thesis using e by (auto simp: D fieldsOf_snoc dropWhile_snoc joinWith_snoc hasPrefix_trim)
  next
    case False
    then show ?thesis by (simp add: dataOf_def fieldsOf_snoc)
  qed
qed

lemma sseField_block:
  assumes "[] \<notin> set ls" and "s_event s = []" and "s_data s = []"
  shows "fold sseField ls s = s\<lparr>s_event := eventOf ls, s_data := dataOf ls\<rparr>"
  using assms(1)
proof (induction ls rule: rev_induct)
  case Nil
  then show ?case using assms(2,3) by (simp add: eventOf_def dataOf_def fieldsOf_def)
next
  case (snoc l ls)
  then show ?case using prefix_clash [of l] by (auto simp: sseField_def eventOf_snoc dataOf_snoc Let_def)
qed

lemma sseFlush_block:
  assumes "[] \<notin> set ls" and "s_event s = []" and "s_data s = []"
  shows "sseFlush (fold sseField ls s) = refDeliver ls s"
  unfolding sseField_block [OF assms] using assms(2,3) by (cases s) (simp add: sseFlush_def refDeliver_def)

lemma refDeliver_clean: "s_event s = [] \<Longrightarrow> s_data s = [] \<Longrightarrow> s_event (refDeliver ls s) = [] \<and> s_data (refDeliver ls s) = []"
  by (simp add: refDeliver_def sseDeliver_def split: option.splits)

lemma blocks_nonempty [simp]: "blocks ls \<noteq> []"
  by (cases ls) (auto split: list.splits)

lemma blocks_append: "[] \<notin> set ls \<Longrightarrow> blocks (ls @ [] # ms) = ls # blocks ms"
  by (induction ls) auto

lemma blocks_last: "[] \<notin> set ls \<Longrightarrow> blocks ls = [ls]"
  by (induction ls) auto

lemma sse_blocks:
  assumes "s_event s = []" and "s_data s = []"
  shows "sseFlush (fold sseField ls s) = fold refDeliver (blocks ls) s"
  using assms
proof (induction "length ls" arbitrary: ls s rule: less_induct)
  case less
  show ?case
  proof (cases "[] \<in> set ls")
    case False
    then show ?thesis using less.prems by (simp add: sseFlush_block blocks_last)
  next
    case True
    then obtain as bs where ls: "ls = as @ [] # bs" "[] \<notin> set as" using split_list_first by metis
    have f: "sseField [] (fold sseField as s) = refDeliver as s"
      using sseFlush_block [OF ls(2) less.prems] by (simp add: sseField_def)
    have "sseFlush (fold sseField bs (refDeliver as s)) = fold refDeliver (blocks bs) (refDeliver as s)"
      using refDeliver_clean [OF less.prems] by (intro less.hyps) (simp_all add: ls(1))
    then show ?thesis by (simp add: ls(1) blocks_append [OF ls(2)] f)
  qed
qed

lemma readSSE_same: "snd (readSSE body err) = refSSE body"
proof -
  have "fold sseLine ls = fold sseField (map trimCRLF ls)" for ls
    by (rule ext) (induction ls rule: rev_induct, simp_all add: sseLine_def)
  then show ?thesis by (simp add: readSSE_def refSSE_def sse_blocks newSSE_def)
qed

section \<open>The reader is the decoder\<close>

lemma butlast_splitOn: "butlast (splitOn NL body) = cutLines [] body"
proof -
  have "cutLines cur body = (case butlast (splitOn NL body) of [] \<Rightarrow> [] | l # ls \<Rightarrow> (rev cur @ l) # ls)" for cur
  proof (induction body arbitrary: cur)
    case (Cons c cs)
    show ?case using Cons [of "[]"] Cons [of "c # cur"]
      by (cases "splitOn NL cs") (auto split: list.splits)
  qed simp
  from this [of "[]"] show ?thesis by (simp split: list.splits)
qed

lemma cutLines_plain: "NL \<notin> set cur \<Longrightarrow> l \<in> set (cutLines cur body) \<Longrightarrow> NL \<notin> set l"
  by (induction cur body rule: cutLines.induct) (auto split: if_splits)

lemma trimCRLF_strip: "NL \<notin> set l \<Longrightarrow> trimCRLF l = stripCRs l"
proof (induction l rule: rev_induct)
  case (snoc c l)
  then show ?case by (subst stripCRs.simps) (auto simp: trimCRLF_def)
qed (simp add: trimCRLF_def stripCRs.simps)

lemma stream_lines: "map trimCRLF (butlast (splitOn NL body)) = map stripCRs (cutLines [] body)"
  unfolding butlast_splitOn using cutLines_plain [of "[]" _ body] trimCRLF_strip by simp

lemma trimSuffix_last: "d \<noteq> [] \<Longrightarrow> trimSuffix d [NL] = (if last d = NL then butlast d else d)"
  by (cases d rule: rev_cases) (auto simp: trimSuffix_def trimPrefix_def hasPrefix_def)

lemma refDeliver_events:
  "s_printed (fold refDeliver bs s) =
     s_printed s @ messagesOf (filter (\<lambda>(ev, d). d \<noteq> []) (map (\<lambda>b. (eventOf b, dataOf b)) bs))" (is ?p)
  "s_endpoint (fold refDeliver bs s) = (case s_endpoint s of Some u \<Rightarrow> Some u
     | None \<Rightarrow> endpointOf (filter (\<lambda>(ev, d). d \<noteq> []) (map (\<lambda>b. (eventOf b, dataOf b)) bs)))" (is ?e)
proof -
  show ?p
    by (induction bs arbitrary: s)
      (auto simp: messagesOf_def refDeliver_def sseDeliver_def trimSuffix_last split: option.splits)
  show ?e
    by (induction bs arbitrary: s) (auto simp: refDeliver_def sseDeliver_def split: option.splits)
qed

text \<open>C15. The reader of the event stream decodes it as it is defined.  The bytes are cut into lines, the rest after the last line
  feed is dropped, and the lines into blocks at the empty ones (the last block ends with the stream); the type of a block is that of
  its \<open>event\<close> fields, run together if there are several, and its data that of its \<open>data\<close> fields, joined by line feeds, where empty
  ones in front count for nothing; a block without data is no event.  Whatever the bytes, the line by line loop with its two
  builders prints exactly the data of the events without a type or of type \<open>message\<close>, in order and each less one line feed at its end,
  and takes as the endpoint exactly the first event of type \<open>endpoint\<close>; and the end of the stream is always reported as an
  error, any other error as it is.\<close>

theorem readSSE_equiv:
  "s_printed (snd (readSSE body err)) = messagesOf (eventsOf body) \<and>
   s_endpoint (snd (readSSE body err)) = endpointOf (eventsOf body) \<and>
   fst (readSSE body err) \<noteq> IoEOF \<and> (err = IoEOF \<or> fst (readSSE body err) = err)"
proof -
  have "snd (readSSE body err) = fold refDeliver (blocks (map stripCRs (cutLines [] body))) newSSE"
    by (simp add: readSSE_same refSSE_def stream_lines)
  then show ?thesis
    by (simp add: refDeliver_events eventsOf_def newSSE_def) (simp add: readSSE_def)
qed

section \<open>What the daemon sends arrives\<close>

text \<open>The daemon's events: one with the endpoint, then one per message, each message on one line.\<close>

definition sseEncode :: "string \<Rightarrow> string \<Rightarrow> string" where
  "sseEncode ev payload = ''event: '' @ ev @ NL # ''data: '' @ payload @ [NL, NL]"

definition oneLine :: "string \<Rightarrow> bool" where
  "oneLine m \<longleftrightarrow> m \<noteq> [] \<and> NL \<notin> set m \<and> CR \<notin> set m"

lemma trimCRLF_plain: "CR \<notin> set l \<Longrightarrow> NL \<notin> set l \<Longrightarrow> trimCRLF l = l"
  by (cases l rule: rev_cases) (auto simp: trimCRLF_def)

lemma butlast_split: "NL \<notin> set l \<Longrightarrow> butlast (splitOn NL (l @ NL # rest)) = l # butlast (splitOn NL rest)"
  by (simp add: splitOn_append)

lemma butlast_split0: "butlast (splitOn NL (NL # rest)) = [] # butlast (splitOn NL rest)"
  using butlast_split [of "[]" rest] by simp

lemma sseEncode_lines:
  assumes "oneLine m" and "NL \<notin> set ev"
  shows "butlast (splitOn NL (sseEncode ev m @ rest)) = (''event: '' @ ev) # (''data: '' @ m) # [] # butlast (splitOn NL rest)"
proof -
  have e: "NL \<notin> set (''event: '' @ ev)" and d: "NL \<notin> set (''data: '' @ m)" using assms by (auto simp: oneLine_def)
  have "sseEncode ev m @ rest = (''event: '' @ ev) @ NL # ((''data: '' @ m) @ NL # (NL # rest))" by (simp add: sseEncode_def)
  then show ?thesis by (simp only: butlast_split [OF e] butlast_split [OF d] butlast_split0)
qed

lemma refDeliver_encoded:
  assumes "oneLine m"
  shows "refDeliver [''event: '' @ ev, ''data: '' @ m] s = sseDeliver (trimSpace ('' '' @ ev)) m s"
proof -
  have "eventOf [''event: '' @ ev, ''data: '' @ m] = trimSpace ('' '' @ ev)"
    by (simp add: eventOf_def fieldsOf_def hasPrefix_def)
  moreover have "dataOf [''event: '' @ ev, ''data: '' @ m] = m"
    using assms by (simp add: dataOf_def fieldsOf_def hasPrefix_def trimPrefix_def oneLine_def)
  ultimately show ?thesis using assms by (simp add: refDeliver_def oneLine_def)
qed

lemma refSSE_encoded:
  assumes "oneLine m" and "CR \<notin> set ev" and "NL \<notin> set ev"
  shows "fold refDeliver (blocks (map trimCRLF (butlast (splitOn NL (sseEncode ev m @ rest))))) s =
    fold refDeliver (blocks (map trimCRLF (butlast (splitOn NL rest)))) (sseDeliver (trimSpace ('' '' @ ev)) m s)"
proof -
  let ?ls = "[''event: '' @ ev, ''data: '' @ m]" and ?r = "map trimCRLF (butlast (splitOn NL rest))"
  have t: "map trimCRLF (butlast (splitOn NL (sseEncode ev m @ rest))) = ?ls @ [] # ?r"
    unfolding sseEncode_lines [OF assms(1,3)] using assms by (simp add: trimCRLF_plain oneLine_def)
  show ?thesis unfolding t using blocks_append [of ?ls ?r] refDeliver_encoded [OF assms(1), of ev s] by simp
qed

lemma trimSuffix_line: "oneLine m \<Longrightarrow> trimSuffix m [NL] = m"
  by (cases m rule: rev_cases) (auto simp: trimSuffix_def trimPrefix_def hasPrefix_def oneLine_def)

lemma sse_messages:
  assumes "\<forall>m \<in> set ms. oneLine m"
  shows "fold refDeliver (blocks (map trimCRLF (butlast (splitOn NL (concat (map (sseEncode ''message'') ms)))))) s =
    s\<lparr>s_printed := s_printed s @ ms\<rparr>"
  using assms
proof (induction ms arbitrary: s)
  case Nil
  then show ?case by (simp add: refDeliver_def dataOf_def fieldsOf_def)
next
  case (Cons m ms)
  have t: "trimSpace ('' '' @ ''message'') = ''message''" by code_simp
  have "fold refDeliver (blocks (map trimCRLF (butlast (splitOn NL (sseEncode ''message'' m @ concat (map (sseEncode ''message'') ms)))))) s =
      fold refDeliver (blocks (map trimCRLF (butlast (splitOn NL (concat (map (sseEncode ''message'') ms))))))
        (sseDeliver ''message'' m s)"
    using Cons.prems by (subst refSSE_encoded) (simp_all add: t [simplified])
  then show ?case using Cons trimSuffix_line [of m] by (simp add: sseDeliver_def)
qed

text \<open>What the daemon sends is what the client gets: an endpoint event followed by any number of messages, each on one line,
  is read as that endpoint and printed as exactly those messages in their order.\<close>

theorem sse_roundtrip:
  assumes "oneLine u" and "\<forall>m \<in> set ms. oneLine m"
  shows "s_endpoint (snd (readSSE (sseEncode ''endpoint'' u @ concat (map (sseEncode ''message'') ms)) err)) = Some (trimSpace u) \<and>
    s_printed (snd (readSSE (sseEncode ''endpoint'' u @ concat (map (sseEncode ''message'') ms)) err)) = ms"
proof -
  have t: "trimSpace ('' '' @ ''endpoint'') = ''endpoint''" by code_simp
  have "refSSE (sseEncode ''endpoint'' u @ concat (map (sseEncode ''message'') ms)) =
      newSSE\<lparr>s_endpoint := Some (trimSpace u), s_printed := ms\<rparr>"
    unfolding refSSE_def
    by (subst refSSE_encoded) (simp_all add: assms(1) t [simplified] sse_messages [OF assms(2)] sseDeliver_def newSSE_def)
  then show ?thesis
    using readSSE_same by simp
qed

theorem sse_roundtrip_witness:
  "s_printed (snd (readSSE (sseEncode ''endpoint'' ''/m'' @ concat (map (sseEncode ''message'') [''{}'', ''[]''])) IoEOF)) = [''{}'', ''[]'']"
proof -
  have "oneLine ''/m''" "\<forall>m \<in> set [''{}'', ''[]'']. oneLine m" by (simp_all add: oneLine_def)
  from sse_roundtrip [OF this] show ?thesis by blast
qed

section \<open>The waits between attempts\<close>

lemma launchWait_bounds: "200 \<le> launchWait n \<and> launchWait n \<le> 5000"
proof -
  have "min n (length launchBackoff - 1) \<in> {0, 1, 2, 3, 4}" by (auto simp: launchBackoff_def)
  then show ?thesis unfolding launchWait_def by (auto simp: launchBackoff_def)
qed

lemma launchWait_mono: "m \<le> n \<Longrightarrow> launchWait m \<le> launchWait n"
proof -
  have s: "sorted launchBackoff" by (simp add: launchBackoff_def)
  show "m \<le> n \<Longrightarrow> launchWait m \<le> launchWait n"
    unfolding launchWait_def by (rule sorted_nth_mono [OF s]) (auto simp: launchBackoff_def)
qed

text \<open>The loop keeps trying through every failure, and starts over with the shortest wait after a run that was stable.\<close>

lemma launchLoop_persists:
  "\<forall>ba \<in> set as. \<not> fst ba \<and> (snd ba = NoDaemon \<or> (\<exists>ms. snd ba = RunFailed ms)) \<Longrightarrow>
   length (fst (launchLoop n as)) = length as \<and> \<not> snd (launchLoop n as)"
  by (induction n as rule: launchLoop.induct) (auto split: prod.splits)

lemma launchLoop_resets:
  "ms > stableThreshold \<Longrightarrow> fst (launchLoop n ((False, RunFailed ms) # as)) = 200 # fst (launchLoop 1 as)"
  by (simp add: launchWait_def launchBackoff_def split: prod.splits)

end
