(* ===== verification/LauncherStdin.thy ===== *)
theory LauncherStdin
  imports Launcher "HOL-Library.Multiset" "HOL-Library.Sublist"
begin

text \<open>
  From standard input to the daemon: \<open>readStdin\<close> and the shared branch of \<open>lineSource\<close> (\<open>internal/launcher/proxy.go\<close>), and the
  reader of \<open>cmd/remote-shell-mcp/main.go\<close> that feeds them.  The reader, the adapter, the main loop and the posts are goroutines
  that interleave, and each attach to the daemon starts another adapter and main loop on the same channel of lines: a step relation.
\<close>

section \<open>The state\<close>

text \<open>What all share: the lines in the channel \<open>Lines\<close>, whether it is still open, the lines read from standard input so far, and
  whether the context is cancelled.\<close>

record source =
  w_lines :: "string list"
  w_open :: bool
  w_given :: "string list"
  w_cancelled :: bool

datatype adapter = ARunning | AEnding | AClosed

datatype why = WhyDone "goerr option" | WhyFatal | WhyCancelled

datatype main_state = MLoop | MDispatch string | MWait why | MReturned "goerr option"

text \<open>One \<open>readStdin\<close> with its adapter: the line the adapter holds, the channel \<open>out\<close> (capacity 16), \<open>readDoneCh\<close>, the posts in flight
  (at most 128), the lines a goroutine was started for, in the order of starting (the goroutines run in parallel, so the order
  of their requests is open), and the first fatal error.\<close>

record bridge =
  b_held :: "string option"
  b_out :: "string list"
  b_adapter :: adapter
  b_doneCh :: "goerr option option"
  b_inflight :: nat
  b_started :: "string list"
  b_fatal :: "goerr option"
  b_main :: main_state

definition newBridge :: bridge where
  "newBridge = \<lparr>b_held = None, b_out = [], b_adapter = ARunning, b_doneCh = None, b_inflight = 0, b_started = [],
     b_fatal = None, b_main = MLoop\<rparr>"

definition outCap :: nat where "outCap = 16"
definition maxInFlight :: nat where "maxInFlight = 128"

section \<open>The steps\<close>

definition setFatal :: "goerr \<Rightarrow> bridge \<Rightarrow> bridge" where
  "setFatal e b = (case b_fatal b of None \<Rightarrow> b\<lparr>b_fatal := Some e\<rparr> | Some _ \<Rightarrow> b)"

text \<open>What \<open>readStdin\<close> returns once the posts are done.\<close>

fun stdinResult :: "why \<Rightarrow> goerr option \<Rightarrow> goerr option" where
  "stdinResult WhyFatal f = f"
| "stdinResult WhyCancelled f = (case f of Some e \<Rightarrow> Some e | None \<Rightarrow> Some CtxErr)"
| "stdinResult (WhyDone d) f =
     (case f of Some e \<Rightarrow> Some e | None \<Rightarrow> (if d = None \<or> d = Some IoEOF then None else d))"

inductive bridge_step :: "source \<Rightarrow> bridge \<Rightarrow> source \<Rightarrow> bridge \<Rightarrow> bool" where
  \<comment> \<open>the adapter\<close>
  take: "b_adapter b = ARunning \<Longrightarrow> b_held b = None \<Longrightarrow> w_lines w = l # ls \<Longrightarrow>
     bridge_step w b (w\<lparr>w_lines := ls\<rparr>) (b\<lparr>b_held := Some l\<rparr>)"
| eof: "b_adapter b = ARunning \<Longrightarrow> b_held b = None \<Longrightarrow> w_lines w = [] \<Longrightarrow> \<not> w_open w \<Longrightarrow>
     bridge_step w b w (b\<lparr>b_doneCh := Some (Some IoEOF), b_adapter := AEnding\<rparr>)"
| put: "b_adapter b = ARunning \<Longrightarrow> b_held b = Some l \<Longrightarrow> length (b_out b) < outCap \<Longrightarrow>
     bridge_step w b w (b\<lparr>b_held := None, b_out := b_out b @ [l]\<rparr>)"
| quit_fatal: "b_adapter b = ARunning \<Longrightarrow> b_fatal b \<noteq> None \<Longrightarrow>
     bridge_step w b w (b\<lparr>b_held := None, b_doneCh := Some None, b_adapter := AEnding\<rparr>)"
| quit_cancel: "b_adapter b = ARunning \<Longrightarrow> w_cancelled w \<Longrightarrow>
     bridge_step w b w (b\<lparr>b_held := None, b_doneCh := Some (Some CtxErr), b_adapter := AEnding\<rparr>)"
| close_out: "b_adapter b = AEnding \<Longrightarrow> bridge_step w b w (b\<lparr>b_adapter := AClosed\<rparr>)"
  \<comment> \<open>the main loop\<close>
| receive: "b_main b = MLoop \<Longrightarrow> b_out b = l # ls \<Longrightarrow> bridge_step w b w (b\<lparr>b_out := ls, b_main := MDispatch l\<rparr>)"
| see_closed: "b_main b = MLoop \<Longrightarrow> b_out b = [] \<Longrightarrow> b_adapter b = AClosed \<Longrightarrow> bridge_step w b w b"
| see_done: "b_main b = MLoop \<Longrightarrow> b_doneCh b = Some d \<Longrightarrow>
     bridge_step w b w (b\<lparr>b_doneCh := None, b_main := MWait (WhyDone d)\<rparr>)"
| see_fatal: "b_main b = MLoop \<Longrightarrow> b_fatal b \<noteq> None \<Longrightarrow> bridge_step w b w (b\<lparr>b_main := MWait WhyFatal\<rparr>)"
| see_cancel: "b_main b = MLoop \<Longrightarrow> w_cancelled w \<Longrightarrow> bridge_step w b w (b\<lparr>b_main := MWait WhyCancelled\<rparr>)"
| return: "b_main b = MWait y \<Longrightarrow> b_inflight b = 0 \<Longrightarrow>
     bridge_step w b w (b\<lparr>b_main := MReturned (stdinResult y (b_fatal b))\<rparr>)"
  \<comment> \<open>dispatch and the posts; a request fails with the error of the context only if that is cancelled\<close>
| dispatch: "b_main b = MDispatch l \<Longrightarrow> b_inflight b < maxInFlight \<Longrightarrow>
     bridge_step w b w (b\<lparr>b_main := MLoop, b_inflight := Suc (b_inflight b), b_started := b_started b @ [l]\<rparr>)"
| drop: "b_main b = MDispatch l \<Longrightarrow> b_fatal b \<noteq> None \<or> w_cancelled w \<Longrightarrow> bridge_step w b w (b\<lparr>b_main := MLoop\<rparr>)"
| post_ok: "b_inflight b = Suc n \<Longrightarrow> bridge_step w b w (b\<lparr>b_inflight := n\<rparr>)"
| post_fail: "b_inflight b = Suc n \<Longrightarrow> postOne reply = Some e \<Longrightarrow> w_cancelled w \<or> \<not> ctxReply reply \<Longrightarrow>
     bridge_step w b w (setFatal e (b\<lparr>b_inflight := n\<rparr>))"

text \<open>Standard input, a signal, and another attach after the event stream failed; the old \<open>readStdin\<close> goes on.\<close>

inductive launch_step :: "source \<times> bridge list \<Rightarrow> source \<times> bridge list \<Rightarrow> bool" where
  bridge: "bridge_step w b w' b' \<Longrightarrow> launch_step (w, xs @ b # ys) (w', xs @ b' # ys)"
| line: "w_open w \<Longrightarrow> launch_step (w, bs) (w\<lparr>w_lines := w_lines w @ [l], w_given := w_given w @ [l]\<rparr>, bs)"
| stdin_end: "launch_step (w, bs) (w\<lparr>w_open := False\<rparr>, bs)"
| signal: "launch_step (w, bs) (w\<lparr>w_cancelled := True\<rparr>, bs)"
| attach: "launch_step (w, bs) (w, bs @ [newBridge])"

inductive_cases bridge_stepE: "bridge_step w b w' b'"
inductive_cases launch_stepE: "launch_step s t"

definition launchStart :: "source \<times> bridge list \<Rightarrow> bool" where
  "launchStart s \<longleftrightarrow> s = (\<lparr>w_lines = [], w_open = True, w_given = [], w_cancelled = False\<rparr>, [])"

section \<open>What holds of every interleaving\<close>

definition pendingOf :: "bridge \<Rightarrow> string list" where
  "pendingOf b = (case b_main b of MDispatch l \<Rightarrow> [l] | _ \<Rightarrow> [])"

definition heldOf :: "bridge \<Rightarrow> string list" where
  "heldOf b = (case b_held b of Some l \<Rightarrow> [l] | None \<Rightarrow> [])"

definition contents :: "bridge \<Rightarrow> string list" where
  "contents b = b_started b @ pendingOf b @ b_out b @ heldOf b"

definition bridge_ok :: "bridge \<Rightarrow> bool" where
  "bridge_ok b \<longleftrightarrow> length (b_out b) \<le> outCap \<and> b_inflight b \<le> maxInFlight \<and> (b_adapter b \<noteq> ARunning \<longrightarrow> b_held b = None)"

text \<open>Why an attach that nothing disturbed is at its end: the input ended and the adapter has handed over every line.\<close>

definition undisturbed :: "source \<Rightarrow> bridge \<Rightarrow> bool" where
  "undisturbed w b \<longleftrightarrow> \<not> w_cancelled w \<and> b_fatal b = None"

definition handedOver :: "source \<Rightarrow> bridge \<Rightarrow> bool" where
  "handedOver w b \<longleftrightarrow> b_adapter b \<noteq> ARunning \<and> \<not> w_open w \<and> w_lines w = [] \<and> b_held b = None"

definition end_ok :: "source \<Rightarrow> bridge \<Rightarrow> bool" where
  "end_ok w b \<longleftrightarrow> (undisturbed w b \<and>
     (b_adapter b \<noteq> ARunning \<or> b_doneCh b \<noteq> None \<or> (case b_main b of MWait y \<Rightarrow> True | MReturned r \<Rightarrow> True | _ \<Rightarrow> False)) \<longrightarrow>
     handedOver w b)"

lemma setFatal_simps [simp]:
  "b_held (setFatal e b) = b_held b" "b_out (setFatal e b) = b_out b" "b_adapter (setFatal e b) = b_adapter b"
  "b_inflight (setFatal e b) = b_inflight b" "b_started (setFatal e b) = b_started b" "b_main (setFatal e b) = b_main b"
  "b_fatal (setFatal e b) \<noteq> None"
  by (auto simp: setFatal_def split: option.splits)

lemma bridge_step_ok: "bridge_step w b w' b' \<Longrightarrow> bridge_ok b \<Longrightarrow> bridge_ok b'"
  by (induction rule: bridge_step.induct) (auto simp: bridge_ok_def)

lemma bridge_step_lines:
  assumes "bridge_step w b w' b'"
  shows "subseq (contents b' @ w_lines w') (contents b @ w_lines w)" "w_given w' = w_given w" "w_cancelled w' = w_cancelled w"
    and "undisturbed w b \<Longrightarrow> contents b' @ w_lines w' = contents b @ w_lines w"
    and "b_fatal b' = None \<Longrightarrow> b_fatal b = None"
  using assms
  by (induction rule: bridge_step.induct)
    (auto simp: contents_def pendingOf_def heldOf_def undisturbed_def setFatal_def split: option.splits main_state.splits
      intro!: list_emb_append_mono)

lemma end_ok_bridge: "bridge_step w b w' b' \<Longrightarrow> end_ok w b \<Longrightarrow> end_ok w' b'"
  by (induction rule: bridge_step.induct)
    (auto simp: end_ok_def handedOver_def undisturbed_def split: main_state.splits)

lemma end_ok_source:
  assumes "end_ok w b" and "w_open w' \<Longrightarrow> w_open w" and "\<not> w_open w \<Longrightarrow> w_lines w = [] \<Longrightarrow> w_lines w' = []"
    and "w_cancelled w \<Longrightarrow> w_cancelled w'"
  shows "end_ok w' b"
  using assms unfolding end_ok_def handedOver_def undisturbed_def by blast

lemma bridge_step_source:
  assumes "bridge_step w b w' b'"
  shows "w_open w' = w_open w" "w_lines w = [] \<Longrightarrow> w_lines w' = []"
  using assms by (induction rule: bridge_step.induct) auto

definition taken :: "bridge list \<Rightarrow> string multiset" where
  "taken bs = sum_list (map (\<lambda>b. mset (contents b)) bs)"

fun launch_inv :: "source \<times> bridge list \<Rightarrow> bool" where
  "launch_inv (w, bs) \<longleftrightarrow>
     (\<forall>b \<in> set bs. bridge_ok b \<and> end_ok w b) \<and> taken bs + mset (w_lines w) \<subseteq># mset (w_given w) \<and>
     (bs = [] \<longrightarrow> w_lines w = w_given w) \<and>
     (\<forall>b. bs = [b] \<longrightarrow> subseq (contents b @ w_lines w) (w_given w) \<and>
        (undisturbed w b \<longrightarrow> contents b @ w_lines w = w_given w))"

lemma contents_new [simp]: "contents newBridge = []" "bridge_ok newBridge" "end_ok w newBridge"
  by (simp_all add: contents_def pendingOf_def heldOf_def newBridge_def bridge_ok_def end_ok_def)

lemma subseq_mset: "subseq xs ys \<Longrightarrow> mset xs \<subseteq># mset ys"
  by (induction rule: list_emb.induct) (auto intro: subset_mset.order_trans)

lemma inv_bridge:
  assumes inv: "launch_inv (w, xs @ b # ys)" and st: "bridge_step w b w' b'"
  shows "launch_inv (w', xs @ b' # ys)"
proof -
  note l = bridge_step_lines [OF st]
  have "mset (contents b') + mset (w_lines w') \<subseteq># mset (contents b) + mset (w_lines w)"
    using subseq_mset [OF l(1)] by simp
  then have "taken (xs @ b' # ys) + mset (w_lines w') \<subseteq># taken (xs @ b # ys) + mset (w_lines w)"
    by (simp add: taken_def ac_simps subset_mset.add_left_mono)
  then have "taken (xs @ b' # ys) + mset (w_lines w') \<subseteq># mset (w_given w')"
    using inv l(2) by (auto intro: subset_mset.order_trans)
  moreover have "bridge_ok b'" "end_ok w' b'" using bridge_step_ok [OF st] end_ok_bridge [OF st] inv by simp_all
  moreover have "end_ok w' x" if "end_ok w x" for x
    by (rule end_ok_source [OF that]) (use bridge_step_source [OF st] l(3) in auto)
  moreover have "undisturbed w b" if "undisturbed w' b'" using that l(3,5) by (auto simp: undisturbed_def)
  ultimately show ?thesis
    using inv l(1,2,4) by (cases "xs = [] \<and> ys = []") (auto intro: subseq_order.trans simp: append_eq_Cons_conv)
qed

interpretation launch_sys: step_system launchStart launch_step launch_inv
proof
  show "launch_inv s" if "launchStart s" for s using that by (auto simp: launchStart_def taken_def)
  show "launch_inv t" if "launch_inv s" "launch_step s t" for s t
    using that(2,1)
  proof (induction rule: launch_step.induct)
    case (bridge w b w' b' xs ys)
    then show ?case by (blast intro: inv_bridge)
  next
    case (line w bs l)
    have "subseq (xs @ [l]) (ys @ [l])" if "subseq xs ys" for xs ys :: "string list"
      using that by (rule list_emb_append_mono) simp
    then have "subseq (contents b @ w_lines w @ [l]) (w_given w @ [l])" if "subseq (contents b @ w_lines w) (w_given w)" for b
      using that by (metis append_assoc)
    moreover have "end_ok (w\<lparr>w_lines := w_lines w @ [l], w_given := w_given w @ [l]\<rparr>) b" if "end_ok w b" for b
      by (rule end_ok_source [OF that]) (use line in auto)
    ultimately show ?case using line by (auto simp: undisturbed_def)
  next
    case (attach w bs)
    then show ?case by (auto simp: taken_def undisturbed_def append_eq_Cons_conv)
  next
    case (stdin_end w bs)
    have "end_ok (w\<lparr>w_open := False\<rparr>) b" if "end_ok w b" for b by (rule end_ok_source [OF that]) auto
    then show ?case using stdin_end by (auto simp: undisturbed_def)
  next
    case (signal w bs)
    have "end_ok (w\<lparr>w_cancelled := True\<rparr>) b" if "end_ok w b" for b by (rule end_ok_source [OF that]) auto
    then show ?case using signal by (auto simp: undisturbed_def)
  qed
qed

lemma undisturbed_lines:
  assumes "undisturbed w b" and "contents b @ w_lines w = w_given w" and "end_ok w b"
  shows "case b_main b of
      MLoop \<Rightarrow> w_given w = b_started b @ b_out b @ heldOf b @ w_lines w
    | MDispatch l \<Rightarrow> w_given w = b_started b @ l # b_out b @ heldOf b @ w_lines w
    | MWait y \<Rightarrow> \<not> w_open w \<and> w_given w = b_started b @ b_out b
    | MReturned r \<Rightarrow> \<not> w_open w \<and> w_given w = b_started b @ b_out b"
  using assms(3) unfolding assms(2) [symmetric]
  by (cases "b_main b") (simp_all add: assms(1) end_ok_def handedOver_def contents_def pendingOf_def heldOf_def)

text \<open>C19. From standard input to the daemon, in every interleaving of the reader, the adapters, the main loops and the posts, over any
  number of attaches: a post is started for no line twice and for none that was not read, a channel never holds more than 16 lines
  and no more than 128 posts are in flight.  While there has been one attach, the posts are started in the order of the input (they
  then run in parallel, so their requests may arrive in any order).  If moreover no post failed and the context is not cancelled,
  then as long as the main loop runs no line is missing: each was started, is in hand or in one of the channels; and when it has left
  the loop, the input has ended and the lines that no post was started for are exactly those left in the channel of the adapter, the
  last ones and at most 16.\<close>

theorem stdin_in_order:
  assumes "launchStart s" and "steps_to launch_step s (w, bs)"
  shows "(\<forall>b \<in> set bs. length (b_out b) \<le> 16 \<and> b_inflight b \<le> 128) \<and>
    sum_list (map (\<lambda>b. mset (b_started b)) bs) \<subseteq># mset (w_given w) \<and>
    (\<forall>b. bs = [b] \<longrightarrow> subseq (b_started b) (w_given w) \<and>
       (\<not> w_cancelled w \<and> b_fatal b = None \<longrightarrow>
          (case b_main b of
             MLoop \<Rightarrow> w_given w = b_started b @ b_out b @ heldOf b @ w_lines w
           | MDispatch l \<Rightarrow> w_given w = b_started b @ l # b_out b @ heldOf b @ w_lines w
           | MWait y \<Rightarrow> \<not> w_open w \<and> w_given w = b_started b @ b_out b
           | MReturned r \<Rightarrow> \<not> w_open w \<and> w_given w = b_started b @ b_out b)))"
proof -
  have inv: "launch_inv (w, bs)" by (rule launch_sys.inv_reachable [OF assms])
  have "sum_list (map (\<lambda>b. mset (b_started b)) bs) \<subseteq># taken bs"
    unfolding taken_def by (induction bs) (simp_all add: contents_def subset_mset.add_mono)
  also have "taken bs \<subseteq># taken bs + mset (w_lines w)" by simp
  also have "\<dots> \<subseteq># mset (w_given w)" using inv by simp
  finally have "sum_list (map (\<lambda>b. mset (b_started b)) bs) \<subseteq># mset (w_given w)" .
  moreover have "subseq (b_started b) (w_given w)" if "bs = [b]" for b
  proof -
    have "subseq (b_started b) (contents b @ w_lines w)" by (auto simp: contents_def)
    then show ?thesis using inv that by (auto intro: subseq_order.trans)
  qed
  moreover have "case b_main b of
             MLoop \<Rightarrow> w_given w = b_started b @ b_out b @ heldOf b @ w_lines w
           | MDispatch l \<Rightarrow> w_given w = b_started b @ l # b_out b @ heldOf b @ w_lines w
           | MWait y \<Rightarrow> \<not> w_open w \<and> w_given w = b_started b @ b_out b
           | MReturned r \<Rightarrow> \<not> w_open w \<and> w_given w = b_started b @ b_out b" if "bs = [b]" "\<not> w_cancelled w \<and> b_fatal b = None" for b
    using inv that by (intro undisturbed_lines) (simp_all add: undisturbed_def)
  moreover have "\<forall>b \<in> set bs. length (b_out b) \<le> 16 \<and> b_inflight b \<le> 128"
    using inv by (simp add: bridge_ok_def outCap_def maxInFlight_def)
  ultimately show ?thesis by blast
qed

section \<open>Lines that are lost\<close>

definition launchInit :: "source \<times> bridge list" where
  "launchInit = (\<lparr>w_lines = [], w_open = True, w_given = [], w_cancelled = False\<rparr>, [])"

definition given1 :: "string \<Rightarrow> bool \<Rightarrow> string list \<Rightarrow> source" where
  "given1 l opened ls = \<lparr>w_lines = ls, w_open = opened, w_given = [l], w_cancelled = False\<rparr>"

lemma step_bridge_at: "bridge_step w b w' b' \<Longrightarrow> steps_to launch_step s (w, xs @ b # ys) \<Longrightarrow> steps_to launch_step s (w', xs @ b' # ys)"
  by (blast intro: steps_snoc launch_step.bridge)

lemma step_first: "bridge_step w b w' b' \<Longrightarrow> steps_to launch_step s (w, b # ys) \<Longrightarrow> steps_to launch_step s (w', b' # ys)"
  using step_bridge_at [of w b w' b' s "[]" ys] by simp

lemma reach_line:
  "steps_to launch_step launchInit (given1 l True [l], [newBridge])"
proof -
  have "steps_to launch_step launchInit (fst launchInit, [newBridge])"
    using launch_step.attach [of "fst launchInit" "[]"] by (intro steps_one) (simp add: launchInit_def)
  moreover have "launch_step (fst launchInit, [newBridge]) (given1 l True [l], [newBridge])"
    using launch_step.line [of "fst launchInit" "[newBridge]" l] by (simp add: launchInit_def given1_def)
  ultimately show ?thesis by (rule steps_snoc)
qed

text \<open>
  The adapter reports the end of the input before the main loop has taken the last lines out of the channel; the loop may see
  the end first, and returns as after a clean end with lines that no post was started for.
\<close>

theorem stdin_end_loses_line:
  "\<exists>w b. steps_to launch_step launchInit (w, [b]) \<and> b_main b = MReturned None \<and> \<not> w_cancelled w \<and> b_fatal b = None \<and>
     w_given w = [l] \<and> b_started b = []"
proof -
  let ?w = "given1 l True [l]" and ?e = "given1 l False []" and ?b = newBridge
  have "launch_step (?w, [?b]) (given1 l False [l], [?b])"
    using launch_step.stdin_end [of ?w "[?b]"] by (simp add: given1_def)
  with reach_line have "steps_to launch_step launchInit (given1 l False [l], [?b])" by (rule steps_snoc)
  moreover have "bridge_step (given1 l False [l]) ?b ?e (?b\<lparr>b_held := Some l\<rparr>)"
    using take [of ?b "given1 l False [l]" l "[]"] by (simp add: newBridge_def given1_def)
  ultimately have "steps_to launch_step launchInit (?e, [?b\<lparr>b_held := Some l\<rparr>])" by (rule step_first [rotated])
  moreover have "bridge_step ?e (?b\<lparr>b_held := Some l\<rparr>) ?e (?b\<lparr>b_out := [l]\<rparr>)"
    using put [of "?b\<lparr>b_held := Some l\<rparr>" l ?e] by (simp add: newBridge_def outCap_def)
  ultimately have "steps_to launch_step launchInit (?e, [?b\<lparr>b_out := [l]\<rparr>])" by (rule step_first [rotated])
  moreover have "bridge_step ?e (?b\<lparr>b_out := [l]\<rparr>) ?e (?b\<lparr>b_out := [l], b_doneCh := Some (Some IoEOF), b_adapter := AEnding\<rparr>)"
    using eof [of "?b\<lparr>b_out := [l]\<rparr>" ?e] by (simp add: newBridge_def given1_def)
  ultimately have "steps_to launch_step launchInit (?e, [?b\<lparr>b_out := [l], b_doneCh := Some (Some IoEOF), b_adapter := AEnding\<rparr>])"
    by (rule step_first [rotated])
  moreover have "bridge_step ?e (?b\<lparr>b_out := [l], b_doneCh := Some (Some IoEOF), b_adapter := AEnding\<rparr>) ?e
      (?b\<lparr>b_out := [l], b_adapter := AEnding, b_main := MWait (WhyDone (Some IoEOF))\<rparr>)"
    using see_done [of "?b\<lparr>b_out := [l], b_doneCh := Some (Some IoEOF), b_adapter := AEnding\<rparr>" "Some IoEOF" ?e]
    by (simp add: newBridge_def)
  ultimately have "steps_to launch_step launchInit (?e, [?b\<lparr>b_out := [l], b_adapter := AEnding, b_main := MWait (WhyDone (Some IoEOF))\<rparr>])"
    by (rule step_first [rotated])
  moreover have "bridge_step ?e (?b\<lparr>b_out := [l], b_adapter := AEnding, b_main := MWait (WhyDone (Some IoEOF))\<rparr>) ?e
      (?b\<lparr>b_out := [l], b_adapter := AEnding, b_main := MReturned None\<rparr>)"
    using return [of "?b\<lparr>b_out := [l], b_adapter := AEnding, b_main := MWait (WhyDone (Some IoEOF))\<rparr>" _ ?e] by (simp add: newBridge_def)
  ultimately have "steps_to launch_step launchInit (?e, [?b\<lparr>b_out := [l], b_adapter := AEnding, b_main := MReturned None\<rparr>])"
    by (rule step_first [rotated])
  then show ?thesis by (intro exI conjI, assumption) (simp_all add: newBridge_def given1_def)
qed

text \<open>
  After the event stream failed and the launcher attached again, the adapter of the old attach still takes lines: here it takes the
  line and posts it to the daemon that is gone, and the new one never sees it.
\<close>

theorem stale_reader_takes_line:
  "\<exists>w b. steps_to launch_step launchInit (w, [b, newBridge]) \<and> w_given w = [l] \<and> w_lines w = [] \<and> b_started b = [l] \<and>
     b_fatal b \<noteq> None"
proof -
  let ?e = "given1 l True []" and ?b = newBridge
  have "launch_step (given1 l True [l], [?b]) (given1 l True [l], [?b, newBridge])"
    using launch_step.attach [of "given1 l True [l]" "[?b]"] by simp
  with reach_line have "steps_to launch_step launchInit (given1 l True [l], [?b, newBridge])" by (rule steps_snoc)
  moreover have "bridge_step (given1 l True [l]) ?b ?e (?b\<lparr>b_held := Some l\<rparr>)"
    using take [of ?b "given1 l True [l]" l "[]"] by (simp add: newBridge_def given1_def)
  ultimately have "steps_to launch_step launchInit (?e, [?b\<lparr>b_held := Some l\<rparr>, newBridge])" by (rule step_first [rotated])
  moreover have "bridge_step ?e (?b\<lparr>b_held := Some l\<rparr>) ?e (?b\<lparr>b_out := [l]\<rparr>)"
    using put [of "?b\<lparr>b_held := Some l\<rparr>" l ?e] by (simp add: newBridge_def outCap_def)
  ultimately have "steps_to launch_step launchInit (?e, [?b\<lparr>b_out := [l]\<rparr>, newBridge])" by (rule step_first [rotated])
  moreover have "bridge_step ?e (?b\<lparr>b_out := [l]\<rparr>) ?e (?b\<lparr>b_main := MDispatch l\<rparr>)"
    using receive [of "?b\<lparr>b_out := [l]\<rparr>" l "[]" ?e] by (simp add: newBridge_def)
  ultimately have "steps_to launch_step launchInit (?e, [?b\<lparr>b_main := MDispatch l\<rparr>, newBridge])" by (rule step_first [rotated])
  moreover have "bridge_step ?e (?b\<lparr>b_main := MDispatch l\<rparr>) ?e (?b\<lparr>b_inflight := 1, b_started := [l]\<rparr>)"
    using dispatch [of "?b\<lparr>b_main := MDispatch l\<rparr>" l ?e] by (simp add: newBridge_def maxInFlight_def)
  ultimately have "steps_to launch_step launchInit (?e, [?b\<lparr>b_inflight := 1, b_started := [l]\<rparr>, newBridge])"
    by (rule step_first [rotated])
  moreover have "bridge_step ?e (?b\<lparr>b_inflight := 1, b_started := [l]\<rparr>) ?e
      (setFatal (Wrapf ''post message: %w'' [] (ExtErr ''refused'')) (?b\<lparr>b_inflight := 0, b_started := [l]\<rparr>))"
    using post_fail [of "?b\<lparr>b_inflight := 1, b_started := [l]\<rparr>" 0 "Inl (ExtErr ''refused'')" _ ?e] by (simp add: newBridge_def postOne_def)
  ultimately have "steps_to launch_step launchInit
      (?e, [setFatal (Wrapf ''post message: %w'' [] (ExtErr ''refused'')) (?b\<lparr>b_inflight := 0, b_started := [l]\<rparr>), newBridge])"
    by (rule step_first [rotated])
  then show ?thesis by (intro exI conjI, assumption) (simp_all add: given1_def setFatal_def newBridge_def)
qed

theorem stdin_in_order_witness:
  "\<exists>w b. steps_to launch_step launchInit (w, [b]) \<and> w_given w = [''x''] \<and> b_main b = MLoop \<and>
     w_given w = b_started b @ b_out b @ heldOf b @ w_lines w"
proof -
  have "launchStart launchInit" by (simp add: launchStart_def launchInit_def)
  from stdin_in_order [OF this reach_line [of "''x''"]] show ?thesis
    by (intro exI [of _ "given1 ''x'' True [''x'']"] exI [of _ newBridge] conjI reach_line)
      (simp_all add: given1_def newBridge_def)
qed

end
