(* ===== verification/ProxyRun.thy ===== *)
theory ProxyRun
  imports LauncherStdin
begin

text \<open>
  One attach to the daemon: \<open>Proxy.Run\<close> (\<open>internal/launcher/proxy.go\<close>) with its watchdog, how the loop of the launcher's main takes
  its result, and how standard input is cut into lines.
\<close>

section \<open>Run\<close>

text \<open>What the first \<open>select\<close> gets (at that point only the reader of the stream can send an error), and the second.\<close>

datatype first_select = GotEndpoint string | StreamFailed goerr | EndpointTimeout | FirstCancelled

datatype second_select = StreamEnded goerr | StdinEnded "goerr option" | SecondCancelled

record attach =
  a_request :: "goerr option"
  a_reply :: "nat res"
  a_first :: first_select
  a_second :: second_select

definition sseURL :: "string \<Rightarrow> string" where
  "sseURL base = rev (dropWhile (\<lambda>c. c = CHR ''/'') (rev base)) @ ''/sse''"

text \<open>The result, and the address for the posts if it comes to that.\<close>

definition proxyRun :: "(string \<Rightarrow> string \<Rightarrow> string option) \<Rightarrow> string \<Rightarrow> attach \<Rightarrow> goerr option \<times> string option" where
  "proxyRun resolve base a =
     (case a_request a of
        Some e \<Rightarrow> (Some e, None)
      | None \<Rightarrow>
          (case a_reply a of
             Inl e \<Rightarrow> (Some (Wrapf ''open sse: %w'' [] e), None)
           | Inr code \<Rightarrow>
               (case sseStatus code of
                  Some e \<Rightarrow> (Some e, None)
                | None \<Rightarrow>
                    (case a_first a of
                       StreamFailed e \<Rightarrow> (Some e, None)
                     | EndpointTimeout \<Rightarrow> (Some (Errorf ''timed out waiting for sse endpoint event'' []), None)
                     | FirstCancelled \<Rightarrow> (Some CtxErr, None)
                     | GotEndpoint u \<Rightarrow>
                         ((case a_second a of
                             SecondCancelled \<Rightarrow> Some CtxErr
                           | StreamEnded e \<Rightarrow> Some e
                           | StdinEnded r \<Rightarrow> r), Some (resolveURL resolve base u))))))"

definition attemptOf :: "goerr option \<Rightarrow> nat \<Rightarrow> attempt" where
  "attemptOf r ms = (case r of None \<Rightarrow> RunDone | Some e \<Rightarrow> if isCancelled e then RunCancelled else RunFailed ms)"

section \<open>The watchdog\<close>

text \<open>At each tick, in milliseconds: the time and when the last byte was seen. The body is closed at the first tick that is more than
  45 seconds after it.\<close>

definition idleLimit :: nat where
  "idleLimit = 45000"

definition watchTick :: nat where
  "watchTick = 5000"

fun watchdog :: "(nat \<times> nat) list \<Rightarrow> nat option" where
  "watchdog [] = None"
| "watchdog ((now, last_seen) # ts) = (if now - last_seen > idleLimit then Some now else watchdog ts)"

text \<open>A stream that sends something at least every 45 seconds is left alone; one that falls silent is closed within 50 seconds.\<close>

lemma watchdog_patient: "list_all (\<lambda>(now, last_seen). now \<le> last_seen + idleLimit) ts \<Longrightarrow> watchdog ts = None"
  by (induction ts rule: watchdog.induct) auto

lemma ticks_Cons: "m < n \<Longrightarrow> map f [m..<n] = f m # map f [Suc m..<n]"
  by (simp add: upt_conv_Cons)

lemma watchdog_fires:
  assumes "idleLimit < k * watchTick - last_seen" and "k < n" and "m \<le> k"
  shows "\<exists>now. watchdog (map (\<lambda>i. (i * watchTick, last_seen)) [m..<n]) = Some now \<and> now \<le> k * watchTick"
  using assms(3)
proof (induction "k - m" arbitrary: m)
  case 0
  then have "m = k" by simp
  then show ?case using assms(1,2) by (simp add: ticks_Cons)
next
  case (Suc d)
  then have "m < n" "d = k - Suc m" "Suc m \<le> k" using assms(2) by simp_all
  moreover have "m * watchTick \<le> k * watchTick" using Suc.prems by (rule mult_le_mono1)
  ultimately show ?case using Suc.hyps(1) [of "Suc m"] by (simp add: ticks_Cons)
qed

lemma watchdog_in_time:
  assumes "last_seen + idleLimit + watchTick < n * watchTick"
  shows "\<exists>now. watchdog (map (\<lambda>i. (i * watchTick, last_seen)) [0..<n]) = Some now \<and> now \<le> last_seen + idleLimit + watchTick"
proof -
  define k where "k = (last_seen + idleLimit) div watchTick + 1"
  have "k * watchTick = (last_seen + idleLimit) div watchTick * watchTick + watchTick" by (simp add: k_def)
  moreover have "(last_seen + idleLimit) div watchTick * watchTick + (last_seen + idleLimit) mod watchTick = last_seen + idleLimit"
    by (rule div_mult_mod_eq)
  moreover have "(last_seen + idleLimit) mod watchTick < watchTick" by (simp add: watchTick_def)
  ultimately have lo: "last_seen + idleLimit < k * watchTick" and hi: "k * watchTick \<le> last_seen + idleLimit + watchTick" by linarith+
  have "k * watchTick < n * watchTick" using hi assms by linarith
  then have "k < n" by simp
  moreover have "idleLimit < k * watchTick - last_seen" using lo by simp
  ultimately show ?thesis using watchdog_fires [of k last_seen n 0] hi by fastforce
qed

section \<open>Lines\<close>

text \<open>\<open>ReadBytes\<close>: up to and with the next line feed, or what there is.\<close>

primrec readBytesNL :: "string \<Rightarrow> string \<times> string" where
  "readBytesNL [] = ([], [])"
| "readBytesNL (c # s) = (if c = NL then ([c], s) else case readBytesNL s of (l, rest) \<Rightarrow> (c # l, rest))"

lemma readBytesNL_append: "fst (readBytesNL s) @ snd (readBytesNL s) = s"
  by (induction s) (auto split: prod.splits)

lemma readBytesNL_less: "s \<noteq> [] \<Longrightarrow> length (snd (readBytesNL s)) < length s"
proof (induction s)
  case (Cons c s)
  then show ?case by (cases "s = []") (auto split: prod.splits)
qed simp

text \<open>What it reads: bytes that are no line feed, with one at the end unless the input is used up.\<close>

lemma readBytesNL_line:
  "\<exists>p. NL \<notin> set p \<and> (fst (readBytesNL s) = p @ [NL] \<or> fst (readBytesNL s) = p \<and> snd (readBytesNL s) = [])"
proof (induction s)
  case (Cons c s)
  then obtain p where p: "NL \<notin> set p" "fst (readBytesNL s) = p @ [NL] \<or> fst (readBytesNL s) = p \<and> snd (readBytesNL s) = []" by blast
  show ?case
  proof (cases "c = NL")
    case False
    then show ?thesis using p by (intro exI [of _ "c # p"]) (auto split: prod.splits)
  qed (intro exI [of _ "[]"], simp)
qed (intro exI [of _ "[]"], simp)

text \<open>What the goroutine of main puts into the channel for an input that then ends: each line, a last one without a line feed as well.
  The reader for a proxy without a channel skips blank lines.\<close>

function stdinLines :: "string \<Rightarrow> string list" where
  "stdinLines s = (if s = [] then [] else fst (readBytesNL s) # stdinLines (snd (readBytesNL s)))"
  by pat_completeness auto
termination by (relation "measure length") (simp_all add: readBytesNL_less)

declare stdinLines.simps [simp del]

definition localLines :: "string \<Rightarrow> string list" where
  "localLines s = filter (\<lambda>l. trimSpace l \<noteq> []) (stdinLines s)"

text \<open>No byte is lost or added; every line but the last ends with its line feed and has no other, and the last has none elsewhere.\<close>

lemma stdinLines_all: "concat (stdinLines s) = s"
  by (induction s rule: stdinLines.induct) (subst stdinLines.simps, simp add: readBytesNL_append)

lemma stdinLines_Nil [simp]: "stdinLines [] = []"
  by (simp add: stdinLines.simps)

lemma stdinLines_lines:
  "\<exists>ps q. stdinLines s = map (\<lambda>p. p @ [NL]) ps @ (if q = [] then [] else [q]) \<and> NL \<notin> set q \<and> list_all (\<lambda>p. NL \<notin> set p) ps"
proof (induction s rule: stdinLines.induct)
  case (1 s)
  show ?case
  proof (cases "s = []")
    case True
    then show ?thesis by (intro exI [of _ "[]"]) simp
  next
    case False
    obtain p where p: "NL \<notin> set p" "fst (readBytesNL s) = p @ [NL] \<or> fst (readBytesNL s) = p \<and> snd (readBytesNL s) = []"
      using readBytesNL_line by blast
    obtain ps q where r: "stdinLines (snd (readBytesNL s)) = map (\<lambda>p. p @ [NL]) ps @ (if q = [] then [] else [q])"
        "NL \<notin> set q" "list_all (\<lambda>p. NL \<notin> set p) ps"
      using 1 [OF False] by blast
    have step: "stdinLines s = fst (readBytesNL s) # stdinLines (snd (readBytesNL s))" using False by (subst stdinLines.simps) simp
    from p(2) show ?thesis
    proof
      assume "fst (readBytesNL s) = p @ [NL]"
      then show ?thesis using step r p(1) by (intro exI [of _ "p # ps"] exI [of _ q]) simp
    next
      assume l: "fst (readBytesNL s) = p \<and> snd (readBytesNL s) = []"
      then have "p \<noteq> []" using False readBytesNL_append [of s] by auto
      then show ?thesis using step l p(1) by (intro exI [of _ "[]"] exI [of _ p]) simp
    qed
  qed
qed

text \<open>An empty line goes to the daemon as a message of its own, except with the local reader.\<close>

lemma blank_line_sent:
  "stdinLines (''{}'' @ [NL, NL]) = [''{}'' @ [NL], [NL]]" "localLines (''{}'' @ [NL, NL]) = [''{}'' @ [NL]]"
  by code_simp+

section \<open>When the launcher gives up\<close>

text \<open>Why a main loop is on its way out, told by what has happened.\<close>

definition why_ok :: "source \<Rightarrow> bridge \<Rightarrow> goerr option \<Rightarrow> bool" where
  "why_ok w b d \<longleftrightarrow> (d = None \<longrightarrow> b_fatal b \<noteq> None) \<and> (d = Some IoEOF \<longrightarrow> \<not> w_open w) \<and>
     (case d of Some e \<Rightarrow> isCancelled e \<longrightarrow> w_cancelled w | None \<Rightarrow> True)"

definition exit_ok :: "source \<Rightarrow> bridge \<Rightarrow> bool" where
  "exit_ok w b \<longleftrightarrow>
     (case b_fatal b of Some e \<Rightarrow> isCancelled e \<longrightarrow> w_cancelled w | None \<Rightarrow> True) \<and>
     (\<forall>d. b_doneCh b = Some d \<longrightarrow> why_ok w b d) \<and>
     (case b_main b of
        MWait (WhyDone d) \<Rightarrow> why_ok w b d
      | MWait WhyFatal \<Rightarrow> b_fatal b \<noteq> None
      | MWait WhyCancelled \<Rightarrow> w_cancelled w
      | MReturned None \<Rightarrow> \<not> w_open w
      | MReturned (Some e) \<Rightarrow> isCancelled e \<longrightarrow> w_cancelled w
      | _ \<Rightarrow> True)"

lemma exit_bridge:
  assumes "bridge_step w b w' b'" and "exit_ok w b"
  shows "exit_ok w' b'"
  using assms
proof (induction rule: bridge_step.induct)
  case (return b y w)
  then show ?case
    by (cases y) (auto simp: exit_ok_def why_ok_def split: option.splits)
next
  case (post_fail b n reply e w)
  then have "isCancelled e \<longrightarrow> w_cancelled w"
    by (cases reply) (auto simp: postOne_def split: if_splits)
  then show ?case using post_fail(4)
    by (auto simp: exit_ok_def why_ok_def setFatal_def split: option.splits main_state.splits why.splits)
qed (auto simp: exit_ok_def why_ok_def split: option.splits main_state.splits why.splits)

lemma exit_source:
  assumes "exit_ok w b" and "w_open w' \<Longrightarrow> w_open w" and "w_cancelled w \<Longrightarrow> w_cancelled w'"
  shows "exit_ok w' b"
proof -
  have "why_ok w b d \<Longrightarrow> why_ok w' b d" for d using assms(2,3) by (auto simp: why_ok_def split: option.splits)
  then show ?thesis using assms
    by (auto simp: exit_ok_def split: option.splits main_state.splits why.splits)
qed

fun exits_inv :: "source \<times> bridge list \<Rightarrow> bool" where
  "exits_inv (w, bs) \<longleftrightarrow> (\<forall>b \<in> set bs. exit_ok w b)"

interpretation launch_exits: step_system launchStart launch_step exits_inv
proof
  show "exits_inv s" if "launchStart s" for s using that by (auto simp: launchStart_def)
  show "exits_inv t" if "exits_inv s" "launch_step s t" for s t
    using that(2,1)
  proof (induction rule: launch_step.induct)
    case (bridge w b w' b' xs ys)
    then show ?case using exit_bridge [OF bridge(1)] exit_source [of w _ w'] bridge_step_source(1) [OF bridge(1)]
      bridge_step_lines(3) [OF bridge(1)] by auto
  next
    case (line w bs l)
    then show ?case using exit_source [of w _ "w\<lparr>w_lines := w_lines w @ [l], w_given := w_given w @ [l]\<rparr>"] by auto
  next
    case (stdin_end w bs)
    then show ?case using exit_source [of w _ "w\<lparr>w_open := False\<rparr>"] by auto
  next
    case (signal w bs)
    then show ?case using exit_source [of w _ "w\<lparr>w_cancelled := True\<rparr>"] by auto
  next
    case (attach w bs)
    then show ?case by (auto simp: newBridge_def exit_ok_def)
  qed
qed

text \<open>
  What an attach can see, in a state of the goroutines, of a stream that so far gave the bytes \<open>body\<close> and ends with \<open>err\<close>: the address
  and the end of the stream come from its reader, the end of standard input is the result of a \<open>readStdin\<close>, and an error of the
  context is only seen when the context is cancelled.
\<close>

fun attachSees :: "source \<times> bridge list \<Rightarrow> string \<Rightarrow> goerr \<Rightarrow> attach \<Rightarrow> bool" where
  "attachSees (w, bs) body err a \<longleftrightarrow>
     (case a_request a of Some e \<Rightarrow> \<not> isCancelled e | None \<Rightarrow> True) \<and>
     (ctxReply (a_reply a) \<longrightarrow> w_cancelled w) \<and> (isCancelled err \<longrightarrow> w_cancelled w) \<and>
     (case a_first a of
        GotEndpoint u \<Rightarrow> s_endpoint (snd (readSSE body err)) = Some u
      | StreamFailed e \<Rightarrow> e = fst (readSSE body err)
      | EndpointTimeout \<Rightarrow> True
      | FirstCancelled \<Rightarrow> w_cancelled w) \<and>
     (case a_second a of
        StreamEnded e \<Rightarrow> e = fst (readSSE body err)
      | StdinEnded r \<Rightarrow> list_ex (\<lambda>b. b_main b = MReturned r) bs
      | SecondCancelled \<Rightarrow> w_cancelled w)"

text \<open>A failed attempt is retried after a wait, with the shortest wait if the attach lasted more than 30 seconds.\<close>

definition retried :: "nat \<Rightarrow> nat \<Rightarrow> (bool \<times> attempt) list \<Rightarrow> nat list \<times> bool" where
  "retried ms n as =
     (let k = (if ms > 30000 then 0 else n) in (launchWait k # fst (launchLoop (Suc k) as), snd (launchLoop (Suc k) as)))"

lemma readSSE_cancelled: "isCancelled (fst (readSSE body err)) \<Longrightarrow> isCancelled err"
  by (simp add: readSSE_def split: if_splits)

lemma sseStatus_not_cancelled: "sseStatus code = Some e \<Longrightarrow> \<not> isCancelled e"
  by (auto simp: sseStatus_def split: if_splits)

lemma proxyRun_result:
  assumes "attachSees (w, bs) body err a" and "\<And>b. b \<in> set bs \<Longrightarrow> exit_ok w b"
  shows "case fst (proxyRun resolve base a) of None \<Rightarrow> \<not> w_open w | Some e \<Rightarrow> isCancelled e \<longrightarrow> w_cancelled w"
proof -
  have stdin: "case r of None \<Rightarrow> \<not> w_open w | Some e \<Rightarrow> isCancelled e \<longrightarrow> w_cancelled w"
    if ex: "list_ex (\<lambda>b. b_main b = MReturned r) bs" for r
  proof -
    obtain b where "b \<in> set bs" "b_main b = MReturned r" using ex by (auto simp: list_ex_iff)
    then show ?thesis using assms(2) [of b] by (cases r) (simp_all add: exit_ok_def)
  qed
  have stream: "isCancelled (fst (readSSE body err)) \<longrightarrow> w_cancelled w"
    using assms(1) readSSE_cancelled [of body err] by auto
  show ?thesis
  proof (cases "a_request a")
    case (Some e)
    then show ?thesis using assms(1) by (simp add: proxyRun_def)
  next
    case r: None
    show ?thesis
    proof (cases "a_reply a")
      case (Inl e)
      then show ?thesis using assms(1) r by (simp add: proxyRun_def)
    next
      case (Inr code)
      then show ?thesis using assms(1) r stdin [of None] stdin [of "Some e" for e] stream sseStatus_not_cancelled [of code]
        by (cases "a_first a"; cases "a_second a") (auto simp: proxyRun_def split: option.splits)
    qed
  qed
qed

text \<open>
  C21. The launcher gives up only when its input has ended or it was told to stop.  Whatever the daemon, the event stream, the posts and
  earlier attaches did, an attach whose result the loop takes as done (a nil result) means that standard input was closed, and one that
  it takes as cancelled means that the context really is cancelled; every other end, such as a refused token, the end of the
  event stream, a failed post, a silent connection or a daemon that cannot be had, is a failure and is retried after a wait.  So
  while the input is open and nobody cancelled, every attach that ends is followed by another.
\<close>

theorem launcher_gives_up_at_end_of_input:
  assumes "launchStart s" and "steps_to launch_step s (w, bs)" and "attachSees (w, bs) body err a"
    and "att = attemptOf (fst (proxyRun resolve base a)) ms"
  shows "(case att of RunDone \<Rightarrow> \<not> w_open w | RunCancelled \<Rightarrow> w_cancelled w | RunFailed t \<Rightarrow> t = ms | NoDaemon \<Rightarrow> False) \<and>
    launchLoop n ((False, att) # as) = (if att = RunDone \<or> att = RunCancelled then ([], True) else retried ms n as) \<and>
    (w_open w \<and> \<not> w_cancelled w \<longrightarrow> launchLoop n ((False, att) # as) = retried ms n as) \<and>
    launchLoop n ((False, NoDaemon) # as) = retried 0 n as"
proof -
  have "\<And>b. b \<in> set bs \<Longrightarrow> exit_ok w b" using launch_exits.inv_reachable [OF assms(1,2)] by simp
  note res = proxyRun_result [OF assms(3) this, of resolve base]
  have att: "case att of RunDone \<Rightarrow> \<not> w_open w | RunCancelled \<Rightarrow> w_cancelled w | RunFailed t \<Rightarrow> t = ms | NoDaemon \<Rightarrow> False"
    using res unfolding assms(4) by (simp add: attemptOf_def split: option.splits)
  moreover have "launchLoop n ((False, RunFailed ms) # as) = retried ms n as" "launchLoop n ((False, NoDaemon) # as) = retried 0 n as"
    by (simp_all add: retried_def stableThreshold_def Let_def split: prod.splits)
  ultimately show ?thesis by (cases att) simp_all
qed

definition endOfInput :: attach where
  "endOfInput = \<lparr>a_request = None, a_reply = Inr 200, a_first = GotEndpoint ''/message'', a_second = StdinEnded None\<rparr>"

lemma reach_end:
  "steps_to launch_step launchInit (fst launchInit\<lparr>w_open := False\<rparr>, [newBridge\<lparr>b_adapter := AEnding, b_main := MReturned None\<rparr>])"
proof -
  let ?w = "fst launchInit\<lparr>w_open := False\<rparr>" and ?b = newBridge
  let ?b1 = "?b\<lparr>b_doneCh := Some (Some IoEOF), b_adapter := AEnding\<rparr>"
  let ?b2 = "?b\<lparr>b_adapter := AEnding, b_main := MWait (WhyDone (Some IoEOF))\<rparr>"
  have "steps_to launch_step launchInit (fst launchInit, [?b])"
    using launch_step.attach [of "fst launchInit" "[]"] by (intro steps_one) (simp add: launchInit_def)
  moreover have "launch_step (fst launchInit, [?b]) (?w, [?b])" by (rule launch_step.stdin_end)
  ultimately have "steps_to launch_step launchInit (?w, [?b])" by (rule steps_snoc)
  moreover have "bridge_step ?w ?b ?w ?b1" using eof [of ?b ?w] by (simp add: newBridge_def launchInit_def)
  ultimately have "steps_to launch_step launchInit (?w, [?b1])" by (rule step_first [rotated])
  moreover have "bridge_step ?w ?b1 ?w ?b2" using see_done [of ?b1 "Some IoEOF" ?w] by (simp add: newBridge_def)
  ultimately have "steps_to launch_step launchInit (?w, [?b2])" by (rule step_first [rotated])
  moreover have "bridge_step ?w ?b2 ?w (?b\<lparr>b_adapter := AEnding, b_main := MReturned None\<rparr>)"
    using return [of ?b2 _ ?w] by (simp add: newBridge_def)
  ultimately show ?thesis by (rule step_first [rotated])
qed

theorem launcher_gives_up_at_end_of_input_witness:
  "launchStart launchInit \<and> attemptOf (fst (proxyRun (\<lambda>b u. None) ''http://x'' endOfInput)) 7 = RunDone \<and>
   launchLoop 3 [(False, attemptOf (fst (proxyRun (\<lambda>b u. None) ''http://x'' endOfInput)) 7)] = ([], True) \<and>
   \<not> w_open (fst launchInit\<lparr>w_open := False\<rparr>)"
proof -
  let ?b = "newBridge\<lparr>b_adapter := AEnding, b_main := MReturned None\<rparr>"
  have start: "launchStart launchInit" by (simp add: launchStart_def launchInit_def)
  have run: "attemptOf (fst (proxyRun (\<lambda>b u. None) ''http://x'' endOfInput)) 7 = RunDone"
    by (simp add: attemptOf_def proxyRun_def endOfInput_def sseStatus_def)
  have "s_endpoint (snd (readSSE (sseEncode ''endpoint'' ''/message'') IoEOF)) = Some ''/message''" by code_simp
  then have sees: "attachSees (fst launchInit\<lparr>w_open := False\<rparr>, [?b]) (sseEncode ''endpoint'' ''/message'') IoEOF endOfInput"
    by (simp add: endOfInput_def)
  show ?thesis
    using launcher_gives_up_at_end_of_input [OF start reach_end sees refl, where resolve = "\<lambda>b u. None" and base = "''http://x''" and ms = 7
        and n = 3 and as = "[]"] start
    by (simp add: run)
qed

end
