(* ===== verification/Spawn.thy ===== *)
theory Spawn
  imports StateProps GoPath
begin

text \<open>
  Finding or starting the daemon: the handle file and the lock file's pid (\<open>internal/daemon/handle.go\<close>, \<open>lock.go\<close>) and
  \<open>internal/launcher/spawn.go\<close> (Unix).  Other processes act meanwhile, so what a call sees is the outside world's answer at that
  moment; the functions also tell what they did to the outside: files removed, signals sent, a daemon started.
\<close>

section \<open>handle.go\<close>

record Handle =
  ha_Addr :: string
  ha_Token :: string
  ha_PID :: int

text \<open>\<open>json.Marshal\<close> and \<open>json.Unmarshal\<close> on a handle.\<close>

record hcodec =
  hc_enc :: "Handle \<Rightarrow> string res"
  hc_dec :: "string \<Rightarrow> Handle res"

definition WriteHandle :: "hcodec \<Rightarrow> goerr option \<Rightarrow> fault \<Rightarrow> string \<Rightarrow> Handle \<Rightarrow> fs \<Rightarrow> goerr option \<times> fs list" where
  "WriteHandle j mkdir ft path h fs =
     (case mkdir of
        Some e \<Rightarrow> (Some (Wrapf ''create handle dir: %w'' [] e), [fs])
      | None \<Rightarrow>
          (case hc_enc j h of
             Inl e \<Rightarrow> (Some e, [fs])
           | Inr data \<Rightarrow>
               (let tmp = tmpPath path; fss = fs # writeStates (ft_write ft) tmp data fs in
                case ft_write ft of
                  Some (e, _) \<Rightarrow> (Some e, fss)
                | None \<Rightarrow>
                    (case ft_rename ft of
                       Some e \<Rightarrow> (Some e, fss @ [if ft_remove ft then last fss else (last fss)(tmp := None)])
                     | None \<Rightarrow> (None, fss @ [(last fss)(path \<mapsto> data, tmp := None)])))))"

definition parseHandle :: "hcodec \<Rightarrow> string \<Rightarrow> string res \<Rightarrow> Handle res" where
  "parseHandle j path content =
     (case content of
        Inl e \<Rightarrow> Inl e
      | Inr data \<Rightarrow>
          (case hc_dec j data of
             Inl e \<Rightarrow> Inl (Wrapf ''parse handle %s: %w'' [path] e)
           | Inr h \<Rightarrow>
               if ha_Addr h = [] \<or> ha_Token h = [] then Inl (Errorf ''handle %s missing addr or token'' [path]) else Inr h))"

text \<open>\<open>strconv.Atoi\<close>.\<close>

definition atoi :: "string \<Rightarrow> int option" where
  "atoi s =
     (case s of
        [] \<Rightarrow> None
      | c # t \<Rightarrow>
          (let v = (if c = CHR ''-'' \<or> c = CHR ''+'' then t else s) in
           case parseUint v 10 64 of
             None \<Rightarrow> None
           | Some n \<Rightarrow>
               if c = CHR ''-'' then (if n \<le> 2 ^ 63 then Some (- int n) else None)
               else (if n < 2 ^ 63 then Some (int n) else None)))"

definition parsePid :: "string res \<Rightarrow> int res" where
  "parsePid content =
     (case content of
        Inl e \<Rightarrow> Inl e
      | Inr data \<Rightarrow> (case atoi data of None \<Rightarrow> Inl (ExtErr ''strconv.Atoi'') | Some n \<Rightarrow> Inr n))"

section \<open>The outside world\<close>

datatype sig = SigInterrupt | SigKill | SigZero

datatype deed = Removed string | Signalled int sig | Started string "string list"

text \<open>Each function is asked at the moment of the call; \<open>p_clock\<close> is the clock in milliseconds, and \<open>p_sleep\<close> passes time.\<close>

record 'w pext =
  p_read :: "string \<Rightarrow> 'w \<Rightarrow> string res \<times> 'w"
  p_dial :: "string \<Rightarrow> 'w \<Rightarrow> bool \<times> 'w"
  p_remove :: "string \<Rightarrow> 'w \<Rightarrow> 'w"
  p_find :: "int \<Rightarrow> 'w \<Rightarrow> goerr option \<times> 'w"
  p_signal :: "int \<Rightarrow> sig \<Rightarrow> 'w \<Rightarrow> goerr option \<times> 'w"
  p_clock :: "'w \<Rightarrow> nat"
  p_sleep :: "nat \<Rightarrow> 'w \<Rightarrow> 'w"
  p_start :: "string \<Rightarrow> string list \<Rightarrow> 'w \<Rightarrow> goerr option \<times> 'w"
  p_release :: "'w \<Rightarrow> goerr option \<times> 'w"
  p_stat :: "string \<Rightarrow> 'w \<Rightarrow> goerr option \<times> 'w"
  p_look :: "string \<Rightarrow> 'w \<Rightarrow> string res \<times> 'w"
  p_exe :: "'w \<Rightarrow> string res \<times> 'w"

definition ReadHandle :: "hcodec \<Rightarrow> 'w pext \<Rightarrow> string \<Rightarrow> 'w \<Rightarrow> Handle res \<times> 'w" where
  "ReadHandle j x path w = (case p_read x path w of (c, w) \<Rightarrow> (parseHandle j path c, w))"

definition ReadPid :: "'w pext \<Rightarrow> string \<Rightarrow> 'w \<Rightarrow> int res \<times> 'w" where
  "ReadPid x path w = (case p_read x path w of (c, w) \<Rightarrow> (parsePid c, w))"

definition IsListening :: "'w pext \<Rightarrow> string \<Rightarrow> 'w \<Rightarrow> bool \<times> 'w" where
  "IsListening x addr = p_dial x addr"

definition DefaultPaths :: "string res \<Rightarrow> (string \<times> string \<times> string) res" where
  "DefaultPaths configDir =
     (case configDir of
        Inl e \<Rightarrow> Inl e
      | Inr cfg \<Rightarrow>
          (let dir = pathJoin [cfg, ''remote-shell-mcp''] in
           Inr (pathJoin [dir, ''daemon.lock''], pathJoin [dir, ''state.json''], pathJoin [dir, ''daemon.json''])))"

text \<open>
  The loops that poll until a deadline share their shape: look (\<open>probe\<close>), answer if there is something to answer,
  else sleep \<open>gap\<close> milliseconds; after the deadline the answer is \<open>late\<close>.  \<open>n\<close> bounds the rounds, none is the result when it
  was too small.
\<close>

fun pollUntil :: "'w pext \<Rightarrow> nat \<Rightarrow> ('w \<Rightarrow> 'r option \<times> 'w) \<Rightarrow> 'r \<Rightarrow> nat \<Rightarrow> nat \<Rightarrow> 'w \<Rightarrow> ('r \<times> 'w) option" where
  "pollUntil x gap probe late deadline 0 w = None"
| "pollUntil x gap probe late deadline (Suc n) w =
     (if p_clock x w < deadline then
        (case probe w of
           (Some r, w) \<Rightarrow> Some (r, w)
         | (None, w) \<Rightarrow> pollUntil x gap probe late deadline n (p_sleep x gap w))
      else Some (late, w))"

definition WaitUntilListening :: "'w pext \<Rightarrow> string \<Rightarrow> nat \<Rightarrow> nat \<Rightarrow> 'w \<Rightarrow> (goerr option \<times> 'w) option" where
  "WaitUntilListening x addr span n w =
     pollUntil x 150
       (\<lambda>w. case IsListening x addr w of (True, w) \<Rightarrow> (Some None, w) | (False, w) \<Rightarrow> (None, w))
       (Some (Errorf (''timed out waiting for daemon to listen on '' @ addr) [])) (p_clock x w + span) n w"

definition waitForExit :: "'w pext \<Rightarrow> nat \<Rightarrow> int \<Rightarrow> nat \<Rightarrow> 'w \<Rightarrow> (bool \<times> 'w) option" where
  "waitForExit x n pid span w =
     pollUntil x 100
       (\<lambda>w. case p_signal x pid SigZero w of (Some _, w) \<Rightarrow> (Some True, w) | (None, w) \<Rightarrow> (None, w))
       False (p_clock x w + span) n w"

definition waitForHandle :: "hcodec \<Rightarrow> 'w pext \<Rightarrow> nat \<Rightarrow> string \<Rightarrow> nat \<Rightarrow> 'w \<Rightarrow> (Handle res \<times> 'w) option" where
  "waitForHandle j x n path span w =
     pollUntil x 100
       (\<lambda>w. case ReadHandle j x path w of
              (Inr h, w) \<Rightarrow> (case IsListening x (ha_Addr h) w of (True, w) \<Rightarrow> (Some (Inr h), w) | (False, w) \<Rightarrow> (None, w))
            | (Inl _, w) \<Rightarrow> (None, w))
       (Inl (Errorf ''daemon handle %s never appeared (daemon may have failed to start)'' [path])) (p_clock x w + span) n w"

section \<open>spawn.go\<close>

definition tryUseExistingDaemon :: "hcodec \<Rightarrow> 'w pext \<Rightarrow> string \<Rightarrow> 'w \<Rightarrow> Handle option \<times> 'w" where
  "tryUseExistingDaemon j x handlePath w =
     (case ReadHandle j x handlePath w of
        (Inl _, w) \<Rightarrow> (None, w)
      | (Inr h, w) \<Rightarrow>
          (case IsListening x (ha_Addr h) w of
             (False, w) \<Rightarrow> (None, w)
           | (True, w) \<Rightarrow> (Some h, w)))"

definition killStaleDaemon :: "'w pext \<Rightarrow> nat \<Rightarrow> string \<Rightarrow> string \<Rightarrow> 'w \<Rightarrow> (deed list \<times> 'w) option" where
  "killStaleDaemon x n lockPath handlePath w =
     (let rm = Removed handlePath in
      case ReadPid x lockPath (p_remove x handlePath w) of
        (Inl _, w) \<Rightarrow> Some ([rm], w)
      | (Inr pid, w) \<Rightarrow>
          if pid \<le> 0 then Some ([rm], w)
          else (case p_find x pid w of
                  (Some _, w) \<Rightarrow> Some ([rm], w)
                | (None, w) \<Rightarrow>
                    (case waitForExit x n pid 2000 (snd (p_signal x pid SigInterrupt w)) of
                       None \<Rightarrow> None
                     | Some (True, w) \<Rightarrow> Some ([rm, Signalled pid SigInterrupt], w)
                     | Some (False, w) \<Rightarrow>
                         (case waitForExit x n pid 2000 (snd (p_signal x pid SigKill w)) of
                            None \<Rightarrow> None
                          | Some (_, w) \<Rightarrow> Some ([rm, Signalled pid SigInterrupt, Signalled pid SigKill], w)))))"

text \<open>\<open>filepath.Ext\<close>.\<close>

definition pathExt :: "string \<Rightarrow> string" where
  "pathExt p =
     (let q = last (splitOn CHR ''/'' p) in case lastIndexByte q CHR ''.'' of None \<Rightarrow> [] | Some i \<Rightarrow> drop i q)"

definition siblingBinary :: "'w pext \<Rightarrow> 'w \<Rightarrow> string res \<times> 'w" where
  "siblingBinary x w =
     (case p_exe x w of
        (Inl e, w) \<Rightarrow> (Inl e, w)
      | (Inr exe, w) \<Rightarrow>
          (let candidate = pathJoin [pathDir exe, ''remote-shell-mcpd''];
               gone = Errorf ''could not locate remote-shell-mcpd binary; set --daemon-binary or put it on PATH'' []
           in case p_stat x candidate w of
                (None, w) \<Rightarrow> (Inr candidate, w)
              | (Some _, w) \<Rightarrow>
                  if trimSuffix (pathBase exe) (pathExt exe) = ''remote-shell-mcp'' then
                    (case p_stat x candidate w of (None, w) \<Rightarrow> (Inr candidate, w) | (Some _, w) \<Rightarrow> (Inl gone, w))
                  else (Inl gone, w)))"

definition lookupBinary :: "'w pext \<Rightarrow> 'w \<Rightarrow> string res \<times> 'w" where
  "lookupBinary x w =
     (case p_look x ''remote-shell-mcpd'' w of
        (Inr p, w) \<Rightarrow> (Inr p, w)
      | (Inl _, w) \<Rightarrow> siblingBinary x w)"

definition resolveDaemonBinary :: "'w pext \<Rightarrow> string \<Rightarrow> 'w \<Rightarrow> string res \<times> 'w" where
  "resolveDaemonBinary x override w =
     (if override = [] then lookupBinary x w
      else if hasPrefix override ''/'' then
        (case p_stat x override w of (Some e, w) \<Rightarrow> (Inl e, w) | (None, w) \<Rightarrow> (Inr override, w))
      else (case p_look x override w of
              (Inr p, w) \<Rightarrow> (Inr p, w)
            | (Inl _, w) \<Rightarrow> lookupBinary x w))"

definition spawnDaemon ::
    "hcodec \<Rightarrow> 'w pext \<Rightarrow> nat \<Rightarrow> string \<Rightarrow> string list \<Rightarrow> string \<Rightarrow> 'w \<Rightarrow> (Handle res \<times> deed list \<times> 'w) option" where
  "spawnDaemon j x n daemonBinary extraArgs handlePath w =
     (case resolveDaemonBinary x daemonBinary w of
        (Inl e, w) \<Rightarrow> Some (Inl e, [], w)
      | (Inr bin, w) \<Rightarrow>
          (case p_start x bin extraArgs w of
             (Some e, w) \<Rightarrow> Some (Inl (Wrapf ''spawn daemon %s: %w'' [bin] e), [], w)
           | (None, w) \<Rightarrow>
               (case p_release x w of
                  (Some e, w) \<Rightarrow> Some (Inl (Wrapf ''release daemon process: %w'' [] e), [Started bin extraArgs], w)
                | (None, w) \<Rightarrow>
                    (case waitForHandle j x n handlePath 10000 w of
                       None \<Rightarrow> None
                     | Some (r, w) \<Rightarrow> Some (r, [Started bin extraArgs], w)))))"

definition EnsureDaemonAt ::
    "hcodec \<Rightarrow> 'w pext \<Rightarrow> nat \<Rightarrow> string \<Rightarrow> string \<Rightarrow> string list \<Rightarrow> 'w \<Rightarrow> (Handle res \<times> deed list \<times> 'w) option" where
  "EnsureDaemonAt j x n handlePath daemonBinary extraArgs w =
     (case tryUseExistingDaemon j x handlePath w of
        (Some h, w) \<Rightarrow> Some (Inr h, [], w)
      | (None, w) \<Rightarrow>
          (case killStaleDaemon x n (pathJoin [pathDir handlePath, ''daemon.lock'']) handlePath w of
             None \<Rightarrow> None
           | Some (ds, w) \<Rightarrow>
               (case spawnDaemon j x n daemonBinary extraArgs handlePath w of
                  None \<Rightarrow> None
                | Some (r, ds2, w) \<Rightarrow> Some (r, ds @ ds2, w))))"

definition EnsureDaemon ::
    "hcodec \<Rightarrow> 'w pext \<Rightarrow> nat \<Rightarrow> string res \<Rightarrow> string \<Rightarrow> string list \<Rightarrow> 'w \<Rightarrow> (Handle res \<times> deed list \<times> 'w) option" where
  "EnsureDaemon j x n configDir daemonBinary extraArgs w =
     (case DefaultPaths configDir of
        Inl e \<Rightarrow> Some (Inl e, [], w)
      | Inr (_, _, handlePath) \<Rightarrow> EnsureDaemonAt j x n handlePath daemonBinary extraArgs w)"

text \<open>\<open>resolveDaemonHandle\<close> of the launcher's main: without spawning the handle is only read.\<close>

definition resolveDaemonHandle ::
    "hcodec \<Rightarrow> 'w pext \<Rightarrow> nat \<Rightarrow> string res \<Rightarrow> string \<Rightarrow> string \<Rightarrow> bool \<Rightarrow> 'w \<Rightarrow> (Handle res \<times> deed list \<times> 'w) option" where
  "resolveDaemonHandle j x n configDir daemonBin handlePath noSpawn w =
     (case (if handlePath = [] then (case DefaultPaths configDir of Inl e \<Rightarrow> Inl e | Inr (_, _, def) \<Rightarrow> Inr def)
            else Inr handlePath) of
        Inl e \<Rightarrow> Some (Inl e, [], w)
      | Inr path \<Rightarrow>
          if noSpawn then (case ReadHandle j x path w of (r, w) \<Rightarrow> Some (r, [], w))
          else EnsureDaemonAt j x n path daemonBin [] w)"

end
