(* ===== verification/SpawnProps.thy ===== *)
theory SpawnProps
  imports Spawn
begin

text \<open>
  What starting the daemon guarantees: the polling loops end, a handle that is returned was read from the handle file and its
  address had just accepted a connection, and what was done to other processes on the way is bounded.
\<close>

section \<open>The polling loops\<close>

text \<open>The clock is never turned back, and a sleep takes at least as long as asked for.\<close>

definition timeFlows :: "'w pext \<Rightarrow> bool" where
  "timeFlows x \<longleftrightarrow>
     (\<forall>w. (\<forall>p. p_clock x w \<le> p_clock x (snd (p_read x p w)))
        \<and> (\<forall>a. p_clock x w \<le> p_clock x (snd (p_dial x a w)))
        \<and> (\<forall>pid s. p_clock x w \<le> p_clock x (snd (p_signal x pid s w)))
        \<and> (\<forall>d. p_clock x w + d \<le> p_clock x (p_sleep x d w)))"

lemma timeFlows_D:
  assumes "timeFlows x"
  shows "p_read x p w = (c, w') \<Longrightarrow> p_clock x w \<le> p_clock x w'"
    and "p_dial x a w = (b, w') \<Longrightarrow> p_clock x w \<le> p_clock x w'"
    and "p_signal x pid s w = (e, w') \<Longrightarrow> p_clock x w \<le> p_clock x w'"
    and "p_clock x w + d \<le> p_clock x (p_sleep x d w)"
  using assms unfolding timeFlows_def by (metis snd_conv)+

text \<open>A probe that does not turn the clock back.\<close>

definition forward :: "'w pext \<Rightarrow> ('w \<Rightarrow> 'r \<times> 'w) \<Rightarrow> bool" where
  "forward x probe \<longleftrightarrow> (\<forall>w r w'. probe w = (r, w') \<longrightarrow> p_clock x w \<le> p_clock x w')"

lemma pollUntil_returns:
  assumes "timeFlows x" and "forward x probe" and "deadline - p_clock x w \<le> n * gap" and "n < k"
  shows "pollUntil x gap probe late deadline k w \<noteq> None"
  using assms(3,4)
proof (induction k arbitrary: n w)
  case (Suc k)
  have "pollUntil x gap probe late deadline k (p_sleep x gap w') \<noteq> None"
    if w: "p_clock x w < deadline" "probe w = (None, w')" for w'
  proof -
    obtain m where n: "n = Suc m" using Suc.prems(1) w(1) by (cases n) auto
    have "p_clock x w \<le> p_clock x w'" using assms(2) w(2) by (auto simp: forward_def)
    with timeFlows_D(4) [OF assms(1), of w' gap] Suc.prems(1) n
    have "deadline - p_clock x (p_sleep x gap w') \<le> m * gap" by simp
    with Suc.IH [of _ m] Suc.prems(2) n show ?thesis by simp
  qed
  then show ?case by (auto split: prod.splits option.splits)
qed simp

lemma pollUntil_answer:
  "pollUntil x gap probe late deadline n w = Some (r, w') \<Longrightarrow> r = late \<or> (\<exists>w0. probe w0 = (Some r, w'))"
  by (induction n arbitrary: w) (auto split: if_splits prod.splits option.splits)

lemma pollUntil_late:
  assumes "timeFlows x" and "forward x probe" and "\<And>w. fst (probe w) = None"
    and "deadline - p_clock x w \<le> n * gap" and "n < k"
  shows "\<exists>w'. pollUntil x gap probe late deadline k w = Some (late, w')"
proof -
  obtain r w' where r: "pollUntil x gap probe late deadline k w = Some (r, w')"
    using pollUntil_returns [OF assms(1,2,4,5)] by (metis not_None_eq surj_pair)
  then show ?thesis using pollUntil_answer [OF r] assms(3) by (metis fst_conv option.distinct(1))
qed

lemma forward_probes:
  assumes "timeFlows x"
  shows "forward x (\<lambda>w. case IsListening x a w of (True, w) \<Rightarrow> (Some l, w) | (False, w) \<Rightarrow> (None, w))"
    and "forward x (\<lambda>w. case p_signal x pid s w of (Some _, w) \<Rightarrow> (Some b, w) | (None, w) \<Rightarrow> (None, w))"
    and "forward x (\<lambda>w. case ReadHandle j x path w of
              (Inr h, w) \<Rightarrow> (case IsListening x (ha_Addr h) w of (True, w) \<Rightarrow> (Some (Inr h), w) | (False, w) \<Rightarrow> (None, w))
            | (Inl _, w) \<Rightarrow> (None, w))"
  using timeFlows_D [OF assms] unfolding forward_def IsListening_def ReadHandle_def
  by (fastforce split: prod.splits bool.splits option.splits sum.splits dest: le_trans)+

lemma WaitUntilListening_returns:
  "timeFlows x \<Longrightarrow> span \<le> m * 150 \<Longrightarrow> m < n \<Longrightarrow> WaitUntilListening x addr span n w \<noteq> None"
  unfolding WaitUntilListening_def by (rule pollUntil_returns [OF _ forward_probes(1)]) simp_all

lemma waitForExit_returns:
  "timeFlows x \<Longrightarrow> span \<le> m * 100 \<Longrightarrow> m < n \<Longrightarrow> waitForExit x n pid span w \<noteq> None"
  unfolding waitForExit_def by (rule pollUntil_returns [OF _ forward_probes(2)]) simp_all

lemma waitForHandle_returns:
  "timeFlows x \<Longrightarrow> span \<le> m * 100 \<Longrightarrow> m < n \<Longrightarrow> waitForHandle j x n path span w \<noteq> None"
  unfolding waitForHandle_def by (rule pollUntil_returns [OF _ forward_probes(3)]) simp_all

lemma killStaleDaemon_returns:
  assumes "timeFlows x" and "20 < n"
  shows "killStaleDaemon x n lock path w \<noteq> None"
  using waitForExit_returns [OF assms(1) _ assms(2), of 2000]
  by (auto simp del: not_None_eq simp: killStaleDaemon_def Let_def split: prod.splits sum.splits option.splits bool.splits)

lemma spawnDaemon_returns:
  assumes "timeFlows x" and "100 < n"
  shows "spawnDaemon j x n bin args path w \<noteq> None"
  using waitForHandle_returns [OF assms(1) _ assms(2), of 10000]
  by (auto simp del: not_None_eq simp: spawnDaemon_def split: prod.splits sum.splits option.splits)

section \<open>What was done, and what is returned\<close>

text \<open>The last two things that happened: the handle was read from the file, and its address accepted a connection.\<close>

definition reached :: "hcodec \<Rightarrow> 'w pext \<Rightarrow> string \<Rightarrow> Handle \<Rightarrow> 'w \<Rightarrow> bool" where
  "reached j x path h w' \<longleftrightarrow>
     (\<exists>w1 w2 c. p_read x path w1 = (Inr c, w2) \<and> hc_dec j c = Inr h \<and> ha_Addr h \<noteq> [] \<and> ha_Token h \<noteq> []
        \<and> p_dial x (ha_Addr h) w2 = (True, w'))"

lemma ReadHandle_reached:
  "ReadHandle j x path w1 = (Inr h, w2) \<Longrightarrow> IsListening x (ha_Addr h) w2 = (True, w') \<Longrightarrow> reached j x path h w'"
  unfolding ReadHandle_def parseHandle_def IsListening_def reached_def
  by (fastforce split: prod.splits sum.splits if_splits)

lemma tryUseExisting_reached:
  "tryUseExistingDaemon j x path w = (Some h, w') \<Longrightarrow> reached j x path h w'"
  unfolding tryUseExistingDaemon_def
  by (auto split: prod.splits sum.splits bool.splits intro: ReadHandle_reached)

lemma waitForHandle_reached:
  "waitForHandle j x n path span w = Some (Inr h, w') \<Longrightarrow> reached j x path h w'"
  unfolding waitForHandle_def
  by (drule pollUntil_answer, elim disjE exE, simp)
    (auto split: prod.split_asm sum.split_asm bool.split_asm intro: ReadHandle_reached)

text \<open>A daemon that is up: the handle file can be read now, and the address in it accepts a connection.\<close>

definition answers :: "hcodec \<Rightarrow> 'w pext \<Rightarrow> string \<Rightarrow> 'w \<Rightarrow> Handle \<Rightarrow> 'w \<Rightarrow> bool" where
  "answers j x path w h w' \<longleftrightarrow>
     (\<exists>c w1. p_read x path w = (Inr c, w1) \<and> hc_dec j c = Inr h \<and> ha_Addr h \<noteq> [] \<and> ha_Token h \<noteq> []
        \<and> p_dial x (ha_Addr h) w1 = (True, w'))"

lemma answers_used:
  "answers j x path w h w' \<longleftrightarrow> tryUseExistingDaemon j x path w = (Some h, w')"
  unfolding answers_def tryUseExistingDaemon_def ReadHandle_def parseHandle_def IsListening_def
  by (auto split: prod.splits sum.splits bool.splits if_splits)

text \<open>After that look: the file was read, and perhaps an address dialed.\<close>

definition looked :: "'w pext \<Rightarrow> string \<Rightarrow> 'w \<Rightarrow> 'w \<Rightarrow> bool" where
  "looked x path w w1 \<longleftrightarrow> w1 = snd (p_read x path w) \<or> (\<exists>a. w1 = snd (p_dial x a (snd (p_read x path w))))"

lemma tryUseExisting_looked: "tryUseExistingDaemon j x path w = (r, w1) \<Longrightarrow> looked x path w w1"
  unfolding tryUseExistingDaemon_def ReadHandle_def IsListening_def looked_def
  by (auto split: prod.splits sum.splits bool.splits) (metis snd_conv)+

text \<open>What is done about a daemon that does not answer, from a state on: the handle file is removed; if the lock file then read has a
  positive number, that process is interrupted, and killed only after the interrupt was waited for in vain.\<close>

definition cleanup :: "'w pext \<Rightarrow> string \<Rightarrow> 'w \<Rightarrow> deed list \<Rightarrow> bool" where
  "cleanup x path w ds \<longleftrightarrow>
     ds = [Removed path] \<or>
     (\<exists>c w1 pid. p_read x (pathJoin [pathDir path, ''daemon.lock'']) (p_remove x path w) = (Inr c, w1) \<and> atoi c = Some pid \<and> 0 < pid
        \<and> ds \<in> {[Removed path, Signalled pid SigInterrupt], [Removed path, Signalled pid SigInterrupt, Signalled pid SigKill]})"

lemma killStaleDaemon_cleanup:
  assumes "killStaleDaemon x n (pathJoin [pathDir path, ''daemon.lock'']) path w = Some (ds, w')"
  shows "cleanup x path w ds"
proof (cases "ReadPid x (pathJoin [pathDir path, ''daemon.lock'']) (p_remove x path w)")
  case (Pair r w1)
  show ?thesis
  proof (cases r)
    case (Inr pid)
    with Pair obtain c where c: "p_read x (pathJoin [pathDir path, ''daemon.lock'']) (p_remove x path w) = (Inr c, w1)" "atoi c = Some pid"
      by (auto simp: ReadPid_def parsePid_def split: prod.splits sum.splits option.splits)
    from assms Pair Inr have "ds = [Removed path] \<or> 0 < pid \<and>
        ds \<in> {[Removed path, Signalled pid SigInterrupt], [Removed path, Signalled pid SigInterrupt, Signalled pid SigKill]}"
      by (auto simp: killStaleDaemon_def Let_def split: prod.splits option.splits bool.splits if_splits)
    then show ?thesis using c unfolding cleanup_def by blast
  qed (use assms Pair in \<open>simp add: killStaleDaemon_def cleanup_def\<close>)
qed

lemma spawnDaemon_outcome:
  assumes "spawnDaemon j x n bin args path w = Some (r, ds, w')"
  shows "(ds = [] \<and> (\<exists>e. r = Inl e)) \<or> (\<exists>b. ds = [Started b args])" and "r = Inr h \<Longrightarrow> reached j x path h w'"
  using assms unfolding spawnDaemon_def
  by (auto split: prod.splits sum.splits option.splits intro: waitForHandle_reached)

text \<open>
  C22. What the launcher does to get a daemon, and what it hands out: a handle it returns was read from the handle file, has an
  address and a token, and the address accepted a connection as the last thing that happened.  If the handle file can be read
  and its address answers, that handle is returned and nothing is removed, signalled or started.  If not, the handle file is removed
  first, the only process signalled is the one whose number the lock file beside it has at that moment (an interrupt, and a kill only after it),
  and at most one daemon is started, after that; without starting one there is no handle.
\<close>

theorem ensure_daemon_outcome:
  assumes "EnsureDaemonAt j x n path bin args w = Some (r, ds, w')"
  shows "(\<forall>h. r = Inr h \<longrightarrow> reached j x path h w')
    \<and> (\<forall>h w1. answers j x path w h w1 \<longrightarrow> r = Inr h \<and> ds = [] \<and> w' = w1)
    \<and> ((\<forall>h w1. \<not> answers j x path w h w1) \<longrightarrow>
         (\<exists>w1 clean st. ds = clean @ st \<and> looked x path w w1 \<and> cleanup x path w1 clean
               \<and> ((st = [] \<and> (\<exists>e. r = Inl e)) \<or> (\<exists>b. st = [Started b args]))))"
proof (cases "tryUseExistingDaemon j x path w")
  case (Pair o1 w1)
  show ?thesis
  proof (cases o1)
    case (Some h)
    with Pair assms show ?thesis
      by (auto simp: EnsureDaemonAt_def answers_used intro: tryUseExisting_reached)
  next
    case None
    with Pair assms obtain ds1 w2 ds2 where
        k: "killStaleDaemon x n (pathJoin [pathDir path, ''daemon.lock'']) path w1 = Some (ds1, w2)"
      and s: "spawnDaemon j x n bin args path w2 = Some (r, ds2, w')" and d: "ds = ds1 @ ds2"
      by (auto simp: EnsureDaemonAt_def split: option.splits)
    have "cleanup x path w1 ds1" using k by (rule killStaleDaemon_cleanup)
    moreover have "looked x path w w1" using Pair by (rule tryUseExisting_looked)
    moreover have "\<forall>h. r = Inr h \<longrightarrow> reached j x path h w'" using spawnDaemon_outcome(2) [OF s] by blast
    moreover have "\<not> answers j x path w h w1" for h w1 using Pair None by (simp add: answers_used)
    moreover note spawnDaemon_outcome(1) [OF s] d
    ultimately show ?thesis by blast
  qed
qed

text \<open>
  C38. Getting a daemon takes bounded time: when the clock runs forward and a sleep lasts as long as asked, the wait for the old
  process ends within 21 rounds and the wait for the new daemon's handle within 101, whatever the other processes do, so that the call
  returns a handle or an error.
\<close>

theorem ensure_daemon_returns:
  assumes "timeFlows x" and "100 < n"
  shows "\<exists>r ds w'. EnsureDaemonAt j x n path bin args w = Some (r, ds, w')"
proof -
  have "20 < n" using assms(2) by simp
  then have "EnsureDaemonAt j x n path bin args w \<noteq> None"
    using killStaleDaemon_returns [OF assms(1)] spawnDaemon_returns [OF assms]
    by (auto simp: EnsureDaemonAt_def simp del: not_None_eq split: prod.split option.split)
  then show ?thesis by (metis not_None_eq surj_pair)
qed

text \<open>
  The process of the lock file is killed if it is still there two seconds after the interrupt. The daemon itself, once
  told to stop, first closes its listener and then waits up to five seconds for its connections before it writes its
  state: a launcher that comes by meanwhile finds nobody listening and kills it before that write.
\<close>

theorem stale_daemon_killed:
  assumes "timeFlows x" and "20 < n" and "ReadPid x lock (p_remove x path w) = (Inr pid, w1)" and "0 < pid"
    and "fst (p_find x pid w1) = None" and "\<And>v. fst (p_signal x pid SigZero v) = None"
  shows "\<exists>w'. killStaleDaemon x n lock path w
    = Some ([Removed path, Signalled pid SigInterrupt, Signalled pid SigKill], w')"
proof -
  have alive: "fst (case p_signal x pid SigZero v of (Some _, w) \<Rightarrow> (Some True, w) | (None, w) \<Rightarrow> (None, w)) = None" for v
    using assms(6) [of v] by (cases "p_signal x pid SigZero v") simp
  have late: "\<exists>w'. waitForExit x n pid 2000 v = Some (False, w')" for v
    unfolding waitForExit_def
    by (rule pollUntil_late [OF assms(1) forward_probes(2) [OF assms(1)] alive, of _ _ 20]) (simp_all add: assms(2))
  then obtain f where "\<And>v. waitForExit x n pid 2000 v = Some (False, f v)" by metis
  then show ?thesis using assms(3-5) by (auto simp: killStaleDaemon_def Let_def split: prod.splits)
qed

section \<open>Witnesses\<close>

text \<open>
  A host with only a clock, in which nothing but sleeping takes time: a lock file names process 42, which ends at the time
  \<open>dies\<close>, and from the time \<open>up\<close> on there is a handle file whose address answers.
\<close>

definition demoHandle :: Handle where
  "demoHandle = \<lparr>ha_Addr = ''127.0.0.1:41000'', ha_Token = ''ab12'', ha_PID = 43\<rparr>"

definition demoCodec :: hcodec where
  "demoCodec = \<lparr>hc_enc = (\<lambda>h. Inr ''{}''), hc_dec = (\<lambda>s. Inr demoHandle)\<rparr>"

definition demoHost :: "nat \<Rightarrow> nat \<Rightarrow> nat pext" where
  "demoHost dies up =
     \<lparr>p_read = (\<lambda>p w. (if p = ''/c/daemon.lock'' then Inr ''42'' else if up \<le> w then Inr ''{}'' else Inl (ExtErr ''ENOENT''), w)),
      p_dial = (\<lambda>a w. (up \<le> w, w)), p_remove = (\<lambda>p w. w), p_find = (\<lambda>pid w. (None, w)),
      p_signal = (\<lambda>pid s w. (if w < dies then None else Some (ExtErr ''process already finished''), w)),
      p_clock = (\<lambda>w. w), p_sleep = (\<lambda>d w. w + d), p_start = (\<lambda>b as w. (None, w)), p_release = (\<lambda>w. (None, w)),
      p_stat = (\<lambda>p w. (None, w)), p_look = (\<lambda>f w. (Inr (''/bin/'' @ f), w)), p_exe = (\<lambda>w. (Inl (ExtErr ''none''), w))\<rparr>"

lemma demoHost_timeFlows: "timeFlows (demoHost dies up)"
  by (simp add: timeFlows_def demoHost_def)

lemma pollUntil_round:
  "0 < n \<Longrightarrow> pollUntil x gap probe late deadline n w =
     (if p_clock x w < deadline then
        (case probe w of
           (Some r, w) \<Rightarrow> Some (r, w)
         | (None, w) \<Rightarrow> pollUntil x gap probe late deadline (n - 1) (p_sleep x gap w))
      else Some (late, w))"
  by (cases n; simp only: pollUntil.simps diff_Suc_1 less_irrefl)

text \<open>The pid that \<open>AcquireLock\<close> writes into the lock file is the one that is read back.\<close>

lemma parsePid_nat_dec:
  assumes "n < 2 ^ 63"
  shows "parsePid (Inr (nat_dec n)) = Inr (int n)"
proof -
  obtain c t where ct: "nat_dec n = c # t" by (metis nat_dec_nonempty list.exhaust)
  then have "digit_val c \<noteq> None" using digits_val_nat_dec [of n] by (auto split: option.splits)
  then have "c \<noteq> CHR ''-''" "c \<noteq> CHR ''+''" by (auto simp: digit_val_def)
  then show ?thesis using ct assms parseUint_nat_dec [of n 64] by (simp add: parsePid_def atoi_def)
qed

lemma demo_pid: "parsePid (Inr ''42'') = Inr 42"
proof -
  have "nat_dec 42 = ''42''" by code_simp
  with parsePid_nat_dec [of 42] show ?thesis by simp
qed

lemma demo_lock: "pathJoin [pathDir ''/c/daemon.json'', ''daemon.lock''] = ''/c/daemon.lock''"
  by code_simp

lemma demo_ensure:
  "EnsureDaemonAt demoCodec (demoHost 150 400) 120 ''/c/daemon.json'' [] [] 0
     = Some (Inr demoHandle,
             [Removed ''/c/daemon.json'', Signalled 42 SigInterrupt, Started ''/bin/remote-shell-mcpd'' []], 400)"
  by (simp add: EnsureDaemonAt_def tryUseExistingDaemon_def killStaleDaemon_def spawnDaemon_def resolveDaemonBinary_def
      lookupBinary_def waitForExit_def waitForHandle_def ReadHandle_def ReadPid_def parseHandle_def IsListening_def
      demo_lock demo_pid pollUntil_round demoHost_def demoCodec_def demoHandle_def)

theorem ensure_daemon_outcome_witness: "reached demoCodec (demoHost 150 400) ''/c/daemon.json'' demoHandle 400"
  using ensure_daemon_outcome [OF demo_ensure] by simp

theorem ensure_daemon_returns_witness:
  "\<exists>r ds w'. EnsureDaemonAt demoCodec (demoHost 150 400) 101 ''/c/daemon.json'' [] [] 0 = Some (r, ds, w')"
  using ensure_daemon_returns [OF demoHost_timeFlows, of 101] by simp

theorem stale_daemon_killed_witness:
  "\<exists>w'. killStaleDaemon ((demoHost 0 900)\<lparr>p_signal := (\<lambda>pid s w. (None, w))\<rparr>) 21 ''/c/daemon.lock'' ''/c/daemon.json'' 0
    = Some ([Removed ''/c/daemon.json'', Signalled 42 SigInterrupt, Signalled 42 SigKill], w')"
proof (rule stale_daemon_killed)
  show "timeFlows ((demoHost 0 900)\<lparr>p_signal := (\<lambda>pid s w. (None, w))\<rparr>)"
    by (simp add: timeFlows_def demoHost_def)
  show "ReadPid ((demoHost 0 900)\<lparr>p_signal := (\<lambda>pid s w. (None, w))\<rparr>) ''/c/daemon.lock''
      (p_remove ((demoHost 0 900)\<lparr>p_signal := (\<lambda>pid s w. (None, w))\<rparr>) ''/c/daemon.json'' 0) = (Inr 42, 0)"
    by (simp add: ReadPid_def demo_pid demoHost_def)
qed (simp_all add: demoHost_def)

end
