(* ===== verification/DaemonMain.thy ===== *)
theory DaemonMain
  imports ToolDocker Daemon Spawn
begin

text \<open>
  The daemon's life (\<open>cmd/remote-shell-mcpd/main.go\<close>): its flags, the lock file with its pid (\<open>AcquireLock\<close> and \<open>Release\<close> of
  \<open>internal/daemon/lock.go\<close> as one process sees them), the start up to serving, and the shutdown.  Serving itself is the tool
  handlers on the state that the start leaves.
\<close>

section \<open>The lock file of one process\<close>

text \<open>How the calls fail; \<open>k_flock\<close> is also the failure when another process holds the lock.\<close>

record lock_faults =
  k_mkdir :: "goerr option"
  k_open :: "goerr option"
  k_flock :: "goerr option"
  k_truncate :: "goerr option"
  k_write :: "goerr option"

definition AcquireLock :: "lock_faults \<Rightarrow> string \<Rightarrow> int \<Rightarrow> fs \<Rightarrow> goerr option \<times> fs" where
  "AcquireLock k path pid fs =
     (case k_mkdir k of
        Some e \<Rightarrow> (Some (Wrapf ''create lock dir: %w'' [] e), fs)
      | None \<Rightarrow>
          (case k_open k of
             Some e \<Rightarrow> (Some (Wrapf ''open lock file: %w'' [] e), fs)
           | None \<Rightarrow>
               (let fs = (if fs path = None then fs(path \<mapsto> []) else fs) in
                case k_flock k of
                  Some _ \<Rightarrow> (Some (Errorf ''daemon already running (lock held on %s)'' [path]), fs)
                | None \<Rightarrow>
                    (case k_truncate k of
                       Some e \<Rightarrow> (Some e, fs)
                     | None \<Rightarrow>
                         (case k_write k of
                            Some e \<Rightarrow> (Some e, fs(path \<mapsto> []))
                          | None \<Rightarrow> (None, fs(path \<mapsto> itoa pid)))))))"

definition Release :: "string \<Rightarrow> fs \<Rightarrow> fs" where
  "Release path fs = fs(path := None)"

section \<open>Flags\<close>

definition envOr :: "(string \<Rightarrow> string option) \<Rightarrow> string \<Rightarrow> string \<Rightarrow> string" where
  "envOr env key def = (case env key of Some v \<Rightarrow> if v \<noteq> [] then v else def | None \<Rightarrow> def)"

record flags =
  fl_addr :: string
  fl_state :: string
  fl_lock :: string
  fl_handle :: string
  fl_log :: string
  fl_format :: string

text \<open>The flags' values when none is given on the command line.\<close>

definition defaultFlags :: "(string \<Rightarrow> string option) \<Rightarrow> flags" where
  "defaultFlags env =
     \<lparr>fl_addr = envOr env ''REMOTE_SHELL_MCP_ADDR'' ''127.0.0.1:0'',
      fl_state = envOr env ''REMOTE_SHELL_MCP_STATE'' [],
      fl_lock = envOr env ''REMOTE_SHELL_MCP_LOCK'' [],
      fl_handle = envOr env ''REMOTE_SHELL_MCP_HANDLE'' [],
      fl_log = envOr env ''REMOTE_SHELL_MCP_LOG'' ''text'',
      fl_format = envOr env ''REMOTE_SHELL_MCP_FORMAT'' ''toon''\<rparr>"

section \<open>Starting\<close>

text \<open>What the process meets on its way up; \<open>m_listen\<close> binds an address and tells the one that was bound.\<close>

record 'w boot_env =
  m_configDir :: "string res"
  m_pid :: int
  m_lock :: lock_faults
  m_rand :: "nat list res"
  m_listen :: "string \<Rightarrow> string res"
  m_handle :: hcodec
  m_hmkdir :: "goerr option"
  m_hfault :: fault
  m_smkdir :: "string \<Rightarrow> goerr option"
  m_codec :: codec
  m_load :: fault
  m_ssh :: "'w ext"
  m_dssh :: "'w ext"
  m_docker :: "'w dext"
  m_hops :: nat

record daemon_paths =
  dp_lock :: string
  dp_state :: string
  dp_handle :: string

text \<open>The process has ended with a code, or serves: the listener's address, the token that is asked for, the format of results.\<close>

datatype boot = Exited nat | Serving string string OutputFormat

definition pathsOf :: "flags \<Rightarrow> string \<times> string \<times> string \<Rightarrow> daemon_paths" where
  "pathsOf fl defs = (case defs of (defLock, defState, defHandle) \<Rightarrow>
     \<lparr>dp_lock = (if fl_lock fl = [] then defLock else fl_lock fl),
      dp_state = (if fl_state fl = [] then defState else fl_state fl),
      dp_handle = (if fl_handle fl = [] then defHandle else fl_handle fl)\<rparr>)"

text \<open>\<open>store.Load\<close> and \<open>state.Restore\<close>; a file that does not load is only warned about.\<close>

definition loadState :: "'w boot_env \<Rightarrow> string \<Rightarrow> 'w toolstate \<Rightarrow> 'w toolstate option" where
  "loadState M path s =
     (case LoadSnap (m_codec M) (m_load M) path (ts_disk s) of
        Inl _ \<Rightarrow> Some s
      | Inr snap \<Rightarrow>
          map_option (\<lambda>(_, st, ds). s\<lparr>ts_ssh := st, ts_docker := ds\<rparr>)
            (Restore (m_ssh M) (m_dssh M) (m_docker M) (m_hops M) snap (ts_ssh s) (ts_docker s)))"

text \<open>From the store on: the listener is bound and the handle published.\<close>

definition openStore :: "'w boot_env \<Rightarrow> daemon_paths \<Rightarrow> boot \<Rightarrow> 'w toolstate \<Rightarrow> (boot \<times> 'w toolstate) option" where
  "openStore M p serving s =
     (case NewStore pathJoin pathDir (m_smkdir M) (m_configDir M) (dp_state p) of
        Inl _ \<Rightarrow> Some (Exited 1, s)
      | Inr path \<Rightarrow> map_option (Pair serving) (loadState M path s))"

definition publishAndServe :: "'w boot_env \<Rightarrow> daemon_paths \<Rightarrow> string \<Rightarrow> OutputFormat \<Rightarrow> 'w toolstate \<Rightarrow> (boot \<times> 'w toolstate) option" where
  "publishAndServe M p addr fmt s =
     (case GenerateToken (m_rand M) of
        Inl _ \<Rightarrow> Some (Exited 1, s)
      | Inr token \<Rightarrow>
          (case m_listen M addr of
             Inl _ \<Rightarrow> Some (Exited 1, s)
           | Inr bound \<Rightarrow>
               (case WriteHandle (m_handle M) (m_hmkdir M) (m_hfault M) (dp_handle p)
                       \<lparr>ha_Addr = bound, ha_Token = token, ha_PID = m_pid M\<rparr> (ts_disk s) of
                  (Some _, fss) \<Rightarrow> Some (Exited 1, s\<lparr>ts_disk := last fss\<rparr>)
                | (None, fss) \<Rightarrow> openStore M p (Serving bound token fmt) (s\<lparr>ts_disk := last fss\<rparr>))))"

definition daemonStart :: "'w boot_env \<Rightarrow> flags \<Rightarrow> 'w toolstate \<Rightarrow> (boot \<times> 'w toolstate) option" where
  "daemonStart M fl s =
     (case ParseFormat (fl_format fl) of
        Inl _ \<Rightarrow> Some (Exited 2, s)
      | Inr fmt \<Rightarrow>
          (case DefaultPaths (m_configDir M) of
             Inl _ \<Rightarrow> Some (Exited 1, s)
           | Inr defs \<Rightarrow>
               (let p = pathsOf fl defs in
                case AcquireLock (m_lock M) (dp_lock p) (m_pid M) (ts_disk s) of
                  (Some _, fs) \<Rightarrow> Some (Exited 1, s\<lparr>ts_disk := fs\<rparr>)
                | (None, fs) \<Rightarrow> publishAndServe M p (fl_addr fl) fmt (s\<lparr>ts_disk := fs\<rparr>))))"

section \<open>Serving\<close>

text \<open>
  The mux behind the token check: one path is the rpc endpoint, every other one goes to the server of event streams, a parameter.
  The path is one that \<open>http.ServeMux\<close> passes on; to one that is not clean (\<open>//rpc\<close>, \<open>/a/../rpc\<close>) it answers with a redirect of its
  own, behind the same check, which is not modelled.
\<close>

definition serveHTTP :: "string \<Rightarrow> (request \<Rightarrow> response) \<Rightarrow> (request \<Rightarrow> response) \<Rightarrow> string \<Rightarrow> request \<Rightarrow> response" where
  "serveHTTP token rpc sse path = AuthMiddleware token (\<lambda>r. if path = ''/rpc'' then rpc r else sse r)"

section \<open>Shutting down\<close>

text \<open>
  After the last handler: \<open>Stop\<close> writes the state a last time, then both managers are closed, then the deferred calls remove
  the handle and the lock file (\<open>os.Remove\<close>, whose errors the code ignores, is taken to succeed).
\<close>

definition daemonStop :: "'w boot_env \<Rightarrow> fault \<Rightarrow> daemon_paths \<Rightarrow> 'w toolstate \<Rightarrow> 'w toolstate" where
  "daemonStop M ft p s =
     (case PersistNow (m_codec M) ft (Some (dp_state p)) s of
        (_, s) \<Rightarrow>
          (let st = CloseAll (m_ssh M) (ts_ssh s);
               ds = dockerCloseAll (m_dssh M) (ts_docker s)
           in s\<lparr>ts_ssh := st, ts_docker := ds, ts_disk := Release (dp_lock p) ((ts_disk s)(dp_handle p := None))\<rparr>))"

end
