(* ===== verification/DaemonProps.thy ===== *)
theory DaemonProps
  imports DaemonMain ToolDockerProps SpawnProps
begin

text \<open>
  What the daemon's start and shutdown guarantee together: what is published, what is on disk after a shutdown, and what a
  daemon finds that is started after it.
\<close>

section \<open>Files\<close>

lemma AcquireLock_ok: "AcquireLock k path pid fs = (None, fs') \<Longrightarrow> fs' = fs(path \<mapsto> itoa pid)"
  by (auto simp: AcquireLock_def Let_def split: option.splits if_splits)

lemma AcquireLock_other: "AcquireLock k path pid fs = (e, fs') \<Longrightarrow> q \<noteq> path \<Longrightarrow> fs' q = fs q"
  by (auto simp: AcquireLock_def Let_def split: option.splits if_splits)

text \<open>The launcher reads from the lock file the pid of the daemon that took it.\<close>

lemma AcquireLock_pid:
  assumes "AcquireLock k path (int n) fs = (None, fs')" and "n < 2 ^ 63"
  shows "\<exists>c. fs' path = Some c \<and> parsePid (Inr c) = Inr (int n)"
  using AcquireLock_ok [OF assms(1)] parsePid_nat_dec [OF assms(2)] by (simp add: itoa_def)

lemma WriteHandle_ok:
  "WriteHandle j mk ft path h fs = (None, fss) \<Longrightarrow>
     \<exists>data. hc_enc j h = Inr data \<and> last fss = fs(path \<mapsto> data, tmpPath path := None)"
  using writeStates_last [of fs "tmpPath path" _ fs]
  by (auto simp: WriteHandle_def Let_def fun_upd_twist split: option.splits sum.splits)

lemma WriteHandle_other:
  assumes "WriteHandle j mk ft path h fs = (e, fss)" and "q \<noteq> path" and "q \<noteq> tmpPath path"
  shows "last fss q = fs q"
proof -
  have "s q = fs q" if "s \<in> set (writeStates w (tmpPath path) data fs)" for s w data
    using writeStates_other [OF that] assms(3) by simp
  then have "last (fs # writeStates w (tmpPath path) data fs) q = fs q" for w data
    by (metis last.simps last_in_set writeStates_ne)
  then show ?thesis using assms
    by (auto simp: WriteHandle_def Let_def split: option.splits sum.splits if_splits)
qed

lemma mgr_capture:
  assumes "mgr_ok st" and "Capture st ds = (sn, st')"
  shows "mgr_ok st' \<and> tbl st' = tbl st"
proof -
  have "mgr_ok st'" by (rule mgr_grow [OF assms(1)]) (use assms(2) in \<open>auto simp: Capture_closed\<close>)
  then show ?thesis using assms(2) by (auto simp: Capture_closed)
qed

section \<open>The shutdown\<close>

text \<open>The files a daemon writes.\<close>

definition pathsApart :: "daemon_paths \<Rightarrow> bool" where
  "pathsApart p \<longleftrightarrow> dp_state p \<noteq> [] \<and> dp_state p \<noteq> dp_lock p \<and> dp_state p \<noteq> dp_handle p \<and> dp_state p \<noteq> tmpPath (dp_handle p) \<and>
     dp_lock p \<noteq> dp_handle p \<and> dp_lock p \<noteq> tmpPath (dp_handle p)"

text \<open>
  C18. A shutdown saves, closes and cleans up, in this order: the state file is the encoded snapshot of the managers as they were
  before anything was closed (or what it was, if that write fails), then no session and no docker host is registered, nothing of
  the ssh side is open and nothing a docker host held, and the handle file and the lock file are gone.
\<close>

theorem daemon_shutdown:
  assumes "mgr_ok (ts_ssh s)" and "pathsApart p" and "Capture (ts_ssh s) (ts_docker s) = (sn, st)"
    and "PersistNow (m_codec M) ft (Some (dp_state p)) s = (e, s1)" and "daemonStop M ft p s = s'"
  shows "ts_disk s' (dp_state p) =
       (if e = None then Some (projr (j_enc (m_codec M) (fixVersion (snapVal st sn)))) else ts_disk s (dp_state p))
    \<and> tbl (ts_ssh s') = [] \<and> live (st_io (ts_ssh s')) = {} \<and> hosts (ts_docker s') = []
    \<and> live (d_io (ts_docker s')) \<inter> (\<Union>q \<in> set (gm_vals (hosts (ts_docker s))). hostHandles (ts_docker s) q) = {}
    \<and> ts_disk s' (dp_handle p) = None \<and> ts_disk s' (dp_lock p) = None"
proof -
  obtain r fss where v: "SaveSnap (m_codec M) ft (dp_state p) (snapVal st sn) (ts_disk s) = (r, fss)" by fastforce
  have s1: "s1 = s\<lparr>ts_ssh := st, ts_disk := last fss\<rparr>" "e = r" using assms(3,4) v by (auto simp: PersistNow_def)
  have m: "mgr_ok st" using mgr_capture [OF assms(1,3)] by simp
  note drained = closeAllLoop_drains [OF m refl, of "m_ssh M"]
  have s': "s' = s1\<lparr>ts_ssh := CloseAll (m_ssh M) st, ts_docker := dockerCloseAll (m_dssh M) (ts_docker s),
      ts_disk := (last fss)(dp_handle p := None, dp_lock p := None)\<rparr>"
    using assms(4,5) s1 by (simp add: daemonStop_def Let_def Release_def)
  have "hosts (ts_docker s') = []" by (simp add: s' dockerCloseAll_def dcloseAllLoop_hosts gm_del_all)
  moreover have "live (d_io (ts_docker s')) \<inter> (\<Union>q \<in> set (gm_vals (hosts (ts_docker s))). hostHandles (ts_docker s) q) = {}"
    using dcloseAllLoop_drains [of _ _ "hosts (ts_docker s)" "m_dssh M" "ts_docker s"]
    by (fastforce simp: s' dockerCloseAll_def gm_vals_def)
  ultimately show ?thesis
    using SaveSnap_last [OF v] drained assms(2) s1(2) by (simp add: s' CloseAll_def pathsApart_def)
qed

section \<open>The start\<close>

lemma loadState_ok:
  assumes "mgr_ok (ts_ssh s)" and "loadState M path s = Some s'"
  shows "mgr_ok (ts_ssh s') \<and> ts_disk s' = ts_disk s"
  using assms Restore_spec [OF assms(1)]
  by (fastforce simp: loadState_def split: sum.splits)

lemma openStore_ends:
  assumes "mgr_ok (ts_ssh s)" and "openStore M p serving s = Some (r, s')"
  shows "mgr_ok (ts_ssh s') \<and> ts_disk s' = ts_disk s \<and> (r = Exited 1 \<or> r = serving)"
  using assms loadState_ok [OF assms(1)] by (auto simp: openStore_def split: sum.splits)

lemma publish_ends:
  assumes "publishAndServe M p a fmt s = Some (r, s')" and "mgr_ok (ts_ssh s)" and "pathsApart p"
  shows "mgr_ok (ts_ssh s') \<and> ts_disk s' (dp_lock p) = ts_disk s (dp_lock p) \<and>
    (r = Exited 1 \<or> (\<exists>addr token data. r = Serving addr token fmt \<and> m_listen M a = Inr addr \<and> GenerateToken (m_rand M) = Inr token
       \<and> hc_enc (m_handle M) \<lparr>ha_Addr = addr, ha_Token = token, ha_PID = m_pid M\<rparr> = Inr data
       \<and> ts_disk s' (dp_handle p) = Some data)) \<and>
    (ts_disk s' (dp_handle p) \<noteq> ts_disk s (dp_handle p) \<longrightarrow> (\<exists>addr. m_listen M a = Inr addr))"
proof -
  consider (early) "r = Exited 1" "s' = s"
    | (bound) token addr e fss where "GenerateToken (m_rand M) = Inr token" "m_listen M a = Inr addr"
        "WriteHandle (m_handle M) (m_hmkdir M) (m_hfault M) (dp_handle p)
           \<lparr>ha_Addr = addr, ha_Token = token, ha_PID = m_pid M\<rparr> (ts_disk s) = (e, fss)"
        "if e = None then openStore M p (Serving addr token fmt) (s\<lparr>ts_disk := last fss\<rparr>) = Some (r, s')
         else r = Exited 1 \<and> s' = s\<lparr>ts_disk := last fss\<rparr>"
    using assms(1) by (auto simp: publishAndServe_def split: sum.splits prod.splits option.splits)
  then show ?thesis
  proof cases
    case early
    then show ?thesis using assms(2) by simp
  next
    case bound
    have lock: "last fss (dp_lock p) = ts_disk s (dp_lock p)"
      using WriteHandle_other [OF bound(3)] assms(3) by (auto simp: pathsApart_def)
    show ?thesis
    proof (cases e)
      case (Some err)
      then show ?thesis using bound lock assms(2) by auto
    next
      case None
      then obtain data where d: "hc_enc (m_handle M) \<lparr>ha_Addr = addr, ha_Token = token, ha_PID = m_pid M\<rparr> = Inr data"
          "last fss = (ts_disk s)(dp_handle p \<mapsto> data, tmpPath (dp_handle p) := None)"
        using WriteHandle_ok bound(3) by blast
      have "openStore M p (Serving addr token fmt) (s\<lparr>ts_disk := last fss\<rparr>) = Some (r, s')" using None bound(4) by simp
      from openStore_ends [OF _ this] show ?thesis using lock bound(1,2) d assms(2) by auto
    qed
  qed
qed

lemma daemonStart_ends:
  assumes "daemonStart M fl s = Some (r, s')" and "mgr_ok (ts_ssh s)" and "DefaultPaths (m_configDir M) = Inr defs"
    and "p = pathsOf fl defs" and "pathsApart p"
  shows "mgr_ok (ts_ssh s') \<and>
    (case r of
       Exited n \<Rightarrow> n \<noteq> 0
     | Serving addr token fmt \<Rightarrow>
         m_listen M (fl_addr fl) = Inr addr \<and> GenerateToken (m_rand M) = Inr token \<and> ParseFormat (fl_format fl) = Inr fmt
         \<and> ts_disk s' (dp_lock p) = Some (itoa (m_pid M))
         \<and> (\<exists>data. hc_enc (m_handle M) \<lparr>ha_Addr = addr, ha_Token = token, ha_PID = m_pid M\<rparr> = Inr data
              \<and> ts_disk s' (dp_handle p) = Some data))
    \<and> (ts_disk s' (dp_handle p) \<noteq> ts_disk s (dp_handle p) \<longrightarrow>
         (\<exists>addr. m_listen M (fl_addr fl) = Inr addr) \<and> k_flock (m_lock M) = None)"
proof -
  consider (flag) "r = Exited 2" "s' = s"
    | (locked) e fs where "AcquireLock (m_lock M) (dp_lock p) (m_pid M) (ts_disk s) = (e, fs)"
        "if e = None then \<exists>fmt. ParseFormat (fl_format fl) = Inr fmt \<and>
             publishAndServe M p (fl_addr fl) fmt (s\<lparr>ts_disk := fs\<rparr>) = Some (r, s')
         else r = Exited 1 \<and> s' = s\<lparr>ts_disk := fs\<rparr>"
    using assms(1,3,4) by (auto simp: daemonStart_def Let_def split: sum.splits prod.splits option.splits)
  then show ?thesis
  proof cases
    case flag
    then show ?thesis using assms(2) by simp
  next
    case (locked e fs)
    have h: "fs (dp_handle p) = ts_disk s (dp_handle p)"
      using AcquireLock_other [OF locked(1)] assms(5) by (metis pathsApart_def)
    show ?thesis
    proof (cases e)
      case (Some err)
      then show ?thesis using locked(2) h assms(2) by simp
    next
      case None
      then obtain fmt where f: "ParseFormat (fl_format fl) = Inr fmt"
          and b: "publishAndServe M p (fl_addr fl) fmt (s\<lparr>ts_disk := fs\<rparr>) = Some (r, s')"
        using locked(2) by auto
      have l: "k_flock (m_lock M) = None" "fs (dp_lock p) = Some (itoa (m_pid M))"
        using locked(1) None AcquireLock_ok [of "m_lock M" "dp_lock p" "m_pid M" "ts_disk s" fs]
        by (auto simp: AcquireLock_def Let_def split: option.splits)
      from publish_ends [OF b _ assms(5)] show ?thesis using f l h assms(2) by auto
    qed
  qed
qed

text \<open>
  C17. How a start ends: the daemon serves only under a lock that it took (the file holds its pid), on a listener that was bound
  before, with a fresh token, and the handle file then tells exactly the bound address, the token and the pid; the managers' invariant
  holds. A start that fails before the handle is written leaves the handle file as it was.
\<close>

theorem daemon_start_outcome:
  assumes "daemonStart M fl s = Some (r, s')" and "mgr_ok (ts_ssh s)" and "DefaultPaths (m_configDir M) = Inr defs"
    and "p = pathsOf fl defs" and "pathsApart p"
  shows "mgr_ok (ts_ssh s') \<and>
    (case r of
       Exited n \<Rightarrow> n \<noteq> 0
     | Serving addr token fmt \<Rightarrow>
         m_listen M (fl_addr fl) = Inr addr \<and> GenerateToken (m_rand M) = Inr token \<and> ParseFormat (fl_format fl) = Inr fmt
         \<and> ts_disk s' (dp_lock p) = Some (itoa (m_pid M))
         \<and> (\<exists>data. hc_enc (m_handle M) \<lparr>ha_Addr = addr, ha_Token = token, ha_PID = m_pid M\<rparr> = Inr data
              \<and> ts_disk s' (dp_handle p) = Some data))
    \<and> (ts_disk s' (dp_handle p) \<noteq> ts_disk s (dp_handle p) \<longrightarrow>
         (\<exists>addr. m_listen M (fl_addr fl) = Inr addr) \<and> k_flock (m_lock M) = None)"
  using daemonStart_ends [OF assms] .

section \<open>Who gets in\<close>

lemma bearer_accepted: "checkBearer \<lparr>rq_Method = m, rq_Authorization = ''Bearer '' @ token, rq_Body = b\<rparr> token' \<longleftrightarrow> token' = token"
proof
  assume "checkBearer \<lparr>rq_Method = m, rq_Authorization = ''Bearer '' @ token, rq_Body = b\<rparr> token'"
  then have "drop (length ''bearer '') (''Bearer '' @ token) = token'"
    by (simp add: checkBearer_def Let_def split: if_splits)
  then show "token' = token" by simp
next
  assume "token' = token"
  moreover have "equalFold ''Bearer '' ''bearer ''" by code_simp
  ultimately show "checkBearer \<lparr>rq_Method = m, rq_Authorization = ''Bearer '' @ token, rq_Body = b\<rparr> token'"
    by (auto simp: checkBearer_iff)
qed

lemma hexDigit_inj: "a < 16 \<Longrightarrow> b < 16 \<Longrightarrow> hexDigit a = hexDigit b \<Longrightarrow> a = b"
proof -
  have "distinct (map hexDigit [0..<16])" by code_simp
  then show "a < 16 \<Longrightarrow> b < 16 \<Longrightarrow> hexDigit a = hexDigit b \<Longrightarrow> a = b" by (simp add: distinct_map inj_on_def)
qed

lemma hexEncode_inj: "list_all (\<lambda>b. b < 256) bs \<Longrightarrow> list_all (\<lambda>b. b < 256) cs \<Longrightarrow> hexEncode bs = hexEncode cs \<Longrightarrow> bs = cs"
proof (induction bs arbitrary: cs)
  case Nil
  then show ?case by (cases cs) (simp_all add: hexEncode_def)
next
  case (Cons b bs)
  then obtain c cs' where c: "cs = c # cs'" by (cases cs) (simp_all add: hexEncode_def)
  have "b < 256" "c < 256" using Cons.prems c by simp_all
  moreover have "hexDigit (b div 16) = hexDigit (c div 16)" "hexDigit (b mod 16) = hexDigit (c mod 16)" "hexEncode bs = hexEncode cs'"
    using Cons.prems(3) c by (simp_all add: hexEncode_def)
  ultimately have "b div 16 = c div 16" "b mod 16 = c mod 16" "bs = cs'"
    using Cons c by (auto intro: hexDigit_inj)
  then show ?case using c by (metis div_mult_mod_eq)
qed

text \<open>
  C12. Only who knows the bytes that were drawn at the start gets to the tools: the daemon serves under the token made of them, answers every
  request without it, on whatever path, with 401 and without running a handler, in particular one with the token of a daemon that
  drew other bytes, and passes a request that has it to the rpc endpoint or the event streams by its path.
\<close>

theorem daemon_guarded:
  assumes "daemonStart M fl s = Some (Serving addr token fmt, s')" and "mgr_ok (ts_ssh s)" and "DefaultPaths (m_configDir M) = Inr defs"
    and "p = pathsOf fl defs" and "pathsApart p" and "m_rand M = Inr buf" and "list_all (\<lambda>b. b < 256) buf" and "list_all (\<lambda>b. b < 256) guess"
  shows "serveHTTP token rpc sse path r =
      (if \<exists>scheme. rq_Authorization r = scheme @ hexEncode buf \<and> equalFold scheme ''bearer ''
       then if path = ''/rpc'' then rpc r else sse r
       else \<lparr>rs_Status = 401, rs_Header = [(''WWW-Authenticate'', ''Bearer realm=\"remote-shell-mcp\"'')], rs_Body = ''unauthorized''\<rparr>)
    \<and> (rs_Status (serveHTTP token (\<lambda>_. \<lparr>rs_Status = 200, rs_Header = [], rs_Body = []\<rparr>) sse ''/rpc''
          \<lparr>rq_Method = m, rq_Authorization = ''Bearer '' @ hexEncode guess, rq_Body = b\<rparr>) = (if guess = buf then 200 else 401))"
proof -
  have t: "token = hexEncode buf"
    using daemonStart_ends [OF assms(1-5)] assms(6) by (simp add: GenerateToken_def)
  have "hexEncode buf = hexEncode guess \<longleftrightarrow> guess = buf" using hexEncode_inj [OF assms(7,8)] by auto
  then show ?thesis by (simp add: serveHTTP_def AuthMiddleware_def checkBearer_iff [symmetric] bearer_accepted [simplified] t)
qed

section \<open>One daemon after another\<close>

lemma serving_loaded:
  assumes "daemonStart M fl s = Some (Serving a t fmt, s')" and "DefaultPaths (m_configDir M) = Inr defs"
    and "p = pathsOf fl defs" and "pathsApart p"
  shows "\<exists>fs. loadState M (dp_state p) (s\<lparr>ts_disk := fs\<rparr>) = Some s' \<and> fs (dp_state p) = ts_disk s (dp_state p)"
proof -
  obtain fs where l: "AcquireLock (m_lock M) (dp_lock p) (m_pid M) (ts_disk s) = (None, fs)"
      and b: "publishAndServe M p (fl_addr fl) fmt (s\<lparr>ts_disk := fs\<rparr>) = Some (Serving a t fmt, s')"
    using assms(1-3)
    by (auto simp: daemonStart_def publishAndServe_def openStore_def Let_def split: sum.splits prod.splits option.splits)
  obtain h fss where w: "WriteHandle (m_handle M) (m_hmkdir M) (m_hfault M) (dp_handle p) h fs = (None, fss)"
      and o: "openStore M p (Serving a t fmt) (s\<lparr>ts_disk := last fss\<rparr>) = Some (Serving a t fmt, s')"
    using b by (auto simp: publishAndServe_def openStore_def split: sum.splits prod.splits option.splits)
  have "loadState M (dp_state p) (s\<lparr>ts_disk := last fss\<rparr>) = Some s'"
    using o assms(4) by (auto simp: openStore_def NewStore_def pathsApart_def split: sum.splits option.splits)
  moreover have "last fss (dp_state p) = ts_disk s (dp_state p)"
    using WriteHandle_other [OF w] AcquireLock_other [OF l] assms(4) by (auto simp: pathsApart_def)
  ultimately show ?thesis by blast
qed

lemma LoadSnap_at: "fs path = fs' path \<Longrightarrow> LoadSnap j ft path fs = LoadSnap j ft path fs'"
  by (simp add: LoadSnap_def)

text \<open>
  C11. A daemon that is started after another one was shut down restores what that one had saved: it reads back the snapshot of the
  first one's managers (if its write succeeded, the codec reads back what it writes and the file has at most 16 MiB), and its sessions
  and docker hosts are exactly those of the snapshot that could be connected, so that nothing that was not persistent comes
  back; the state file is left as it is until the first change.
\<close>

theorem daemon_restart:
  assumes "mgr_ok (ts_ssh s)" and "pathsApart p" and "Capture (ts_ssh s) (ts_docker s) = (sn, st)"
    and "PersistNow (m_codec M) ft (Some (dp_state p)) s = (None, s1)"
    and "j_enc (m_codec M) (fixVersion (snapVal st sn)) = Inr data" and "j_dec (m_codec M') data = Inr (fixVersion (snapVal st sn))"
    and "length data \<le> maxStateFileBytes" and "m_load M' = noFault"
    and "mgr_ok (ts_ssh s0)" and "tbl (ts_ssh s0) = []" and "hosts (ts_docker s0) = []"
    and "ts_disk s0 = ts_disk (daemonStop M ft p s)" and "DefaultPaths (m_configDir M') = Inr defs" and "p = pathsOf fl defs"
    and "daemonStart M' fl s0 = Some (Serving a t fmt, s')"
  shows "ts_disk s' (dp_state p) = Some data \<and>
    (\<exists>ks fks dks. Restore (m_ssh M') (m_dssh M') (m_docker M') (m_hops M') (fixVersion (snapVal st sn)) (ts_ssh s0) (ts_docker s0)
         = Some ((ks, fks, dks), ts_ssh s', ts_docker s')
       \<and> {k. gm_get (tbl (ts_ssh s')) k \<noteq> None} = set ks \<and> subseq ks (map sr_ID (sn_SSHSessions sn))
       \<and> {k. gm_get (hosts (ts_docker s')) k \<noteq> None} = set dks \<and> subseq dks (map dr_ID (sn_DockerHosts sn)))"
proof -
  have disk: "ts_disk s0 (dp_state p) = Some data"
  proof -
    obtain r fss where v: "SaveSnap (m_codec M) ft (dp_state p) (snapVal st sn) (ts_disk s) = (r, fss)" by fastforce
    then have "r = None" "s1 = s\<lparr>ts_ssh := st, ts_disk := last fss\<rparr>" using assms(3,4) by (auto simp: PersistNow_def)
    then show ?thesis
      using SaveSnap_last [OF v] assms(2,4,5,12) by (simp add: daemonStop_def Let_def Release_def pathsApart_def)
  qed
  obtain fs where l: "loadState M' (dp_state p) (s0\<lparr>ts_disk := fs\<rparr>) = Some s'" "fs (dp_state p) = Some data"
    using serving_loaded [OF assms(15,13,14,2)] disk by auto
  have "fixVersion (fixVersion (snapVal st sn)) = fixVersion (snapVal st sn)" by (simp add: fixVersion_def)
  then have "LoadSnap (m_codec M') (m_load M') (dp_state p) fs = Inr (fixVersion (snapVal st sn))"
    using l(2) assms(6-8) by (simp add: LoadSnap_def noFault_def)
  then obtain ks fks dks where r: "Restore (m_ssh M') (m_dssh M') (m_docker M') (m_hops M') (fixVersion (snapVal st sn))
        (ts_ssh s0) (ts_docker s0) = Some ((ks, fks, dks), ts_ssh s', ts_docker s')" and d: "ts_disk s' = fs"
    using l(1) by (auto simp: loadState_def)
  have sn: "map sr_ID (sn_SSHSessions (fixVersion (snapVal st sn))) = map sr_ID (sn_SSHSessions sn)"
      "sn_DockerHosts (fixVersion (snapVal st sn)) = sn_DockerHosts sn"
    by (simp_all add: fixVersion_def snapVal_def)
  note restored = Restore_spec [OF assms(9) r, unfolded sn]
  have "{k. gm_get (tbl (ts_ssh s')) k \<noteq> None} = set ks" "{k. gm_get (hosts (ts_docker s')) k \<noteq> None} = set dks"
    using restored assms(10,11) by auto
  then show ?thesis using r restored d l(2) by blast
qed

text \<open>
  A state file that does not load (it is damaged, or too large, or cannot be read at the moment) is only warned about: the
  daemon serves with nothing restored, and the next write, at the latest the one of the shutdown, replaces the file by an empty
  snapshot.
\<close>

theorem failed_load_overwritten:
  assumes "daemonStart M fl s = Some (Serving a t fmt, s1)" and "DefaultPaths (m_configDir M) = Inr defs"
    and "p = pathsOf fl defs" and "pathsApart p" and "LoadSnap (m_codec M) (m_load M) (dp_state p) (ts_disk s) = Inl e"
    and "tbl (ts_ssh s) = []" and "hosts (ts_docker s) = []" and "j_enc (m_codec M) emptySnapshot = Inr data"
  shows "ts_disk (daemonStop M noFault p s1) (dp_state p) = Some data"
proof -
  obtain fs where l: "loadState M (dp_state p) (s\<lparr>ts_disk := fs\<rparr>) = Some s1" "fs (dp_state p) = ts_disk s (dp_state p)"
    using serving_loaded [OF assms(1-4)] by blast
  then have s1: "s1 = s\<lparr>ts_disk := fs\<rparr>"
    using assms(5) LoadSnap_at [where fs = fs and fs' = "ts_disk s" and path = "dp_state p", OF l(2), of "m_codec M" "m_load M"] by (simp add: loadState_def)
  have c: "Capture (ts_ssh s) (ts_docker s) = (emptySnapshot, ts_ssh s)"
    using assms(6,7)
    by (simp add: Capture_closed persistentOf_def captureDocker_def dockerHosts_def jumpArrays_def scrubArrays_empty emptySnapshot_def
        gm_vals_def)
  obtain r fss where v: "SaveSnap (m_codec M) noFault (dp_state p) (snapVal (ts_ssh s) emptySnapshot) fs = (r, fss)" by fastforce
  have e: "fixVersion (snapVal (ts_ssh s) emptySnapshot) = emptySnapshot"
    by (simp add: fixVersion_def snapVal_def emptySnapshot_def)
  have "r = None" using v e assms(8) by (auto simp: SaveSnap_def noFault_def Let_def)
  then show ?thesis
    using SaveSnap_last [OF v] v c e assms(4,8) s1
    by (simp add: daemonStop_def PersistNow_def Let_def Release_def pathsApart_def)
qed

text \<open>A start that fails at the state directory exits without its deferred calls: the handle file stays.\<close>

theorem failed_store_leaves_handle:
  assumes "AcquireLock (m_lock M) (dp_lock p) (m_pid M) (ts_disk s) = (None, fs)" and "ParseFormat (fl_format fl) = Inr fmt"
    and "DefaultPaths (m_configDir M) = Inr defs" and "p = pathsOf fl defs" and "GenerateToken (m_rand M) = Inr token"
    and "m_listen M (fl_addr fl) = Inr addr"
    and "WriteHandle (m_handle M) (m_hmkdir M) (m_hfault M) (dp_handle p)
       \<lparr>ha_Addr = addr, ha_Token = token, ha_PID = m_pid M\<rparr> fs = (None, fss)"
    and "m_smkdir M (pathDir (dp_state p)) = Some e" and "pathsApart p"
  shows "\<exists>s'. daemonStart M fl s = Some (Exited 1, s') \<and> ts_disk s' (dp_handle p) \<noteq> None"
  using assms WriteHandle_ok [OF assms(7)]
  by (auto simp: daemonStart_def publishAndServe_def openStore_def NewStore_def pathsApart_def)

section \<open>Witnesses\<close>

text \<open>A daemon with one persistent session, and a second one started on the files it leaves.\<close>

definition demo_keyed :: "nat st" where
  "demo_keyed = demo_st\<lparr>sess := (\<lambda>p. (demo_session ''a'')\<lparr>s_Spec := demo_ref\<lparr>Auth := emptyAuth\<lparr>KeyPath := ''/k''\<rparr>\<rparr>\<rparr>)\<rparr>"

lemma demo_keyed_ok: "mgr_ok demo_keyed"
  by (auto simp: mgr_ok_def demo_keyed_def demo_st_def io_ok_def sess_wf_def demo_session_def ownedL_def owned_def
      transportL_def transport_def opt_list_def gm_vals_def gm_get_def gm_wf_def split: if_splits)

definition demo_life :: "nat toolstate" where
  "demo_life = \<lparr>ts_ssh = demo_keyed, ts_docker = demo_dst0, ts_disk = Map.empty\<rparr>"

definition demo_saved :: snap_val where
  "demo_saved = fixVersion (snapVal (snd (Capture demo_keyed demo_dst0)) (fst (Capture demo_keyed demo_dst0)))"

definition demo_boot :: "nat boot_env" where
  "demo_boot =
     \<lparr>m_configDir = Inr ''/c'', m_pid = 42, m_lock = \<lparr>k_mkdir = None, k_open = None, k_flock = None, k_truncate = None, k_write = None\<rparr>,
      m_rand = Inr [10, 11], m_listen = (\<lambda>a. Inr ''127.0.0.1:41000''), m_handle = demoCodec, m_hmkdir = None, m_hfault = noFault,
      m_smkdir = (\<lambda>_. None), m_codec = \<lparr>j_enc = (\<lambda>sn. Inr ''{}''), j_dec = (\<lambda>s. Inr demo_saved)\<rparr>, m_load = noFault,
      m_ssh = demo_ext, m_dssh = demo_ext, m_docker = demo_dext, m_hops = 2\<rparr>"

definition demo_flags :: flags where
  "demo_flags = \<lparr>fl_addr = ''127.0.0.1:0'', fl_state = ''/s'', fl_lock = ''/l'', fl_handle = ''/h'', fl_log = ''text'', fl_format = ''toon''\<rparr>"

definition demo_paths :: daemon_paths where
  "demo_paths = pathsOf demo_flags (''/c/l'', ''/c/s'', ''/c/h'')"

definition demo_next :: "nat toolstate" where
  "demo_next = \<lparr>ts_ssh = demo_none, ts_docker = demo_dst0, ts_disk = ts_disk (daemonStop demo_boot noFault demo_paths demo_life)\<rparr>"

lemma demo_apart: "pathsApart demo_paths" "pathsOf demo_flags defs = demo_paths"
  by (simp_all add: pathsApart_def demo_paths_def demo_flags_def pathsOf_def tmpPath_def split: prod.split)

lemma demo_defaults: "\<exists>defs. DefaultPaths (m_configDir demo_boot) = Inr defs"
  by (simp add: DefaultPaths_def demo_boot_def Let_def)

lemma demo_path_values: "dp_lock demo_paths = ''/l''" "dp_state demo_paths = ''/s''" "dp_handle demo_paths = ''/h''"
  by (simp_all add: demo_paths_def pathsOf_def demo_flags_def)

lemma demo_stop_saved: "\<exists>s1. PersistNow (m_codec demo_boot) noFault (Some (dp_state demo_paths)) demo_life = (None, s1)"
  by (simp add: PersistNow_def SaveSnap_def noFault_def demo_boot_def Let_def split: prod.split)

lemma demo_disk: "ts_disk demo_next ''/s'' = Some ''{}''"
proof -
  obtain sn st where c: "Capture (ts_ssh demo_life) (ts_docker demo_life) = (sn, st)" by fastforce
  obtain r fss where v: "SaveSnap (m_codec demo_boot) noFault ''/s'' (snapVal st sn) (ts_disk demo_life) = (r, fss)" by fastforce
  have "r = None" using v by (auto simp: SaveSnap_def demo_boot_def noFault_def Let_def)
  moreover have "j_enc (m_codec demo_boot) x = Inr ''{}''" for x by (simp add: demo_boot_def)
  ultimately show ?thesis
    using SaveSnap_last [OF v] c v by (simp add: demo_next_def daemonStop_def PersistNow_def demo_path_values Let_def Release_def)
qed

lemma demo_restored:
  "\<exists>st ds. Restore demo_ext demo_ext demo_dext 2 demo_saved demo_none demo_dst0 = Some (([''a''], [], []), st, ds)"
proof -
  have "map_option fst (Restore demo_ext demo_ext demo_dext 2 demo_saved demo_none demo_dst0) = Some ([''a''], [], [])"
    by code_simp
  then show ?thesis by auto
qed

lemma demo_version: "fixVersion demo_saved = demo_saved"
  by (simp add: demo_saved_def fixVersion_def)

lemma demo_token: "hexEncode [10, 11] = ''0a0b''"
  by code_simp

lemma demo_start_on:
  assumes "fs ''/s'' = Some ''{}''"
  shows "\<exists>s'. daemonStart demo_boot demo_flags \<lparr>ts_ssh = demo_none, ts_docker = demo_dst0, ts_disk = fs\<rparr> =
    Some (Serving ''127.0.0.1:41000'' ''0a0b'' FormatTOON, s')"
proof -
  have "LoadSnap (m_codec demo_boot) (m_load demo_boot) ''/s'' g = Inr demo_saved" if "g ''/s'' = Some ''{}''" for g
    using that demo_version by (simp add: LoadSnap_def noFault_def demo_boot_def maxStateFileBytes_def)
  then have load: "\<exists>s'. loadState demo_boot ''/s'' \<lparr>ts_ssh = demo_none, ts_docker = demo_dst0, ts_disk = g\<rparr> = Some s'"
    if "g ''/s'' = Some ''{}''" for g
    using that demo_restored by (auto simp: loadState_def demo_boot_def)
  have store: "NewStore pathJoin pathDir (m_smkdir demo_boot) (m_configDir demo_boot) ''/s'' = Inr ''/s''"
    by (simp add: NewStore_def demo_boot_def)
  obtain fss where w: "WriteHandle (m_handle demo_boot) (m_hmkdir demo_boot) (m_hfault demo_boot) ''/h''
      \<lparr>ha_Addr = ''127.0.0.1:41000'', ha_Token = ''0a0b'', ha_PID = m_pid demo_boot\<rparr> (fs(''/l'' \<mapsto> itoa 42)) = (None, fss)"
    by (simp add: WriteHandle_def demo_boot_def demoCodec_def noFault_def Let_def)
  have "last fss ''/s'' = Some ''{}''" using WriteHandle_other [OF w, of "''/s''"] assms by (simp add: tmpPath_def)
  from load [where g = "last fss", OF this] obtain s' where
      l: "loadState demo_boot ''/s'' \<lparr>ts_ssh = demo_none, ts_docker = demo_dst0, ts_disk = last fss\<rparr> = Some s'" by blast
  have lock: "AcquireLock (m_lock demo_boot) ''/l'' (m_pid demo_boot) fs = (None, fs(''/l'' \<mapsto> itoa 42))"
    by (simp add: AcquireLock_def demo_boot_def Let_def)
  have fmt: "ParseFormat (fl_format demo_flags) = Inr FormatTOON" by (simp add: demo_flags_def ParseFormat_def)
  have "m_rand demo_boot = Inr [10, 11]" "m_listen demo_boot a = Inr ''127.0.0.1:41000''" for a by (simp_all add: demo_boot_def)
  then show ?thesis using demo_defaults l w lock store
    by (auto simp: daemonStart_def publishAndServe_def openStore_def GenerateToken_def demo_token demo_apart demo_path_values Let_def fmt)
qed

lemma demo_start:
  "\<exists>s'. daemonStart demo_boot demo_flags demo_next = Some (Serving ''127.0.0.1:41000'' ''0a0b'' FormatTOON, s')"
  unfolding demo_next_def by (rule demo_start_on) (use demo_disk in \<open>simp add: demo_next_def\<close>)

theorem daemon_shutdown_witness:
  "let s' = daemonStop demo_boot noFault demo_paths demo_life in
     ts_disk s' ''/s'' = Some ''{}'' \<and> tbl (ts_ssh s') = [] \<and> live (st_io (ts_ssh s')) = {} \<and> ts_disk s' ''/h'' = None"
proof -
  obtain s1 where p: "PersistNow (m_codec demo_boot) noFault (Some (dp_state demo_paths)) demo_life = (None, s1)"
    using demo_stop_saved by blast
  have m: "mgr_ok (ts_ssh demo_life)" by (simp add: demo_life_def demo_keyed_ok)
  from daemon_shutdown [OF m demo_apart(1) surjective_pairing p refl]
  show ?thesis by (simp add: Let_def demo_path_values) (simp add: demo_boot_def)
qed

theorem daemon_start_outcome_witness:
  "\<exists>s'. daemonStart demo_boot demo_flags demo_next = Some (Serving ''127.0.0.1:41000'' ''0a0b'' FormatTOON, s') \<and>
     mgr_ok (ts_ssh s') \<and> ts_disk s' ''/l'' = Some (itoa 42) \<and> ts_disk s' ''/h'' \<noteq> None"
proof -
  obtain s' where s: "daemonStart demo_boot demo_flags demo_next = Some (Serving ''127.0.0.1:41000'' ''0a0b'' FormatTOON, s')"
    using demo_start by blast
  obtain defs where d: "DefaultPaths (m_configDir demo_boot) = Inr defs" using demo_defaults by blast
  have m: "mgr_ok (ts_ssh demo_next)" by (simp add: demo_next_def demo_none_ok)
  from daemon_start_outcome [OF s m d demo_apart(2) [symmetric] demo_apart(1)]
  have "mgr_ok (ts_ssh s')" "ts_disk s' ''/l'' = Some (itoa (m_pid demo_boot))" "ts_disk s' ''/h'' \<noteq> None"
    by (auto simp: demo_path_values)
  moreover have "m_pid demo_boot = 42" by (simp add: demo_boot_def)
  ultimately show ?thesis using s by simp
qed

theorem daemon_guarded_witness:
  "\<exists>s'. daemonStart demo_boot demo_flags demo_next = Some (Serving ''127.0.0.1:41000'' ''0a0b'' FormatTOON, s') \<and>
     rs_Status (serveHTTP ''0a0b'' (\<lambda>_. \<lparr>rs_Status = 200, rs_Header = [], rs_Body = []\<rparr>) (\<lambda>_. \<lparr>rs_Status = 404, rs_Header = [], rs_Body = []\<rparr>)
       ''/rpc'' \<lparr>rq_Method = ''POST'', rq_Authorization = ''Bearer '' @ hexEncode [10, 12], rq_Body = Inr []\<rparr>) = 401"
proof -
  obtain s' where s: "daemonStart demo_boot demo_flags demo_next = Some (Serving ''127.0.0.1:41000'' ''0a0b'' FormatTOON, s')"
    using demo_start by blast
  obtain defs where d: "DefaultPaths (m_configDir demo_boot) = Inr defs" using demo_defaults by blast
  have m: "mgr_ok (ts_ssh demo_next)" by (simp add: demo_next_def demo_none_ok)
  have r: "m_rand demo_boot = Inr [10, 11]" by (simp add: demo_boot_def)
  let ?q = "\<lparr>rq_Method = ''POST'', rq_Authorization = ''Bearer '' @ hexEncode [10, 12], rq_Body = Inr []\<rparr>"
  have "list_all (\<lambda>b. b < 256) [10, 11::nat]" "list_all (\<lambda>b. b < 256) [10, 12::nat]" "[10, 12] \<noteq> [10, 11::nat]" by simp_all
  with conjunct2 [OF daemon_guarded [OF s m d demo_apart(2) [symmetric] demo_apart(1) r, of "[10, 12]"]]
  show ?thesis using s by (intro exI conjI) (assumption, simp only: if_False)
qed

theorem daemon_restart_witness:
  "\<exists>s'. daemonStart demo_boot demo_flags demo_next = Some (Serving ''127.0.0.1:41000'' ''0a0b'' FormatTOON, s') \<and>
     ts_disk s' ''/s'' = Some ''{}'' \<and> {k. gm_get (tbl (ts_ssh s')) k \<noteq> None} = {''a''}"
proof -
  obtain s' where s: "daemonStart demo_boot demo_flags demo_next = Some (Serving ''127.0.0.1:41000'' ''0a0b'' FormatTOON, s')"
    using demo_start by blast
  obtain defs where d: "DefaultPaths (m_configDir demo_boot) = Inr defs" using demo_defaults by blast
  obtain s1 where p: "PersistNow (m_codec demo_boot) noFault (Some (dp_state demo_paths)) demo_life = (None, s1)"
    using demo_stop_saved by blast
  have m: "mgr_ok (ts_ssh demo_life)" "mgr_ok (ts_ssh demo_next)" "tbl (ts_ssh demo_next) = []" "hosts (ts_docker demo_next) = []"
    by (simp_all add: demo_life_def demo_next_def demo_keyed_ok demo_none_ok demo_dst0_def)
  have c: "Capture (ts_ssh demo_life) (ts_docker demo_life) = (fst (Capture demo_keyed demo_dst0), snd (Capture demo_keyed demo_dst0))"
    by (simp add: demo_life_def)
  have j: "j_enc (m_codec demo_boot) sn = Inr ''{}''" "j_dec (m_codec demo_boot) ''{}'' = Inr demo_saved" "m_load demo_boot = noFault" for sn
    by (simp_all add: demo_boot_def)
  have z: "ts_disk demo_next = ts_disk (daemonStop demo_boot noFault demo_paths demo_life)" by (simp add: demo_next_def)
  have len: "length ''{}'' \<le> maxStateFileBytes" by (simp add: maxStateFileBytes_def)
  note r = daemon_restart [OF m(1) demo_apart(1) c p j(1) j(2) [unfolded demo_saved_def] len j(3) m(2-4) z d demo_apart(2) [symmetric] s]
  obtain ks fks dks where "Restore demo_ext demo_ext demo_dext 2 demo_saved demo_none demo_dst0 = Some ((ks, fks, dks), ts_ssh s', ts_docker s')"
      "{k. gm_get (tbl (ts_ssh s')) k \<noteq> None} = set ks"
    using r by (auto simp: demo_next_def demo_saved_def demo_boot_def)
  then show ?thesis using s r demo_restored by (auto simp: demo_path_values)
qed

end
