(* ===== verification/Cli.thy ===== *)
theory Cli
  imports Spawn Daemon Setup
begin

text \<open>
  The command line (\<open>cmd/remote-shell-mcp/cli.go\<close> and the dispatch of \<open>main.go\<close>): one tool call against the daemon's rpc endpoint.
  \<open>encoding/json\<close> and the toon package are parameters, and so is the transport that carries a request to the daemon.
\<close>

section \<open>Arguments\<close>

definition identChar :: "nat \<Rightarrow> char \<Rightarrow> bool" where
  "identChar i c \<longleftrightarrow>
     (let n = (of_char c :: nat); between = (\<lambda>a b. of_char a \<le> n \<and> n \<le> of_char b) in
      c = CHR ''_'' \<or> between CHR ''a'' CHR ''z'' \<or> between CHR ''A'' CHR ''Z'' \<or> (0 < i \<and> between CHR ''0'' CHR ''9''))"

text \<open>The loop over \<open>end\<close>: how many bytes from here on belong to the key.\<close>

fun keyLen :: "nat \<Rightarrow> string \<Rightarrow> nat" where
  "keyLen i [] = 0"
| "keyLen i (c # s) = (if identChar i c then Suc (keyLen (Suc i) s) else 0)"

datatype kvop = OpString | OpJson | OpFile | OpJsonFile

definition splitKVOp :: "string \<Rightarrow> (string \<times> kvop \<times> string) option" where
  "splitKVOp s =
     (let e = keyLen 0 s in
      if e = 0 then None
      else (let key = take e s; rest = drop e s in
            if hasPrefix rest '':@='' then Some (key, OpJsonFile, drop 3 rest)
            else if hasPrefix rest '':='' then Some (key, OpJson, drop 2 rest)
            else if hasPrefix rest ''@='' then Some (key, OpFile, drop 2 rest)
            else if hasPrefix rest ''='' then Some (key, OpString, drop 1 rest)
            else None))"

text \<open>What an argument can be: a string, a decoded JSON value, or what \<open>coerceLooseJSON\<close> makes of a bare word.\<close>

datatype 'j argval = AStr string | AJson 'j | ABool bool | ANull | AInt int | AFloat string

text \<open>\<open>parseFloat\<close> tells whether \<open>strconv.ParseFloat\<close> accepts the word.\<close>

definition coerceLooseJSON :: "(string \<Rightarrow> bool) \<Rightarrow> string \<Rightarrow> 'j argval option" where
  "coerceLooseJSON parseFloat v =
     (if v = ''true'' then Some (ABool True)
      else if v = ''false'' then Some (ABool False)
      else if v = ''null'' then Some ANull
      else (case atoi v of
              Some n \<Rightarrow> Some (AInt n)
            | None \<Rightarrow> if parseFloat v then Some (AFloat v) else None))"

record 'j arg_env =
  g_json :: "string \<Rightarrow> 'j res"
  g_float :: "string \<Rightarrow> bool"
  g_file :: "string \<Rightarrow> string res"

text \<open>The body of the loop: the value one argument gives.\<close>

fun argValue :: "'j arg_env \<Rightarrow> string \<Rightarrow> kvop \<Rightarrow> string \<Rightarrow> 'j argval res" where
  "argValue G k OpString v = Inr (AStr v)"
| "argValue G k OpJson v =
     (case g_json G v of
        Inr j \<Rightarrow> Inr (AJson j)
      | Inl e \<Rightarrow>
          (case coerceLooseJSON (g_float G) v of
             Some a \<Rightarrow> Inr a
           | None \<Rightarrow> Inl (Wrapf ''arg %s: not valid JSON: %v'' [k] e)))"
| "argValue G k OpFile v =
     (case g_file G v of Inl e \<Rightarrow> Inl (Wrapf ''arg %s: %v'' [k] e) | Inr d \<Rightarrow> Inr (AStr d))"
| "argValue G k OpJsonFile v =
     (case g_file G v of
        Inl e \<Rightarrow> Inl (Wrapf ''arg %s: %v'' [k] e)
      | Inr d \<Rightarrow>
          (case g_json G d of
             Inl e \<Rightarrow> Inl (Wrapf ''arg %s: file is not valid JSON: %v'' [k] e)
           | Inr j \<Rightarrow> Inr (AJson j)))"

fun kvLoop :: "'j arg_env \<Rightarrow> string list \<Rightarrow> 'j argval gomap \<Rightarrow> 'j argval gomap res" where
  "kvLoop G [] out = Inr out"
| "kvLoop G (a # as) out =
     (case splitKVOp a of
        None \<Rightarrow> Inl (Errorf ''bad arg %q (expected key=value, key:=json, key@=file, or key:@=file)'' [a])
      | Some (k, op, v) \<Rightarrow>
          (case argValue G k op v of
             Inl e \<Rightarrow> Inl e
           | Inr x \<Rightarrow> kvLoop G as (gm_put k x out)))"

definition parseKVArgs :: "'j arg_env \<Rightarrow> string list \<Rightarrow> 'j argval gomap res" where
  "parseKVArgs G args = kvLoop G args []"

section \<open>The rpc client\<close>

record 'r rpcResp =
  rr_Result :: 'r
  rr_Error :: "(int \<times> string) option"

text \<open>What is asked for.\<close>

datatype 'j rpc_call = ToolsList | ToolsCall string "'j argval gomap"

text \<open>The JSON codec on requests and responses.\<close>

record ('j, 'r) rpc_codec =
  jr_req :: "'j rpc_call \<Rightarrow> string res"
  jr_resp :: "string \<Rightarrow> 'r rpcResp res"

definition rpcDo ::
    "('j, 'r) rpc_codec \<Rightarrow> string \<Rightarrow> (request \<Rightarrow> response res) \<Rightarrow> 'j rpc_call \<Rightarrow> 'r res" where
  "rpcDo J token send c =
     (case jr_req J c of
        Inl e \<Rightarrow> Inl e
      | Inr body \<Rightarrow>
          (case send \<lparr>rq_Method = ''POST'', rq_Authorization = (if token \<noteq> [] then ''Bearer '' @ token else []),
                      rq_Body = Inr body\<rparr> of
             Inl e \<Rightarrow> Inl e
           | Inr resp \<Rightarrow>
               if rs_Status resp = 401 then Inl (Errorf ''daemon returned 401 (token mismatch)'' [])
               else if rs_Status resp \<ge> 400 then
                 Inl (Errorf ''daemon returned %d: %s'' [nat_dec (rs_Status resp), trimSpace (rs_Body resp)])
               else (case jr_resp J (rs_Body resp) of
                       Inl e \<Rightarrow> Inl (Wrapf ''decode rpc response: %w (body=%s)'' [rs_Body resp] e)
                     | Inr out \<Rightarrow>
                         (case rr_Error out of
                            Some (code, msg) \<Rightarrow> Inl (Errorf ''rpc error %d: %s'' [itoa code, msg])
                          | None \<Rightarrow> Inr (rr_Result out)))))"

section \<open>Output\<close>

text \<open>Lines on standard output and standard error.\<close>

datatype outline = OnStdout string | OnStderr string | ErrorLine goerr

datatype outputMode = outputAsIs | outputJSON | outputTOON

text \<open>Decoders and encoders of the text a tool returns.\<close>

record 'v text_codec =
  tc_json :: "string \<Rightarrow> 'v res"
  tc_toon :: "string \<Rightarrow> 'v res"
  tc_indent :: "'v \<Rightarrow> string res"
  tc_marshal :: "'v \<Rightarrow> string res"

definition transcodeOutput :: "'v text_codec \<Rightarrow> string \<Rightarrow> outputMode \<Rightarrow> string" where
  "transcodeOutput C text mode =
     (if mode = outputAsIs then text
      else (case (case tc_json C text of Inr v \<Rightarrow> Inr v | Inl _ \<Rightarrow> tc_toon C text) of
              Inl _ \<Rightarrow> text
            | Inr v \<Rightarrow>
                (case (if mode = outputJSON then tc_indent C v else tc_marshal C v) of
                   Inl _ \<Rightarrow> text
                 | Inr s \<Rightarrow> s)))"

text \<open>What a result decodes to, as a tool's result and as a list of tools; \<open>d_raw\<close> is the result's own text.\<close>

record tool_result =
  tr_content :: "(string \<times> string) list"
  tr_isError :: bool

record 'sc tool_info =
  ti_Name :: string
  ti_Description :: string
  ti_Schema :: 'sc

record ('r, 'sc) result_codec =
  d_raw :: "'r \<Rightarrow> string"
  d_tool :: "'r \<Rightarrow> tool_result res"
  d_tools :: "'r \<Rightarrow> 'sc tool_info list res"
  d_indent :: "'r \<Rightarrow> string"
  d_schema :: "'sc \<Rightarrow> string"

definition callTool :: "'v text_codec \<Rightarrow> ('r, 'sc) result_codec \<Rightarrow> 'r res \<Rightarrow> outputMode \<Rightarrow> outline list \<times> nat" where
  "callTool C D resp mode =
     (case resp of
        Inl e \<Rightarrow> ([ErrorLine e], 1)
      | Inr r \<Rightarrow>
          (case d_tool D r of
             Inl _ \<Rightarrow> ([OnStdout (d_raw D r)], 0)
           | Inr result \<Rightarrow>
               (let exit = (if tr_isError result then 1 else 0) in
                (map (\<lambda>(_, text). let t = transcodeOutput C text mode in if exit \<noteq> 0 then OnStderr t else OnStdout t)
                   (filter (\<lambda>(ty, _). ty = ''text'') (tr_content result)), exit))))"

definition firstLine :: "string \<Rightarrow> string" where
  "firstLine d = (let desc = trimSpace d in case indexByte desc (CHR 0x0A) of None \<Rightarrow> desc | Some i \<Rightarrow> take i desc)"

definition listTools :: "('r, 'sc) result_codec \<Rightarrow> 'r res \<Rightarrow> bool \<Rightarrow> outline list \<times> nat" where
  "listTools D resp asJSON =
     (case resp of
        Inl e \<Rightarrow> ([ErrorLine e], 1)
      | Inr r \<Rightarrow>
          if asJSON then ([OnStdout (d_indent D r)], 0)
          else (case d_tools D r of
                  Inl _ \<Rightarrow> ([OnStdout (d_raw D r)], 0)
                | Inr ts \<Rightarrow>
                    (map (\<lambda>t. OnStdout (ti_Name t @ replicate (32 - length (ti_Name t)) CHR '' '' @ '' '' @ firstLine (ti_Description t))) ts,
                     0)))"

definition toolHelp :: "('r, 'sc) result_codec \<Rightarrow> 'r res \<Rightarrow> string \<Rightarrow> outline list \<times> nat" where
  "toolHelp D resp name =
     (case resp of
        Inl e \<Rightarrow> ([ErrorLine e], 1)
      | Inr r \<Rightarrow>
          (case d_tools D r of
             Inl _ \<Rightarrow> ([], 1)
           | Inr ts \<Rightarrow>
               (case find (\<lambda>t. ti_Name t = name) ts of
                  Some t \<Rightarrow> ([OnStdout (ti_Name t), OnStdout [], OnStdout (trimSpace (ti_Description t)), OnStdout [],
                      OnStdout ''Input schema:'', OnStdout (''  '' @ d_schema D (ti_Schema t))], 0)
                | None \<Rightarrow> ([ErrorLine (Errorf ''no tool named %q (try `remote-shell-mcp tools`)'' [name])], 1))))"

section \<open>The run\<close>

record cli_flags =
  cf_json :: bool
  cf_toon :: bool
  cf_help :: bool
  cf_pairs :: "string list"

fun cliFlags :: "string list \<Rightarrow> cli_flags" where
  "cliFlags [] = \<lparr>cf_json = False, cf_toon = False, cf_help = False, cf_pairs = []\<rparr>"
| "cliFlags (a # as) =
     (let f = cliFlags as in
      if a = ''--json'' then f\<lparr>cf_json := True\<rparr>
      else if a = ''--toon'' then f\<lparr>cf_toon := True\<rparr>
      else if a = ''--help'' \<or> a = ''-h'' then f\<lparr>cf_help := True\<rparr>
      else f\<lparr>cf_pairs := a # cf_pairs f\<rparr>)"

text \<open>Everything the run needs of its surroundings.\<close>

record ('w, 'j, 'r, 'sc, 'v) cli_env =
  ce_handle :: hcodec
  ce_ext :: "'w pext"
  ce_fuel :: nat
  ce_configDir :: "string res"
  ce_daemonBin :: string
  ce_handlePath :: string
  ce_args :: "'j arg_env"
  ce_rpc :: "('j, 'r) rpc_codec"
  ce_result :: "('r, 'sc) result_codec"
  ce_text :: "'v text_codec"
  ce_send :: "string \<Rightarrow> request \<Rightarrow> response res"

definition withDaemon :: "('w, 'j, 'r, 'sc, 'v) cli_env \<Rightarrow> cli_flags \<Rightarrow> string \<Rightarrow> Handle \<Rightarrow> outline list \<times> nat" where
  "withDaemon E f tool h =
     (let rpc = rpcDo (ce_rpc E) (ha_Token h) (ce_send E (ha_Addr h)) in
      if tool = ''tools'' then listTools (ce_result E) (rpc ToolsList) (cf_json f)
      else if cf_help f then toolHelp (ce_result E) (rpc ToolsList) tool
      else (case parseKVArgs (ce_args E) (cf_pairs f) of
              Inl e \<Rightarrow> ([ErrorLine (Wrapf ''args: %v'' [] e)], 2)
            | Inr obj \<Rightarrow>
                callTool (ce_text E) (ce_result E) (rpc (ToolsCall tool obj))
                  (if cf_json f then outputJSON else if cf_toon f then outputTOON else outputAsIs)))"

definition runCLI ::
    "('w, 'j, 'r, 'sc, 'v) cli_env \<Rightarrow> string \<Rightarrow> string list \<Rightarrow> 'w \<Rightarrow> ((outline list \<times> nat) \<times> deed list \<times> 'w) option" where
  "runCLI E tool args w =
     (let f = cliFlags args in
      if cf_json f \<and> cf_toon f then Some (([OnStderr ''cannot use --json and --toon together''], 2), [], w)
      else (case (if ce_handlePath E \<noteq> [] then EnsureDaemonAt (ce_handle E) (ce_ext E) (ce_fuel E) (ce_handlePath E) (ce_daemonBin E) [] w
                  else EnsureDaemon (ce_handle E) (ce_ext E) (ce_fuel E) (ce_configDir E) (ce_daemonBin E) [] w) of
              None \<Rightarrow> None
            | Some (Inl e, ds, w) \<Rightarrow> Some (([ErrorLine (Wrapf ''ensure daemon: %v'' [] e)], 1), ds, w)
            | Some (Inr h, ds, w) \<Rightarrow> Some (withDaemon E f tool h, ds, w)))"

section \<open>Dispatch\<close>

datatype main_mode = RunSetup "string list" | ShowVersion | ShowUsage | RunTool string "string list" | RunProxy

definition mainMode :: "string list \<Rightarrow> main_mode" where
  "mainMode args =
     (case args of
        [] \<Rightarrow> RunProxy
      | a # as \<Rightarrow>
          if a = ''setup'' then RunSetup as
          else if a = ''version'' then ShowVersion
          else if a = ''--help'' \<or> a = ''-h'' \<or> a = ''help'' then ShowUsage
          else if a \<noteq> [] \<and> hd a \<noteq> CHR ''-'' then RunTool a as
          else RunProxy)"

text \<open>How \<open>runSetup\<close> exits, once its flags are read; a panic in an installation ends the process with 2.\<close>

definition setupExit :: "ClientResult list res \<Rightarrow> nat" where
  "setupExit r =
     (case r of
        Inl _ \<Rightarrow> 1
      | Inr rs \<Rightarrow>
          if list_ex (\<lambda>c. case cl_Outcome c of Panicked _ \<Rightarrow> True | Finished _ _ \<Rightarrow> False) rs then 2
          else if list_ex (\<lambda>c. case cl_Outcome c of Finished _ err \<Rightarrow> err \<noteq> None | Panicked _ \<Rightarrow> False) rs then 1 else 0)"

text \<open>The flags of \<open>setup\<close>; package \<open>flag\<close> ends the process itself when they do not parse or help is asked for.\<close>

record setup_flags =
  sf_name :: string
  sf_binary :: string
  sf_client :: string
  sf_yes :: bool
  sf_dryRun :: bool

definition setupDefaults :: setup_flags where
  "setupDefaults = \<lparr>sf_name = ''remote-shell'', sf_binary = [], sf_client = [], sf_yes = False, sf_dryRun = False\<rparr>"

definition runSetup ::
    "format \<Rightarrow> format \<Rightarrow> host \<Rightarrow> string res \<Rightarrow> (Client \<Rightarrow> faults) \<Rightarrow> nat + setup_flags \<Rightarrow> string \<Rightarrow> fs \<Rightarrow> nat \<times> fs list" where
  "runSetup J T m executable fts parsed inp fs =
     (case parsed of
        Inl code \<Rightarrow> (code, [])
      | Inr f \<Rightarrow>
          (case Run J T m executable fts
                  \<lparr>op_SelfBinary = sf_binary f, op_ServerName = sf_name f, op_Args = [], op_Env = [], op_Yes = sf_yes f,
                    op_DryRun = sf_dryRun f, op_OnlyClient = sf_client f, op_In = inp\<rparr> fs of
             (r, tr) \<Rightarrow> (setupExit r, tr)))"

lemma setupExit_zero:
  "setupExit r = 0 \<longleftrightarrow> (\<exists>rs. r = Inr rs \<and> (\<forall>c \<in> set rs. \<exists>res. cl_Outcome c = Finished res None))"
proof -
  have "(\<exists>res. out = Finished res None) \<longleftrightarrow>
      \<not> (case out of Panicked _ \<Rightarrow> True | Finished _ _ \<Rightarrow> False) \<and> \<not> (case out of Finished _ err \<Rightarrow> err \<noteq> None | Panicked _ \<Rightarrow> False)" for out
    by (cases out) auto
  then show ?thesis by (cases r) (auto simp: setupExit_def list_ex_iff)
qed

text \<open>The setup ends with 0 exactly if no installation failed, clients that were skipped included.\<close>

theorem runSetup_exit:
  "fst (runSetup J T m executable fts (Inr f) inp fs) = 0 \<longleftrightarrow>
     (\<exists>rs tr. Run J T m executable fts
        \<lparr>op_SelfBinary = sf_binary f, op_ServerName = sf_name f, op_Args = [], op_Env = [], op_Yes = sf_yes f,
          op_DryRun = sf_dryRun f, op_OnlyClient = sf_client f, op_In = inp\<rparr> fs = (Inr rs, tr) \<and>
      (\<forall>c \<in> set rs. \<exists>res. cl_Outcome c = Finished res None))"
  by (auto simp: runSetup_def setupExit_zero split: prod.splits)

end
