(* ===== verification/CliProps.thy ===== *)
theory CliProps
  imports Cli DaemonProps
begin

text \<open>
  What the command line guarantees: how an argument is cut, what the arguments' object is, on which stream and with which code
  a run ends, and that a call reaches the tools of the daemon whose handle file it read.
\<close>

section \<open>Cutting an argument\<close>

fun keyFrom :: "nat \<Rightarrow> string \<Rightarrow> bool" where
  "keyFrom i [] = True"
| "keyFrom i (c # s) \<longleftrightarrow> identChar i c \<and> keyFrom (Suc i) s"

definition isKey :: "string \<Rightarrow> bool" where
  "isKey k \<longleftrightarrow> k \<noteq> [] \<and> keyFrom 0 k"

fun opText :: "kvop \<Rightarrow> string" where
  "opText OpString = ''=''"
| "opText OpJson = '':=''"
| "opText OpFile = ''@=''"
| "opText OpJsonFile = '':@=''"

lemma keyLen_take: "keyFrom i (take (keyLen i s) s)"
  by (induction s arbitrary: i) auto

lemma keyLen_le: "keyLen i s \<le> length s"
  by (induction s arbitrary: i) auto

lemma keyLen_key: "keyFrom i k \<Longrightarrow> r = [] \<or> \<not> identChar (i + length k) (hd r) \<Longrightarrow> keyLen i (k @ r) = length k"
  by (induction k arbitrary: i) (cases r; auto)+

lemma op_not_ident: "\<not> identChar i (hd (opText op @ v))"
  by (cases op) (simp_all add: identChar_def Let_def)

lemma hasPrefix_split: "hasPrefix s p \<Longrightarrow> s = p @ drop (length p) s"
  unfolding hasPrefix_def by (metis append_take_drop_id)

text \<open>
  An argument is cut in exactly one way: the cut into a key, one of the four operators and a value succeeds with these parts if
  and only if the key is an identifier and the argument is the three written one after the other, whatever characters the
  value has; so that what is written with an operator is read with it.
\<close>

theorem splitKVOp_exact: "splitKVOp s = Some (k, op, v) \<longleftrightarrow> isKey k \<and> s = k @ opText op @ v"
proof
  assume a: "splitKVOp s = Some (k, op, v)"
  let ?e = "keyLen 0 s"
  have e: "?e \<noteq> 0" and k: "k = take ?e s" and v: "drop ?e s = opText op @ v"
    using a hasPrefix_split [of "drop ?e s" "'':@=''"] hasPrefix_split [of "drop ?e s" "'':=''"]
      hasPrefix_split [of "drop ?e s" "''@=''"] hasPrefix_split [of "drop ?e s" "''=''"]
    by (auto simp: splitKVOp_def Let_def numeral_eq_Suc split: if_splits)
  have "isKey k" using k e keyLen_take [of 0 s] keyLen_le [of 0 s] by (auto simp: isKey_def)
  then show "isKey k \<and> s = k @ opText op @ v" using k v by (metis append_take_drop_id)
next
  assume s: "isKey k \<and> s = k @ opText op @ v"
  then have "keyLen 0 s = length k" using keyLen_key [of 0 k "opText op @ v"] op_not_ident by (auto simp: isKey_def)
  then show "splitKVOp s = Some (k, op, v)"
    using s by (cases op) (auto simp: splitKVOp_def isKey_def hasPrefix_def)
qed

section \<open>The arguments' object\<close>

text \<open>
  What an argument means, told by its form alone and without the code's cutting: \<open>key=text\<close> is the text, \<open>key:=json\<close> what the JSON says,
  or one of the words that are accepted without being JSON, \<open>key@=path\<close> the content of the file and \<open>key:@=path\<close> what the JSON in
  the file says.  A key is a letter or underscore followed by letters, underscores and digits.
\<close>

definition letters :: string where
  "letters = ''_abcdefghijklmnopqrstuvwxyzABCDEFGHIJKLMNOPQRSTUVWXYZ''"

definition isName :: "string \<Rightarrow> bool" where
  "isName k \<longleftrightarrow> k \<noteq> [] \<and> hd k \<in> set letters \<and> set k \<subseteq> set (letters @ ''0123456789'')"

inductive looseWord :: "'j arg_env \<Rightarrow> string \<Rightarrow> 'j argval \<Rightarrow> bool" for G where
  loose_true: "looseWord G ''true'' (ABool True)"
| loose_false: "looseWord G ''false'' (ABool False)"
| loose_null: "looseWord G ''null'' ANull"
| loose_int: "atoi v = Some n \<Longrightarrow> looseWord G v (AInt n)"
| loose_float: "atoi v = None \<Longrightarrow> g_float G v \<Longrightarrow> v \<notin> {''true'', ''false'', ''null''} \<Longrightarrow> looseWord G v (AFloat v)"

inductive argMeans :: "'j arg_env \<Rightarrow> string \<Rightarrow> (string \<times> 'j argval) res \<Rightarrow> bool" for G where
  means_text: "isName k \<Longrightarrow> argMeans G (k @ ''='' @ v) (Inr (k, AStr v))"
| means_json: "isName k \<Longrightarrow> g_json G v = Inr j \<Longrightarrow> argMeans G (k @ '':='' @ v) (Inr (k, AJson j))"
| means_loose: "isName k \<Longrightarrow> g_json G v = Inl e \<Longrightarrow> looseWord G v x \<Longrightarrow> argMeans G (k @ '':='' @ v) (Inr (k, x))"
| bad_json: "isName k \<Longrightarrow> g_json G v = Inl e \<Longrightarrow> \<forall>x. \<not> looseWord G v x \<Longrightarrow>
     argMeans G (k @ '':='' @ v) (Inl (Wrapf ''arg %s: not valid JSON: %v'' [k] e))"
| means_file: "isName k \<Longrightarrow> g_file G v = Inr d \<Longrightarrow> argMeans G (k @ ''@='' @ v) (Inr (k, AStr d))"
| bad_file: "isName k \<Longrightarrow> g_file G v = Inl e \<Longrightarrow> op \<in> {''@='', '':@=''} \<Longrightarrow>
     argMeans G (k @ op @ v) (Inl (Wrapf ''arg %s: %v'' [k] e))"
| means_json_file: "isName k \<Longrightarrow> g_file G v = Inr d \<Longrightarrow> g_json G d = Inr j \<Longrightarrow> argMeans G (k @ '':@='' @ v) (Inr (k, AJson j))"
| bad_json_file: "isName k \<Longrightarrow> g_file G v = Inr d \<Longrightarrow> g_json G d = Inl e \<Longrightarrow>
     argMeans G (k @ '':@='' @ v) (Inl (Wrapf ''arg %s: file is not valid JSON: %v'' [k] e))"
| no_form: "\<forall>k op v. a = k @ op @ v \<longrightarrow> isName k \<longrightarrow> op \<notin> {''='', '':='', ''@='', '':@=''} \<Longrightarrow>
     argMeans G a (Inl (Errorf ''bad arg %q (expected key=value, key:=json, key@=file, or key:@=file)'' [a]))"

text \<open>The code's test of a byte is that of the two lists of characters, and its cut is the form.\<close>

lemma mem_codes: "c \<in> set cs \<longleftrightarrow> (of_char c :: nat) \<in> set (map of_char cs)"
  by auto

lemma digit_codes: "c \<in> set ''0123456789'' \<longleftrightarrow> 48 \<le> (of_char c :: nat) \<and> (of_char c :: nat) \<le> 57"
  unfolding mem_codes by simp arith

lemma letter_codes:
  "c \<in> set letters \<longleftrightarrow> c = CHR ''_'' \<or> 97 \<le> (of_char c :: nat) \<and> (of_char c :: nat) \<le> 122 \<or> 65 \<le> (of_char c :: nat) \<and> (of_char c :: nat) \<le> 90"
proof -
  have low: "c \<in> set ''abcdefghijklmnopqrstuvwxyz'' \<longleftrightarrow> 97 \<le> (of_char c :: nat) \<and> (of_char c :: nat) \<le> 122"
    unfolding mem_codes by simp arith
  have up: "c \<in> set ''ABCDEFGHIJKLMNOPQRSTUVWXYZ'' \<longleftrightarrow> 65 \<le> (of_char c :: nat) \<and> (of_char c :: nat) \<le> 90"
    unfolding mem_codes by simp arith
  have split: "letters = ''_'' @ ''abcdefghijklmnopqrstuvwxyz'' @ ''ABCDEFGHIJKLMNOPQRSTUVWXYZ''"
    by (simp add: letters_def)
  show ?thesis unfolding split set_append Un_iff low up by simp
qed

lemma identChar_letters: "identChar i c \<longleftrightarrow> c \<in> set letters \<or> 0 < i \<and> c \<in> set ''0123456789''"
  unfolding letter_codes digit_codes by (simp add: identChar_def Let_def)

lemma keyFrom_later: "keyFrom (Suc i) k \<longleftrightarrow> set k \<subseteq> set (letters @ ''0123456789'')"
  by (induction k arbitrary: i) (auto simp: identChar_letters)

lemma isKey_name: "isKey k \<longleftrightarrow> isName k"
  by (cases k) (auto simp: isKey_def isName_def keyFrom_later identChar_letters)

lemma looseWord_coerce: "looseWord G v x \<longleftrightarrow> coerceLooseJSON (g_float G) v = Some x"
proof -
  have a: "atoi ''true'' = None" "atoi ''false'' = None" "atoi ''null'' = None" by code_simp+
  show ?thesis
    by (auto simp: coerceLooseJSON_def a looseWord.simps split: if_splits option.splits)
qed

definition argOf :: "'j arg_env \<Rightarrow> string \<Rightarrow> (string \<times> 'j argval) res" where
  "argOf G a =
     (case splitKVOp a of
        None \<Rightarrow> Inl (Errorf ''bad arg %q (expected key=value, key:=json, key@=file, or key:@=file)'' [a])
      | Some (k, op, v) \<Rightarrow> (case argValue G k op v of Inl e \<Rightarrow> Inl e | Inr x \<Rightarrow> Inr (k, x)))"

lemma argOf_form: "isName k \<Longrightarrow> argOf G (k @ opText op @ v) = (case argValue G k op v of Inl e \<Rightarrow> Inl e | Inr x \<Rightarrow> Inr (k, x))"
  using splitKVOp_exact [of "k @ opText op @ v" k op v] by (simp add: argOf_def isKey_name)

lemmas argOf_forms = argOf_form [where op = OpString, simplified] argOf_form [where op = OpJson, simplified]
  argOf_form [where op = OpFile, simplified] argOf_form [where op = OpJsonFile, simplified]

lemma opText_ops: "t \<in> {''='', '':='', ''@='', '':@=''} \<longleftrightarrow> (\<exists>op. t = opText op)"
proof
  assume "t \<in> {''='', '':='', ''@='', '':@=''}"
  then show "\<exists>op. t = opText op"
    using opText.simps by (elim insertE emptyE) metis+
next
  assume "\<exists>op. t = opText op"
  then obtain op where "t = opText op" ..
  then show "t \<in> {''='', '':='', ''@='', '':@=''}" by (cases op) simp_all
qed

lemma argMeans_argOf: "argMeans G a r \<Longrightarrow> argOf G a = r"
proof (induction rule: argMeans.induct)
  case (means_loose k v e x)
  then show ?case using argOf_form [of k G OpJson v] by (simp add: looseWord_coerce)
next
  case (bad_json k v e)
  then show ?case using argOf_form [of k G OpJson v] by (simp add: looseWord_coerce)
next
  case (bad_file k v e op)
  then show ?case using argOf_form [of k G OpFile v] argOf_form [of k G OpJsonFile v] by auto
next
  case (no_form a)
  have "splitKVOp a \<noteq> Some (k, op, v)" for k op v
    using no_form unfolding splitKVOp_exact isKey_name opText_ops by blast
  then have "splitKVOp a = None" by (metis not_None_eq surj_pair)
  then show ?case by (simp add: argOf_def)
qed (simp_all add: argOf_forms)

lemma argMeans_some: "\<exists>r. argMeans G a r"
proof (cases "splitKVOp a")
  case None
  have "\<not> (isName k \<and> a = k @ opText op @ v)" for k op v using None splitKVOp_exact [of a k op v] by (simp add: isKey_name)
  then have "\<forall>k op v. a = k @ op @ v \<longrightarrow> isName k \<longrightarrow> op \<notin> {''='', '':='', ''@='', '':@=''}"
    unfolding opText_ops by blast
  then show ?thesis by (blast intro: argMeans.no_form)
next
  case (Some t)
  then obtain k op v where t: "isName k" "a = k @ opText op @ v" using splitKVOp_exact by (cases t) (auto simp: isKey_name)
  show ?thesis
  proof (cases op)
    case OpString
    then show ?thesis using argMeans.means_text [OF t(1)] t(2) by auto
  next
    case OpJson
    show ?thesis
    proof (cases "g_json G v")
      case (Inl e)
      show ?thesis
      proof (cases "\<exists>x. looseWord G v x")
        case True
        then show ?thesis using argMeans.means_loose [OF t(1) Inl] OpJson t(2) by auto
      next
        case False
        then show ?thesis using argMeans.bad_json [OF t(1) Inl] OpJson t(2) by auto
      qed
    next
      case (Inr j)
      then show ?thesis using argMeans.means_json [OF t(1) Inr] OpJson t(2) by auto
    qed
  next
    case OpFile
    show ?thesis
      by (cases "g_file G v")
        (use argMeans.bad_file [OF t(1), of G v _ "''@=''"] argMeans.means_file [OF t(1), of G v] OpFile t(2) in auto)
  next
    case OpJsonFile
    show ?thesis
    proof (cases "g_file G v")
      case (Inl e)
      then show ?thesis using argMeans.bad_file [OF t(1) Inl, of "'':@=''"] OpJsonFile t(2) by auto
    next
      case (Inr d)
      then show ?thesis
        by (cases "g_json G d") (use argMeans.bad_json_file [OF t(1) Inr] argMeans.means_json_file [OF t(1) Inr] OpJsonFile t(2) in auto)
    qed
  qed
qed

lemma argMeans_iff: "argMeans G a r \<longleftrightarrow> argOf G a = r"
  using argMeans_argOf argMeans_some by metis

lemma kvLoop_means:
  "(\<exists>ps. list_all2 (\<lambda>a kx. argMeans G a (Inr kx)) as ps \<and> kvLoop G as out = Inr (fold (\<lambda>(k, x). gm_put k x) ps out)) \<or>
   (\<exists>bs a rest e. as = bs @ a # rest \<and> list_all (\<lambda>b. \<exists>kx. argMeans G b (Inr kx)) bs \<and> argMeans G a (Inl e) \<and> kvLoop G as out = Inl e)"
proof (induction as arbitrary: out)
  case (Cons a as)
  show ?case
  proof (cases "argOf G a")
    case (Inl e)
    then have "kvLoop G (a # as) out = Inl e" by (auto simp: argOf_def split: option.splits sum.splits)
    then show ?thesis using Inl by (intro disjI2 exI [of _ "[]"] exI [of _ a] exI [of _ as] exI [of _ e]) (simp add: argMeans_iff)
  next
    case (Inr kx)
    obtain k x where kx: "kx = (k, x)" by (cases kx)
    with Inr have step: "kvLoop G (a # as) out = kvLoop G as (gm_put k x out)" by (auto simp: argOf_def split: option.splits sum.splits)
    have a: "argMeans G a (Inr (k, x))" using Inr kx by (simp add: argMeans_iff)
    from Cons.IH [of "gm_put k x out"] show ?thesis
    proof
      assume "\<exists>ps. list_all2 (\<lambda>a kx. argMeans G a (Inr kx)) as ps \<and> kvLoop G as (gm_put k x out) = Inr (fold (\<lambda>(k, x). gm_put k x) ps (gm_put k x out))"
      then obtain ps where "list_all2 (\<lambda>a kx. argMeans G a (Inr kx)) as ps"
          "kvLoop G as (gm_put k x out) = Inr (fold (\<lambda>(k, x). gm_put k x) ps (gm_put k x out))" by blast
      then show ?thesis using a step by (intro disjI1 exI [of _ "(k, x) # ps"]) simp
    next
      assume "\<exists>bs b rest e. as = bs @ b # rest \<and> list_all (\<lambda>b. \<exists>kx. argMeans G b (Inr kx)) bs \<and> argMeans G b (Inl e) \<and>
          kvLoop G as (gm_put k x out) = Inl e"
      then obtain bs b rest e where "as = bs @ b # rest" "list_all (\<lambda>b. \<exists>kx. argMeans G b (Inr kx)) bs" "argMeans G b (Inl e)"
          "kvLoop G as (gm_put k x out) = Inl e" by blast
      then show ?thesis using a step by (intro disjI2 exI [of _ "a # bs"] exI [of _ b] exI [of _ rest] exI [of _ e]) auto
    qed
  qed
qed simp

lemma gm_get_fold_put: "gm_get (fold (\<lambda>(k, x). gm_put k x) ps m) j = (case map_of (rev ps) j of None \<Rightarrow> gm_get m j | Some x \<Rightarrow> Some x)"
  by (induction ps arbitrary: m) (auto simp: map_add_def split: option.splits)

text \<open>
  C39. The object of a call's arguments is the one the arguments mean.  Every argument has exactly one meaning by its form (a name,
  one of the four operators, and the rest as it is): a key with a value, or an error if it has no such form, its JSON does not parse and
  is no accepted word, or its file cannot be read.  If all have a value the object maps each key to the value of the last argument that has
  it, and nothing else; otherwise the run fails with the error of the first argument that has one.
\<close>

theorem parseKVArgs_meaning:
  "(\<forall>a. \<exists>!r. argMeans G a r) \<and>
   ((\<exists>ps m. list_all2 (\<lambda>a kx. argMeans G a (Inr kx)) args ps \<and> parseKVArgs G args = Inr m \<and> (\<forall>k. gm_get m k = map_of (rev ps) k)) \<or>
    (\<exists>bs a rest e. args = bs @ a # rest \<and> list_all (\<lambda>b. \<exists>kx. argMeans G b (Inr kx)) bs \<and> argMeans G a (Inl e) \<and>
       parseKVArgs G args = Inl e))"
proof
  show "\<forall>a. \<exists>!r. argMeans G a r" by (simp add: argMeans_iff)
  have "gm_get (fold (\<lambda>(k, x). gm_put k x) ps []) k = map_of (rev ps) k" for ps :: "(string \<times> 'a argval) list" and k
    by (simp add: gm_get_fold_put split: option.splits)
  then show "(\<exists>ps m. list_all2 (\<lambda>a kx. argMeans G a (Inr kx)) args ps \<and> parseKVArgs G args = Inr m \<and> (\<forall>k. gm_get m k = map_of (rev ps) k)) \<or>
    (\<exists>bs a rest e. args = bs @ a # rest \<and> list_all (\<lambda>b. \<exists>kx. argMeans G b (Inr kx)) bs \<and> argMeans G a (Inl e) \<and>
       parseKVArgs G args = Inl e)"
    using kvLoop_means [of G args "[]"] unfolding parseKVArgs_def by blast
qed

section \<open>Streams and codes\<close>

fun onStdout :: "outline \<Rightarrow> bool" where
  "onStdout (OnStdout _) = True"
| "onStdout (OnStderr _) = False"
| "onStdout (ErrorLine _) = False"

definition wellEnded :: "outline list \<times> nat \<Rightarrow> bool" where
  "wellEnded r \<longleftrightarrow> (case r of (out, code) \<Rightarrow> code \<le> 2 \<and> list_all (\<lambda>l. onStdout l \<longleftrightarrow> code = 0) out)"

lemma wellEnded_error [simp]: "wellEnded ([ErrorLine e], c) \<longleftrightarrow> c = 1 \<or> c = 2" "wellEnded ([OnStderr t], c) \<longleftrightarrow> c = 1 \<or> c = 2"
  by (auto simp: wellEnded_def)

lemma ends [simp]:
  "wellEnded (callTool C D resp mode)" "wellEnded (listTools D resp b)" "wellEnded (toolHelp D resp name)"
  by (auto simp: wellEnded_def callTool_def listTools_def toolHelp_def Let_def list_all_iff split: sum.split option.split)

text \<open>
  C40. A run of the command line ends with code 0, 1 or 2, and what it prints goes to standard output exactly when the code is 0: no
  error text is mixed into the output that a script reads. A conflict of flags ends it before any daemon is looked for or started.
\<close>

theorem cli_streams:
  assumes "runCLI E tool args w = Some ((out, code), ds, w')"
  shows "code \<le> 2 \<and> list_all (\<lambda>l. onStdout l \<longleftrightarrow> code = 0) out \<and>
    (cf_json (cliFlags args) \<and> cf_toon (cliFlags args) \<longrightarrow> code = 2 \<and> ds = [] \<and> w' = w)"
proof -
  have "wellEnded (withDaemon E f tool h)" for f h
    by (auto simp: withDaemon_def Let_def split: sum.split)
  then have "withDaemon E f tool h = (out, code) \<Longrightarrow> wellEnded (out, code)" for f h by metis
  then have "wellEnded (out, code)"
    using assms by (auto simp: runCLI_def Let_def split: if_splits option.splits prod.splits sum.splits)
  then show ?thesis using assms by (auto simp: wellEnded_def runCLI_def Let_def)
qed

section \<open>A call reaches the daemon\<close>

text \<open>The daemon at the other end: the token check in front of the rpc endpoint.\<close>

definition daemonServes :: "string \<Rightarrow> (string \<Rightarrow> 'm option) \<Rightarrow> ('m \<Rightarrow> string) \<Rightarrow> (goerr \<Rightarrow> string) \<Rightarrow>
    (request \<Rightarrow> response) \<Rightarrow> request \<Rightarrow> response res" where
  "daemonServes token handle encode errText sse r = Inr (serveHTTP token (RPCHandler handle encode errText) sse ''/rpc'' r)"

text \<open>What a call is worth if it arrives: the response the tools' server makes of its body, if that has at most 4 MiB; a longer
  one is refused.\<close>

definition directCall :: "('j, 'r) rpc_codec \<Rightarrow> (string \<Rightarrow> 'm option) \<Rightarrow> ('m \<Rightarrow> string) \<Rightarrow> (goerr \<Rightarrow> string) \<Rightarrow> 'j rpc_call \<Rightarrow> 'r res" where
  "directCall J handle encode errText c =
     (case jr_req J c of
        Inl e \<Rightarrow> Inl e
      | Inr body \<Rightarrow>
          if 4194304 < length body then
            Inl (Errorf ''daemon returned %d: %s'' [''400'', trimSpace (''read body: '' @ errText (ExtErr ''http: request body too large''))])
          else
            (let text = (case handle body of None \<Rightarrow> [] | Some m \<Rightarrow> encode m) in
             case jr_resp J text of
               Inl e \<Rightarrow> Inl (Wrapf ''decode rpc response: %w (body=%s)'' [text] e)
             | Inr out \<Rightarrow>
                 (case rr_Error out of
                    Some (code, msg) \<Rightarrow> Inl (Errorf ''rpc error %d: %s'' [itoa code, msg])
                  | None \<Rightarrow> Inr (rr_Result out))))"

lemma nat_dec_400: "nat_dec 400 = ''400''"
  by code_simp

lemma rpcDo_daemon:
  assumes "token \<noteq> []"
  shows "rpcDo J token (daemonServes token' handle encode errText sse) c =
    (case jr_req J c of
       Inl e \<Rightarrow> Inl e
     | Inr _ \<Rightarrow> if token = token' then directCall J handle encode errText c
                else Inl (Errorf ''daemon returned 401 (token mismatch)'' []))"
  using assms
  by (auto simp: rpcDo_def directCall_def daemonServes_def serveHTTP_def AuthMiddleware_def RPCHandler_def bearer_accepted [simplified] Let_def
      maxBody_def tooLarge_def nat_dec_400 split: sum.split option.split)

lemma hexEncode_nonempty [simp]: "hexEncode bs = [] \<longleftrightarrow> bs = []"
  by (cases bs) (simp_all add: hexEncode_def)

text \<open>
  C16. From the command line to the tools: once the daemon serves, a run that reads its handle file and finds its address answering
  starts and signals nothing, passes the daemon's token check, and gives what the tools' server answers to the call, with the arguments
  it was given, if the body of its request has at most 4 MiB; a longer one is not given to the tools, and the run reports that the
  daemon returned 400.  This holds provided that the handle's JSON is read as it was written, the token is not empty and the
  transport brings the whole request to the daemon and its response back.
\<close>

theorem cli_meets_daemon:
  assumes "daemonStart M fl s = Some (Serving addr token fmt, s')" and "mgr_ok (ts_ssh s)" and "DefaultPaths (m_configDir M) = Inr defs"
    and "p = pathsOf fl defs" and "pathsApart p" and "m_rand M = Inr buf" and "buf \<noteq> []" and "addr \<noteq> []"
    and "\<And>d. hc_enc (m_handle M) \<lparr>ha_Addr = addr, ha_Token = token, ha_PID = m_pid M\<rparr> = Inr d \<Longrightarrow>
           hc_dec (ce_handle E) d = Inr \<lparr>ha_Addr = addr, ha_Token = token, ha_PID = m_pid M\<rparr>"
    and "ce_handlePath E = dp_handle p" and "dp_handle p \<noteq> []"
    and "p_read (ce_ext E) (dp_handle p) w = (Inr (the (ts_disk s' (dp_handle p))), w1)" and "p_dial (ce_ext E) addr w1 = (True, w2)"
    and "ce_send E addr = daemonServes token handle encode errText sse"
    and "\<not> (cf_json (cliFlags args) \<and> cf_toon (cliFlags args))" and "tool \<noteq> ''tools''" and "\<not> cf_help (cliFlags args)"
  shows "runCLI E tool args w =
    Some (case parseKVArgs (ce_args E) (cf_pairs (cliFlags args)) of
            Inl e \<Rightarrow> ([ErrorLine (Wrapf ''args: %v'' [] e)], 2)
          | Inr obj \<Rightarrow>
              callTool (ce_text E) (ce_result E) (directCall (ce_rpc E) handle encode errText (ToolsCall tool obj))
                (if cf_json (cliFlags args) then outputJSON else if cf_toon (cliFlags args) then outputTOON else outputAsIs),
          [], w2)"
proof -
  let ?h = "\<lparr>ha_Addr = addr, ha_Token = token, ha_PID = m_pid M\<rparr>"
  obtain data where d: "hc_enc (m_handle M) ?h = Inr data" "ts_disk s' (dp_handle p) = Some data"
      and t: "GenerateToken (m_rand M) = Inr token"
    using daemonStart_ends [OF assms(1-5)] by auto
  have tok: "token \<noteq> []" using t assms(6,7) by (auto simp: GenerateToken_def)
  have "ReadHandle (ce_handle E) (ce_ext E) (dp_handle p) w = (Inr ?h, w1)"
    using assms(8,9,12) d tok by (simp add: ReadHandle_def parseHandle_def)
  then have "tryUseExistingDaemon (ce_handle E) (ce_ext E) (dp_handle p) w = (Some ?h, w2)"
    using assms(13) by (simp add: tryUseExistingDaemon_def IsListening_def)
  then have "EnsureDaemonAt (ce_handle E) (ce_ext E) (ce_fuel E) (ce_handlePath E) (ce_daemonBin E) [] w = Some (Inr ?h, [], w2)"
    by (simp add: EnsureDaemonAt_def assms(10))
  moreover have "rpcDo (ce_rpc E) token (ce_send E addr) c = directCall (ce_rpc E) handle encode errText c" for c
    by (simp add: assms(14) rpcDo_daemon [OF tok] directCall_def split: sum.split)
  ultimately show ?thesis using assms(10,11,15-17) by (simp add: runCLI_def withDaemon_def Let_def split: sum.split)
qed

section \<open>Witnesses\<close>

definition demo_cli :: "(nat, string, string, unit, string) cli_env" where
  "demo_cli =
     \<lparr>ce_handle = \<lparr>hc_enc = (\<lambda>h. Inr []), hc_dec = (\<lambda>s. Inr \<lparr>ha_Addr = ''127.0.0.1:41000'', ha_Token = ''0a0b'', ha_PID = 42\<rparr>)\<rparr>,
      ce_ext = demoHost 0 0, ce_fuel = 101, ce_configDir = Inr ''/c'', ce_daemonBin = [], ce_handlePath = ''/h'',
      ce_args = \<lparr>g_json = (\<lambda>v. if v = ''1'' then Inr v else Inl (ExtErr ''json'')), g_float = (\<lambda>_. False), g_file = (\<lambda>_. Inl (ExtErr ''ENOENT''))\<rparr>,
      ce_rpc = \<lparr>jr_req = (\<lambda>c. Inr ''call''), jr_resp = (\<lambda>s. Inr \<lparr>rr_Result = s, rr_Error = None\<rparr>)\<rparr>,
      ce_result = \<lparr>d_raw = id, d_tool = (\<lambda>r. Inr \<lparr>tr_content = [(''text'', r)], tr_isError = False\<rparr>), d_tools = (\<lambda>r. Inr []),
        d_indent = id, d_schema = (\<lambda>_. [])\<rparr>,
      ce_text = \<lparr>tc_json = Inr, tc_toon = Inr, tc_indent = Inr, tc_marshal = Inr\<rparr>,
      ce_send = (\<lambda>a. daemonServes ''0a0b'' (\<lambda>body. Some ''ok'') id (\<lambda>_. []) (\<lambda>_. \<lparr>rs_Status = 404, rs_Header = [], rs_Body = []\<rparr>))\<rparr>"

theorem cli_streams_witness:
  "\<exists>out code ds w'. runCLI demo_cli ''status'' [''--json'', ''--toon''] 0 = Some ((out, code), ds, w') \<and> code = 2 \<and> ds = []"
proof -
  have f: "cf_json (cliFlags [''--json'', ''--toon''])" "cf_toon (cliFlags [''--json'', ''--toon''])" by (simp_all add: Let_def)
  have r: "runCLI demo_cli ''status'' [''--json'', ''--toon''] 0 = Some (([OnStderr ''cannot use --json and --toon together''], 2), [], 0)"
    using f by (simp add: runCLI_def Let_def)
  from cli_streams [OF r] f show ?thesis using r by auto
qed

text \<open>The daemon of the earlier example, called with \<open>n=x\<close>.\<close>

theorem cli_meets_daemon_witness:
  "runCLI demo_cli ''status'' [''n=x''] 0 = Some (([OnStdout ''ok''], 0), [], 0)"
proof -
  obtain s' where s: "daemonStart demo_boot demo_flags demo_next = Some (Serving ''127.0.0.1:41000'' ''0a0b'' FormatTOON, s')"
    using demo_start by blast
  obtain defs where d: "DefaultPaths (m_configDir demo_boot) = Inr defs" using demo_defaults by blast
  have m: "mgr_ok (ts_ssh demo_next)" by (simp add: demo_next_def demo_none_ok)
  have r: "m_rand demo_boot = Inr [10, 11]" by (simp add: demo_boot_def)
  have enc: "hc_enc (m_handle demo_boot) h = Inr ''{}''" for h by (simp add: demo_boot_def demoCodec_def)
  have "ts_disk s' ''/h'' = Some ''{}''"
    using daemonStart_ends [OF s m d demo_apart(2) [symmetric] demo_apart(1)] by (auto simp: demo_path_values enc)
  then have "p_read (ce_ext demo_cli) (dp_handle demo_paths) 0 = (Inr (the (ts_disk s' (dp_handle demo_paths))), 0)"
      "p_dial (ce_ext demo_cli) ''127.0.0.1:41000'' 0 = (True, 0)"
    by (simp_all add: demo_cli_def demoHost_def demo_path_values)
  note call = cli_meets_daemon [OF s m d demo_apart(2) [symmetric] demo_apart(1) r _ _ _ _ _ this]
  have "splitKVOp ''n=x'' = Some (''n'', OpString, ''x'')" by code_simp
  then have "parseKVArgs (ce_args demo_cli) [''n=x''] = Inr [(''n'', AStr ''x'')]"
    by (simp add: parseKVArgs_def gm_put_def)
  then have "runCLI demo_cli ''status'' [''n=x''] 0 = Some (callTool (ce_text demo_cli) (ce_result demo_cli)
      (directCall (ce_rpc demo_cli) (\<lambda>body. Some ''ok'') id (\<lambda>_. []) (ToolsCall ''status'' [(''n'', AStr ''x'')])) outputAsIs, [], 0)"
    by (subst call [where handle = "\<lambda>body. Some ''ok''" and encode = id and errText = "\<lambda>_. []"])
      (simp_all add: demo_cli_def demo_boot_def demo_path_values Let_def)
  then show ?thesis by (simp add: callTool_def directCall_def demo_cli_def transcodeOutput_def)
qed

end
