(* ===== verification/SshConc.thy ===== *)
theory SshConc
  imports SshSftp SshManagerProps
begin

text \<open>
  The manager with its goroutines interleaved: \<open>Connect\<close>, \<open>Disconnect\<close>, \<open>Reconnect\<close>, \<open>CloseAll\<close>, the keepalive of each session, and the
  opening and closing of forwards, shells and sftp clients (\<open>manager.go\<close>, \<open>session.go\<close>, \<open>forward.go\<close>, \<open>shell.go\<close>, \<open>sftp.go\<close> of \<open>internal/sshx\<close>).
  A goroutine in the middle of an operation is a task, which says what it has in its hands.  The operations are cut where the code holds no
  lock and another goroutine could see or change what they work on; pieces that only one goroutine can see (the requests on a channel that is not
  registered yet, the closing of a transport that was taken out of its session) stay together.  \<open>CloseAll\<close> keeps the manager's lock while it closes
  the sessions one by one; here its closings may also run beside what follows, which only adds schedules.  Commands and file transfers,
  and the connections that a forward accepts, are left out: what they open they hold for the call only.
\<close>

section \<open>Goroutines\<close>

datatype task =
  \<comment> \<open>\<open>Connect\<close>: reserved, dialed, failed, refused by \<open>setClient\<close>, wiring the agent, about to start the keepalive\<close>
    Connecting string ptr spec_ref
  | ConnDialed string ptr spec_ref handle "handle list" string
  | ConnFailed string ptr
  | ConnRefused string ptr
  | AgentDialing ptr spec_ref
  | AgentDialed ptr spec_ref handle
  | AgentForwarding ptr spec_ref handle handle
  | ConnEnd ptr spec_ref
  \<comment> \<open>\<open>runKeepalive\<close> and, for it or for \<open>Reconnect\<close>, a reconnect under \<open>reconnectMu\<close>\<close>
  | Keeping ptr nat
  | Pinging ptr nat handle
  | Attempting ptr nat
  | Redialing ptr "nat option"
  | Redialed ptr "nat option" handle "handle list" string
  | Rewaiting ptr nat
  | Reconnected ptr "nat option"
  | Rebinding ptr "nat option" "ptr list"
  | RebindListening ptr "nat option" ptr handle "ptr list"
  | RebindGot ptr "nat option" ptr handle "ptr list"
  \<comment> \<open>\<open>Session.close\<close>\<close>
  | Closing ptr
  | ClosingForwards ptr
  | ClosingShells ptr
  | ClosingTransport ptr
  \<comment> \<open>a handler that has looked up a session, that has its client, that has a listener or a channel in hand, or an object taken out of its map\<close>
  | Holds ptr
  | Using ptr handle
  | FwdGot ptr string string fwd_spec handle int
  | FwdClosing ptr
  | ShellStarting ptr string ShellOptions handle
  | ShellGot ptr string int handle
  | ShellClosing ptr

text \<open>After a reconnect: \<open>Reconnect\<close> returns, \<open>attemptReconnect\<close> goes back to its keepalive.\<close>

fun resume :: "ptr \<Rightarrow> nat option \<Rightarrow> task list" where
  "resume p None = []"
| "resume p (Some ctx) = [Keeping p ctx]"

definition agentFailed :: "ptr \<Rightarrow> goerr \<Rightarrow> 'w st \<Rightarrow> 'w st" where
  "agentFailed p e st = markState p StateConnected (Some (Wrapf ''agent forwarding: %w'' [] e)) st"

definition oldTransport :: "'w st \<Rightarrow> ptr \<Rightarrow> handle list" where
  "oldTransport st p = opt_list (s_client (sess st p)) @ s_jumps (sess st p)"

text \<open>
  One piece of one goroutine: what it becomes, the new state, the sessions that it drops from the table without closing them and
  the handles that it overwrites without closing them.
\<close>

inductive task_step ::
    "'w ext \<Rightarrow> 'w sext \<Rightarrow> task \<Rightarrow> 'w st \<Rightarrow> task list \<Rightarrow> 'w st \<Rightarrow> ptr list \<Rightarrow> handle list \<Rightarrow> bool" for x s where
  \<comment> \<open>\<open>Connect\<close>\<close>
  dial_ok: "st_call (dialFinal x (deref st spec)) st = (Inr (c, js, a), st') \<Longrightarrow>
     task_step x s (Connecting k p spec) st [ConnDialed k p spec c js a] st' [] []"
| dial_err: "st_call (dialFinal x (deref st spec)) st = (Inl e, st') \<Longrightarrow>
     task_step x s (Connecting k p spec) st [ConnFailed k p] st' [] []"
| conn_failed: "task_step x s (ConnFailed k p) st [] (connectFail k st) (case gm_get (tbl st) k of Some q \<Rightarrow> [q] | None \<Rightarrow> []) []"
| conn_install: "setClient x p c js a st = (True, st') \<Longrightarrow>
     task_step x s (ConnDialed k p spec c js a) st [if ForwardAgent spec then AgentDialing p spec else ConnEnd p spec] st'
       [] (oldTransport st p)"
| conn_refuse: "setClient x p c js a st = (False, st') \<Longrightarrow> task_step x s (ConnDialed k p spec c js a) st [ConnRefused k p] st' [] []"
| conn_refused: "task_step x s (ConnRefused k p) st [] (if gm_get (tbl st) k = Some p then connectFail k st else st) [] []"
  \<comment> \<open>\<open>enableAgentForwarding\<close>\<close>
| agent_none: "agentSocketOf x (st_io st) (AgentSocket (Auth spec)) = [] \<Longrightarrow> task_step x s (AgentDialing p spec) st [ConnEnd p spec]
     (agentFailed p (Errorf ''agent forwarding requested but no agent socket available (set auth.agent_socket or $SSH_AUTH_SOCK)'' []) st) [] []"
| agent_err: "sock = agentSocketOf x (st_io st) (AgentSocket (Auth spec)) \<Longrightarrow> sock \<noteq> [] \<Longrightarrow>
     st_call (io_open (x_dial_unix x (expandTilde x (st_io st) sock))) st = (Inl e, st') \<Longrightarrow>
     task_step x s (AgentDialing p spec) st [ConnEnd p spec] (agentFailed p (Wrapf ''dial agent for forwarding: %w'' [] e) st') [] []"
| agent_ok: "sock = agentSocketOf x (st_io st) (AgentSocket (Auth spec)) \<Longrightarrow> sock \<noteq> [] \<Longrightarrow>
     st_call (io_open (x_dial_unix x (expandTilde x (st_io st) sock))) st = (Inr conn, st') \<Longrightarrow>
     task_step x s (AgentDialing p spec) st [AgentDialed p spec conn] st' [] []"
| agent_lost: "s_client (sess st p) = None \<Longrightarrow>
     task_step x s (AgentDialed p spec conn) st [ConnEnd p spec]
       (agentFailed p (Errorf ''session has no active client'' []) (st_close x [conn] (updS p (\<lambda>S. S\<lparr>s_agentConn := Some conn, s_agentOn := True\<rparr>) st)))
       [] (opt_list (s_agentConn (sess st p)))"
| agent_set: "s_client (sess st p) = Some c \<Longrightarrow>
     task_step x s (AgentDialed p spec conn) st [AgentForwarding p spec c conn] (updS p (\<lambda>S. S\<lparr>s_agentConn := Some conn, s_agentOn := True\<rparr>) st)
       [] (opt_list (s_agentConn (sess st p)))"
| agent_done: "st_call (io_call (x_forward_agent x c conn)) st = (None, st') \<Longrightarrow>
     task_step x s (AgentForwarding p spec c conn) st [ConnEnd p spec] st' [] []"
| agent_refused: "st_call (io_call (x_forward_agent x c conn)) st = (Some e, st') \<Longrightarrow>
     task_step x s (AgentForwarding p spec c conn) st [ConnEnd p spec]
       (agentFailed p (Wrapf ''ForwardToAgent: %w'' [] e) (updS p (\<lambda>S. S\<lparr>s_agentConn := None, s_agentOn := False\<rparr>) (st_close x [conn] st')))
       [] (filter (\<lambda>h. h \<noteq> conn) (opt_list (s_agentConn (sess st p))))"
| conn_quiet: "\<not> 0 < Keepalive spec \<Longrightarrow> \<not> AutoReconnect spec \<Longrightarrow> task_step x s (ConnEnd p spec) st [] st [] []"
| conn_end: "0 < Keepalive spec \<or> AutoReconnect spec \<Longrightarrow>
     task_step x s (ConnEnd p spec) st (if s_closed (sess st p) then [] else [Keeping p (nxt st)]) (startKeepalive p st) [] []"
  \<comment> \<open>\<open>runKeepalive\<close>; a tick and a cancelled context may both be ready\<close>
| keep_cancelled: "ctx \<in> cancelled st \<Longrightarrow> task_step x s (Keeping p ctx) st [] st [] []"
| keep_idle: "getClient st p = Inl e \<Longrightarrow>
     task_step x s (Keeping p ctx) st [if AutoReconnect (s_Spec (sess st p)) then Attempting p ctx else Keeping p ctx] st [] []"
| keep_ping: "getClient st p = Inr c \<Longrightarrow> task_step x s (Keeping p ctx) st [Pinging p ctx c] st [] []"
| keep_ok: "st_call (io_call (x_keepalive x c)) st = (None, st') \<Longrightarrow> task_step x s (Pinging p ctx c) st [Keeping p ctx] st' [] []"
| keep_lost: "st_call (io_call (x_keepalive x c)) st = (Some e, st') \<Longrightarrow>
     task_step x s (Pinging p ctx c) st [if AutoReconnect (s_Spec (sess st p)) then Attempting p ctx else Keeping p ctx]
       (if AutoReconnect (s_Spec (sess st p)) then st' else markState p StateDisconnected (Some e) st') [] []"
| keep_busy: "s_reconnecting (sess st p) \<Longrightarrow> task_step x s (Attempting p ctx) st [Keeping p ctx] st [] []"
| keep_reconnect: "\<not> s_reconnecting (sess st p) \<Longrightarrow>
     task_step x s (Attempting p ctx) st [Redialing p (Some ctx)] (reconnectBegin x p st) [] []"
  \<comment> \<open>\<open>Reconnect\<close> and \<open>attemptReconnect\<close>\<close>
| redial_cancelled: "ctx \<in> cancelled st \<Longrightarrow> task_step x s (Redialing p (Some ctx)) st [Keeping p ctx] (setReconnecting p False st) [] []"
| redial_ok: "st_call (dialFinal x (deref st (s_Spec (sess st p)))) st = (Inr (c, js, a), st') \<Longrightarrow>
     task_step x s (Redialing p r) st [Redialed p r c js a] st' [] []"
| redial_err: "st_call (dialFinal x (deref st (s_Spec (sess st p)))) st = (Inl e, st') \<Longrightarrow>
     task_step x s (Redialing p None) st [] (setReconnecting p False (markState p StateDisconnected (Some e) st')) [] []"
| redial_wait: "st_call (dialFinal x (deref st (s_Spec (sess st p)))) st = (Inl e, st') \<Longrightarrow>
     task_step x s (Redialing p (Some ctx)) st [Rewaiting p ctx] (markState p StateReconnecting (Some e) st') [] []"
| wait_over: "task_step x s (Rewaiting p ctx) st [Redialing p (Some ctx)] st [] []"
| wait_cancelled: "ctx \<in> cancelled st \<Longrightarrow> task_step x s (Rewaiting p ctx) st [Keeping p ctx] (setReconnecting p False st) [] []"
| re_install: "setClient x p c js a st = (True, st') \<Longrightarrow>
     task_step x s (Redialed p r c js a) st [Reconnected p r] st' [] (oldTransport st p)"
| re_refuse: "setClient x p c js a st = (False, st') \<Longrightarrow>
     task_step x s (Redialed p r c js a) st (resume p r) (setReconnecting p False st') [] []"
| rebind_list: "task_step x s (Reconnected p r) st [Rebinding p r (gm_vals (s_forwards (sess st p)))] st [] []"
| rebind_end: "task_step x s (Rebinding p r []) st (resume p r) (setReconnecting p False st) [] []"
| rebind_skip: "(\<nexists>spec. f_spec (fwd st f) = FRemote spec) \<or> f_closed (fwd st f) \<or> getClient st p = Inl e \<Longrightarrow>
     task_step x s (Rebinding p r (f # fs)) st [Rebinding p r fs] st [] []"
| rebind_client: "f_spec (fwd st f) = FRemote spec \<Longrightarrow> \<not> f_closed (fwd st f) \<Longrightarrow> getClient st p = Inr c \<Longrightarrow>
     task_step x s (Rebinding p r (f # fs)) st [RebindListening p r f c fs] st [] []"
| rebind_err: "f_spec (fwd st f) = FRemote spec \<Longrightarrow>
     st_call (io_open (x_remote_listen x c (joinHostPort (rs_BindAddr spec) (itoa (rs_BindPort spec))))) st = (Inl e, st') \<Longrightarrow>
     task_step x s (RebindListening p r f c fs) st [Rebinding p r fs] st' [] []"
| rebind_ok: "f_spec (fwd st f) = FRemote spec \<Longrightarrow>
     st_call (io_open (x_remote_listen x c (joinHostPort (rs_BindAddr spec) (itoa (rs_BindPort spec))))) st = (Inr ln, st') \<Longrightarrow>
     task_step x s (RebindListening p r f c fs) st [RebindGot p r f ln fs] st' [] []"
| rebind_swap: "task_step x s (RebindGot p r f ln fs) st [Rebinding p r fs] (swapListener x f ln st) [] []"
  \<comment> \<open>\<open>Session.close\<close>\<close>
| close_again: "s_closed (sess st p) \<Longrightarrow> task_step x s (Closing p) st [] st [] []"
| close_begin: "\<not> s_closed (sess st p) \<Longrightarrow> task_step x s (Closing p) st [ClosingForwards p] (closeBegin p st) [] []"
| close_forwards: "task_step x s (ClosingForwards p) st [ClosingShells p] (closeFwdMap x p st) [] []"
| close_shells: "task_step x s (ClosingShells p) st [ClosingTransport p] (closeShellMap x p st) [] []"
| close_end: "task_step x s (ClosingTransport p) st [] (markState p StateDisconnected None (clearClient x p st)) [] []"
  \<comment> \<open>handlers\<close>
| drop: "task_step x s (Holds p) st [] st [] []"
| client: "getClient st p = Inr c \<Longrightarrow> task_step x s (Holds p) st [Using p c] st [] []"
| listen: "st_call (io_open (x_listen x addr)) st = (Inr ln, st') \<Longrightarrow> (\<nexists>r. spec = FRemote r) \<Longrightarrow>
     task_step x s (Using p c) st [FwdGot p k fid spec ln 0] st' [] []"
| listen_err: "st_call (io_open (x_listen x addr)) st = (Inl e, st') \<Longrightarrow> task_step x s (Using p c) st [] st' [] []"
| listen_remote: "st_call (io_open (x_remote_listen x c addr)) st = (Inr ln, st') \<Longrightarrow>
     task_step x s (Using p c) st [FwdGot p k fid (FRemote spec) ln (rs_BindPort spec)] st' [] []"
| listen_remote_err: "st_call (io_open (x_remote_listen x c addr)) st = (Inl e, st') \<Longrightarrow> task_step x s (Using p c) st [] st' [] []"
| install: "installForward x p k fid spec ln dflt st = (r, st') \<Longrightarrow> task_step x s (FwdGot p k fid spec ln dflt) st [] st' [] []"
| forward_out: "gm_get (s_forwards (sess st p)) fid = Some f \<Longrightarrow>
     task_step x s (Holds p) st [FwdClosing f] (updS p (\<lambda>S. S\<lparr>s_forwards := gm_del fid (s_forwards S)\<rparr>) st) [] []"
| forward_close: "task_step x s (FwdClosing f) st [] (snd (fwdClose x f st)) [] []"
| channel: "st_call (io_open (x_new_session x c)) st = (Inr ch, st') \<Longrightarrow> task_step x s (Using p c) st [ShellStarting p hid opts ch] st' [] []"
| channel_err: "st_call (io_open (x_new_session x c)) st = (Inl e, st') \<Longrightarrow> task_step x s (Using p c) st [] st' [] []"
| shell_fail: "startShell x ch opts (requestAgent x p ch (setenvs x ch (o_Env opts) st)) = (Some e, st') \<Longrightarrow>
     task_step x s (ShellStarting p hid opts ch) st [] (st_close x [ch] st') [] []"
| shell_ok: "startShell x ch opts (requestAgent x p ch (setenvs x ch (o_Env opts) st)) = (None, st') \<Longrightarrow>
     task_step x s (ShellStarting p hid opts ch) st
       [ShellGot p hid (if o_BufferSize opts = 0 then 1024 * 1024 else o_BufferSize opts) ch] st' [] []"
| shell_install: "installShell x p hid n ch st = (r, st') \<Longrightarrow> task_step x s (ShellGot p hid n ch) st [] st' [] []"
| shell_out: "removeShell p hid st = Inr (h, st') \<Longrightarrow> task_step x s (Holds p) st [ShellClosing h] st' [] []"
| shell_close: "task_step x s (ShellClosing h) st [] (snd (shellClose x h st)) [] []"
| sftp: "sftpClient s p st = (r, st') \<Longrightarrow> task_step x s (Holds p) st [Holds p] st' [] []"
| sftp_drop: "task_step x s (Holds p) st [Holds p] (dropSFTP x p st) [] []"

section \<open>The whole\<close>

type_synonym 'w conc = "'w st \<times> task list \<times> ptr list \<times> handle list"

text \<open>The sessions whose connect has not installed a client, with the id.\<close>

fun unfinished :: "task \<Rightarrow> (string \<times> ptr) list" where
  "unfinished (Connecting k p _) = [(k, p)]"
| "unfinished (ConnDialed k p _ _ _ _) = [(k, p)]"
| "unfinished (ConnFailed k p) = [(k, p)]"
| "unfinished _ = []"

definition connecting :: "task list \<Rightarrow> (string \<times> ptr) set" where
  "connecting ts = (\<Union>t \<in> set ts. set (unfinished t))"

text \<open>
  In a calm schedule nobody connects under an id whose connect is still on its way, and nobody reconnects a session
  whose own connect is on its way or has failed.
\<close>

inductive conc_step :: "'w ext \<Rightarrow> 'w sext \<Rightarrow> bool \<Rightarrow> 'w conc \<Rightarrow> 'w conc \<Rightarrow> bool" for x s calm where
  run: "task_step x s t st ts' st' ss' os' \<Longrightarrow> conc_step x s calm (st, xs @ t # ys, ss, os) (st', xs @ ts' @ ys, ss' @ ss, os' @ os)"
| connect: "k \<noteq> [] \<Longrightarrow> resolveRef x n spec0 st = Some (spec1, st1) \<Longrightarrow> userOf x st1 spec1 = Inr spec \<Longrightarrow>
     connectReserve k spec st1 = (Inr p, st') \<Longrightarrow> (calm \<Longrightarrow> k \<notin> fst ` connecting ts) \<Longrightarrow>
     conc_step x s calm (st, ts, ss, os) (st', Connecting k p spec # ts, ss, os)"
| disconnect: "gm_get (tbl st) k = Some p \<Longrightarrow> conc_step x s calm (st, ts, ss, os) (st\<lparr>tbl := gm_del k (tbl st)\<rparr>, Closing p # ts, ss, os)"
| close_all: "conc_step x s calm (st, ts, ss, os) (st\<lparr>tbl := []\<rparr>, map Closing (gm_vals (tbl st)) @ ts, ss, os)"
| get: "Get st k = Inr p \<Longrightarrow> conc_step x s calm (st, ts, ss, os) (st, Holds p # ts, ss, os)"
| reconnect: "\<not> s_reconnecting (sess st p) \<Longrightarrow> (calm \<Longrightarrow> p \<notin> set ss \<and> p \<notin> snd ` connecting (xs @ ys)) \<Longrightarrow>
     conc_step x s calm (st, xs @ Holds p # ys, ss, os) (reconnectBegin x p st, xs @ Redialing p None # ys, ss, os)"
| exited: "conc_step x s calm (st, ts, ss, os) (shellExited h st, ts, ss, os)"

definition concStart :: "'w conc \<Rightarrow> bool" where
  "concStart c \<longleftrightarrow> (\<exists>st. c = (st, [], [], []) \<and> tbl st = [] \<and> live (st_io st) = {})"

end
