(* ===== verification/SshRaces.thy ===== *)
theory SshRaces
  imports SshConc
begin

text \<open>
  Where the open handles of the interleaved manager are: the invariant \<open>conc_inv\<close> and its preservation by every piece of every goroutine, one
  lemma for each group of pieces (connecting, the agent and the keepalive, reconnecting, rebinding, closing, the handlers).
\<close>

section \<open>Where every open handle is\<close>

fun mentions :: "task \<Rightarrow> ptr list" where
  "mentions (Connecting k p _) = [p]"
| "mentions (ConnDialed k p _ _ _ _) = [p]"
| "mentions (ConnFailed k p) = [p]"
| "mentions (ConnRefused k p) = [p]"
| "mentions (AgentDialing p _) = [p]"
| "mentions (AgentDialed p _ _) = [p]"
| "mentions (AgentForwarding p _ _ _) = [p]"
| "mentions (ConnEnd p _) = [p]"
| "mentions (Keeping p _) = [p]"
| "mentions (Pinging p _ _) = [p]"
| "mentions (Attempting p _) = [p]"
| "mentions (Redialing p _) = [p]"
| "mentions (Redialed p _ _ _ _) = [p]"
| "mentions (Rewaiting p _) = [p]"
| "mentions (Reconnected p _) = [p]"
| "mentions (Rebinding p _ _) = [p]"
| "mentions (RebindListening p _ _ _ _) = [p]"
| "mentions (RebindGot p _ _ _ _) = [p]"
| "mentions (Holds p) = [p]"
| "mentions (Using p _) = [p]"
| "mentions (FwdGot p _ _ _ _ _) = [p]"
| "mentions (ShellStarting p _ _ _) = [p]"
| "mentions (ShellGot p _ _ _) = [p]"
| "mentions _ = []"

fun closers :: "task \<Rightarrow> ptr list" where
  "closers (Closing p) = [p]"
| "closers (ClosingForwards p) = [p]"
| "closers (ClosingShells p) = [p]"
| "closers (ClosingTransport p) = [p]"
| "closers _ = []"

fun closing :: "task list \<Rightarrow> ptr list" where
  "closing [] = []"
| "closing (t # ts) = closers t @ closing ts"

lemma closing_append [simp]: "closing (ts @ us) = closing ts @ closing us"
  by (induction ts) simp_all

lemma closing_mem: "t \<in> set ts \<Longrightarrow> p \<in> set (closers t) \<Longrightarrow> p \<in> set (closing ts)"
  by (induction ts) auto

fun handlesOf :: "task \<Rightarrow> handle list" where
  "handlesOf (ConnDialed _ _ _ c js _) = c # js"
| "handlesOf (AgentDialed _ _ conn) = [conn]"
| "handlesOf (Redialed _ _ c js _) = c # js"
| "handlesOf (RebindGot _ _ _ ln _) = [ln]"
| "handlesOf (FwdGot _ _ _ _ ln _) = [ln]"
| "handlesOf (ShellStarting _ _ _ ch) = [ch]"
| "handlesOf (ShellGot _ _ _ ch) = [ch]"
| "handlesOf _ = []"

fun rebinds :: "task \<Rightarrow> ptr list" where
  "rebinds (Rebinding _ _ fs) = fs"
| "rebinds (RebindListening _ _ f _ fs) = f # fs"
| "rebinds (RebindGot _ _ f _ fs) = f # fs"
| "rebinds _ = []"

text \<open>What a task has in its hands, and the objects it has taken out of their maps to close them.\<close>

fun inHands :: "'w st \<Rightarrow> task \<Rightarrow> handle set" where
  "inHands st (FwdClosing f) = fwdOwned st f"
| "inHands st (ShellClosing h) = shellOwned st h"
| "inHands st t = set (handlesOf t)"

text \<open>The sessions that are registered, being closed, or dropped without being closed.\<close>

definition active :: "'w st \<Rightarrow> task list \<Rightarrow> ptr list \<Rightarrow> ptr set" where
  "active st ts ss = set (gm_vals (tbl st)) \<union> set (closing ts) \<union> set ss"

definition located :: "'w st \<Rightarrow> task list \<Rightarrow> ptr set \<Rightarrow> handle list \<Rightarrow> handle set" where
  "located st ts A os = (\<Union>p \<in> A. owned st p) \<union> (\<Union>t \<in> set ts. inHands st t) \<union> set os"

definition maps_ok :: "'w st \<Rightarrow> ptr \<Rightarrow> bool" where
  "maps_ok st p \<longleftrightarrow> p < nxt st \<and> gm_wf (s_forwards (sess st p)) \<and> gm_wf (s_shells (sess st p)) \<and>
     (\<forall>f \<in> set (gm_vals (s_forwards (sess st p))). f < nxt st) \<and> (\<forall>h \<in> set (gm_vals (s_shells (sess st p))). h < nxt st)"

text \<open>A session that only a task knows about can no longer hold anything.\<close>

definition spent :: "Session \<Rightarrow> bool" where
  "spent S \<longleftrightarrow> s_closed S \<and> s_client S = None \<and> s_forwards S = [] \<and> s_shells S = []"

fun stage_ok :: "'w st \<Rightarrow> task \<Rightarrow> bool" where
  "stage_ok st (Closing p) = (\<not> s_closed (sess st p))"
| "stage_ok st (ClosingForwards p) = s_closed (sess st p)"
| "stage_ok st (ClosingShells p) = (s_closed (sess st p) \<and> s_forwards (sess st p) = [])"
| "stage_ok st (ClosingTransport p) = (s_closed (sess st p) \<and> s_forwards (sess st p) = [] \<and> s_shells (sess st p) = [])"
| "stage_ok st (ConnRefused k p) = s_closed (sess st p)"
| "stage_ok st (FwdClosing f) = (f < nxt st)"
| "stage_ok st (ShellClosing h) = (h < nxt st)"
| "stage_ok st _ = True"

definition task_ok :: "'w st \<Rightarrow> ptr set \<Rightarrow> task \<Rightarrow> bool" where
  "task_ok st A t \<longleftrightarrow> (\<forall>p \<in> set (mentions t). p < nxt st \<and> (p \<in> A \<or> spent (sess st p))) \<and> (\<forall>f \<in> set (rebinds t). f < nxt st) \<and> stage_ok st t"

definition rebind_ok :: "'w st \<Rightarrow> task list \<Rightarrow> ptr set \<Rightarrow> ptr \<Rightarrow> bool" where
  "rebind_ok st ts A f \<longleftrightarrow> f_closed (fwd st f) \<or> FwdClosing f \<in> set ts \<or> (\<exists>q \<in> A. f \<in> set (gm_vals (s_forwards (sess st q))))"

definition table_ok :: "'w st \<Rightarrow> task list \<Rightarrow> bool" where
  "table_ok st ts \<longleftrightarrow> gm_wf (tbl st) \<and> (\<forall>k p. gm_get (tbl st) k = Some p \<longrightarrow> s_ID (sess st p) = k \<and> \<not> s_closed (sess st p)) \<and>
     distinct (closing ts) \<and> set (closing ts) \<inter> set (gm_vals (tbl st)) = {}"

fun conc_inv :: "'w conc \<Rightarrow> bool" where
  "conc_inv (st, ts, ss, os) \<longleftrightarrow>
     io_ok (st_io st) \<and> table_ok st ts \<and> (\<forall>p \<in> active st ts ss. maps_ok st p) \<and> (\<forall>t \<in> set ts. task_ok st (active st ts ss) t) \<and>
     (\<forall>t \<in> set ts. \<forall>f \<in> set (rebinds t). rebind_ok st ts (active st ts ss) f) \<and>
     live (st_io st) \<subseteq> located st ts (active st ts ss) os"

text \<open>One piece of a goroutine that works on session \<open>p\<close>.\<close>

definition heap_grows :: "'w st \<Rightarrow> 'w st \<Rightarrow> bool" where
  "heap_grows st st' \<longleftrightarrow>
     (\<forall>f < nxt st. fwdOwned st f \<inter> live (st_io st') \<subseteq> fwdOwned st' f \<and> (f_closed (fwd st f) \<longrightarrow> f_closed (fwd st' f))) \<and>
     (\<forall>h < nxt st. shellOwned st h \<inter> live (st_io st') \<subseteq> shellOwned st' h)"

definition frame_ok :: "ptr \<Rightarrow> 'w st \<Rightarrow> 'w st \<Rightarrow> bool" where
  "frame_ok p st st' \<longleftrightarrow> tbl st' = tbl st \<and> nxt st \<le> nxt st' \<and> io_ok (st_io st') \<and> (\<forall>q. q \<noteq> p \<longrightarrow> sess st' q = sess st q) \<and>
     s_ID (sess st' p) = s_ID (sess st p) \<and> (s_closed (sess st p) \<longrightarrow> s_closed (sess st' p)) \<and> heap_grows st st'"

definition maps_step :: "ptr \<Rightarrow> task list \<Rightarrow> 'w st \<Rightarrow> 'w st \<Rightarrow> bool" where
  "maps_step p ts' st st' \<longleftrightarrow>
     (s_closed (sess st p) \<longrightarrow> (s_forwards (sess st p) = [] \<longrightarrow> s_forwards (sess st' p) = []) \<and> (s_shells (sess st p) = [] \<longrightarrow> s_shells (sess st' p) = [])) \<and>
     (\<forall>f \<in> set (gm_vals (s_forwards (sess st p))). f \<in> set (gm_vals (s_forwards (sess st' p))) \<or> f_closed (fwd st' f) \<or> FwdClosing f \<in> set ts')"

lemma owned_grows:
  assumes "heap_grows st st'" and "maps_ok st q" and "sess st' q = sess st q"
  shows "owned st q \<inter> live (st_io st') \<subseteq> owned st' q"
proof -
  have "fwdOwned st f \<inter> live (st_io st') \<subseteq> fwdOwned st' f" if "f \<in> set (gm_vals (s_forwards (sess st q)))" for f
    using assms(1,2) that by (simp add: heap_grows_def maps_ok_def)
  moreover have "shellOwned st h \<inter> live (st_io st') \<subseteq> shellOwned st' h" if "h \<in> set (gm_vals (s_shells (sess st q)))" for h
    using assms(1,2) that by (simp add: heap_grows_def maps_ok_def)
  ultimately show ?thesis using assms(3) unfolding owned_def by fastforce
qed

lemma owned_other: "frame_ok p st st' \<Longrightarrow> maps_ok st q \<Longrightarrow> q \<noteq> p \<Longrightarrow> owned st q \<inter> live (st_io st') \<subseteq> owned st' q"
  by (rule owned_grows) (simp_all add: frame_ok_def)

lemma inHands_other:
  assumes "frame_ok p st st'" and "stage_ok st t"
  shows "inHands st t \<inter> live (st_io st') \<subseteq> inHands st' t"
  using assms by (cases t) (auto simp: frame_ok_def heap_grows_def)

lemma gm_vals_Nil [simp]: "gm_vals [] = []"
  by (simp add: gm_vals_def)

lemma maps_ok_mono: "maps_ok st q \<Longrightarrow> sess st' q = sess st q \<Longrightarrow> nxt st \<le> nxt st' \<Longrightarrow> maps_ok st' q"
  unfolding maps_ok_def by (metis less_le_trans)

lemma piece_table:
  assumes t: "table_ok st (xs @ old @ ys)" and fr: "frame_ok p st st'" and shut: "s_closed (sess st' p) \<Longrightarrow> \<not> s_closed (sess st p) \<Longrightarrow> p \<in> set (closing old)"
    and out: "closing old = closing ts' \<or> closing ts' = []"
  shows "table_ok st' (xs @ ts' @ ys)"
proof -
  note fr' = fr [unfolded frame_ok_def]
  have "\<not> s_closed (sess st' q) \<and> s_ID (sess st' q) = k" if "gm_get (tbl st) k = Some q" for k q
  proof -
    have "q \<in> set (gm_vals (tbl st))" using that t by (auto simp: table_ok_def gm_vals_iff)
    then have "q \<notin> set (closing old)" using t by (auto simp: table_ok_def)
    then show ?thesis using that t shut fr' by (cases "q = p") (auto simp: table_ok_def)
  qed
  then show ?thesis using t out fr' by (auto simp: table_ok_def)
qed

lemma piece_stage:
  assumes t: "table_ok st (xs @ old @ ys)" and fr: "frame_ok p st st'" and shut: "s_closed (sess st' p) \<Longrightarrow> \<not> s_closed (sess st p) \<Longrightarrow> p \<in> set (closing old)"
    and ms: "maps_step p ts' st st'" and u: "u \<in> set xs \<or> u \<in> set ys" and st: "stage_ok st u"
  shows "stage_ok st' u"
proof -
  note fr' = fr [unfolded frame_ok_def]
  have closed: "s_closed (sess st q) \<Longrightarrow> s_closed (sess st' q)" for q using fr' by (cases "q = p") auto
  have other: "p \<notin> set (closers u)" if "p \<in> set (closing old)"
    using t u that by (auto simp: table_ok_def dest: closing_mem)
  show ?thesis
  proof (cases u)
    case (Closing q)
    then show ?thesis using st shut other fr' by (cases "q = p") auto
  next
    case (ClosingForwards q)
    then show ?thesis using st closed by simp
  next
    case (ClosingShells q)
    then show ?thesis using st closed ms fr' by (cases "q = p") (auto simp: maps_step_def)
  next
    case (ClosingTransport q)
    then show ?thesis using st closed ms fr' by (cases "q = p") (auto simp: maps_step_def)
  next
    case (ConnRefused k q)
    then show ?thesis using st closed by simp
  qed (use st fr' in auto)
qed

lemma piece_rebind:
  assumes fr: "frame_ok p st st'" and ms: "maps_step p ts' st st'" and fc: "\<And>f. FwdClosing f \<in> set old \<Longrightarrow> f_closed (fwd st' f)"
    and r: "rebind_ok st (xs @ old @ ys) A f" and f: "f < nxt st"
    and gone: "\<And>q. q \<in> A \<Longrightarrow> q \<in> A' \<or> q = p \<and> s_forwards (sess st p) = []"
  shows "rebind_ok st' (xs @ ts' @ ys) A' f"
proof -
  note fr' = fr [unfolded frame_ok_def]
  consider "f_closed (fwd st f)" | "FwdClosing f \<in> set (xs @ old @ ys)" | q where "q \<in> A" "f \<in> set (gm_vals (s_forwards (sess st q)))"
    using r by (auto simp: rebind_ok_def)
  then show ?thesis
  proof cases
    case 1
    then show ?thesis using fr' f by (simp add: rebind_ok_def heap_grows_def)
  next
    case 2
    then show ?thesis using fc by (auto simp: rebind_ok_def)
  next
    case 3
    show ?thesis
    proof (cases "q = p")
      case True
      then have "q \<in> A'" using gone [OF 3(1)] 3(2) by auto
      then show ?thesis using ms 3(2) True unfolding rebind_ok_def maps_step_def by auto
    next
      case False
      then have "q \<in> A'" "sess st' q = sess st q" using gone [OF 3(1)] fr' by auto
      then show ?thesis using 3(2) unfolding rebind_ok_def by metis
    qed
  qed
qed

text \<open>The invariant after a piece that turns the tasks \<open>old\<close> into \<open>ts'\<close>.\<close>

lemma inv_piece:
  assumes inv: "conc_inv (st, xs @ old @ ys, ss, os)"
    and fr: "frame_ok p st st'"
    and shut: "s_closed (sess st' p) \<Longrightarrow> \<not> s_closed (sess st p) \<Longrightarrow> p \<in> set (closing old)"
    and out: "closing old = closing ts' \<or> closing old = [p] \<and> closing ts' = [] \<and> spent (sess st' p) \<and> s_forwards (sess st p) = []"
    and p: "p \<in> active st (xs @ old @ ys) ss \<Longrightarrow> maps_ok st' p" "p \<in> active st (xs @ old @ ys) ss \<or> spent (sess st p) \<Longrightarrow>
       p \<in> active st (xs @ ts' @ ys) ss \<or> spent (sess st' p)"
    and ms: "maps_step p ts' st st'"
    and ts': "\<And>u. u \<in> set ts' \<Longrightarrow> task_ok st' (active st (xs @ ts' @ ys) ss) u"
    and rb: "\<And>u f. u \<in> set ts' \<Longrightarrow> f \<in> set (rebinds u) \<Longrightarrow> (\<exists>t \<in> set old. f \<in> set (rebinds t)) \<or> rebind_ok st' (xs @ ts' @ ys) (active st (xs @ ts' @ ys) ss) f"
    and fc: "\<And>f. FwdClosing f \<in> set old \<Longrightarrow> f_closed (fwd st' f)"
    and cov: "\<And>h. h \<in> live (st_io st') \<Longrightarrow> h \<in> live (st_io st) \<longrightarrow> (\<exists>t \<in> set old. h \<in> inHands st t) \<or> p \<in> active st (xs @ old @ ys) ss \<and> h \<in> owned st p \<Longrightarrow>
       h \<in> located st' (xs @ ts' @ ys) (active st (xs @ ts' @ ys) ss) os'"
  shows "conc_inv (st', xs @ ts' @ ys, ss, os' @ os)"
proof -
  let ?A = "active st (xs @ old @ ys) ss" and ?A' = "active st (xs @ ts' @ ys) ss"
  have A': "active st' (xs @ ts' @ ys) ss = ?A'" using fr by (simp add: active_def frame_ok_def)
  have sub: "?A' \<subseteq> ?A" using out by (auto simp: active_def)
  have gone: "q \<in> ?A' \<or> q = p \<and> spent (sess st' p) \<and> s_forwards (sess st p) = []" if "q \<in> ?A" for q
    using out that by (auto simp: active_def)
  have ok: "io_ok (st_io st)" "table_ok st (xs @ old @ ys)" "\<forall>q \<in> ?A. maps_ok st q" "\<forall>u \<in> set (xs @ old @ ys). task_ok st ?A u"
      "\<forall>u \<in> set (xs @ old @ ys). \<forall>f \<in> set (rebinds u). rebind_ok st (xs @ old @ ys) ?A f"
      "live (st_io st) \<subseteq> located st (xs @ old @ ys) ?A os"
    using inv by simp_all
  note fr' = fr [unfolded frame_ok_def]
  have tbl: "table_ok st' (xs @ ts' @ ys)" by (rule piece_table [OF ok(2) fr shut]) (use out in auto)
  have maps: "maps_ok st' q" if "q \<in> ?A'" for q
  proof (cases "q = p")
    case True
    then show ?thesis using p(1) sub that by blast
  next
    case False
    then show ?thesis using ok(3) sub that fr' maps_ok_mono by blast
  qed
  have others: "task_ok st' ?A' u" if u: "u \<in> set xs \<or> u \<in> set ys" for u
  proof -
    have o: "task_ok st ?A u" using ok(4) u by auto
    have "q < nxt st' \<and> (q \<in> ?A' \<or> spent (sess st' q))" if "q \<in> set (mentions u)" for q
      using o that gone [of q] fr' p(2) by (cases "q = p") (auto simp: task_ok_def spent_def intro: less_le_trans)
    moreover have "\<forall>f \<in> set (rebinds u). f < nxt st'" using o fr' by (auto simp: task_ok_def)
    moreover have "stage_ok st' u" by (rule piece_stage [OF ok(2) fr shut ms]) (use o u in \<open>auto simp: task_ok_def\<close>)
    ultimately show ?thesis by (simp add: task_ok_def)
  qed
  have reb: "rebind_ok st' (xs @ ts' @ ys) ?A' f" if "rebind_ok st (xs @ old @ ys) ?A f" "f < nxt st" for f
    by (rule piece_rebind [OF fr ms fc that]) (use gone in auto)
  have rebs: "rebind_ok st' (xs @ ts' @ ys) ?A' f" if u: "u \<in> set (xs @ ts' @ ys)" and f: "f \<in> set (rebinds u)" for u f
  proof -
    have "\<forall>v \<in> set (xs @ old @ ys). f \<in> set (rebinds v) \<longrightarrow> f < nxt st \<and> rebind_ok st (xs @ old @ ys) ?A f"
      using ok(4,5) by (auto simp: task_ok_def)
    then show ?thesis using u f rb [of u f] reb by auto
  qed
  have "h \<in> located st' (xs @ ts' @ ys) ?A' (os' @ os)" if h: "h \<in> live (st_io st')" for h
  proof (cases "h \<in> live (st_io st) \<longrightarrow> (\<exists>t \<in> set old. h \<in> inHands st t) \<or> p \<in> ?A \<and> h \<in> owned st p")
    case True
    then show ?thesis using cov [OF h] by (auto simp: located_def)
  next
    case False
    then have "h \<in> located st (xs @ old @ ys) ?A os" using ok(6) by blast
    then consider q where "q \<in> ?A" "h \<in> owned st q" "q \<noteq> p" | u where "u \<in> set xs \<union> set ys" "h \<in> inHands st u" | "h \<in> set os"
      using False unfolding located_def by auto
    then show ?thesis
    proof cases
      case 1
      then show ?thesis using owned_other [OF fr] ok(3) h gone [of q] by (fastforce simp: located_def)
    next
      case 2
      then have "stage_ok st u" using ok(4) by (auto simp: task_ok_def)
      then show ?thesis using inHands_other [OF fr] 2 h by (fastforce simp: located_def)
    next
      case 3
      then show ?thesis by (simp add: located_def)
    qed
  qed
  then have "live (st_io st') \<subseteq> located st' (xs @ ts' @ ys) ?A' (os' @ os)" by blast
  moreover have "\<forall>u \<in> set (xs @ ts' @ ys). task_ok st' ?A' u" using others ts' by auto
  moreover have "io_ok (st_io st')" using fr' by simp
  ultimately show ?thesis unfolding conc_inv.simps A' using tbl maps rebs by blast
qed

text \<open>A piece that leaves the registered objects alone.\<close>

lemma inv_session:
  fixes st st' :: "'w st"
  assumes inv: "conc_inv (st, xs @ t # ys, ss, os)"
    and st': "tbl st' = tbl st" "nxt st \<le> nxt st'" "io_ok (st_io st) \<Longrightarrow> io_ok (st_io st')" "\<forall>q. q \<noteq> p \<longrightarrow> sess st' q = sess st q"
      "s_ID (sess st' p) = s_ID (sess st p)" "s_closed (sess st' p) = s_closed (sess st p)"
      "s_forwards (sess st' p) = s_forwards (sess st p)" "s_shells (sess st' p) = s_shells (sess st p)" "fwd st' = fwd st" "shl st' = shl st"
    and p: "p \<in> set (mentions t)" "closers t = []" "closing ts' = []" "\<forall>u \<in> set ts'. set (mentions u) \<subseteq> {p} \<and> stage_ok st' u"
    and rb: "\<forall>u \<in> set ts'. set (rebinds u) \<subseteq> set (rebinds t)"
    and cl: "spent (sess st p) \<Longrightarrow> s_client (sess st' p) = None"
    and cov: "\<And>h P. P \<or> spent (sess st p) \<Longrightarrow> h \<in> live (st_io st') \<Longrightarrow>
       h \<in> live (st_io st) \<longrightarrow> h \<in> inHands st t \<or> P \<and> h \<in> transport (sess st p) \<Longrightarrow>
       P \<and> h \<in> transport (sess st' p) \<or> (\<exists>u \<in> set ts'. h \<in> inHands st' u) \<or> h \<in> set os'"
  shows "conc_inv (st', xs @ ts' @ ys, ss, os' @ os)"
proof -
  let ?A = "active st (xs @ t # ys) ss" and ?A' = "active st (xs @ ts' @ ys) ss"
  have A: "?A' = ?A" using p by (simp add: active_def)
  have ok: "io_ok (st_io st)" "task_ok st ?A t" "\<forall>q \<in> ?A. maps_ok st q" using inv by simp_all
  have tp: "p < nxt st" "p \<in> ?A \<or> spent (sess st p)" using ok(2) p(1) by (auto simp: task_ok_def)
  have heaps: "fwdOwned st' = fwdOwned st" "shellOwned st' = shellOwned st"
    using st' by (auto simp: fwdOwned_def shellOwned_def fun_eq_iff)
  have fc: "t \<noteq> FwdClosing f" for f using p(1) by auto
  have fr: "frame_ok p st st'" using st' ok(1) heaps by (auto simp: frame_ok_def heap_grows_def)
  have maps: "maps_ok st' p" if "p \<in> ?A"
  proof -
    have "maps_ok st p" using that ok(3) by blast
    then show ?thesis using st'(2,7,8) by (auto simp: maps_ok_def intro: less_le_trans)
  qed
  have pa: "p \<in> ?A' \<or> spent (sess st' p)" using tp A st'(6-8) cl by (auto simp: spent_def)
  have tasks: "task_ok st' ?A' u" if "u \<in> set ts'" for u
  proof -
    have "set (rebinds u) \<subseteq> set (rebinds t)" using that rb by blast
    then have "\<forall>f \<in> set (rebinds u). f < nxt st'" using ok(2) st'(2) by (auto simp: task_ok_def intro: less_le_trans)
    then show ?thesis using that p(4) tp(1) st'(2) pa by (auto simp: task_ok_def intro: less_le_trans)
  qed
  have loc: "h \<in> located st' (xs @ ts' @ ys) ?A' os'"
    if h: "h \<in> live (st_io st')" and w: "h \<in> live (st_io st) \<longrightarrow> (\<exists>t \<in> set [t]. h \<in> inHands st t) \<or> p \<in> ?A \<and> h \<in> owned st p" for h
  proof (cases "h \<in> live (st_io st) \<longrightarrow> h \<in> inHands st t \<or> p \<in> ?A \<and> h \<in> transport (sess st p)")
    case True
    then show ?thesis using cov [OF tp(2) h] A by (auto simp: located_def owned_def)
  next
    case False
    then have "p \<in> ?A" "h \<in> owned st p" "h \<notin> transport (sess st p)" using w by auto
    then show ?thesis using A heaps st'(7,8) by (auto simp: located_def owned_def)
  qed
  show ?thesis
    by (rule inv_piece [where p = p and old = "[t]", simplified append_Cons append_Nil, OF inv fr _ _ maps _ _ tasks _ _ loc])
      (use p rb fc st' pa in \<open>auto simp: maps_step_def\<close>)
qed

section \<open>Calls on the outside\<close>

definition opens :: "handle list \<Rightarrow> 'w st \<Rightarrow> 'w st \<Rightarrow> bool" where
  "opens hs st st' \<longleftrightarrow> (\<exists>w. st' = st\<lparr>st_io := w\<rparr> \<and> live w \<subseteq> live (st_io st) \<union> set hs \<and> (io_ok (st_io st) \<longrightarrow> io_ok w))"

lemma opens_acquired: "acquired (st_io st) hs w \<Longrightarrow> opens hs st (st\<lparr>st_io := w\<rparr>)"
  unfolding opens_def by (metis acquired_def acquired_ok subset_refl)

lemma opens_close: "opens [] st (st_close x hs st)"
  unfolding opens_def st_close_def by (intro exI [of _ "io_close_all (x_close x) hs (st_io st)"]) (auto intro: io_ok_close_all)

lemma opens_open: "st_call (io_open f) st = (Inr h, st') \<Longrightarrow> opens [h] st st'"
  by (erule st_callE) (simp add: opens_acquired io_open_ok)

lemma opens_err: "st_call (io_open f) st = (Inl e, st') \<Longrightarrow> opens [] st st'"
  by (erule st_callE) (simp add: opens_acquired io_open_err)

lemma opens_call: "st_call (io_call f) st = (r, st') \<Longrightarrow> opens [] st st'"
  by (erule st_callE) (simp add: opens_acquired io_call_acq)

lemma opens_trans: "opens hs st st' \<Longrightarrow> opens ks st' st'' \<Longrightarrow> opens (hs @ ks) st st''"
  unfolding opens_def by fastforce

lemma opens_none: "opens [] st st' \<Longrightarrow> opens [] st' st'' \<Longrightarrow> opens [] st st''"
  using opens_trans [of "[]" st st' "[]" st''] by simp

lemma opens_refl [simp]: "opens [] st st"
  unfolding opens_def by (intro exI [of _ "st_io st"]) simp

lemma opens_dial:
  assumes "io_ok (st_io st)" and "st_call (dialFinal x spec) st = (r, st')"
  shows "opens (case r of Inl _ \<Rightarrow> [] | Inr (c, js, a) \<Rightarrow> c # js) st st'"
proof -
  obtain w where d: "dialFinal x spec (st_io st) = (r, w)" and w: "st' = st\<lparr>st_io := w\<rparr>"
    using assms(2) by (rule st_callE)
  show ?thesis
  proof (cases r)
    case (Inl e)
    then show ?thesis using dialFinal_acq [OF assms(1) d] w by (simp add: opens_acquired)
  next
    case (Inr t)
    then obtain c js a where t: "r = Inr (c, js, a)" by (cases t) auto
    then have "acquired (st_io st) (js @ [c]) w" using dialFinal_acq [OF assms(1) d] by simp
    then have "opens (js @ [c]) st st'" using w by (simp add: opens_acquired)
    then show ?thesis using t by (simp add: opens_def)
  qed
qed

lemma opensE:
  assumes "opens hs st st'"
  obtains w where "st' = st\<lparr>st_io := w\<rparr>" "live w \<subseteq> live (st_io st) \<union> set hs" "io_ok (st_io st) \<longrightarrow> io_ok w"
  using assms unfolding opens_def by blast

lemma opens_requests: "startShell x ch opts (requestAgent x p ch (setenvs x ch env st)) = (r, st') \<Longrightarrow> opens [] st st'"
proof -
  have e: "opens [] st (setenvs x ch env st)" for st
  proof (induction env arbitrary: st)
    case (Cons kv env)
    obtain k v where "kv = (k, v)" by fastforce
    moreover have "opens [] st (snd (st_call (io_call (x_setenv x ch k v)) st))"
      by (metis opens_call prod.collapse)
    ultimately show ?case using Cons opens_none by auto
  qed simp
  have a: "opens [] st (requestAgent x p ch st)" for st
    unfolding requestAgent_def by (metis opens_call opens_refl prod.collapse)
  have s: "opens [] st st'" if "startShell x ch opts st = (r, st')" for st r st'
    using that by (auto simp: startShell_def Let_def split: prod.splits option.splits if_splits dest!: opens_call intro: opens_none)
  assume "startShell x ch opts (requestAgent x p ch (setenvs x ch env st)) = (r, st')"
  then show ?thesis using e a s opens_none by metis
qed

text \<open>A piece that calls the outside and changes fields of its session.\<close>

lemma inv_calls:
  fixes st :: "'w st"
  assumes "conc_inv (st, xs @ t # ys, ss, os)" and o: "opens hs st st1" and st': "st' = updS p g st1"
    and "\<And>S. s_ID (g S) = s_ID S \<and> s_closed (g S) = s_closed S \<and> s_forwards (g S) = s_forwards S \<and> s_shells (g S) = s_shells S"
    and "p \<in> set (mentions t)" "closers t = []" "closing ts' = []" "\<forall>u \<in> set ts'. set (mentions u) \<subseteq> {p} \<and> stage_ok st' u"
      "\<forall>u \<in> set ts'. set (rebinds u) \<subseteq> set (rebinds t)"
    and "spent (sess st p) \<Longrightarrow> s_client (g (sess st p)) = None"
    and "\<And>h. h \<in> live (st_io st1) \<Longrightarrow> h \<in> inHands st t \<or> h \<in> set hs \<Longrightarrow> (\<exists>u \<in> set ts'. h \<in> inHands st' u) \<or> h \<in> set os' \<or>
      \<not> spent (sess st p) \<and> h \<in> transport (g (sess st p))"
    and "\<And>h. h \<in> live (st_io st1) \<Longrightarrow> h \<in> transport (sess st p) \<Longrightarrow> h \<in> transport (g (sess st p)) \<or> h \<in> set os'"
  shows "conc_inv (st', xs @ ts' @ ys, ss, os' @ os)"
proof -
  obtain w where w: "st1 = st\<lparr>st_io := w\<rparr>" "live w \<subseteq> live (st_io st) \<union> set hs" "io_ok (st_io st) \<longrightarrow> io_ok w"
    using o by (rule opensE)
  have s: "sess st' p = g (sess st p)" "st_io st' = w" "tbl st' = tbl st" "nxt st' = nxt st" "fwd st' = fwd st" "shl st' = shl st"
      "\<forall>q. q \<noteq> p \<longrightarrow> sess st' q = sess st q" using w st' by simp_all
  show ?thesis
  proof (rule inv_session [where p = p, OF assms(1)])
    show "P \<and> h \<in> transport (sess st' p) \<or> (\<exists>u \<in> set ts'. h \<in> inHands st' u) \<or> h \<in> set os'"
      if "P \<or> spent (sess st p)" "h \<in> live (st_io st')" "h \<in> live (st_io st) \<longrightarrow> h \<in> inHands st t \<or> P \<and> h \<in> transport (sess st p)" for h P
      using that assms(11,12) [of h] w(1,2) s by auto
  qed (use assms(4-10) w(3) s in simp_all)
qed

declare conc_inv.simps [simp del]

lemma conc_inv_io: "conc_inv (st, ts, ss, os) \<Longrightarrow> io_ok (st_io st)"
  by (simp add: conc_inv.simps)

lemma conc_invD:
  assumes "conc_inv (st, ts, ss, os)"
  shows "io_ok (st_io st)" "table_ok st ts" "\<forall>q \<in> active st ts ss. maps_ok st q" "\<forall>u \<in> set ts. task_ok st (active st ts ss) u"
    "\<forall>u \<in> set ts. \<forall>f \<in> set (rebinds u). rebind_ok st ts (active st ts ss) f" "live (st_io st) \<subseteq> located st ts (active st ts ss) os"
  using assms unfolding conc_inv.simps by blast+

lemma updS_id: "updS p (\<lambda>S. S) st = st"
  by (simp add: updS_def)

lemma inv_world:
  assumes "conc_inv (st, xs @ t # ys, ss, os)" and "opens hs st st'"
    and "p \<in> set (mentions t)" "closers t = []" "closing ts' = []" "\<forall>u \<in> set ts'. set (mentions u) \<subseteq> {p} \<and> stage_ok st' u"
      "\<forall>u \<in> set ts'. set (rebinds u) \<subseteq> set (rebinds t)"
    and "\<And>h. h \<in> live (st_io st') \<Longrightarrow> h \<in> inHands st t \<or> h \<in> set hs \<Longrightarrow> \<exists>u \<in> set ts'. h \<in> inHands st' u"
  shows "conc_inv (st', xs @ ts' @ ys, ss, os)"
  using inv_calls [OF assms(1,2) updS_id [symmetric], where p = p and ts' = ts' and os' = "[]"] assms(3-) by (auto simp: spent_def)

section \<open>Every piece keeps it\<close>

lemmas inv_field = inv_calls [where os' = "[]", unfolded append_Nil]

lemmas race_simps = transport_def opt_list_def oldTransport_def spent_def agentFailed_def markState_def updS_def st_close_def
  setReconnecting_def

lemma mentions_one: "mentions t = [] \<or> (\<exists>p. mentions t = [p])"
  by (cases t) simp_all

text \<open>The pieces that only call the outside.\<close>

lemma run_world:
  assumes "conc_inv (st, xs @ t # ys, ss, os)" and "opens hs st st'" and "mentions t \<noteq> []" and "closers t = []" and "closing ts' = []"
    and "\<forall>u \<in> set ts'. set (mentions u) \<subseteq> set (mentions t) \<and> stage_ok st' u \<and> set (rebinds u) \<subseteq> set (rebinds t)"
    and "\<And>h. h \<in> live (st_io st') \<Longrightarrow> h \<in> inHands st t \<or> h \<in> set hs \<Longrightarrow> \<exists>u \<in> set ts'. h \<in> inHands st' u"
  shows "conc_inv (st', xs @ ts' @ ys, ss, os)"
proof -
  obtain p where "mentions t = [p]" using mentions_one [of t] assms(3) by auto
  then show ?thesis using inv_world [OF assms(1,2), of p ts'] assms(4-) by auto
qed

lemma run_same:
  assumes "conc_inv (st, xs @ t # ys, ss, os)" and "mentions t \<noteq> []" and "closers t = []" and "closing ts' = []"
    and "\<forall>u \<in> set ts'. set (mentions u) \<subseteq> set (mentions t) \<and> stage_ok st u \<and> set (rebinds u) \<subseteq> set (rebinds t)"
    and "\<And>h. h \<in> inHands st t \<Longrightarrow> \<exists>u \<in> set ts'. h \<in> inHands st u"
  shows "conc_inv (st, xs @ ts' @ ys, ss, os)"
  by (rule run_world [OF assms(1) opens_refl assms(2-5)]) (use assms(6) in simp)

lemma opens_dialed:
  assumes "conc_inv (st, ts, ss, os)" and "st_call (dialFinal x spec) st = (r, st')"
  shows "opens (case r of Inl _ \<Rightarrow> [] | Inr (c, js, a) \<Rightarrow> c # js) st st'"
  by (rule opens_dial [OF conc_inv_io [OF assms(1)] assms(2)])

lemma setClient_yes:
  "setClient x p c js a st = (True, st') \<Longrightarrow> \<not> s_closed (sess st p) \<and> st' = updS p (\<lambda>S. S\<lparr>s_client := Some c, s_jumps := js, s_addr := a,
     s_state := StateConnected, s_lastError := None, s_connectedAt := x_now x (orc (st_io st))\<rparr>) st"
  by (auto simp: setClient_def split: if_splits)

lemma setClient_no: "setClient x p c js a st = (False, st') \<Longrightarrow> s_closed (sess st p) \<and> st' = st_close x (c # js) st"
  by (auto simp: setClient_def split: if_splits)

lemma inv_retable:
  assumes inv: "conc_inv (st, ts, ss, os)"
    and A: "active (st\<lparr>tbl := m\<rparr>) ts' ss' = active st ts ss" and tb: "table_ok (st\<lparr>tbl := m\<rparr>) ts'"
    and new: "\<forall>u \<in> set ts'. u \<in> set ts \<or> task_ok st (active st ts ss) u \<and> rebinds u = []"
    and old: "\<forall>u \<in> set ts. u \<in> set ts' \<or> (\<forall>h. h \<notin> inHands st u) \<and> (\<forall>f. u \<noteq> FwdClosing f)"
  shows "conc_inv (st\<lparr>tbl := m\<rparr>, ts', ss', os)"
proof -
  let ?A = "active st ts ss" and ?st = "st\<lparr>tbl := m\<rparr>"
  have "stage_ok ?st u = stage_ok st u" "inHands ?st u = inHands st u" for u by (cases u; simp add: fwdOwned_def shellOwned_def)+
  then have eq: "task_ok ?st ?A u = task_ok st ?A u" "inHands ?st u = inHands st u" "maps_ok ?st p = maps_ok st p" "owned ?st p = owned st p" for u p
    by (simp_all add: task_ok_def maps_ok_def owned_def fwdOwned_def shellOwned_def)
  have reb: "rebind_ok ?st ts' ?A f" if "rebind_ok st ts ?A f" for f using that old by (auto simp: rebind_ok_def)
  have "located st ts ?A os \<subseteq> located ?st ts' ?A os" using old eq by (fastforce simp: located_def)
  then show ?thesis using inv new tb reb eq unfolding conc_inv.simps A by fastforce
qed

lemma gm_vals_split: "gm_wf m \<Longrightarrow> set (gm_vals m) = set (gm_vals (gm_del k m)) \<union> set_option (gm_get m k)"
proof (rule set_eqI)
  fix v
  assume "gm_wf m"
  then show "v \<in> set (gm_vals m) \<longleftrightarrow> v \<in> set (gm_vals (gm_del k m)) \<union> set_option (gm_get m k)"
    by (cases "gm_get m k = Some v") (auto simp: gm_vals_iff)
qed

subsection \<open>Connect\<close>

lemma table_del:
  assumes "table_ok st ts" and "set (closing ts') \<subseteq> set (closing ts)" and "distinct (closing ts')"
  shows "table_ok (st\<lparr>tbl := gm_del k (tbl st)\<rparr>) ts'"
  using assms gm_vals_split [of "tbl st" k] by (auto simp: table_ok_def)

lemma inv_failed:
  assumes "conc_inv (st, xs @ ConnFailed k p # ys, ss, os)"
  shows "conc_inv (connectFail k st, xs @ ys, (case gm_get (tbl st) k of Some q \<Rightarrow> [q] | None \<Rightarrow> []) @ ss, os)"
proof -
  have t: "table_ok st (xs @ ConnFailed k p # ys)" using assms by (simp add: conc_inv.simps)
  then have v: "set (gm_vals (tbl st)) = set (gm_vals (gm_del k (tbl st))) \<union> set_option (gm_get (tbl st) k)"
    using gm_vals_split [of "tbl st" k] by (simp add: table_ok_def)
  have "active (st\<lparr>tbl := gm_del k (tbl st)\<rparr>) (xs @ ys) ((case gm_get (tbl st) k of Some q \<Rightarrow> [q] | None \<Rightarrow> []) @ ss) =
      active st (xs @ ConnFailed k p # ys) ss"
    unfolding active_def v by (cases "gm_get (tbl st) k") auto
  moreover have "table_ok (st\<lparr>tbl := gm_del k (tbl st)\<rparr>) (xs @ ys)"
    by (rule table_del [OF t]) (use t in \<open>auto simp: table_ok_def\<close>)
  ultimately show ?thesis unfolding connectFail_def by (intro inv_retable [OF assms]) auto
qed

lemma refused_gone:
  assumes "conc_inv (st, xs @ ConnRefused k p # ys, ss, os)"
  shows "gm_get (tbl st) k \<noteq> Some p"
  using assms by (auto simp: conc_inv.simps task_ok_def table_ok_def)

fun connectTask :: "task \<Rightarrow> bool" where
  "connectTask (Connecting _ _ _) = True"
| "connectTask (ConnDialed _ _ _ _ _ _) = True"
| "connectTask (ConnFailed _ _) = True"
| "connectTask (ConnRefused _ _) = True"
| "connectTask _ = False"

lemma run_connect:
  assumes "task_step x s t st ts' st' ss' os'" and "conc_inv (st, xs @ t # ys, ss, os)" and "connectTask t"
  shows "conc_inv (st', xs @ ts' @ ys, ss' @ ss, os' @ os)"
  using assms
proof (induction rule: task_step.induct)
  case dial_ok
  show ?case unfolding append_Nil by (rule run_world [OF dial_ok(2) opens_dialed [OF dial_ok(2,1)]]) simp_all
next
  case dial_err
  show ?case unfolding append_Nil by (rule run_world [OF dial_err(2) opens_dialed [OF dial_err(2,1)]]) simp_all
next
  case conn_failed
  show ?case using inv_failed [OF conn_failed(1)] by simp
next
  case (conn_install p c js a st st' k spec)
  note st' = setClient_yes [OF conn_install(1)]
  show ?case unfolding append_Nil
    by (rule inv_calls [OF conn_install(2) opens_refl conjunct2 [OF st']]) (use st' in \<open>auto simp: race_simps\<close>)
next
  case (conn_refuse p c js a st st' k spec)
  note st' = setClient_no [OF conn_refuse(1)]
  then have "opens [] st st'" using opens_close by metis
  then show ?case unfolding append_Nil by (rule run_world [OF conn_refuse(2)]) (use st' in auto)
next
  case conn_refused
  show ?case using refused_gone [OF conn_refused(1)] run_same [OF conn_refused(1), of "[]"] by simp
qed simp_all

subsection \<open>The agent and the keepalive\<close>

fun agentTask :: "task \<Rightarrow> bool" where
  "agentTask (AgentDialing _ _) = True"
| "agentTask (AgentDialed _ _ _) = True"
| "agentTask (AgentForwarding _ _ _ _) = True"
| "agentTask _ = False"

lemma agent_lost_eq:
  "agentFailed p e (st_close x hs (updS p g st)) =
     updS p (\<lambda>S. (g S)\<lparr>s_state := StateConnected, s_lastError := Some (Wrapf ''agent forwarding: %w'' [] e)\<rparr>) (st_close x hs st)"
  by (simp add: race_simps)

lemma agent_refused_eq:
  "agentFailed p e (updS p g st) =
     updS p (\<lambda>S. (g S)\<lparr>s_state := StateConnected, s_lastError := Some (Wrapf ''agent forwarding: %w'' [] e)\<rparr>) st"
  by (simp add: race_simps)

lemma agent_failed_eq:
  "agentFailed p e st = updS p (\<lambda>S. S\<lparr>s_state := StateConnected, s_lastError := Some (Wrapf ''agent forwarding: %w'' [] e)\<rparr>) st"
  by (simp add: race_simps)

lemma run_agent:
  assumes "task_step x s t st ts' st' ss' os'" and "conc_inv (st, xs @ t # ys, ss, os)" and "agentTask t"
  shows "conc_inv (st', xs @ ts' @ ys, ss' @ ss, os' @ os)"
  using assms
proof (induction rule: task_step.induct)
  case agent_none
  show ?case unfolding agent_failed_eq append_Nil
    by (rule inv_field [OF agent_none(2) opens_refl refl]) (auto simp: race_simps)
next
  case agent_err
  show ?case unfolding agent_failed_eq append_Nil
    by (rule inv_field [OF agent_err(4) opens_err [OF agent_err(3)] refl]) (auto simp: race_simps)
next
  case agent_ok
  show ?case unfolding append_Nil by (rule run_world [OF agent_ok(4) opens_open [OF agent_ok(3)]]) simp_all
next
  case agent_lost
  show ?case unfolding agent_lost_eq append_Nil
    by (rule inv_calls [OF agent_lost(2) opens_close refl]) (auto simp: race_simps)
next
  case agent_set
  show ?case unfolding append_Nil
    by (rule inv_calls [OF agent_set(2) opens_refl refl]) (use agent_set(1) in \<open>auto simp: race_simps\<close>)
next
  case agent_done
  show ?case unfolding append_Nil by (rule run_world [OF agent_done(2) opens_call [OF agent_done(1)]]) simp_all
next
  case agent_refused
  show ?case unfolding agent_refused_eq append_Nil
    by (rule inv_calls [OF agent_refused(2) opens_none [OF opens_call [OF agent_refused(1)] opens_close] refl]) (auto simp: race_simps)
qed simp_all

fun keepTask :: "task \<Rightarrow> bool" where
  "keepTask (ConnEnd _ _) = True"
| "keepTask (Keeping _ _) = True"
| "keepTask (Pinging _ _ _) = True"
| "keepTask (Attempting _ _) = True"
| "keepTask _ = False"

lemma inv_started:
  assumes "conc_inv (st, xs @ ConnEnd p spec # ys, ss, os)"
  shows "conc_inv (startKeepalive p st, xs @ (if s_closed (sess st p) then [] else [Keeping p (nxt st)]) @ ys, ss, os)"
proof -
  have "conc_inv (startKeepalive p st, xs @ (if s_closed (sess st p) then [] else [Keeping p (nxt st)]) @ ys, ss, [] @ os)"
    by (cases "s_closed (sess st p)"; rule inv_session [where p = p, OF assms]) (auto simp: startKeepalive_def Let_def transport_def spent_def)
  then show ?thesis by simp
qed

lemma reconnectBegin_eq:
  "reconnectBegin x p st = updS p (\<lambda>S. S\<lparr>s_reconnecting := True, s_sftp := None, s_client := None, s_jumps := [], s_agentConn := None, s_agentOn := False,
      s_state := StateReconnecting\<rparr>)
    (st_close x (opt_list (s_sftp (sess st p)) @ opt_list (s_client (sess st p)) @ s_jumps (sess st p) @ opt_list (s_agentConn (sess st p))) st)"
  by (simp add: reconnectBegin_def clearClient_def race_simps)

lemma inv_reconnect:
  assumes "conc_inv (st, xs @ t # ys, ss, os)" and "mentions t = [p]" "closers t = []" "handlesOf t = []"
  shows "conc_inv (reconnectBegin x p st, xs @ [Redialing p r] @ ys, ss, os)"
proof -
  have "inHands st t = {}" using assms(2,4) by (cases t) auto
  then show ?thesis unfolding reconnectBegin_eq
    by (intro inv_field [OF assms(1) opens_close refl]) (use assms in \<open>auto simp: race_simps\<close>)
qed

lemma run_keep:
  assumes "task_step x s t st ts' st' ss' os'" and "conc_inv (st, xs @ t # ys, ss, os)" and "keepTask t"
  shows "conc_inv (st', xs @ ts' @ ys, ss' @ ss, os' @ os)"
  using assms
proof (induction rule: task_step.induct)
  case conn_quiet
  show ?case using run_same [OF conn_quiet(3), of "[]"] by simp
next
  case conn_end
  show ?case using inv_started [OF conn_end(2)] by simp
next
  case keep_cancelled
  show ?case using run_same [OF keep_cancelled(2), of "[]"] by simp
next
  case keep_idle
  show ?case unfolding append_Nil by (rule run_same [OF keep_idle(2)]) simp_all
next
  case keep_ping
  show ?case unfolding append_Nil by (rule run_same [OF keep_ping(2)]) simp_all
next
  case keep_ok
  show ?case unfolding append_Nil by (rule run_world [OF keep_ok(2) opens_call [OF keep_ok(1)]]) simp_all
next
  case (keep_lost c st e st' p ctx)
  let ?t = "if AutoReconnect (s_Spec (sess st p)) then Attempting p ctx else Keeping p ctx"
  have "conc_inv (markState p StateDisconnected (Some e) st', xs @ [?t] @ ys, ss, os)"
    unfolding markState_def by (rule inv_field [OF keep_lost(2) opens_call [OF keep_lost(1)] refl]) (auto simp: race_simps)
  moreover have "conc_inv (st', xs @ [?t] @ ys, ss, os)"
    by (rule run_world [OF keep_lost(2) opens_call [OF keep_lost(1)]]) simp_all
  ultimately show ?case by (cases "AutoReconnect (s_Spec (sess st p))") simp_all
next
  case keep_busy
  show ?case unfolding append_Nil by (rule run_same [OF keep_busy(2)]) simp_all
next
  case keep_reconnect
  show ?case unfolding append_Nil by (rule inv_reconnect [OF keep_reconnect(2)]) simp_all
qed simp_all

subsection \<open>Reconnecting\<close>

fun redialTask :: "task \<Rightarrow> bool" where
  "redialTask (Redialing _ _) = True"
| "redialTask (Redialed _ _ _ _ _) = True"
| "redialTask (Rewaiting _ _) = True"
| "redialTask _ = False"

lemma resume_simps [simp]:
  "closing (resume p r) = []" "u \<in> set (resume p r) \<Longrightarrow> mentions u = [p]" "u \<in> set (resume p r) \<Longrightarrow> rebinds u = []"
  "u \<in> set (resume p r) \<Longrightarrow> stage_ok st u" "u \<in> set (resume p r) \<Longrightarrow> inHands st u = {}"
  by (cases r; auto)+

lemma inv_unlock:
  assumes "conc_inv (st, xs @ t # ys, ss, os)" and "opens hs st st'" and "mentions t = [p]" "closers t = []"
    and "\<And>h. h \<in> live (st_io st') \<Longrightarrow> h \<notin> inHands st t \<and> h \<notin> set hs"
  shows "conc_inv (setReconnecting p False st', xs @ resume p r @ ys, ss, os)"
  unfolding setReconnecting_def
  by (rule inv_field [OF assms(1,2) refl]) (use assms(3-) in \<open>auto simp: spent_def transport_def\<close>)

lemma run_redial:
  assumes "task_step x s t st ts' st' ss' os'" and "conc_inv (st, xs @ t # ys, ss, os)" and "redialTask t"
  shows "conc_inv (st', xs @ ts' @ ys, ss' @ ss, os' @ os)"
  using assms
proof (induction rule: task_step.induct)
  case (redial_cancelled ctx st p)
  show ?case using inv_unlock [OF redial_cancelled(2) opens_refl, of p "Some ctx"] by simp
next
  case redial_ok
  show ?case unfolding append_Nil by (rule run_world [OF redial_ok(2) opens_dialed [OF redial_ok(2,1)]]) simp_all
next
  case (redial_err st p e st')
  have "setReconnecting p False (markState p StateDisconnected (Some e) st') =
      updS p (\<lambda>S. S\<lparr>s_state := StateDisconnected, s_lastError := Some e, s_reconnecting := False\<rparr>) st'"
    by (simp add: race_simps)
  moreover have "conc_inv (updS p (\<lambda>S. S\<lparr>s_state := StateDisconnected, s_lastError := Some e, s_reconnecting := False\<rparr>) st', xs @ [] @ ys, ss, os)"
    by (rule inv_field [OF redial_err(2) opens_dialed [OF redial_err(2,1)] refl]) (auto simp: race_simps)
  ultimately show ?case by simp
next
  case (redial_wait st p e st' ctx)
  show ?case unfolding markState_def append_Nil
    by (rule inv_field [OF redial_wait(2) opens_dialed [OF redial_wait(2,1)] refl]) (auto simp: race_simps)
next
  case wait_over
  show ?case unfolding append_Nil by (rule run_same [OF wait_over(1)]) simp_all
next
  case (wait_cancelled ctx st p)
  show ?case using inv_unlock [OF wait_cancelled(2) opens_refl, of p "Some ctx"] by simp
next
  case (re_install p c js a st st' r)
  note st' = setClient_yes [OF re_install(1)]
  show ?case unfolding append_Nil
    by (rule inv_calls [OF re_install(2) opens_refl conjunct2 [OF st']]) (use st' in \<open>auto simp: race_simps\<close>)
next
  case (re_refuse p c js a st st' r)
  note st' = setClient_no [OF re_refuse(1)]
  then have "opens [] st st'" using opens_close by metis
  then show ?case unfolding append_Nil by (rule inv_unlock [OF re_refuse(2)]) (use st' in auto)
qed simp_all

subsection \<open>Rebinding\<close>

fun rebindTask :: "task \<Rightarrow> bool" where
  "rebindTask (Reconnected _ _) = True"
| "rebindTask (Rebinding _ _ _) = True"
| "rebindTask (RebindListening _ _ _ _ _) = True"
| "rebindTask (RebindGot _ _ _ _ _) = True"
| "rebindTask _ = False"

lemma inv_listed:
  assumes inv: "conc_inv (st, xs @ Reconnected p r # ys, ss, os)"
  shows "conc_inv (st, xs @ [Rebinding p r (gm_vals (s_forwards (sess st p)))] @ ys, ss, os)"
proof -
  let ?u = "Rebinding p r (gm_vals (s_forwards (sess st p)))" and ?A = "active st (xs @ Reconnected p r # ys) ss"
  have A: "active st (xs @ [?u] @ ys) ss = ?A" by (simp add: active_def)
  note ok = conc_invD [OF inv]
  have p: "p < nxt st" "p \<in> ?A \<or> spent (sess st p)" using ok(4) by (auto simp: task_ok_def)
  have fs: "f < nxt st \<and> rebind_ok st (xs @ [?u] @ ys) ?A f" if f: "f \<in> set (gm_vals (s_forwards (sess st p)))" for f
  proof -
    have "p \<in> ?A" using p(2) f by (auto simp: spent_def)
    then show ?thesis using f ok(3) by (auto simp: rebind_ok_def maps_ok_def)
  qed
  have "rebind_ok st (xs @ [?u] @ ys) ?A f" if "rebind_ok st (xs @ Reconnected p r # ys) ?A f" for f
    using that by (auto simp: rebind_ok_def)
  then have reb: "\<forall>u \<in> set (xs @ [?u] @ ys). \<forall>f \<in> set (rebinds u). rebind_ok st (xs @ [?u] @ ys) ?A f"
    using ok(5) fs by auto
  have "\<forall>u \<in> set (xs @ [?u] @ ys). task_ok st ?A u" using ok(4) p fs by (auto simp: task_ok_def)
  moreover have "table_ok st (xs @ [?u] @ ys)" using ok(2) by (simp add: table_ok_def)
  moreover have "live (st_io st) \<subseteq> located st (xs @ [?u] @ ys) ?A os" using ok(6) by (auto simp: located_def)
  ultimately show ?thesis unfolding conc_inv.simps A using ok(1,3) reb by blast
qed

lemma inv_swapped:
  assumes inv: "conc_inv (st, xs @ RebindGot p r f ln fs # ys, ss, os)"
  shows "conc_inv (swapListener x f ln st, xs @ [Rebinding p r fs] @ ys, ss, os)"
proof (cases "f_closed (fwd st f)")
  case True
  then show ?thesis
    by (auto simp: swapListener_def intro!: run_world [OF inv opens_close, of "[Rebinding p r fs]", simplified])
next
  case False
  let ?t = "RebindGot p r f ln fs"
  let ?st = "swapListener x f ln st" and ?A = "active st (xs @ ?t # ys) ss"
  have st: "tbl ?st = tbl st" "nxt ?st = nxt st" "sess ?st = sess st" "shl ?st = shl st" "f_listener (fwd ?st f) = Some ln" "\<not> f_closed (fwd ?st f)"
      "\<forall>g. g \<noteq> f \<longrightarrow> fwd ?st g = fwd st g" "live (st_io ?st) = live (st_io st) - set_option (f_listener (fwd st f))"
      "io_ok (st_io st) \<Longrightarrow> io_ok (st_io ?st)"
    using False by (auto simp: swapListener_def st_close_def intro: io_ok_close_all)
  have inv': "io_ok (st_io st)" "task_ok st ?A ?t" "rebind_ok st (xs @ ?t # ys) ?A f" "\<forall>q \<in> ?A. maps_ok st q"
    using conc_invD [OF inv] by simp_all
  have A: "active st (xs @ [Rebinding p r fs] @ ys) ss = ?A" by (simp add: active_def)
  have own: "fwdOwned ?st f = {ln}" "g \<noteq> f \<Longrightarrow> fwdOwned ?st g = fwdOwned st g" "shellOwned ?st h = shellOwned st h" for g h
    using st by (auto simp: fwdOwned_def shellOwned_def)
  have "fwdOwned st g \<inter> live (st_io ?st) \<subseteq> fwdOwned ?st g \<and> (f_closed (fwd st g) \<longrightarrow> f_closed (fwd ?st g))" for g
    using st own False by (cases "g = f") (auto simp: fwdOwned_def)
  then have fr: "frame_ok p st ?st" using st own(3) inv'(1) by (simp add: frame_ok_def heap_grows_def)
  have maps: "maps_ok ?st p" if "p \<in> ?A" using that inv'(4) st(2,3) maps_ok_mono by (metis le_refl)
  have task: "task_ok ?st ?A (Rebinding p r fs)" using inv'(2) st(2,3) by (simp add: task_ok_def)
  show ?thesis
  proof (rule inv_piece [where p = p and old = "[?t]" and os' = "[]", simplified append_Cons append_Nil, OF inv fr, simplified append_Nil])
    fix h
    assume h: "h \<in> live (st_io ?st)" and w: "h \<in> live (st_io st) \<longrightarrow> (\<exists>t \<in> set [?t]. h \<in> inHands st t) \<or> p \<in> active st (xs @ ?t # ys) ss \<and> h \<in> owned st p"
    show "h \<in> located ?st (xs @ [Rebinding p r fs] @ ys) (active st (xs @ [Rebinding p r fs] @ ys) ss) []"
    proof (cases "h = ln")
      case True
      consider "FwdClosing f \<in> set (xs @ ys)" | q where "q \<in> ?A" "f \<in> set (gm_vals (s_forwards (sess st q)))"
        using inv'(3) False by (auto simp: rebind_ok_def)
      then show ?thesis
      proof cases
        case 1
        then show ?thesis using own(1) True by (force simp: located_def)
      next
        case 2
        then have "h \<in> owned ?st q" using own(1) True st(3) by (auto simp: owned_def)
        then show ?thesis using 2 A by (auto simp: located_def)
      qed
    next
      case False
      then have "p \<in> ?A" "h \<in> owned st p" using w h st(8) by auto
      then have "h \<in> owned ?st p" using h st(3) fr inv'(4) owned_grows [of st ?st p] unfolding frame_ok_def by (metis IntI subsetD)
      then show ?thesis using A \<open>p \<in> ?A\<close> by (auto simp: located_def)
    qed
  qed (use st(1,3) A maps task in \<open>auto simp: maps_step_def\<close>)
qed

lemma run_rebind:
  assumes "task_step x s t st ts' st' ss' os'" and "conc_inv (st, xs @ t # ys, ss, os)" and "rebindTask t"
  shows "conc_inv (st', xs @ ts' @ ys, ss' @ ss, os' @ os)"
  using assms
proof (induction rule: task_step.induct)
  case rebind_list
  show ?case using inv_listed [OF rebind_list(1)] by simp
next
  case rebind_end
  show ?case using inv_unlock [OF rebind_end(1) opens_refl] by simp
next
  case rebind_skip
  show ?case unfolding append_Nil by (rule run_same [OF rebind_skip(2)]) auto
next
  case rebind_client
  show ?case unfolding append_Nil by (rule run_same [OF rebind_client(4)]) auto
next
  case rebind_err
  show ?case unfolding append_Nil by (rule run_world [OF rebind_err(3) opens_err [OF rebind_err(2)]]) auto
next
  case rebind_ok
  show ?case unfolding append_Nil by (rule run_world [OF rebind_ok(3) opens_open [OF rebind_ok(2)]]) auto
next
  case rebind_swap
  show ?case using inv_swapped [OF rebind_swap(1)] by simp
qed simp_all

subsection \<open>Closing\<close>

text \<open>A piece of closing: it takes the session one stage further and closes what it takes out.\<close>

lemma inv_stage:
  assumes inv: "conc_inv (st, xs @ t # ys, ss, os)" and t: "closers t = [p]" "handlesOf t = []" "rebinds t = []"
    and fr: "frame_ok p st st'"
    and u: "closing ts' = [p] \<or> ts' = [] \<and> spent (sess st' p) \<and> s_forwards (sess st p) = []"
      "\<And>u. u \<in> set ts' \<Longrightarrow> mentions u = [] \<and> rebinds u = [] \<and> stage_ok st' u"
    and m: "maps_ok st p \<Longrightarrow> maps_ok st' p" "maps_step p ts' st st'"
    and own: "owned st p \<inter> live (st_io st') \<subseteq> owned st' p" "ts' = [] \<Longrightarrow> owned st p \<inter> live (st_io st') = {}" "live (st_io st') \<subseteq> live (st_io st)"
  shows "conc_inv (st', xs @ ts' @ ys, ss, os)"
proof -
  let ?A = "active st (xs @ t # ys) ss" and ?A' = "active st (xs @ ts' @ ys) ss"
  have p: "p \<in> ?A" using t(1) by (simp add: active_def)
  have p': "p \<in> ?A'" if "closing ts' = [p]" using that by (simp add: active_def)
  have none: "\<forall>h. h \<notin> inHands st t" using t(1,2) by (cases t) auto
  have task: "task_ok st' B u" if "u \<in> set ts'" for B u using u(2) [OF that] by (simp add: task_ok_def)
  have loc: "h \<in> located st' (xs @ ts' @ ys) ?A' []"
    if h: "h \<in> live (st_io st')" and w: "h \<in> live (st_io st) \<longrightarrow> (\<exists>t \<in> set [t]. h \<in> inHands st t) \<or> p \<in> ?A \<and> h \<in> owned st p" for h
  proof -
    have "h \<in> owned st p" using h w own(3) none by auto
    then have "h \<in> owned st' p" "closing ts' = [p]" using h own(1,2) u(1) by auto
    then show ?thesis using p' by (auto simp: located_def)
  qed
  have "maps_ok st p" using conc_invD(3) [OF inv] p by blast
  then show ?thesis
    by (intro inv_piece [where p = p and old = "[t]" and os' = "[]", simplified append_Cons append_Nil, OF inv fr _ _ _ _ _ _ _ _ loc, simplified append_Nil])
      (use t u m p p' task in auto)
qed

lemma owned_begin [simp]: "owned (closeBegin p st) q = owned st q" "live (st_io (closeBegin p st)) = live (st_io st)"
  by (auto simp: closeBegin_def Let_def owned_def transport_def fwdOwned_def shellOwned_def)

lemma close_begin_step:
  assumes "io_ok (st_io st)"
  shows "frame_ok p st (closeBegin p st)" "maps_ok st p \<Longrightarrow> maps_ok (closeBegin p st) p" "maps_step p ts (st) (closeBegin p st)"
    "s_closed (sess (closeBegin p st) p)"
  using assms by (auto simp: frame_ok_def heap_grows_def maps_ok_def maps_step_def closeBegin_def Let_def fwdOwned_def shellOwned_def)

lemma close_forwards_step:
  assumes "io_ok (st_io st)" and "s_closed (sess st p)"
  shows "frame_ok p st (closeFwdMap x p st)" "maps_ok st p \<Longrightarrow> maps_ok (closeFwdMap x p st) p" "maps_step p ts st (closeFwdMap x p st)"
    "s_closed (sess (closeFwdMap x p st) p)" "s_forwards (sess (closeFwdMap x p st) p) = []"
    "owned st p \<inter> live (st_io (closeFwdMap x p st)) \<subseteq> owned (closeFwdMap x p st) p" "live (st_io (closeFwdMap x p st)) \<subseteq> live (st_io st)"
proof -
  let ?fs = "gm_vals (s_forwards (sess st p))"
  have f: "fwdOwned st f \<inter> live (st_io (closeFwdMap x p st)) \<subseteq> fwdOwned (closeFwdMap x p st) f" for f
    by (auto simp: closeFwdMap_def closeForwards_fwd closeForwards_live fwdOwned_def split: if_splits)
  have h: "shellOwned (closeFwdMap x p st) = shellOwned st" by (simp add: closeFwdMap_def shellOwned_def fun_eq_iff)
  show "frame_ok p st (closeFwdMap x p st)"
    unfolding frame_ok_def heap_grows_def h using f assms(1)
    by (auto simp: closeFwdMap_def closeForwards_fwd closeForwards_live io_ok_def)
  show "maps_ok st p \<Longrightarrow> maps_ok (closeFwdMap x p st) p" "maps_step p ts st (closeFwdMap x p st)"
    "s_closed (sess (closeFwdMap x p st) p)" "s_forwards (sess (closeFwdMap x p st) p) = []" "live (st_io (closeFwdMap x p st)) \<subseteq> live (st_io st)"
    using assms(2) by (auto simp: closeFwdMap_def maps_ok_def maps_step_def closeForwards_fwd closeForwards_live)
  show "owned st p \<inter> live (st_io (closeFwdMap x p st)) \<subseteq> owned (closeFwdMap x p st) p"
    unfolding owned_def h by (auto simp: closeFwdMap_def transport_def closeForwards_live)
qed

lemma close_shells_step:
  assumes "io_ok (st_io st)" and "s_closed (sess st p)" and "s_forwards (sess st p) = []"
  shows "frame_ok p st (closeShellMap x p st)" "maps_ok st p \<Longrightarrow> maps_ok (closeShellMap x p st) p" "maps_step p ts st (closeShellMap x p st)"
    "s_closed (sess (closeShellMap x p st) p)" "s_forwards (sess (closeShellMap x p st) p) = []" "s_shells (sess (closeShellMap x p st) p) = []"
    "owned st p \<inter> live (st_io (closeShellMap x p st)) \<subseteq> owned (closeShellMap x p st) p" "live (st_io (closeShellMap x p st)) \<subseteq> live (st_io st)"
proof -
  have f: "shellOwned st h \<inter> live (st_io (closeShellMap x p st)) \<subseteq> shellOwned (closeShellMap x p st) h" for h
    by (auto simp: closeShellMap_def closeShells_shl closeShells_live shellOwned_def split: if_splits)
  have h: "fwdOwned (closeShellMap x p st) = fwdOwned st" "fwd (closeShellMap x p st) = fwd st"
    by (simp_all add: closeShellMap_def fwdOwned_def fun_eq_iff)
  show "frame_ok p st (closeShellMap x p st)"
    unfolding frame_ok_def heap_grows_def h using f assms(1)
    by (auto simp: closeShellMap_def closeShells_live io_ok_def)
  show "maps_ok st p \<Longrightarrow> maps_ok (closeShellMap x p st) p" "maps_step p ts st (closeShellMap x p st)"
    "s_closed (sess (closeShellMap x p st) p)" "s_forwards (sess (closeShellMap x p st) p) = []" "s_shells (sess (closeShellMap x p st) p) = []"
    "live (st_io (closeShellMap x p st)) \<subseteq> live (st_io st)"
    using assms(2,3) by (auto simp: closeShellMap_def maps_ok_def maps_step_def closeShells_live)
  show "owned st p \<inter> live (st_io (closeShellMap x p st)) \<subseteq> owned (closeShellMap x p st) p"
    unfolding owned_def h by (auto simp: closeShellMap_def transport_def closeShells_live)
qed

lemma close_end_step:
  assumes "io_ok (st_io st)" and "s_closed (sess st p)" and "s_forwards (sess st p) = []" and "s_shells (sess st p) = []"
  shows "frame_ok p st (markState p StateDisconnected None (clearClient x p st))"
    "maps_ok st p \<Longrightarrow> maps_ok (markState p StateDisconnected None (clearClient x p st)) p"
    "maps_step p ts st (markState p StateDisconnected None (clearClient x p st))"
    "spent (sess (markState p StateDisconnected None (clearClient x p st)) p)"
    "owned st p \<inter> live (st_io (markState p StateDisconnected None (clearClient x p st))) = {}"
    "live (st_io (markState p StateDisconnected None (clearClient x p st))) \<subseteq> live (st_io st)"
  using assms
  by (auto simp: frame_ok_def heap_grows_def maps_ok_def maps_step_def spent_def clearClient_def markState_def Let_def io_ok_def
      fwdOwned_def shellOwned_def owned_def transport_def)

lemma run_close:
  assumes "task_step x s t st ts' st' ss' os'" and "conc_inv (st, xs @ t # ys, ss, os)" and "closers t \<noteq> []"
  shows "conc_inv (st', xs @ ts' @ ys, ss' @ ss, os' @ os)"
  using assms
proof (induction rule: task_step.induct)
  case (close_again st p)
  then have "\<not> s_closed (sess st p)" using conc_invD(4) [OF close_again(2)] by (simp add: task_ok_def)
  then show ?case using close_again by simp
next
  case (close_begin st p)
  note io = conc_invD(1) [OF close_begin(2)]
  show ?case unfolding append_Nil
    by (rule inv_stage [OF close_begin(2), where p = p]) (use close_begin_step [OF io] in auto)
next
  case (close_forwards p st)
  have "s_closed (sess st p)" using conc_invD(4) [OF close_forwards(1)] by (simp add: task_ok_def)
  note step = close_forwards_step [OF conc_invD(1) [OF close_forwards(1)] this]
  show ?case unfolding append_Nil
    by (rule inv_stage [OF close_forwards(1), where p = p]) (use step in auto)
next
  case (close_shells p st)
  have "s_closed (sess st p) \<and> s_forwards (sess st p) = []" using conc_invD(4) [OF close_shells(1)] by (simp add: task_ok_def)
  note step = close_shells_step [OF conc_invD(1) [OF close_shells(1)] conjunct1 [OF this] conjunct2 [OF this]]
  show ?case unfolding append_Nil
    by (rule inv_stage [OF close_shells(1), where p = p]) (use step in auto)
next
  case (close_end p st)
  have st: "s_closed (sess st p)" "s_forwards (sess st p) = []" "s_shells (sess st p) = []"
    using conc_invD(4) [OF close_end(1)] by (simp_all add: task_ok_def)
  note step = close_end_step [OF conc_invD(1) [OF close_end(1)] st]
  show ?case unfolding append_Nil [of ss] append_Nil [of os]
    by (rule inv_stage [OF close_end(1), where p = p]) (use step st(2) in auto)
qed simp_all

subsection \<open>Handlers\<close>

lemma inv_forward_closed:
  assumes inv: "conc_inv (st, xs @ FwdClosing f # ys, ss, os)"
  shows "conc_inv (snd (fwdClose x f st), xs @ [] @ ys, ss, os)"
proof -
  let ?st = "snd (fwdClose x f st)"
  have o: "fwdOwned st g \<inter> live (st_io ?st) \<subseteq> fwdOwned ?st g" for g by (auto simp: fwdOwned_def)
  have h: "shellOwned ?st = shellOwned st" by (simp add: shellOwned_def fun_eq_iff)
  have fr: "frame_ok 0 st ?st"
    unfolding frame_ok_def heap_grows_def h using o conc_invD(1) [OF inv] by (auto simp: io_ok_def)
  have own: "owned st 0 \<inter> live (st_io ?st) \<subseteq> owned ?st 0" unfolding owned_def h using o by fastforce
  have A: "active st (xs @ [] @ ys) ss = active st (xs @ FwdClosing f # ys) ss" by (simp add: active_def)
  have maps: "maps_ok ?st 0" if "0 \<in> active st (xs @ FwdClosing f # ys) ss"
    using conc_invD(3) [OF inv] that by (auto intro: maps_ok_mono [of st])
  show ?thesis
    by (rule inv_piece [where p = 0 and old = "[FwdClosing f]" and os' = "[]", simplified append_Cons append_Nil, OF inv fr, simplified append_Nil])
      (use own A maps in \<open>auto simp: maps_step_def located_def\<close>)
qed

lemma inv_shell_closed:
  assumes inv: "conc_inv (st, xs @ ShellClosing h # ys, ss, os)"
  shows "conc_inv (snd (shellClose x h st), xs @ [] @ ys, ss, os)"
proof -
  let ?st = "snd (shellClose x h st)"
  have o: "shellOwned st g \<inter> live (st_io ?st) \<subseteq> shellOwned ?st g" for g by (auto simp: shellOwned_def)
  have f: "fwdOwned ?st = fwdOwned st" by (simp add: fwdOwned_def fun_eq_iff)
  have fr: "frame_ok 0 st ?st"
    unfolding frame_ok_def heap_grows_def f using o conc_invD(1) [OF inv] by (auto simp: io_ok_def)
  have own: "owned st 0 \<inter> live (st_io ?st) \<subseteq> owned ?st 0" unfolding owned_def f using o by fastforce
  have A: "active st (xs @ [] @ ys) ss = active st (xs @ ShellClosing h # ys) ss" by (simp add: active_def)
  have maps: "maps_ok ?st 0" if "0 \<in> active st (xs @ ShellClosing h # ys) ss"
    using conc_invD(3) [OF inv] that by (auto intro: maps_ok_mono [of st])
  show ?thesis
    by (rule inv_piece [where p = 0 and old = "[ShellClosing h]" and os' = "[]", simplified append_Cons append_Nil, OF inv fr, simplified append_Nil])
      (use own A maps in \<open>auto simp: maps_step_def located_def\<close>)
qed

text \<open>A piece of a handler that changes the maps of its session.\<close>

lemma inv_maps:
  assumes inv: "conc_inv (st, xs @ t # ys, ss, os)" and t: "mentions t = [p]" "closers t = []" "rebinds t = []"
    and fr: "frame_ok p st st'" and c: "s_closed (sess st' p) = s_closed (sess st p)"
    and u: "\<And>u. u \<in> set ts' \<Longrightarrow> closers u = [] \<and> mentions u = [] \<and> rebinds u = [] \<and> stage_ok st' u"
    and m: "maps_ok st p \<Longrightarrow> maps_ok st' p" "maps_step p ts' st st'" "spent (sess st p) \<Longrightarrow> spent (sess st' p)"
    and own: "\<And>h. h \<in> live (st_io st') \<Longrightarrow> h \<in> live (st_io st) \<longrightarrow> h \<in> inHands st t \<or> \<not> spent (sess st p) \<and> maps_ok st p \<and> h \<in> owned st p \<Longrightarrow>
      \<not> spent (sess st p) \<and> h \<in> owned st' p \<or> (\<exists>u \<in> set ts'. h \<in> inHands st' u)"
    and sp: "spent (sess st p) \<Longrightarrow> maps_ok st p \<Longrightarrow> owned st p \<inter> live (st_io st') \<subseteq> owned st' p"
  shows "conc_inv (st', xs @ ts' @ ys, ss, os)"
proof -
  let ?A = "active st (xs @ t # ys) ss" and ?A' = "active st (xs @ ts' @ ys) ss"
  have "\<forall>us. set us \<subseteq> set ts' \<longrightarrow> closing us = []"
  proof
    show "set us \<subseteq> set ts' \<longrightarrow> closing us = []" for us using u by (induction us) auto
  qed
  then have cl: "closing ts' = []" by blast
  have A: "?A' = ?A" using t(2) cl by (simp add: active_def)
  note ok = conc_invD [OF inv]
  have p: "p \<in> ?A \<or> spent (sess st p)" using ok(4) t(1) by (auto simp: task_ok_def)
  have fc: "t \<noteq> FwdClosing f" for f using t(1) by auto
  have loc: "h \<in> located st' (xs @ ts' @ ys) ?A' []"
    if h: "h \<in> live (st_io st')" and w: "h \<in> live (st_io st) \<longrightarrow> (\<exists>t \<in> set [t]. h \<in> inHands st t) \<or> p \<in> ?A \<and> h \<in> owned st p" for h
  proof (cases "h \<in> live (st_io st) \<and> h \<notin> inHands st t \<and> spent (sess st p)")
    case True
    then have "p \<in> ?A" "h \<in> owned st' p" using w sp h ok(3) by auto
    then show ?thesis using A by (auto simp: located_def)
  next
    case False
    then have "h \<in> live (st_io st) \<longrightarrow> h \<in> inHands st t \<or> \<not> spent (sess st p) \<and> maps_ok st p \<and> h \<in> owned st p"
      using w ok(3) by auto
    from own [OF h this] show ?thesis using p A by (auto simp: located_def)
  qed
  have task: "task_ok st' B u" if "u \<in> set ts'" for B u using u [OF that] by (simp add: task_ok_def)
  show ?thesis
    by (rule inv_piece [where p = p and old = "[t]" and os' = "[]", simplified append_Cons append_Nil, OF inv fr _ _ _ _ _ _ _ _ loc, simplified append_Nil])
      (use t c u cl m A ok(3) task fc in auto)
qed

fun handlerTask :: "task \<Rightarrow> bool" where
  "handlerTask (Holds _) = True"
| "handlerTask (Using _ _) = True"
| "handlerTask (FwdGot _ _ _ _ _ _) = True"
| "handlerTask (FwdClosing _) = True"
| "handlerTask (ShellStarting _ _ _ _) = True"
| "handlerTask (ShellGot _ _ _ _) = True"
| "handlerTask (ShellClosing _) = True"
| "handlerTask _ = False"

lemma installForwardE:
  assumes "installForward x p k fid spec ln dflt st = (r, st')"
  obtains F where "f_listener F = Some ln" "\<not> f_closed F" "st' = st_close x [ln] (snd (newForward F st))"
  | F where "f_listener F = Some ln" "\<not> f_closed F" "\<not> s_closed (sess st p)" "gm_get (s_forwards (sess st p)) fid = None"
      "st' = updS p (\<lambda>S. S\<lparr>s_forwards := gm_put fid (nxt st) (s_forwards S)\<rparr>) (snd (newForward F st))"
proof -
  let ?F = "\<lparr>f_ID = fid, f_SessionID = k, f_spec = spec, f_session = p, f_listener = Some ln, f_bindPort = boundPort x ln dflt st,
    f_closed = False, f_conns = 0\<rparr>"
  show ?thesis using assms that(1) [of ?F] that(2) [of ?F]
    by (auto simp: installForward_def newForward_def registerForward_def Let_def split: if_splits)
qed

lemma new_frame:
  assumes "io_ok (st_io st)"
  shows "frame_ok p st (st_close x hs (snd (newForward F st)))" "frame_ok p st (st_close x hs (snd (newShell H st)))"
  using io_ok_close_all [OF assms]
  by (auto simp: st_close_def newForward_def newShell_def frame_ok_def heap_grows_def fwdOwned_def shellOwned_def)

lemma new_same [simp]:
  "sess (snd (newForward F st)) = sess st" "live (st_io (snd (newForward F st))) = live (st_io st)" "nxt (snd (newForward F st)) = Suc (nxt st)"
  "sess (snd (newShell H st)) = sess st" "live (st_io (snd (newShell H st))) = live (st_io st)" "nxt (snd (newShell H st)) = Suc (nxt st)"
  by (simp_all add: newForward_def newShell_def)

lemma owned_keep:
  assumes "frame_ok p st st'" and "maps_ok st q" and "sess st' q = sess st q"
  shows "owned st q \<inter> live (st_io st') \<subseteq> owned st' q"
  using assms owned_grows [of st st' q] by (simp add: frame_ok_def)

lemma frame_upd:
  assumes "frame_ok p st st'" and "\<And>S. s_ID (g S) = s_ID S \<and> s_closed (g S) = s_closed S"
  shows "frame_ok p st (updS p g st')"
proof -
  have "fwdOwned (updS p g st') = fwdOwned st'" "shellOwned (updS p g st') = shellOwned st'"
    by (simp_all add: fwdOwned_def shellOwned_def fun_eq_iff)
  then show ?thesis using assms by (simp add: frame_ok_def heap_grows_def)
qed

text \<open>A handler that fails leaves only an unregistered object behind.\<close>

lemma inv_discarded:
  assumes inv: "conc_inv (st, xs @ t # ys, ss, os)" and t: "mentions t = [p]" "closers t = []" "rebinds t = []"
    and fr: "frame_ok p st st'" "sess st' p = sess st p" and gone: "live (st_io st') \<subseteq> live (st_io st) - inHands st t"
  shows "conc_inv (st', xs @ [] @ ys, ss, os)"
proof (rule inv_maps [OF inv t fr(1)])
  have n: "nxt st \<le> nxt st'" using fr(1) by (simp add: frame_ok_def)
  then show "maps_ok st p \<Longrightarrow> maps_ok st' p" using fr(2) maps_ok_mono by blast
  show "maps_step p [] st st'" using fr(2) by (simp add: maps_step_def)
  show "\<not> spent (sess st p) \<and> h \<in> owned st' p \<or> (\<exists>u \<in> set []. h \<in> inHands st' u)"
    if "h \<in> live (st_io st')" "h \<in> live (st_io st) \<longrightarrow> h \<in> inHands st t \<or> \<not> spent (sess st p) \<and> maps_ok st p \<and> h \<in> owned st p" for h
    using that gone owned_keep [OF fr(1) _ fr(2)] by auto
qed (use fr owned_keep [OF fr(1) _ fr(2)] in auto)

lemma inv_installed:
  assumes inv: "conc_inv (st, xs @ FwdGot p k fid spec ln dflt # ys, ss, os)" and i: "installForward x p k fid spec ln dflt st = (r, st')"
  shows "conc_inv (st', xs @ [] @ ys, ss, os)"
  using i
proof (cases rule: installForwardE)
  case (1 F)
  show ?thesis unfolding 1
    by (rule inv_discarded [OF inv, where p = p]) (use new_frame(1) [OF conc_inv_io [OF inv]] in \<open>auto simp: newForward_def\<close>)
next
  case (2 F)
  let ?st = "snd (newForward F st)"
  have fr: "frame_ok p st ?st" using new_frame(1) [OF conc_inv_io [OF inv], of p x "[]"] by (simp add: st_close_def)
  have own: "owned st' p = owned ?st p \<union> {ln}"
    using 2 by (auto simp: owned_def transport_def gm_vals_put_new fwdOwned_def shellOwned_def newForward_def)
  have fr': "frame_ok p st st'" unfolding 2 by (rule frame_upd [OF fr]) simp
  have "owned st p \<inter> live (st_io st) \<subseteq> owned st' p" if "maps_ok st p" using owned_keep [OF fr that] own by auto
  then show ?thesis
    by (intro inv_maps [OF inv, where p = p] fr')
      (use 2 own in \<open>auto simp: maps_ok_def maps_step_def gm_vals_put_new spent_def less_SucI gm_wf_put\<close>)
qed

lemma installShellE:
  assumes "installShell x p k n ch st = (r, st')"
  obtains H where "sh_chan H = ch" "\<not> b_closed H" "st' = snd (shellClose x (nxt st) (snd (newShell H st)))"
  | H where "sh_chan H = ch" "\<not> b_closed H" "\<not> s_closed (sess st p)" "gm_get (s_shells (sess st p)) k = None"
      "st' = updS p (\<lambda>S. S\<lparr>s_shells := gm_put k (nxt st) (s_shells S)\<rparr>) (snd (newShell H st))"
proof -
  let ?H = "\<lparr>b_data = [], b_max = n, b_wake = False, b_closed = False, b_done = False, sh_ID = k, sh_SessionID = s_ID (sess st p),
    sh_parent = p, sh_chan = ch, sh_OpenedAt = x_now x (orc (st_io st))\<rparr>"
  show ?thesis using assms that(1) [of ?H] that(2) [of ?H]
    by (auto simp: installShell_def newShell_def registerShell_def Let_def split: if_splits)
qed

lemma inv_shell_installed:
  assumes inv: "conc_inv (st, xs @ ShellGot p k n ch # ys, ss, os)" and i: "installShell x p k n ch st = (r, st')"
  shows "conc_inv (st', xs @ [] @ ys, ss, os)"
  using i
proof (cases rule: installShellE)
  case (1 H)
  have "frame_ok p st st'"
    using conc_inv_io [OF inv] unfolding 1 by (auto simp: newShell_def frame_ok_def heap_grows_def fwdOwned_def shellOwned_def io_ok_def)
  then show ?thesis
    by (rule inv_discarded [OF inv, where p = p, rotated 3]) (use 1 in \<open>auto simp: newShell_def shellOwned_def\<close>)
next
  case (2 H)
  let ?st = "snd (newShell H st)"
  have fr: "frame_ok p st ?st" using new_frame(2) [OF conc_inv_io [OF inv], of p x "[]"] by (simp add: st_close_def)
  have own: "owned st' p = owned ?st p \<union> {ch}"
    using 2 by (auto simp: owned_def transport_def gm_vals_put_new fwdOwned_def shellOwned_def newShell_def)
  have fr': "frame_ok p st st'" unfolding 2 by (rule frame_upd [OF fr]) simp
  have "owned st p \<inter> live (st_io st) \<subseteq> owned st' p" if "maps_ok st p" using owned_keep [OF fr that] own by auto
  then show ?thesis
    by (intro inv_maps [OF inv, where p = p] fr')
      (use 2 own in \<open>auto simp: maps_ok_def maps_step_def gm_vals_put_new spent_def less_SucI gm_wf_put\<close>)
qed

lemma inv_forward_out:
  assumes inv: "conc_inv (st, xs @ Holds p # ys, ss, os)" and f: "gm_get (s_forwards (sess st p)) k = Some f"
  shows "conc_inv (updS p (\<lambda>S. S\<lparr>s_forwards := gm_del k (s_forwards S)\<rparr>) st, xs @ [FwdClosing f] @ ys, ss, os)"
proof -
  let ?st = "updS p (\<lambda>S. S\<lparr>s_forwards := gm_del k (s_forwards S)\<rparr>) st"
  have n: "s_forwards (sess st p) \<noteq> []" using f by auto
  have "p \<in> active st (xs @ Holds p # ys) ss"
    using conc_invD(4) [OF inv] n by (auto simp: task_ok_def spent_def)
  then have m: "maps_ok st p" using conc_invD(3) [OF inv] by blast
  have v: "set (gm_vals (s_forwards (sess st p))) = insert f (set (gm_vals (gm_del k (s_forwards (sess st p)))))"
    using m f gm_vals_split [of "s_forwards (sess st p)" k] by (auto simp: maps_ok_def)
  have own: "owned st p = owned ?st p \<union> fwdOwned st f"
    unfolding owned_def by (simp add: v transport_def fwdOwned_def shellOwned_def Un_ac)
  have fr: "frame_ok p st ?st" using conc_inv_io [OF inv] by (auto simp: frame_ok_def heap_grows_def fwdOwned_def shellOwned_def)
  have ho: "fwdOwned ?st f = fwdOwned st f" by (simp add: fwdOwned_def)
  show ?thesis
    by (rule inv_maps [OF inv _ _ _ fr])
      (use m n own ho v in \<open>auto simp: maps_ok_def maps_step_def spent_def\<close>)
qed

lemma inv_shell_out:
  assumes inv: "conc_inv (st, xs @ Holds p # ys, ss, os)" and h: "removeShell p k st = Inr (h, st')"
  shows "conc_inv (st', xs @ [ShellClosing h] @ ys, ss, os)"
proof -
  have g: "gm_get (s_shells (sess st p)) k = Some h" and st': "st' = updS p (\<lambda>S. S\<lparr>s_shells := gm_del k (s_shells S)\<rparr>) st"
    using h by (auto simp: removeShell_def GetShell_def split: option.splits sum.splits)
  have n: "s_shells (sess st p) \<noteq> []" using g by auto
  then have "p \<in> active st (xs @ Holds p # ys) ss" using conc_invD(4) [OF inv] by (auto simp: task_ok_def spent_def)
  then have m: "maps_ok st p" using conc_invD(3) [OF inv] by blast
  have v: "set (gm_vals (s_shells (sess st p))) = insert h (set (gm_vals (gm_del k (s_shells (sess st p)))))"
    using m g gm_vals_split [of "s_shells (sess st p)" k] by (auto simp: maps_ok_def)
  have own: "owned st p = owned st' p \<union> shellOwned st h"
    unfolding owned_def st' by (simp add: v transport_def fwdOwned_def shellOwned_def Un_ac)
  have fr: "frame_ok p st st'" unfolding st'
    by (rule frame_upd) (use conc_inv_io [OF inv] in \<open>auto simp: frame_ok_def heap_grows_def\<close>)
  have ho: "shellOwned st' h = shellOwned st h" by (simp add: shellOwned_def st')
  show ?thesis
    by (rule inv_maps [OF inv _ _ _ fr])
      (use m n own ho v st' in \<open>auto simp: maps_ok_def maps_step_def spent_def\<close>)
qed

lemma sftpClientE:
  assumes "sftpClient s p st = (r, st')"
  obtains (same) "st' = st" | (failed) e where "r = Inl e" "opens [] st st'"
  | (opened) c st1 where "s_sftp (sess st p) = None" "s_client (sess st p) \<noteq> None" "opens [c] st st1" "st' = updS p (\<lambda>S. S\<lparr>s_sftp := Some c\<rparr>) st1"
  using assms
  by (auto simp: sftpClient_def getClient_def split: option.splits sum.splits prod.splits dest: opens_err opens_open)

lemma run_handler:
  assumes "task_step x s t st ts' st' ss' os'" and "conc_inv (st, xs @ t # ys, ss, os)" and "handlerTask t"
  shows "conc_inv (st', xs @ ts' @ ys, ss' @ ss, os' @ os)"
  using assms
proof (induction rule: task_step.induct)
  case drop
  show ?case using run_same [OF drop(1), of "[]"] by simp
next
  case client
  show ?case unfolding append_Nil by (rule run_same [OF client(2)]) simp_all
next
  case listen
  show ?case unfolding append_Nil by (rule run_world [OF listen(3) opens_open [OF listen(1)]]) simp_all
next
  case listen_err
  show ?case using run_world [OF listen_err(2) opens_err [OF listen_err(1)], of "[]"] by simp
next
  case listen_remote
  show ?case unfolding append_Nil by (rule run_world [OF listen_remote(2) opens_open [OF listen_remote(1)]]) simp_all
next
  case listen_remote_err
  show ?case using run_world [OF listen_remote_err(2) opens_err [OF listen_remote_err(1)], of "[]"] by simp
next
  case install
  show ?case using inv_installed [OF install(2,1)] by simp
next
  case forward_out
  show ?case using inv_forward_out [OF forward_out(2,1)] by simp
next
  case forward_close
  show ?case using inv_forward_closed [OF forward_close(1)] by simp
next
  case channel
  show ?case unfolding append_Nil by (rule run_world [OF channel(2) opens_open [OF channel(1)]]) simp_all
next
  case channel_err
  show ?case using run_world [OF channel_err(2) opens_err [OF channel_err(1)], of "[]"] by simp
next
  case (shell_fail ch opts p st e st' hid)
  have "conc_inv (st_close x [ch] st', xs @ [] @ ys, ss, os)"
    by (rule run_world [OF shell_fail(2) opens_none [OF opens_requests [OF shell_fail(1)] opens_close]]) auto
  then show ?case by simp
next
  case shell_ok
  show ?case unfolding append_Nil by (rule run_world [OF shell_ok(2) opens_requests [OF shell_ok(1)]]) simp_all
next
  case shell_install
  show ?case using inv_shell_installed [OF shell_install(2,1)] by simp
next
  case shell_out
  show ?case using inv_shell_out [OF shell_out(2,1)] by simp
next
  case shell_close
  show ?case using inv_shell_closed [OF shell_close(1)] by simp
next
  case (sftp p st r st')
  have "conc_inv (st', xs @ [Holds p] @ ys, ss, os)" using sftp(1)
  proof (cases rule: sftpClientE)
    case same
    then show ?thesis using sftp(2) by simp
  next
    case (failed e)
    show ?thesis by (rule run_world [OF sftp(2) failed(2)]) simp_all
  next
    case (opened c st1)
    show ?thesis unfolding opened(4)
      by (rule inv_field [OF sftp(2) opened(3) refl]) (use opened(1,2) in \<open>auto simp: race_simps getClient_def\<close>)
  qed
  then show ?case by simp
next
  case (sftp_drop p st)
  have "dropSFTP x p st = updS p (\<lambda>S. S\<lparr>s_sftp := None\<rparr>) (st_close x (opt_list (s_sftp (sess st p))) st)"
    by (simp add: dropSFTP_def updS_def st_close_def)
  moreover have "conc_inv (updS p (\<lambda>S. S\<lparr>s_sftp := None\<rparr>) (st_close x (opt_list (s_sftp (sess st p))) st), xs @ [Holds p] @ ys, ss, os)"
    by (rule inv_field [OF sftp_drop(1) opens_close refl]) (auto simp: race_simps)
  ultimately show ?case by simp
qed simp_all

section \<open>Every step keeps it\<close>

lemma task_group: "connectTask t \<or> agentTask t \<or> keepTask t \<or> redialTask t \<or> rebindTask t \<or> closers t \<noteq> [] \<or> handlerTask t"
  by (cases t) simp_all

lemma run_task:
  assumes "task_step x s t st ts' st' ss' os'" and "conc_inv (st, xs @ t # ys, ss, os)"
  shows "conc_inv (st', xs @ ts' @ ys, ss' @ ss, os' @ os)"
  using task_group [of t] run_connect [OF assms] run_agent [OF assms] run_keep [OF assms] run_redial [OF assms] run_rebind [OF assms]
    run_close [OF assms] run_handler [OF assms] by blast

lemma inv_started_task:
  assumes inv: "conc_inv (st, ts, ss, os)" and p: "p \<in> active st ts ss"
  shows "conc_inv (st, Holds p # ts, ss, os)"
proof -
  have A: "active st (Holds p # ts) ss = active st ts ss" by (simp add: active_def)
  have "p < nxt st" using conc_invD(3) [OF inv] p by (auto simp: maps_ok_def)
  then have t: "task_ok st (active st ts ss) (Holds p)" using p by (simp add: task_ok_def)
  have "table_ok st (Holds p # ts)" using conc_invD(2) [OF inv] by (simp add: table_ok_def)
  moreover have "live (st_io st) \<subseteq> located st (Holds p # ts) (active st ts ss) os" using conc_invD(6) [OF inv] by (auto simp: located_def)
  moreover have "rebind_ok st (Holds p # ts) B f = rebind_ok st ts B f" for B f by (simp add: rebind_ok_def)
  ultimately show ?thesis unfolding conc_inv.simps A using conc_invD [OF inv] t by simp
qed

lemma table_once:
  assumes "table_ok st ts" and "gm_get (tbl st) k = Some p"
  shows "p \<notin> set (gm_vals (gm_del k (tbl st)))"
proof
  assume "p \<in> set (gm_vals (gm_del k (tbl st)))"
  then obtain j where "gm_get (gm_del k (tbl st)) j = Some p" using assms(1) by (auto simp: table_ok_def gm_vals_iff)
  then have "j \<noteq> k" "gm_get (tbl st) j = Some p" by (auto split: if_splits)
  then show False using assms unfolding table_ok_def by metis
qed

lemma inv_disconnected:
  assumes inv: "conc_inv (st, ts, ss, os)" and k: "gm_get (tbl st) k = Some p"
  shows "conc_inv (st\<lparr>tbl := gm_del k (tbl st)\<rparr>, Closing p # ts, ss, os)"
proof (rule inv_retable [OF inv])
  have t: "table_ok st ts" by (rule conc_invD(2) [OF inv])
  then have v: "set (gm_vals (tbl st)) = insert p (set (gm_vals (gm_del k (tbl st))))"
    using gm_vals_split [of "tbl st" k] k by (auto simp: table_ok_def)
  show "active (st\<lparr>tbl := gm_del k (tbl st)\<rparr>) (Closing p # ts) ss = active st ts ss"
    using v by (auto simp: active_def)
  have "p \<notin> set (gm_vals (gm_del k (tbl st)))" by (rule table_once [OF t k])
  then show "table_ok (st\<lparr>tbl := gm_del k (tbl st)\<rparr>) (Closing p # ts)"
    using t v by (auto simp: table_ok_def)
  have "\<not> s_closed (sess st p)" using t k by (auto simp: table_ok_def)
  then show "\<forall>u \<in> set (Closing p # ts). u \<in> set ts \<or> task_ok st (active st ts ss) u \<and> rebinds u = []"
    by (simp add: task_ok_def)
qed auto

lemma closing_map [simp]: "closing (map Closing ps) = ps"
  by (induction ps) simp_all

lemma table_distinct:
  assumes "gm_wf m" and "\<forall>k p. gm_get m k = Some p \<longrightarrow> F p = k"
  shows "distinct (gm_vals m)"
proof -
  have "F (snd e) = fst e" if "e \<in> set m" for e
    using assms that by (cases e) (auto simp: gm_wf_def gm_get_def)
  then have "map F (gm_vals m) = map fst m" by (simp add: gm_vals_def)
  then show ?thesis using assms(1) unfolding gm_wf_def by (metis distinct_map)
qed

lemma inv_all_closing:
  assumes inv: "conc_inv (st, ts, ss, os)"
  shows "conc_inv (st\<lparr>tbl := []\<rparr>, map Closing (gm_vals (tbl st)) @ ts, ss, os)"
proof (rule inv_retable [OF inv])
  have t: "table_ok st ts" by (rule conc_invD(2) [OF inv])
  show "active (st\<lparr>tbl := []\<rparr>) (map Closing (gm_vals (tbl st)) @ ts) ss = active st ts ss"
    by (auto simp: active_def)
  show "table_ok (st\<lparr>tbl := []\<rparr>) (map Closing (gm_vals (tbl st)) @ ts)"
    using t table_distinct [of "tbl st" "\<lambda>p. s_ID (sess st p)"] by (auto simp: table_ok_def)
  have "\<not> s_closed (sess st p)" if "p \<in> set (gm_vals (tbl st))" for p
    using t that by (auto simp: table_ok_def gm_vals_iff)
  then show "\<forall>u \<in> set (map Closing (gm_vals (tbl st)) @ ts). u \<in> set ts \<or> task_ok st (active st ts ss) u \<and> rebinds u = []"
    by (auto simp: task_ok_def)
qed auto

lemma inv_exited:
  assumes inv: "conc_inv (st, ts, ss, os)"
  shows "conc_inv (shellExited h st, ts, ss, os)"
proof -
  let ?st = "shellExited h st" and ?p = "sh_parent (shl st h)" and ?k = "sh_ID (shl st h)"
  have st: "tbl ?st = tbl st" "nxt ?st = nxt st" "fwd ?st = fwd st" "live (st_io ?st) = live (st_io st) - shellOwned st h"
      "shl ?st = (shl st)(h := (shl st h)\<lparr>b_closed := True, b_done := True\<rparr>)" "\<forall>q. q \<noteq> ?p \<longrightarrow> sess ?st q = sess st q"
      "sess ?st ?p = (if gm_get (s_shells (sess st ?p)) ?k = Some h then (sess st ?p)\<lparr>s_shells := gm_del ?k (s_shells (sess st ?p))\<rparr> else sess st ?p)"
      "next_h (st_io ?st) = next_h (st_io st)"
    by (simp_all add: shellExited_def Let_def)
  have f: "fwdOwned ?st = fwdOwned st" using st(3) by (simp add: fwdOwned_def fun_eq_iff)
  have s: "shellOwned st g \<inter> live (st_io ?st) \<subseteq> shellOwned ?st g" for g using st(4,5) by (auto simp: shellOwned_def)
  have fr: "frame_ok ?p st ?st" unfolding frame_ok_def heap_grows_def f using st s conc_invD(1) [OF inv] by (auto simp: io_ok_def)
  have same: "transport (sess ?st ?p) = transport (sess st ?p)" "s_forwards (sess ?st ?p) = s_forwards (sess st ?p)"
      "s_closed (sess ?st ?p) = s_closed (sess st ?p)" "s_client (sess ?st ?p) = s_client (sess st ?p)"
    using st(7) by (simp_all add: transport_def)
  have own: "owned st ?p \<inter> live (st_io ?st) \<subseteq> owned ?st ?p" if m: "maps_ok st ?p"
  proof -
    have "g \<in> set (gm_vals (s_shells (sess ?st ?p)))" if g: "g \<in> set (gm_vals (s_shells (sess st ?p)))" "g \<noteq> h" for g
      using g st(7) gm_vals_split [of "s_shells (sess st ?p)" ?k] m by (auto simp: maps_ok_def split: if_splits)
    moreover have "shellOwned st h \<inter> live (st_io ?st) = {}" using st(4) by auto
    ultimately show ?thesis using s unfolding owned_def f same by fastforce
  qed
  have A: "active ?st ts ss = active st ts ss" using st(1) by (simp add: active_def)
  have maps: "maps_ok ?st ?p" if "maps_ok st ?p"
    using that st gm_vals_split [of "s_shells (sess st ?p)" ?k] by (auto simp: maps_ok_def)
  have loc: "g \<in> located ?st ts (active st ts ss) []"
    if g: "g \<in> live (st_io ?st)" "g \<in> live (st_io st) \<longrightarrow> (\<exists>t \<in> set []. g \<in> inHands st t) \<or> ?p \<in> active st ts ss \<and> g \<in> owned st ?p" for g
  proof -
    have "?p \<in> active st ts ss" "g \<in> owned st ?p" using g st(4) by auto
    then show ?thesis using own g(1) conc_invD(3) [OF inv] by (auto simp: located_def)
  qed
  show ?thesis
    by (rule inv_piece [where p = ?p and old = "[]" and ts' = "[]" and xs = "[]" and os' = "[]", simplified append_Nil, OF inv fr _ _ _ _ _ _ _ _ loc])
      (use maps same st(7) conc_invD(3) [OF inv] in \<open>auto simp: maps_step_def spent_def\<close>)
qed

text \<open>A connect: the spec is resolved, and the id reserved for a new session.\<close>

lemma inv_resolved:
  assumes inv: "conc_inv (st, ts, ss, os)" and r: "resolveRef x n spec0 st = Some (spec1, st1)"
  shows "conc_inv (st1, ts, ss, os)" "tbl st1 = tbl st"
proof -
  have st: "tbl st1 = tbl st" "nxt st \<le> nxt st1" "sess st1 = sess st" "fwd st1 = fwd st" "shl st1 = shl st" "st_io st1 = st_io st"
    using r by (auto simp: resolveRef_def Let_def split: option.splits if_splits)
  then show "tbl st1 = tbl st" by simp
  have h: "fwdOwned st1 = fwdOwned st" "shellOwned st1 = shellOwned st" "owned st1 q = owned st q" for q
    using st by (simp_all add: fwdOwned_def shellOwned_def owned_def fun_eq_iff)
  have fr: "frame_ok 0 st st1" unfolding frame_ok_def heap_grows_def h using st conc_invD(1) [OF inv] by simp
  have maps: "maps_ok st1 0" if "0 \<in> active st ts ss"
    using conc_invD(3) [OF inv] that st maps_ok_mono by metis
  show "conc_inv (st1, ts, ss, os)"
    by (rule inv_piece [where p = 0 and old = "[]" and ts' = "[]" and xs = "[]" and os' = "[]", simplified append_Nil, OF inv fr])
      (use st h maps in \<open>auto simp: maps_step_def located_def\<close>)
qed

lemma inv_reserved:
  assumes inv: "conc_inv (st, ts, ss, os)" and r: "connectReserve k spec st = (Inr p, st')"
  shows "conc_inv (st', Connecting k p spec # ts, ss, os)"
proof -
  let ?A = "active st ts ss"
  have new: "gm_get (tbl st) k = None" "p = nxt st"
      "st' = st\<lparr>sess := (sess st)(nxt st := newSession k spec), tbl := gm_put k (nxt st) (tbl st), nxt := Suc (nxt st)\<rparr>"
    using r by (auto simp: connectReserve_def split: if_splits)
  note ok = conc_invD [OF inv]
  have low: "q < p" if "q \<in> ?A" for q using ok(3) that new(2) by (auto simp: maps_ok_def)
  have heaps: "fwdOwned st' = fwdOwned st" "shellOwned st' = shellOwned st" by (simp_all add: new fwdOwned_def shellOwned_def fun_eq_iff)
  have same: "sess st' q = sess st q" if "q < p" for q using that new by simp
  have v: "gm_vals (tbl st') = gm_vals (tbl st) @ [p]" using new gm_vals_put_new [OF new(1)] by simp
  have A: "active st' (Connecting k p spec # ts) ss = insert p ?A" using v by (auto simp: active_def)
  have "table_ok st' (Connecting k p spec # ts)"
  proof -
    have "q \<noteq> p" if "gm_get (tbl st) j = Some q" for j q
      using low [of q] that ok(2) by (auto simp: active_def table_ok_def gm_vals_iff)
    moreover have "p \<notin> set (closing ts)" using low [of p] by (auto simp: active_def)
    ultimately show ?thesis using ok(2) v new by (auto simp: table_ok_def newSession_def split: if_splits)
  qed
  moreover have "maps_ok st' q" if "q \<in> insert p ?A" for q
  proof (cases "q = p")
    case True
    then show ?thesis using new by (simp add: maps_ok_def newSession_def)
  next
    case False
    then have q: "q \<in> ?A" using that by simp
    show ?thesis using maps_ok_mono [of st q st'] ok(3) q same [OF low [OF q]] new by simp
  qed
  moreover have "task_ok st' (insert p ?A) u" if "u \<in> set (Connecting k p spec # ts)" for u
  proof (cases "u \<in> set ts")
    case True
    then have u: "task_ok st ?A u" using ok(4) by blast
    have "set (closers u) \<subseteq> ?A" using closing_mem [OF True] by (auto simp: active_def)
    then have c: "\<forall>q \<in> set (closers u). sess st' q = sess st q" using low same by blast
    have m: "\<forall>q \<in> set (mentions u). q < p \<and> sess st' q = sess st q" using u same new(2) by (auto simp: task_ok_def)
    have "stage_ok st' u" using u c m new(2,3) by (cases u) (auto simp: task_ok_def)
    then show ?thesis using u m new(2,3) by (auto simp: task_ok_def less_SucI)
  next
    case False
    then show ?thesis using that new by (simp add: task_ok_def)
  qed
  moreover have "rebind_ok st' (Connecting k p spec # ts) (insert p ?A) f" if f: "rebind_ok st ts ?A f" for f
  proof -
    have "fwd st' = fwd st" using new by simp
    moreover have "\<exists>q \<in> insert p ?A. f \<in> set (gm_vals (s_forwards (sess st' q)))"
      if "q \<in> ?A" "f \<in> set (gm_vals (s_forwards (sess st q)))" for q
      using that same [OF low [OF that(1)]] by (metis insertI2)
    ultimately show ?thesis using f unfolding rebind_ok_def by auto
  qed
  moreover have "live (st_io st') \<subseteq> located st' (Connecting k p spec # ts) (insert p ?A) os"
  proof -
    have "owned st' q = owned st q" if "q \<in> ?A" for q using same [OF low [OF that]] by (simp add: owned_def heaps)
    moreover have "inHands st' u = inHands st u" for u by (cases u) (simp_all add: heaps)
    moreover have "st_io st' = st_io st" using new by simp
    ultimately show ?thesis using ok(6) by (auto simp: located_def)
  qed
  ultimately show ?thesis unfolding conc_inv.simps A using ok(1,5) new by auto
qed

lemma conc_step_inv: "conc_step x s calm c c' \<Longrightarrow> conc_inv c \<Longrightarrow> conc_inv c'"
proof (induction rule: conc_step.induct)
  case run
  then show ?case by (rule run_task)
next
  case connect
  then show ?case using inv_reserved inv_resolved(1) by blast
next
  case disconnect
  then show ?case using inv_disconnected by blast
next
  case close_all
  then show ?case by (rule inv_all_closing)
next
  case (get st k p ts ss os)
  have "gm_get (tbl st) k = Some p" using get(1) by (simp add: Get_def split: option.splits)
  then have "p \<in> active st ts ss" using conc_invD(2) [OF get(2)] by (auto simp: active_def table_ok_def gm_vals_iff)
  then show ?case by (rule inv_started_task [OF get(2)])
next
  case (reconnect st p ss xs ys os)
  show ?case using inv_reconnect [OF reconnect(3), where p = p and r = None] by simp
next
  case exited
  then show ?case by (rule inv_exited)
qed

lemma conc_start_inv: "concStart c \<Longrightarrow> io_ok (st_io (fst c)) \<Longrightarrow> conc_inv c"
  by (auto simp: concStart_def conc_inv.simps table_ok_def active_def located_def)

interpretation conc_sys: step_system "\<lambda>c. concStart c \<and> io_ok (st_io (fst c))" "conc_step x s calm" conc_inv
  for x :: "'w ext" and s calm
  by unfold_locales (blast intro: conc_start_inv conc_step_inv)+

end
