(* ===== verification/SshCalm.thy ===== *)
theory SshCalm
  imports SshRaces
begin

text \<open>
  Which interleavings of the manager lose a handle, and which do not.  Nothing is lost in the calm schedules of SshRaces; of the others
  two are given that leave a connection open for ever.
\<close>

section \<open>Calm schedules\<close>

text \<open>
  What is said of one session: the goroutines that are on it, at most one of them wiring it up for its connect, at most one holding
  \<open>reconnectMu\<close>; a session whose connect is on its way, or that failed, has nothing and nobody works on it.
\<close>

fun wires :: "task \<Rightarrow> bool" where
  "wires (Connecting _ _ _) = True"
| "wires (ConnDialed _ _ _ _ _ _) = True"
| "wires (ConnFailed _ _) = True"
| "wires (AgentDialing _ _) = True"
| "wires (AgentDialed _ _ _) = True"
| "wires (AgentForwarding _ _ _ _) = True"
| "wires (ConnEnd _ _) = True"
| "wires _ = False"

fun dials :: "task \<Rightarrow> bool" where
  "dials (Redialing _ _) = True"
| "dials (Redialed _ _ _ _ _) = True"
| "dials (Rewaiting _ _) = True"
| "dials _ = False"

fun locks :: "task \<Rightarrow> bool" where
  "locks (Reconnected _ _) = True"
| "locks (Rebinding _ _ _) = True"
| "locks (RebindListening _ _ _ _ _) = True"
| "locks (RebindGot _ _ _ _ _) = True"
| "locks t = dials t"

fun works :: "task \<Rightarrow> bool" where
  "works (Holds _) = False"
| "works (ConnRefused _ _) = False"
| "works t = (unfinished t = [])"

fun agent_free :: "Session \<Rightarrow> task \<Rightarrow> bool" where
  "agent_free S (AgentDialing _ _) = (s_agentConn S = None)"
| "agent_free S (AgentDialed _ _ _) = (s_agentConn S = None)"
| "agent_free S (AgentForwarding _ _ _ conn) = (s_agentConn S \<in> {None, Some conn})"
| "agent_free S _ = True"

definition bare :: "Session \<Rightarrow> bool" where
  "bare S \<longleftrightarrow> s_client S = None \<and> s_jumps S = [] \<and> s_sftp S = None \<and> s_agentConn S = None \<and> s_forwards S = [] \<and> s_shells S = []"

definition sess_calm :: "Session \<Rightarrow> task list \<Rightarrow> bool \<Rightarrow> bool" where
  "sess_calm S us d \<longleftrightarrow>
     length (filter wires us) \<le> 1 \<and> length (filter locks us) \<le> 1 \<and>
     (d \<or> (\<exists>t \<in> set us. unfinished t \<noteq> []) \<longrightarrow> bare S \<and> (\<forall>t \<in> set us. \<not> works t)) \<and>
     (d \<longrightarrow> (\<forall>t \<in> set us. \<not> wires t)) \<and>
     (\<forall>t \<in> set us. (locks t \<longrightarrow> s_reconnecting S) \<and> (dials t \<longrightarrow> s_client S = None \<and> s_jumps S = []) \<and> agent_free S t)"

definition on :: "ptr \<Rightarrow> task list \<Rightarrow> task list" where
  "on p ts = filter (\<lambda>t. p \<in> set (mentions t)) ts"

definition own_id :: "ptr gomap \<Rightarrow> task \<Rightarrow> bool" where
  "own_id m t \<longleftrightarrow> (\<forall>k p q. (k, p) \<in> set (unfinished t) \<longrightarrow> gm_get m k = Some q \<longrightarrow> q = p)"

fun calm_inv :: "'w conc \<Rightarrow> bool" where
  "calm_inv (st, ts, ss, os) \<longleftrightarrow> os = [] \<and> (\<forall>p. sess_calm (sess st p) (on p ts) (p \<in> set ss)) \<and>
     set ss \<inter> set (gm_vals (tbl st)) = {} \<and>
     (\<forall>t \<in> set ts. own_id (tbl st) t)"

lemma on_simps [simp]:
  "on p [] = []" "on p (t # ts) = (if p \<in> set (mentions t) then t # on p ts else on p ts)" "on p (ts @ us) = on p ts @ on p us"
  by (simp_all add: on_def)

lemma on_set: "t \<in> set (on p ts) \<longleftrightarrow> t \<in> set ts \<and> p \<in> set (mentions t)"
  by (auto simp: on_def)

lemma unfinished_mentions: "(k, p) \<in> set (unfinished t) \<Longrightarrow> mentions t = [p]"
  by (cases t) auto

lemma unfinished_wires: "unfinished t \<noteq> [] \<Longrightarrow> wires t"
  by (cases t) auto

lemma wires_not_locks: "wires t \<Longrightarrow> \<not> locks t" "dials t \<Longrightarrow> locks t" "locks t \<Longrightarrow> works t" "unfinished t \<noteq> [] \<Longrightarrow> \<not> works t"
  by (cases t; simp)+

lemma agent_free_wires: "\<not> wires t \<Longrightarrow> agent_free S t"
  by (cases t) simp_all

lemma sess_calm_mid:
  "sess_calm S (as @ us @ bs) d \<longleftrightarrow>
     length (filter wires us) + length (filter wires (as @ bs)) \<le> 1 \<and> length (filter locks us) + length (filter locks (as @ bs)) \<le> 1 \<and>
     (d \<or> (\<exists>t \<in> set us \<union> set (as @ bs). unfinished t \<noteq> []) \<longrightarrow> bare S \<and> (\<forall>t \<in> set us \<union> set (as @ bs). \<not> works t)) \<and>
     (d \<longrightarrow> (\<forall>t \<in> set us \<union> set (as @ bs). \<not> wires t)) \<and>
     (\<forall>t \<in> set us \<union> set (as @ bs). (locks t \<longrightarrow> s_reconnecting S) \<and> (dials t \<longrightarrow> s_client S = None \<and> s_jumps S = []) \<and> agent_free S t)"
proof -
  have "set (as @ us @ bs) = set us \<union> set (as @ bs)" by auto
  moreover have "length (filter P (as @ us @ bs)) = length (filter P us) + length (filter P (as @ bs))" for P by simp
  ultimately show ?thesis unfolding sess_calm_def by presburger
qed

text \<open>What most pieces do to a session.\<close>

definition eases :: "Session \<Rightarrow> Session \<Rightarrow> bool" where
  "eases S S' \<longleftrightarrow> s_reconnecting S' = s_reconnecting S \<and>
     (s_client S = None \<and> s_jumps S = [] \<longrightarrow> s_client S' = None \<and> s_jumps S' = []) \<and> s_agentConn S' \<in> {None, s_agentConn S}"

lemma eases_refl [simp]: "eases S S"
  by (simp add: eases_def)

lemma agent_free_eases: "eases S S' \<Longrightarrow> agent_free S t \<Longrightarrow> agent_free S' t"
  by (cases t) (auto simp: eases_def)

lemma sess_calm_eases: "sess_calm S us d \<Longrightarrow> eases S S' \<Longrightarrow> bare S \<longrightarrow> bare S' \<Longrightarrow> sess_calm S' us d"
  using agent_free_eases by (auto simp: sess_calm_def eases_def)

text \<open>A goroutine that goes on, or ends.\<close>

lemma sess_calm_next:
  assumes c: "sess_calm S (as @ [t] @ bs) d" and e: "eases S S'" "works t \<or> (bare S \<longrightarrow> bare S')"
    and u: "us = [] \<or> us = [u] \<and> (wires u \<longrightarrow> wires t) \<and> (locks u \<longrightarrow> locks t) \<and> (dials u \<longrightarrow> dials t) \<and>
      (unfinished u \<noteq> [] \<longrightarrow> unfinished t \<noteq> []) \<and> (works u \<longrightarrow> works t \<or> \<not> bare S) \<and> (agent_free S' t \<longrightarrow> agent_free S' u)"
  shows "sess_calm S' (as @ us @ bs) d"
proof -
  note c' = c [unfolded sess_calm_mid]
  have "length (filter wires us) + length (filter wires (as @ bs)) \<le> 1" "length (filter locks us) + length (filter locks (as @ bs)) \<le> 1"
    using conjunct1 [OF c'] conjunct1 [OF conjunct2 [OF c']] u by (elim disjE conjE; simp split: if_splits; fail)+
  moreover have "bare S' \<and> (\<forall>v \<in> set us \<union> set (as @ bs). \<not> works v)" if "d \<or> (\<exists>v \<in> set us \<union> set (as @ bs). unfinished v \<noteq> [])"
  proof -
    have "d \<or> (\<exists>v \<in> set [t] \<union> set (as @ bs). unfinished v \<noteq> [])" using that u by auto
    then have "bare S" "\<forall>v \<in> set [t] \<union> set (as @ bs). \<not> works v" using c' by blast+
    then show ?thesis using u e by auto
  qed
  moreover have "\<forall>v \<in> set us \<union> set (as @ bs). \<not> wires v" if d using that c' u by auto
  moreover have "(locks v \<longrightarrow> s_reconnecting S') \<and> (dials v \<longrightarrow> s_client S' = None \<and> s_jumps S' = []) \<and> agent_free S' v"
    if "v \<in> set us \<union> set (as @ bs)" for v
  proof -
    have all: "(locks w \<longrightarrow> s_reconnecting S') \<and> (dials w \<longrightarrow> s_client S' = None \<and> s_jumps S' = []) \<and> agent_free S' w"
      if w: "w \<in> set [t] \<union> set (as @ bs)" for w
    proof -
      have "locks w \<longrightarrow> s_reconnecting S" "dials w \<longrightarrow> s_client S = None \<and> s_jumps S = []" "agent_free S w" using c' w by blast+
      then show ?thesis using e(1) agent_free_eases [OF e(1)] by (simp add: eases_def)
    qed
    show ?thesis
    proof (cases "v \<in> set (as @ bs)")
      case True
      then show ?thesis by (intro all) blast
    next
      case False
      then have "us = [u]" "v = u" using that u by auto
      moreover have "(locks t \<longrightarrow> s_reconnecting S') \<and> (dials t \<longrightarrow> s_client S' = None \<and> s_jumps S' = []) \<and> agent_free S' t" by (rule all) simp
      ultimately show ?thesis using u by simp
    qed
  qed
  ultimately show ?thesis unfolding sess_calm_mid by blast
qed

text \<open>The goroutine that wires the session up.\<close>

lemma sess_calm_wire:
  assumes c: "sess_calm S (as @ [t] @ bs) d" and t: "wires t" "wires u" "unfinished u = []" "agent_free S' u"
    and k: "works t \<and> (s_client S = None \<and> s_jumps S = [] \<longrightarrow> s_client S' = None \<and> s_jumps S' = []) \<or> unfinished t \<noteq> []"
    and r: "s_reconnecting S' = s_reconnecting S"
  shows "sess_calm S' (as @ [u] @ bs) d"
proof -
  note c' = c [unfolded sess_calm_mid]
  have "filter wires (as @ bs) = []" using c' t(1) by simp
  then have n: "\<not> wires v" "unfinished v = []" if "v \<in> set (as @ bs)" for v
    using that unfinished_wires unfolding filter_empty_conv by blast+
  have d: "\<not> d" using c' t(1) by auto
  have "dials v \<longrightarrow> s_client S' = None \<and> s_jumps S' = []" if "v \<in> set (as @ bs)" for v
  proof (cases "unfinished t \<noteq> []")
    case True
    then have "\<not> works v" using c' that by auto
    then show ?thesis using wires_not_locks by blast
  next
    case False
    then show ?thesis using k c' that by blast
  qed
  moreover have "\<not> locks u" "\<not> dials u" using t(2) wires_not_locks by blast+
  ultimately show ?thesis unfolding sess_calm_mid using c' t n d r agent_free_wires \<open>filter wires (as @ bs) = []\<close> by auto
qed

text \<open>A reconnect takes \<open>reconnectMu\<close>, installs its client, and gives the lock back.\<close>

lemma sess_calm_lock:
  assumes c: "sess_calm S (as @ [t] @ bs) d" and t: "works t \<or> \<not> d \<and> (\<forall>v \<in> set (as @ bs). unfinished v = [])" "\<not> wires u" "\<not> s_reconnecting S" "unfinished u = []"
    and S': "s_reconnecting S'" "s_client S' = None" "s_jumps S' = []" "s_agentConn S' = None"
  shows "sess_calm S' (as @ [u] @ bs) d"
proof -
  note c' = c [unfolded sess_calm_mid]
  have n: "\<not> locks v" if "v \<in> set (as @ bs)" for v using c' t(3) that by blast
  have a: "agent_free S' v" for v using S'(4) by (cases v) auto
  have "\<not> d \<and> (\<forall>v \<in> set (as @ bs). unfinished v = [])" using t(1) c' by auto
  moreover have "filter locks (as @ bs) = []" using n by (auto simp: filter_empty_conv)
  moreover have "length (filter wires (as @ bs)) \<le> 1" using c' by simp
  ultimately show ?thesis using t(2,4) S'(1-3) a unfolding sess_calm_mid by auto
qed

lemma sess_calm_installed:
  assumes c: "sess_calm S (as @ [t] @ bs) d" and t: "dials t" "locks u" "\<not> wires u" "\<not> dials u"
    and S': "s_reconnecting S' = s_reconnecting S" "s_agentConn S' = s_agentConn S"
  shows "sess_calm S' (as @ [u] @ bs) d"
proof -
  note c' = c [unfolded sess_calm_mid]
  have t': "locks t" "works t" using t(1) wires_not_locks by blast+
  then have "filter locks (as @ bs) = []" using c' by simp
  then have n: "\<not> locks v" "\<not> dials v" if "v \<in> set (as @ bs)" for v
    using that wires_not_locks(2) unfolding filter_empty_conv by blast+
  have a: "agent_free S' v = agent_free S v" for v using S'(2) by (cases v) auto
  have "\<not> d \<and> (\<forall>v \<in> set (as @ bs). unfinished v = [])" using t' c' by auto
  moreover have "unfinished u = []" using t(3) unfinished_wires by blast
  moreover have "s_reconnecting S" using c' t' by auto
  moreover have "agent_free S' u" by (rule agent_free_wires [OF t(3)])
  ultimately show ?thesis using t n S' c' a \<open>filter locks (as @ bs) = []\<close> unfolding sess_calm_mid by auto
qed

lemma sess_calm_unlock:
  assumes c: "sess_calm S (as @ [t] @ bs) d" and t: "locks t" "\<forall>u \<in> set us. \<not> wires u \<and> \<not> locks u"
    and S': "s_client S' = s_client S" "s_jumps S' = s_jumps S" "s_agentConn S' = s_agentConn S"
  shows "sess_calm S' (as @ us @ bs) d"
proof -
  note c' = c [unfolded sess_calm_mid]
  have "filter locks (as @ bs) = []" using c' t(1) by simp
  then have n: "\<not> locks v" "\<not> dials v" if "v \<in> set (as @ bs)" for v
    using that wires_not_locks(2) unfolding filter_empty_conv by blast+
  have a: "agent_free S' v = agent_free S v" for v using S'(3) by (cases v) auto
  have "works t" using t(1) wires_not_locks by blast
  then have "\<not> d \<and> (\<forall>v \<in> set (as @ bs). unfinished v = [])" using c' by auto
  moreover have u: "unfinished u = []" "agent_free S' u" "\<not> dials u" if "u \<in> set us" for u
    using t(2) that unfinished_wires agent_free_wires wires_not_locks(2) by blast+
  moreover have "filter wires us = []" "filter locks us = []" using t(2) by (auto simp: filter_empty_conv)
  ultimately show ?thesis using t n c' a \<open>filter locks (as @ bs) = []\<close> unfolding sess_calm_mid by auto
qed

section \<open>Every piece keeps the calm\<close>

lemma calm_sess: "calm_inv (st, ts, ss, os) \<Longrightarrow> sess_calm (sess st p) (on p ts) (p \<in> set ss)"
  by simp

lemma mentions_none: "mentions t = [] \<Longrightarrow> unfinished t = []"
  by (cases t) simp_all

lemma own_id_sub: "own_id m t \<Longrightarrow> set (unfinished u) \<subseteq> set (unfinished t) \<Longrightarrow> own_id m u"
  unfolding own_id_def by blast

lemma calm_piece:
  assumes c: "calm_inv (st, xs @ t # ys, ss, [])" and t: "mentions t = [p]"
    and st': "tbl st' = tbl st" "\<forall>q. q \<noteq> p \<longrightarrow> sess st' q = sess st q"
    and u: "\<forall>u \<in> set ts'. set (mentions u) \<subseteq> {p} \<and> set (unfinished u) \<subseteq> set (unfinished t)"
    and loc: "\<And>as bs d. sess_calm (sess st p) (as @ [t] @ bs) d \<Longrightarrow> d = (p \<in> set ss) \<Longrightarrow> as = on p xs \<Longrightarrow> bs = on p ys \<Longrightarrow>
      sess_calm (sess st' p) (as @ on p ts' @ bs) d"
  shows "calm_inv (st', xs @ ts' @ ys, ss, [])"
proof -
  have "sess_calm (sess st' q) (on q (xs @ ts' @ ys)) (q \<in> set ss)" for q
  proof (cases "q = p")
    case True
    have "sess_calm (sess st p) (on p xs @ [t] @ on p ys) (p \<in> set ss)" using calm_sess [OF c, of p] t by simp
    then show ?thesis using loc True by simp
  next
    case False
    then have "on q ts' = []" using u by (auto simp: on_def filter_empty_conv)
    moreover have "sess_calm (sess st q) (on q (xs @ t # ys)) (q \<in> set ss)" using c unfolding calm_inv.simps by blast
    ultimately show ?thesis using False t st'(2) by simp
  qed
  moreover have "\<forall>v \<in> set (xs @ ts' @ ys). own_id (tbl st') v"
    using c u st'(1) own_id_sub [of "tbl st" t] by auto
  ultimately show ?thesis using c st'(1) by simp
qed

text \<open>Most pieces.\<close>

lemma calm_next:
  assumes "calm_inv (st, xs @ t # ys, ss, [])" and "mentions t = [p]" and "tbl st' = tbl st" "\<forall>q. q \<noteq> p \<longrightarrow> sess st' q = sess st q"
    and "eases (sess st p) (sess st' p)" "works t \<or> (bare (sess st p) \<longrightarrow> bare (sess st' p))"
    and "mentions u = [p]" "set (unfinished u) \<subseteq> set (unfinished t)" "wires u \<longrightarrow> wires t" "locks u \<longrightarrow> locks t" "dials u \<longrightarrow> dials t"
      "works u \<longrightarrow> works t \<or> \<not> bare (sess st p)" "agent_free (sess st' p) t \<longrightarrow> agent_free (sess st' p) u"
  shows "calm_inv (st', xs @ [u] @ ys, ss, [])"
proof (rule calm_piece [OF assms(1-4)])
  have "unfinished u \<noteq> [] \<longrightarrow> unfinished t \<noteq> []" using assms(8) by auto
  then show "sess_calm (sess st' p) (as @ on p [u] @ bs) d" if "sess_calm (sess st p) (as @ [t] @ bs) d" for as bs d
    using sess_calm_next [OF that assms(5,6), of "[u]" u] assms(7-) by simp
qed (use assms in auto)

lemma calm_stop:
  assumes "calm_inv (st, xs @ t # ys, ss, [])" and "mentions t = [p]" and "tbl st' = tbl st" "\<forall>q. q \<noteq> p \<longrightarrow> sess st' q = sess st q"
    and "eases (sess st p) (sess st' p)" "works t \<or> (bare (sess st p) \<longrightarrow> bare (sess st' p))"
    and "\<forall>u \<in> set ts'. mentions u = [] \<and> unfinished u = []"
  shows "calm_inv (st', xs @ ts' @ ys, ss, [])"
proof (rule calm_piece [OF assms(1-4)])
  have "on p ts' = []" using assms(7) by (auto simp: on_def filter_empty_conv)
  then show "sess_calm (sess st' p) (as @ on p ts' @ bs) d" if "sess_calm (sess st p) (as @ [t] @ bs) d" for as bs d
    using sess_calm_next [OF that assms(5,6), of "[]"] by simp
qed (use assms in auto)

text \<open>A goroutine that works on objects taken out of their maps, or closes a session.\<close>

lemma calm_aside:
  assumes c: "calm_inv (st, xs @ old @ ys, ss, [])" and t: "\<forall>t \<in> set old \<union> set ts'. mentions t = []"
    and st': "tbl st' = tbl st" "\<forall>q. q \<noteq> p \<longrightarrow> sess st' q = sess st q" "eases (sess st p) (sess st' p)" "bare (sess st p) \<longrightarrow> bare (sess st' p)"
  shows "calm_inv (st', xs @ ts' @ ys, ss, [])"
proof -
  have "on q old = []" "on q ts' = []" for q using t by (auto simp: on_def filter_empty_conv)
  then have on: "on q (xs @ ts' @ ys) = on q (xs @ old @ ys)" for q by simp
  have "sess_calm (sess st' q) (on q (xs @ ts' @ ys)) (q \<in> set ss)" for q
  proof -
    have "sess_calm (sess st q) (on q (xs @ old @ ys)) (q \<in> set ss)" using c unfolding calm_inv.simps by blast
    then show ?thesis unfolding on using sess_calm_eases st' by (cases "q = p") auto
  qed
  moreover have "unfinished t = []" if "t \<in> set ts'" for t using t that mentions_none by blast
  then have "\<forall>t \<in> set ts'. own_id (tbl st) t" by (simp add: own_id_def)
  ultimately show ?thesis using c st'(1) by auto
qed

lemmas calm_simps = eases_def bare_def transport_def opt_list_def oldTransport_def agentFailed_def markState_def updS_def st_close_def
  setReconnecting_def

lemma opens_same: "opens hs st st' \<Longrightarrow> sess st' = sess st \<and> tbl st' = tbl st"
  by (auto simp: opens_def)

lemma st_call_sess: "st_call f st = (r, st') \<Longrightarrow> sess st' = sess st \<and> tbl st' = tbl st"
  by (erule st_callE) simp

lemma sess_calm_failed:
  assumes "sess_calm S (as @ [t] @ bs) d" and "unfinished t \<noteq> []"
  shows "sess_calm S (as @ bs) e"
proof -
  note c = assms(1) [unfolded sess_calm_mid]
  have "filter wires (as @ bs) = []" using c unfinished_wires [OF assms(2)] by simp
  then have "\<forall>v \<in> set (as @ bs). \<not> wires v" by (auto simp: filter_empty_conv)
  moreover have "bare S \<and> (\<forall>v \<in> set (as @ bs). \<not> works v)" using c assms(2) by auto
  moreover have "sess_calm S (as @ [] @ bs) e \<longleftrightarrow> sess_calm S (as @ bs) e" by simp
  ultimately show ?thesis using c unfolding sess_calm_mid by simp
qed

lemma calm_failed:
  assumes inv: "conc_inv (st, xs @ ConnFailed k p # ys, ss, [])" and c: "calm_inv (st, xs @ ConnFailed k p # ys, ss, [])"
  shows "calm_inv (connectFail k st, xs @ ys, (case gm_get (tbl st) k of Some q \<Rightarrow> [q] | None \<Rightarrow> []) @ ss, [])"
proof -
  let ?ss = "(case gm_get (tbl st) k of Some q \<Rightarrow> [q] | None \<Rightarrow> []) @ ss"
  have k: "gm_get (tbl st) k = None \<or> gm_get (tbl st) k = Some p" using c by (auto simp: own_id_def)
  have st: "sess (connectFail k st) = sess st" "tbl (connectFail k st) = gm_del k (tbl st)" by (simp_all add: connectFail_def)
  have t: "table_ok st (xs @ ConnFailed k p # ys)" by (rule conc_invD(2) [OF inv])
  have "sess_calm (sess st q) (on q (xs @ ys)) (q \<in> set ?ss)" for q
  proof (cases "q = p")
    case True
    have "sess_calm (sess st p) (on p xs @ [ConnFailed k p] @ on p ys) (p \<in> set ss)" using calm_sess [OF c, of p] by simp
    from sess_calm_failed [OF this] show ?thesis using True by simp
  next
    case False
    then have "q \<in> set ?ss \<longleftrightarrow> q \<in> set ss" using k by auto
    then show ?thesis using calm_sess [OF c, of q] False by simp
  qed
  moreover have "set ?ss \<inter> set (gm_vals (gm_del k (tbl st))) = {}"
  proof -
    have "p \<notin> set (gm_vals (gm_del k (tbl st)))" if "gm_get (tbl st) k = Some p" by (rule table_once [OF t that])
    moreover have "set (gm_vals (gm_del k (tbl st))) \<subseteq> set (gm_vals (tbl st))" using t gm_vals_split [of "tbl st" k] by (auto simp: table_ok_def)
    ultimately show ?thesis using c k by auto
  qed
  moreover have "own_id (gm_del k (tbl st)) u" if "own_id (tbl st) u" for u using that by (auto simp: own_id_def split: if_splits)
  ultimately show ?thesis using c st by auto
qed

lemma calm_connect:
  assumes "task_step x s t st ts' st' ss' os'" and "conc_inv (st, xs @ t # ys, ss, [])" and "calm_inv (st, xs @ t # ys, ss, [])" and "connectTask t"
  shows "calm_inv (st', xs @ ts' @ ys, ss' @ ss, os')"
  using assms
proof (induction rule: task_step.induct)
  case dial_ok
  note f = st_call_sess [OF dial_ok(1)]
  show ?case unfolding append_Nil by (rule calm_next [OF dial_ok(3)]) (use f in auto)
next
  case dial_err
  note f = st_call_sess [OF dial_err(1)]
  show ?case unfolding append_Nil by (rule calm_next [OF dial_err(3)]) (use f in auto)
next
  case (conn_failed k p st)
  show ?case using calm_failed [OF conn_failed(1,2)] by simp
next
  case (conn_install p c js a st st' k spec)
  note st' = setClient_yes [OF conn_install(1)]
  have b: "bare (sess st p)" using calm_sess [OF conn_install(3), of p] by (auto simp: sess_calm_def)
  let ?u = "if ForwardAgent spec then AgentDialing p spec else ConnEnd p spec"
  have "calm_inv (st', xs @ [?u] @ ys, ss, [])"
  proof (rule calm_piece [OF conn_install(3), where p = p])
    show "sess_calm (sess st' p) (as @ on p [?u] @ bs) d" if "sess_calm (sess st p) (as @ [ConnDialed k p spec c js a] @ bs) d" for as bs d
      using sess_calm_wire [OF that, of ?u "sess st' p"] st' b by (simp add: bare_def)
  qed (use st' in auto)
  then show ?case using b by (simp add: bare_def oldTransport_def opt_list_def)
next
  case (conn_refuse p c js a st st' k spec)
  note st' = setClient_no [OF conn_refuse(1)]
  show ?case unfolding append_Nil by (rule calm_next [OF conn_refuse(3), of p]) (use st' in \<open>auto simp: st_close_def\<close>)
next
  case (conn_refused k p st)
  have "calm_inv (st, xs @ [] @ ys, ss, [])" by (rule calm_stop [OF conn_refused(2), of p]) auto
  then show ?case using refused_gone [OF conn_refused(1)] by simp
qed simp_all

lemma calm_agent:
  assumes "task_step x s t st ts' st' ss' os'" and "calm_inv (st, xs @ t # ys, ss, [])" and "agentTask t"
  shows "calm_inv (st', xs @ ts' @ ys, ss' @ ss, os')"
  using assms
proof (induction rule: task_step.induct)
  case (agent_none st spec p)
  show ?case unfolding append_Nil by (rule calm_next [OF agent_none(2), of p]) (auto simp: calm_simps)
next
  case (agent_err sock st spec e st' p)
  note f = st_call_sess [OF agent_err(3)]
  show ?case unfolding append_Nil by (rule calm_next [OF agent_err(4), of p]) (use f in \<open>auto simp: calm_simps\<close>)
next
  case (agent_ok sock st spec conn st' p)
  note f = st_call_sess [OF agent_ok(3)]
  show ?case unfolding append_Nil by (rule calm_next [OF agent_ok(4), of p]) (use f in auto)
next
  case (agent_lost st p spec conn)
  have c: "s_agentConn (sess st p) = None" using calm_sess [OF agent_lost(2), of p] by (auto simp: sess_calm_def)
  let ?st = "agentFailed p (Errorf ''session has no active client'' [])
    (st_close x [conn] (updS p (\<lambda>S. S\<lparr>s_agentConn := Some conn, s_agentOn := True\<rparr>) st))"
  have "calm_inv (?st, xs @ [ConnEnd p spec] @ ys, ss, [])"
  proof (rule calm_piece [OF agent_lost(2), where p = p])
    show "sess_calm (sess ?st p) (as @ on p [ConnEnd p spec] @ bs) d" if "sess_calm (sess st p) (as @ [AgentDialed p spec conn] @ bs) d" for as bs d
      using sess_calm_wire [OF that, of "ConnEnd p spec" "sess ?st p"] by (simp add: calm_simps)
  qed (auto simp: calm_simps)
  then show ?case using c by (simp add: opt_list_def)
next
  case (agent_set st p cl spec conn)
  have c: "s_agentConn (sess st p) = None" using calm_sess [OF agent_set(2), of p] by (auto simp: sess_calm_def)
  let ?st = "updS p (\<lambda>S. S\<lparr>s_agentConn := Some conn, s_agentOn := True\<rparr>) st"
  have "calm_inv (?st, xs @ [AgentForwarding p spec cl conn] @ ys, ss, [])"
  proof (rule calm_piece [OF agent_set(2), where p = p])
    show "sess_calm (sess ?st p) (as @ on p [AgentForwarding p spec cl conn] @ bs) d"
      if "sess_calm (sess st p) (as @ [AgentDialed p spec conn] @ bs) d" for as bs d
      using sess_calm_wire [OF that, of "AgentForwarding p spec cl conn" "sess ?st p"] by simp
  qed auto
  then show ?case using c by (simp add: opt_list_def)
next
  case agent_done
  note f = st_call_sess [OF agent_done(1)]
  show ?case unfolding append_Nil by (rule calm_next [OF agent_done(2)]) (use f in auto)
next
  case (agent_refused cl conn st e st' p spec)
  note f = st_call_sess [OF agent_refused(1)]
  have c: "s_agentConn (sess st p) \<in> {None, Some conn}" using calm_sess [OF agent_refused(2), of p] by (auto simp: sess_calm_def)
  let ?st = "agentFailed p (Wrapf ''ForwardToAgent: %w'' [] e) (updS p (\<lambda>S. S\<lparr>s_agentConn := None, s_agentOn := False\<rparr>) (st_close x [conn] st'))"
  have "calm_inv (?st, xs @ [ConnEnd p spec] @ ys, ss, [])"
    by (rule calm_next [OF agent_refused(2), of p]) (use f in \<open>auto simp: calm_simps\<close>)
  then show ?case using c by (auto simp: opt_list_def)
qed simp_all

lemma calm_keep:
  assumes "task_step x s t st ts' st' ss' os'" and "calm_inv (st, xs @ t # ys, ss, [])" and "keepTask t"
  shows "calm_inv (st', xs @ ts' @ ys, ss' @ ss, os')"
  using assms
proof (induction rule: task_step.induct)
  case (conn_quiet spec p st)
  have "calm_inv (st, xs @ [] @ ys, ss, [])" by (rule calm_stop [OF conn_quiet(3), of p]) auto
  then show ?case by simp
next
  case (conn_end spec p st)
  have st: "tbl (startKeepalive p st) = tbl st" "\<forall>q. q \<noteq> p \<longrightarrow> sess (startKeepalive p st) q = sess st q"
      "eases (sess st p) (sess (startKeepalive p st) p)" "bare (sess st p) \<longrightarrow> bare (sess (startKeepalive p st) p)"
    by (auto simp: startKeepalive_def Let_def calm_simps)
  show ?case
  proof (cases "s_closed (sess st p)")
    case True
    have "calm_inv (startKeepalive p st, xs @ [] @ ys, ss, [])" by (rule calm_stop [OF conn_end(2), of p]) (use st in auto)
    then show ?thesis using True by simp
  next
    case False
    have "calm_inv (startKeepalive p st, xs @ [Keeping p (nxt st)] @ ys, ss, [])"
      by (rule calm_next [OF conn_end(2), of p]) (use st in auto)
    then show ?thesis using False by simp
  qed
next
  case (keep_cancelled ctx st p)
  have "calm_inv (st, xs @ [] @ ys, ss, [])" by (rule calm_stop [OF keep_cancelled(2), of p]) auto
  then show ?case by simp
next
  case (keep_idle st p)
  show ?case unfolding append_Nil by (rule calm_next [OF keep_idle(2), of p]) auto
next
  case (keep_ping st p)
  show ?case unfolding append_Nil by (rule calm_next [OF keep_ping(2), of p]) auto
next
  case (keep_ok c st st' p)
  note f = st_call_sess [OF keep_ok(1)]
  show ?case unfolding append_Nil by (rule calm_next [OF keep_ok(2), of p]) (use f in auto)
next
  case (keep_lost c st e st' p)
  note f = st_call_sess [OF keep_lost(1)]
  show ?case unfolding append_Nil by (rule calm_next [OF keep_lost(2), of p]) (use f in \<open>auto simp: calm_simps\<close>)
next
  case (keep_busy st p)
  show ?case unfolding append_Nil by (rule calm_next [OF keep_busy(2), of p]) auto
next
  case (keep_reconnect st p ctx)
  show ?case unfolding append_Nil
  proof (rule calm_piece [OF keep_reconnect(2), where p = p])
    show "sess_calm (sess (reconnectBegin x p st) p) (as @ on p [Redialing p (Some ctx)] @ bs) d"
      if "sess_calm (sess st p) (as @ [Attempting p ctx] @ bs) d" for as bs d
      using sess_calm_lock [OF that, of "Redialing p (Some ctx)"] keep_reconnect(1) by (simp add: reconnectBegin_eq)
  qed (auto simp: reconnectBegin_eq)
qed simp_all

declare calm_inv.simps [simp del]

lemma calm_unlock:
  assumes c: "calm_inv (st, xs @ t # ys, ss, [])" and t: "mentions t = [p]" "locks t"
    and st': "tbl st' = tbl st" "\<And>q. q \<noteq> p \<Longrightarrow> sess st' q = sess st q"
      "s_client (sess st' p) = s_client (sess st p)" "s_jumps (sess st' p) = s_jumps (sess st p)" "s_agentConn (sess st' p) = s_agentConn (sess st p)"
  shows "calm_inv (setReconnecting p False st', xs @ resume p r @ ys, ss, [])"
proof (rule calm_piece [OF c t(1)])
  have n: "\<not> wires u \<and> \<not> locks u \<and> unfinished u = []" if "u \<in> set (resume p r)" for u using that by (cases r) auto
  then show "\<forall>u \<in> set (resume p r). set (mentions u) \<subseteq> {p} \<and> set (unfinished u) \<subseteq> set (unfinished t)" by simp
  show "sess_calm (sess (setReconnecting p False st') p) (as @ on p (resume p r) @ bs) d" if "sess_calm (sess st p) (as @ [t] @ bs) d" for as bs d
    by (rule sess_calm_unlock [OF that t(2)]) (use n on_set st' in \<open>auto simp: setReconnecting_def\<close>)
qed (use st' in \<open>auto simp: setReconnecting_def\<close>)

lemma calm_redial:
  assumes "task_step x s t st ts' st' ss' os'" and "calm_inv (st, xs @ t # ys, ss, [])" and "redialTask t"
  shows "calm_inv (st', xs @ ts' @ ys, ss' @ ss, os')"
  using assms
proof (induction rule: task_step.induct)
  case (redial_cancelled ctx st p)
  show ?case using calm_unlock [OF redial_cancelled(2), of p st "Some ctx"] by simp
next
  case (redial_ok st p)
  note f = st_call_sess [OF redial_ok(1)]
  show ?case unfolding append_Nil by (rule calm_next [OF redial_ok(2), of p]) (use f in auto)
next
  case (redial_err st p e st')
  note f = st_call_sess [OF redial_err(1)]
  show ?case using calm_unlock [OF redial_err(2), of p "markState p StateDisconnected (Some e) st'" None] f by (simp add: markState_def)
next
  case (redial_wait st p)
  note f = st_call_sess [OF redial_wait(1)]
  show ?case unfolding append_Nil by (rule calm_next [OF redial_wait(2), of p]) (use f in \<open>auto simp: calm_simps\<close>)
next
  case (wait_over p)
  show ?case unfolding append_Nil by (rule calm_next [OF wait_over(1), of p]) auto
next
  case (wait_cancelled ctx st p)
  show ?case using calm_unlock [OF wait_cancelled(2), of p st "Some ctx"] by simp
next
  case (re_install p c js a st st' r)
  note st' = setClient_yes [OF re_install(1)]
  have b: "s_client (sess st p) = None" "s_jumps (sess st p) = []" using calm_sess [OF re_install(2), of p] by (auto simp: sess_calm_def)
  have "calm_inv (st', xs @ [Reconnected p r] @ ys, ss, [])"
  proof (rule calm_piece [OF re_install(2), where p = p])
    show "sess_calm (sess st' p) (as @ on p [Reconnected p r] @ bs) d" if "sess_calm (sess st p) (as @ [Redialed p r c js a] @ bs) d" for as bs d
      using sess_calm_installed [OF that, of "Reconnected p r" "sess st' p"] st' by simp
  qed (use st' in auto)
  then show ?case using b by (simp add: oldTransport_def opt_list_def)
next
  case (re_refuse p c js a st st' r)
  note st' = setClient_no [OF re_refuse(1)]
  show ?case using calm_unlock [OF re_refuse(2), of p st' r] st' by (simp add: st_close_def)
qed simp_all

lemma calm_rebind:
  assumes "task_step x s t st ts' st' ss' os'" and "calm_inv (st, xs @ t # ys, ss, [])" and "rebindTask t"
  shows "calm_inv (st', xs @ ts' @ ys, ss' @ ss, os')"
  using assms
proof (induction rule: task_step.induct)
  case (rebind_list p)
  show ?case unfolding append_Nil by (rule calm_next [OF rebind_list(1), of p]) auto
next
  case (rebind_end p r st)
  show ?case using calm_unlock [OF rebind_end(1), of p st r] by simp
next
  case (rebind_skip st f p)
  show ?case unfolding append_Nil by (rule calm_next [OF rebind_skip(2), of p]) auto
next
  case (rebind_client st f spec p)
  show ?case unfolding append_Nil by (rule calm_next [OF rebind_client(4), of p]) auto
next
  case (rebind_err st f spec c e st' p)
  note f = st_call_sess [OF rebind_err(2)]
  show ?case unfolding append_Nil by (rule calm_next [OF rebind_err(3), of p]) (use f in auto)
next
  case (rebind_ok st f spec c ln st' p)
  note f = st_call_sess [OF rebind_ok(2)]
  show ?case unfolding append_Nil by (rule calm_next [OF rebind_ok(3), of p]) (use f in auto)
next
  case (rebind_swap p)
  show ?case unfolding append_Nil by (rule calm_next [OF rebind_swap(1), of p]) auto
qed simp_all

lemma calm_close:
  assumes "task_step x s t st ts' st' ss' os'" and "calm_inv (st, xs @ t # ys, ss, [])" and "closers t \<noteq> []"
  shows "calm_inv (st', xs @ ts' @ ys, ss' @ ss, os')"
  using assms
proof (induction rule: task_step.induct)
  case (close_again st p)
  have "calm_inv (st, xs @ [] @ ys, ss, [])" by (rule calm_aside [of st xs "[Closing p]"]) (use close_again in auto)
  then show ?case by simp
next
  case (close_begin st p)
  show ?case unfolding append_Nil
    by (rule calm_aside [of st xs "[Closing p]" _ _ _ _ p]) (use close_begin in \<open>auto simp: closeBegin_def Let_def calm_simps\<close>)
next
  case (close_forwards p st)
  show ?case unfolding append_Nil
    by (rule calm_aside [of st xs "[ClosingForwards p]" _ _ _ _ p]) (use close_forwards in \<open>auto simp: closeFwdMap_def calm_simps\<close>)
next
  case (close_shells p st)
  show ?case unfolding append_Nil
    by (rule calm_aside [of st xs "[ClosingShells p]" _ _ _ _ p]) (use close_shells in \<open>auto simp: closeShellMap_def calm_simps\<close>)
next
  case (close_end p st)
  have "calm_inv (markState p StateDisconnected None (clearClient x p st), xs @ [] @ ys, ss, [])"
    by (rule calm_aside [of st xs "[ClosingTransport p]" _ _ _ _ p]) (use close_end in \<open>auto simp: clearClient_def Let_def calm_simps\<close>)
  then show ?case by simp
qed simp_all

lemma requests_sess:
  "startShell x ch opts (requestAgent x p ch (setenvs x ch env st)) = (r, st') \<Longrightarrow> sess st' = sess st \<and> tbl st' = tbl st"
  by (rule opens_same [OF opens_requests])

lemma getClient_not_bare: "getClient st p = Inr c \<Longrightarrow> \<not> bare (sess st p)"
  by (auto simp: getClient_def bare_def split: option.splits)

lemma calm_handler:
  assumes "task_step x s t st ts' st' ss' os'" and "calm_inv (st, xs @ t # ys, ss, [])" and "handlerTask t"
  shows "calm_inv (st', xs @ ts' @ ys, ss' @ ss, os')"
  using assms
proof (induction rule: task_step.induct)
  case (drop p st)
  show ?case unfolding append_Nil [of ss] by (rule calm_stop [OF drop(1), of p]) auto
next
  case (client st p c)
  show ?case unfolding append_Nil by (rule calm_next [OF client(2), of p]) (use getClient_not_bare [OF client(1)] in auto)
next
  case (listen addr st ln st' spec p)
  note f = st_call_sess [OF listen(1)]
  show ?case unfolding append_Nil by (rule calm_next [OF listen(3), of p]) (use f in auto)
next
  case (listen_err addr st e st' p)
  note f = st_call_sess [OF listen_err(1)]
  show ?case unfolding append_Nil [of ss] by (rule calm_stop [OF listen_err(2), of p]) (use f in auto)
next
  case (listen_remote c addr st ln st' p)
  note f = st_call_sess [OF listen_remote(1)]
  show ?case unfolding append_Nil by (rule calm_next [OF listen_remote(2), of p]) (use f in auto)
next
  case (listen_remote_err c addr st e st' p)
  note f = st_call_sess [OF listen_remote_err(1)]
  show ?case unfolding append_Nil [of ss] by (rule calm_stop [OF listen_remote_err(2), of p]) (use f in auto)
next
  case (install p k fid spec ln dflt st r st')
  show ?case unfolding append_Nil [of ss] using install(1)
    by (cases rule: installForwardE; intro calm_stop [OF install(2), of p]) (auto simp: calm_simps newForward_def)
next
  case (forward_out st p fid f)
  then have "s_forwards (sess st p) \<noteq> []" by auto
  then show ?case unfolding append_Nil by (intro calm_stop [OF forward_out(2), of p]) (auto simp: calm_simps)
next
  case (forward_close f st)
  have "calm_inv (snd (fwdClose x f st), xs @ [] @ ys, ss, [])" by (rule calm_aside [of st xs "[FwdClosing f]"]) (use forward_close in auto)
  then show ?case by simp
next
  case (channel c st ch st' p)
  note f = st_call_sess [OF channel(1)]
  show ?case unfolding append_Nil by (rule calm_next [OF channel(2), of p]) (use f in auto)
next
  case (channel_err c st e st' p)
  note f = st_call_sess [OF channel_err(1)]
  show ?case unfolding append_Nil [of ss] by (rule calm_stop [OF channel_err(2), of p]) (use f in auto)
next
  case (shell_fail ch opts p st e st' hid)
  note f = requests_sess [OF shell_fail(1)]
  show ?case unfolding append_Nil [of ss] by (rule calm_stop [OF shell_fail(2), of p]) (use f in \<open>auto simp: st_close_def\<close>)
next
  case (shell_ok ch opts p st)
  note f = requests_sess [OF shell_ok(1)]
  show ?case unfolding append_Nil by (rule calm_next [OF shell_ok(2), of p]) (use f in auto)
next
  case (shell_install p hid n ch st)
  show ?case unfolding append_Nil [of ss] using shell_install(1)
    by (cases rule: installShellE; intro calm_stop [OF shell_install(2), of p]) (auto simp: calm_simps newShell_def)
next
  case (shell_out p hid st h st')
  then have "gm_get (s_shells (sess st p)) hid = Some h \<and> st' = updS p (\<lambda>S. S\<lparr>s_shells := gm_del hid (s_shells S)\<rparr>) st"
    by (auto simp: removeShell_def GetShell_def split: option.splits sum.splits)
  moreover from this have "s_shells (sess st p) \<noteq> []" by auto
  ultimately show ?case unfolding append_Nil by (intro calm_stop [OF shell_out(2), of p]) (auto simp: calm_simps)
next
  case (shell_close h st)
  have "calm_inv (snd (shellClose x h st), xs @ [] @ ys, ss, [])" by (rule calm_aside [of st xs "[ShellClosing h]"]) (use shell_close in auto)
  then show ?case by simp
next
  case (sftp p st r st')
  have "calm_inv (st', xs @ [Holds p] @ ys, ss, [])" using sftp(1)
  proof (cases rule: sftpClientE)
    case same
    then show ?thesis using sftp(2) by simp
  next
    case failed
    show ?thesis by (rule calm_next [OF sftp(2), of p]) (use opens_same [OF failed(2)] in auto)
  next
    case (opened c st1)
    then show ?thesis using opens_same [OF opened(3)] by (intro calm_next [OF sftp(2), of p]) (auto simp: calm_simps)
  qed
  then show ?case by simp
next
  case (sftp_drop p st)
  show ?case unfolding append_Nil by (rule calm_next [OF sftp_drop(1), of p]) (auto simp: calm_simps dropSFTP_def)
qed simp_all

lemma calm_task:
  assumes "task_step x s t st ts' st' ss' os'" and "conc_inv (st, xs @ t # ys, ss, [])" and "calm_inv (st, xs @ t # ys, ss, [])"
  shows "calm_inv (st', xs @ ts' @ ys, ss' @ ss, os')"
  using task_group [of t] calm_connect [OF assms] calm_agent [OF assms(1,3)] calm_keep [OF assms(1,3)] calm_redial [OF assms(1,3)]
    calm_rebind [OF assms(1,3)] calm_close [OF assms(1,3)] calm_handler [OF assms(1,3)] by blast

section \<open>Every step keeps it\<close>

lemma calm_reserved:
  assumes inv: "conc_inv (st, ts, ss, [])" and c: "calm_inv (st, ts, ss, [])" and r: "connectReserve k spec st = (Inr p, st')"
    and k: "k \<notin> fst ` connecting ts"
  shows "calm_inv (st', Connecting k p spec # ts, ss, [])"
proof -
  have new: "gm_get (tbl st) k = None" "p = nxt st"
      "st' = st\<lparr>sess := (sess st)(nxt st := newSession k spec), tbl := gm_put k (nxt st) (tbl st), nxt := Suc (nxt st)\<rparr>"
    using r by (auto simp: connectReserve_def split: if_splits)
  have "q < p" if "t \<in> set ts" "q \<in> set (mentions t)" for q t using conc_invD(4) [OF inv] that new(2) by (auto simp: task_ok_def)
  then have none: "on p ts = []" by (auto simp: on_def filter_empty_conv)
  have p: "p \<notin> set ss" using conc_invD(3) [OF inv] new(2) by (auto simp: active_def maps_ok_def)
  have "sess_calm (newSession k spec) [Connecting k p spec] False" by (simp add: sess_calm_def bare_def newSession_def)
  then have "sess_calm (sess st' q) (on q (Connecting k p spec # ts)) (q \<in> set ss)" for q
    using calm_sess [OF c, of q] none p new by (cases "q = p") auto
  moreover have "set ss \<inter> set (gm_vals (tbl st')) = {}" using c new p by (auto simp: calm_inv.simps gm_vals_put_new)
  moreover have "own_id (tbl st') (Connecting k p spec)" using new by (simp add: own_id_def)
  moreover have "own_id (tbl st') t" if t: "t \<in> set ts" for t
  proof -
    have "j \<noteq> k" if "(j, q) \<in> set (unfinished t)" for j q using k t that by (force simp: connecting_def)
    moreover have "own_id (tbl st) t" using c t by (simp add: calm_inv.simps)
    ultimately show ?thesis using new by (auto simp: own_id_def)
  qed
  ultimately show ?thesis by (simp add: calm_inv.simps)
qed

lemma calm_fewer:
  assumes c: "calm_inv (st, ts, ss, [])" and m: "\<forall>k p. gm_get m k = Some p \<longrightarrow> gm_get (tbl st) k = Some p" "gm_wf m" "gm_wf (tbl st)"
    and us: "\<forall>u \<in> set us. mentions u = []"
  shows "calm_inv (st\<lparr>tbl := m\<rparr>, us @ ts, ss, [])"
proof -
  have "on p us = []" for p using us by (auto simp: on_def filter_empty_conv)
  moreover have "p \<in> set (gm_vals (tbl st))" if "p \<in> set (gm_vals m)" for p
  proof -
    have "\<exists>k. gm_get m k = Some p" by (rule iffD1 [OF gm_vals_iff [OF m(2)] that])
    then obtain k where "gm_get m k = Some p" by (rule exE)
    then have "gm_get (tbl st) k = Some p" by (rule m(1) [rule_format])
    then show ?thesis by (intro iffD2 [OF gm_vals_iff [OF m(3)]] exI)
  qed
  moreover have "own_id m u" if "u \<in> set us" for u using that us mentions_none by (simp add: own_id_def)
  moreover have "own_id m t" if "own_id (tbl st) t" for t using that m(1) unfolding own_id_def by blast
  ultimately show ?thesis using c by (auto simp: calm_inv.simps)
qed

lemma calm_get:
  assumes c: "calm_inv (st, ts, ss, [])"
  shows "calm_inv (st, Holds p # ts, ss, [])"
proof -
  have "sess_calm (sess st q) (on q (Holds p # ts)) (q \<in> set ss)" for q using calm_sess [OF c, of q] by (auto simp: sess_calm_def)
  then show ?thesis using c by (simp add: calm_inv.simps own_id_def)
qed

lemma calm_step: "conc_step x s True c c' \<Longrightarrow> conc_inv c \<Longrightarrow> calm_inv c \<Longrightarrow> calm_inv c'"
proof (induction rule: conc_step.induct)
  case (run t st ts' st' ss' os' xs ys ss os)
  have "os = []" using run(3) by (simp add: calm_inv.simps)
  then show ?case using calm_task [of x s t st ts' st' ss' os' xs ys ss] run by simp
next
  case (connect k n spec0 st spec1 st1 spec p st' ts ss os)
  have os: "os = []" using connect(7) by (simp add: calm_inv.simps)
  have "sess st1 = sess st" using connect(2) by (auto simp: resolveRef_def Let_def split: option.splits if_splits)
  then have "calm_inv (st1, ts, ss, [])" using connect(7) inv_resolved(2) [OF connect(6,2)] os by (simp add: calm_inv.simps)
  then show ?case using calm_reserved [of st1] inv_resolved(1) [OF connect(6,2)] connect(4,5) os by simp
next
  case (disconnect st k p ts ss os)
  then have "os = []" by (simp add: calm_inv.simps)
  moreover have "gm_wf (tbl st)" using conc_invD(2) [OF disconnect(2)] by (simp add: table_ok_def)
  ultimately show ?case using calm_fewer [of st ts ss "gm_del k (tbl st)" "[Closing p]"] disconnect(3) by (simp split: if_splits)
next
  case (close_all st ts ss os)
  then have "os = []" by (simp add: calm_inv.simps)
  moreover have "gm_wf (tbl st)" using conc_invD(2) [OF close_all(1)] by (simp add: table_ok_def)
  ultimately show ?case using calm_fewer [of st ts ss "[]" "map Closing (gm_vals (tbl st))"] close_all(2) by simp
next
  case (get st k p ts ss os)
  then have "os = []" by (simp add: calm_inv.simps)
  then show ?case using calm_get get(3) by simp
next
  case (reconnect st p ss xs ys os)
  then have os: "os = []" by (simp add: calm_inv.simps)
  have d: "p \<notin> set ss" using reconnect(2) by blast
  have n: "unfinished v = []" if v: "v \<in> set (on p xs @ on p ys)" for v
  proof (rule ccontr)
    assume "unfinished v \<noteq> []"
    then obtain k q where "(k, q) \<in> set (unfinished v)" by (metis ex_in_conv set_empty2 surj_pair)
    moreover have "p \<in> set (mentions v)" "v \<in> set (xs @ ys)" using v by (auto simp: on_set)
    ultimately have "(k, p) \<in> connecting (xs @ ys)" using unfinished_mentions by (fastforce simp: connecting_def)
    then show False using reconnect(2) by force
  qed
  have "calm_inv (reconnectBegin x p st, xs @ [Redialing p None] @ ys, ss, [])"
  proof (rule calm_piece [of st xs "Holds p" ys ss p])
    show "sess_calm (sess (reconnectBegin x p st) p) (as @ on p [Redialing p None] @ bs) d"
      if "sess_calm (sess st p) (as @ [Holds p] @ bs) d" "d = (p \<in> set ss)" "as = on p xs" "bs = on p ys" for as bs d
      using sess_calm_lock [OF that(1), of "Redialing p None"] reconnect(1) n d that(2-) by (simp add: reconnectBegin_eq)
  qed (use reconnect os in \<open>auto simp: reconnectBegin_eq\<close>)
  then show ?case using os by simp
next
  case (exited st ts ss os h)
  then have "os = []" by (simp add: calm_inv.simps)
  moreover have "calm_inv (shellExited h st, [] @ [] @ ts, ss, [])"
    by (rule calm_aside [of st "[]" "[]" _ _ _ _ "sh_parent (shl st h)"])
      (use exited(2) \<open>os = []\<close> in \<open>auto simp: shellExited_def Let_def calm_simps\<close>)
  ultimately show ?case by simp
qed

interpretation calm_sys: step_system "\<lambda>c. concStart c \<and> io_ok (st_io (fst c))" "conc_step x s True" "\<lambda>c. conc_inv c \<and> calm_inv c"
  for x :: "'w ext" and s
  by unfold_locales (auto intro: conc_start_inv conc_step_inv calm_step simp: concStart_def calm_inv.simps sess_calm_def)

lemma bare_owned: "h \<in> owned st p \<Longrightarrow> \<not> bare (sess st p)"
  by (auto simp: owned_def transport_def bare_def)

section \<open>What is left open\<close>

text \<open>
  C6. Whatever the interleaving of connects, disconnects, reconnects, keepalives, handlers and exits, every open handle of the ssh side belongs to a
  session that is registered or being closed, or is in the hands of a goroutine that will install or close it.  The exceptions are the
  sessions dropped from the table and the clients overwritten, and in a calm schedule there are none.
\<close>

theorem interleavings_accounted:
  assumes start: "concStart c" "io_ok (st_io (fst c))" and run: "steps_to (conc_step x s calm) c (st, ts, ss, os)" and h: "h \<in> live (st_io st)"
  shows "(\<exists>p \<in> set (gm_vals (tbl st)) \<union> set (closing ts). h \<in> owned st p) \<or> (\<exists>t \<in> set ts. h \<in> inHands st t) \<or>
    \<not> calm \<and> ((\<exists>p \<in> set ss. h \<in> owned st p) \<or> h \<in> set os)"
proof -
  have inv: "conc_inv (st, ts, ss, os)" by (rule conc_sys.inv_reachable [OF _ run]) (use start in blast)
  have l: "h \<in> located st ts (active st ts ss) os" using conc_invD(6) [OF inv] h by blast
  show ?thesis
  proof (cases calm)
    case True
    then have r: "steps_to (conc_step x s True) c (st, ts, ss, os)" using run by simp
    have "calm_inv (st, ts, ss, os)" using calm_sys.inv_reachable [OF _ r] start by blast
    then have "os = []" "\<forall>p \<in> set ss. bare (sess st p)" by (auto simp: calm_inv.simps sess_calm_def)
    then show ?thesis using l by (fastforce simp: located_def active_def dest: bare_owned)
  next
    case False
    then show ?thesis using l by (auto simp: located_def active_def)
  qed
qed

section \<open>Two schedules that lose a connection\<close>

definition race_start :: "nat st" where
  "race_start = demo_st\<lparr>st_io := \<lparr>orc = 0, next_h = 0, live = {}\<rparr>, tbl := [], arrA := (\<lambda>a. if a = 0 then [''up''] else [''down''])\<rparr>"

definition race_ref :: "nat \<Rightarrow> spec_ref" where
  "race_ref a = (s_Spec (demo_session ''a''))\<lparr>Addresses := Some a\<rparr>"

lemma race_start_ok: "concStart (race_start, [], [], [])" "io_ok (st_io (fst (race_start, [] :: task list, [] :: ptr list, [] :: handle list)))"
  by (simp_all add: concStart_def race_start_def io_ok_def)

definition race_dial :: "nat \<Rightarrow> nat st \<Rightarrow> nat st" where
  "race_dial a st = snd (st_call (dialFinal demo_ext (deref st (race_ref a))) st)"

lemma race_resolve: "resolveRef demo_ext 2 (race_ref a) st = Some (race_ref a, st)"
proof -
  have "resolve demo_ext (st_io st) 2 (deref st (race_ref a)) = Some (deref st (race_ref a))"
    by (simp add: numeral_2_eq_2 deref_def race_ref_def demo_session_def)
  then show ?thesis by (simp add: resolveRef_def Let_def deref_def race_ref_def demo_session_def arrayOf_def)
qed

lemma race_connect:
  assumes "steps_to (conc_step demo_ext s False) c (st, ts, ss, os)" and "gm_get (tbl st) ''a'' = None"
  shows "steps_to (conc_step demo_ext s False) c
    (snd (connectReserve ''a'' (race_ref a) st), Connecting ''a'' (nxt st) (race_ref a) # ts, ss, os)"
proof (rule steps_snoc [OF assms(1) conc_step.connect [OF _ race_resolve]])
  show "userOf demo_ext st (race_ref a) = Inr (race_ref a)" by (simp add: userOf_def race_ref_def demo_session_def)
  show "connectReserve ''a'' (race_ref a) st = (Inr (nxt st), snd (connectReserve ''a'' (race_ref a) st))"
    using assms(2) by (simp add: connectReserve_def)
qed simp_all

lemma race_run:
  assumes "steps_to (conc_step x s calm) c (st, xs @ t # ys, ss, os)" and "task_step x s t st ts' st' ss' os'"
  shows "steps_to (conc_step x s calm) c (st', xs @ ts' @ ys, ss' @ ss, os' @ os)"
  by (rule steps_snoc [OF assms(1) conc_step.run [OF assms(2)]])

definition race1 :: "nat st" where "race1 = snd (connectReserve ''a'' (race_ref 0) race_start)"
definition race2 :: "nat st" where "race2 = reconnectBegin demo_ext 1 race1"
definition race3 :: "nat st" where "race3 = race_dial 0 race2"
definition race4 :: "nat st" where "race4 = race_dial 0 race3"
definition race5 :: "nat st" where "race5 = snd (setClient demo_ext 1 1 [] ''up:22'' race4)"
definition race6 :: "nat st" where "race6 = snd (setClient demo_ext 1 0 [] ''up:22'' race5)"

lemma race_dials:
  "fst (st_call (dialFinal demo_ext (deref race2 (race_ref 0))) race2) = Inr (0, [], ''up:22'')"
  "fst (st_call (dialFinal demo_ext (deref race3 (race_ref 0))) race3) = Inr (1, [], ''up:22'')"
  by code_simp+

lemma race_facts:
  "fst (setClient demo_ext 1 1 [] ''up:22'' race4)" "fst (setClient demo_ext 1 0 [] ''up:22'' race5)"
  "oldTransport race4 1 = []" "oldTransport race5 1 = [1]" "s_Spec (sess race2 1) = race_ref 0" "\<not> s_reconnecting (sess race1 1)"
  "live (st_io race6) = {0, 1}" "tbl race6 = [(''a'', 1)]" "owned race6 1 = {0}" "Get race1 ''a'' = Inr 1" "nxt race_start = 1"
  by code_simp+

lemma race_dialed: "fst (st_call f st) = r \<Longrightarrow> st_call f st = (r, snd (st_call f st))"
  by (metis prod.collapse)

lemma race_set: "fst (setClient x p c js a st) \<Longrightarrow> setClient x p c js a st = (True, snd (setClient x p c js a st))"
  by (cases "setClient x p c js a st") simp

text \<open>\<open>Connect\<close> has dialed; the \<open>Reconnect\<close> that came in between installs its client over it.\<close>

lemma race_dialing:
  "steps_to (conc_step demo_ext s False) (race_start, [], [], []) (race4, [Redialed 1 None 0 [] ''up:22'', ConnDialed ''a'' 1 (race_ref 0) 1 [] ''up:22''], [], [])"
proof -
  let ?steps = "steps_to (conc_step demo_ext s False) (race_start, [], [], [])"
  have "?steps (race1, [Connecting ''a'' 1 (race_ref 0)], [], [])"
    using race_connect [OF steps_refl, where s = s and st = race_start and ts = "[]" and ss = "[]" and os = "[]" and a = 0] race_facts(11) by (simp add: race1_def race_start_def)
  then have "?steps (race1, [Holds 1, Connecting ''a'' 1 (race_ref 0)], [], [])" by (rule steps_snoc) (rule conc_step.get [OF race_facts(10)])
  moreover have "conc_step demo_ext s False (race1, [] @ Holds 1 # [Connecting ''a'' 1 (race_ref 0)], [], [])
      (race2, [] @ Redialing 1 None # [Connecting ''a'' 1 (race_ref 0)], [], [])"
    unfolding race2_def by (rule conc_step.reconnect) (use race_facts(6) in auto)
  ultimately have "?steps (race2, [] @ Redialing 1 None # [Connecting ''a'' 1 (race_ref 0)], [], [])" using steps_snoc by fastforce
  from race_run [OF this task_step.redial_ok [OF race_dialed]] race_dials(1) race_facts(5)
  have "?steps (race3, [Redialed 1 None 0 [] ''up:22''] @ Connecting ''a'' 1 (race_ref 0) # [], [], [])" by (simp add: race3_def race_dial_def)
  from race_run [OF this task_step.dial_ok [OF race_dialed [OF race_dials(2)]]] show ?thesis by (simp add: race4_def race_dial_def)
qed

theorem reconnect_overwrites_client:
  "\<exists>st ts. steps_to (conc_step demo_ext s False) (race_start, [], [], []) (st, ts, [], [1]) \<and>
     1 \<in> live (st_io st) \<and> tbl st = [(''a'', 1)] \<and> 1 \<notin> owned st 1 \<and> closing ts = [] \<and> (\<forall>t \<in> set ts. inHands st t = {})"
proof -
  have q: "\<not> 0 < Keepalive (race_ref 0)" "\<not> AutoReconnect (race_ref 0)" "\<not> ForwardAgent (race_ref 0)"
    by (simp_all add: race_ref_def demo_session_def)
  let ?steps = "steps_to (conc_step demo_ext s False) (race_start, [], [], [])" and ?re = "Redialed 1 None 0 [] ''up:22''"
  have "?steps (race4, [?re] @ ConnDialed ''a'' 1 (race_ref 0) 1 [] ''up:22'' # [], [], [])" using race_dialing by simp
  from race_run [OF this task_step.conn_install [OF race_set [OF race_facts(1)]]] q(3) race_facts(3)
  have "?steps (race5, [?re] @ ConnEnd 1 (race_ref 0) # [], [], [])" by (simp add: race5_def)
  from race_run [OF this task_step.conn_quiet [OF q(1,2)]] have "?steps (race5, [] @ ?re # [], [], [])" by simp
  from race_run [OF this task_step.re_install [OF race_set [OF race_facts(2)]]] race_facts(4)
  have "?steps (race6, [Reconnected 1 None], [], [1])" by (simp add: race6_def)
  then show ?thesis using race_facts(7-9) by (intro exI [of _ race6] exI [of _ "[Reconnected 1 None]"]) simp
qed

definition drop1 :: "nat st" where "drop1 = snd (connectReserve ''a'' (race_ref 1) race_start)"
definition drop2 :: "nat st" where "drop2 = drop1\<lparr>tbl := gm_del ''a'' (tbl drop1)\<rparr>"
definition drop3 :: "nat st" where "drop3 = snd (connectReserve ''a'' (race_ref 0) drop2)"
definition drop4 :: "nat st" where "drop4 = race_dial 0 drop3"
definition drop5 :: "nat st" where "drop5 = snd (setClient demo_ext 2 0 [] ''up:22'' drop4)"
definition drop6 :: "nat st" where "drop6 = race_dial 1 drop5"
definition drop7 :: "nat st" where "drop7 = connectFail ''a'' drop6"

lemma drop_facts:
  "gm_get (tbl drop1) ''a'' = Some 1" "gm_get (tbl drop2) ''a'' = None" "nxt drop2 = 2"
  "fst (st_call (dialFinal demo_ext (deref drop3 (race_ref 0))) drop3) = Inr (0, [], ''up:22'')"
  "fst (setClient demo_ext 2 0 [] ''up:22'' drop4)" "oldTransport drop4 2 = []"
  "\<not> is_ok (fst (st_call (dialFinal demo_ext (deref drop5 (race_ref 1))) drop5))"
  "gm_get (tbl drop6) ''a'' = Some 2" "tbl drop7 = []" "live (st_io drop7) = {0}" "owned drop7 2 = {0}" "s_closed (sess drop7 2) = False"
  by code_simp+

text \<open>A dial that fails late takes the entry of the session that was connected under the id meanwhile.\<close>

theorem failed_dial_drops_other_session:
  "\<exists>st ts. steps_to (conc_step demo_ext s False) (race_start, [], [], []) (st, ts, [2], []) \<and>
     tbl st = [] \<and> 0 \<in> live (st_io st) \<and> owned st 2 = {0} \<and> \<not> s_closed (sess st 2) \<and> 2 \<notin> set (closing ts)"
proof -
  let ?steps = "steps_to (conc_step demo_ext s False) (race_start, [], [], [])" and ?old = "[Closing 1, Connecting ''a'' 1 (race_ref 1)]"
  have "?steps (drop1, [Connecting ''a'' 1 (race_ref 1)], [], [])"
    using race_connect [OF steps_refl, where s = s and st = race_start and ts = "[]" and ss = "[]" and os = "[]" and a = 1] race_facts(11) by (simp add: drop1_def race_start_def)
  then have "?steps (drop2, ?old, [], [])" unfolding drop2_def by (rule steps_snoc) (rule conc_step.disconnect [OF drop_facts(1)])
  from race_connect [OF this drop_facts(2), of 0] drop_facts(3)
  have "?steps (drop3, [] @ Connecting ''a'' 2 (race_ref 0) # ?old, [], [])" by (simp add: drop3_def)
  from race_run [OF this task_step.dial_ok [OF race_dialed [OF drop_facts(4)]]]
  have "?steps (drop4, [] @ ConnDialed ''a'' 2 (race_ref 0) 0 [] ''up:22'' # ?old, [], [])" by (simp add: drop4_def race_dial_def)
  from race_run [OF this task_step.conn_install [OF race_set [OF drop_facts(5)]]] drop_facts(6)
  have "?steps (drop5, [ConnEnd 2 (race_ref 0), Closing 1] @ Connecting ''a'' 1 (race_ref 1) # [], [], [])"
    by (simp add: drop5_def race_ref_def demo_session_def)
  moreover obtain e where "fst (st_call (dialFinal demo_ext (deref drop5 (race_ref 1))) drop5) = Inl e"
    using drop_facts(7) by (cases "fst (st_call (dialFinal demo_ext (deref drop5 (race_ref 1))) drop5)") auto
  ultimately have "?steps (drop6, [ConnEnd 2 (race_ref 0), Closing 1] @ ConnFailed ''a'' 1 # [], [], [])"
    using race_run [OF _ task_step.dial_err [OF race_dialed]] by (fastforce simp: drop6_def race_dial_def)
  from race_run [OF this task_step.conn_failed] drop_facts(8)
  have "?steps (drop7, [ConnEnd 2 (race_ref 0), Closing 1], [2], [])" by (simp add: drop7_def)
  then show ?thesis using drop_facts(9-12) by (intro exI [of _ drop7] exI [of _ "[ConnEnd 2 (race_ref 0), Closing 1]"]) simp
qed

text \<open>The connect above in a calm schedule: the new connection is in its hands.\<close>

definition calm1 :: "nat st" where "calm1 = race_dial 0 race1"

lemma race_calm_dialed:
  "steps_to (conc_step demo_ext s True) (race_start, [], [], []) (calm1, [ConnDialed ''a'' 1 (race_ref 0) 0 [] ''up:22''], [], [])"
proof -
  have f: "fst (st_call (dialFinal demo_ext (deref race1 (race_ref 0))) race1) = Inr (0, [], ''up:22'')" by code_simp
  have "conc_step demo_ext s True (race_start, [], [], []) (race1, [Connecting ''a'' 1 (race_ref 0)], [], [])"
    using race_facts(11)
    by (intro conc_step.connect [OF _ race_resolve]) (simp_all add: userOf_def race_ref_def demo_session_def connectReserve_def race1_def race_start_def connecting_def)
  then have "steps_to (conc_step demo_ext s True) (race_start, [], [], []) (race1, [] @ Connecting ''a'' 1 (race_ref 0) # [], [], [])"
    by (simp add: steps_one)
  from race_run [OF this task_step.dial_ok [OF race_dialed [OF f]]] show ?thesis by (simp add: calm1_def race_dial_def)
qed

theorem interleavings_accounted_witness:
  "0 \<in> live (st_io calm1) \<and> (\<exists>t \<in> set [ConnDialed ''a'' 1 (race_ref 0) 0 [] ''up:22'']. 0 \<in> inHands calm1 t)"
proof -
  have l: "0 \<in> live (st_io calm1)" "tbl calm1 = [(''a'', 1)]" "owned calm1 1 = {}" by code_simp+
  show ?thesis using interleavings_accounted [OF race_start_ok race_calm_dialed l(1)] l by (auto simp: gm_vals_def)
qed

end
