(* ===== verification/LauncherLocal.thy ===== *)
theory LauncherLocal
  imports ProxyRun
begin

text \<open>
  The other branch of \<open>lineSource\<close> (\<open>internal/launcher/proxy.go\<close>): a proxy that is given no channel of lines reads standard input
  itself, in a goroutine of its own attach.  Its steps are those of \<open>LauncherStdin\<close> with another adapter, and it refines them: what is
  shown there of the order and the number of posts holds here too.
\<close>

text \<open>The state: whether the context is cancelled, what is left of standard input, whether \<open>ReadBytes\<close> has reported the error \<open>e\<close> with
  which the input ends, and the bridge.  A line in hand is put into the channel, or given up when the attach ends.\<close>

inductive local_step :: "goerr \<Rightarrow> bool \<times> string \<times> bool \<times> bridge \<Rightarrow> bool \<times> string \<times> bool \<times> bridge \<Rightarrow> bool" for e where
  read: "b_adapter b = ARunning \<Longrightarrow> b_held b = None \<Longrightarrow> readBytesNL inp = (l, rest) \<Longrightarrow>
     local_step e (c, inp, False, b) (c, rest, l = [] \<or> last l \<noteq> NL, b\<lparr>b_held := if trimSpace l \<noteq> [] then Some l else None\<rparr>)"
| over: "b_adapter b = ARunning \<Longrightarrow> b_held b = None \<Longrightarrow>
     local_step e (c, inp, True, b) (c, inp, True, b\<lparr>b_doneCh := Some (Some e), b_adapter := AEnding\<rparr>)"
| other: "bridge_step \<lparr>w_lines = [], w_open = True, w_given = [], w_cancelled = c\<rparr> b w b' \<Longrightarrow>
     (b_adapter b = ARunning \<and> b_adapter b' \<noteq> ARunning \<longrightarrow> b_held b \<noteq> None) \<Longrightarrow>
     local_step e (c, inp, fin, b) (c, inp, fin, b')"
| signal: "local_step e (c, inp, fin, b) (True, inp, fin, b)"

definition ahead :: "string \<Rightarrow> bool \<Rightarrow> string list" where
  "ahead inp fin = (if fin then [] else localLines inp)"

fun asShared :: "string list \<Rightarrow> bool \<times> string \<times> bool \<times> bridge \<Rightarrow> source \<times> bridge list" where
  "asShared ls (c, inp, fin, b) = (\<lparr>w_lines = ahead inp fin, w_open = False, w_given = ls, w_cancelled = c\<rparr>, [b])"

lemma trimSpace_Nil [simp]: "trimSpace [] = []"
  by code_simp

lemma localLines_step:
  assumes "readBytesNL inp = (l, rest)"
  shows "localLines inp = (if trimSpace l \<noteq> [] then [l] else []) @ ahead rest (l = [] \<or> last l \<noteq> NL)"
proof (cases "inp = []")
  case True
  then show ?thesis using assms by (simp add: localLines_def ahead_def)
next
  case False
  have "rest = []" if "l = [] \<or> last l \<noteq> NL"
    using readBytesNL_line [of inp] assms that False readBytesNL_less [OF False] readBytesNL_append [of inp] by auto
  moreover have "stdinLines inp = l # stdinLines rest" using False assms by (subst stdinLines.simps) simp
  ultimately show ?thesis by (auto simp: localLines_def ahead_def)
qed

text \<open>The pieces of a bridge that look neither at the channel of lines nor whether it is open.\<close>

lemma bridge_step_any:
  assumes "bridge_step \<lparr>w_lines = [], w_open = True, w_given = [], w_cancelled = c\<rparr> b w b'"
  shows "bridge_step \<lparr>w_lines = ls, w_open = False, w_given = gs, w_cancelled = c\<rparr> b \<lparr>w_lines = ls, w_open = False, w_given = gs, w_cancelled = c\<rparr> b'"
  using assms by (cases rule: bridge_step.cases) (auto intro: bridge_step.intros)

lemma launch_one: "bridge_step w b w' b' \<Longrightarrow> launch_step (w, [b]) (w', [b'])"
  using launch_step.bridge [of w b w' b' "[]" "[]"] by simp

lemma local_step_shared:
  assumes "local_step IoEOF s s'"
  shows "steps_to launch_step (asShared ls s) (asShared ls s')"
  using assms
proof (cases rule: local_step.cases)
  case (read b inp l rest c)
  note lines = localLines_step [OF read(5)]
  show ?thesis
  proof (cases "trimSpace l = []")
    case True
    then have "asShared ls s = asShared ls s'" using read lines by (simp add: ahead_def)
    then show ?thesis by (simp add: steps_refl)
  next
    case False
    then have "ahead inp False = l # ahead rest (l = [] \<or> last l \<noteq> NL)" using lines by (simp add: ahead_def)
    then show ?thesis using read False bridge_step.take [OF read(3,4), of "\<lparr>w_lines = ahead inp False, w_open = False, w_given = ls, w_cancelled = c\<rparr>"]
      by (auto intro!: steps_one launch_one)
  qed
next
  case (over b c inp)
  then show ?thesis using bridge_step.eof [OF over(3,4)] by (auto simp: ahead_def intro!: steps_one launch_one)
next
  case (other c b w b' inp fin)
  then show ?thesis using bridge_step_any [OF other(3)] by (auto intro!: steps_one launch_one)
next
  case (signal c inp fin b)
  then show ?thesis using launch_step.signal [of "\<lparr>w_lines = ahead inp fin, w_open = False, w_given = ls, w_cancelled = c\<rparr>" "[b]"]
    by (auto intro!: steps_one)
qed

lemma local_steps_shared: "steps_to (local_step IoEOF) s s' \<Longrightarrow> steps_to launch_step (asShared ls s) (asShared ls s')"
  by (induction rule: steps_to.induct) (auto intro: steps_refl steps_trans local_step_shared)

lemma reach_shared: "steps_to launch_step launchInit (\<lparr>w_lines = ls, w_open = False, w_given = ls, w_cancelled = False\<rparr>, [newBridge])"
proof -
  have "steps_to launch_step launchInit (\<lparr>w_lines = ls, w_open = True, w_given = ls, w_cancelled = False\<rparr>, [])"
  proof (induction ls rule: rev_induct)
    case Nil
    then show ?case by (simp add: launchInit_def steps_refl)
  next
    case (snoc l ls)
    then show ?case by (rule steps_snoc) (use launch_step.line [of "\<lparr>w_lines = ls, w_open = True, w_given = ls, w_cancelled = False\<rparr>" "[]" l] in simp)
  qed
  from steps_snoc [OF steps_snoc [OF this launch_step.stdin_end] launch_step.attach] show ?thesis by simp
qed

theorem local_reader_refines:
  assumes "steps_to (local_step IoEOF) (False, inp, False, newBridge) (c, rest, fin, b)"
  shows "steps_to launch_step launchInit (asShared (localLines inp) (c, rest, fin, b))" "subseq (b_started b) (localLines inp)"
    "\<not> c \<Longrightarrow> b_fatal b = None \<Longrightarrow> b_started b @ pendingOf b @ b_out b @ heldOf b @ ahead rest fin = localLines inp"
proof -
  show r: "steps_to launch_step launchInit (asShared (localLines inp) (c, rest, fin, b))"
    using steps_trans [OF reach_shared [of "localLines inp"]] local_steps_shared [OF assms, of "localLines inp"] by (simp add: ahead_def)
  have "launchStart launchInit" by (simp add: launchStart_def launchInit_def)
  from launch_sys.inv_reachable [OF this r]
  have inv: "launch_inv (asShared (localLines inp) (c, rest, fin, b))" .
  have "subseq (b_started b) (contents b @ ahead rest fin)" by (auto simp: contents_def)
  then show "subseq (b_started b) (localLines inp)" using inv by (auto intro: subseq_order.trans)
  show "b_started b @ pendingOf b @ b_out b @ heldOf b @ ahead rest fin = localLines inp" if "\<not> c" "b_fatal b = None"
    using inv that by (auto simp: contents_def undisturbed_def)
qed

end
