(* ===== verification/Spec2Isabelle.thy ===== *)
theory Spec2Isabelle
  imports SshShell StateProps Socks DockerRun Flusher Daemon DockerCopyProps DockerContainer ToolSshProps ToolDockerProps
    SchemaProps SetupProps ProxyRun SpawnProps DaemonProps CliProps SshCalm LauncherLocal
begin

text \<open>
  A model of remote-shell-mcp: a daemon that keeps ssh sessions, docker hosts, shells and port forwards alive and offers them
  as MCP tools over HTTP, the launcher through which an MCP client reaches it, a command line for single calls, and a setup
  that registers the launcher with clients.  The sources are Go.

  \<^bold>\<open>The program.\<close>  \<open>cmd/remote-shell-mcpd\<close> takes a lock file, writes a token, restores the saved state and serves; each
  tool call (\<open>internal/mcptools\<close>) goes to one of two managers.  The ssh manager (\<open>internal/sshx\<close>) maps ids to sessions; a session
  has a client connection (perhaps through jump hosts), forwards, shells, an sftp client, an agent connection and a keepalive
  goroutine that reconnects.  The docker manager (\<open>internal/dockerx\<close>) maps ids to hosts with a docker client (perhaps over ssh)
  and exec shells.  \<open>internal/state\<close> writes what is persistent to \<open>state.json\<close>.  \<open>cmd/remote-shell-mcp\<close> finds or starts the daemon
  (\<open>internal/launcher/spawn.go\<close>), then pumps lines between its standard input and output and the daemon
  (\<open>internal/launcher/proxy.go\<close>); with arguments it makes one call (\<open>cli.go\<close>), or edits the clients' configurations
  (\<open>internal/setup\<close>).

  \<^bold>\<open>How it is modelled.\<close>  Go functions are HOL functions; an error is a value (\<open>goerr\<close>, results in \<open>'a res\<close>), a Go map an
  association list with distinct keys, a pointer a number into a heap that is part of the state.  What the outside does (network,
  ssh, docker, files, processes, codecs) is a record of functions on a hidden world, a parameter (\<open>'w ext\<close>, \<open>'w dext\<close>, \<open>rext\<close>, \<open>kext\<close>,
  \<open>sext\<close>, \<open>cext\<close>, \<open>pext\<close>); what the program holds open of it is a set of handles, so that "closed" and "leaked" are statements
  about that set.  Files that are written in several steps are lists of file system states, one for each moment at which the
  program may be cut off.  Operations are split where the code gives up a lock; where goroutines interleave inside an object,
  the object is a step relation.

  \<^bold>\<open>Shared theories.\<close>  \<open>GoPrelude\<close>, \<open>GoStrings\<close>, \<open>GoPath\<close>, \<open>GoIO\<close>, \<open>GoFiles\<close>, \<open>GoFilesProps\<close>: errors, Go maps, the used parts of
  \<open>strings\<close>, \<open>strconv\<close>, \<open>net\<close>, \<open>path\<close>, \<open>os\<close> and \<open>filepath.Walk\<close>; handles and \<open>acquired\<close>, the calculus of what a run of calls opened and kept.
  Three interfaces are locales:
  \<^item> \<open>registry\<close>, a map of named objects: forwards (\<open>fwd_reg\<close>), ssh shells (\<open>shell_reg\<close>), docker shells (\<open>dshell_reg\<close>);
  \<^item> \<open>step_system\<close>, an invariant of a step relation: the shell buffer (\<open>shell_sys\<close>), the flusher (\<open>flush_sys\<close>), the lock file (\<open>lock_sys\<close>),
    the tool calls (\<open>tool_sys\<close>), the launcher's lines (\<open>launch_sys\<close>) and its exits (\<open>launch_exits\<close>), the goroutines of the ssh
    manager (\<open>conc_sys\<close>, and \<open>calm_sys\<close> for its calm schedules);
  \<^item> \<open>handler_contract\<close>, what every tool handler keeps: the ssh tools (\<open>ssh_contract\<close>) and the docker tools (\<open>docker_contract\<close>).

  \<^bold>\<open>The ssh side\<close> (\<open>internal/sshx\<close>):
  \<^item> \<open>SshSpec\<close>, \<open>SshAuth\<close>, \<open>SshConfig\<close>, \<open>SshConnect\<close>: \<open>spec.go\<close>, \<open>auth.go\<close>, \<open>sshconfig.go\<close>, \<open>connect.go\<close>.  Durations in JSON at 64 bits,
    authentication methods and host keys, the pass over \<open>~/.ssh/config\<close>, addresses, jump chains, the dial.
  \<^item> \<open>SshState\<close>, \<open>SshSession\<close>, \<open>SshHolds\<close>, \<open>SshForward\<close>, \<open>SshManager\<close>, \<open>SshManagerInv\<close>, \<open>SshManagerProps\<close>, \<open>SshShell\<close>, \<open>Socks\<close>:
    \<open>session.go\<close>, \<open>forward.go\<close>, \<open>manager.go\<close>, \<open>shell.go\<close>.  The heap of sessions, forwards and shells and every operation on it;
    \<open>held_ok\<close> and \<open>sess_step\<close> account for what one session holds, \<open>mgr_ok\<close> says that what is open is exactly what the registered
    sessions hold.  \<open>ShellBuf\<close> is the buffer of a shell with its pumps, readers and closers.
  \<^item> \<open>SshSftp\<close>, \<open>SshSftpProps\<close>: \<open>sftp.go\<close>, every file operation and the recursive upload and download.
  \<^item> \<open>SshConc\<close>, \<open>SshRaces\<close>, \<open>SshCalm\<close>: the operations of the manager and of its sessions cut into the pieces between which goroutines
    interleave (\<open>task_step\<close>, \<open>conc_step\<close>), with the same functions of the state as the whole operations; where the open handles are in every
    interleaving (\<open>conc_inv\<close>); the calm schedules, in which nobody connects under an id whose connect is on its way nor reconnects a session
    whose connect is on its way or has failed, and in which nothing is lost (\<open>calm_inv\<close>); two others, in which a connection is.

  \<^bold>\<open>The docker side\<close> (\<open>internal/dockerx\<close>): \<open>DockerHost\<close> and \<open>DockerProps\<close> (\<open>connect.go\<close>, \<open>manager.go\<close>, \<open>shell.go\<close>), \<open>DockerRun\<close> (\<open>run.go\<close>,
  \<open>image.go\<close>), \<open>DockerContainer\<close> (\<open>container.go\<close>), \<open>DockerCopy\<close> and \<open>DockerCopyProps\<close> (\<open>copy.go\<close>).

  \<^bold>\<open>The daemon\<close>: \<open>StateSync\<close>, \<open>StateProps\<close> (\<open>internal/state\<close>; specs are kept by reference where slices are shared), \<open>ToolSsh\<close>, \<open>ToolSshProps\<close>,
  \<open>ToolDocker\<close>, \<open>ToolDockerProps\<close> (the handlers of \<open>internal/mcptools\<close>), \<open>ToolSchema\<close>, \<open>SchemaProps\<close> (what its \<open>Register\<close> functions declare),
  \<open>Flusher\<close> (the debounced writer of its \<open>server.go\<close>), \<open>Daemon\<close> (\<open>internal/daemon\<close>: token, rpc endpoint, lock file), \<open>DaemonMain\<close>,
  \<open>DaemonProps\<close> (\<open>cmd/remote-shell-mcpd\<close>).

  \<^bold>\<open>The launcher\<close>: \<open>Spawn\<close>, \<open>SpawnProps\<close> (\<open>spawn.go\<close>, \<open>handle.go\<close>), \<open>Launcher\<close> (event stream, replies, the loop with its back-off),
  \<open>LauncherStdin\<close> (from standard input to the posts, as a step relation over all attaches), \<open>ProxyRun\<close> (one attach and its watchdog),
  \<open>LauncherLocal\<close> (a proxy that reads standard input itself, which refines \<open>LauncherStdin\<close>).
  \<^bold>\<open>Setup and command line\<close>: \<open>Setup\<close>, \<open>SetupProps\<close> (\<open>internal/setup\<close>), \<open>Cli\<close>, \<open>CliProps\<close> (\<open>cli.go\<close>, the dispatch of \<open>main.go\<close>).

  \<^bold>\<open>What is shown.\<close>  Connecting, opening a forward or a shell, and running a container are all or nothing: on an error the tables and
  the open handles are as before, on success exactly what was opened is accounted for.  Disconnecting and closing everything
  close exactly what was held.  The manager's invariant is kept by every operation, and by any sequence of tool calls; when the goroutines of connects, disconnects,
  reconnects, keepalives and handlers interleave, every open handle is still held by a session or a goroutine, but for two races.  Seen from outside
  the tools implement a set of connected ids and read only the parameters they declare; those that resize a shell, open a forward or change a
  mode check their numbers.  Of the required parameters, those that a tool takes one by one are demanded, those of a struct are not.  A
  shell's readers get its output in order, with at most dropped bytes once the buffer is full.  A directory uploaded as an archive comes
  back as it was, a download stays under its target unless an entry name has a \<open>..\<close> element, a file read is bounded.  The saved state has
  no secrets, is exactly what is persistent, is written atomically and read back; restoring tries every record and keeps those that succeed; no request to
  flush is lost before the disk, and once requests stop the loop is idle after at most 6 steps and 400 ms; a shutdown saves before
  it closes, and the next daemon finds the snapshot.  Only the bearer token opens the daemon, and a command-line call carries the
  token that the daemon published and gets the tools' answer, if its body is within the limit of 4 MiB.  The event stream is decoded as it is defined by
  lines, blocks and fields.  A launcher leaves a daemon that answers alone, hands out only handles whose address answered, retries every attach but one that ends
  with the input or its context, and starts the posts in the order of the lines.  A SOCKS client is told 0 exactly when its destination was reached and 5
  exactly when that failed.  Each command-line argument means what its form says.  The setup changes one entry of a configuration, atomically and with a backup.

  Theorems and lemmas also state where the code falls short of its purpose: endless recursion on a proxy jump cycle, undialable bracketed
  addresses, agent forwarding lost by a reconnect, a shell's end reported before its last output, a double close of a channel, a shell that
  exits before it is registered, a docker shell whose connection is never closed, secrets of jump hosts erased in live sessions by a
  snapshot, sessions forgotten after a failed restore, a state file that does not load and is then replaced, two daemons behind one lock file,
  a starting launcher that kills a daemon before its last write, lines lost at the end of standard input or taken by the reader of a failed
  attach, a snapshot that overwrites a newer flush, a flush put off as long as requests keep coming, a command run without its required command line,
  a shell opened with any size, an agent socket of the caller that the ssh config replaces, an installation into every client at a closed prompt, and, of the two races, a failed dial that drops the session connected meanwhile
  under its id, and a reconnect and a connect of one session of which the later overwrites the client of the other.

  \<^bold>\<open>Fuel and bounds.\<close>  \<open>resolve\<close> (and with it \<open>Connect\<close> and \<open>Restore\<close>) carries a bound on the recursion through proxy jumps and is \<open>None\<close>
  beyond it: \<open>resolve_terminates\<close> gives a bound that is enough when the jump entries can be ranked, \<open>resolve_diverges\<close> shows that
  otherwise none is.  The retry loop of the keepalive carries fuel because it may run for ever, which \<open>attemptReconnect_persists\<close> proves; the
  launcher's loop follows the list of what happened at each attempt, and \<open>launchLoop_persists\<close> shows that failures never end it.  The polling loops of the launcher run on the program's own clock
  for a number of rounds that their deadlines bound; \<open>ensure_daemon_returns\<close> proves that they end within it.  All other
  functions are total.

  \<^bold>\<open>What is not modelled.\<close>  The Windows branches (\<open>lock_windows.go\<close>, \<open>spawn_windows.go\<close>), which only call the system; log output and usage texts;
  the parsing of flags by package \<open>flag\<close>; the redirect that \<open>http.ServeMux\<close> gives to
  unclean paths; an \<open>os.Remove\<close> of the lock or handle file that fails; the descriptions of tools and parameters; commands, file transfers and accepted connections among the interleaved goroutines; the file names Go's \<open>filepath\<close> would use on other systems than Unix.
  \<open>encoding/json\<close>, \<open>time.ParseDuration\<close>, \<open>netip.ParseAddr\<close>, \<open>net/http\<close>, \<open>archive/tar\<close> as bytes, and the third-party packages (ssh, sftp, the
  docker client, mcp-go, toml, toon) are parameters.  Go's unspecified iteration order over maps is the list's order.
  The test harness under \<open>test/\<close> is no part of the program.
\<close>

end
